(* ===== verification/Prelude.thy ===== *)
theory Prelude
  imports Main "HOL-Library.Word"
begin

text \<open>
  Shared vocabulary of the development.

  \<^item> Machine integers.  Sizes, offsets, page numbers and ids (\<open>u64\<close>, \<open>usize\<close>, \<open>u16\<close>, \<open>u8\<close>)
    are natural numbers; every \<open>checked_\<close>, \<open>saturating_\<close> and \<open>try_from\<close> of the source is an
    explicit comparison with the maximum of the type.  Bytes are \<open>8 word\<close>, and hashes and
    flag sets, which the source combines bitwise or with wrapping multiplication, are \<open>64 word\<close>.
  \<^item> Failure.  A function that returns \<open>Result\<close> and may also panic yields an \<open>outcome\<close>; a
    function whose only failure is a panic yields an \<open>option\<close>.
  \<^item> State.  A function on the thread-local state is a state transformer that returns an
    outcome and the state reached, also on an error; \<open>tryS\<close> is the sequencing of Rust's
    question-mark operator.
  \<^item> Byte ranges: \<open>bytes_at\<close> reads a range of a byte-addressed memory, \<open>blit\<close> overwrites one,
    \<open>le_bytes\<close> and \<open>from_le_bytes\<close> are the little-endian encodings.
\<close>

named_theorems arith_defs \<open>the checked machine arithmetic\<close>
named_theorems monad_defs \<open>the state-and-outcome combinators\<close>

section \<open>Machine integers\<close>

type_synonym byte = "8 word"
type_synonym u64w = "64 word"

definition u64_max :: nat where
  "u64_max = 18446744073709551615"

definition usize_max :: nat where
  "usize_max = 18446744073709551615"

definition i64_max :: nat where
  "i64_max = 9223372036854775807"

lemmas int_max_defs = u64_max_def usize_max_def i64_max_def

definition checked_add :: "nat \<Rightarrow> nat \<Rightarrow> nat option" where
  [arith_defs]: "checked_add a b = (if a + b \<le> u64_max then Some (a + b) else None)"

definition checked_mul :: "nat \<Rightarrow> nat \<Rightarrow> nat option" where
  [arith_defs]: "checked_mul a b = (if a * b \<le> u64_max then Some (a * b) else None)"

definition saturating_add :: "nat \<Rightarrow> nat \<Rightarrow> nat" where
  [arith_defs]: "saturating_add a b = min (a + b) u64_max"

definition saturating_mul :: "nat \<Rightarrow> nat \<Rightarrow> nat" where
  [arith_defs]: "saturating_mul a b = min (a * b) u64_max"

definition usize_try_from :: "nat \<Rightarrow> nat option" where
  [arith_defs]: "usize_try_from n = (if n \<le> usize_max then Some n else None)"

definition div_ceil :: "nat \<Rightarrow> nat \<Rightarrow> nat" where
  "div_ceil a b = a div b + (if 0 < a mod b then 1 else 0)"

lemma checked_add_Some [simp]: "checked_add a b = Some c \<longleftrightarrow> c = a + b \<and> a + b \<le> u64_max"
  by (auto simp: arith_defs)

lemma checked_add_None [simp]: "checked_add a b = None \<longleftrightarrow> u64_max < a + b"
  by (auto simp: arith_defs)

lemma checked_mul_Some [simp]: "checked_mul a b = Some c \<longleftrightarrow> c = a * b \<and> a * b \<le> u64_max"
  by (auto simp: arith_defs)

lemma checked_mul_None [simp]: "checked_mul a b = None \<longleftrightarrow> u64_max < a * b"
  by (auto simp: arith_defs)

lemma less_div_ceil_iff:
  assumes b: "0 < b"
  shows "n < div_ceil a b \<longleftrightarrow> n * b < a"
proof -
  define q r where "q = a div b" and "r = a mod b"
  have a: "a = q * b + r" and r: "r < b" using b by (simp_all add: q_def r_def)
  have d: "div_ceil a b = q + (if 0 < r then 1 else 0)" by (simp add: div_ceil_def q_def r_def)
  consider "n < q" | "n = q" | "q + 1 \<le> n" by linarith
  then show ?thesis
  proof cases
    case 1
    then have "n * b < q * b" using b by simp
    with 1 a show ?thesis unfolding d by linarith
  next
    case 2
    with d a show ?thesis by simp
  next
    case 3
    then have "(q + 1) * b \<le> n * b" by (rule mult_le_mono1)
    with 3 d a r show ?thesis by simp
  qed
qed

lemma div_ceil_le_iff: "0 < b \<Longrightarrow> div_ceil a b \<le> n \<longleftrightarrow> a \<le> n * b"
  using less_div_ceil_iff [of b n a] by linarith

lemma div_ceil_0 [simp]: "div_ceil 0 b = 0"
  by (simp add: div_ceil_def)

lemma div_ceil_mono: "0 < b \<Longrightarrow> a \<le> a' \<Longrightarrow> div_ceil a b \<le> div_ceil a' b"
  by (meson div_ceil_le_iff le_trans order_refl)

lemma div_ceil_covers: "0 < b \<Longrightarrow> a \<le> div_ceil a b * b"
  using div_ceil_le_iff [of b a "div_ceil a b"] by simp

lemma div_less_div_ceil: "0 < b \<Longrightarrow> i < a \<Longrightarrow> i div b < div_ceil a b"
  by (simp add: less_div_ceil_iff) (metis div_times_less_eq_dividend le_less_trans)

lemma div_ceil_exact: "a mod b = 0 \<Longrightarrow> div_ceil a b * b = a"
  by (auto simp: div_ceil_def)

section \<open>Outcomes and state transformers\<close>

datatype ('a, 'e) outcome = Ok 'a | Err 'e | Panic

type_synonym ('w, 'a, 'e) stm = "'w \<Rightarrow> ('a, 'e) outcome \<times> 'w"

definition retS :: "'a \<Rightarrow> ('w, 'a, 'e) stm" where
  [monad_defs]: "retS x w = (Ok x, w)"

definition errS :: "'e \<Rightarrow> ('w, 'a, 'e) stm" where
  [monad_defs]: "errS e w = (Err e, w)"

definition panicS :: "('w, 'a, 'e) stm" where
  [monad_defs]: "panicS w = (Panic, w)"

definition tryS :: "('w, 'a, 'e) stm \<Rightarrow> ('a \<Rightarrow> ('w, 'b, 'e) stm) \<Rightarrow> ('w, 'b, 'e) stm" where
  "tryS m k w = (case m w of
      (Ok x, w') \<Rightarrow> k x w'
    | (Err e, w') \<Rightarrow> (Err e, w')
    | (Panic, w') \<Rightarrow> (Panic, w'))"

definition getS :: "('w \<Rightarrow> 'a) \<Rightarrow> ('w, 'a, 'e) stm" where
  [monad_defs]: "getS f w = (Ok (f w), w)"

definition modifyS :: "('w \<Rightarrow> 'w) \<Rightarrow> ('w, unit, 'e) stm" where
  [monad_defs]: "modifyS f w = (Ok (), f w)"

definition ok_orS :: "'e \<Rightarrow> 'a option \<Rightarrow> ('w, 'a, 'e) stm" where
  "ok_orS e v = (case v of Some x \<Rightarrow> retS x | None \<Rightarrow> errS e)"

lemma tryS_simps [simp]:
  "m w = (Ok x, w') \<Longrightarrow> tryS m k w = k x w'"
  "m w = (Err e, w') \<Longrightarrow> tryS m k w = (Err e, w')"
  "m w = (Panic, w') \<Longrightarrow> tryS m k w = (Panic, w')"
  by (simp_all add: tryS_def)

lemma tryS_retS [simp]: "tryS (retS x) k = k x"
  by (simp add: fun_eq_iff tryS_def retS_def)

lemma tryS_errS [simp]: "tryS (errS e) k = errS e"
  by (simp add: fun_eq_iff tryS_def errS_def)

lemma tryS_getS [simp]: "tryS (getS f) k w = k (f w) w"
  by (simp add: tryS_def getS_def)

lemma tryS_modifyS [simp]: "tryS (modifyS f) k w = k () (f w)"
  by (simp add: tryS_def modifyS_def)

lemma retS_app [simp]: "retS x w = (Ok y, w') \<longleftrightarrow> x = y \<and> w = w'"
  by (simp add: retS_def)

lemma errS_app [simp]: "errS e w = (Ok y, w') \<longleftrightarrow> False"
  by (simp add: errS_def)

lemma ok_orS_simps [simp]: "ok_orS e (Some x) = retS x" "ok_orS e None = errS e"
  by (simp_all add: ok_orS_def)

lemma tryS_Ok_iff:
  "tryS m k w = (Ok y, w2) \<longleftrightarrow> (\<exists>x w1. m w = (Ok x, w1) \<and> k x w1 = (Ok y, w2))"
  by (auto simp: tryS_def split: prod.splits outcome.splits)

lemma tryS_assoc: "tryS (tryS m k) h w = tryS m (\<lambda>x. tryS (k x) h) w"
  by (auto simp: tryS_def split: prod.splits outcome.splits)

lemma tryS_cases:
  obtains (Ok) x w1 where "m w = (Ok x, w1)" "tryS m k w = k x w1"
  | (Err) e w1 where "m w = (Err e, w1)" "tryS m k w = (Err e, w1)"
  | (Panic) w1 where "m w = (Panic, w1)" "tryS m k w = (Panic, w1)"
  by (cases "m w"; cases "fst (m w)") auto

section \<open>Byte ranges\<close>

definition bytes_at :: "(nat \<Rightarrow> 'a) \<Rightarrow> nat \<Rightarrow> nat \<Rightarrow> 'a list" where
  "bytes_at f off n = map f [off..<off + n]"

definition blit :: "(nat \<Rightarrow> 'a) \<Rightarrow> nat \<Rightarrow> 'a list \<Rightarrow> (nat \<Rightarrow> 'a)" where
  "blit f off bs = (\<lambda>i. if off \<le> i \<and> i < off + length bs then bs ! (i - off) else f i)"

lemma length_bytes_at [simp]: "length (bytes_at f off n) = n"
  by (simp add: bytes_at_def)

lemma nth_bytes_at [simp]: "i < n \<Longrightarrow> bytes_at f off n ! i = f (off + i)"
  by (simp add: bytes_at_def)

lemma bytes_at_0 [simp]: "bytes_at f off 0 = []"
  by (simp add: bytes_at_def)

lemma bytes_at_eq_Nil [simp]: "bytes_at f off n = [] \<longleftrightarrow> n = 0"
  by (simp flip: length_0_conv)

lemma bytes_at_append: "bytes_at f off n @ bytes_at f (off + n) m = bytes_at f off (n + m)"
  by (rule nth_equalityI) (auto simp: nth_append)

lemma bytes_at_split: "m \<le> n \<Longrightarrow> bytes_at f off n = bytes_at f off m @ bytes_at f (off + m) (n - m)"
  by (simp add: bytes_at_append)

lemma bytes_at_cong:
  "(\<And>i. off \<le> i \<Longrightarrow> i < off + n \<Longrightarrow> f i = g i) \<Longrightarrow> bytes_at f off n = bytes_at g off n"
  by (simp add: bytes_at_def)

lemma bytes_at_eqI:
  "length xs = n \<Longrightarrow> (\<And>i. i < n \<Longrightarrow> xs ! i = f (off + i)) \<Longrightarrow> xs = bytes_at f off n"
  by (rule nth_equalityI) auto

lemma take_bytes_at: "take m (bytes_at f off n) = bytes_at f off (min m n)"
  by (rule nth_equalityI) auto

lemma drop_bytes_at: "drop m (bytes_at f off n) = bytes_at f (off + m) (n - m)"
  by (rule nth_equalityI) (auto simp: algebra_simps)

lemma set_bytes_at: "set (bytes_at f off n) = (\<lambda>i. f (off + i)) ` {..<n}"
proof -
  have "{off..<off + n} = (\<lambda>i. off + i) ` {..<n}"
    by (simp add: image_add_atLeastLessThan lessThan_atLeast0 add.commute)
  then show ?thesis by (simp add: bytes_at_def image_image)
qed

lemma list_all_bytes_at: "list_all P (bytes_at f off n) \<longleftrightarrow> (\<forall>i < n. P (f (off + i)))"
  by (auto simp: list_all_iff set_bytes_at)

lemma all_from_upto: "(\<forall>b. n \<le> b \<longrightarrow> b < m \<longrightarrow> Q b) \<longleftrightarrow> (\<forall>i < m - n. Q (n + i))" for n m :: nat
  by (auto simp: nat_le_iff_add)

lemma blit_Nil [simp]: "blit f off [] = f"
  by (auto simp: blit_def fun_eq_iff)

lemma blit_in: "off \<le> i \<Longrightarrow> i < off + length bs \<Longrightarrow> blit f off bs i = bs ! (i - off)"
  by (simp add: blit_def)

lemma blit_out: "i < off \<or> off + length bs \<le> i \<Longrightarrow> blit f off bs i = f i"
  by (auto simp: blit_def)

lemma blit_other: "(\<And>y. y < length bs \<Longrightarrow> a \<noteq> off + y) \<Longrightarrow> blit f off bs a = f a"
  by (auto simp: blit_def) (metis add_diff_inverse_nat leD nat_add_left_cancel_less)

lemma blit_append: "blit (blit f off xs) (off + length xs) ys = blit f off (xs @ ys)"
  by (auto simp: blit_def fun_eq_iff nth_append)

lemma bytes_at_blit_same [simp]: "n = length bs \<Longrightarrow> bytes_at (blit f off bs) off n = bs"
  by (rule nth_equalityI) (auto simp: blit_def)

lemma bytes_at_blit_disjoint:
  "off + n \<le> o2 \<or> o2 + length bs \<le> off \<Longrightarrow> bytes_at (blit f o2 bs) off n = bytes_at f off n"
  by (rule bytes_at_cong) (auto simp: blit_def)

text \<open>The slice \<open>bs[a..a + n]\<close> of a buffer.\<close>

definition slice :: "'a list \<Rightarrow> nat \<Rightarrow> nat \<Rightarrow> 'a list" where
  "slice bs a n = take n (drop a bs)"

lemma length_slice [simp]: "a + n \<le> length bs \<Longrightarrow> length (slice bs a n) = n"
  by (simp add: slice_def)

lemma nth_slice [simp]: "a + n \<le> length bs \<Longrightarrow> i < n \<Longrightarrow> slice bs a n ! i = bs ! (a + i)"
  by (simp add: slice_def)

lemma slice_bytes_at: "a + n \<le> m \<Longrightarrow> slice (bytes_at f off m) a n = bytes_at f (off + a) n"
  by (rule nth_equalityI) (auto simp: add.assoc)

lemma slice_append_left: "a + n \<le> length xs \<Longrightarrow> slice (xs @ ys) a n = slice xs a n"
  by (simp add: slice_def)

lemma slice_append_right:
  "length xs \<le> a \<Longrightarrow> slice (xs @ ys) a n = slice ys (a - length xs) n"
  by (simp add: slice_def)

lemma slice_exact: "n = length xs \<Longrightarrow> slice xs 0 n = xs"
  by (simp add: slice_def)

lemma bytes_at_blit_slice:
  "off \<le> a \<Longrightarrow> a + n \<le> off + length bs \<Longrightarrow> bytes_at (blit f off bs) a n = slice bs (a - off) n"
  by (rule nth_equalityI) (auto simp: blit_def)

text \<open>Concatenating records of one width \<open>w\<close> puts record \<open>i\<close> at offset \<open>i * w\<close>.\<close>

lemma slice_concat_map:
  "(\<And>x. length (g x) = w) \<Longrightarrow> i < length xs \<Longrightarrow> slice (concat (map g xs)) (i * w) w = g (xs ! i)"
proof (induction xs arbitrary: i)
  case (Cons x xs)
  then show ?case
    by (cases i) (auto simp: slice_def)
qed simp

lemma length_concat_map: "(\<And>x. length (g x) = w) \<Longrightarrow> length (concat (map g xs)) = length xs * w"
  by (induction xs) auto

lemma set_tl: "x \<in> set (tl xs) \<Longrightarrow> x \<in> set xs"
  by (cases xs) auto

section \<open>Little-endian encodings\<close>

fun le_bytes :: "nat \<Rightarrow> nat \<Rightarrow> byte list" where
  "le_bytes 0 n = []"
| "le_bytes (Suc k) n = of_nat n # le_bytes k (n div 256)"

lemma unat_byte_bound: "unat (b :: byte) < 256"
  using unsigned_less [of b] by simp

fun from_le_bytes :: "byte list \<Rightarrow> nat" where
  "from_le_bytes [] = 0"
| "from_le_bytes (b # bs) = unat b + 256 * from_le_bytes bs"

lemma length_le_bytes [simp]: "length (le_bytes k n) = k"
  by (induction k arbitrary: n) auto

lemma from_le_bytes_le_bytes: "from_le_bytes (le_bytes k n) = n mod 256 ^ k"
proof (induction k arbitrary: n)
  case 0
  then show ?case by simp
next
  case (Suc k)
  have "unat (of_nat n :: byte) = n mod 256" by (simp add: unat_of_nat)
  then show ?case using Suc by (simp add: mod_mult2_eq algebra_simps)
qed

lemma from_le_bytes_le_bytes_id [simp]: "n < 256 ^ k \<Longrightarrow> from_le_bytes (le_bytes k n) = n"
  by (simp add: from_le_bytes_le_bytes)

lemma from_le_bytes_bound: "from_le_bytes bs < 256 ^ length bs"
proof (induction bs)
  case Nil
  then show ?case by simp
next
  case (Cons b bs)
  have "unat b < 256" by (rule unat_byte_bound)
  then have "unat b + 256 * from_le_bytes bs < 256 * 256 ^ length bs" using Cons by linarith
  then show ?case by simp
qed

lemma le_bytes_from_le_bytes: "le_bytes (length bs) (from_le_bytes bs) = bs"
proof (induction bs)
  case Nil
  then show ?case by simp
next
  case (Cons b bs)
  have b: "unat b < 256" by (rule unat_byte_bound)
  have "of_nat 256 = (0 :: byte)" by (simp only: of_nat_numeral) simp
  then have "(of_nat (unat b + 256 * from_le_bytes bs) :: byte) = b"
    by (simp only: of_nat_add of_nat_mult) simp
  then show ?case using Cons b by simp
qed

lemma pow256_8: "(256::nat) ^ 8 = u64_max + 1"
  by (simp add: u64_max_def)

lemma u64_le_bytes [simp]: "n \<le> u64_max \<Longrightarrow> from_le_bytes (le_bytes 8 n) = n"
  using pow256_8 by (intro from_le_bytes_le_bytes_id) simp

lemma u32_le_bytes [simp]: "n < 4294967296 \<Longrightarrow> from_le_bytes (le_bytes 4 n) = n"
  by (rule from_le_bytes_le_bytes_id) simp

lemma u16_le_bytes [simp]: "n < 65536 \<Longrightarrow> from_le_bytes (le_bytes 2 n) = n"
  by (rule from_le_bytes_le_bytes_id) simp

lemma unat_u64_bound [simp]: "unat (x :: u64w) \<le> u64_max"
proof -
  have "unat x < 2 ^ LENGTH(64)" by (rule unsigned_less)
  then show ?thesis by (simp add: u64_max_def)
qed

end
