(* ===== verification/Raw_Memory.thy ===== *)
theory Raw_Memory
  imports Prelude
begin

text \<open>
  The constants of \<open>src/src/config.rs\<close> and the memory backends of
  \<open>src/src/stable/raw_memory.rs\<close>.

  The trait \<open>Memory\<close> is a record of operations, passed as a dictionary to the definitions that
  are generic in it; the value a method mutates through interior mutability is returned.  A
  panic is \<open>None\<close>.  \<open>read_unsafe\<close> writes the same bytes as \<open>read\<close> to a raw destination and has
  no field of its own; \<open>identity\<close>, which only the registration of a memory uses, is a function
  beside the record.  The locale \<open>byte_memory\<close> is the contract clients rely on; it is
  interpreted on \<open>VectorMemory\<close>, the native backend.  The canister backend \<open>Ic0StableMemory\<close>
  calls the system API and is covered by the contract only.

  A \<open>Vec<u8>\<close> of stable memory is its length and a byte-valued function: the contents beyond
  the length are never read.
\<close>

named_theorems config_defs \<open>layout constants of the crate\<close>

section \<open>Constants (config.rs)\<close>

definition SQLITE_PAGE_SIZE :: nat where
  [config_defs]: "SQLITE_PAGE_SIZE = 16384"

definition STABLE_PAGE_SIZE :: nat where
  [config_defs]: "STABLE_PAGE_SIZE = 65536"

definition SUPERBLOCK_OFFSET :: nat where
  [config_defs]: "SUPERBLOCK_OFFSET = 0"

definition SUPERBLOCK_SIZE :: nat where
  [config_defs]: "SUPERBLOCK_SIZE = STABLE_PAGE_SIZE"

definition DB_REGION_OFFSET :: nat where
  [config_defs]: "DB_REGION_OFFSET = SUPERBLOCK_OFFSET + SUPERBLOCK_SIZE"

lemma page_sizes_pos [simp]: "0 < SQLITE_PAGE_SIZE" "0 < STABLE_PAGE_SIZE"
  by (simp_all add: config_defs)

section \<open>The trait Memory\<close>

datatype memory_backend_identity = Ic0StableMemoryIdentity | AddressIdentity nat

record 'v memory_ops =
  mem_size :: "'v \<Rightarrow> nat"
  mem_grow :: "'v \<Rightarrow> nat \<Rightarrow> (int \<times> 'v) option"
  mem_read :: "'v \<Rightarrow> nat \<Rightarrow> nat \<Rightarrow> (byte list \<times> 'v) option"
  mem_write :: "'v \<Rightarrow> nat \<Rightarrow> byte list \<Rightarrow> 'v option"

text \<open>
  What every client of a memory relies on: sizes are whole pages whose byte count fits
  \<open>u64\<close>; growing either fails and changes nothing or appends pages and keeps the bytes that
  were there; in bounds, reading returns the stored bytes and writing changes exactly the
  given range; out of bounds they panic.
\<close>

locale byte_memory =
  fixes M :: "'v memory_ops"
    and inv :: "'v \<Rightarrow> bool"
    and byte_of :: "'v \<Rightarrow> nat \<Rightarrow> byte"
  assumes size_bound: "inv v \<Longrightarrow> mem_size M v * STABLE_PAGE_SIZE \<le> u64_max"
    and grow_total: "inv v \<Longrightarrow> \<exists>r v'. mem_grow M v n = Some (r, v')"
    and grow_failed: "inv v \<Longrightarrow> mem_grow M v n = Some (r, v') \<Longrightarrow> r < 0 \<Longrightarrow> v' = v"
    and grow_ok: "inv v \<Longrightarrow> mem_grow M v n = Some (r, v') \<Longrightarrow> 0 \<le> r \<Longrightarrow>
      inv v' \<and> r = int (mem_size M v) \<and> mem_size M v' = mem_size M v + n \<and>
      (\<forall>i < mem_size M v * STABLE_PAGE_SIZE. byte_of v' i = byte_of v i)"
    and read_ok: "inv v \<Longrightarrow> off + n \<le> mem_size M v * STABLE_PAGE_SIZE \<Longrightarrow>
      \<exists>v'. mem_read M v off n = Some (bytes_at (byte_of v) off n, v') \<and> inv v' \<and>
        mem_size M v' = mem_size M v \<and> byte_of v' = byte_of v"
    and write_ok: "inv v \<Longrightarrow> off + length bs \<le> mem_size M v * STABLE_PAGE_SIZE \<Longrightarrow>
      \<exists>v'. mem_write M v off bs = Some v' \<and> inv v' \<and>
        mem_size M v' = mem_size M v \<and> byte_of v' = blit (byte_of v) off bs"
    and read_oob: "inv v \<Longrightarrow> 0 < n \<Longrightarrow> mem_size M v * STABLE_PAGE_SIZE < off + n \<Longrightarrow>
      mem_read M v off n = None"
    and write_oob: "inv v \<Longrightarrow> bs \<noteq> [] \<Longrightarrow> mem_size M v * STABLE_PAGE_SIZE < off + length bs \<Longrightarrow>
      mem_write M v off bs = None"
begin

lemma read_Some:
  assumes "inv v" "off + n \<le> mem_size M v * STABLE_PAGE_SIZE"
  obtains v' where "mem_read M v off n = Some (bytes_at (byte_of v) off n, v')" "inv v'"
    "mem_size M v' = mem_size M v" "byte_of v' = byte_of v"
  using read_ok [OF assms] by blast

lemma write_Some:
  assumes "inv v" "off + length bs \<le> mem_size M v * STABLE_PAGE_SIZE"
  obtains v' where "mem_write M v off bs = Some v'" "inv v'"
    "mem_size M v' = mem_size M v" "byte_of v' = blit (byte_of v) off bs"
  using write_ok [OF assms] by blast

lemma read_after_write:
  assumes "inv v" "off + length bs \<le> mem_size M v * STABLE_PAGE_SIZE"
    and "mem_write M v off bs = Some v'"
  shows "\<exists>v''. mem_read M v' off (length bs) = Some (bs, v'')"
proof -
  from assms have "inv v'" "mem_size M v' = mem_size M v" "byte_of v' = blit (byte_of v) off bs"
    using write_ok by fastforce+
  with assms(2) show ?thesis using read_ok [of v' off "length bs"] by auto
qed

end

section \<open>VectorMemory\<close>

record vec_mem =
  vec_addr :: nat
  vec_len :: nat
  vec_byte :: "nat \<Rightarrow> byte"

definition checked_end :: "nat \<Rightarrow> nat \<Rightarrow> nat option" where
  "checked_end off len = (case checked_add off len of
      None \<Rightarrow> None
    | Some e \<Rightarrow> if e \<le> usize_max then Some e else None)"

definition vec_identity :: "vec_mem \<Rightarrow> memory_backend_identity" where
  "vec_identity v = AddressIdentity (vec_addr v)"

definition vec_size :: "vec_mem \<Rightarrow> nat" where
  "vec_size v = vec_len v div STABLE_PAGE_SIZE"

definition vec_resize :: "vec_mem \<Rightarrow> nat \<Rightarrow> vec_mem" where
  "vec_resize v n = v\<lparr>vec_len := n, vec_byte := (\<lambda>i. if i < vec_len v then vec_byte v i else 0)\<rparr>"

definition as_i64 :: "nat \<Rightarrow> int" where
  "as_i64 n = (if n \<le> i64_max then int n else int n - 18446744073709551616)"

definition vec_grow :: "vec_mem \<Rightarrow> nat \<Rightarrow> (int \<times> vec_mem) option" where
  "vec_grow v pages =
    (let size = vec_size v in
     case checked_add size pages of None \<Rightarrow> Some (- 1, v)
     | Some next_size \<Rightarrow>
       (case checked_mul next_size STABLE_PAGE_SIZE of None \<Rightarrow> Some (- 1, v)
        | Some next_bytes \<Rightarrow>
            if usize_max < next_bytes then Some (- 1, v)
            else Some (as_i64 size, vec_resize v next_bytes)))"

definition vec_read :: "vec_mem \<Rightarrow> nat \<Rightarrow> nat \<Rightarrow> (byte list \<times> vec_mem) option" where
  "vec_read v off n = (case checked_end off n of
      None \<Rightarrow> None
    | Some e \<Rightarrow> if e \<le> vec_len v then Some (bytes_at (vec_byte v) off n, v) else None)"

definition vec_write :: "vec_mem \<Rightarrow> nat \<Rightarrow> byte list \<Rightarrow> vec_mem option" where
  "vec_write v off src = (case checked_end off (length src) of
      None \<Rightarrow> None
    | Some e \<Rightarrow> if e \<le> vec_len v then Some (v\<lparr>vec_byte := blit (vec_byte v) off src\<rparr>) else None)"

definition vector_memory :: "vec_mem memory_ops" where
  "vector_memory = \<lparr>mem_size = vec_size, mem_grow = vec_grow,
     mem_read = vec_read, mem_write = vec_write\<rparr>"

text \<open>\<open>VectorMemory::default()\<close>: an empty vector at some address.\<close>

definition vec_empty :: "nat \<Rightarrow> vec_mem" where
  "vec_empty a = \<lparr>vec_addr = a, vec_len = 0, vec_byte = (\<lambda>_. 0)\<rparr>"

definition vec_inv :: "vec_mem \<Rightarrow> bool" where
  "vec_inv v \<longleftrightarrow> vec_len v mod STABLE_PAGE_SIZE = 0 \<and> vec_len v \<le> u64_max"

lemma vector_memory_simps [simp]:
  "mem_size vector_memory = vec_size"
  "mem_grow vector_memory = vec_grow" "mem_read vector_memory = vec_read"
  "mem_write vector_memory = vec_write"
  by (simp_all add: vector_memory_def)

lemma vec_inv_empty [simp]: "vec_inv (vec_empty a)"
  by (simp add: vec_inv_def vec_empty_def)

lemma vec_inv_bytes: "vec_inv v \<Longrightarrow> vec_size v * STABLE_PAGE_SIZE = vec_len v"
  by (auto simp: vec_inv_def vec_size_def)

lemma checked_end_Some [simp]: "checked_end off n = Some e \<longleftrightarrow> e = off + n \<and> off + n \<le> u64_max"
  by (auto simp: checked_end_def int_max_defs split: option.splits)

lemma checked_end_None [simp]: "checked_end off n = None \<longleftrightarrow> u64_max < off + n"
  by (auto simp: checked_end_def int_max_defs split: option.splits)

lemma vec_grow_cases:
  assumes "vec_inv v"
  shows "vec_grow v n =
    (if (vec_size v + n) * STABLE_PAGE_SIZE \<le> u64_max
     then Some (int (vec_size v), vec_resize v ((vec_size v + n) * STABLE_PAGE_SIZE))
     else Some (- 1, v))"
proof -
  have "vec_size v \<le> i64_max"
    using assms by (auto simp: vec_inv_def vec_size_def int_max_defs config_defs)
  moreover have "(vec_size v + n) * STABLE_PAGE_SIZE \<le> u64_max \<Longrightarrow> vec_size v + n \<le> u64_max"
    by (simp add: config_defs)
  ultimately show ?thesis
    by (auto simp: vec_grow_def Let_def as_i64_def int_max_defs split: option.splits)
qed

interpretation vec: byte_memory vector_memory vec_inv vec_byte
proof (unfold_locales, goal_cases)
  case (1 v)
  then show ?case by (simp add: vec_inv_bytes) (simp add: vec_inv_def)
next
  case (2 v n)
  then show ?case by (simp add: vec_grow_cases)
next
  case (3 v n r v')
  then show ?case by (simp add: vec_grow_cases split: if_splits)
next
  case (4 v n r v')
  then show ?case
    by (auto simp: vec_grow_cases vec_resize_def vec_inv_def vec_size_def split: if_splits)
next
  case (5 v off n)
  then show ?case by (auto simp: vec_inv_bytes vec_read_def vec_inv_def split: option.splits)
next
  case (6 v off bs)
  then show ?case
    by (auto simp: vec_inv_bytes vec_write_def vec_inv_def vec_size_def split: option.splits)
next
  case (7 v n off)
  then show ?case by (auto simp: vec_inv_bytes vec_read_def split: option.splits)
next
  case (8 v bs off)
  then show ?case by (auto simp: vec_inv_bytes vec_write_def split: option.splits)
qed

end
