(* ===== verification/Memory_Layout.thy ===== *)
theory Memory_Layout
  imports Raw_Memory
begin

text \<open>
  The shared constants and helpers of the MemoryManager layout,
  \<open>src/src/stable/memory_layout.rs\<close>: the byte format of the header, memory and bucket ids, the
  overflow-safe containment of virtual segments, the one-bucket translation cache, and the
  growing write.  A \<open>MemoryId\<close> is its \<open>u8\<close>, a \<open>BucketId\<close> its \<open>u16\<close>.
\<close>

section \<open>Constants\<close>

definition MGR_MAGIC :: "byte list" where
  [config_defs]: "MGR_MAGIC = [77, 71, 82]"

definition LAYOUT_VERSION :: byte where
  [config_defs]: "LAYOUT_VERSION = 1"

definition MAX_NUM_MEMORIES :: nat where
  [config_defs]: "MAX_NUM_MEMORIES = 255"

definition MAX_NUM_BUCKETS :: nat where
  [config_defs]: "MAX_NUM_BUCKETS = 32768"

definition BUCKET_SIZE_IN_PAGES :: nat where
  [config_defs]: "BUCKET_SIZE_IN_PAGES = 128"

definition UNALLOCATED_BUCKET_MARKER :: nat where
  [config_defs]: "UNALLOCATED_BUCKET_MARKER = MAX_NUM_MEMORIES"

definition BUCKETS_OFFSET_IN_PAGES :: nat where
  [config_defs]: "BUCKETS_OFFSET_IN_PAGES = 1"

definition BUCKETS_OFFSET_IN_BYTES :: nat where
  [config_defs]: "BUCKETS_OFFSET_IN_BYTES = BUCKETS_OFFSET_IN_PAGES * STABLE_PAGE_SIZE"

definition HEADER_RESERVED_BYTES :: nat where
  [config_defs]: "HEADER_RESERVED_BYTES = 32"

definition HEADER_SIZE :: nat where
  [config_defs]: "HEADER_SIZE = 3 + 1 + 2 + 2 + HEADER_RESERVED_BYTES + 255 * 8"

section \<open>Identifiers and segments\<close>

type_synonym memory_id = nat
type_synonym bucket_id = nat

text \<open>\<open>MemoryId::new\<close> asserts that the id is not the unallocated marker.\<close>

definition memory_id_new :: "nat \<Rightarrow> memory_id option" where
  "memory_id_new i = (if i \<noteq> UNALLOCATED_BUCKET_MARKER then Some i else None)"

record virtual_segment =
  seg_address :: nat
  seg_length :: nat

definition virtual_segment_contains :: "nat \<Rightarrow> nat \<Rightarrow> nat \<Rightarrow> nat \<Rightarrow> bool" where
  "virtual_segment_contains address len other_address other_len =
    (if u64_max - address < len then False
     else if u64_max - other_address < other_len then False
     else address \<le> other_address \<and> other_address + other_len \<le> address + len)"

definition segment_contains :: "virtual_segment \<Rightarrow> virtual_segment \<Rightarrow> bool" where
  "segment_contains s other =
     virtual_segment_contains (seg_address s) (seg_length s) (seg_address other) (seg_length other)"

text \<open>Containment is inclusion of the half-open ranges, and a range that would wrap around is
  in no segment and contains none.\<close>

lemma virtual_segment_contains_iff:
  assumes "a \<le> u64_max" "b \<le> u64_max"
  shows "virtual_segment_contains a l b m \<longleftrightarrow>
    a + l \<le> u64_max \<and> b + m \<le> u64_max \<and> a \<le> b \<and> b + m \<le> a + l"
  using assms by (auto simp: virtual_segment_contains_def)

section \<open>The bucket cache\<close>

record bucket_cache =
  cache_bucket :: virtual_segment
  cache_real_address :: nat

definition bucket_cache_new :: bucket_cache where
  "bucket_cache_new = \<lparr>cache_bucket = \<lparr>seg_address = 0, seg_length = 0\<rparr>, cache_real_address = 0\<rparr>"

definition bucket_cache_get :: "bucket_cache \<Rightarrow> virtual_segment \<Rightarrow> nat option" where
  "bucket_cache_get c s =
    (if segment_contains (cache_bucket c) s
     then Some (cache_real_address c + (seg_address s - seg_address (cache_bucket c)))
     else None)"

definition bucket_cache_store :: "virtual_segment \<Rightarrow> nat \<Rightarrow> bucket_cache \<Rightarrow> bucket_cache" where
  "bucket_cache_store b real c = c\<lparr>cache_bucket := b, cache_real_address := real\<rparr>"

section \<open>Addresses and growing writes\<close>

definition bucket_allocations_address :: "bucket_id \<Rightarrow> nat" where
  "bucket_allocations_address b = HEADER_SIZE + b"

lemma bucket_allocations_address_0 [simp]: "bucket_allocations_address 0 = HEADER_SIZE"
  by (simp add: bucket_allocations_address_def)

definition read_u64 :: "byte list \<Rightarrow> nat" where
  "read_u64 bs = from_le_bytes bs"

definition write_growing :: "'v memory_ops \<Rightarrow> 'v \<Rightarrow> nat \<Rightarrow> byte list \<Rightarrow> 'v option" where
  "write_growing M v off bs =
    (case checked_add off (length bs) of None \<Rightarrow> None
     | Some e \<Rightarrow>
       (case checked_mul (mem_size M v) STABLE_PAGE_SIZE of None \<Rightarrow> None
        | Some size_bytes \<Rightarrow>
            if size_bytes < e then
              (case mem_grow M v (div_ceil (e - size_bytes) STABLE_PAGE_SIZE) of None \<Rightarrow> None
               | Some (r, v') \<Rightarrow> if 0 \<le> r then mem_write M v' off bs else None)
            else mem_write M v off bs))"

text \<open>In bounds, a growing write is a write; beyond the end it grows by the missing pages.\<close>

context byte_memory
begin

lemma write_growing_in_bounds:
  assumes "inv v" "off + length bs \<le> mem_size M v * STABLE_PAGE_SIZE"
  obtains v' where "write_growing M v off bs = Some v'" "inv v'"
    "mem_size M v' = mem_size M v" "byte_of v' = blit (byte_of v) off bs"
proof -
  have "mem_size M v * STABLE_PAGE_SIZE \<le> u64_max" using assms(1) by (rule size_bound)
  with assms(2) have "write_growing M v off bs = mem_write M v off bs"
    by (auto simp: write_growing_def split: option.splits)
  with write_Some [OF assms] that show ?thesis by metis
qed

lemma write_growing_grows:
  assumes v: "inv v" and e: "mem_size M v * STABLE_PAGE_SIZE < off + length bs"
    and g: "mem_grow M v (div_ceil (off + length bs - mem_size M v * STABLE_PAGE_SIZE) STABLE_PAGE_SIZE)
      = Some (r, g')" "0 \<le> r" and fit: "off + length bs \<le> u64_max"
  obtains v' where "write_growing M v off bs = Some v'" "inv v'"
    "mem_size M v' = div_ceil (off + length bs) STABLE_PAGE_SIZE"
    "bytes_at (byte_of v') off (length bs) = bs"
proof -
  let ?P = STABLE_PAGE_SIZE and ?s = "mem_size M v * STABLE_PAGE_SIZE"
  let ?n = "div_ceil (off + length bs - ?s) ?P"
  have gi: "inv g'" "mem_size M g' = mem_size M v + ?n"
    using grow_ok [OF v g] by simp_all
  have "off + length bs - ?s \<le> ?n * ?P" by (rule div_ceil_covers) simp
  then have le: "off + length bs \<le> mem_size M g' * ?P" using e gi by (simp add: algebra_simps)
  obtain v' where w: "mem_write M g' off bs = Some v'" "inv v'" "mem_size M v' = mem_size M g'"
    "byte_of v' = blit (byte_of g') off bs"
    using write_Some [OF gi(1) le] by blast
  have "write_growing M v off bs = Some v'"
    using size_bound [OF v] e g fit w(1) by (auto simp: write_growing_def split: option.splits)
  moreover have "mem_size M v + ?n = div_ceil (off + length bs) ?P"
  proof (rule antisym)
    have "?n \<le> div_ceil (off + length bs) ?P - mem_size M v"
      using e div_ceil_covers [of ?P "off + length bs"]
      by (simp add: div_ceil_le_iff diff_mult_distrib)
    moreover have "mem_size M v < div_ceil (off + length bs) ?P"
      using e by (simp add: less_div_ceil_iff)
    ultimately show "mem_size M v + ?n \<le> div_ceil (off + length bs) ?P" by linarith
    show "div_ceil (off + length bs) ?P \<le> mem_size M v + ?n"
      using le gi by (simp add: div_ceil_le_iff)
  qed
  ultimately show ?thesis using that w gi by simp
qed

end

end
