(* ===== verification/Memory_Validation.thy ===== *)
theory Memory_Validation
  imports Memory_Layout
begin

text \<open>
  The load-time consistency checks of \<open>src/src/stable/memory_manager_validation.rs\<close>.  The loops
  that return at the first bad entry are recursive functions over the entries; reading the
  backing memory is a state transformer on it, because a read may update caches.  The lemmas
  characterise each check, and \<open>try_load_validated_layout_Ok\<close> says exactly which images are
  accepted and what is loaded from them.
\<close>

record loaded_memory_manager =
  lm_allocated_buckets :: nat
  lm_bucket_size_in_pages :: nat
  lm_memory_sizes_in_pages :: "nat list"
  lm_memory_buckets :: "bucket_id list list"

datatype layout_error =
    AllocatedBucketsExceedsMaximum
  | BucketSizeIsZero
  | BucketRangeOverflows
  | BackingMemoryTruncated
  | MemorySizeOverflowsBytes nat
  | AllocatedBucketHasNoOwner
  | UnallocatedBucketHasOwner
  | MemorySizeAndBucketsMismatch nat

definition readS :: "'v memory_ops \<Rightarrow> nat \<Rightarrow> nat \<Rightarrow> ('v, byte list, 'e) stm" where
  "readS M off n v = (case mem_read M v off n of None \<Rightarrow> (Panic, v) | Some (bs, v') \<Rightarrow> (Ok bs, v'))"

definition sumS :: "'e + 'a \<Rightarrow> ('w, 'a, 'e) stm" where
  [monad_defs]: "sumS r = (case r of Inl e \<Rightarrow> errS e | Inr x \<Rightarrow> retS x)"

lemma sumS_simps [simp]: "sumS (Inl e) = errS e" "sumS (Inr x) = retS x"
  by (simp_all add: sumS_def)

section \<open>The checks\<close>

definition validate_backing_memory_size ::
    "'v memory_ops \<Rightarrow> 'v \<Rightarrow> nat \<Rightarrow> nat \<Rightarrow> layout_error + unit" where
  "validate_backing_memory_size M v allocated bucket_size =
    (case checked_mul bucket_size allocated of None \<Rightarrow> Inl BucketRangeOverflows
     | Some required_data_pages \<Rightarrow>
       (case checked_add BUCKETS_OFFSET_IN_PAGES required_data_pages of
          None \<Rightarrow> Inl BucketRangeOverflows
        | Some required_pages \<Rightarrow>
            if mem_size M v < required_pages then Inl BackingMemoryTruncated else Inr ()))"

fun read_sizes_from :: "nat \<Rightarrow> nat \<Rightarrow> byte list \<Rightarrow> nat list" where
  "read_sizes_from 0 off header = []"
| "read_sizes_from (Suc k) off header =
     read_u64 (slice header off 8) # read_sizes_from k (off + 8) header"

definition read_memory_sizes :: "byte list \<Rightarrow> nat list" where
  "read_memory_sizes header =
     read_sizes_from MAX_NUM_MEMORIES (3 + 1 + 2 + 2 + HEADER_RESERVED_BYTES) header"

fun validate_sizes_from :: "nat \<Rightarrow> nat list \<Rightarrow> layout_error + unit" where
  "validate_sizes_from i [] = Inr ()"
| "validate_sizes_from i (pages # rest) =
     (if checked_mul pages STABLE_PAGE_SIZE = None then Inl (MemorySizeOverflowsBytes i)
      else validate_sizes_from (Suc i) rest)"

definition validate_memory_sizes_fit_bytes :: "nat list \<Rightarrow> layout_error + unit" where
  "validate_memory_sizes_fit_bytes sizes = validate_sizes_from 0 sizes"

fun collect_buckets ::
    "bucket_id \<Rightarrow> byte list \<Rightarrow> bucket_id list list \<Rightarrow> layout_error + bucket_id list list" where
  "collect_buckets bucket [] acc = Inr acc"
| "collect_buckets bucket (owner # rest) acc =
     (if unat owner = MAX_NUM_MEMORIES then Inl AllocatedBucketHasNoOwner
      else collect_buckets (Suc bucket) rest
             (acc[unat owner := acc ! unat owner @ [bucket]]))"

definition read_validated_buckets ::
    "'v memory_ops \<Rightarrow> nat \<Rightarrow> ('v, bucket_id list list, layout_error) stm" where
  "read_validated_buckets M allocated =
    tryS (readS M (bucket_allocations_address 0) MAX_NUM_BUCKETS) (\<lambda>buckets.
    tryS (sumS (collect_buckets 0 (take allocated buckets) (replicate MAX_NUM_MEMORIES [])))
      (\<lambda>memory_buckets.
    if list_all (\<lambda>owner. unat owner = UNALLOCATED_BUCKET_MARKER) (drop allocated buckets)
    then retS memory_buckets
    else errS UnallocatedBucketHasOwner))"

fun validate_counts_from ::
    "nat \<Rightarrow> nat \<Rightarrow> nat list \<Rightarrow> bucket_id list list \<Rightarrow> layout_error + unit" where
  "validate_counts_from bs i [] buckets = Inr ()"
| "validate_counts_from bs i (pages # rest) buckets =
     (if div_ceil pages bs \<noteq> length (buckets ! i) then Inl (MemorySizeAndBucketsMismatch i)
      else validate_counts_from bs (Suc i) rest buckets)"

definition validate_bucket_counts ::
    "nat \<Rightarrow> nat list \<Rightarrow> bucket_id list list \<Rightarrow> layout_error + unit" where
  "validate_bucket_counts bs sizes buckets = validate_counts_from bs 0 sizes buckets"

definition try_load_validated_layout ::
    "'v memory_ops \<Rightarrow> byte list \<Rightarrow> ('v, loaded_memory_manager, layout_error) stm" where
  "try_load_validated_layout M header =
    (let allocated = from_le_bytes (slice header 4 2);
         bucket_size = from_le_bytes (slice header 6 2)
     in
     if MAX_NUM_BUCKETS < allocated then errS AllocatedBucketsExceedsMaximum
     else if bucket_size = 0 then errS BucketSizeIsZero
     else
       (let sizes = read_memory_sizes header in
        tryS (sumS (validate_memory_sizes_fit_bytes sizes)) (\<lambda>_.
        tryS (read_validated_buckets M allocated) (\<lambda>memory_buckets.
        tryS (sumS (validate_bucket_counts bucket_size sizes memory_buckets)) (\<lambda>_.
        tryS (\<lambda>v. sumS (validate_backing_memory_size M v allocated bucket_size) v) (\<lambda>_.
        retS \<lparr>lm_allocated_buckets = allocated, lm_bucket_size_in_pages = bucket_size,
              lm_memory_sizes_in_pages = sizes, lm_memory_buckets = memory_buckets\<rparr>))))))"

section \<open>What each check decides\<close>

lemma length_read_sizes_from [simp]: "length (read_sizes_from k off h) = k"
  by (induction k arbitrary: off) auto

lemma nth_read_sizes_from:
  "i < k \<Longrightarrow> read_sizes_from k off h ! i = read_u64 (slice h (off + 8 * i) 8)"
proof (induction k arbitrary: off i)
  case (Suc k)
  then show ?case by (cases i) (auto simp: algebra_simps)
qed simp

lemma validate_sizes_from_ok:
  "validate_sizes_from i sizes = Inr () \<longleftrightarrow> (\<forall>s \<in> set sizes. s * STABLE_PAGE_SIZE \<le> u64_max)"
  by (induction sizes arbitrary: i) (auto simp: not_less)

lemma validate_counts_from_ok:
  "validate_counts_from bs i sizes buckets = Inr () \<longleftrightarrow>
    (\<forall>k < length sizes. length (buckets ! (i + k)) = div_ceil (sizes ! k) bs)"
proof (induction sizes arbitrary: i)
  case (Cons s sizes)
  then show ?case by (auto simp: All_less_Suc2)
qed simp

lemma collect_buckets_ok:
  assumes "length acc = MAX_NUM_MEMORIES"
  shows "(\<exists>out. collect_buckets b owners acc = Inr out) \<longleftrightarrow>
    (\<forall>o' \<in> set owners. unat o' \<noteq> MAX_NUM_MEMORIES)"
  using assms by (induction owners arbitrary: b acc) auto

lemma collect_buckets_result:
  assumes "length acc = MAX_NUM_MEMORIES" and "collect_buckets b owners acc = Inr out"
  shows "length out = MAX_NUM_MEMORIES \<and> (\<forall>i < MAX_NUM_MEMORIES.
    out ! i = acc ! i @ map (\<lambda>k. b + k) [k \<leftarrow> [0..<length owners]. unat (owners ! k) = i])"
  using assms
proof (induction owners arbitrary: b acc)
  case Nil
  then show ?case by simp
next
  case (Cons o' owners)
  let ?acc = "acc[unat o' := acc ! unat o' @ [b]]"
  from Cons.prems have ne: "unat o' \<noteq> MAX_NUM_MEMORIES"
    and step: "collect_buckets (Suc b) owners ?acc = Inr out"
    by (auto split: if_splits)
  have lt: "unat o' < MAX_NUM_MEMORIES"
    using ne unat_byte_bound [of o'] by (simp add: config_defs)
  have IH: "length out = MAX_NUM_MEMORIES" "\<And>i. i < MAX_NUM_MEMORIES \<Longrightarrow>
    out ! i = ?acc ! i @ map (\<lambda>k. Suc b + k) [k \<leftarrow> [0..<length owners]. unat (owners ! k) = i]"
    using Cons.IH [of ?acc "Suc b"] Cons.prems(1) step by auto
  have shift: "[k \<leftarrow> [0..<Suc (length owners)]. unat ((o' # owners) ! k) = i] =
      (if unat o' = i then [0] else []) @ map Suc [k \<leftarrow> [0..<length owners]. unat (owners ! k) = i]" for i
    by (simp add: upt_conv_Cons map_Suc_upt [symmetric] filter_map o_def del: upt_Suc)
  show ?case
    using IH lt Cons.prems(1) by (auto simp: shift o_def nth_list_update simp del: upt_Suc)
qed

text \<open>The buckets of memory \<open>i\<close> in an allocation table with \<open>n\<close> allocated entries.\<close>

definition owned_buckets :: "(nat \<Rightarrow> byte) \<Rightarrow> nat \<Rightarrow> memory_id \<Rightarrow> bucket_id list" where
  "owned_buckets owner n i = [b \<leftarrow> [0..<n]. unat (owner b) = i]"

lemma collect_buckets_table:
  "collect_buckets 0 (bytes_at f off n) (replicate MAX_NUM_MEMORIES []) = Inr out \<longleftrightarrow>
    (\<forall>b < n. unat (f (off + b)) \<noteq> MAX_NUM_MEMORIES) \<and>
    out = map (owned_buckets (\<lambda>b. f (off + b)) n) [0..<MAX_NUM_MEMORIES]"
  (is "?c = Inr out \<longleftrightarrow> ?owned \<and> out = ?out")
proof -
  have ok: "(\<exists>o'. ?c = Inr o') \<longleftrightarrow> ?owned"
    using collect_buckets_ok [of "replicate MAX_NUM_MEMORIES []" 0 "bytes_at f off n"]
    by (auto simp: set_bytes_at)
  have "o' = ?out" if "?c = Inr o'" for o'
  proof (rule nth_equalityI)
    show "length o' = length ?out" using collect_buckets_result [OF _ that] by simp
    fix i assume "i < length o'"
    then have i: "i < MAX_NUM_MEMORIES" using collect_buckets_result [OF _ that] by simp
    then have "o' ! i = [k \<leftarrow> [0..<n]. unat (bytes_at f off n ! k) = i]"
      using collect_buckets_result [OF _ that] by simp
    also have "\<dots> = [k \<leftarrow> [0..<n]. unat (f (off + k)) = i]"
      by (rule filter_cong) auto
    finally show "o' ! i = ?out ! i" using i by (simp add: owned_buckets_def)
  qed
  with ok show ?thesis by metis
qed

section \<open>Accepted images\<close>

text \<open>
  What a loaded state says of the bytes \<open>f\<close> and the page count of the image it was loaded
  from: the header fields, the allocation table read as bucket lists, and the consistency the
  checks establish.
\<close>

definition header_u16 :: "(nat \<Rightarrow> byte) \<Rightarrow> nat \<Rightarrow> nat" where
  "header_u16 f off = from_le_bytes (bytes_at f off 2)"

definition header_sizes :: "(nat \<Rightarrow> byte) \<Rightarrow> nat list" where
  "header_sizes f = map (\<lambda>i. read_u64 (bytes_at f (40 + 8 * i) 8)) [0..<MAX_NUM_MEMORIES]"

definition table_owner :: "(nat \<Rightarrow> byte) \<Rightarrow> bucket_id \<Rightarrow> byte" where
  "table_owner f b = f (HEADER_SIZE + b)"

definition table_wf :: "(nat \<Rightarrow> byte) \<Rightarrow> nat \<Rightarrow> bool" where
  "table_wf f n \<longleftrightarrow> n \<le> MAX_NUM_BUCKETS \<and>
     (\<forall>b < n. unat (table_owner f b) \<noteq> UNALLOCATED_BUCKET_MARKER) \<and>
     (\<forall>b. n \<le> b \<longrightarrow> b < MAX_NUM_BUCKETS \<longrightarrow> unat (table_owner f b) = UNALLOCATED_BUCKET_MARKER)"

definition table_buckets :: "(nat \<Rightarrow> byte) \<Rightarrow> nat \<Rightarrow> bucket_id list list" where
  "table_buckets f n = map (owned_buckets (table_owner f) n) [0..<MAX_NUM_MEMORIES]"

definition valid_layout :: "(nat \<Rightarrow> byte) \<Rightarrow> nat \<Rightarrow> loaded_memory_manager \<Rightarrow> bool" where
  "valid_layout f pages l \<longleftrightarrow>
     lm_allocated_buckets l = header_u16 f 4 \<and> lm_bucket_size_in_pages l = header_u16 f 6 \<and>
     lm_memory_sizes_in_pages l = header_sizes f \<and>
     lm_memory_buckets l = table_buckets f (lm_allocated_buckets l) \<and>
     table_wf f (lm_allocated_buckets l) \<and> 0 < lm_bucket_size_in_pages l \<and>
     (\<forall>s \<in> set (lm_memory_sizes_in_pages l). s * STABLE_PAGE_SIZE \<le> u64_max) \<and>
     (\<forall>i < MAX_NUM_MEMORIES. length (lm_memory_buckets l ! i) =
        div_ceil (lm_memory_sizes_in_pages l ! i) (lm_bucket_size_in_pages l)) \<and>
     BUCKETS_OFFSET_IN_PAGES + lm_bucket_size_in_pages l * lm_allocated_buckets l \<le> pages"

lemma read_memory_sizes_header:
  "read_memory_sizes (bytes_at f 0 HEADER_SIZE) = header_sizes f"
  by (rule nth_equalityI)
    (auto simp: read_memory_sizes_def header_sizes_def nth_read_sizes_from slice_bytes_at config_defs)

lemma header_u16_slice:
  "off + 2 \<le> HEADER_SIZE \<Longrightarrow> from_le_bytes (slice (bytes_at f 0 HEADER_SIZE) off 2) = header_u16 f off"
  by (simp add: slice_bytes_at header_u16_def)

lemma header_u16_bound: "header_u16 f off < 65536"
  using from_le_bytes_bound [of "bytes_at f off 2"] by (simp add: header_u16_def)

lemma validate_backing_memory_size_ok:
  assumes "a < 65536" "bs < 65536"
  shows "validate_backing_memory_size M v a bs = Inr () \<longleftrightarrow>
    BUCKETS_OFFSET_IN_PAGES + bs * a \<le> mem_size M v"
proof -
  have "bs * a \<le> 65536 * 65536" using assms by (intro mult_le_mono) auto
  then have fits: "bs * a \<le> u64_max" "BUCKETS_OFFSET_IN_PAGES + bs * a \<le> u64_max"
    by (simp_all add: int_max_defs config_defs)
  then have "checked_mul bs a = Some (bs * a)"
    "checked_add BUCKETS_OFFSET_IN_PAGES (bs * a) = Some (BUCKETS_OFFSET_IN_PAGES + bs * a)"
    by simp_all
  then show ?thesis by (simp add: validate_backing_memory_size_def del: checked_add_Some checked_mul_Some)
qed

lemma sumS_Ok_iff: "sumS r v = (Ok x, v') \<longleftrightarrow> r = Inr x \<and> v' = v"
  by (cases r) auto

context byte_memory
begin

lemma read_validated_buckets_Ok:
  assumes v: "inv v" "1 \<le> mem_size M v" and n: "n \<le> MAX_NUM_BUCKETS"
  obtains v' where "inv v'" "mem_size M v' = mem_size M v" "byte_of v' = byte_of v"
    "\<And>out v2. read_validated_buckets M n v = (Ok out, v2) \<longleftrightarrow>
       v2 = v' \<and> table_wf (byte_of v) n \<and> out = table_buckets (byte_of v) n"
proof -
  let ?f = "byte_of v"
  have le: "HEADER_SIZE + MAX_NUM_BUCKETS \<le> mem_size M v * STABLE_PAGE_SIZE"
    using v(2) by (simp add: config_defs)
  obtain v' where "mem_read M v HEADER_SIZE MAX_NUM_BUCKETS =
      Some (bytes_at ?f HEADER_SIZE MAX_NUM_BUCKETS, v')"
    and v': "inv v'" "mem_size M v' = mem_size M v" "byte_of v' = ?f"
    using read_Some [OF v(1) le] by blast
  then have r: "readS M HEADER_SIZE MAX_NUM_BUCKETS v =
      (Ok (bytes_at ?f HEADER_SIZE MAX_NUM_BUCKETS), v')"
    by (simp add: readS_def)
  have rest: "list_all (\<lambda>owner. unat owner = UNALLOCATED_BUCKET_MARKER)
      (drop n (bytes_at ?f HEADER_SIZE MAX_NUM_BUCKETS)) \<longleftrightarrow>
    (\<forall>b. n \<le> b \<longrightarrow> b < MAX_NUM_BUCKETS \<longrightarrow> unat (table_owner ?f b) = UNALLOCATED_BUCKET_MARKER)"
    by (simp add: drop_bytes_at list_all_bytes_at all_from_upto table_owner_def add.assoc)
  have first: "collect_buckets 0 (take n (bytes_at ?f HEADER_SIZE MAX_NUM_BUCKETS))
      (replicate MAX_NUM_MEMORIES []) = Inr out \<longleftrightarrow>
    (\<forall>b < n. unat (table_owner ?f b) \<noteq> UNALLOCATED_BUCKET_MARKER) \<and> out = table_buckets ?f n" for out
    using n by (simp add: take_bytes_at min_absorb1 collect_buckets_table table_buckets_def
        UNALLOCATED_BUCKET_MARKER_def) (simp add: table_owner_def [abs_def])
  have "read_validated_buckets M n v = (Ok out, v2) \<longleftrightarrow>
      v2 = v' \<and> table_wf ?f n \<and> out = table_buckets ?f n" for out v2
    using n by (auto simp: read_validated_buckets_def r tryS_Ok_iff sumS_Ok_iff
        rest first table_wf_def)
  with v' that show ?thesis by blast
qed

lemma try_load_validated_layout_Ok:
  assumes v: "inv v" "1 \<le> mem_size M v"
  obtains v' where "inv v'" "mem_size M v' = mem_size M v" "byte_of v' = byte_of v"
    "\<And>l v2. try_load_validated_layout M (bytes_at (byte_of v) 0 HEADER_SIZE) v = (Ok l, v2) \<longleftrightarrow>
       v2 = v' \<and> valid_layout (byte_of v) (mem_size M v) l"
proof -
  let ?f = "byte_of v" and ?h = "bytes_at (byte_of v) 0 HEADER_SIZE"
  let ?a = "header_u16 ?f 4" and ?bs = "header_u16 ?f 6"
  have h: "from_le_bytes (slice ?h 4 2) = ?a" "from_le_bytes (slice ?h 6 2) = ?bs"
    by (rule header_u16_slice, simp add: config_defs)+
  show ?thesis
  proof (cases "?a \<le> MAX_NUM_BUCKETS")
    case False
    then have "try_load_validated_layout M ?h v = (Ok l, v2) \<longleftrightarrow>
      v2 = v \<and> valid_layout ?f (mem_size M v) l" for l v2
      by (auto simp: try_load_validated_layout_def h valid_layout_def table_wf_def)
    with that v show ?thesis by blast
  next
    case True
    obtain v' where v': "inv v'" "mem_size M v' = mem_size M v" "byte_of v' = byte_of v"
      and r: "\<And>out v2. read_validated_buckets M ?a v = (Ok out, v2) \<longleftrightarrow>
         v2 = v' \<and> table_wf ?f ?a \<and> out = table_buckets ?f ?a"
      using read_validated_buckets_Ok [OF v True] by blast
    have len: "length (header_sizes ?f) = MAX_NUM_MEMORIES" by (simp add: header_sizes_def)
    have "try_load_validated_layout M ?h v = (Ok l, v2) \<longleftrightarrow>
        v2 = v' \<and> valid_layout ?f (mem_size M v) l" for l v2
      using True by (cases l) (auto simp: try_load_validated_layout_def h Let_def tryS_Ok_iff
          sumS_Ok_iff r v' len read_memory_sizes_header validate_memory_sizes_fit_bytes_def
          validate_sizes_from_ok validate_bucket_counts_def validate_counts_from_ok
          validate_backing_memory_size_ok header_u16_bound valid_layout_def)
    with that v' show ?thesis by blast
  qed
qed

end

end
