(* ===== verification/Memory_Manager.thy ===== *)
theory Memory_Manager
  imports Memory_Validation
begin

text \<open>
  The MemoryManager of \<open>src/src/stable/memory_manager.rs\<close>: one backing memory is divided into
  buckets, each owned by one of 255 virtual memories.

  \<open>manager_inner\<close> is \<open>MemoryManagerInner\<close>, generic in the backing memory through the
  dictionary \<open>M\<close>.  A \<open>VirtualMemory\<close> is a handle (its memory id and its bucket cache) together
  with the shared manager; \<open>virtual_memory M\<close> is its implementation of the trait \<open>Memory\<close>.
  The closure of \<open>for_each_bucket\<close> is a state transformer, because it mutates the caller's
  buffer position and the backing memory.  A \<open>try_reserve\<close> of the heap is taken to succeed.

  The invariant \<open>mm_inv\<close> says that the image in the backing memory is valid and that loading it
  gives back exactly the state on the heap.
\<close>

section \<open>State\<close>

record memory_identity =
  mi_backend :: memory_backend_identity
  mi_id :: memory_id

datatype init_message = UnsupportedVersion | LayoutMessage layout_error

datatype memory_manager_init_error =
    InitBucketSizeIsZero
  | NonMemoryManagerLayout
  | InvalidLayout init_message

record 'm manager_inner =
  mm_memory :: 'm
  allocated_buckets :: nat
  bucket_size_in_pages :: nat
  memory_sizes_in_pages :: "nat list"
  memory_buckets :: "bucket_id list list"

record vm_handle =
  vm_id :: memory_id
  vm_cache :: bucket_cache

section \<open>Sizes and addresses\<close>

definition memory_size :: "'m manager_inner \<Rightarrow> memory_id \<Rightarrow> nat" where
  "memory_size mm i = memory_sizes_in_pages mm ! i"

definition bucket_size_in_bytes :: "'m manager_inner \<Rightarrow> nat" where
  "bucket_size_in_bytes mm = bucket_size_in_pages mm * STABLE_PAGE_SIZE"

definition num_buckets_needed :: "'m manager_inner \<Rightarrow> nat \<Rightarrow> nat" where
  "num_buckets_needed mm pages = div_ceil pages (bucket_size_in_pages mm)"

definition bucket_address :: "'m manager_inner \<Rightarrow> bucket_id \<Rightarrow> nat" where
  "bucket_address mm b = BUCKETS_OFFSET_IN_BYTES + bucket_size_in_bytes mm * b"

definition assert_bounds :: "'m manager_inner \<Rightarrow> memory_id \<Rightarrow> nat \<Rightarrow> nat \<Rightarrow> bool" where
  "assert_bounds mm i off len =
    (case checked_add off len of None \<Rightarrow> False
     | Some e \<Rightarrow> (case checked_mul (memory_size mm i) STABLE_PAGE_SIZE of None \<Rightarrow> False
        | Some capacity \<Rightarrow> e \<le> capacity))"

section \<open>Creating and loading\<close>

definition encode_header :: "'m manager_inner \<Rightarrow> byte list" where
  "encode_header mm =
     MGR_MAGIC @ [LAYOUT_VERSION] @ le_bytes 2 (allocated_buckets mm) @
     le_bytes 2 (bucket_size_in_pages mm) @ replicate HEADER_RESERVED_BYTES 0 @
     concat (map (le_bytes 8) (memory_sizes_in_pages mm))"

definition save_header :: "'m memory_ops \<Rightarrow> 'm manager_inner \<Rightarrow> 'm manager_inner option" where
  "save_header M mm =
    (case write_growing M (mm_memory mm) 0 (encode_header mm) of None \<Rightarrow> None
     | Some m \<Rightarrow> Some (mm\<lparr>mm_memory := m\<rparr>))"

definition mm_new :: "'m memory_ops \<Rightarrow> 'm \<Rightarrow> nat \<Rightarrow> 'm manager_inner option" where
  "mm_new M m bucket_size =
    (let manager = \<lparr>mm_memory = m, allocated_buckets = 0, bucket_size_in_pages = bucket_size,
           memory_sizes_in_pages = replicate MAX_NUM_MEMORIES 0,
           memory_buckets = replicate MAX_NUM_MEMORIES []\<rparr>
     in case write_growing M (mm_memory manager) (bucket_allocations_address 0)
               (replicate MAX_NUM_BUCKETS (of_nat UNALLOCATED_BUCKET_MARKER)) of None \<Rightarrow> None
        | Some m' \<Rightarrow> save_header M (manager\<lparr>mm_memory := m'\<rparr>))"

definition manager_of_layout :: "'m \<Rightarrow> loaded_memory_manager \<Rightarrow> 'm manager_inner" where
  "manager_of_layout m l = \<lparr>mm_memory = m, allocated_buckets = lm_allocated_buckets l,
     bucket_size_in_pages = lm_bucket_size_in_pages l,
     memory_sizes_in_pages = lm_memory_sizes_in_pages l, memory_buckets = lm_memory_buckets l\<rparr>"

definition mm_try_load ::
    "'m memory_ops \<Rightarrow> 'm \<Rightarrow> ('m manager_inner, memory_manager_init_error) outcome" where
  "mm_try_load M m =
    (case mem_read M m 0 HEADER_SIZE of None \<Rightarrow> Panic
     | Some (header, m1) \<Rightarrow>
         if slice header 0 3 \<noteq> MGR_MAGIC then Err NonMemoryManagerLayout
         else if header ! 3 \<noteq> LAYOUT_VERSION then Err (InvalidLayout UnsupportedVersion)
         else (case try_load_validated_layout M header m1 of
             (Ok l, m2) \<Rightarrow> Ok (manager_of_layout m2 l)
           | (Err e, _) \<Rightarrow> Err (InvalidLayout (LayoutMessage e))
           | (Panic, _) \<Rightarrow> Panic))"

text \<open>\<open>load\<close> asserts the magic and the version and panics where \<open>try_load\<close> returns an error.\<close>

definition mm_load :: "'m memory_ops \<Rightarrow> 'm \<Rightarrow> 'm manager_inner option" where
  "mm_load M m =
    (case mem_read M m 0 HEADER_SIZE of None \<Rightarrow> None
     | Some (header, m1) \<Rightarrow>
         if slice header 0 3 \<noteq> MGR_MAGIC then None
         else if header ! 3 \<noteq> LAYOUT_VERSION then None
         else (case try_load_validated_layout M header m1 of
             (Ok l, m2) \<Rightarrow> Some (manager_of_layout m2 l)
           | _ \<Rightarrow> None))"

definition mm_init :: "'m memory_ops \<Rightarrow> 'm \<Rightarrow> nat \<Rightarrow> 'm manager_inner option" where
  "mm_init M m bucket_size =
    (if mem_size M m = 0 then mm_new M m bucket_size
     else case mem_read M m 0 3 of None \<Rightarrow> None
       | Some (magic, m1) \<Rightarrow>
           if magic = MGR_MAGIC then mm_load M m1 else mm_new M m1 bucket_size)"

definition mm_init_strict ::
    "'m memory_ops \<Rightarrow> 'm \<Rightarrow> nat \<Rightarrow> ('m manager_inner, memory_manager_init_error) outcome" where
  "mm_init_strict M m bucket_size =
    (if mem_size M m = 0 then
       (case mm_new M m bucket_size of None \<Rightarrow> Panic | Some mm \<Rightarrow> Ok mm)
     else case mem_read M m 0 3 of None \<Rightarrow> Panic
       | Some (magic, m1) \<Rightarrow>
           if magic \<noteq> MGR_MAGIC then Err NonMemoryManagerLayout else mm_try_load M m1)"

definition init_with_bucket_size :: "'m memory_ops \<Rightarrow> 'm \<Rightarrow> nat \<Rightarrow> 'm manager_inner option" where
  "init_with_bucket_size M m bucket_size =
    (if bucket_size = 0 then None else mm_init M m bucket_size)"

definition init_strict_with_bucket_size ::
    "'m memory_ops \<Rightarrow> 'm \<Rightarrow> nat \<Rightarrow> ('m manager_inner, memory_manager_init_error) outcome" where
  "init_strict_with_bucket_size M m bucket_size =
    (if bucket_size = 0 then Err InitBucketSizeIsZero else mm_init_strict M m bucket_size)"

definition manager_init :: "'m memory_ops \<Rightarrow> 'm \<Rightarrow> 'm manager_inner option" where
  "manager_init M m = init_with_bucket_size M m BUCKET_SIZE_IN_PAGES"

definition manager_init_strict ::
    "'m memory_ops \<Rightarrow> 'm \<Rightarrow> ('m manager_inner, memory_manager_init_error) outcome" where
  "manager_init_strict M m = init_strict_with_bucket_size M m BUCKET_SIZE_IN_PAGES"

definition manager_get :: "memory_id \<Rightarrow> vm_handle" where
  "manager_get i = \<lparr>vm_id = i, vm_cache = bucket_cache_new\<rparr>"

section \<open>Growing\<close>

text \<open>One round of the allocation loop per new bucket; the bucket counter is a checked \<open>u16\<close>.\<close>

fun allocate_buckets ::
    "'m memory_ops \<Rightarrow> memory_id \<Rightarrow> nat \<Rightarrow> 'm manager_inner \<Rightarrow> 'm manager_inner option" where
  "allocate_buckets M i 0 mm = Some mm"
| "allocate_buckets M i (Suc n) mm =
    (let bucket = allocated_buckets mm in
     case write_growing M (mm_memory mm) (bucket_allocations_address bucket) [of_nat i] of
       None \<Rightarrow> None
     | Some m \<Rightarrow>
         if 65535 < bucket + 1 then None
         else allocate_buckets M i n
           (mm\<lparr>mm_memory := m, allocated_buckets := bucket + 1,
               memory_buckets := (memory_buckets mm)[i := memory_buckets mm ! i @ [bucket]]\<rparr>))"

text \<open>The backing memory is grown to the required page count when it is smaller.\<close>

definition reserve_pages ::
    "'m memory_ops \<Rightarrow> 'm manager_inner \<Rightarrow> nat \<Rightarrow> (bool \<times> 'm manager_inner) option" where
  "reserve_pages M mm pages_needed =
    (let current_pages = mem_size M (mm_memory mm) in
     if current_pages < pages_needed then
       (case mem_grow M (mm_memory mm) (pages_needed - current_pages) of None \<Rightarrow> None
        | Some (previous, m) \<Rightarrow> Some (0 \<le> previous, mm\<lparr>mm_memory := m\<rparr>))
     else Some (True, mm))"

definition mm_grow ::
    "'m memory_ops \<Rightarrow> 'm manager_inner \<Rightarrow> memory_id \<Rightarrow> nat \<Rightarrow> (int \<times> 'm manager_inner) option" where
  "mm_grow M mm i pages =
    (let old_size = memory_size mm i in
     case checked_add old_size pages of None \<Rightarrow> Some (- 1, mm)
     | Some new_size \<Rightarrow>
       (let new_buckets = num_buckets_needed mm new_size - num_buckets_needed mm old_size in
        case checked_add new_buckets (allocated_buckets mm) of None \<Rightarrow> Some (- 1, mm)
        | Some target \<Rightarrow>
          if MAX_NUM_BUCKETS < target then Some (- 1, mm)
          else case usize_try_from new_buckets of None \<Rightarrow> Some (- 1, mm)
          | Some _ \<Rightarrow>
            (case checked_mul (bucket_size_in_pages mm) target of None \<Rightarrow> Some (- 1, mm)
             | Some data_pages \<Rightarrow>
               (case checked_add BUCKETS_OFFSET_IN_PAGES data_pages of None \<Rightarrow> Some (- 1, mm)
                | Some pages_needed \<Rightarrow>
                  (case reserve_pages M mm pages_needed of None \<Rightarrow> None
                   | Some (grown, mm1) \<Rightarrow>
                     if \<not> grown then Some (- 1, mm1)
                     else case allocate_buckets M i new_buckets mm1 of None \<Rightarrow> None
                     | Some mm2 \<Rightarrow>
                       (case save_header M
                          (mm2\<lparr>memory_sizes_in_pages := (memory_sizes_in_pages mm2)[i := new_size]\<rparr>) of
                          None \<Rightarrow> None
                        | Some mm3 \<Rightarrow> Some (as_i64 old_size, mm3)))))))"

text \<open>The \<open>Drop\<close> of \<open>AllocationRollback\<close>, run while a panic of the loop unwinds: the owner
  bytes of the buckets recorded so far are reset to the unallocated marker.\<close>

fun allocation_rollback :: "'m memory_ops \<Rightarrow> bucket_id list \<Rightarrow> 'm \<Rightarrow> 'm option" where
  "allocation_rollback M [] m = Some m"
| "allocation_rollback M (b # bs) m =
    (case write_growing M m (bucket_allocations_address b) [of_nat UNALLOCATED_BUCKET_MARKER] of
       None \<Rightarrow> None
     | Some m' \<Rightarrow> allocation_rollback M bs m')"

section \<open>Reading and writing\<close>

function for_each_bucket_loop ::
    "'m manager_inner \<Rightarrow> bucket_id list \<Rightarrow> (nat \<Rightarrow> nat \<Rightarrow> 's \<Rightarrow> 's option) \<Rightarrow>
     nat \<Rightarrow> nat \<Rightarrow> nat \<Rightarrow> bucket_cache \<Rightarrow> 's \<Rightarrow> ('s \<times> bucket_cache) option" where
  "for_each_bucket_loop mm buckets f idx boff len cache s =
    (if len = 0 then Some (s, cache)
     else if idx < length buckets then
       (let bucket_size = bucket_size_in_bytes mm;
            address = bucket_address mm (buckets ! idx);
            segment_len = min (bucket_size - boff) len;
            cache' = bucket_cache_store
              \<lparr>seg_address = idx * bucket_size, seg_length = bucket_size\<rparr> address cache
        in case f (address + boff) segment_len s of None \<Rightarrow> None
           | Some s' \<Rightarrow>
               for_each_bucket_loop mm buckets f (Suc idx) 0 (len - segment_len) cache' s')
     else None)"
  by pat_completeness auto
termination
  by (relation "measure (\<lambda>(mm, buckets, f, idx, boff, len, cache, s). length buckets - idx)") auto

declare for_each_bucket_loop.simps [simp del]

definition for_each_bucket ::
    "'m manager_inner \<Rightarrow> memory_id \<Rightarrow> nat \<Rightarrow> nat \<Rightarrow> bucket_cache \<Rightarrow>
     (nat \<Rightarrow> nat \<Rightarrow> 's \<Rightarrow> 's option) \<Rightarrow> 's \<Rightarrow> ('s \<times> bucket_cache) option" where
  "for_each_bucket mm i off len cache f s =
     for_each_bucket_loop mm (memory_buckets mm ! i) f
       (off div bucket_size_in_bytes mm) (off mod bucket_size_in_bytes mm) len cache s"

definition read_segment ::
    "'m memory_ops \<Rightarrow> nat \<Rightarrow> nat \<Rightarrow> byte list \<times> 'm \<Rightarrow> (byte list \<times> 'm) option" where
  "read_segment M address len s =
    (case mem_read M (snd s) address len of None \<Rightarrow> None
     | Some (bs, m) \<Rightarrow> Some (fst s @ bs, m))"

definition write_segment ::
    "'m memory_ops \<Rightarrow> byte list \<Rightarrow> nat \<Rightarrow> nat \<Rightarrow> nat \<times> 'm \<Rightarrow> (nat \<times> 'm) option" where
  "write_segment M src address len s =
    (case mem_write M (snd s) address (slice src (fst s) len) of None \<Rightarrow> None
     | Some m \<Rightarrow> Some (fst s + len, m))"

definition mm_read ::
    "'m memory_ops \<Rightarrow> 'm manager_inner \<Rightarrow> memory_id \<Rightarrow> nat \<Rightarrow> nat \<Rightarrow> bucket_cache \<Rightarrow>
     (byte list \<times> 'm manager_inner \<times> bucket_cache) option" where
  "mm_read M mm i off n cache =
    (if n = 0 then Some ([], mm, cache)
     else if \<not> assert_bounds mm i off n then None
     else case bucket_cache_get cache \<lparr>seg_address = off, seg_length = n\<rparr> of
       Some real \<Rightarrow>
         (case mem_read M (mm_memory mm) real n of None \<Rightarrow> None
          | Some (bs, m) \<Rightarrow> Some (bs, mm\<lparr>mm_memory := m\<rparr>, cache))
     | None \<Rightarrow>
         (case for_each_bucket mm i off n cache (read_segment M) ([], mm_memory mm) of
            None \<Rightarrow> None
          | Some ((bs, m), cache') \<Rightarrow> Some (bs, mm\<lparr>mm_memory := m\<rparr>, cache')))"

definition mm_write ::
    "'m memory_ops \<Rightarrow> 'm manager_inner \<Rightarrow> memory_id \<Rightarrow> nat \<Rightarrow> byte list \<Rightarrow> bucket_cache \<Rightarrow>
     ('m manager_inner \<times> bucket_cache) option" where
  "mm_write M mm i off src cache =
    (if src = [] then Some (mm, cache)
     else if \<not> assert_bounds mm i off (length src) then None
     else case bucket_cache_get cache \<lparr>seg_address = off, seg_length = length src\<rparr> of
       Some real \<Rightarrow>
         (case mem_write M (mm_memory mm) real src of None \<Rightarrow> None
          | Some m \<Rightarrow> Some (mm\<lparr>mm_memory := m\<rparr>, cache))
     | None \<Rightarrow>
         (case for_each_bucket mm i off (length src) cache (write_segment M src) (0, mm_memory mm) of
            None \<Rightarrow> None
          | Some ((_, m), cache') \<Rightarrow> Some (mm\<lparr>mm_memory := m\<rparr>, cache')))"

section \<open>VirtualMemory as a Memory\<close>

type_synonym 'm virtual_mem = "vm_handle \<times> 'm manager_inner"

definition vm_identity ::
    "('m \<Rightarrow> memory_backend_identity) \<Rightarrow> 'm virtual_mem \<Rightarrow> memory_identity" where
  "vm_identity identity v =
     \<lparr>mi_backend = identity (mm_memory (snd v)), mi_id = vm_id (fst v)\<rparr>"

definition vm_size :: "'m virtual_mem \<Rightarrow> nat" where
  "vm_size v = memory_size (snd v) (vm_id (fst v))"

definition vm_grow :: "'m memory_ops \<Rightarrow> 'm virtual_mem \<Rightarrow> nat \<Rightarrow> (int \<times> 'm virtual_mem) option" where
  "vm_grow M v pages =
    (case mm_grow M (snd v) (vm_id (fst v)) pages of None \<Rightarrow> None
     | Some (r, mm) \<Rightarrow> Some (r, (fst v, mm)))"

definition vm_read ::
    "'m memory_ops \<Rightarrow> 'm virtual_mem \<Rightarrow> nat \<Rightarrow> nat \<Rightarrow> (byte list \<times> 'm virtual_mem) option" where
  "vm_read M v off n =
    (case mm_read M (snd v) (vm_id (fst v)) off n (vm_cache (fst v)) of None \<Rightarrow> None
     | Some (bs, mm, cache) \<Rightarrow> Some (bs, (fst v\<lparr>vm_cache := cache\<rparr>, mm)))"

definition vm_write ::
    "'m memory_ops \<Rightarrow> 'm virtual_mem \<Rightarrow> nat \<Rightarrow> byte list \<Rightarrow> 'm virtual_mem option" where
  "vm_write M v off src =
    (case mm_write M (snd v) (vm_id (fst v)) off src (vm_cache (fst v)) of None \<Rightarrow> None
     | Some (mm, cache) \<Rightarrow> Some (fst v\<lparr>vm_cache := cache\<rparr>, mm))"

definition virtual_memory :: "'m memory_ops \<Rightarrow> 'm virtual_mem memory_ops" where
  "virtual_memory M = \<lparr>mem_size = vm_size, mem_grow = vm_grow M, mem_read = vm_read M,
     mem_write = vm_write M\<rparr>"

lemma virtual_memory_simps [simp]:
  "mem_size (virtual_memory M) = vm_size" "mem_grow (virtual_memory M) = vm_grow M"
  "mem_read (virtual_memory M) = vm_read M" "mem_write (virtual_memory M) = vm_write M"
  by (simp_all add: virtual_memory_def)

end
