(* ===== verification/Stable_Memory.thy ===== *)
theory Stable_Memory
  imports Memory_Manager
begin

text \<open>
  The byte-addressed wrapper of \<open>src/src/stable/memory.rs\<close>.

  \<open>mem_world\<close> holds the thread-local state of the module: the context ids, the memories
  registered with a context, and the store their handles share (the \<open>MemoryManagerInner\<close>
  behind the \<open>Rc\<close>).  A memory is a handle of type \<open>'h\<close> over that store of type \<open>'s\<close>; the
  dictionary \<open>V\<close> gives its operations.  The record is extended by the components above, and
  every definition works on the extended record.

  The release build is modelled: the assertions of \<open>debug_assert_capacity\<close> are absent, and a
  read or write out of bounds panics in the memory itself.  The failpoints and the metrics are
  compiled in for tests and benchmarks only and are left out.
\<close>

section \<open>Errors\<close>

datatype stable_memory_error =
    NotInitialized
  | AlreadyInitialized
  | MemoryAlreadyRegistered
  | GrowFailed (gf_current_pages: nat) (gf_required_pages: nat)
  | ReadOutOfBounds (ro_offset: nat) (ro_len: nat) (ro_size_bytes: nat)
  | OffsetOverflow
  | ImportAlreadyStarted
  | ImportNotStarted
  | UpdateInProgress
  | ImportOutOfOrder (io_offset: nat) (io_expected: nat)
  | ImportOutOfBounds (ib_offset: nat) (ib_len: nat) (ib_db_size: nat)
  | ImportIncomplete (ii_written_until: nat) (ii_db_size: nat)
  | ChecksumMismatch (cm_expected: u64w) (cm_actual: u64w)
  | ChecksumRefreshChunkEmpty
  | Failpoint string
  | MetaChecksumMismatch
  | UnsupportedLayoutVersion nat
  | ForeignStableMemoryImage
  | ZeroExtentLimitExceeded (ze_limit: nat)

section \<open>Thread-local state\<close>

type_synonym context_id = nat

record ('h, 's) mem_world =
  next_context_id :: nat
  default_context :: "context_id option"
  current_context :: "context_id option"
  db_memory_slots :: "(context_id \<times> 'h) list"
  registered_memory :: "(context_id \<times> memory_identity) list"
  mem_store :: 's

type_synonym ('h, 's, 'z, 'a) mem_stm =
  "(('h, 's, 'z) mem_world_scheme, 'a, stable_memory_error) stm"

section \<open>Contexts\<close>

definition reject_registered_memory :: "memory_identity \<Rightarrow> ('h, 's, 'z, unit) mem_stm" where
  "reject_registered_memory identity w =
    (if list_ex (\<lambda>(_, registered). registered = identity) (registered_memory w)
     then (Err MemoryAlreadyRegistered, w) else (Ok (), w))"

definition init_context ::
    "('h \<times> 's \<Rightarrow> memory_identity) \<Rightarrow> 'h \<Rightarrow> ('h, 's, 'z, context_id) mem_stm" where
  "init_context identity h w =
    tryS (reject_registered_memory (identity (h, mem_store w))) (\<lambda>_ w.
      let current = next_context_id w in
      case checked_add current 1 of None \<Rightarrow> (Panic, w)
      | Some n \<Rightarrow>
          (Ok current,
           w\<lparr>next_context_id := n, db_memory_slots := db_memory_slots w @ [(current, h)],
             registered_memory := registered_memory w @ [(current, identity (h, mem_store w))]\<rparr>)) w"

definition memory_init ::
    "('h \<times> 's \<Rightarrow> memory_identity) \<Rightarrow> 'h \<Rightarrow> ('h, 's, 'z, context_id) mem_stm" where
  "memory_init identity h w =
    (if default_context w \<noteq> None then (Err AlreadyInitialized, w)
     else tryS (init_context identity h) (\<lambda>context.
          tryS (modifyS (\<lambda>w. w\<lparr>default_context := Some context\<rparr>)) (\<lambda>_. retS context)) w)"

definition active_context :: "('h, 's, 'z) mem_world_scheme \<Rightarrow> context_id option" where
  "active_context w = (case current_context w of Some c \<Rightarrow> Some c | None \<Rightarrow> default_context w)"

definition active_context_id :: "('h, 's, 'z, context_id) mem_stm" where
  "active_context_id w =
    (case active_context w of Some c \<Rightarrow> (Ok c, w) | None \<Rightarrow> (Err NotInitialized, w))"

text \<open>The guard restores the previous context whatever the closure does.\<close>

definition with_context ::
    "context_id \<Rightarrow> ('h, 's, 'z, 'a) mem_stm \<Rightarrow> ('h, 's, 'z, 'a) mem_stm" where
  "with_context c f w =
    (let previous = current_context w; (r, w') = f (w\<lparr>current_context := Some c\<rparr>)
     in (r, w'\<lparr>current_context := previous\<rparr>))"

section \<open>The memory of the active context\<close>

fun update_slot :: "context_id \<Rightarrow> 'h \<Rightarrow> (context_id \<times> 'h) list \<Rightarrow> (context_id \<times> 'h) list" where
  "update_slot c h [] = []"
| "update_slot c h ((c', h') # rest) =
     (if c' = c then (c', h) # rest else (c', h') # update_slot c h rest)"

text \<open>\<open>with_memory\<close> runs its closure on the first slot of the active context; the handle it
  mutates through its cells and the shared store are put back.\<close>

definition with_memory :: "('h \<times> 's, 'a, stable_memory_error) stm \<Rightarrow> ('h, 's, 'z, 'a) mem_stm" where
  "with_memory f = tryS active_context_id (\<lambda>context w.
     case map_of (db_memory_slots w) context of None \<Rightarrow> (Err NotInitialized, w)
     | Some h \<Rightarrow> (let (r, (h', s')) = f (h, mem_store w)
                 in (r, w\<lparr>db_memory_slots := update_slot context h' (db_memory_slots w),
                          mem_store := s'\<rparr>)))"

definition memory_checked_end :: "nat \<Rightarrow> nat \<Rightarrow> ('w, nat, stable_memory_error) stm" where
  "memory_checked_end off len = ok_orS OffsetOverflow (checked_add off len)"

text \<open>The calls of a memory operation; \<open>None\<close> is its panic.\<close>

definition call_read :: "'v memory_ops \<Rightarrow> nat \<Rightarrow> nat \<Rightarrow> ('v, byte list, stable_memory_error) stm" where
  "call_read V off n v = (case mem_read V v off n of None \<Rightarrow> (Panic, v) | Some (bs, v') \<Rightarrow> (Ok bs, v'))"

definition call_write :: "'v memory_ops \<Rightarrow> nat \<Rightarrow> byte list \<Rightarrow> ('v, unit, stable_memory_error) stm" where
  "call_write V off bs v = (case mem_write V v off bs of None \<Rightarrow> (Panic, v) | Some v' \<Rightarrow> (Ok (), v'))"

definition call_grow :: "'v memory_ops \<Rightarrow> nat \<Rightarrow> ('v, int, stable_memory_error) stm" where
  "call_grow V n v = (case mem_grow V v n of None \<Rightarrow> (Panic, v) | Some (r, v') \<Rightarrow> (Ok r, v'))"

definition size_pages :: "('h \<times> 's) memory_ops \<Rightarrow> ('h, 's, 'z) mem_world_scheme \<Rightarrow> nat" where
  "size_pages V w = (case fst (with_memory (getS (mem_size V)) w) of Ok n \<Rightarrow> n | _ \<Rightarrow> 0)"

definition ensure_memory_capacity :: "'v memory_ops \<Rightarrow> nat \<Rightarrow> ('v, unit, stable_memory_error) stm" where
  "ensure_memory_capacity V end_offset v =
    (let current_pages = mem_size V v in
     case checked_mul current_pages STABLE_PAGE_SIZE of None \<Rightarrow> (Err OffsetOverflow, v)
     | Some current_bytes \<Rightarrow>
         if end_offset \<le> current_bytes then (Ok (), v)
         else
           let missing = end_offset - current_bytes; pages = div_ceil missing STABLE_PAGE_SIZE in
           tryS (call_grow V pages) (\<lambda>previous v.
             if previous < 0 then
               (case checked_add current_pages pages of None \<Rightarrow> (Err OffsetOverflow, v)
                | Some required_pages \<Rightarrow> (Err (GrowFailed current_pages required_pages), v))
             else (Ok (), v)) v)"

definition ensure_capacity :: "('h \<times> 's) memory_ops \<Rightarrow> nat \<Rightarrow> ('h, 's, 'z, unit) mem_stm" where
  "ensure_capacity V end_offset = with_memory (ensure_memory_capacity V end_offset)"

definition memory_read :: "('h \<times> 's) memory_ops \<Rightarrow> nat \<Rightarrow> nat \<Rightarrow> ('h, 's, 'z, byte list) mem_stm" where
  "memory_read V off len =
    (if len = 0 then retS []
     else tryS (memory_checked_end off len) (\<lambda>e.
       with_memory (\<lambda>v.
         case checked_mul (mem_size V v) STABLE_PAGE_SIZE of None \<Rightarrow> (Err OffsetOverflow, v)
         | Some size_bytes \<Rightarrow>
             if size_bytes < e then (Err (ReadOutOfBounds off len size_bytes), v)
             else call_read V off len v)))"

definition read_preallocated :: "('h \<times> 's) memory_ops \<Rightarrow> nat \<Rightarrow> nat \<Rightarrow> ('h, 's, 'z, byte list) mem_stm" where
  "read_preallocated V off len =
     tryS (memory_checked_end off len) (\<lambda>_. with_memory (call_read V off len))"

definition memory_write :: "('h \<times> 's) memory_ops \<Rightarrow> nat \<Rightarrow> byte list \<Rightarrow> ('h, 's, 'z, unit) mem_stm" where
  "memory_write V off bs =
    (if bs = [] then retS ()
     else tryS (memory_checked_end off (length bs)) (\<lambda>e.
       with_memory (tryS (ensure_memory_capacity V e) (\<lambda>_. call_write V off bs))))"

definition write_preallocated :: "('h \<times> 's) memory_ops \<Rightarrow> nat \<Rightarrow> byte list \<Rightarrow> ('h, 's, 'z, unit) mem_stm" where
  "write_preallocated V off bs =
    (if bs = [] then retS ()
     else tryS (memory_checked_end off (length bs)) (\<lambda>_. with_memory (call_write V off bs)))"

definition write_prechecked :: "('h \<times> 's) memory_ops \<Rightarrow> nat \<Rightarrow> byte list \<Rightarrow> ('h, 's, 'z, unit) mem_stm" where
  "write_prechecked V off bs = with_memory (call_write V off bs)"

text \<open>Outside the metered builds \<open>write_prechecked_unmetered\<close> does the same.\<close>

definition write_prechecked_unmetered ::
    "('h \<times> 's) memory_ops \<Rightarrow> nat \<Rightarrow> byte list \<Rightarrow> ('h, 's, 'z, unit) mem_stm" where
  "write_prechecked_unmetered V off bs = with_memory (call_write V off bs)"

section \<open>What the operations do\<close>

text \<open>The memory of the active context and the world with that memory replaced.\<close>

definition active_mem :: "('h, 's, 'z) mem_world_scheme \<Rightarrow> ('h \<times> 's) option" where
  "active_mem w = (case active_context w of None \<Rightarrow> None
     | Some c \<Rightarrow> map_option (\<lambda>h. (h, mem_store w)) (map_of (db_memory_slots w) c))"

definition put_mem :: "'h \<times> 's \<Rightarrow> ('h, 's, 'z) mem_world_scheme \<Rightarrow> ('h, 's, 'z) mem_world_scheme" where
  "put_mem v w = (case active_context w of None \<Rightarrow> w
     | Some c \<Rightarrow> w\<lparr>db_memory_slots := update_slot c (fst v) (db_memory_slots w), mem_store := snd v\<rparr>)"

lemma map_of_update_slot:
  "map_of (update_slot c h slots) c' =
    (if c' = c \<and> map_of slots c \<noteq> None then Some h else map_of slots c')"
  by (induction c h slots rule: update_slot.induct) auto

lemma update_slot_twice [simp]: "update_slot c h (update_slot c h' slots) = update_slot c h slots"
  by (induction c h' slots rule: update_slot.induct) auto

lemma map_fst_update_slot [simp]: "map fst (update_slot c h slots) = map fst slots"
  by (induction c h slots rule: update_slot.induct) auto

lemma active_context_put_mem [simp]: "active_context (put_mem v w) = active_context w"
  by (auto simp: put_mem_def active_context_def split: option.splits)

lemma active_mem_put_mem [simp]: "active_mem w = Some u \<Longrightarrow> active_mem (put_mem v w) = Some v"
  by (auto simp: active_mem_def map_of_update_slot)
    (auto simp: put_mem_def map_of_update_slot split: option.splits)

lemma put_mem_put_mem [simp]: "put_mem v (put_mem u w) = put_mem v w"
  by (auto simp: put_mem_def active_context_def split: option.splits)

lemma update_slot_same: "map_of slots c = Some h \<Longrightarrow> update_slot c h slots = slots"
  by (induction c h slots rule: update_slot.induct) auto

lemma put_mem_same [simp]: "active_mem w = Some v \<Longrightarrow> put_mem v w = w"
  by (auto simp: active_mem_def put_mem_def update_slot_same split: option.splits)

lemma put_mem_fields [simp]:
  "next_context_id (put_mem v w) = next_context_id w" "default_context (put_mem v w) = default_context w"
  "current_context (put_mem v w) = current_context w" "registered_memory (put_mem v w) = registered_memory w"
  "mem_world.more (put_mem v w) = mem_world.more w"
  by (auto simp: put_mem_def split: option.splits)

lemma active_context_idD: "active_mem w = Some v \<Longrightarrow> \<exists>c. active_context w = Some c"
  by (auto simp: active_mem_def split: option.splits)

lemma with_memory_run:
  assumes "active_mem w = Some v" "f v = (r, v')"
  shows "with_memory f w = (r, put_mem v' w)"
  using assms
  by (cases v'; cases "active_context w")
    (auto simp: with_memory_def active_mem_def put_mem_def active_context_id_def tryS_def)

lemma with_memory_none: "active_mem w = None \<Longrightarrow> with_memory f w = (Err NotInitialized, w)"
  by (auto simp: with_memory_def active_mem_def active_context_id_def tryS_def split: option.splits)

lemma size_pages_active: "active_mem w = Some v \<Longrightarrow> size_pages V w = mem_size V v"
  using with_memory_run [of w v "getS (mem_size V)"] by (simp add: size_pages_def getS_def)

text \<open>The operations on a memory that meets the contract.\<close>

locale db_mem = byte_memory V inv byte_of
  for V :: "('h \<times> 's) memory_ops" and inv byte_of
begin

abbreviation cap :: "'h \<times> 's \<Rightarrow> nat" where
  "cap v \<equiv> mem_size V v * STABLE_PAGE_SIZE"

definition same_mem :: "'h \<times> 's \<Rightarrow> 'h \<times> 's \<Rightarrow> bool" where
  "same_mem v v' \<longleftrightarrow> inv v' \<and> mem_size V v' = mem_size V v \<and> byte_of v' = byte_of v"

lemma same_memD:
  "same_mem v v' \<Longrightarrow> inv v'" "same_mem v v' \<Longrightarrow> mem_size V v' = mem_size V v"
  "same_mem v v' \<Longrightarrow> byte_of v' = byte_of v"
  by (simp_all add: same_mem_def)

lemma same_mem_refl: "inv v \<Longrightarrow> same_mem v v"
  by (simp add: same_mem_def)

lemma cap_u64: "inv v \<Longrightarrow> n \<le> cap v \<Longrightarrow> n \<le> u64_max"
  using size_bound le_trans by blast

lemma call_read_ok:
  assumes "inv v" "off + n \<le> cap v"
  obtains v' where "call_read V off n v = (Ok (bytes_at (byte_of v) off n), v')" "same_mem v v'"
proof -
  obtain v' where "mem_read V v off n = Some (bytes_at (byte_of v) off n, v')" "same_mem v v'"
    using read_ok [OF assms] by (auto simp: same_mem_def)
  with that [of v'] show ?thesis by (simp add: call_read_def)
qed

lemma call_write_ok:
  assumes "inv v" "off + length bs \<le> cap v"
  obtains v' where "call_write V off bs v = (Ok (), v')" "inv v'" "mem_size V v' = mem_size V v"
    "byte_of v' = blit (byte_of v) off bs"
proof -
  obtain v' where "mem_write V v off bs = Some v'" "inv v'" "mem_size V v' = mem_size V v"
    "byte_of v' = blit (byte_of v) off bs"
    using write_ok [OF assms] by blast
  with that [of v'] show ?thesis by (simp add: call_write_def)
qed

lemma read_preallocated_ok:
  assumes w: "active_mem w = Some v" and v: "inv v" and le: "off + n \<le> cap v"
  obtains v' where "read_preallocated V off n w = (Ok (bytes_at (byte_of v) off n), put_mem v' w)"
    "same_mem v v'"
proof -
  obtain v' where "call_read V off n v = (Ok (bytes_at (byte_of v) off n), v')"
    and s: "same_mem v v'"
    using call_read_ok [OF v le] by blast
  with with_memory_run [OF w, of "call_read V off n"] cap_u64 [OF v le] s that [of v'] show ?thesis
    by (simp add: read_preallocated_def memory_checked_end_def checked_add_def)
qed

lemma memory_read_ok:
  assumes w: "active_mem w = Some v" and v: "inv v" and le: "off + n \<le> cap v"
  obtains v' where "memory_read V off n w = (Ok (bytes_at (byte_of v) off n), put_mem v' w)"
    "same_mem v v'"
proof (cases "n = 0")
  case True
  then show ?thesis using that [OF _ same_mem_refl [OF v]] w by (simp add: memory_read_def retS_def)
next
  case False
  obtain v' where r: "call_read V off n v = (Ok (bytes_at (byte_of v) off n), v')"
    and s: "same_mem v v'"
    using call_read_ok [OF v le] by blast
  note fits = size_bound [OF v]
  have "memory_read V off n w = (Ok (bytes_at (byte_of v) off n), put_mem v' w)"
    using False le cap_u64 [OF v le] fits
    by (simp add: memory_read_def memory_checked_end_def checked_add_def)
      (rule with_memory_run [OF w], use r in \<open>simp add: checked_mul_def\<close>)
  with s that show ?thesis by blast
qed

lemma memory_read_oob:
  assumes w: "active_mem w = Some v" and v: "inv v" and n: "0 < n" and oob: "cap v < off + n"
  shows "\<exists>e. memory_read V off n w = (Err e, w)"
proof (cases "off + n \<le> u64_max")
  case True
  note fits = size_bound [OF v]
  have "with_memory (\<lambda>v. case checked_mul (mem_size V v) STABLE_PAGE_SIZE of
         None \<Rightarrow> (Err OffsetOverflow, v)
       | Some size_bytes \<Rightarrow>
           if size_bytes < off + n then (Err (ReadOutOfBounds off n size_bytes), v)
           else call_read V off n v) w = (Err (ReadOutOfBounds off n (cap v)), put_mem v w)"
    using oob fits by (intro with_memory_run [OF w]) (simp add: checked_mul_def)
  with True n w show ?thesis
    by (simp add: memory_read_def memory_checked_end_def checked_add_def)
next
  case False
  then show ?thesis using n
    by (simp add: memory_read_def memory_checked_end_def checked_add_def errS_def)
qed

lemma write_prechecked_ok:
  assumes w: "active_mem w = Some v" and v: "inv v" and le: "off + length bs \<le> cap v"
  obtains v' where "write_prechecked V off bs w = (Ok (), put_mem v' w)"
    "write_prechecked_unmetered V off bs w = (Ok (), put_mem v' w)"
    "inv v'" "mem_size V v' = mem_size V v" "byte_of v' = blit (byte_of v) off bs"
proof -
  obtain v' where "call_write V off bs v = (Ok (), v')"
    and p: "inv v'" "mem_size V v' = mem_size V v" "byte_of v' = blit (byte_of v) off bs"
    using call_write_ok [OF v le] by blast
  with with_memory_run [OF w, of "call_write V off bs"] that [of v'] show ?thesis
    by (simp add: write_prechecked_def write_prechecked_unmetered_def)
qed

text \<open>Reserving capacity either succeeds, and keeps the bytes that were there, or fails and
  changes nothing.\<close>

definition extends :: "'h \<times> 's \<Rightarrow> 'h \<times> 's \<Rightarrow> bool" where
  "extends v v' \<longleftrightarrow> inv v' \<and> mem_size V v \<le> mem_size V v' \<and>
     (\<forall>i < cap v. byte_of v' i = byte_of v i)"

lemma extendsD:
  "extends v v' \<Longrightarrow> inv v'" "extends v v' \<Longrightarrow> cap v \<le> cap v'"
  "extends v v' \<Longrightarrow> i < cap v \<Longrightarrow> byte_of v' i = byte_of v i"
  by (simp_all add: extends_def)

lemma extends_refl: "inv v \<Longrightarrow> extends v v"
  by (simp add: extends_def)

lemma ensure_memory_capacity_cases:
  assumes v: "inv v"
  obtains (Ok) v' where "ensure_memory_capacity V e v = (Ok (), v')" "extends v v'" "e \<le> cap v'"
      "e \<le> cap v \<Longrightarrow> v' = v"
  | (Err) err where "ensure_memory_capacity V e v = (Err err, v)" "cap v < e"
      "err = OffsetOverflow \<or> (\<exists>a b. err = GrowFailed a b)"
proof (cases "e \<le> cap v")
  case True
  then show ?thesis
    using Ok [of v] extends_refl [OF v] size_bound [OF v]
    by (simp add: ensure_memory_capacity_def Let_def checked_mul_def)
next
  case False
  let ?n = "div_ceil (e - cap v) STABLE_PAGE_SIZE"
  obtain r v' where g: "mem_grow V v ?n = Some (r, v')" using grow_total [OF v] by blast
  have run: "ensure_memory_capacity V e v = (if r < 0 then
       (case checked_add (mem_size V v) ?n of None \<Rightarrow> (Err OffsetOverflow, v')
        | Some required \<Rightarrow> (Err (GrowFailed (mem_size V v) required), v'))
     else (Ok (), v'))"
    using False size_bound [OF v] g
    by (simp add: ensure_memory_capacity_def Let_def checked_mul_def tryS_def call_grow_def)
  show ?thesis
  proof (cases "r < 0")
    case True
    then show ?thesis
      using run grow_failed [OF v g] Err False by (auto split: option.splits simp: not_le)
  next
    case False
    have gi: "inv v'" "mem_size V v' = mem_size V v + ?n"
      "\<forall>i < cap v. byte_of v' i = byte_of v i"
      using grow_ok [OF v g] False by auto
    have "e - cap v \<le> ?n * STABLE_PAGE_SIZE" by (rule div_ceil_covers) simp
    then have "e \<le> cap v'" using gi(2) by (simp add: add_mult_distrib)
    then show ?thesis
      using run False gi Ok [of v'] \<open>\<not> e \<le> cap v\<close> by (simp add: extends_def)
  qed
qed

lemma ensure_capacity_cases:
  assumes w: "active_mem w = Some v" and v: "inv v"
  obtains (Ok) v' where "ensure_capacity V e w = (Ok (), put_mem v' w)" "extends v v'" "e \<le> cap v'"
      "e \<le> cap v \<Longrightarrow> v' = v"
  | (Err) err where "ensure_capacity V e w = (Err err, w)" "cap v < e"
      "err = OffsetOverflow \<or> (\<exists>a b. err = GrowFailed a b)"
proof (cases rule: ensure_memory_capacity_cases [OF v, of e])
  case (1 v')
  then show ?thesis
    using Ok [of v'] with_memory_run [OF w, of "ensure_memory_capacity V e"]
    by (simp add: ensure_capacity_def)
next
  case (2 err)
  then show ?thesis
    using Err [of err] with_memory_run [OF w, of "ensure_memory_capacity V e"] w
    by (simp add: ensure_capacity_def)
qed

lemma memory_write_cases:
  assumes w: "active_mem w = Some v" and v: "inv v"
  obtains (Ok) u v' where "memory_write V off bs w = (Ok (), put_mem v' w)" "extends v u" "inv v'"
      "mem_size V v' = mem_size V u" "byte_of v' = blit (byte_of u) off bs"
      "bs \<noteq> [] \<Longrightarrow> off + length bs \<le> cap v'"
  | (Err) err where "memory_write V off bs w = (Err err, w)" "cap v < off + length bs"
      "err = OffsetOverflow \<or> (\<exists>a b. err = GrowFailed a b)"
proof -
  consider "bs = []" | "bs \<noteq> []" "u64_max < off + length bs" | "bs \<noteq> []" "off + length bs \<le> u64_max"
    by linarith
  then show ?thesis
  proof cases
    case 1
    then show ?thesis using Ok [of v v] w v extends_refl [OF v] by (simp add: memory_write_def retS_def)
  next
    case 2
    then show ?thesis using Err [of OffsetOverflow] size_bound [OF v]
      by (simp add: memory_write_def memory_checked_end_def checked_add_def errS_def)
  next
    case 3
    then have run: "memory_write V off bs w = with_memory (tryS (ensure_memory_capacity V (off + length bs))
        (\<lambda>_. call_write V off bs)) w"
      by (simp add: memory_write_def memory_checked_end_def checked_add_def)
    show ?thesis
    proof (cases rule: ensure_memory_capacity_cases [OF v, of "off + length bs"])
      case (1 u)
      obtain v' where "call_write V off bs u = (Ok (), v')"
        "inv v'" "mem_size V v' = mem_size V u" "byte_of v' = blit (byte_of u) off bs"
        using call_write_ok [OF extendsD(1) [OF 1(2)] 1(3)] by blast
      then show ?thesis
        using Ok [of v' u] with_memory_run [OF w, of "tryS (ensure_memory_capacity V (off + length bs))
          (\<lambda>_. call_write V off bs)" "Ok ()" v'] run 1 by simp
    next
      case (2 err)
      then show ?thesis
        using Err [of err] with_memory_run [OF w, of "tryS (ensure_memory_capacity V (off + length bs))
          (\<lambda>_. call_write V off bs)" "Err err" v] run w by simp
    qed
  qed
qed

end

end
