(* ===== verification/Superblock.thy ===== *)
theory Superblock
  imports Stable_Memory
begin

text \<open>
  The superblock of \<open>src/src/stable/meta.rs\<close>: its fields, its fixed-width little-endian
  encoding, its checksum and its validation.  The hash and flag fields are \<open>64 word\<close>, the
  other \<open>u32\<close> and \<open>u64\<close> fields are natural numbers; \<open>sb_ok\<close> says that each fits its type.

  The main result is the round trip: any byte buffer that starts with the encoded prefix of a
  block decodes to that block, whatever follows the prefix, which is why \<open>store\<close> may write the
  prefix only.
\<close>

section \<open>Data\<close>

definition SB_MAGIC :: "byte list" where
  [config_defs]: "SB_MAGIC = [73, 67, 83, 81, 76, 73, 84, 69]"

definition VERSION :: nat where
  [config_defs]: "VERSION = 8"

definition MAX_ZERO_EXTENTS :: nat where
  [config_defs]: "MAX_ZERO_EXTENTS = 1024"

definition ZERO_EXTENT_BYTES :: nat where
  [config_defs]: "ZERO_EXTENT_BYTES = 16"

definition EXTENTS_OFFSET :: nat where
  [config_defs]: "EXTENTS_OFFSET = 160"

definition META_CHECKSUM_OFFSET :: nat where
  [config_defs]: "META_CHECKSUM_OFFSET = 152"

definition ENCODED_LEN :: nat where
  [config_defs]: "ENCODED_LEN = EXTENTS_OFFSET + MAX_ZERO_EXTENTS * ZERO_EXTENT_BYTES"

definition CURRENT_LAYOUT_VERSION :: nat where
  [config_defs]: "CURRENT_LAYOUT_VERSION = 8"

definition FLAG_IMPORTING :: u64w where
  "FLAG_IMPORTING = 1"

definition FLAG_CHECKSUM_STALE :: u64w where
  "FLAG_CHECKSUM_STALE = push_bit 1 1"

definition FLAG_CHECKSUM_REFRESHING :: u64w where
  "FLAG_CHECKSUM_REFRESHING = push_bit 2 1"

record zero_extent =
  start_page :: nat
  end_page :: nat

record superblock =
  sb_magic :: "byte list"
  sb_version :: nat
  sqlite_page_size :: nat
  db_size :: nat
  schema_version :: nat
  last_tx_id :: nat
  sb_flags :: u64w
  sb_checksum :: u64w
  import_expected_checksum :: u64w
  import_written_until :: nat
  import_total_size :: nat
  import_base_offset :: nat
  checksum_refresh_offset :: nat
  checksum_refresh_hash :: u64w
  checksum_refresh_tx_id :: nat
  db_base_offset :: nat
  page_table_offset :: nat
  page_count :: nat
  layout_version :: nat
  zero_extents :: "zero_extent list"
  meta_checksum :: u64w

section \<open>Encoding\<close>

definition encode_extent :: "zero_extent \<Rightarrow> byte list" where
  "encode_extent e = le_bytes 8 (start_page e) @ le_bytes 8 (end_page e)"

definition u64_bytes :: "u64w \<Rightarrow> byte list" where
  "u64_bytes x = le_bytes 8 (unat x)"

definition encode_fixed :: "superblock \<Rightarrow> byte list" where
  "encode_fixed b =
     sb_magic b @ le_bytes 4 (sb_version b) @ le_bytes 4 (sqlite_page_size b) @
     le_bytes 8 (db_size b) @ le_bytes 8 (schema_version b) @ le_bytes 8 (last_tx_id b) @
     u64_bytes (sb_flags b) @ u64_bytes (sb_checksum b) @ u64_bytes (import_expected_checksum b) @
     le_bytes 8 (import_written_until b) @ le_bytes 8 (import_total_size b) @
     le_bytes 8 (import_base_offset b) @ le_bytes 8 (checksum_refresh_offset b) @
     u64_bytes (checksum_refresh_hash b) @ le_bytes 8 (checksum_refresh_tx_id b) @
     le_bytes 8 (db_base_offset b) @ le_bytes 8 (page_table_offset b) @ le_bytes 8 (page_count b) @
     le_bytes 8 (layout_version b) @ le_bytes 8 (length (zero_extents b)) @
     u64_bytes (meta_checksum b)"

definition encode :: "superblock \<Rightarrow> byte list" where
  "encode b =
    (let extents = take MAX_ZERO_EXTENTS (zero_extents b) in
     encode_fixed b @ concat (map encode_extent extents) @
     replicate ((MAX_ZERO_EXTENTS - length extents) * ZERO_EXTENT_BYTES) 0)"

definition encoded_len :: "superblock \<Rightarrow> nat" where
  "encoded_len b = EXTENTS_OFFSET + min (length (zero_extents b)) MAX_ZERO_EXTENTS * ZERO_EXTENT_BYTES"

definition four :: "byte list \<Rightarrow> nat \<Rightarrow> nat" where
  "four bs start = from_le_bytes (slice bs start 4)"

definition eight :: "byte list \<Rightarrow> nat \<Rightarrow> nat" where
  "eight bs start = from_le_bytes (slice bs start 8)"

definition decode_extents :: "byte list \<Rightarrow> zero_extent list" where
  "decode_extents bs =
    (let count = eight bs 144 in
     if count \<le> MAX_ZERO_EXTENTS then
       map (\<lambda>index. let offset = EXTENTS_OFFSET + index * ZERO_EXTENT_BYTES in
         \<lparr>start_page = eight bs offset, end_page = eight bs (offset + 8)\<rparr>) [0..<count]
     else [])"

definition decode :: "byte list \<Rightarrow> superblock" where
  "decode bs = \<lparr>
     sb_magic = slice bs 0 8,
     sb_version = four bs 8,
     sqlite_page_size = four bs 12,
     db_size = eight bs 16,
     schema_version = eight bs 24,
     last_tx_id = eight bs 32,
     sb_flags = of_nat (eight bs 40),
     sb_checksum = of_nat (eight bs 48),
     import_expected_checksum = of_nat (eight bs 56),
     import_written_until = eight bs 64,
     import_total_size = eight bs 72,
     import_base_offset = eight bs 80,
     checksum_refresh_offset = eight bs 88,
     checksum_refresh_hash = of_nat (eight bs 96),
     checksum_refresh_tx_id = eight bs 104,
     db_base_offset = eight bs 112,
     page_table_offset = eight bs 120,
     page_count = eight bs 128,
     layout_version = eight bs 136,
     zero_extents = decode_extents bs,
     meta_checksum = of_nat (eight bs META_CHECKSUM_OFFSET)\<rparr>"

section \<open>Checksum, validation and flags\<close>

unbundle bit_operations_syntax

definition fnv_offset_basis :: u64w where
  "fnv_offset_basis = 0xcbf29ce484222325"

definition fnv_step :: "u64w \<Rightarrow> byte \<Rightarrow> u64w" where
  "fnv_step hash b = (hash XOR ucast b) * 0x00000100000001b3"

definition fnv1a64 :: "byte list \<Rightarrow> u64w" where
  "fnv1a64 bs = foldl fnv_step fnv_offset_basis bs"

definition compute_meta_checksum :: "superblock \<Rightarrow> u64w" where
  "compute_meta_checksum b =
    (let copy = b\<lparr>meta_checksum := 0\<rparr> in fnv1a64 (take (encoded_len copy) (encode copy)))"

definition verify_checksum :: "superblock \<Rightarrow> bool" where
  "verify_checksum b = (meta_checksum b = compute_meta_checksum b)"

fun validate_extents_from :: "nat option \<Rightarrow> zero_extent list \<Rightarrow> stable_memory_error + unit" where
  "validate_extents_from previous_end [] = Inr ()"
| "validate_extents_from previous_end (e # es) =
    (if end_page e \<le> start_page e then Inl MetaChecksumMismatch
     else if (case previous_end of None \<Rightarrow> False | Some e' \<Rightarrow> start_page e \<le> e')
     then Inl MetaChecksumMismatch
     else validate_extents_from (Some (end_page e)) es)"

definition validate_zero_extents :: "superblock \<Rightarrow> stable_memory_error + unit" where
  "validate_zero_extents b =
    (if MAX_ZERO_EXTENTS < length (zero_extents b) then Inl (ZeroExtentLimitExceeded MAX_ZERO_EXTENTS)
     else validate_extents_from None (zero_extents b))"

definition has_normalized_zero_extents :: "superblock \<Rightarrow> bool" where
  "has_normalized_zero_extents b = (case validate_zero_extents b of Inr _ \<Rightarrow> True | Inl _ \<Rightarrow> False)"

definition is_importing :: "superblock \<Rightarrow> bool" where
  "is_importing b = (sb_flags b AND FLAG_IMPORTING \<noteq> 0)"

definition is_checksum_stale :: "superblock \<Rightarrow> bool" where
  "is_checksum_stale b = (sb_flags b AND FLAG_CHECKSUM_STALE \<noteq> 0)"

definition is_checksum_refreshing :: "superblock \<Rightarrow> bool" where
  "is_checksum_refreshing b = (sb_flags b AND FLAG_CHECKSUM_REFRESHING \<noteq> 0)"

definition clear_checksum_refresh :: "superblock \<Rightarrow> superblock" where
  "clear_checksum_refresh b = b\<lparr>sb_flags := sb_flags b AND NOT FLAG_CHECKSUM_REFRESHING,
     checksum_refresh_offset := 0, checksum_refresh_hash := 0, checksum_refresh_tx_id := 0\<rparr>"

definition clear_zero_extents :: "superblock \<Rightarrow> superblock" where
  "clear_zero_extents b = b\<lparr>zero_extents := []\<rparr>"

definition page_count_for_size :: "nat \<Rightarrow> nat" where
  "page_count_for_size n = div_ceil n SQLITE_PAGE_SIZE"

definition fresh :: superblock where
  "fresh = (let block = \<lparr>
     sb_magic = SB_MAGIC, sb_version = VERSION, sqlite_page_size = SQLITE_PAGE_SIZE,
     db_size = 0, schema_version = 0, last_tx_id = 0, sb_flags = 0, sb_checksum = 0,
     import_expected_checksum = 0, import_written_until = 0, import_total_size = 0,
     import_base_offset = 0, checksum_refresh_offset = 0, checksum_refresh_hash = 0,
     checksum_refresh_tx_id = 0, db_base_offset = DB_REGION_OFFSET, page_table_offset = 0,
     page_count = 0, layout_version = CURRENT_LAYOUT_VERSION, zero_extents = [],
     meta_checksum = 0\<rparr>
   in block\<lparr>meta_checksum := compute_meta_checksum block\<rparr>)"

section \<open>The round trip\<close>

definition sb_ok :: "superblock \<Rightarrow> bool" where
  "sb_ok b \<longleftrightarrow> length (sb_magic b) = 8 \<and> sb_version b < 4294967296 \<and> sqlite_page_size b < 4294967296 \<and>
     db_size b \<le> u64_max \<and> schema_version b \<le> u64_max \<and> last_tx_id b \<le> u64_max \<and>
     import_written_until b \<le> u64_max \<and> import_total_size b \<le> u64_max \<and>
     import_base_offset b \<le> u64_max \<and> checksum_refresh_offset b \<le> u64_max \<and>
     checksum_refresh_tx_id b \<le> u64_max \<and> db_base_offset b \<le> u64_max \<and>
     page_table_offset b \<le> u64_max \<and> page_count b \<le> u64_max \<and> layout_version b \<le> u64_max \<and>
     (\<forall>e \<in> set (zero_extents b). start_page e \<le> u64_max \<and> end_page e \<le> u64_max)"

lemma length_u64_bytes [simp]: "length (u64_bytes x) = 8"
  by (simp add: u64_bytes_def)

lemma from_u64_bytes [simp]: "of_nat (from_le_bytes (u64_bytes x)) = x"
  by (simp add: u64_bytes_def)

lemma length_encode_extent [simp]: "length (encode_extent e) = 16"
  by (simp add: encode_extent_def)

lemma length_encode_fixed: "length (sb_magic b) = 8 \<Longrightarrow> length (encode_fixed b) = 160"
  by (simp add: encode_fixed_def)

lemma length_encode: "length (sb_magic b) = 8 \<Longrightarrow> length (encode b) = ENCODED_LEN"
  by (simp add: encode_def Let_def length_encode_fixed length_concat_map [where w = 16] config_defs
      del: length_concat)

lemma encoded_len_le: "encoded_len b \<le> ENCODED_LEN" "160 \<le> encoded_len b"
  by (simp_all add: encoded_len_def ENCODED_LEN_def EXTENTS_OFFSET_def)

lemma slice_take: "a + n \<le> L \<Longrightarrow> slice (take L bs) a n = slice bs a n"
  by (simp add: slice_def take_drop min_def)


lemma slice_encode:
  assumes "length (sb_magic b) = 8" "a + n \<le> 160"
  shows "slice (encode b) a n = slice (encode_fixed b) a n"
  using assms by (simp add: encode_def Let_def slice_append_left length_encode_fixed)

lemma fixed_fields:
  assumes "length (sb_magic b) = 8"
  shows "slice (encode_fixed b) 0 8 = sb_magic b"
    "slice (encode_fixed b) 8 4 = le_bytes 4 (sb_version b)"
    "slice (encode_fixed b) 12 4 = le_bytes 4 (sqlite_page_size b)"
    "slice (encode_fixed b) 16 8 = le_bytes 8 (db_size b)"
    "slice (encode_fixed b) 24 8 = le_bytes 8 (schema_version b)"
    "slice (encode_fixed b) 32 8 = le_bytes 8 (last_tx_id b)"
    "slice (encode_fixed b) 40 8 = u64_bytes (sb_flags b)"
    "slice (encode_fixed b) 48 8 = u64_bytes (sb_checksum b)"
    "slice (encode_fixed b) 56 8 = u64_bytes (import_expected_checksum b)"
    "slice (encode_fixed b) 64 8 = le_bytes 8 (import_written_until b)"
    "slice (encode_fixed b) 72 8 = le_bytes 8 (import_total_size b)"
    "slice (encode_fixed b) 80 8 = le_bytes 8 (import_base_offset b)"
    "slice (encode_fixed b) 88 8 = le_bytes 8 (checksum_refresh_offset b)"
    "slice (encode_fixed b) 96 8 = u64_bytes (checksum_refresh_hash b)"
    "slice (encode_fixed b) 104 8 = le_bytes 8 (checksum_refresh_tx_id b)"
    "slice (encode_fixed b) 112 8 = le_bytes 8 (db_base_offset b)"
    "slice (encode_fixed b) 120 8 = le_bytes 8 (page_table_offset b)"
    "slice (encode_fixed b) 128 8 = le_bytes 8 (page_count b)"
    "slice (encode_fixed b) 136 8 = le_bytes 8 (layout_version b)"
    "slice (encode_fixed b) 144 8 = le_bytes 8 (length (zero_extents b))"
    "slice (encode_fixed b) 152 8 = u64_bytes (meta_checksum b)"
  using assms
  by (simp_all add: encode_fixed_def slice_append_right slice_append_left slice_exact)

lemma extent_fields:
  assumes "length (sb_magic b) = 8" "i < length (zero_extents b)" "i < MAX_ZERO_EXTENTS"
  shows "slice (encode b) (160 + i * 16) 8 = le_bytes 8 (start_page (zero_extents b ! i))"
    "slice (encode b) (160 + i * 16 + 8) 8 = le_bytes 8 (end_page (zero_extents b ! i))"
proof -
  let ?xs = "take MAX_ZERO_EXTENTS (zero_extents b)"
  let ?ext = "concat (map encode_extent ?xs)"
  have i: "i < length ?xs" using assms by simp
  have len: "length ?ext = length ?xs * 16" by (rule length_concat_map) simp
  have "i * 16 + 16 \<le> length ?xs * 16" using i by linarith
  then have sub: "slice (encode b) (160 + i * 16 + a) 8 = slice (slice ?ext (i * 16) 16) a 8"
    if "a + 8 \<le> 16" for a
    using that len by (simp add: encode_def Let_def slice_append_right slice_append_left
        length_encode_fixed [OF assms(1)] slice_def take_drop drop_drop add.commute)
  have "slice ?ext (i * 16) 16 = encode_extent (zero_extents b ! i)"
    using slice_concat_map [where g = encode_extent and w = 16, OF _ i] assms(3) by simp
  with sub [of 0] sub [of 8]
  show "slice (encode b) (160 + i * 16) 8 = le_bytes 8 (start_page (zero_extents b ! i))"
    "slice (encode b) (160 + i * 16 + 8) 8 = le_bytes 8 (end_page (zero_extents b ! i))"
    by (simp_all add: encode_extent_def slice_append_left slice_append_right slice_exact)
qed

text \<open>A buffer that starts with the encoded prefix of a block decodes to the block.\<close>

lemma decode_prefix:
  assumes b: "sb_ok b" "length (zero_extents b) \<le> MAX_ZERO_EXTENTS"
    and pre: "take (encoded_len b) bs = take (encoded_len b) (encode b)"
  shows "decode bs = b"
proof -
  have m: "length (sb_magic b) = 8" using b(1) by (simp add: sb_ok_def)
  have sl: "slice bs a n = slice (encode b) a n" if "a + n \<le> encoded_len b" for a n
    using that pre by (metis slice_take)
  have fixed: "slice bs a n = slice (encode_fixed b) a n" if "a + n \<le> 160" for a n
    using that sl [of a n] slice_encode [OF m that] encoded_len_le(2) [of b] by simp
  note f = fixed_fields [OF m]
  have count: "eight bs 144 = length (zero_extents b)"
    using b(2) f(20) fixed [of 144 8] by (simp add: eight_def config_defs u64_max_def)
  have len: "encoded_len b = 160 + length (zero_extents b) * 16"
    using b(2) by (simp add: encoded_len_def config_defs)
  have "decode_extents bs = zero_extents b"
  proof (rule nth_equalityI)
    show l: "length (decode_extents bs) = length (zero_extents b)"
      using b(2) by (simp add: decode_extents_def count)
    fix i assume "i < length (decode_extents bs)"
    then have i: "i < length (zero_extents b)" using l by simp
    then have bound: "160 + i * 16 + 16 \<le> encoded_len b" unfolding len by linarith
    have e: "start_page (zero_extents b ! i) \<le> u64_max" "end_page (zero_extents b ! i) \<le> u64_max"
      using b(1) i by (auto simp: sb_ok_def)
    have i': "i < MAX_ZERO_EXTENTS" using i b(2) by simp
    have "eight bs (160 + i * 16) = start_page (zero_extents b ! i)"
      "eight bs (160 + i * 16 + 8) = end_page (zero_extents b ! i)"
      using extent_fields [OF m i i'] sl [of "160 + i * 16" 8] sl [of "160 + i * 16 + 8" 8] bound e
      by (simp_all add: eight_def)
    then show "decode_extents bs ! i = zero_extents b ! i"
      using i b(2)
      by (cases "zero_extents b ! i")
        (simp add: decode_extents_def count Let_def EXTENTS_OFFSET_def ZERO_EXTENT_BYTES_def)
  qed
  then show ?thesis
    using b(1) f
    by (cases b) (simp add: decode_def eight_def four_def fixed META_CHECKSUM_OFFSET_def sb_ok_def)
qed

lemma from_le_slice_bound: "from_le_bytes (slice bs a n) < 256 ^ n"
proof -
  have "(256::nat) ^ length (slice bs a n) \<le> 256 ^ n"
    by (rule power_increasing) (simp_all add: slice_def)
  then show ?thesis using from_le_bytes_bound [of "slice bs a n"] by linarith
qed

lemma decode_bounds:
  assumes "8 \<le> length bs"
  shows "sb_ok (decode bs)" "length (zero_extents (decode bs)) \<le> MAX_ZERO_EXTENTS"
proof -
  have e: "eight bs a \<le> u64_max" for a
    using from_le_slice_bound [of bs a 8] by (simp add: eight_def u64_max_def)
  have f: "four bs a < 4294967296" for a
    using from_le_slice_bound [of bs a 4] by (simp add: four_def)
  show "sb_ok (decode bs)"
    using e f assms by (auto simp: sb_ok_def decode_def decode_extents_def Let_def)
  show "length (zero_extents (decode bs)) \<le> MAX_ZERO_EXTENTS"
    by (simp add: decode_def decode_extents_def Let_def)
qed

lemma le_bytes_slice: "a + n \<le> length bs \<Longrightarrow> le_bytes n (from_le_bytes (slice bs a n)) = slice bs a n"
  using le_bytes_from_le_bytes [of "slice bs a n"] by (simp add: slice_def)

lemma slice_split: "slice bs a (m + n) = slice bs a m @ slice bs (a + m) n"
  by (simp add: slice_def take_add add.commute)

lemma encode_decode_fixed:
  assumes "160 \<le> length bs" "eight bs 144 \<le> MAX_ZERO_EXTENTS"
  shows "encode_fixed (decode bs) = take 160 bs"
proof -
  have c: "length (decode_extents bs) = eight bs 144" using assms(2) by (simp add: decode_extents_def Let_def)
  have e: "le_bytes 8 (eight bs a) = slice bs a 8" "u64_bytes (of_nat (eight bs a)) = slice bs a 8" if "a + 8 \<le> 160" for a
  proof -
    show *: "le_bytes 8 (eight bs a) = slice bs a 8" using that assms(1) by (simp add: eight_def le_bytes_slice)
    have "eight bs a < 2 ^ 64" using from_le_slice_bound [of bs a 8] by (simp add: eight_def)
    then have "unat (of_nat (eight bs a) :: u64w) = eight bs a" by (simp add: unat_of_nat)
    then show "u64_bytes (of_nat (eight bs a)) = slice bs a 8" using * by (simp add: u64_bytes_def)
  qed
  have f: "le_bytes 4 (four bs a) = slice bs a 4" if "a + 4 \<le> 160" for a
    using that assms(1) by (simp add: four_def le_bytes_slice)
  have "take 160 bs = slice bs 0 (8 + (4 + (4 + (8 + (8 + (8 + (8 + (8 + (8 + (8 + (8 + (8 + (8 + (8 + (8 + (8 + (8 + (8 + (8 + (8 + 8))))))))))))))))))))"
    by (simp add: slice_def)
  also have "\<dots> = encode_fixed (decode bs)"
    unfolding slice_split by (simp add: encode_fixed_def decode_def META_CHECKSUM_OFFSET_def c e f)
  finally show ?thesis by simp
qed

lemma encode_decode_extents:
  assumes "160 + n * 16 \<le> length bs"
  shows "concat (map (\<lambda>i. encode_extent \<lparr>start_page = eight bs (160 + i * 16), end_page = eight bs (160 + i * 16 + 8)\<rparr>) [0..<n]) =
    slice bs 160 (n * 16)"
  using assms
proof (induction n)
  case (Suc n)
  have "encode_extent \<lparr>start_page = eight bs (160 + n * 16), end_page = eight bs (160 + n * 16 + 8)\<rparr> = slice bs (160 + n * 16) (8 + 8)"
    using Suc.prems unfolding slice_split by (simp add: encode_extent_def eight_def le_bytes_slice)
  then show ?case using Suc slice_split [of bs 160 "n * 16" 16] by (simp add: add.commute)
qed (simp add: slice_def)

text \<open>Conversely, a buffer with an acceptable number of extents starts with the encoded prefix of the block it
  decodes to.\<close>

lemma encode_decode_prefix:
  assumes l: "length bs = ENCODED_LEN" and n: "eight bs 144 \<le> MAX_ZERO_EXTENTS"
  shows "take (encoded_len (decode bs)) bs = take (encoded_len (decode bs)) (encode (decode bs))"
proof -
  let ?n = "eight bs 144"
  have c: "length (decode_extents bs) = ?n" using n by (simp add: decode_extents_def Let_def)
  have le: "160 + ?n * 16 \<le> length bs" using l n by (simp add: config_defs)
  have len: "encoded_len (decode bs) = 160 + ?n * 16" using n c by (simp add: encoded_len_def decode_def config_defs)
  have fx: "encode_fixed (decode bs) = take 160 bs" using l n by (intro encode_decode_fixed) (simp_all add: config_defs)
  have ex: "concat (map encode_extent (decode_extents bs)) = slice bs 160 (?n * 16)"
    using encode_decode_extents [OF le] n by (simp add: decode_extents_def Let_def comp_def EXTENTS_OFFSET_def ZERO_EXTENT_BYTES_def)
  have "encode (decode bs) = take 160 bs @ slice bs 160 (?n * 16) @ replicate ((MAX_ZERO_EXTENTS - ?n) * ZERO_EXTENT_BYTES) 0"
    using n c fx ex by (simp add: encode_def Let_def decode_def [of bs])
  then show ?thesis using le by (simp add: len slice_def take_add)
qed

section \<open>Normalised extents\<close>

text \<open>Validated extents are non-empty, sorted, and separated by at least one page.\<close>

fun extents_above :: "nat option \<Rightarrow> zero_extent list \<Rightarrow> bool" where
  "extents_above lo [] = True"
| "extents_above lo (e # es) =
    (start_page e < end_page e \<and> (\<forall>l. lo = Some l \<longrightarrow> l < start_page e) \<and>
     extents_above (Some (end_page e)) es)"

definition normal_extents :: "zero_extent list \<Rightarrow> bool" where
  "normal_extents es = extents_above None es"

lemma validate_extents_from_iff: "validate_extents_from lo es = Inr () \<longleftrightarrow> extents_above lo es"
  by (induction lo es rule: validate_extents_from.induct) (auto split: option.splits)

lemma validate_zero_extents_iff:
  "validate_zero_extents b = Inr () \<longleftrightarrow>
    length (zero_extents b) \<le> MAX_ZERO_EXTENTS \<and> normal_extents (zero_extents b)"
  by (auto simp: validate_zero_extents_def normal_extents_def validate_extents_from_iff)

lemma has_normalized_iff: "has_normalized_zero_extents b \<longleftrightarrow> validate_zero_extents b = Inr ()"
  by (auto simp: has_normalized_zero_extents_def split: sum.splits)

lemma compute_meta_checksum_ignores [simp]:
  "compute_meta_checksum (b\<lparr>meta_checksum := x\<rparr>) = compute_meta_checksum b"
  by (simp add: compute_meta_checksum_def)

lemma fresh_ok: "sb_ok fresh" "zero_extents fresh = []"
  by (simp_all add: fresh_def Let_def sb_ok_def config_defs u64_max_def)

end
