(* ===== verification/Superblock_Store.thy ===== *)
theory Superblock_Store
  imports Superblock
begin

text \<open>
  Loading and storing the superblock, \<open>src/src/stable/meta.rs\<close>, with its per-context cache,
  and the two operations of \<open>src/src/stable/memory.rs\<close> that clear it.

  \<open>holds w v b\<close> says that in world \<open>w\<close> the active memory is \<open>v\<close>, that its image is the valid
  superblock \<open>b\<close>, and that the cache, when filled, agrees with the image.  \<open>touches w w'\<close> says
  that \<open>w'\<close> differs from \<open>w\<close> in the active memory and the active cache entry only.
\<close>

record ('h, 's) meta_world = "('h, 's) mem_world" +
  superblock_cache :: "context_id \<Rightarrow> superblock option"

type_synonym ('h, 's, 'z, 'a) meta_stm =
  "(('h, 's, 'z) meta_world_scheme, 'a, stable_memory_error) stm"

section \<open>The cache\<close>

definition clear_superblock_cache :: "('h, 's, 'z) meta_world_scheme \<Rightarrow> ('h, 's, 'z) meta_world_scheme" where
  "clear_superblock_cache w = w\<lparr>superblock_cache := (\<lambda>_. None)\<rparr>"

definition cache_superblock_owned ::
    "superblock \<Rightarrow> ('h, 's, 'z) meta_world_scheme \<Rightarrow> ('h, 's, 'z) meta_world_scheme" where
  "cache_superblock_owned b w = (case active_context w of
      Some context \<Rightarrow> w\<lparr>superblock_cache := (superblock_cache w)(context \<mapsto> b)\<rparr>
    | None \<Rightarrow> w)"

text \<open>\<open>clear_initialization\<close> and \<open>clear_failed_initialization\<close> of \<open>memory.rs\<close>.\<close>

definition clear_initialization :: "('h, 's, 'z) meta_world_scheme \<Rightarrow> ('h, 's, 'z) meta_world_scheme" where
  "clear_initialization w = clear_superblock_cache
     (w\<lparr>db_memory_slots := [], registered_memory := [], default_context := None,
        current_context := None, next_context_id := 1\<rparr>)"

definition clear_failed_initialization ::
    "context_id \<Rightarrow> ('h, 's, 'z) meta_world_scheme \<Rightarrow> ('h, 's, 'z) meta_world_scheme" where
  "clear_failed_initialization context w = clear_superblock_cache
     (w\<lparr>db_memory_slots := filter (\<lambda>(c, _). c \<noteq> context) (db_memory_slots w),
        registered_memory := filter (\<lambda>(c, _). c \<noteq> context) (registered_memory w),
        default_context := (if default_context w = Some context then None else default_context w),
        current_context := (if current_context w = Some context then None else current_context w)\<rparr>)"

section \<open>Storing and loading\<close>

definition seal :: "superblock \<Rightarrow> superblock" where
  "seal b = (let block = b\<lparr>sb_version := VERSION\<rparr>
     in block\<lparr>meta_checksum := compute_meta_checksum block\<rparr>)"

definition store_with_capacity_check ::
    "('h \<times> 's) memory_ops \<Rightarrow> superblock \<Rightarrow> ('h, 's, 'z, unit) meta_stm" where
  "store_with_capacity_check V b =
     tryS (sumS (validate_zero_extents b)) (\<lambda>_.
     let block = seal b; encoded = encode block in
     tryS (memory_write V SUPERBLOCK_OFFSET (take (encoded_len block) encoded)) (\<lambda>_.
     modifyS (cache_superblock_owned block)))"

definition sb_store :: "('h \<times> 's) memory_ops \<Rightarrow> superblock \<Rightarrow> ('h, 's, 'z, unit) meta_stm" where
  "sb_store V b = store_with_capacity_check V b"

definition store_preallocated ::
    "('h \<times> 's) memory_ops \<Rightarrow> superblock \<Rightarrow> ('h, 's, 'z, unit) meta_stm" where
  "store_preallocated V b =
     tryS (sumS (validate_zero_extents b)) (\<lambda>_.
     let block = seal b; encoded = encode block in
     tryS (write_prechecked V SUPERBLOCK_OFFSET (take (encoded_len block) encoded)) (\<lambda>_.
     modifyS (cache_superblock_owned block)))"

definition check_loaded :: "byte list \<Rightarrow> stable_memory_error + superblock" where
  "check_loaded bytes =
    (let block = decode bytes in
     if sb_magic block \<noteq> SB_MAGIC then Inl ForeignStableMemoryImage
     else if sb_version block \<noteq> VERSION then Inl (UnsupportedLayoutVersion (sb_version block))
     else if layout_version block \<noteq> CURRENT_LAYOUT_VERSION
     then Inl (UnsupportedLayoutVersion (layout_version block))
     else case usize_try_from (eight bytes 144) of None \<Rightarrow> Inl MetaChecksumMismatch
     | Some zero_extent_count \<Rightarrow>
         if MAX_ZERO_EXTENTS < zero_extent_count then Inl MetaChecksumMismatch
         else if \<not> verify_checksum block then Inl MetaChecksumMismatch
         else if \<not> has_normalized_zero_extents block then Inl MetaChecksumMismatch
         else Inr block)"

definition sb_load :: "('h \<times> 's) memory_ops \<Rightarrow> ('h, 's, 'z, superblock) meta_stm" where
  "sb_load V = tryS active_context_id (\<lambda>context w.
     case superblock_cache w context of Some block \<Rightarrow> (Ok block, w)
     | None \<Rightarrow>
         if size_pages V w = 0 then tryS (sb_store V fresh) (\<lambda>_. retS fresh) w
         else tryS (read_preallocated V SUPERBLOCK_OFFSET ENCODED_LEN) (\<lambda>bytes.
              tryS (sumS (check_loaded bytes)) (\<lambda>block.
              tryS (modifyS (cache_superblock_owned block)) (\<lambda>_.
              retS block))) w)"

definition set_db_size :: "('h \<times> 's) memory_ops \<Rightarrow> nat \<Rightarrow> ('h, 's, 'z, unit) meta_stm" where
  "set_db_size V n = tryS (sb_load V) (\<lambda>block. store_preallocated V (block\<lparr>db_size := n\<rparr>))"

definition bump_tx :: "superblock \<Rightarrow> superblock" where
  "bump_tx b = clear_checksum_refresh
     (b\<lparr>last_tx_id := saturating_add (last_tx_id b) 1,
        sb_flags := sb_flags b OR FLAG_CHECKSUM_STALE\<rparr>)"

definition record_committed_tx :: "('h \<times> 's) memory_ops \<Rightarrow> ('h, 's, 'z, unit) meta_stm" where
  "record_committed_tx V = tryS (sb_load V) (\<lambda>block. store_preallocated V (bump_tx block))"

definition with_db_image :: "nat \<Rightarrow> nat \<Rightarrow> zero_extent list \<Rightarrow> superblock \<Rightarrow> superblock" where
  "with_db_image base n extents b = b\<lparr>db_base_offset := base, db_size := n, page_table_offset := 0,
     page_count := page_count_for_size n, layout_version := CURRENT_LAYOUT_VERSION,
     zero_extents := extents\<rparr>"

definition commit_db_image ::
    "('h \<times> 's) memory_ops \<Rightarrow> nat \<Rightarrow> nat \<Rightarrow> zero_extent list \<Rightarrow> ('h, 's, 'z, unit) meta_stm" where
  "commit_db_image V base n extents =
     tryS (sb_load V) (\<lambda>block. store_preallocated V (bump_tx (with_db_image base n extents block)))"

definition store_db_image_without_tx ::
    "('h \<times> 's) memory_ops \<Rightarrow> nat \<Rightarrow> nat \<Rightarrow> zero_extent list \<Rightarrow> ('h, 's, 'z, unit) meta_stm" where
  "store_db_image_without_tx V base n extents =
     tryS (sb_load V) (\<lambda>block. store_preallocated V (with_db_image base n extents block))"

section \<open>The image and its cache\<close>

definition valid_sb :: "superblock \<Rightarrow> bool" where
  "valid_sb b \<longleftrightarrow> sb_ok b \<and> sb_magic b = SB_MAGIC \<and> sb_version b = VERSION \<and>
     layout_version b = CURRENT_LAYOUT_VERSION \<and> verify_checksum b \<and>
     validate_zero_extents b = Inr ()"

definition sb_image :: "(nat \<Rightarrow> byte) \<Rightarrow> superblock \<Rightarrow> bool" where
  "sb_image f b \<longleftrightarrow> valid_sb b \<and> decode (bytes_at f SUPERBLOCK_OFFSET ENCODED_LEN) = b \<and>
     eight (bytes_at f SUPERBLOCK_OFFSET ENCODED_LEN) 144 \<le> MAX_ZERO_EXTENTS"

text \<open>A block that \<open>store\<close> turns into a valid one.\<close>

definition storable_sb :: "superblock \<Rightarrow> bool" where
  "storable_sb b \<longleftrightarrow> sb_ok b \<and> sb_magic b = SB_MAGIC \<and> layout_version b = CURRENT_LAYOUT_VERSION \<and>
     validate_zero_extents b = Inr ()"

lemma sb_image_unique: "sb_image f b \<Longrightarrow> sb_image f b' \<Longrightarrow> b = b'"
  by (auto simp: sb_image_def)

lemma sb_image_cong:
  "(\<And>i. i < SUPERBLOCK_SIZE \<Longrightarrow> g i = f i) \<Longrightarrow> sb_image f b \<Longrightarrow> sb_image g b"
  using bytes_at_cong [of SUPERBLOCK_OFFSET ENCODED_LEN g f] by (simp add: sb_image_def config_defs)

lemma check_loaded_iff:
  assumes "length bs = ENCODED_LEN"
  shows "check_loaded bs = Inr b \<longleftrightarrow> decode bs = b \<and> valid_sb b \<and> eight bs 144 \<le> MAX_ZERO_EXTENTS"
proof -
  have "sb_ok (decode bs)" by (rule decode_bounds) (simp add: assms config_defs)
  moreover have "MAX_ZERO_EXTENTS \<le> usize_max" by (simp add: config_defs int_max_defs)
  ultimately show ?thesis
    by (auto simp: check_loaded_def Let_def valid_sb_def has_normalized_iff usize_try_from_def
        split: option.splits)
qed

lemma seal_fields [simp]:
  "sb_magic (seal b) = sb_magic b" "sb_version (seal b) = VERSION" "zero_extents (seal b) = zero_extents b"
  "layout_version (seal b) = layout_version b" "db_size (seal b) = db_size b"
  "db_base_offset (seal b) = db_base_offset b" "sb_flags (seal b) = sb_flags b"
  "last_tx_id (seal b) = last_tx_id b" "sb_checksum (seal b) = sb_checksum b"
  "import_expected_checksum (seal b) = import_expected_checksum b"
  "import_written_until (seal b) = import_written_until b"
  "import_total_size (seal b) = import_total_size b"
  "import_base_offset (seal b) = import_base_offset b"
  "checksum_refresh_offset (seal b) = checksum_refresh_offset b"
  "checksum_refresh_hash (seal b) = checksum_refresh_hash b"
  "checksum_refresh_tx_id (seal b) = checksum_refresh_tx_id b"
  "page_count (seal b) = page_count b"
  by (simp_all add: seal_def Let_def)

lemma validate_zero_extents_cong:
  "zero_extents b = zero_extents b' \<Longrightarrow> validate_zero_extents b = validate_zero_extents b'"
  by (simp add: validate_zero_extents_def)

lemma valid_seal: "storable_sb b \<Longrightarrow> valid_sb (seal b)"
  using validate_zero_extents_cong [of "seal b" b]
  by (auto simp: storable_sb_def valid_sb_def verify_checksum_def sb_ok_def seal_def Let_def VERSION_def)

lemma storable_valid: "valid_sb b \<Longrightarrow> storable_sb b"
  by (simp add: valid_sb_def storable_sb_def)

lemma seal_valid: "valid_sb b \<Longrightarrow> seal b = b"
  by (cases b) (simp add: valid_sb_def verify_checksum_def seal_def Let_def)

lemma stored_image:
  assumes "storable_sb b"
  defines "s \<equiv> seal b"
  shows "sb_image (blit f SUPERBLOCK_OFFSET (take (encoded_len s) (encode s))) s"
    and "length (take (encoded_len s) (encode s)) \<le> ENCODED_LEN"
proof -
  have v: "valid_sb s" unfolding s_def by (rule valid_seal [OF assms(1)])
  then have n: "length (zero_extents s) \<le> MAX_ZERO_EXTENTS" and ok: "sb_ok s"
    by (simp_all add: valid_sb_def validate_zero_extents_iff)
  from ok have m: "length (sb_magic s) = 8" by (simp add: sb_ok_def)
  let ?e = "take (encoded_len s) (encode s)" and ?g = "blit f SUPERBLOCK_OFFSET (take (encoded_len s) (encode s))"
  have len: "length ?e = encoded_len s" using encoded_len_le [of s] by (simp add: length_encode [OF m])
  then show "length ?e \<le> ENCODED_LEN" using encoded_len_le [of s] by simp
  have pre: "take (encoded_len s) (bytes_at ?g SUPERBLOCK_OFFSET ENCODED_LEN) = ?e"
    using encoded_len_le [of s] len
    by (simp add: take_bytes_at min_absorb1)
  then have d: "decode (bytes_at ?g SUPERBLOCK_OFFSET ENCODED_LEN) = s"
    by (intro decode_prefix [OF ok n]) simp
  have "slice (bytes_at ?g SUPERBLOCK_OFFSET ENCODED_LEN) 144 8 = slice (encode s) 144 8"
    using slice_take [of 144 8 "encoded_len s" "encode s"] encoded_len_le(2) [of s]
      slice_take [of 144 8 "encoded_len s" "bytes_at ?g SUPERBLOCK_OFFSET ENCODED_LEN"]
    by (simp only: pre)
  then have "eight (bytes_at ?g SUPERBLOCK_OFFSET ENCODED_LEN) 144 = length (zero_extents s)"
    using fixed_fields(20) [OF m] slice_encode [OF m, of 144 8] n
    by (simp add: eight_def config_defs u64_max_def)
  with d v n show "sb_image ?g s" by (simp add: sb_image_def)
qed

section \<open>Frames\<close>

lemma cache_put_mem [simp]:
  "superblock_cache (put_mem v w) = superblock_cache w"
  by (auto simp: put_mem_def split: option.splits)

lemma active_cache_update [simp]:
  "active_context (w\<lparr>superblock_cache := x\<rparr>) = active_context w"
  "active_mem (w\<lparr>superblock_cache := x\<rparr>) = active_mem w"
  "put_mem v (w\<lparr>superblock_cache := x\<rparr>) = put_mem v w\<lparr>superblock_cache := x\<rparr>"
  by (auto simp: active_context_def active_mem_def put_mem_def split: option.splits)

definition touches :: "('h, 's, 'z) meta_world_scheme \<Rightarrow> ('h, 's, 'z) meta_world_scheme \<Rightarrow> bool" where
  "touches w w' \<longleftrightarrow> (\<exists>v x. w' = put_mem v w\<lparr>superblock_cache := x\<rparr> \<and>
     (\<forall>c. active_context w \<noteq> Some c \<longrightarrow> x c = superblock_cache w c))"

lemma touches_refl [simp]: "active_mem w = Some v \<Longrightarrow> touches w w"
  unfolding touches_def by (intro exI [of _ v] exI [of _ "superblock_cache w"]) simp

lemma touches_active: "touches w w' \<Longrightarrow> active_context w' = active_context w"
  by (auto simp: touches_def)

lemma touches_trans [trans]: "touches w w1 \<Longrightarrow> touches w1 w2 \<Longrightarrow> touches w w2"
  unfolding touches_def by clarsimp (metis put_mem_put_mem)

lemma touches_put_mem: "touches w (put_mem v w)"
  unfolding touches_def by (intro exI [of _ v] exI [of _ "superblock_cache w"]) simp

lemma touches_cache: "touches w w' \<Longrightarrow> touches w (cache_superblock_owned b w')"
proof -
  assume "touches w w'"
  then obtain v x where w': "w' = put_mem v w\<lparr>superblock_cache := x\<rparr>"
    "\<forall>c. active_context w \<noteq> Some c \<longrightarrow> x c = superblock_cache w c"
    unfolding touches_def by blast
  then show ?thesis
    unfolding touches_def cache_superblock_owned_def
    by (intro exI [of _ v] exI [of _ "case active_context w of Some c \<Rightarrow> x(c \<mapsto> b) | None \<Rightarrow> x"])
      (auto split: option.splits)
qed

lemma cache_owned_simps [simp]:
  "active_context (cache_superblock_owned b w) = active_context w"
  "active_mem (cache_superblock_owned b w) = active_mem w"
  "active_context w = Some c \<Longrightarrow> superblock_cache (cache_superblock_owned b w) c = Some b"
  by (auto simp: cache_superblock_owned_def split: option.splits)

lemma touches_fields:
  assumes "touches w w'"
  shows "next_context_id w' = next_context_id w" "default_context w' = default_context w"
    "current_context w' = current_context w" "registered_memory w' = registered_memory w"
    "meta_world.more w' = meta_world.more w"
    "map fst (db_memory_slots w') = map fst (db_memory_slots w)"
  using assms by (auto simp: touches_def put_mem_def split: option.splits)

section \<open>Correctness of load and store\<close>

context db_mem
begin

definition holds :: "('h, 's, 'z) meta_world_scheme \<Rightarrow> 'h \<times> 's \<Rightarrow> superblock \<Rightarrow> bool" where
  "holds w v b \<longleftrightarrow> active_mem w = Some v \<and> inv v \<and> 1 \<le> mem_size V v \<and> sb_image (byte_of v) b \<and>
     (\<forall>c. active_context w = Some c \<longrightarrow> superblock_cache w c = None \<or> superblock_cache w c = Some b)"

lemma holdsD:
  assumes "holds w v b"
  shows "active_mem w = Some v" "inv v" "1 \<le> mem_size V v" "sb_image (byte_of v) b" "valid_sb b"
    "SUPERBLOCK_SIZE \<le> cap v"
  using assms by (auto simp: holds_def sb_image_def SUPERBLOCK_SIZE_def)

lemma holds_same_mem:
  assumes "holds w v b" "same_mem v v'"
  shows "holds (put_mem v' w) v' b"
  using assms by (auto simp: holds_def same_mem_def)

lemma holds_cached:
  assumes "holds w v b"
  shows "holds (cache_superblock_owned b w) v b"
  using assms by (auto simp: holds_def)

lemma load_ok:
  assumes h: "holds w v b"
  obtains w' v' where "sb_load V w = (Ok b, w')" "holds w' v' b" "same_mem v v'" "touches w w'"
proof -
  note d = holdsD [OF h]
  obtain c where c: "active_context w = Some c" using active_context_idD [OF d(1)] by blast
  then have ac: "active_context_id w = (Ok c, w)" by (simp add: active_context_id_def)
  show ?thesis
  proof (cases "superblock_cache w c")
    case (Some b')
    then have "b' = b" using h c by (auto simp: holds_def)
    then show ?thesis
      using that [of w v] Some ac h d same_mem_refl by (simp add: sb_load_def)
  next
    case None
    have le: "SUPERBLOCK_OFFSET + ENCODED_LEN \<le> cap v" using d(6) by (simp add: config_defs)
    obtain v' where r: "read_preallocated V SUPERBLOCK_OFFSET ENCODED_LEN w =
        (Ok (bytes_at (byte_of v) SUPERBLOCK_OFFSET ENCODED_LEN), put_mem v' w)" "same_mem v v'"
      using read_preallocated_ok [OF d(1,2) le] by blast
    have "check_loaded (bytes_at (byte_of v) SUPERBLOCK_OFFSET ENCODED_LEN) = Inr b"
      using d(4) by (simp add: check_loaded_iff sb_image_def)
    moreover have "size_pages V w \<noteq> 0" using d(3) size_pages_active [OF d(1)] by simp
    ultimately have "sb_load V w = (Ok b, cache_superblock_owned b (put_mem v' w))"
      using None ac r(1) by (simp add: sb_load_def retS_def)
    then show ?thesis
      using that holds_cached [OF holds_same_mem [OF h r(2)]] r(2) touches_cache [OF touches_put_mem]
      by blast
  qed
qed

lemma store_preallocated_ok:
  assumes h: "holds w v b" and s: "storable_sb b'"
  obtains w' v' where "store_preallocated V b' w = (Ok (), w')" "holds w' v' (seal b')" "touches w w'"
    "mem_size V v' = mem_size V v" "\<And>i. SUPERBLOCK_SIZE \<le> i \<Longrightarrow> byte_of v' i = byte_of v i"
proof -
  note d = holdsD [OF h]
  let ?e = "take (encoded_len (seal b')) (encode (seal b'))"
  note im = stored_image [OF s]
  have le: "SUPERBLOCK_OFFSET + length ?e \<le> cap v"
    using im(2) d(6) by (simp add: config_defs)
  obtain v' where w: "write_prechecked V SUPERBLOCK_OFFSET ?e w = (Ok (), put_mem v' w)"
    and v': "inv v'" "mem_size V v' = mem_size V v" "byte_of v' = blit (byte_of v) SUPERBLOCK_OFFSET ?e"
    using write_prechecked_ok [OF d(1,2) le] by blast
  have "validate_zero_extents b' = Inr ()" using s by (simp add: storable_sb_def)
  then have run: "store_preallocated V b' w = (Ok (), cache_superblock_owned (seal b') (put_mem v' w))"
    using w by (simp add: store_preallocated_def Let_def modifyS_def)
  have keep: "byte_of v' i = byte_of v i" if "SUPERBLOCK_SIZE \<le> i" for i
    unfolding v'(3) using that im(2) by (intro blit_out) (simp add: config_defs)
  have "holds (cache_superblock_owned (seal b') (put_mem v' w)) v' (seal b')"
    using d v' im(1) by (auto simp: holds_def)
  with run that v'(2) keep touches_cache [OF touches_put_mem] show ?thesis by blast
qed

text \<open>Storing a block that does not validate writes nothing.\<close>

lemma store_preallocated_invalid:
  "validate_zero_extents b' = Inl e \<Longrightarrow> store_preallocated V b' w = (Err e, w)"
  by (simp add: store_preallocated_def errS_def)

lemma update_block_ok:
  assumes h: "holds w v b" and s: "storable_sb (f b)"
  obtains w' v' where "tryS (sb_load V) (\<lambda>block. store_preallocated V (f block)) w = (Ok (), w')"
    "holds w' v' (seal (f b))" "touches w w'" "mem_size V v' = mem_size V v"
    "\<And>i. SUPERBLOCK_SIZE \<le> i \<Longrightarrow> byte_of v' i = byte_of v i"
proof -
  obtain w1 v1 where l: "sb_load V w = (Ok b, w1)" "holds w1 v1 b" "same_mem v v1" "touches w w1"
    using load_ok [OF h] by blast
  obtain w2 v2 where st: "store_preallocated V (f b) w1 = (Ok (), w2)" "holds w2 v2 (seal (f b))"
    "touches w1 w2" "mem_size V v2 = mem_size V v1"
    "\<And>i. SUPERBLOCK_SIZE \<le> i \<Longrightarrow> byte_of v2 i = byte_of v1 i"
    using store_preallocated_ok [OF l(2) s] by metis
  show ?thesis
    by (rule that [of w2 v2]) (use l st same_memD [OF l(3)] touches_trans in auto)
qed

text \<open>The first load of an empty memory creates the fresh superblock.\<close>

lemma storable_fresh: "storable_sb fresh"
  by (simp add: storable_sb_def fresh_ok validate_zero_extents_def)
    (simp add: fresh_def Let_def)

lemma seal_fresh [simp]: "seal fresh = fresh"
  by (simp add: seal_def fresh_def Let_def compute_meta_checksum_def)

lemma load_fresh:
  assumes w: "active_mem w = Some v" and v: "inv v" "mem_size V v = 0"
    and c: "active_context w = Some c" "superblock_cache w c = None"
  obtains (Ok) w' v' where "sb_load V w = (Ok fresh, w')" "holds w' v' fresh" "touches w w'"
  | (Err) e where "sb_load V w = (Err e, w)"
proof -
  let ?e = "take (encoded_len fresh) (encode fresh)"
  note im = stored_image [OF storable_fresh, unfolded seal_fresh]
  have val: "validate_zero_extents fresh = Inr ()" using storable_fresh by (simp add: storable_sb_def)
  have ac: "active_context_id w = (Ok c, w)" using c by (simp add: active_context_id_def)
  have run: "sb_load V w = tryS (sb_store V fresh) (\<lambda>_. retS fresh) w"
    using ac c v(2) size_pages_active [OF w] by (simp add: sb_load_def)
  show ?thesis
  proof (cases rule: memory_write_cases [OF w v(1), of SUPERBLOCK_OFFSET ?e])
    case (1 u v')
    have ne: "?e \<noteq> []"
      using encoded_len_le(2) [of fresh] length_encode [of fresh] fresh_ok(1)
      by (auto simp: sb_ok_def config_defs)
    have "0 < length ?e" using ne by simp
    then have "0 < cap v'" using 1(6) [OF ne] by linarith
    then have pos: "1 \<le> mem_size V v'" by (rule contrapos_pp) (simp add: not_le)
    have "holds (cache_superblock_owned fresh (put_mem v' w)) v' fresh"
      using 1 w pos im(1) by (auto simp: holds_def)
    moreover have "sb_load V w = (Ok fresh, cache_superblock_owned fresh (put_mem v' w))"
      using run 1(1) val
      by (simp add: sb_store_def store_with_capacity_check_def Let_def modifyS_def retS_def tryS_def)
    ultimately show ?thesis using Ok touches_cache [OF touches_put_mem] by blast
  next
    case (2 err)
    then have "sb_load V w = (Err err, w)"
      using run val by (simp add: sb_store_def store_with_capacity_check_def Let_def tryS_def)
    then show ?thesis by (rule Err)
  qed
qed

end

end
