(* ===== verification/Zero_Extents.thy ===== *)
theory Zero_Extents
  imports Superblock
begin

text \<open>
  The zero-extent algebra of \<open>src/src/sqlite_vfs/stable_blob.rs\<close>: page ranges that read as
  zeros without being stored.  A list of extents stands for the set of pages it masks
  (\<open>zero_masked\<close>); adding, subtracting and normalising are set union, difference and identity,
  and all of them end in the normal form that the superblock validates.
\<close>

definition page_in_extent :: "zero_extent \<Rightarrow> nat \<Rightarrow> bool" where
  "page_in_extent e p = (start_page e \<le> p \<and> p < end_page e)"

definition zero_masked :: "zero_extent list \<Rightarrow> nat \<Rightarrow> bool" where
  "zero_masked es p = list_ex (\<lambda>e. page_in_extent e p) es"

text \<open>The merging loop; its first argument is the element that \<open>normalized.last_mut()\<close> names.\<close>

fun merge_extents :: "zero_extent \<Rightarrow> zero_extent list \<Rightarrow> zero_extent list" where
  "merge_extents l [] = [l]"
| "merge_extents l (e # es) =
    (if start_page e \<le> end_page l
     then merge_extents (l\<lparr>end_page := max (end_page l) (end_page e)\<rparr>) es
     else l # merge_extents e es)"

definition normalize_zero_extents_without_limit :: "zero_extent list \<Rightarrow> zero_extent list" where
  "normalize_zero_extents_without_limit es =
    (case sort_key start_page (filter (\<lambda>e. start_page e < end_page e) es) of
       [] \<Rightarrow> []
     | e # rest \<Rightarrow> merge_extents e rest)"

definition add_zero_extent_without_limit :: "zero_extent list \<Rightarrow> nat \<Rightarrow> nat \<Rightarrow> zero_extent list" where
  "add_zero_extent_without_limit es a b =
    (if b \<le> a then es
     else normalize_zero_extents_without_limit (es @ [\<lparr>start_page = a, end_page = b\<rparr>]))"

definition cut_extent :: "nat \<Rightarrow> nat \<Rightarrow> zero_extent \<Rightarrow> zero_extent list" where
  "cut_extent a b e =
    (if b \<le> start_page e \<or> end_page e \<le> a then [e]
     else (if start_page e < a then [\<lparr>start_page = start_page e, end_page = a\<rparr>] else []) @
          (if b < end_page e then [\<lparr>start_page = b, end_page = end_page e\<rparr>] else []))"

definition subtract_zero_extent_without_limit :: "zero_extent list \<Rightarrow> nat \<Rightarrow> nat \<Rightarrow> zero_extent list" where
  "subtract_zero_extent_without_limit es a b =
    (if b \<le> a \<or> es = [] then es
     else normalize_zero_extents_without_limit (concat (map (cut_extent a b) es)))"

definition enforce_zero_extent_limit :: "zero_extent list \<Rightarrow> stable_memory_error + unit" where
  "enforce_zero_extent_limit es =
    (if MAX_ZERO_EXTENTS < length es then Inl (ZeroExtentLimitExceeded MAX_ZERO_EXTENTS) else Inr ())"

definition enforce_temporary_zero_extent_limit ::
    "zero_extent list \<Rightarrow> nat \<Rightarrow> stable_memory_error + unit" where
  "enforce_temporary_zero_extent_limit es temporary_limit =
    (if temporary_limit < length es then Inl (ZeroExtentLimitExceeded MAX_ZERO_EXTENTS) else Inr ())"

section \<open>Extents as sets of pages\<close>

lemma zero_masked_simps [simp]:
  "zero_masked [] p \<longleftrightarrow> False"
  "zero_masked (e # es) p \<longleftrightarrow> page_in_extent e p \<or> zero_masked es p"
  "zero_masked (es @ es') p \<longleftrightarrow> zero_masked es p \<or> zero_masked es' p"
  by (simp_all add: zero_masked_def)

lemma zero_masked_iff: "zero_masked es p \<longleftrightarrow> (\<exists>e \<in> set es. page_in_extent e p)"
  by (auto simp: zero_masked_def list_ex_iff)

lemma zero_masked_cong: "set es = set es' \<Longrightarrow> zero_masked es p = zero_masked es' p"
  by (simp add: zero_masked_iff)

lemma zero_masked_merge:
  "sorted (map start_page (l # es)) \<Longrightarrow> \<forall>e \<in> set (l # es). start_page e < end_page e \<Longrightarrow>
    zero_masked (merge_extents l es) p \<longleftrightarrow> zero_masked (l # es) p"
proof (induction l es rule: merge_extents.induct)
  case (2 l e es)
  show ?case
  proof (cases "start_page e \<le> end_page l")
    case True
    let ?l = "l\<lparr>end_page := max (end_page l) (end_page e)\<rparr>"
    have "page_in_extent ?l p \<longleftrightarrow> page_in_extent l p \<or> page_in_extent e p"
      using True 2(3) by (auto simp: page_in_extent_def)
    moreover have "zero_masked (merge_extents ?l es) p \<longleftrightarrow> zero_masked (?l # es) p"
      using True 2(3,4) by (intro 2(1)) auto
    ultimately show ?thesis using True by auto
  next
    case False
    then have "zero_masked (merge_extents e es) p \<longleftrightarrow> zero_masked (e # es) p"
      using 2(3,4) by (intro 2(2)) auto
    with False show ?thesis by simp
  qed
qed simp

lemma extents_above_merge:
  "sorted (map start_page (l # es)) \<Longrightarrow> \<forall>e \<in> set (l # es). start_page e < end_page e \<Longrightarrow>
    (\<And>x. lo = Some x \<Longrightarrow> x < start_page l) \<Longrightarrow> extents_above lo (merge_extents l es)"
proof (induction l es arbitrary: lo rule: merge_extents.induct)
  case (2 l e es)
  show ?case
  proof (cases "start_page e \<le> end_page l")
    case True
    let ?l = "l\<lparr>end_page := max (end_page l) (end_page e)\<rparr>"
    have "extents_above lo (merge_extents ?l es)"
      using True 2(3-5) by (intro 2(1)) auto
    then show ?thesis using True by simp
  next
    case False
    then have "extents_above (Some (end_page l)) (merge_extents e es)"
      using 2(3,4) by (intro 2(2)) auto
    with False 2(4,5) show ?thesis by simp
  qed
qed simp

lemma normalize_spec:
  "zero_masked (normalize_zero_extents_without_limit es) p \<longleftrightarrow> zero_masked es p"
  "normal_extents (normalize_zero_extents_without_limit es)"
proof -
  let ?xs = "sort_key start_page (filter (\<lambda>e. start_page e < end_page e) es)"
  have m: "zero_masked ?xs p \<longleftrightarrow> zero_masked es p"
    by (auto simp: zero_masked_iff page_in_extent_def)
  show "zero_masked (normalize_zero_extents_without_limit es) p \<longleftrightarrow> zero_masked es p"
    "normal_extents (normalize_zero_extents_without_limit es)"
  proof (atomize (full), cases ?xs)
    case Nil
    then show "(zero_masked (normalize_zero_extents_without_limit es) p \<longleftrightarrow> zero_masked es p) \<and>
        normal_extents (normalize_zero_extents_without_limit es)"
      using m by (simp add: normalize_zero_extents_without_limit_def normal_extents_def)
  next
    case (Cons e rest)
    have "sorted (map start_page ?xs)" "\<forall>e \<in> set ?xs. start_page e < end_page e" by auto
    then have s: "sorted (map start_page (e # rest))" "\<forall>e \<in> set (e # rest). start_page e < end_page e"
      unfolding Cons by blast+
    from m zero_masked_merge [OF s] extents_above_merge [OF s, of None]
    show "(zero_masked (normalize_zero_extents_without_limit es) p \<longleftrightarrow> zero_masked es p) \<and>
        normal_extents (normalize_zero_extents_without_limit es)"
      by (simp add: normalize_zero_extents_without_limit_def normal_extents_def Cons)
  qed
qed

lemma add_zero_extent_masked [simp]:
  "zero_masked (add_zero_extent_without_limit es a b) p \<longleftrightarrow> zero_masked es p \<or> a \<le> p \<and> p < b"
  by (auto simp: add_zero_extent_without_limit_def normalize_spec page_in_extent_def)

lemma add_zero_extent_normal:
  "normal_extents es \<Longrightarrow> normal_extents (add_zero_extent_without_limit es a b)"
  by (simp add: add_zero_extent_without_limit_def normalize_spec)

lemma zero_masked_cut:
  "a < b \<Longrightarrow> zero_masked (cut_extent a b e) p \<longleftrightarrow> page_in_extent e p \<and> \<not> (a \<le> p \<and> p < b)"
  by (auto simp: cut_extent_def page_in_extent_def)

lemma zero_masked_concat: "zero_masked (concat xss) p \<longleftrightarrow> (\<exists>xs \<in> set xss. zero_masked xs p)"
  by (auto simp: zero_masked_iff)

lemma subtract_zero_extent_masked [simp]:
  "zero_masked (subtract_zero_extent_without_limit es a b) p \<longleftrightarrow>
    zero_masked es p \<and> \<not> (a \<le> p \<and> p < b)"
proof (cases "b \<le> a \<or> es = []")
  case True
  then show ?thesis by (auto simp: subtract_zero_extent_without_limit_def)
next
  case False
  then show ?thesis
    by (auto simp: subtract_zero_extent_without_limit_def normalize_spec zero_masked_concat
        zero_masked_cut) (auto simp: zero_masked_iff)
qed

lemma subtract_zero_extent_normal:
  "normal_extents es \<Longrightarrow> normal_extents (subtract_zero_extent_without_limit es a b)"
  by (simp add: subtract_zero_extent_without_limit_def normalize_spec)

text \<open>Two normal lists that mask the same pages are equal: the normal form is canonical.\<close>

lemma above_masked: "extents_above lo es \<Longrightarrow> zero_masked es p \<Longrightarrow> lo = Some l \<Longrightarrow> l < p"
  by (induction lo es arbitrary: l rule: extents_above.induct) (fastforce simp: page_in_extent_def)+

lemma normal_head:
  assumes "extents_above lo (e # es)"
  shows "zero_masked (e # es) (start_page e)" "\<not> zero_masked (e # es) (end_page e)"
    "zero_masked (e # es) p \<Longrightarrow> start_page e \<le> p"
    "start_page e \<le> p \<Longrightarrow> p < end_page e \<Longrightarrow> zero_masked (e # es) p"
    "zero_masked es p \<longleftrightarrow> zero_masked (e # es) p \<and> end_page e < p"
  using assms above_masked [of "Some (end_page e)" es _ "end_page e"]
  by (fastforce simp: page_in_extent_def)+

lemma extents_above_unique:
  "extents_above lo es \<Longrightarrow> extents_above lo' es' \<Longrightarrow> (\<And>p. zero_masked es p = zero_masked es' p) \<Longrightarrow> es = es'"
proof (induction es arbitrary: lo lo' es')
  case Nil
  then show ?case using normal_head(1) by (cases es') fastforce+
next
  case (Cons e r)
  note eq = Cons.prems(3) and n = normal_head [OF Cons.prems(1)]
  from n(1) eq obtain e' r' where es': "es' = e' # r'" by (cases es') auto
  note n' = normal_head [OF Cons.prems(2) [unfolded es']]
  have st: "start_page e = start_page e'"
    using n(1,3) n'(1,3) eq unfolding es' by (metis order_antisym)
  have lt: "start_page e < end_page e" "start_page e' < end_page e'"
    using Cons.prems(1,2) es' by simp_all
  have en: "end_page e = end_page e'"
  proof (rule ccontr)
    assume "end_page e \<noteq> end_page e'"
    then consider "end_page e < end_page e'" | "end_page e' < end_page e" by linarith
    then show False
      using n(2,4) n'(2,4) eq lt st unfolding es' by cases (metis less_imp_le_nat)+
  qed
  have "r = r'"
  proof (rule Cons.IH)
    show "extents_above (Some (end_page e)) r" "extents_above (Some (end_page e')) r'"
      using Cons.prems(1,2) es' by simp_all
    show "zero_masked r p = zero_masked r' p" for p
      using n(5) [of p] n'(5) [of p] eq [of p] en unfolding es' by simp
  qed
  with st en show ?case unfolding es' by (cases e; cases e') simp
qed

lemma normal_extents_unique:
  "normal_extents es \<Longrightarrow> normal_extents es' \<Longrightarrow> (\<And>p. zero_masked es p = zero_masked es' p) \<Longrightarrow> es = es'"
  unfolding normal_extents_def by (rule extents_above_unique)

lemma normalize_id: "normal_extents es \<Longrightarrow> normalize_zero_extents_without_limit es = es"
  by (rule normal_extents_unique) (simp_all add: normalize_spec)

section \<open>Bounds\<close>

definition extents_within :: "nat \<Rightarrow> zero_extent list \<Rightarrow> bool" where
  "extents_within n es \<longleftrightarrow> (\<forall>e \<in> set es. start_page e \<le> n \<and> end_page e \<le> n)"

lemma extents_within_merge:
  "extents_within n (l # es) \<Longrightarrow> extents_within n (merge_extents l es)"
  by (induction l es rule: merge_extents.induct) (auto simp: extents_within_def)

lemma extents_within_normalize:
  assumes "extents_within n es"
  shows "extents_within n (normalize_zero_extents_without_limit es)"
proof -
  let ?xs = "sort_key start_page (filter (\<lambda>e. start_page e < end_page e) es)"
  have "extents_within n ?xs" using assms by (auto simp: extents_within_def)
  then show ?thesis
    by (cases ?xs) (auto simp: normalize_zero_extents_without_limit_def intro: extents_within_merge)
qed

lemma extents_within_add:
  assumes "extents_within n es" "b \<le> n"
  shows "extents_within n (add_zero_extent_without_limit es a b)"
proof -
  have "extents_within n (es @ [\<lparr>start_page = a, end_page = b\<rparr>])" if "\<not> b \<le> a"
    using assms that by (auto simp: extents_within_def)
  then show ?thesis
    using assms extents_within_normalize by (simp add: add_zero_extent_without_limit_def)
qed

lemma extents_within_subtract:
  assumes "extents_within n es"
  shows "extents_within n (subtract_zero_extent_without_limit es a b)"
proof -
  have "extents_within n (concat (map (cut_extent a b) es))"
    using assms by (auto simp: extents_within_def cut_extent_def split: if_splits)
  then show ?thesis
    using assms extents_within_normalize by (simp add: subtract_zero_extent_without_limit_def)
qed

end
