(* ===== verification/Blob_Read.thy ===== *)
theory Blob_Read
  imports Superblock_Store Zero_Extents
begin

text \<open>
  Reading the published database image, \<open>src/src/sqlite_vfs/stable_blob.rs\<close>: logical page \<open>n\<close>
  lives at \<open>db_base_offset + n * SQLITE_PAGE_SIZE\<close> unless it is masked by a zero extent.

  A destination buffer is its length; a read returns the bytes that fill it.  The image as the
  readers see it is the function \<open>img_byte\<close>; each reader is shown to return a range of it.  The
  page cache of a file handle is part of the state of the cached readers, because it is
  updated even when the read fails afterwards.
\<close>

section \<open>Pages of the image\<close>

definition CHECKSUM_CHUNK_LEN :: nat where
  [config_defs]: "CHECKSUM_CHUNK_LEN = 16 * 1024"

definition FILE_PAGE_OFFSET_CACHE_CAPACITY :: nat where
  "FILE_PAGE_OFFSET_CACHE_CAPACITY = 64"

definition FILE_PAGE_DATA_CACHE_CAPACITY :: nat where
  "FILE_PAGE_DATA_CACHE_CAPACITY = 8"

abbreviation PS :: nat where
  "PS \<equiv> SQLITE_PAGE_SIZE"

definition checked_addS :: "nat \<Rightarrow> nat \<Rightarrow> ('w, nat, stable_memory_error) stm" where
  "checked_addS a b = ok_orS OffsetOverflow (checked_add a b)"

definition zero_page :: "byte list" where
  "zero_page = replicate PS 0"

definition active_page_count :: "superblock \<Rightarrow> nat" where
  "active_page_count b = page_count_for_size (db_size b)"

definition page_is_zero_masked :: "superblock \<Rightarrow> nat \<Rightarrow> bool" where
  "page_is_zero_masked b p = zero_masked (zero_extents b) p"

definition page_physical_offset :: "superblock \<Rightarrow> nat \<Rightarrow> ('w, nat, stable_memory_error) stm" where
  "page_physical_offset b p =
     tryS (ok_orS OffsetOverflow (checked_mul p PS)) (checked_addS (db_base_offset b))"

definition page_offset_for :: "superblock \<Rightarrow> nat \<Rightarrow> ('w, nat, stable_memory_error) stm" where
  "page_offset_for b p = (if active_page_count b \<le> p then retS 0 else page_physical_offset b p)"

section \<open>Reading without a cache\<close>

definition read_logical_page_slice ::
    "('h \<times> 's) memory_ops \<Rightarrow> superblock \<Rightarrow> nat \<Rightarrow> nat \<Rightarrow> nat \<Rightarrow> ('h, 's, 'z, byte list) mem_stm" where
  "read_logical_page_slice V b p in_page n =
    (if page_is_zero_masked b p then retS (replicate n 0)
     else tryS (page_offset_for b p) (\<lambda>physical.
       if physical = 0 then retS (replicate n 0)
       else tryS (checked_addS physical in_page) (\<lambda>stable_offset.
         read_preallocated V stable_offset n)))"

lemma page_step: "\<not> n \<le> k \<Longrightarrow> 0 < min (PS - x mod PS) (n - k)" "x mod PS < PS"
  by simp_all

function read_range_loop ::
    "(nat \<Rightarrow> nat \<Rightarrow> nat \<Rightarrow> ('w, byte list, stable_memory_error) stm) \<Rightarrow> nat \<Rightarrow> nat \<Rightarrow> nat \<Rightarrow> byte list \<Rightarrow>
     ('w, byte list, stable_memory_error) stm" where
  "read_range_loop read_slice off n copied_total acc =
    (if n \<le> copied_total then retS acc
     else tryS (checked_addS off copied_total) (\<lambda>absolute.
       let in_page = absolute mod PS; copied = min (PS - in_page) (n - copied_total) in
       tryS (read_slice (absolute div PS) in_page copied) (\<lambda>bs.
       read_range_loop read_slice off n (copied_total + copied) (acc @ bs))))"
  by pat_completeness auto
termination
  by (relation "measure (\<lambda>(_, _, n, copied, _). n - copied)") (use page_step in \<open>auto intro: diff_less_mono2\<close>)

declare read_range_loop.simps [simp del]

definition read_logical_range ::
    "('h \<times> 's) memory_ops \<Rightarrow> superblock \<Rightarrow> nat \<Rightarrow> nat \<Rightarrow> ('h, 's, 'z, byte list) mem_stm" where
  "read_logical_range V b off n =
    (if n = 0 then retS []
     else if n \<le> PS - off mod PS then read_logical_page_slice V b (off div PS) (off mod PS) n
     else read_range_loop (read_logical_page_slice V b) off n 0 [])"

definition read_base_at_with_block ::
    "('h \<times> 's) memory_ops \<Rightarrow> superblock \<Rightarrow> nat \<Rightarrow> nat \<Rightarrow> ('h, 's, 'z, byte list \<times> bool) mem_stm" where
  "read_base_at_with_block V b off n =
    (if n = 0 then retS ([], True)
     else if db_size b \<le> off then retS (replicate n 0, False)
     else if n \<le> db_size b - off
     then tryS (read_logical_range V b off n) (\<lambda>bs. retS (bs, True))
     else let copied = min n (db_size b - off) in
       tryS (read_logical_range V b off copied) (\<lambda>bs.
       retS (bs @ replicate (n - copied) 0, copied = n)))"

definition read_base_at ::
    "('h \<times> 's) memory_ops \<Rightarrow> nat \<Rightarrow> nat \<Rightarrow> ('h, 's, 'z, byte list \<times> bool) meta_stm" where
  "read_base_at V off n =
    (if n = 0 then retS ([], True)
     else tryS (sb_load V) (\<lambda>block. read_base_at_with_block V block off n))"

definition read_base_page :: "('h \<times> 's) memory_ops \<Rightarrow> nat \<Rightarrow> ('h, 's, 'z, byte list) meta_stm" where
  "read_base_page V p =
     tryS (sb_load V) (\<lambda>block.
     tryS (ok_orS OffsetOverflow (checked_mul p PS)) (\<lambda>off.
     tryS (read_base_at_with_block V block off PS) (\<lambda>(page, _). retS page)))"

section \<open>The page cache of a file handle\<close>

record page_offset_cache =
  poc_entries :: "(nat \<times> nat) list"
  poc_pages :: "(nat \<times> byte list) list"

definition page_offset_cache_new :: page_offset_cache where
  "page_offset_cache_new = \<lparr>poc_entries = [], poc_pages = []\<rparr>"

definition poc_get :: "page_offset_cache \<Rightarrow> nat \<Rightarrow> nat option" where
  "poc_get c p = map_of (poc_entries c) p"

definition poc_insert :: "nat \<Rightarrow> nat \<Rightarrow> page_offset_cache \<Rightarrow> page_offset_cache" where
  "poc_insert p physical c =
    (let es = (if length (poc_entries c) = FILE_PAGE_OFFSET_CACHE_CAPACITY then tl (poc_entries c)
               else poc_entries c)
     in c\<lparr>poc_entries := es @ [(p, physical)]\<rparr>)"

text \<open>The slice \<open>page[in_page..in_page + n]\<close> panics out of range.\<close>

definition copy_page_slice :: "page_offset_cache \<Rightarrow> nat \<Rightarrow> nat \<Rightarrow> nat \<Rightarrow> byte list option option" where
  "copy_page_slice c p in_page n = (case map_of (poc_pages c) p of
      None \<Rightarrow> Some None
    | Some page \<Rightarrow> if in_page + n \<le> length page then Some (Some (slice page in_page n)) else None)"

definition poc_insert_page :: "nat \<Rightarrow> byte list \<Rightarrow> page_offset_cache \<Rightarrow> page_offset_cache" where
  "poc_insert_page p page c =
    (let ps = (if length (poc_pages c) = FILE_PAGE_DATA_CACHE_CAPACITY then tl (poc_pages c)
               else poc_pages c)
     in c\<lparr>poc_pages := ps @ [(p, page)]\<rparr>)"

section \<open>Reading through the cache\<close>

definition liftS :: "('w, 'a, 'e) stm \<Rightarrow> ('w \<times> 'c, 'a, 'e) stm" where
  "liftS m wc = (let (r, w') = m (fst wc) in (r, (w', snd wc)))"

definition cached_page_offset ::
    "superblock \<Rightarrow> nat \<Rightarrow> ('w \<times> page_offset_cache, nat, stable_memory_error) stm" where
  "cached_page_offset b p wc = (case poc_get (snd wc) p of
      Some physical \<Rightarrow> (Ok physical, wc)
    | None \<Rightarrow> tryS (page_offset_for b p) (\<lambda>physical.
        tryS (modifyS (\<lambda>(w, c). (w, poc_insert p physical c))) (\<lambda>_. retS physical)) wc)"

definition read_uncached_slice ::
    "('h \<times> 's) memory_ops \<Rightarrow> nat \<Rightarrow> nat \<Rightarrow> nat \<Rightarrow> nat \<Rightarrow>
     (('h, 's, 'z) mem_world_scheme \<times> page_offset_cache, byte list, stable_memory_error) stm" where
  "read_uncached_slice V p physical in_page n =
    (if physical = 0 then retS (replicate n 0)
     else if in_page = 0 \<and> n = PS then liftS (read_preallocated V physical n)
     else if n < PS then
       tryS (liftS (read_preallocated V physical PS)) (\<lambda>page.
         if in_page + n \<le> PS then
           tryS (modifyS (\<lambda>(w, c). (w, poc_insert_page p page c))) (\<lambda>_. retS (slice page in_page n))
         else panicS)
     else tryS (checked_addS physical in_page) (\<lambda>stable_offset.
       liftS (read_preallocated V stable_offset n)))"

definition read_logical_page_slice_with_page_cache ::
    "('h \<times> 's) memory_ops \<Rightarrow> superblock \<Rightarrow> nat \<Rightarrow> nat \<Rightarrow> nat \<Rightarrow>
     (('h, 's, 'z) mem_world_scheme \<times> page_offset_cache, byte list, stable_memory_error) stm" where
  "read_logical_page_slice_with_page_cache V b p in_page n =
    (if page_is_zero_masked b p then retS (replicate n 0)
     else (\<lambda>wc. case (if n < PS then copy_page_slice (snd wc) p in_page n else Some None) of
         None \<Rightarrow> panicS wc
       | Some (Some bs) \<Rightarrow> retS bs wc
       | Some None \<Rightarrow> tryS (cached_page_offset b p) (\<lambda>physical.
           read_uncached_slice V p physical in_page n) wc))"

definition read_logical_range_with_page_cache ::
    "('h \<times> 's) memory_ops \<Rightarrow> superblock \<Rightarrow> nat \<Rightarrow> nat \<Rightarrow>
     (('h, 's, 'z) mem_world_scheme \<times> page_offset_cache, byte list, stable_memory_error) stm" where
  "read_logical_range_with_page_cache V b off n =
    (if n \<le> PS - off mod PS
     then read_logical_page_slice_with_page_cache V b (off div PS) (off mod PS) n
     else read_range_loop (read_logical_page_slice_with_page_cache V b) off n 0 [])"

definition read_base_at_with_page_cache ::
    "('h \<times> 's) memory_ops \<Rightarrow> superblock \<Rightarrow> nat \<Rightarrow> nat \<Rightarrow>
     (('h, 's, 'z) mem_world_scheme \<times> page_offset_cache, byte list \<times> bool, stable_memory_error) stm" where
  "read_base_at_with_page_cache V b off n =
    (if n = 0 then retS ([], True)
     else if db_size b \<le> off then retS (replicate n 0, False)
     else if n \<le> db_size b - off
     then tryS (read_logical_range_with_page_cache V b off n) (\<lambda>bs. retS (bs, True))
     else let copied = min n (db_size b - off) in
       tryS (read_logical_range_with_page_cache V b off copied) (\<lambda>bs.
       retS (bs @ replicate (n - copied) 0, copied = n)))"

section \<open>The image\<close>

definition img_byte :: "superblock \<Rightarrow> (nat \<Rightarrow> byte) \<Rightarrow> nat \<Rightarrow> byte" where
  "img_byte b f i =
    (if db_size b \<le> i \<or> zero_masked (zero_extents b) (i div PS) then 0
     else f (db_base_offset b + i))"

text \<open>Where the image lies: above the superblock, aligned to stable pages, inside the memory.\<close>

definition img_placed :: "superblock \<Rightarrow> nat \<Rightarrow> bool" where
  "img_placed b capacity \<longleftrightarrow> DB_REGION_OFFSET \<le> db_base_offset b \<and>
     db_base_offset b mod STABLE_PAGE_SIZE = 0 \<and> db_base_offset b + db_size b \<le> capacity"

text \<open>What a short read returns: the bytes that exist, zeros for the rest, and whether all of
  them existed.\<close>

definition short_read :: "(nat \<Rightarrow> byte) \<Rightarrow> nat \<Rightarrow> nat \<Rightarrow> nat \<Rightarrow> byte list \<times> bool" where
  "short_read f len off n =
     (map (\<lambda>i. if i < len then f i else 0) [off..<off + n], n = 0 \<or> off + n \<le> len)"

lemma short_read_img: "short_read (img_byte b f) (db_size b) off n =
    (bytes_at (img_byte b f) off n, n = 0 \<or> off + n \<le> db_size b)"
  by (auto simp: short_read_def bytes_at_def img_byte_def)

lemma img_beyond: "db_size b \<le> a \<Longrightarrow> bytes_at (img_byte b f) a m = replicate m 0"
  by (auto intro!: nth_equalityI simp: img_byte_def)

lemma img_tail:
  assumes "off < db_size b" "db_size b < off + n"
  shows "bytes_at (img_byte b f) off n =
    bytes_at (img_byte b f) off (db_size b - off) @ replicate (n - (db_size b - off)) 0"
  using bytes_at_split [of "db_size b - off" n "img_byte b f" off]
    img_beyond [of b "off + (db_size b - off)" f] assms by simp

section \<open>Correctness of the readers\<close>

lemma checked_addS_Some: "a + b \<le> u64_max \<Longrightarrow> checked_addS a b = retS (a + b)"
  by (simp add: checked_addS_def checked_add_def)

lemma read_range_loop_ok:
  assumes slice: "\<And>p i c w. I w \<Longrightarrow> 0 < c \<Longrightarrow> i + c \<le> PS \<Longrightarrow> p * PS + i + c \<le> S \<Longrightarrow>
      \<exists>w'. rs p i c w = (Ok (bytes_at g (p * PS + i) c), w') \<and> I w'"
    and S: "S \<le> u64_max" and fits: "off + n \<le> S"
  shows "I w \<Longrightarrow> k \<le> n \<Longrightarrow>
    \<exists>w'. read_range_loop rs off n k (bytes_at g off k) w = (Ok (bytes_at g off n), w') \<and> I w'"
proof (induction "n - k" arbitrary: k w rule: less_induct)
  case less
  show ?case
  proof (cases "n \<le> k")
    case True
    then show ?thesis using less.prems by (simp add: read_range_loop.simps retS_def)
  next
    case False
    let ?a = "off + k" and ?i = "(off + k) mod PS" and ?c = "min (PS - (off + k) mod PS) (n - k)"
    have a: "off + k \<le> u64_max" using False S fits by simp
    have split: "?a div PS * PS + ?i = ?a" by simp
    have c: "0 < ?c" "?i + ?c \<le> PS" "k + ?c \<le> n"
      using False page_step(2) [of ?a] by linarith+
    obtain w1 where w1: "rs (?a div PS) ?i ?c w = (Ok (bytes_at g ?a ?c), w1)" "I w1"
      using slice [OF less.prems(1) c(1,2), of "?a div PS"] c(3) fits split by auto
    have "read_range_loop rs off n k (bytes_at g off k) w =
        read_range_loop rs off n (k + ?c) (bytes_at g off (k + ?c)) w1"
      using False a w1(1) 
      by (simp add: read_range_loop.simps [of rs off n k] checked_addS_Some Let_def bytes_at_append)
    moreover have "n - (k + ?c) < n - k" using c(1) False by linarith
    ultimately show ?thesis using less.hyps [OF _ w1(2) c(3)] by presburger
  qed
qed

lemma placed_mod: "img_placed b capacity \<Longrightarrow> db_base_offset b mod PS = 0"
proof -
  assume "img_placed b capacity"
  then have "STABLE_PAGE_SIZE dvd db_base_offset b" by (simp add: img_placed_def dvd_eq_mod_eq_0)
  moreover have "PS dvd STABLE_PAGE_SIZE" by (simp add: config_defs dvd_eq_mod_eq_0)
  ultimately show ?thesis by (meson dvd_eq_mod_eq_0 dvd_trans)
qed

text \<open>The capacity is a multiple of the stable page, so the last page of the image is in memory
  as a whole even when the image ends inside it.\<close>

lemma placed_whole_page:
  assumes "img_placed b (m * STABLE_PAGE_SIZE)" "p < active_page_count b"
  shows "db_base_offset b + p * PS + PS \<le> m * STABLE_PAGE_SIZE"
proof -
  let ?C = "m * STABLE_PAGE_SIZE"
  obtain x where x: "db_base_offset b = x * PS" using placed_mod [OF assms(1)] by (metis mod_0_imp_dvd dvd_def mult.commute)
  have C: "?C = (4 * m) * PS" by (simp add: config_defs)
  have "p * PS < db_size b" using assms(2)
    by (simp add: active_page_count_def page_count_for_size_def less_div_ceil_iff)
  then have "(x + p) * PS < (4 * m) * PS"
    using assms(1) x C by (simp add: img_placed_def add_mult_distrib)
  then have "x + p + 1 \<le> 4 * m" by simp
  then have "(x + p + 1) * PS \<le> (4 * m) * PS" by (rule mult_le_mono1)
  then show ?thesis unfolding x C by (simp add: add_mult_distrib)
qed

lemma page_slice_addr:
  assumes "0 < c" "i + c \<le> PS" "p * PS + i + c \<le> db_size b"
  shows "p < active_page_count b"
    "\<not> zero_masked (zero_extents b) p \<Longrightarrow>
      bytes_at (img_byte b f) (p * PS + i) c = bytes_at f (db_base_offset b + p * PS + i) c"
    "zero_masked (zero_extents b) p \<Longrightarrow> bytes_at (img_byte b f) (p * PS + i) c = replicate c 0"
proof -
  show "p < active_page_count b"
    using assms by (simp add: active_page_count_def page_count_for_size_def less_div_ceil_iff)
  have dv: "(p * PS + i + j) div PS = p" if "j < c" for j
    using that assms(2) by (intro div_nat_eqI) auto
  show "\<not> zero_masked (zero_extents b) p \<Longrightarrow>
      bytes_at (img_byte b f) (p * PS + i) c = bytes_at f (db_base_offset b + p * PS + i) c"
    "zero_masked (zero_extents b) p \<Longrightarrow> bytes_at (img_byte b f) (p * PS + i) c = replicate c 0"
    using assms(3) dv by (auto intro!: nth_equalityI simp: img_byte_def add.assoc)
qed

context db_mem
begin

lemma same_mem_trans: "same_mem u v \<Longrightarrow> same_mem v w \<Longrightarrow> same_mem u w"
  by (simp add: same_mem_def)

text \<open>\<open>reached w0 v0 w\<close>: \<open>w\<close> is \<open>w0\<close> after reads only.\<close>

definition reached :: "('h, 's, 'z) mem_world_scheme \<Rightarrow> 'h \<times> 's \<Rightarrow> ('h, 's, 'z) mem_world_scheme \<Rightarrow> bool" where
  "reached w0 v0 w \<longleftrightarrow> (\<exists>v. w = put_mem v w0 \<and> same_mem v0 v)"

lemma reached_refl: "active_mem w = Some v \<Longrightarrow> inv v \<Longrightarrow> reached w v w"
  unfolding reached_def by (intro exI [of _ v]) (simp add: same_mem_refl)

lemma reached_cases:
  assumes "reached w0 v0 w" "active_mem w0 = Some v0"
  obtains v where "w = put_mem v w0" "same_mem v0 v" "active_mem w = Some v"
  using assms by (auto simp: reached_def)

lemma reached_read:
  assumes "reached w0 v0 w" "active_mem w0 = Some v0" "off + n \<le> cap v0"
  shows "\<exists>w'. read_preallocated V off n w = (Ok (bytes_at (byte_of v0) off n), w') \<and> reached w0 v0 w'"
proof -
  obtain v where v: "w = put_mem v w0" "same_mem v0 v" "active_mem w = Some v"
    using reached_cases [OF assms(1,2)] by blast
  note s = same_memD [OF v(2)]
  have le: "off + n \<le> cap v" using assms(3) s(2) by simp
  obtain v' where "read_preallocated V off n w = (Ok (bytes_at (byte_of v) off n), put_mem v' w)"
    "same_mem v v'"
    using read_preallocated_ok [OF v(3) s(1) le] by blast
  moreover from this(2) have "reached w0 v0 (put_mem v' w)"
    using same_mem_trans [OF v(2)] unfolding v(1) reached_def put_mem_put_mem by blast
  ultimately show ?thesis using s(3) by auto
qed

lemma page_offset_ok:
  assumes "img_placed b (cap v)" "inv v" "p < active_page_count b"
  shows "page_offset_for b p = retS (db_base_offset b + p * PS)" "0 < db_base_offset b"
    "db_base_offset b + p * PS + PS \<le> cap v" "db_base_offset b + p * PS + PS \<le> u64_max"
proof -
  show le: "db_base_offset b + p * PS + PS \<le> cap v" by (rule placed_whole_page [OF assms(1,3)])
  then show le': "db_base_offset b + p * PS + PS \<le> u64_max" by (rule cap_u64 [OF assms(2)])
  show "page_offset_for b p = retS (db_base_offset b + p * PS)"
    using assms(3) le'
    by (simp add: page_offset_for_def page_physical_offset_def checked_addS_Some checked_mul_def)
  show "0 < db_base_offset b" using assms(1) by (simp add: img_placed_def config_defs)
qed

lemma read_logical_page_slice_ok:
  assumes r: "reached w0 v0 w" and w0: "active_mem w0 = Some v0" and v0: "inv v0" "img_placed b (cap v0)"
    and c: "0 < c" "i + c \<le> PS" "p * PS + i + c \<le> db_size b"
  shows "\<exists>w'. read_logical_page_slice V b p i c w =
      (Ok (bytes_at (img_byte b (byte_of v0)) (p * PS + i) c), w') \<and> reached w0 v0 w'"
proof (cases "zero_masked (zero_extents b) p")
  case True
  then show ?thesis
    using r page_slice_addr(3) [OF c True]
    by (auto simp: read_logical_page_slice_def page_is_zero_masked_def retS_def)
next
  case False
  note a = page_slice_addr(1,2) [OF c]
  note o = page_offset_ok [OF v0(2,1) a(1)]
  have "db_base_offset b + p * PS + i \<le> u64_max" using o(4) c(2) by simp
  then have "read_logical_page_slice V b p i c w = read_preallocated V (db_base_offset b + p * PS + i) c w"
    using False o(2) by (simp add: read_logical_page_slice_def page_is_zero_masked_def o(1)
        checked_addS_Some)
  then show ?thesis
    using reached_read [OF r w0, of "db_base_offset b + p * PS + i" c] o(3) c(2) a(2) [OF False] by simp
qed

lemma read_logical_range_ok:
  assumes r: "reached w0 v0 w" and w0: "active_mem w0 = Some v0" and v0: "inv v0" "img_placed b (cap v0)"
    and fits: "off + n \<le> db_size b"
  shows "\<exists>w'. read_logical_range V b off n w =
      (Ok (bytes_at (img_byte b (byte_of v0)) off n), w') \<and> reached w0 v0 w'"
proof -
  note slice = read_logical_page_slice_ok [OF _ w0 v0]
  consider "n = 0" | "0 < n" "n \<le> PS - off mod PS" | "0 < n" "PS - off mod PS < n" by linarith
  then show ?thesis
  proof cases
    case 1
    then show ?thesis using r by (auto simp: read_logical_range_def retS_def)
  next
    case 2
    have "off mod PS < PS" by simp
    then have "off mod PS + n \<le> PS" using 2 by linarith
    then show ?thesis using slice [OF r 2(1), of "off mod PS" "off div PS"] 2 fits
      by (simp add: read_logical_range_def)
  next
    case 3
    have "db_size b \<le> u64_max" using v0 cap_u64 [OF v0(1)] by (simp add: img_placed_def)
    from read_range_loop_ok [where I = "reached w0 v0" and w = w and k = 0, OF slice this fits] r 3
    show ?thesis by (simp add: read_logical_range_def)
  qed
qed

lemma read_base_at_with_block_ok:
  assumes r: "reached w0 v0 w" and w0: "active_mem w0 = Some v0" and v0: "inv v0" "img_placed b (cap v0)"
  shows "\<exists>w'. read_base_at_with_block V b off n w =
      (Ok (bytes_at (img_byte b (byte_of v0)) off n, n = 0 \<or> off + n \<le> db_size b), w') \<and> reached w0 v0 w'"
proof -
  let ?g = "img_byte b (byte_of v0)"
  consider "n = 0" | "0 < n" "db_size b \<le> off" | "0 < n" "off + n \<le> db_size b"
    | "0 < n" "off < db_size b" "db_size b < off + n" by linarith
  then show ?thesis
  proof cases
    case 1
    then show ?thesis using r by (auto simp: read_base_at_with_block_def retS_def)
  next
    case 2
    then show ?thesis using r by (auto simp: read_base_at_with_block_def retS_def img_beyond)
  next
    case 3
    obtain w' where "read_logical_range V b off n w = (Ok (bytes_at ?g off n), w')" "reached w0 v0 w'"
      using read_logical_range_ok [OF r w0 v0 3(2)] by blast
    then show ?thesis using 3 by (simp add: read_base_at_with_block_def retS_def)
  next
    case 4
    let ?k = "db_size b - off"
    obtain w' where w': "read_logical_range V b off ?k w = (Ok (bytes_at ?g off ?k), w')" "reached w0 v0 w'"
      using read_logical_range_ok [OF r w0 v0, of off ?k] 4 by auto
    have "min n ?k = ?k" using 4 by simp
    then show ?thesis using 4 w' img_tail [OF 4(2,3)] by (simp add: read_base_at_with_block_def retS_def Let_def)
  qed
qed

end

end
