(* ===== verification/Abstract_File.thy ===== *)
theory Abstract_File
  imports Prelude
begin

text \<open>
  The abstract file every file of the VFS implements: a length and a byte-valued function that
  is zero beyond the length.  Writing beyond the end fills the gap with zeros, truncating
  upwards appends zeros, and a read that runs past the end returns zeros there and reports that
  it was short.  The locale \<open>file_ops\<close> states what an implementation promises.
\<close>

type_synonym afile = "nat \<times> (nat \<Rightarrow> byte)"

definition afile_wf :: "afile \<Rightarrow> bool" where
  "afile_wf a \<longleftrightarrow> (\<forall>i. fst a \<le> i \<longrightarrow> snd a i = 0)"

definition afile_write :: "nat \<Rightarrow> byte list \<Rightarrow> afile \<Rightarrow> afile" where
  "afile_write off bs a =
    (if bs = [] then a else (max (fst a) (off + length bs), blit (snd a) off bs))"

definition afile_truncate :: "nat \<Rightarrow> afile \<Rightarrow> afile" where
  "afile_truncate n a = (n, \<lambda>i. if i < n then snd a i else 0)"

definition afile_read :: "nat \<Rightarrow> nat \<Rightarrow> afile \<Rightarrow> byte list \<times> bool" where
  "afile_read off n a = (bytes_at (snd a) off n, n = 0 \<or> off + n \<le> fst a)"

lemma afile_wf_write: "afile_wf a \<Longrightarrow> afile_wf (afile_write off bs a)"
  by (auto simp: afile_wf_def afile_write_def blit_def)

lemma afile_wf_truncate: "afile_wf (afile_truncate n a)"
  by (simp add: afile_wf_def afile_truncate_def)

lemma afile_read_write_same:
  "bs \<noteq> [] \<Longrightarrow> afile_read off (length bs) (afile_write off bs a) = (bs, True)"
  by (auto simp: afile_read_def afile_write_def)

lemma afile_read_write_other:
  assumes "off' + n \<le> off \<or> off + length bs \<le> off'"
  shows "fst (afile_read off' n (afile_write off bs a)) = fst (afile_read off' n a)"
  using assms bytes_at_blit_disjoint [of off' n off bs "snd a"]
  by (auto simp: afile_read_def afile_write_def)

lemma afile_truncate_id: "afile_wf a \<Longrightarrow> afile_truncate (fst a) a = a"
  by (cases a) (auto simp: afile_truncate_def afile_wf_def fun_eq_iff)

lemma afile_truncate_truncate: "m \<le> n \<Longrightarrow> afile_truncate m (afile_truncate n a) = afile_truncate m a"
  by (auto simp: afile_truncate_def fun_eq_iff)

text \<open>
  A file implementation on states \<open>'w\<close>: \<open>repr w a\<close> says that state \<open>w\<close> holds the abstract file \<open>a\<close>.
  Reads always succeed and leave the file alone; a write or truncate that succeeds acts as the
  abstract operation.  The flag of an empty read and the length after an empty
  write are left open: SQLite asks for neither.
\<close>

locale file_ops =
  fixes repr :: "'w \<Rightarrow> afile \<Rightarrow> bool"
    and rd :: "nat \<Rightarrow> nat \<Rightarrow> ('w, byte list \<times> bool, 'e) stm"
    and wr :: "nat \<Rightarrow> byte list \<Rightarrow> ('w, unit, 'e) stm"
    and tr :: "nat \<Rightarrow> ('w, unit, 'e) stm"
  assumes repr_wf: "repr w a \<Longrightarrow> afile_wf a"
    and read_law: "repr w a \<Longrightarrow> n \<le> usize_max \<Longrightarrow> \<exists>r w'. rd off n w = (Ok r, w') \<and> repr w' a \<and>
      fst r = fst (afile_read off n a) \<and> (0 < n \<longrightarrow> r = afile_read off n a)"
    and write_law: "repr w a \<Longrightarrow> bs \<noteq> [] \<Longrightarrow> wr off bs w = (Ok (), w') \<Longrightarrow> repr w' (afile_write off bs a)"
    and truncate_law: "repr w a \<Longrightarrow> n \<le> u64_max \<Longrightarrow> tr n w = (Ok (), w') \<Longrightarrow> repr w' (afile_truncate n a)"
begin

lemma read_back:
  assumes "repr w a" "bs \<noteq> []" "wr off bs w = (Ok (), w')" "length bs \<le> usize_max"
  shows "\<exists>w''. rd off (length bs) w' = (Ok (bs, True), w'') \<and> repr w'' (afile_write off bs a)"
  using read_law [OF write_law [OF assms(1-3)] assms(4), of off] assms(2)
    afile_read_write_same [OF assms(2)] by auto

lemma read_elsewhere:
  assumes "repr w a" "bs \<noteq> []" "wr off bs w = (Ok (), w')" "n \<le> usize_max"
    and "off' + n \<le> off \<or> off + length bs \<le> off'"
  shows "\<exists>r w''. rd off' n w' = (Ok r, w'') \<and> fst r = fst (afile_read off' n a)"
  using read_law [OF write_law [OF assms(1-3)] assms(4), of off'] afile_read_write_other [OF assms(5)] by metis

lemma truncate_then_read:
  assumes "repr w a" "k \<le> u64_max" "tr k w = (Ok (), w')" "0 < n" "n \<le> usize_max" "k \<le> off"
  shows "\<exists>w''. rd off n w' = (Ok (replicate n 0, False), w'')"
proof -
  have "afile_read off n (afile_truncate k a) = (replicate n 0, False)"
    using assms(4,6) by (auto simp: afile_read_def afile_truncate_def intro!: nth_equalityI)
  then show ?thesis using read_law [OF truncate_law [OF assms(1-3)] assms(5), of off] assms(4) by metis
qed

end

end
