(* ===== verification/Overlay.thy ===== *)
theory Overlay
  imports Blob_Read Abstract_File
begin

text \<open>
  The page overlay of \<open>src/src/sqlite_vfs/overlay.rs\<close>: while an update runs, SQLite's writes go
  to full pages on the heap, over the published image.

  The methods of \<open>Overlay\<close> are state transformers on the world and the overlay, because an
  overlay is changed even by a call that fails.  \<open>load_dirty_page\<close> returns a reference into the
  overlay in the source; here it makes the page dirty and \<open>edit_page\<close> is the assignment through
  the reference, which panics where the slice of the source would.
\<close>

section \<open>State\<close>

definition CLEAN_PAGE_CACHE_CAPACITY :: nat where
  "CLEAN_PAGE_CACHE_CAPACITY = 8"

record write_stats =
  ws_dirty_pages :: nat
  ws_peak_bytes :: nat
  ws_exceeded :: "bool option"

record write_budget =
  wb_max_pages :: nat
  wb_max_bytes :: nat
  wb_stats :: write_stats

record overlay =
  ov_write_budget :: "write_budget option"
  ov_base_size :: nat
  ov_size :: nat
  ov_pages :: "(nat \<times> byte list) list"
  ov_clean_pages :: "(nat \<times> byte list) list"
  ov_zero_extents :: "zero_extent list"

type_synonym ('h, 's, 'z, 'a) ov_stm =
  "(('h, 's, 'z) meta_world_scheme \<times> overlay, 'a, stable_memory_error) stm"

definition write_stats_default :: write_stats where
  "write_stats_default = \<lparr>ws_dirty_pages = 0, ws_peak_bytes = 0, ws_exceeded = None\<rparr>"

definition overlay_new :: "nat \<Rightarrow> overlay" where
  "overlay_new base = \<lparr>ov_write_budget = None, ov_base_size = base, ov_size = base,
     ov_pages = [], ov_clean_pages = [], ov_zero_extents = []\<rparr>"

definition ov_is_empty :: "overlay \<Rightarrow> bool" where
  "ov_is_empty ov \<longleftrightarrow> ov_size ov = ov_base_size ov \<and> ov_pages ov = [] \<and> ov_zero_extents ov = []"

definition dirty_page :: "overlay \<Rightarrow> nat \<Rightarrow> byte list option" where
  "dirty_page ov p = map_of (ov_pages ov) p"

definition clean_page :: "overlay \<Rightarrow> nat \<Rightarrow> byte list option" where
  "clean_page ov p = map_of (ov_clean_pages ov) p"

definition ov_page_is_zero_masked :: "overlay \<Rightarrow> nat \<Rightarrow> bool" where
  "ov_page_is_zero_masked ov p = zero_masked (ov_zero_extents ov) p"

definition page_no :: "nat \<Rightarrow> nat" where
  "page_no off = off div PS"

definition page_offset :: "nat \<Rightarrow> nat" where
  "page_offset off = off mod PS"

abbreviation modify_ov :: "(overlay \<Rightarrow> overlay) \<Rightarrow> ('w \<times> overlay, unit, stable_memory_error) stm" where
  "modify_ov f \<equiv> modifyS (\<lambda>(w, ov). (w, f ov))"

section \<open>Dirty and clean pages\<close>

definition budget_exceeded :: stable_memory_error where
  "budget_exceeded = Failpoint ''overlay write budget exceeded''"

definition admit_dirty_page :: "('w \<times> overlay, unit, stable_memory_error) stm" where
  "admit_dirty_page wo =
    (let (w, ov) = wo in
     case ov_write_budget ov of None \<Rightarrow> (Ok (), wo)
     | Some budget \<Rightarrow>
         let pages = length (ov_pages ov) + 1; bytes = saturating_mul pages PS; st = wb_stats budget in
         if ws_exceeded st \<noteq> None \<or> wb_max_pages budget < pages \<or> wb_max_bytes budget < bytes then
           (Err budget_exceeded,
            (w, ov\<lparr>ov_write_budget := Some (budget\<lparr>wb_stats := (if ws_exceeded st = None
               then st\<lparr>ws_exceeded := Some (pages \<le> wb_max_pages budget)\<rparr> else st)\<rparr>)\<rparr>))
         else
           (Ok (), (w, ov\<lparr>ov_write_budget := Some (budget\<lparr>wb_stats :=
              st\<lparr>ws_dirty_pages := max (ws_dirty_pages st) pages,
                 ws_peak_bytes := max (ws_peak_bytes st) bytes\<rparr>\<rparr>)\<rparr>)))"

fun remove_first :: "nat \<Rightarrow> (nat \<times> 'a) list \<Rightarrow> (nat \<times> 'a) list" where
  "remove_first p [] = []"
| "remove_first p ((q, x) # rest) = (if q = p then rest else (q, x) # remove_first p rest)"

definition take_clean_page :: "nat \<Rightarrow> ('w \<times> overlay, byte list option, stable_memory_error) stm" where
  "take_clean_page p wo =
    (let (w, ov) = wo in
     case map_of (ov_clean_pages ov) p of None \<Rightarrow> (Ok None, wo)
     | Some page \<Rightarrow>
         (Ok (Some page), (w, ov\<lparr>ov_clean_pages := remove_first p (ov_clean_pages ov)\<rparr>)))"

definition insert_clean_page :: "nat \<Rightarrow> byte list \<Rightarrow> overlay \<Rightarrow> overlay" where
  "insert_clean_page p page ov =
    (if dirty_page ov p \<noteq> None \<or> clean_page ov p \<noteq> None then ov
     else let cs = (if length (ov_clean_pages ov) = CLEAN_PAGE_CACHE_CAPACITY
                    then tl (ov_clean_pages ov) else ov_clean_pages ov)
          in ov\<lparr>ov_clean_pages := cs @ [(p, page)]\<rparr>)"

definition load_dirty_page :: "('h \<times> 's) memory_ops \<Rightarrow> nat \<Rightarrow> ('h, 's, 'z, unit) ov_stm" where
  "load_dirty_page V p wo =
    (if dirty_page (snd wo) p \<noteq> None then (Ok (), wo)
     else tryS admit_dirty_page (\<lambda>_ wo.
       tryS (if ov_page_is_zero_masked (snd wo) p then retS zero_page
             else tryS (take_clean_page p) (\<lambda>found.
               case found of Some page \<Rightarrow> retS page | None \<Rightarrow> liftS (read_base_page V p)))
         (\<lambda>page. modify_ov (\<lambda>ov. ov\<lparr>ov_pages := ov_pages ov @ [(p, page)]\<rparr>)) wo) wo)"

text \<open>\<open>page[a..a + len].copy_from_slice(bs)\<close>.\<close>

definition splice :: "nat \<Rightarrow> byte list \<Rightarrow> byte list \<Rightarrow> byte list option" where
  "splice a bs page =
    (if a + length bs \<le> length page then Some (take a page @ bs @ drop (a + length bs) page) else None)"

definition edit_page :: "nat \<Rightarrow> nat \<Rightarrow> byte list \<Rightarrow> ('w \<times> overlay, unit, stable_memory_error) stm" where
  "edit_page p a bs wo =
    (let (w, ov) = wo in
     case map_of (ov_pages ov) p of None \<Rightarrow> (Panic, wo)
     | Some page \<Rightarrow> (case splice a bs page of None \<Rightarrow> (Panic, wo)
        | Some page' \<Rightarrow> (Ok (), (w, ov\<lparr>ov_pages := update_slot p page' (ov_pages ov)\<rparr>))))"

definition write_full_page :: "nat \<Rightarrow> byte list \<Rightarrow> ('w \<times> overlay, unit, stable_memory_error) stm" where
  "write_full_page p bs wo =
    (case dirty_page (snd wo) p of
       Some page \<Rightarrow>
         if length bs = length page
         then modify_ov (\<lambda>ov. ov\<lparr>ov_pages := update_slot p bs (ov_pages ov)\<rparr>) wo
         else (Panic, wo)
     | None \<Rightarrow> tryS admit_dirty_page (\<lambda>_.
         modify_ov (\<lambda>ov. ov\<lparr>ov_pages := ov_pages ov @ [(p, bs)]\<rparr>)) wo)"

section \<open>Reading\<close>

definition slice_of_page :: "byte list \<Rightarrow> nat \<Rightarrow> nat \<Rightarrow> ('w, byte list, stable_memory_error) stm" where
  "slice_of_page page i n = (if i + n \<le> length page then retS (slice page i n) else panicS)"

definition ov_read_slice ::
    "('h \<times> 's) memory_ops \<Rightarrow> nat \<Rightarrow> nat \<Rightarrow> nat \<Rightarrow> ('h, 's, 'z, byte list) ov_stm" where
  "ov_read_slice V p i n wo =
    (case dirty_page (snd wo) p of Some page \<Rightarrow> slice_of_page page i n wo
     | None \<Rightarrow>
       if ov_page_is_zero_masked (snd wo) p then (Ok (replicate n 0), wo)
       else case clean_page (snd wo) p of Some page \<Rightarrow> slice_of_page page i n wo
         | None \<Rightarrow> tryS (liftS (read_base_page V p)) (\<lambda>page.
             tryS (slice_of_page page i n) (\<lambda>bs.
             tryS (modify_ov (insert_clean_page p page)) (\<lambda>_. retS bs))) wo)"

definition ov_read_range ::
    "('h \<times> 's) memory_ops \<Rightarrow> nat \<Rightarrow> nat \<Rightarrow> ('h, 's, 'z, byte list) ov_stm" where
  "ov_read_range V off n = read_range_loop (ov_read_slice V) off n 0 []"

definition ov_read_at ::
    "('h \<times> 's) memory_ops \<Rightarrow> nat \<Rightarrow> nat \<Rightarrow> ('h, 's, 'z, byte list \<times> bool) ov_stm" where
  "ov_read_at V off n wo =
    (if n = 0 then (Ok ([], True), wo)
     else if ov_size (snd wo) \<le> off then (Ok (replicate n 0, False), wo)
     else let copied = min n (ov_size (snd wo) - off) in
       tryS (ov_read_range V off copied) (\<lambda>bs.
       retS (bs @ replicate (n - copied) 0, copied = n)) wo)"

section \<open>Growing\<close>

definition record_zero_extent :: "nat \<Rightarrow> nat \<Rightarrow> overlay \<Rightarrow> overlay" where
  "record_zero_extent a b ov =
    (if a < b then ov\<lparr>ov_zero_extents := ov_zero_extents ov @ [\<lparr>start_page = a, end_page = b\<rparr>]\<rparr> else ov)"

definition record_newly_active_zero_pages :: "nat \<Rightarrow> nat \<Rightarrow> overlay \<Rightarrow> overlay" where
  "record_newly_active_zero_pages old_size new_size =
     record_zero_extent (page_count_for_size old_size) (page_count_for_size new_size)"

definition record_truncated_zero_pages :: "nat \<Rightarrow> nat \<Rightarrow> overlay \<Rightarrow> overlay" where
  "record_truncated_zero_pages new_size old_size =
     record_zero_extent (page_count_for_size new_size) (page_count_for_size old_size)"

definition zero_old_partial_page :: "('h \<times> 's) memory_ops \<Rightarrow> nat \<Rightarrow> nat \<Rightarrow> ('h, 's, 'z, unit) ov_stm" where
  "zero_old_partial_page V old_size new_size =
    (if old_size mod PS = 0 then retS ()
     else
       let old_page_no = page_no old_size in
       tryS (ok_orS OffsetOverflow (checked_mul old_page_no PS)) (\<lambda>old_page_start.
       tryS (checked_addS old_page_start PS) (\<lambda>old_page_end.
       let start = page_offset old_size; end_absolute = min new_size old_page_end;
           e = (if end_absolute = old_page_end then PS else page_offset end_absolute) in
       tryS (load_dirty_page V old_page_no) (\<lambda>_.
       if start \<le> e then edit_page old_page_no start (replicate (e - start) 0) else panicS))))"

definition zero_new_partial_page :: "('h \<times> 's) memory_ops \<Rightarrow> nat \<Rightarrow> nat \<Rightarrow> ('h, 's, 'z, unit) ov_stm" where
  "zero_new_partial_page V old_size new_size =
    (if new_size mod PS = 0 \<or> page_no new_size = page_no old_size then retS ()
     else tryS (load_dirty_page V (page_no new_size)) (\<lambda>_.
          edit_page (page_no new_size) 0 (replicate (page_offset new_size) 0)))"

definition zero_newly_active_partial_pages ::
    "('h \<times> 's) memory_ops \<Rightarrow> nat \<Rightarrow> nat \<Rightarrow> ('h, 's, 'z, unit) ov_stm" where
  "zero_newly_active_partial_pages V old_size new_size =
    (if new_size \<le> old_size then retS ()
     else tryS (zero_old_partial_page V old_size new_size) (\<lambda>_.
          zero_new_partial_page V old_size new_size))"

section \<open>Writing and truncating\<close>

function ov_write_loop ::
    "('h \<times> 's) memory_ops \<Rightarrow> nat \<Rightarrow> byte list \<Rightarrow> nat \<Rightarrow> ('h, 's, 'z, unit) ov_stm" where
  "ov_write_loop V off bs written =
    (if length bs \<le> written then retS ()
     else tryS (checked_addS off written) (\<lambda>absolute.
       let copied = min (PS - absolute mod PS) (length bs - written) in
       tryS (load_dirty_page V (page_no absolute)) (\<lambda>_.
       tryS (edit_page (page_no absolute) (absolute mod PS) (slice bs written copied)) (\<lambda>_.
       ov_write_loop V off bs (written + copied)))))"
  by pat_completeness auto
termination
  by (relation "measure (\<lambda>(_, _, bs, written). length bs - written)")
    (use page_step in \<open>auto intro: diff_less_mono2\<close>)

declare ov_write_loop.simps [simp del]

definition grow_to :: "('h \<times> 's) memory_ops \<Rightarrow> nat \<Rightarrow> nat \<Rightarrow> ('h, 's, 'z, unit) ov_stm" where
  "grow_to V old_size new_size =
    (if old_size < new_size then
       tryS (modify_ov (record_newly_active_zero_pages old_size new_size)) (\<lambda>_.
       zero_newly_active_partial_pages V old_size new_size)
     else retS ())"

definition ov_write_at :: "('h \<times> 's) memory_ops \<Rightarrow> nat \<Rightarrow> byte list \<Rightarrow> ('h, 's, 'z, unit) ov_stm" where
  "ov_write_at V off bs wo =
    (if bs = [] then (Ok (), wo)
     else tryS (checked_addS off (length bs)) (\<lambda>e.
       tryS (grow_to V (ov_size (snd wo)) e) (\<lambda>_.
       tryS (if length bs = PS \<and> off mod PS = 0 then write_full_page (page_no off) bs
             else ov_write_loop V off bs 0) (\<lambda>_.
       modify_ov (\<lambda>ov. ov\<lparr>ov_size := max (ov_size ov) e\<rparr>)))) wo)"

definition drop_pages_from :: "nat \<Rightarrow> overlay \<Rightarrow> overlay" where
  "drop_pages_from keep ov = ov\<lparr>ov_pages := filter (\<lambda>(p, _). p < keep) (ov_pages ov),
     ov_clean_pages := filter (\<lambda>(p, _). p < keep) (ov_clean_pages ov)\<rparr>"

definition ov_truncate :: "('h \<times> 's) memory_ops \<Rightarrow> nat \<Rightarrow> ('h, 's, 'z, unit) ov_stm" where
  "ov_truncate V n wo =
    (let old_size = ov_size (snd wo) in
     tryS (if old_size < n then grow_to V old_size n
           else if n < old_size then modify_ov (record_truncated_zero_pages n old_size)
           else retS ()) (\<lambda>_.
     tryS (modify_ov (\<lambda>ov. ov\<lparr>ov_size := n\<rparr>)) (\<lambda>_.
     tryS (modify_ov (drop_pages_from (page_count_for_size n))) (\<lambda>_.
     if n = 0 \<or> n mod PS = 0 then retS ()
     else tryS (load_dirty_page V (page_no n)) (\<lambda>_.
       edit_page (page_no n) (page_offset n) (replicate (PS - page_offset n) 0))))) wo)"

end
