(* ===== verification/Blob_Cache.thy ===== *)
theory Blob_Cache
  imports Blob_Read
begin

text \<open>
  The cached readers of \<open>src/src/sqlite_vfs/stable_blob.rs\<close> are equivalent to the uncached
  ones: as long as the cache describes the current image (\<open>poc_ok\<close>), they return the same
  bytes, keep it so, and never hold more than the configured number of entries and pages.
\<close>

definition page_address :: "superblock \<Rightarrow> nat \<Rightarrow> nat" where
  "page_address b p = (if p < active_page_count b then db_base_offset b + p * PS else 0)"

definition poc_ok :: "superblock \<Rightarrow> (nat \<Rightarrow> byte) \<Rightarrow> page_offset_cache \<Rightarrow> bool" where
  "poc_ok b f c \<longleftrightarrow>
     length (poc_entries c) \<le> FILE_PAGE_OFFSET_CACHE_CAPACITY \<and>
     length (poc_pages c) \<le> FILE_PAGE_DATA_CACHE_CAPACITY \<and>
     (\<forall>(p, physical) \<in> set (poc_entries c). physical = page_address b p) \<and>
     (\<forall>(p, page) \<in> set (poc_pages c). page = bytes_at f (db_base_offset b + p * PS) PS)"

lemma poc_ok_new: "poc_ok b f page_offset_cache_new"
  by (simp add: poc_ok_def page_offset_cache_new_def)

lemma poc_ok_insert:
  assumes "poc_ok b f c"
  shows "poc_ok b f (poc_insert p (page_address b p) c)"
  using assms
  by (auto simp: poc_ok_def poc_insert_def Let_def FILE_PAGE_OFFSET_CACHE_CAPACITY_def dest: set_tl)

lemma poc_ok_insert_page:
  assumes "poc_ok b f c"
  shows "poc_ok b f (poc_insert_page p (bytes_at f (db_base_offset b + p * PS) PS) c)"
  using assms
  by (auto simp: poc_ok_def poc_insert_page_def Let_def FILE_PAGE_DATA_CACHE_CAPACITY_def dest: set_tl)

lemma poc_get_ok: "poc_ok b f c \<Longrightarrow> poc_get c p = Some a \<Longrightarrow> a = page_address b p"
  by (auto simp: poc_ok_def poc_get_def dest: map_of_SomeD)

lemma copy_page_slice_ok:
  assumes "poc_ok b f c" "i + n \<le> PS"
  shows "copy_page_slice c p i n = Some None \<or>
    copy_page_slice c p i n = Some (Some (bytes_at f (db_base_offset b + p * PS + i) n))"
proof (cases "map_of (poc_pages c) p")
  case None
  then show ?thesis by (simp add: copy_page_slice_def)
next
  case (Some page)
  then have "page = bytes_at f (db_base_offset b + p * PS) PS"
    using assms(1) by (auto simp: poc_ok_def dest: map_of_SomeD)
  with Some assms(2) show ?thesis by (simp add: copy_page_slice_def slice_bytes_at)
qed

lemma liftS_Ok: "m w = (r, w') \<Longrightarrow> liftS m (w, c) = (r, (w', c))"
  by (simp add: liftS_def)

context db_mem
begin

definition cached_at ::
    "superblock \<Rightarrow> ('h, 's, 'z) mem_world_scheme \<Rightarrow> 'h \<times> 's \<Rightarrow>
     ('h, 's, 'z) mem_world_scheme \<times> page_offset_cache \<Rightarrow> bool" where
  "cached_at b w0 v0 wc \<longleftrightarrow> reached w0 v0 (fst wc) \<and> poc_ok b (byte_of v0) (snd wc)"

lemma cached_page_offset_ok:
  assumes c: "cached_at b w0 v0 wc" and v0: "inv v0" "img_placed b (cap v0)"
    and p: "p < active_page_count b"
  shows "\<exists>wc'. cached_page_offset b p wc = (Ok (db_base_offset b + p * PS), wc') \<and> cached_at b w0 v0 wc'"
proof (cases "poc_get (snd wc) p")
  case (Some a)
  then show ?thesis
    using c p poc_get_ok [of b "byte_of v0" "snd wc" p a]
    by (auto simp: cached_page_offset_def cached_at_def page_address_def)
next
  case None
  let ?a = "db_base_offset b + p * PS"
  have "cached_page_offset b p wc = (Ok ?a, (fst wc, poc_insert p ?a (snd wc)))"
    using None by (cases wc)
      (simp add: cached_page_offset_def page_offset_ok(1) [OF v0(2,1) p] modifyS_def retS_def tryS_def)
  moreover have "cached_at b w0 v0 (fst wc, poc_insert p ?a (snd wc))"
    using c p poc_ok_insert [of b "byte_of v0" "snd wc" p] by (simp add: cached_at_def page_address_def)
  ultimately show ?thesis by blast
qed

lemma lifted_read:
  assumes c: "cached_at b w0 v0 wc" and w0: "active_mem w0 = Some v0" and le: "off + n \<le> cap v0"
  shows "\<exists>w'. liftS (read_preallocated V off n) wc = (Ok (bytes_at (byte_of v0) off n), (w', snd wc)) \<and>
    reached w0 v0 w'"
proof -
  have r: "reached w0 v0 (fst wc)" using c by (simp add: cached_at_def)
  obtain w' where "read_preallocated V off n (fst wc) = (Ok (bytes_at (byte_of v0) off n), w')"
    "reached w0 v0 w'"
    using reached_read [OF r w0 le] by blast
  then show ?thesis using liftS_Ok [of _ "fst wc" _ w' "snd wc"] by auto
qed

lemma read_uncached_slice_ok:
  assumes c: "cached_at b w0 v0 wc" and w0: "active_mem w0 = Some v0" and v0: "inv v0" "img_placed b (cap v0)"
    and p: "p < active_page_count b" and i: "i + n \<le> PS"
  defines "a \<equiv> db_base_offset b + p * PS"
  shows "\<exists>wc'. read_uncached_slice V p a i n wc = (Ok (bytes_at (byte_of v0) (a + i) n), wc') \<and>
    cached_at b w0 v0 wc'"
proof -
  note o = page_offset_ok [OF v0(2,1) p, folded a_def]
  have a: "a \<noteq> 0" using o(2) by (simp add: a_def)
  obtain w1 where w1: "liftS (read_preallocated V a PS) wc = (Ok (bytes_at (byte_of v0) a PS), (w1, snd wc))"
    "reached w0 v0 w1"
    using lifted_read [OF c w0 o(3)] by blast
  have keep: "cached_at b w0 v0 (w1, snd wc)" using c w1(2) by (simp add: cached_at_def)
  consider "i = 0" "n = PS" | "n < PS" | "n = PS" "i \<noteq> 0" using i by linarith
  then show ?thesis
  proof cases
    case 1
    then show ?thesis using a w1(1) keep by (auto simp: read_uncached_slice_def)
  next
    case 2
    have "read_uncached_slice V p a i n wc = (Ok (slice (bytes_at (byte_of v0) a PS) i n),
        (w1, poc_insert_page p (bytes_at (byte_of v0) a PS) (snd wc)))"
      using 2 a i w1(1) by (simp add: read_uncached_slice_def modifyS_def retS_def tryS_def)
    moreover have "cached_at b w0 v0 (w1, poc_insert_page p (bytes_at (byte_of v0) a PS) (snd wc))"
      using keep poc_ok_insert_page [of b "byte_of v0" "snd wc" p] by (simp add: cached_at_def a_def)
    ultimately show ?thesis using i by (auto simp: slice_bytes_at)
  next
    case 3
    then show ?thesis using i by simp
  qed
qed

lemma cached_slice_ok:
  assumes c: "cached_at b w0 v0 wc" and w0: "active_mem w0 = Some v0" and v0: "inv v0" "img_placed b (cap v0)"
    and n: "0 < n" "i + n \<le> PS" "p * PS + i + n \<le> db_size b"
  shows "\<exists>wc'. read_logical_page_slice_with_page_cache V b p i n wc =
      (Ok (bytes_at (img_byte b (byte_of v0)) (p * PS + i) n), wc') \<and> cached_at b w0 v0 wc'"
proof (cases "zero_masked (zero_extents b) p")
  case True
  then show ?thesis
    using c page_slice_addr(3) [OF n True]
    by (auto simp: read_logical_page_slice_with_page_cache_def page_is_zero_masked_def retS_def)
next
  case False
  note a = page_slice_addr(1,2) [OF n]
  let ?a = "db_base_offset b + p * PS" and ?bs = "bytes_at (byte_of v0) (db_base_offset b + p * PS + i) n"
  have copy: "copy_page_slice (snd wc) p i n = Some None \<or> copy_page_slice (snd wc) p i n = Some (Some ?bs)"
    using c by (intro copy_page_slice_ok [OF _ n(2)]) (simp add: cached_at_def)
  have unfold: "read_logical_page_slice_with_page_cache V b p i n wc =
      (case (if n < PS then copy_page_slice (snd wc) p i n else Some None) of
         None \<Rightarrow> panicS wc | Some (Some bs) \<Rightarrow> retS bs wc
       | Some None \<Rightarrow> tryS (cached_page_offset b p) (\<lambda>physical.
           read_uncached_slice V p physical i n) wc)"
    using False by (simp add: read_logical_page_slice_with_page_cache_def page_is_zero_masked_def)
  show ?thesis
  proof (cases "n < PS \<and> copy_page_slice (snd wc) p i n = Some (Some ?bs)")
    case True
    then show ?thesis using c unfold a(2) [OF False] by (auto simp: retS_def)
  next
    case miss: False
    obtain wc1 where 1: "cached_page_offset b p wc = (Ok ?a, wc1)" "cached_at b w0 v0 wc1"
      using cached_page_offset_ok [OF c v0 a(1)] by blast
    obtain wc2 where 2: "read_uncached_slice V p ?a i n wc1 = (Ok ?bs, wc2)" "cached_at b w0 v0 wc2"
      using read_uncached_slice_ok [OF 1(2) w0 v0 a(1) n(2)] by blast
    have "read_logical_page_slice_with_page_cache V b p i n wc = (Ok ?bs, wc2)"
      using unfold miss copy 1 2 by auto
    with 2(2) a(2) [OF False] show ?thesis by auto
  qed
qed

lemma cached_range_ok:
  assumes c: "cached_at b w0 v0 wc" and w0: "active_mem w0 = Some v0" and v0: "inv v0" "img_placed b (cap v0)"
    and n: "0 < n" and fits: "off + n \<le> db_size b"
  shows "\<exists>wc'. read_logical_range_with_page_cache V b off n wc =
      (Ok (bytes_at (img_byte b (byte_of v0)) off n), wc') \<and> cached_at b w0 v0 wc'"
proof (cases "n \<le> PS - off mod PS")
  case True
  have "off mod PS + n \<le> PS" using True page_step(2) [of off] by linarith
  then show ?thesis
    using cached_slice_ok [OF c w0 v0 n, of "off mod PS" "off div PS"] True fits
    by (simp add: read_logical_range_with_page_cache_def)
next
  case False
  have "db_size b \<le> u64_max" using v0 cap_u64 [OF v0(1)] by (simp add: img_placed_def)
  from read_range_loop_ok [where I = "cached_at b w0 v0" and w = wc and k = 0,
      OF cached_slice_ok [OF _ w0 v0] this fits] c False
  show ?thesis by (simp add: read_logical_range_with_page_cache_def)
qed

lemma read_base_at_with_page_cache_ok:
  assumes c: "cached_at b w0 v0 wc" and w0: "active_mem w0 = Some v0" and v0: "inv v0" "img_placed b (cap v0)"
  shows "\<exists>wc'. read_base_at_with_page_cache V b off n wc =
      (Ok (bytes_at (img_byte b (byte_of v0)) off n, n = 0 \<or> off + n \<le> db_size b), wc') \<and>
    cached_at b w0 v0 wc'"
proof -
  let ?g = "img_byte b (byte_of v0)"
  consider "n = 0" | "0 < n" "db_size b \<le> off" | "0 < n" "off + n \<le> db_size b"
    | "0 < n" "off < db_size b" "db_size b < off + n" by linarith
  then show ?thesis
  proof cases
    case 1
    then show ?thesis using c by (auto simp: read_base_at_with_page_cache_def retS_def)
  next
    case 2
    then show ?thesis using c by (auto simp: read_base_at_with_page_cache_def retS_def img_beyond)
  next
    case 3
    then show ?thesis using cached_range_ok [OF c w0 v0 3]
      by (auto simp: read_base_at_with_page_cache_def retS_def)
  next
    case 4
    let ?k = "db_size b - off"
    obtain wc' where w': "read_logical_range_with_page_cache V b off ?k wc = (Ok (bytes_at ?g off ?k), wc')"
      "cached_at b w0 v0 wc'"
      using cached_range_ok [OF c w0 v0, of ?k off] 4 by auto
    have "min n ?k = ?k" using 4 by simp
    then show ?thesis using 4 w' img_tail [OF 4(2,3)]
      by (cases wc') (simp add: read_base_at_with_page_cache_def retS_def Let_def)
  qed
qed

end

end
