(* ===== verification/Stable_Blob.thy ===== *)
theory Stable_Blob
  imports Overlay Blob_Cache
begin

text \<open>
  The database file of \<open>src/src/sqlite_vfs/stable_blob.rs\<close> and the overlay table of
  \<open>src/src/sqlite_vfs/overlay.rs\<close>: beginning, committing and rolling back an update, direct
  writes, importing and exporting an image, and checksums.

  The failpoints are compiled in for tests only and the commit profile only counts
  instructions; both are left out.  A commit that fails after its first page write panics, as
  in the source; the canister runtime then discards the message.
\<close>

record ('h, 's) blob_world = "('h, 's) meta_world" +
  overlays :: "(context_id \<times> overlay) list"

type_synonym ('h, 's, 'z, 'a) blob_stm =
  "(('h, 's, 'z) blob_world_scheme, 'a, stable_memory_error) stm"

section \<open>The overlay of the active context\<close>

definition overlay_index :: "(context_id \<times> 'a) list \<Rightarrow> context_id \<Rightarrow> nat option" where
  "overlay_index xs c =
    (case filter (\<lambda>i. fst (xs ! i) = c) [0..<length xs] of [] \<Rightarrow> None | i # _ \<Rightarrow> Some i)"

definition swap_remove :: "nat \<Rightarrow> 'a list \<Rightarrow> 'a list" where
  "swap_remove i xs = butlast (xs[i := last xs])"

definition overlay_already_active :: stable_memory_error where
  "overlay_already_active = Failpoint ''overlay already active''"

definition overlay_begin :: "nat \<Rightarrow> ('h, 's, 'z, unit) blob_stm" where
  "overlay_begin base = tryS active_context_id (\<lambda>context w.
     if overlay_index (overlays w) context \<noteq> None then (Err overlay_already_active, w)
     else (Ok (), w\<lparr>overlays := overlays w @ [(context, overlay_new base)]\<rparr>))"

definition overlay_rollback :: "('h, 's, 'z) blob_world_scheme \<Rightarrow> ('h, 's, 'z) blob_world_scheme" where
  "overlay_rollback w = (case active_context w of None \<Rightarrow> w
     | Some context \<Rightarrow> (case overlay_index (overlays w) context of None \<Rightarrow> w
        | Some i \<Rightarrow> w\<lparr>overlays := swap_remove i (overlays w)\<rparr>))"

definition overlay_is_active :: "('h, 's, 'z) blob_world_scheme \<Rightarrow> bool" where
  "overlay_is_active w = (case active_context w of None \<Rightarrow> False
     | Some context \<Rightarrow> overlay_index (overlays w) context \<noteq> None)"

definition overlay_take ::
    "('h, 's, 'z) blob_world_scheme \<Rightarrow> overlay option \<times> ('h, 's, 'z) blob_world_scheme" where
  "overlay_take w = (case active_context w of None \<Rightarrow> (None, w)
     | Some context \<Rightarrow> (case overlay_index (overlays w) context of None \<Rightarrow> (None, w)
        | Some i \<Rightarrow> (Some (snd (overlays w ! i)), w\<lparr>overlays := swap_remove i (overlays w)\<rparr>)))"

definition active_overlay :: "('h, 's, 'z) blob_world_scheme \<Rightarrow> overlay option" where
  "active_overlay w = (case active_context w of None \<Rightarrow> None
     | Some context \<Rightarrow> map_option (\<lambda>i. snd (overlays w ! i)) (overlay_index (overlays w) context))"

definition dirty_page_count :: "('h, 's, 'z) blob_world_scheme \<Rightarrow> nat" where
  "dirty_page_count w = (case active_overlay w of None \<Rightarrow> 0 | Some ov \<Rightarrow> length (ov_pages ov))"

definition overlay_set_write_budget :: "nat \<Rightarrow> nat \<Rightarrow> ('h, 's, 'z, unit) blob_stm" where
  "overlay_set_write_budget max_pages max_bytes w = (case active_context w of None \<Rightarrow> (Panic, w)
     | Some context \<Rightarrow> (case overlay_index (overlays w) context of None \<Rightarrow> (Panic, w)
        | Some i \<Rightarrow> (Ok (), w\<lparr>overlays := (overlays w)[i := (fst (overlays w ! i),
            snd (overlays w ! i)\<lparr>ov_write_budget := Some \<lparr>wb_max_pages = max_pages,
              wb_max_bytes = max_bytes, wb_stats = write_stats_default\<rparr>\<rparr>)]\<rparr>)))"

definition overlay_write_stats :: "('h, 's, 'z) blob_world_scheme \<Rightarrow> write_stats" where
  "overlay_write_stats w = (case active_overlay w of None \<Rightarrow> write_stats_default
     | Some ov \<Rightarrow> (case ov_write_budget ov of None \<Rightarrow> write_stats_default | Some b \<Rightarrow> wb_stats b))"

text \<open>A method call on the overlay of the active context; \<open>None\<close> when there is none.\<close>

definition on_overlay :: "('h, 's, 'z blob_world_ext, 'a) ov_stm \<Rightarrow>
    (('h, 's, 'z blob_world_ext) meta_world_scheme, 'a option, stable_memory_error) stm" where
  "on_overlay f = tryS active_context_id (\<lambda>context w.
     case overlay_index (overlays w) context of None \<Rightarrow> (Ok None, w)
     | Some i \<Rightarrow> (let (r, (w', ov')) = f (w, snd (overlays w ! i)); w2 = w'\<lparr>overlays := (overlays w')[i := (context, ov')]\<rparr>
         in case r of Ok x \<Rightarrow> (Ok (Some x), w2) | Err e \<Rightarrow> (Err e, w2) | Panic \<Rightarrow> (Panic, w2)))"

definition overlay_file_size :: "('h, 's, 'z) blob_world_scheme \<Rightarrow> nat option" where
  "overlay_file_size w = map_option ov_size (active_overlay w)"

section \<open>Committing\<close>

fun add_overlay_extents :: "nat \<Rightarrow> zero_extent list \<Rightarrow> zero_extent list \<Rightarrow> stable_memory_error + zero_extent list" where
  "add_overlay_extents limit [] es = Inr es"
| "add_overlay_extents limit (x # xs) es =
    (let es' = add_zero_extent_without_limit es (start_page x) (end_page x) in
     case enforce_temporary_zero_extent_limit es' limit of Inl e \<Rightarrow> Inl e
     | Inr _ \<Rightarrow> add_overlay_extents limit xs es')"

fun subtract_dirty_pages :: "nat \<Rightarrow> (nat \<times> byte list) list \<Rightarrow> zero_extent list \<Rightarrow> zero_extent list" where
  "subtract_dirty_pages final [] es = es"
| "subtract_dirty_pages final ((p, page) # rest) es =
    subtract_dirty_pages final rest
      (if p < final then subtract_zero_extent_without_limit es p (saturating_add p 1) else es)"

text \<open>The pages that the change of size makes zero.\<close>

definition size_change_extents :: "superblock \<Rightarrow> overlay \<Rightarrow> nat \<Rightarrow> zero_extent list" where
  "size_change_extents b ov final =
    (if db_size b < ov_size ov
     then [\<lparr>start_page = page_count_for_size (db_size b), end_page = final\<rparr>] else []) @
    (if ov_size ov < db_size b
     then [\<lparr>start_page = page_count_for_size (ov_size ov), end_page = page_count_for_size (db_size b)\<rparr>]
     else [])"

definition zero_extents_after_commit ::
    "superblock \<Rightarrow> overlay \<Rightarrow> nat \<Rightarrow> stable_memory_error + zero_extent list" where
  "zero_extents_after_commit b ov final =
    (let slack = length (filter (\<lambda>(p, _). p < final) (ov_pages ov)) in
     if usize_max < MAX_ZERO_EXTENTS + slack then Inl (ZeroExtentLimitExceeded MAX_ZERO_EXTENTS)
     else case add_overlay_extents (MAX_ZERO_EXTENTS + slack)
              (size_change_extents b ov final @ ov_zero_extents ov) (zero_extents b) of
          Inl e \<Rightarrow> Inl e
        | Inr es \<Rightarrow>
            let es' = subtract_dirty_pages final (ov_pages ov) es in
            case enforce_zero_extent_limit es' of Inl e \<Rightarrow> Inl e | Inr _ \<Rightarrow> Inr es')"

fun required_end_loop ::
    "superblock \<Rightarrow> nat \<Rightarrow> (nat \<times> byte list) list \<Rightarrow> nat \<Rightarrow> ('w, nat, stable_memory_error) stm" where
  "required_end_loop b final [] re = retS re"
| "required_end_loop b final ((p, page) # rest) re =
    (if final \<le> p then required_end_loop b final rest re
     else tryS (page_physical_offset b p) (\<lambda>physical.
          tryS (checked_addS physical PS) (\<lambda>e.
          required_end_loop b final rest (max re e))))"

fun write_pages_loop ::
    "('h \<times> 's) memory_ops \<Rightarrow> superblock \<Rightarrow> nat \<Rightarrow> (nat \<times> byte list) list \<Rightarrow> ('h, 's, 'z, unit) mem_stm" where
  "write_pages_loop V b final [] = retS ()"
| "write_pages_loop V b final ((p, page) # rest) =
    (if final \<le> p then write_pages_loop V b final rest
     else tryS (page_physical_offset b p) (\<lambda>physical.
          tryS (write_prechecked_unmetered V physical page) (\<lambda>_.
          write_pages_loop V b final rest)))"

definition store_commit_db_image ::
    "('h \<times> 's) memory_ops \<Rightarrow> bool \<Rightarrow> nat \<Rightarrow> nat \<Rightarrow> zero_extent list \<Rightarrow> ('h, 's, 'z, unit) meta_stm" where
  "store_commit_db_image V advance_tx base n extents =
    (if advance_tx then commit_db_image V base n extents else store_db_image_without_tx V base n extents)"

definition or_panic :: "('w, 'a, 'e) stm \<Rightarrow> ('w, 'a, 'e) stm" where
  "or_panic m w = (case m w of (Err _, w') \<Rightarrow> (Panic, w') | r \<Rightarrow> r)"

definition commit_overlay_in_place ::
    "('h \<times> 's) memory_ops \<Rightarrow> superblock \<Rightarrow> overlay \<Rightarrow> bool \<Rightarrow> ('h, 's, 'z, unit) meta_stm" where
  "commit_overlay_in_place V b ov advance_tx =
    (let n = ov_size ov; final = page_count_for_size n in
     tryS (sumS (zero_extents_after_commit b ov final)) (\<lambda>extents.
     tryS (checked_addS (db_base_offset b) n) (\<lambda>re0.
     tryS (required_end_loop b final (ov_pages ov) re0) (\<lambda>required_end.
     tryS (ensure_capacity V required_end) (\<lambda>_.
     tryS (write_pages_loop V b final (ov_pages ov)) (\<lambda>_.
     or_panic (store_commit_db_image V advance_tx (db_base_offset b) n extents)))))))"

definition commit_overlay ::
    "('h \<times> 's) memory_ops \<Rightarrow> overlay \<Rightarrow> bool \<Rightarrow> ('h, 's, 'z, unit) meta_stm" where
  "commit_overlay V ov advance_tx =
     tryS (sb_load V) (\<lambda>block. commit_overlay_in_place V block ov advance_tx)"

section \<open>Updates and file access\<close>

definition ensure_current_layout :: "('h \<times> 's) memory_ops \<Rightarrow> ('h, 's, 'z, unit) meta_stm" where
  "ensure_current_layout V = tryS (sb_load V) (\<lambda>block.
     if layout_version block = CURRENT_LAYOUT_VERSION then retS ()
     else errS (UnsupportedLayoutVersion (layout_version block)))"

definition begin_update :: "('h \<times> 's) memory_ops \<Rightarrow> ('h, 's, 'z, nat) blob_stm" where
  "begin_update V = tryS (sb_load V) (\<lambda>block.
     if layout_version block \<noteq> CURRENT_LAYOUT_VERSION
     then errS (UnsupportedLayoutVersion (layout_version block))
     else if is_importing block then errS ImportAlreadyStarted
     else tryS (overlay_begin (db_size block)) (\<lambda>_. retS (db_size block)))"

definition rollback_update :: "('h, 's, 'z) blob_world_scheme \<Rightarrow> ('h, 's, 'z) blob_world_scheme" where
  "rollback_update w = overlay_rollback w"

definition commit_update :: "('h \<times> 's) memory_ops \<Rightarrow> ('h, 's, 'z, unit) blob_stm" where
  "commit_update V w = (case overlay_take w of
      (None, w') \<Rightarrow> (Ok (), w')
    | (Some ov, w') \<Rightarrow> if ov_is_empty ov then (Ok (), w') else commit_overlay V ov True w')"

definition blob_read_at ::
    "('h \<times> 's) memory_ops \<Rightarrow> nat \<Rightarrow> nat \<Rightarrow> ('h, 's, 'z, byte list \<times> bool) blob_stm" where
  "blob_read_at V off n = tryS (on_overlay (ov_read_at V off n)) (\<lambda>found.
     case found of Some r \<Rightarrow> retS r | None \<Rightarrow> read_base_at V off n)"

definition blob_write_at :: "('h \<times> 's) memory_ops \<Rightarrow> nat \<Rightarrow> byte list \<Rightarrow> ('h, 's, 'z, unit) blob_stm" where
  "blob_write_at V off bs = tryS (on_overlay (ov_write_at V off bs)) (\<lambda>found.
     case found of Some r \<Rightarrow> retS r
     | None \<Rightarrow>
         if bs = [] then retS ()
         else tryS (ensure_current_layout V) (\<lambda>_.
           tryS (sb_load V) (\<lambda>block w.
             case ov_write_at V off bs (w, overlay_new (db_size block)) of
               (Ok _, (w', direct)) \<Rightarrow> commit_overlay V direct False w'
             | (Err e, (w', _)) \<Rightarrow> (Err e, w')
             | (Panic, (w', _)) \<Rightarrow> (Panic, w'))))"

definition blob_truncate :: "('h \<times> 's) memory_ops \<Rightarrow> nat \<Rightarrow> ('h, 's, 'z, unit) blob_stm" where
  "blob_truncate V n = tryS (on_overlay (ov_truncate V n)) (\<lambda>found.
     case found of Some r \<Rightarrow> retS r
     | None \<Rightarrow>
         tryS (ensure_current_layout V) (\<lambda>_.
           tryS (sb_load V) (\<lambda>block w.
             case ov_truncate V n (w, overlay_new (db_size block)) of
               (Ok _, (w', direct)) \<Rightarrow>
                 if ov_is_empty direct then (Ok (), w') else commit_overlay V direct False w'
             | (Err e, (w', _)) \<Rightarrow> (Err e, w')
             | (Panic, (w', _)) \<Rightarrow> (Panic, w'))))"

definition blob_file_size :: "('h \<times> 's) memory_ops \<Rightarrow> ('h, 's, 'z, nat) blob_stm" where
  "blob_file_size V w = (case overlay_file_size w of Some n \<Rightarrow> (Ok n, w)
     | None \<Rightarrow> tryS (sb_load V) (\<lambda>block. retS (db_size block)) w)"

end
