(* ===== verification/Blob_Import.thy ===== *)
theory Blob_Import
  imports Stable_Blob
begin

text \<open>
  Importing, exporting and checksumming the database image,
  \<open>src/src/sqlite_vfs/stable_blob.rs\<close>.

  An import writes chunks in order behind the end of the memory and switches the superblock to
  them when their checksum is the expected one.  The loops of the checksum functions share
  \<open>hash_loop\<close>, which takes the read of a chunk as an argument and returns the offset and the hash
  reached.  \<open>refresh_checksum_chunk\<close> calls itself once when the refresh belongs to an older
  transaction; its model takes fuel, and two calls are always enough.
\<close>

section \<open>State\<close>

record checksum_refresh =
  cr_complete :: bool
  cr_checksum :: u64w
  cr_scanned_bytes :: nat
  cr_db_size :: nat

record storage_stats =
  st_layout_version :: nat
  st_page_count :: nat
  st_page_table_bytes :: nat
  st_zero_extent_count :: nat
  st_active_bytes :: nat
  st_allocated_bytes :: nat
  st_orphan_bytes_estimate :: nat
  st_orphan_ratio_basis_points :: nat
  st_compact_recommended :: bool

definition reject_during_update :: "('h, 's, 'z, unit) blob_stm" where
  "reject_during_update w = (if overlay_is_active w then (Err UpdateInProgress, w) else (Ok (), w))"

section \<open>Export\<close>

definition export_chunk :: "('h \<times> 's) memory_ops \<Rightarrow> nat \<Rightarrow> nat \<Rightarrow> ('h, 's, 'z, byte list) blob_stm" where
  "export_chunk V off len =
     tryS reject_during_update (\<lambda>_.
     tryS (sb_load V) (\<lambda>block.
       if db_size block \<le> off then retS []
       else read_logical_range V block off (min len (db_size block - off))))"

section \<open>Import\<close>

definition import_offset :: "superblock \<Rightarrow> nat \<Rightarrow> ('w, nat, stable_memory_error) stm" where
  "import_offset b off = checked_addS (import_base_offset b) off"

definition append_base :: "('h \<times> 's) memory_ops \<Rightarrow> ('h, 's, 'z, nat) mem_stm" where
  "append_base V w = ok_orS OffsetOverflow (checked_mul (size_pages V w) STABLE_PAGE_SIZE) w"

definition start_import :: "nat \<Rightarrow> u64w \<Rightarrow> nat \<Rightarrow> superblock \<Rightarrow> superblock" where
  "start_import total_size expected_checksum base b =
    (clear_checksum_refresh (b\<lparr>sb_flags := sb_flags b OR FLAG_IMPORTING\<rparr>))
      \<lparr>import_expected_checksum := expected_checksum, import_written_until := 0,
       import_total_size := total_size, import_base_offset := base\<rparr>"

definition begin_import :: "('h \<times> 's) memory_ops \<Rightarrow> nat \<Rightarrow> u64w \<Rightarrow> ('h, 's, 'z, unit) blob_stm" where
  "begin_import V total_size expected_checksum =
     tryS reject_during_update (\<lambda>_.
     tryS (sb_load V) (\<lambda>block.
       if is_importing block then errS ImportAlreadyStarted
       else tryS (append_base V) (\<lambda>base.
            tryS (checked_addS base total_size) (\<lambda>_.
            sb_store V (start_import total_size expected_checksum base block)))))"

definition import_chunk :: "('h \<times> 's) memory_ops \<Rightarrow> nat \<Rightarrow> byte list \<Rightarrow> ('h, 's, 'z, unit) blob_stm" where
  "import_chunk V off bs =
     tryS reject_during_update (\<lambda>_.
     tryS (sb_load V) (\<lambda>block.
       if \<not> is_importing block then errS ImportNotStarted
       else if off \<noteq> import_written_until block
       then errS (ImportOutOfOrder off (import_written_until block))
       else tryS (checked_addS off (length bs)) (\<lambda>e.
         if import_total_size block < e
         then errS (ImportOutOfBounds off (length bs) (import_total_size block))
         else tryS (import_offset block off) (\<lambda>address.
              tryS (memory_write V address bs) (\<lambda>_.
              sb_store V (block\<lparr>import_written_until := e\<rparr>))))))"

definition without_import :: "superblock \<Rightarrow> superblock" where
  "without_import b = b\<lparr>sb_flags := sb_flags b AND NOT FLAG_IMPORTING, import_expected_checksum := 0,
     import_written_until := 0, import_total_size := 0, import_base_offset := 0\<rparr>"

definition clear_import :: "('h \<times> 's) memory_ops \<Rightarrow> superblock \<Rightarrow> ('h, 's, 'z, unit) meta_stm" where
  "clear_import V b = sb_store V (without_import b)"

section \<open>Checksums\<close>

definition fold_fnv1a64 :: "u64w \<Rightarrow> byte list \<Rightarrow> u64w" where
  "fold_fnv1a64 hash bytes = foldl fnv_step hash bytes"

function hash_loop ::
    "(nat \<Rightarrow> nat \<Rightarrow> ('w, byte list, stable_memory_error) stm) \<Rightarrow> nat \<Rightarrow> nat \<Rightarrow> u64w \<Rightarrow>
     ('w, nat \<times> u64w, stable_memory_error) stm" where
  "hash_loop read_chunk offset finish hash =
    (if finish \<le> offset then retS (offset, hash)
     else let len = min (finish - offset) CHECKSUM_CHUNK_LEN in
       tryS (read_chunk offset len) (\<lambda>bytes.
       hash_loop read_chunk (offset + len) finish (fold_fnv1a64 hash bytes)))"
  by pat_completeness auto
termination
  by (relation "measure (\<lambda>(_, offset, finish, _). finish - offset)") (auto simp: config_defs)

declare hash_loop.simps [simp del]

definition checksum_logical_range ::
    "('h \<times> 's) memory_ops \<Rightarrow> superblock \<Rightarrow> nat \<Rightarrow> ('h, 's, 'z, u64w) mem_stm" where
  "checksum_logical_range V b len =
     tryS (hash_loop (read_logical_range V b) 0 len (fnv1a64 [])) (\<lambda>(_, hash). retS hash)"

definition checksum_physical_range ::
    "('h \<times> 's) memory_ops \<Rightarrow> nat \<Rightarrow> nat \<Rightarrow> ('h, 's, 'z, u64w) mem_stm" where
  "checksum_physical_range V base_offset len =
     tryS (hash_loop (\<lambda>offset n. tryS (checked_addS base_offset offset) (\<lambda>address.
         read_preallocated V address n)) 0 len (fnv1a64 [])) (\<lambda>(_, hash). retS hash)"

definition checksum :: "('h \<times> 's) memory_ops \<Rightarrow> ('h, 's, 'z, u64w) blob_stm" where
  "checksum V =
     tryS reject_during_update (\<lambda>_.
     tryS (sb_load V) (\<lambda>block. checksum_logical_range V block (db_size block)))"

definition with_checksum :: "u64w \<Rightarrow> superblock \<Rightarrow> superblock" where
  "with_checksum hash b =
     clear_checksum_refresh (b\<lparr>sb_checksum := hash, sb_flags := sb_flags b AND NOT FLAG_CHECKSUM_STALE\<rparr>)"

definition refresh_checksum :: "('h \<times> 's) memory_ops \<Rightarrow> ('h, 's, 'z, u64w) blob_stm" where
  "refresh_checksum V =
     tryS reject_during_update (\<lambda>_.
     tryS (checksum V) (\<lambda>hash.
     tryS (sb_load V) (\<lambda>block.
     tryS (sb_store V (with_checksum hash block)) (\<lambda>_. retS hash))))"

definition start_refresh :: "superblock \<Rightarrow> superblock" where
  "start_refresh b =
    (if is_checksum_refreshing b then b
     else b\<lparr>sb_flags := sb_flags b OR FLAG_CHECKSUM_REFRESHING, checksum_refresh_offset := 0,
            checksum_refresh_hash := fnv1a64 [], checksum_refresh_tx_id := last_tx_id b\<rparr>)"

text \<open>The block after a chunk that ended at \<open>offset\<close> with \<open>hash\<close>, and what the call reports.\<close>

definition progress_refresh :: "nat \<Rightarrow> u64w \<Rightarrow> superblock \<Rightarrow> superblock" where
  "progress_refresh offset hash b =
    (let block = b\<lparr>checksum_refresh_offset := offset, checksum_refresh_hash := hash\<rparr> in
     if offset = db_size b then with_checksum hash block else block)"

definition refresh_report :: "nat \<Rightarrow> u64w \<Rightarrow> superblock \<Rightarrow> checksum_refresh" where
  "refresh_report offset hash b = \<lparr>cr_complete = (offset = db_size b), cr_checksum = hash,
     cr_scanned_bytes = offset, cr_db_size = db_size b\<rparr>"

fun refresh_checksum_chunk_fuel ::
    "nat \<Rightarrow> ('h \<times> 's) memory_ops \<Rightarrow> nat \<Rightarrow> ('h, 's, 'z, checksum_refresh) blob_stm" where
  "refresh_checksum_chunk_fuel 0 V max_bytes = panicS"
| "refresh_checksum_chunk_fuel (Suc fuel) V max_bytes =
     tryS reject_during_update (\<lambda>_.
       if max_bytes = 0 then errS ChecksumRefreshChunkEmpty
       else tryS (sb_load V) (\<lambda>loaded.
         if is_importing loaded then errS ImportAlreadyStarted
         else let block = start_refresh loaded in
           if checksum_refresh_tx_id block \<noteq> last_tx_id block
           then tryS (sb_store V (clear_checksum_refresh block)) (\<lambda>_.
                refresh_checksum_chunk_fuel fuel V max_bytes)
           else
             let start = checksum_refresh_offset block;
                 finish = min (db_size block) (saturating_add start max_bytes) in
             tryS (hash_loop (read_logical_range V block) start finish (checksum_refresh_hash block)) (\<lambda>(offset, hash).
             tryS (sb_store V (progress_refresh offset hash block)) (\<lambda>_.
             retS (refresh_report offset hash block)))))"

definition refresh_checksum_chunk ::
    "('h \<times> 's) memory_ops \<Rightarrow> nat \<Rightarrow> ('h, 's, 'z, checksum_refresh) blob_stm" where
  "refresh_checksum_chunk V max_bytes = refresh_checksum_chunk_fuel 2 V max_bytes"

section \<open>Finishing an import\<close>

definition adopt_import :: "u64w \<Rightarrow> superblock \<Rightarrow> superblock" where
  "adopt_import hash b =
    (clear_checksum_refresh (clear_zero_extents (b\<lparr>db_size := import_total_size b,
       db_base_offset := import_base_offset b, page_table_offset := 0,
       page_count := page_count_for_size (import_total_size b), layout_version := CURRENT_LAYOUT_VERSION,
       schema_version := 0, sb_flags := sb_flags b AND NOT FLAG_IMPORTING AND NOT FLAG_CHECKSUM_STALE\<rparr>)))
      \<lparr>sb_checksum := hash, import_expected_checksum := 0, import_written_until := 0,
       import_total_size := 0, import_base_offset := 0\<rparr>"

definition finish_import :: "('h \<times> 's) memory_ops \<Rightarrow> ('h, 's, 'z, unit) blob_stm" where
  "finish_import V =
     tryS reject_during_update (\<lambda>_.
     tryS (sb_load V) (\<lambda>block.
       if \<not> is_importing block then errS ImportNotStarted
       else if import_written_until block \<noteq> import_total_size block
       then errS (ImportIncomplete (import_written_until block) (import_total_size block))
       else tryS (checksum_physical_range V (import_base_offset block) (import_total_size block)) (\<lambda>hash.
         if hash \<noteq> import_expected_checksum block
         then tryS (clear_import V block) (\<lambda>_. errS (ChecksumMismatch (import_expected_checksum block) hash))
         else sb_store V (adopt_import hash block))))"

definition cancel_import :: "('h \<times> 's) memory_ops \<Rightarrow> ('h, 's, 'z, unit) blob_stm" where
  "cancel_import V =
     tryS reject_during_update (\<lambda>_.
     tryS (sb_load V) (\<lambda>block.
       if \<not> is_importing block then errS ImportNotStarted else clear_import V block))"

section \<open>Maintenance\<close>

definition compact :: "('h \<times> 's) memory_ops \<Rightarrow> ('h, 's, 'z, unit) blob_stm" where
  "compact V = tryS reject_during_update (\<lambda>_. ensure_current_layout V)"

definition storage_stats :: "('h \<times> 's) memory_ops \<Rightarrow> ('h, 's, 'z, storage_stats) blob_stm" where
  "storage_stats V =
     tryS (sb_load V) (\<lambda>block.
     tryS (ensure_current_layout V) (\<lambda>_.
     tryS (checked_addS SUPERBLOCK_SIZE (db_size block)) (\<lambda>active_bytes w.
     tryS (ok_orS OffsetOverflow (checked_mul (size_pages V w) STABLE_PAGE_SIZE)) (\<lambda>allocated_bytes.
       let orphan = allocated_bytes - active_bytes in
       retS \<lparr>st_layout_version = layout_version block, st_page_count = active_page_count block,
         st_page_table_bytes = 0, st_zero_extent_count = length (zero_extents block),
         st_active_bytes = active_bytes, st_allocated_bytes = allocated_bytes,
         st_orphan_bytes_estimate = orphan,
         st_orphan_ratio_basis_points =
           (if active_bytes = 0 then 0 else saturating_mul orphan 10000 div active_bytes),
         st_compact_recommended = False\<rparr>) w)))"

end
