(* ===== verification/Lock.thy ===== *)
theory Lock
  imports Stable_Memory
begin

text \<open>
  The lock levels of \<open>src/src/sqlite_vfs/lock.rs\<close>: a table of the level of each database context.
  Locking only raises a level, unlocking sets it, and a context never sees another's level.
  The functions work on the table; the callbacks keep it in their world.
\<close>

type_synonym c_int = int

type_synonym lock_table = "(context_id \<times> c_int) list"

definition SQLITE_LOCK_NONE :: c_int where "SQLITE_LOCK_NONE = 0"
definition SQLITE_LOCK_SHARED :: c_int where "SQLITE_LOCK_SHARED = 1"
definition SQLITE_LOCK_RESERVED :: c_int where "SQLITE_LOCK_RESERVED = 2"

lemmas lock_level_defs = SQLITE_LOCK_NONE_def SQLITE_LOCK_SHARED_def SQLITE_LOCK_RESERVED_def

fun lock_for :: "context_id \<Rightarrow> c_int \<Rightarrow> lock_table \<Rightarrow> lock_table" where
  "lock_for context level [] = [(context, level)]"
| "lock_for context level ((stored_context, current) # levels) =
    (if stored_context = context
     then (stored_context, if current < level then level else current) # levels
     else (stored_context, current) # lock_for context level levels)"

fun unlock_for :: "context_id \<Rightarrow> c_int \<Rightarrow> lock_table \<Rightarrow> lock_table" where
  "unlock_for context level [] = [(context, level)]"
| "unlock_for context level ((stored_context, current) # levels) =
    (if stored_context = context then (stored_context, level) # levels
     else (stored_context, current) # unlock_for context level levels)"

definition level_for :: "context_id \<Rightarrow> lock_table \<Rightarrow> c_int" where
  "level_for context levels = (case map_of levels context of Some level \<Rightarrow> level | None \<Rightarrow> 0)"

definition has_reserved_for :: "context_id \<Rightarrow> lock_table \<Rightarrow> bool" where
  "has_reserved_for context levels \<longleftrightarrow> SQLITE_LOCK_RESERVED \<le> level_for context levels"

section \<open>Laws\<close>

lemma map_of_lock_for:
  "map_of (lock_for c l levels) = (map_of levels)(c \<mapsto> (case map_of levels c of None \<Rightarrow> l | Some k \<Rightarrow> max k l))"
  by (induction c l levels rule: lock_for.induct) (auto simp: fun_eq_iff max_def)

lemma map_of_unlock_for: "map_of (unlock_for c l levels) = (map_of levels)(c \<mapsto> l)"
  by (induction c l levels rule: unlock_for.induct) (auto simp: fun_eq_iff)

lemma level_lock_for:
  "0 \<le> l \<Longrightarrow> level_for d (lock_for c l levels) = (if d = c then max (level_for c levels) l else level_for d levels)"
  by (simp add: level_for_def map_of_lock_for max_def split: option.splits)

lemma level_unlock_for:
  "level_for d (unlock_for c l levels) = (if d = c then l else level_for d levels)"
  by (simp add: level_for_def map_of_unlock_for)

lemma distinct_lock_tables:
  "distinct (map fst levels) \<Longrightarrow> distinct (map fst (lock_for c l levels))"
  "distinct (map fst levels) \<Longrightarrow> distinct (map fst (unlock_for c l levels))"
proof -
  have "fst ` set (lock_for c l levels) = insert c (fst ` set levels)"
    "fst ` set (unlock_for c l levels) = insert c (fst ` set levels)" for levels
    by (induction c l levels rule: lock_for.induct) auto
  then show "distinct (map fst levels) \<Longrightarrow> distinct (map fst (lock_for c l levels))"
    "distinct (map fst levels) \<Longrightarrow> distinct (map fst (unlock_for c l levels))"
    by (induction c l levels rule: lock_for.induct) auto
qed

end
