(* ===== verification/Temp_File.thy ===== *)
theory Temp_File
  imports Abstract_File
begin

text \<open>
  The heap-backed temporary file of \<open>src/src/sqlite_vfs/temp.rs\<close>, and that it implements the
  abstract file.  \<open>Vec::resize\<close> panics when the new length exceeds \<open>isize::MAX\<close>; a method that
  may panic returns an option.
\<close>

section \<open>Operations\<close>

record temp_file =
  tf_bytes :: "byte list"

definition temp_default :: temp_file where
  "temp_default = \<lparr>tf_bytes = []\<rparr>"

definition resize_bytes :: "nat \<Rightarrow> byte list \<Rightarrow> byte list option" where
  "resize_bytes n bs = (if n \<le> length bs then Some (take n bs)
     else if n \<le> i64_max then Some (bs @ replicate (n - length bs) 0) else None)"

definition temp_read :: "temp_file \<Rightarrow> nat \<Rightarrow> nat \<Rightarrow> byte list \<times> bool" where
  "temp_read t offset n = (case usize_try_from offset of
      None \<Rightarrow> (replicate n 0, False)
    | Some start \<Rightarrow>
        if length (tf_bytes t) \<le> start then (replicate n 0, False)
        else let available = length (tf_bytes t) - start; copied = min available n in
          (slice (tf_bytes t) start copied @ replicate (n - copied) 0, copied = n))"

definition temp_write :: "nat \<Rightarrow> byte list \<Rightarrow> temp_file \<Rightarrow> (bool \<times> temp_file) option" where
  "temp_write offset bytes t = (case usize_try_from offset of
      None \<Rightarrow> Some (False, t)
    | Some start \<Rightarrow> (case checked_add start (length bytes) of
        None \<Rightarrow> Some (False, t)
      | Some e \<Rightarrow>
          map_option (\<lambda>bs. (True, \<lparr>tf_bytes = take start bs @ bytes @ drop e bs\<rparr>))
            (if length (tf_bytes t) < e then resize_bytes e (tf_bytes t) else Some (tf_bytes t))))"

definition temp_truncate :: "nat \<Rightarrow> temp_file \<Rightarrow> (bool \<times> temp_file) option" where
  "temp_truncate sz t = (case usize_try_from sz of
      None \<Rightarrow> Some (False, t)
    | Some n \<Rightarrow> map_option (\<lambda>bs. (True, \<lparr>tf_bytes = bs\<rparr>)) (resize_bytes n (tf_bytes t)))"

definition temp_len :: "temp_file \<Rightarrow> nat" where
  "temp_len t = length (tf_bytes t)"

section \<open>The abstract file\<close>

definition temp_content :: "temp_file \<Rightarrow> afile" where
  "temp_content t = (length (tf_bytes t), \<lambda>i. if i < length (tf_bytes t) then tf_bytes t ! i else 0)"

definition temp_ok :: "temp_file \<Rightarrow> bool" where
  "temp_ok t \<longleftrightarrow> length (tf_bytes t) \<le> i64_max"

lemma temp_content_wf: "afile_wf (temp_content t)"
  by (simp add: afile_wf_def temp_content_def)

lemma temp_ok_default [simp]: "temp_ok temp_default" "temp_content temp_default = (0, \<lambda>_. 0)"
  by (simp_all add: temp_ok_def temp_default_def temp_content_def)

lemma temp_read_ok:
  assumes "temp_ok t"
  shows "fst (temp_read t off n) = fst (afile_read off n (temp_content t))"
    "0 < n \<Longrightarrow> temp_read t off n = afile_read off n (temp_content t)"
proof -
  let ?bs = "tf_bytes t"
  have big: "length ?bs < usize_max" using assms by (simp add: temp_ok_def int_max_defs)
  have *: "fst (temp_read t off n) = fst (afile_read off n (temp_content t)) \<and>
    (0 < n \<longrightarrow> temp_read t off n = afile_read off n (temp_content t))"
  proof (cases "length ?bs \<le> off")
    case True
    have "temp_read t off n = (replicate n 0, False)"
      using True by (simp add: temp_read_def usize_try_from_def)
    moreover have "bytes_at (snd (temp_content t)) off n = replicate n 0"
      using True by (intro nth_equalityI) (auto simp: temp_content_def)
    ultimately show ?thesis using True by (auto simp: afile_read_def temp_content_def)
  next
    case False
    let ?k = "min (length ?bs - off) n"
    have "temp_read t off n = (slice ?bs off ?k @ replicate (n - ?k) 0, ?k = n)"
      using False big by (simp add: temp_read_def usize_try_from_def Let_def)
    moreover have "slice ?bs off ?k @ replicate (n - ?k) 0 = bytes_at (snd (temp_content t)) off n"
      using False by (intro nth_equalityI) (auto simp: temp_content_def nth_append)
    moreover have "(?k = n) = (n = 0 \<or> off + n \<le> length ?bs)" using False by auto
    ultimately show ?thesis by (simp add: afile_read_def temp_content_def)
  qed
  then show "fst (temp_read t off n) = fst (afile_read off n (temp_content t))"
    "0 < n \<Longrightarrow> temp_read t off n = afile_read off n (temp_content t)" by simp_all
qed

lemma resize_bytes_Some:
  assumes "resize_bytes n bs = Some bs'" "length bs \<le> i64_max"
  shows "length bs' = n" "n \<le> i64_max" "\<And>i. i < n \<Longrightarrow> bs' ! i = (if i < length bs then bs ! i else 0)"
  using assms by (auto simp: resize_bytes_def nth_append split: if_splits)

lemma temp_truncate_ok:
  assumes "temp_ok t" "temp_truncate n t = Some (True, t')"
  shows "temp_ok t'" "temp_content t' = afile_truncate n (temp_content t)"
proof -
  obtain bs where bs: "resize_bytes n (tf_bytes t) = Some bs" "t' = \<lparr>tf_bytes = bs\<rparr>"
    using assms(2) by (auto simp: temp_truncate_def usize_try_from_def split: if_splits)
  note r = resize_bytes_Some [OF bs(1) assms(1) [unfolded temp_ok_def]]
  show "temp_ok t'" using r bs(2) by (simp add: temp_ok_def)
  show "temp_content t' = afile_truncate n (temp_content t)"
    using r bs(2) by (auto simp: temp_content_def afile_truncate_def fun_eq_iff)
qed

lemma temp_write_ok:
  assumes "temp_ok t" "temp_write off bytes t = Some (True, t')"
  shows "temp_ok t'" "bytes \<noteq> [] \<or> off \<le> length (tf_bytes t) \<Longrightarrow> temp_content t' = afile_write off bytes (temp_content t)"
proof -
  let ?e = "off + length bytes"
  obtain bs where bs: "(if length (tf_bytes t) < ?e then resize_bytes ?e (tf_bytes t) else Some (tf_bytes t)) = Some bs"
    "t' = \<lparr>tf_bytes = take off bs @ bytes @ drop ?e bs\<rparr>"
    using assms(2) by (auto simp: temp_write_def usize_try_from_def split: if_splits option.splits)
  have r: "length bs = max ?e (length (tf_bytes t))" "length bs \<le> i64_max"
    "i < length bs \<Longrightarrow> bs ! i = (if i < length (tf_bytes t) then tf_bytes t ! i else 0)" for i
    using bs(1) resize_bytes_Some [of ?e "tf_bytes t" bs] assms(1) by (auto simp: temp_ok_def split: if_splits)
  show "temp_ok t'" using r(1,2) bs(2) by (simp add: temp_ok_def)
  assume ne: "bytes \<noteq> [] \<or> off \<le> length (tf_bytes t)"
  have len: "length (tf_bytes t') = max ?e (length (tf_bytes t))" using r(1) bs(2) by simp
  have "tf_bytes t' ! i = (if off \<le> i \<and> i < ?e then bytes ! (i - off)
      else if i < length (tf_bytes t) then tf_bytes t ! i else 0)" if "i < length (tf_bytes t')" for i
  proof -
    consider "i < off" | "off \<le> i" "i < ?e" | "?e \<le> i" by linarith
    then show ?thesis
      using that len r(1) r(3) [of i] bs(2) by cases (auto simp: nth_append)
  qed
  then show "temp_content t' = afile_write off bytes (temp_content t)"
    using len ne by (auto simp: temp_content_def afile_write_def blit_def fun_eq_iff max_def)
qed

section \<open>The contract of a file\<close>

text \<open>The calls as the file callbacks see them: a result, a refusal or a panic.\<close>

definition temp_rd :: "nat \<Rightarrow> nat \<Rightarrow> (temp_file, byte list \<times> bool, unit) stm" where
  "temp_rd off n t = (Ok (temp_read t off n), t)"

definition temp_call :: "(temp_file \<Rightarrow> (bool \<times> temp_file) option) \<Rightarrow> (temp_file, unit, unit) stm" where
  "temp_call f t = (case f t of None \<Rightarrow> (Panic, t)
     | Some (done, t') \<Rightarrow> (if done then Ok () else Err (), t'))"

lemma temp_call_Ok: "temp_call f t = (Ok (), t') \<longleftrightarrow> f t = Some (True, t')"
  by (auto simp: temp_call_def split: option.splits)

interpretation temp: file_ops "\<lambda>t a. temp_ok t \<and> a = temp_content t" temp_rd
    "\<lambda>off bs. temp_call (temp_write off bs)" "\<lambda>n. temp_call (temp_truncate n)"
proof (unfold_locales, goal_cases)
  case (1 t a)
  then show ?case using temp_content_wf by simp
next
  case (2 t a off n)
  then show ?case using temp_read_ok [of t] by (simp add: temp_rd_def)
next
  case (3 t a bs off t')
  then show ?case using temp_write_ok [of t off bs t'] by (simp add: temp_call_Ok)
next
  case (4 t a n t')
  then show ?case using temp_truncate_ok [of t n t'] by (simp add: temp_call_Ok)
qed

end
