(* ===== verification/Vfs_State.thy ===== *)
theory Vfs_State
  imports Blob_Import Lock Temp_File
begin

text \<open>
  The state the callbacks of the VFS share: the last error of each context
  (\<open>src/src/sqlite_vfs/vfs.rs\<close>) and the lock levels (\<open>src/src/sqlite_vfs/lock.rs\<close>), beside the
  state of the layers below.  The numbers of the \<open>SQLITE_\<close> constants are those of the SQLite
  interface.  A message is kept as the bytes of the string.
\<close>

section \<open>Result codes and flags of the SQLite interface\<close>

named_theorems sqlite_codes \<open>the numbers of the SQLite interface\<close>

definition SQLITE_OK :: c_int where [sqlite_codes]: "SQLITE_OK = 0"
definition SQLITE_READONLY :: c_int where [sqlite_codes]: "SQLITE_READONLY = 8"
definition SQLITE_IOERR :: c_int where [sqlite_codes]: "SQLITE_IOERR = 10"
definition SQLITE_NOTFOUND :: c_int where [sqlite_codes]: "SQLITE_NOTFOUND = 12"
definition SQLITE_CANTOPEN :: c_int where [sqlite_codes]: "SQLITE_CANTOPEN = 14"
definition SQLITE_IOERR_READ :: c_int where [sqlite_codes]: "SQLITE_IOERR_READ = 266"
definition SQLITE_IOERR_SHORT_READ :: c_int where [sqlite_codes]: "SQLITE_IOERR_SHORT_READ = 522"
definition SQLITE_IOERR_WRITE :: c_int where [sqlite_codes]: "SQLITE_IOERR_WRITE = 778"
definition SQLITE_IOERR_TRUNCATE :: c_int where [sqlite_codes]: "SQLITE_IOERR_TRUNCATE = 1546"
definition SQLITE_IOERR_FSTAT :: c_int where [sqlite_codes]: "SQLITE_IOERR_FSTAT = 1802"
definition SQLITE_IOERR_DELETE :: c_int where [sqlite_codes]: "SQLITE_IOERR_DELETE = 2570"

definition SQLITE_OPEN_READONLY :: c_int where [sqlite_codes]: "SQLITE_OPEN_READONLY = 1"
definition SQLITE_OPEN_CREATE :: c_int where [sqlite_codes]: "SQLITE_OPEN_CREATE = 4"
definition SQLITE_OPEN_DELETEONCLOSE :: c_int where [sqlite_codes]: "SQLITE_OPEN_DELETEONCLOSE = 8"
definition SQLITE_OPEN_URI :: c_int where [sqlite_codes]: "SQLITE_OPEN_URI = 64"
definition SQLITE_OPEN_MAIN_DB :: c_int where [sqlite_codes]: "SQLITE_OPEN_MAIN_DB = 256"
definition SQLITE_OPEN_TEMP_DB :: c_int where [sqlite_codes]: "SQLITE_OPEN_TEMP_DB = 512"
definition SQLITE_OPEN_TRANSIENT_DB :: c_int where [sqlite_codes]: "SQLITE_OPEN_TRANSIENT_DB = 1024"
definition SQLITE_OPEN_MAIN_JOURNAL :: c_int where [sqlite_codes]: "SQLITE_OPEN_MAIN_JOURNAL = 2048"
definition SQLITE_OPEN_TEMP_JOURNAL :: c_int where [sqlite_codes]: "SQLITE_OPEN_TEMP_JOURNAL = 4096"
definition SQLITE_OPEN_WAL :: c_int where [sqlite_codes]: "SQLITE_OPEN_WAL = 524288"

definition SQLITE_FCNTL_LOCKSTATE :: c_int where [sqlite_codes]: "SQLITE_FCNTL_LOCKSTATE = 1"
definition SQLITE_FCNTL_LAST_ERRNO :: c_int where [sqlite_codes]: "SQLITE_FCNTL_LAST_ERRNO = 4"
definition SQLITE_FCNTL_SIZE_HINT :: c_int where [sqlite_codes]: "SQLITE_FCNTL_SIZE_HINT = 5"
definition SQLITE_FCNTL_CHUNK_SIZE :: c_int where [sqlite_codes]: "SQLITE_FCNTL_CHUNK_SIZE = 6"
definition SQLITE_FCNTL_VFSNAME :: c_int where [sqlite_codes]: "SQLITE_FCNTL_VFSNAME = 12"
definition SQLITE_FCNTL_POWERSAFE_OVERWRITE :: c_int where
  [sqlite_codes]: "SQLITE_FCNTL_POWERSAFE_OVERWRITE = 13"
definition SQLITE_FCNTL_HAS_MOVED :: c_int where [sqlite_codes]: "SQLITE_FCNTL_HAS_MOVED = 20"
definition SQLITE_IOCAP_POWERSAFE_OVERWRITE :: c_int where
  [sqlite_codes]: "SQLITE_IOCAP_POWERSAFE_OVERWRITE = 4096"

definition c_int_max :: nat where
  "c_int_max = 2147483647"

section \<open>Error messages\<close>

definition ascii :: "string \<Rightarrow> byte list" where
  "ascii s = map of_char s"

fun show_nat :: "nat \<Rightarrow> string" where
  "show_nat n = (if n < 10 then [char_of (48 + n)] else show_nat (n div 10) @ [char_of (48 + n mod 10)])"

declare show_nat.simps [simp del]

fun error_text :: "stable_memory_error \<Rightarrow> string" where
  "error_text NotInitialized = ''stable memory backend is not initialized''"
| "error_text AlreadyInitialized = ''stable memory backend is already initialized''"
| "error_text MemoryAlreadyRegistered = ''stable memory is already registered with a database handle''"
| "error_text (GrowFailed current_pages required_pages) =
     ''stable memory grow failed: current_pages='' @ show_nat current_pages @
     '', required_pages='' @ show_nat required_pages"
| "error_text (ReadOutOfBounds offset len size_bytes) =
     ''stable memory read out of bounds: offset='' @ show_nat offset @ '', len='' @ show_nat len @
     '', size_bytes='' @ show_nat size_bytes"
| "error_text OffsetOverflow = ''offset overflow''"
| "error_text ImportAlreadyStarted = ''import session already started''"
| "error_text ImportNotStarted = ''import session not started''"
| "error_text UpdateInProgress = ''database update already in progress''"
| "error_text (ImportOutOfOrder offset expected) =
     ''import chunk out of order: offset='' @ show_nat offset @ '', expected='' @ show_nat expected"
| "error_text (ImportOutOfBounds offset len dbsize) =
     ''import chunk out of bounds: offset='' @ show_nat offset @ '', len='' @ show_nat len @
     '', db_size='' @ show_nat dbsize"
| "error_text (ImportIncomplete written_until dbsize) =
     ''import incomplete: written_until='' @ show_nat written_until @ '', db_size='' @ show_nat dbsize"
| "error_text (ChecksumMismatch expected actual) =
     ''checksum mismatch: expected='' @ show_nat (unat expected) @ '', actual='' @ show_nat (unat actual)"
| "error_text ChecksumRefreshChunkEmpty = ''checksum refresh chunk size must be greater than zero''"
| "error_text (Failpoint name) = ''stable blob failpoint: '' @ name"
| "error_text MetaChecksumMismatch = ''superblock metadata checksum mismatch''"
| "error_text (UnsupportedLayoutVersion version) = ''unsupported stable layout version: '' @ show_nat version"
| "error_text ForeignStableMemoryImage = ''non-empty stable memory does not contain an ic-sqlite-vfs image''"
| "error_text (ZeroExtentLimitExceeded limit) = ''zero extent limit exceeded: limit='' @ show_nat limit"

section \<open>State\<close>

record vfs_error =
  ve_errno :: c_int
  ve_message :: "byte list"

record ('h, 's) vfs_world = "('h, 's) blob_world" +
  last_error :: "context_id \<rightharpoonup> vfs_error"
  lock_level :: lock_table

type_synonym ('h, 's, 'z, 'a) vfs_stm =
  "(('h, 's, 'z) vfs_world_scheme, 'a, stable_memory_error) stm"

definition record_last_error_for ::
    "context_id \<Rightarrow> c_int \<Rightarrow> string \<Rightarrow> ('h, 's, 'z) vfs_world_scheme \<Rightarrow> ('h, 's, 'z) vfs_world_scheme" where
  "record_last_error_for context errno message w =
     w\<lparr>last_error := (last_error w)(context \<mapsto> \<lparr>ve_errno = errno, ve_message = ascii message\<rparr>)\<rparr>"

definition record_last_error ::
    "c_int \<Rightarrow> string \<Rightarrow> ('h, 's, 'z) vfs_world_scheme \<Rightarrow> ('h, 's, 'z) vfs_world_scheme" where
  "record_last_error errno message w = (case active_context w of
      Some context \<Rightarrow> record_last_error_for context errno message w | None \<Rightarrow> w)"

definition last_errno :: "('h, 's, 'z) vfs_world_scheme \<Rightarrow> c_int" where
  "last_errno w = (case active_context w of None \<Rightarrow> 0
     | Some context \<Rightarrow> (case last_error w context of None \<Rightarrow> 0 | Some err \<Rightarrow> ve_errno err))"

text \<open>\<open>x_get_last_error\<close> writes the message, cut to the buffer, and a terminating zero.\<close>

definition x_get_last_error ::
    "c_int \<Rightarrow> bool \<Rightarrow> ('h, 's, 'z) vfs_world_scheme \<Rightarrow> c_int \<times> byte list option" where
  "x_get_last_error len out_is_null w =
    (if out_is_null \<or> len \<le> 0 then (0, None)
     else case active_context w of None \<Rightarrow> (0, Some [0])
     | Some context \<Rightarrow> (case last_error w context of None \<Rightarrow> (0, Some [0])
       | Some err \<Rightarrow>
           let bytes = ve_message err; copy_len = min (length bytes) (nat len - 1) in
           (if copy_len \<le> c_int_max then int copy_len else int c_int_max, Some (take copy_len bytes @ [0]))))"

section \<open>Error handling of the callbacks\<close>

text \<open>\<open>catchS m h k\<close> matches on the result of \<open>m\<close>: \<open>k\<close> continues, \<open>h\<close> handles the error.\<close>

definition catchS :: "('w, 'a, 'e) stm \<Rightarrow> ('e \<Rightarrow> ('w, 'b, 'e) stm) \<Rightarrow> ('a \<Rightarrow> ('w, 'b, 'e) stm) \<Rightarrow> ('w, 'b, 'e) stm" where
  "catchS m h k w = (case m w of (Ok x, w') \<Rightarrow> k x w' | (Err e, w') \<Rightarrow> h e w' | (Panic, w') \<Rightarrow> (Panic, w'))"

lemma catchS_simps [simp]:
  "m w = (Ok x, w') \<Longrightarrow> catchS m h k w = k x w'"
  "m w = (Err e, w') \<Longrightarrow> catchS m h k w = h e w'"
  "m w = (Panic, w') \<Longrightarrow> catchS m h k w = (Panic, w')"
  by (simp_all add: catchS_def)

end
