(* ===== verification/Db_Error.thy ===== *)
theory Db_Error
  imports Vfs_State
begin

text \<open>
  The error type of the database facade (\<open>src/src/db/mod.rs\<close>) and how SQLite's result codes become
  errors (\<open>src/src/db/connection.rs\<close>).  The SQLite library is not modelled: what its functions
  return is a parameter.  \<open>sqlite3_errmsg\<close> returns a message or null, and the conversion of its
  bytes to a Rust string replaces invalid UTF-8; the strings here are the bytes after that.
\<close>

datatype db_error =
    Sqlite c_int "byte list"
  | Constraint "byte list"
  | NotFound
  | TypeMismatch nat string string
  | ColumnOutOfRange nat nat
  | Stable stable_memory_error
  | StableMemoryNotInitialized
  | StableMemoryAlreadyInitialized
  | ReadConnectionInUse
  | MigrationVersionOutOfRange nat
  | DuplicateMigrationVersion nat
  | MigrationVersionOutOfOrder nat nat
  | InteriorNul
  | EmptySql
  | TrailingSql
  | TextTooLarge
  | BlobTooLarge
  | TooManyParameters
  | ParameterCountMismatch nat nat
  | AnonymousParameterInNamedBind nat
  | ParameterNotFound "byte list"

definition SQLITE_CONSTRAINT :: c_int where [sqlite_codes]: "SQLITE_CONSTRAINT = 19"
definition SQLITE_ROW :: c_int where [sqlite_codes]: "SQLITE_ROW = 100"
definition SQLITE_DONE :: c_int where [sqlite_codes]: "SQLITE_DONE = 101"

definition classify_sqlite_error :: "c_int \<Rightarrow> byte list \<Rightarrow> db_error" where
  "classify_sqlite_error code message =
    (if code = SQLITE_CONSTRAINT then Constraint message else Sqlite code message)"

definition sqlite_error :: "byte list option \<Rightarrow> c_int \<Rightarrow> db_error" where
  "sqlite_error errmsg code = classify_sqlite_error code
     (case errmsg of None \<Rightarrow> ascii ''unknown sqlite error'' | Some message \<Rightarrow> message)"

text \<open>The message \<open>sqlite3_exec\<close> allocates is taken and freed.\<close>

definition take_error_message :: "byte list option \<Rightarrow> byte list" where
  "take_error_message error = (case error of None \<Rightarrow> ascii ''unknown sqlite error'' | Some message \<Rightarrow> message)"

definition is_ascii_whitespace :: "byte \<Rightarrow> bool" where
  "is_ascii_whitespace b \<longleftrightarrow> b = 32 \<or> b = 9 \<or> b = 10 \<or> b = 12 \<or> b = 13"

text \<open>The tail of a statement, the text after its end; a null pointer is \<open>None\<close>.\<close>

definition tail_is_empty :: "byte list option \<Rightarrow> bool" where
  "tail_is_empty tail = (case tail of None \<Rightarrow> True | Some bytes \<Rightarrow> list_all is_ascii_whitespace bytes)"

end
