(* ===== verification/Statement_Cache.thy ===== *)
theory Statement_Cache
  imports Db_Error
begin

text \<open>
  Preparing statements and the statement cache of a connection (\<open>src/src/db/connection.rs\<close>).

  SQLite's handles are abstract values.  SQLite keeps the set of statements that are open on a
  connection: preparing adds a handle that is not in it, and finalizing a handle that is not in it is
  a misuse of the interface, modelled as \<open>None\<close>.  The result of \<open>sqlite3_prepare_v2\<close> is an argument:
  the code, the handle or null, the tail, the error message and the number of parameters.
\<close>

section \<open>The cache\<close>

definition STATEMENT_CACHE_CAPACITY :: nat where
  "STATEMENT_CACHE_CAPACITY = 32"

record 'st cached_entry =
  ce_sql :: "byte list"
  ce_statement :: 'st
  ce_parameter_count :: nat

type_synonym 'st statement_cache = "'st cached_entry list"

definition cache_new :: "'st statement_cache" where
  "cache_new = []"

fun sql_position :: "byte list \<Rightarrow> 'st statement_cache \<Rightarrow> nat option" where
  "sql_position sql [] = None"
| "sql_position sql (e # es) = (if ce_sql e = sql then Some 0 else map_option Suc (sql_position sql es))"

definition remove_at :: "nat \<Rightarrow> 'a list \<Rightarrow> 'a list" where
  "remove_at i xs = take i xs @ drop (Suc i) xs"

definition cache_take :: "byte list \<Rightarrow> 'st statement_cache \<Rightarrow> ('st cached_entry \<times> 'st statement_cache) option" where
  "cache_take sql cache =
    (if cache \<noteq> [] \<and> ce_sql (last cache) = sql then Some (last cache, butlast cache)
     else map_option (\<lambda>i. (cache ! i, remove_at i cache)) (sql_position sql cache))"

section \<open>The statements of a connection\<close>

text \<open>\<open>ss_out\<close> are the \<open>CachedStatement\<close>s in use, \<open>ss_regular\<close> the other statements.\<close>

record 'st stmt_state =
  ss_cache :: "'st statement_cache"
  ss_out :: "'st cached_entry list"
  ss_regular :: "'st list"
  ss_open :: "'st list"

definition stmt_new :: "'st stmt_state" where
  "stmt_new = \<lparr>ss_cache = cache_new, ss_out = [], ss_regular = [], ss_open = []\<rparr>"

definition sqlite3_finalize :: "'st \<Rightarrow> 'st stmt_state \<Rightarrow> 'st stmt_state option" where
  "sqlite3_finalize st s = (if st \<in> set (ss_open s) then Some (s\<lparr>ss_open := removeAll st (ss_open s)\<rparr>) else None)"

function evict_over_capacity :: "'st stmt_state \<Rightarrow> 'st stmt_state option" where
  "evict_over_capacity s = (case ss_cache s of [] \<Rightarrow> Some s
    | e # es \<Rightarrow>
        if STATEMENT_CACHE_CAPACITY < length (ss_cache s)
        then (case sqlite3_finalize (ce_statement e) (s\<lparr>ss_cache := es\<rparr>) of None \<Rightarrow> None
          | Some s' \<Rightarrow> evict_over_capacity s')
        else Some s)"
  by pat_completeness auto
termination
  by (relation "measure (\<lambda>s. length (ss_cache s))") (auto simp: sqlite3_finalize_def split: if_splits)

definition cache_insert :: "byte list \<Rightarrow> 'st \<Rightarrow> nat \<Rightarrow> 'st stmt_state \<Rightarrow> 'st stmt_state option" where
  "cache_insert sql raw parameter_count s =
    (case (case sql_position sql (ss_cache s) of None \<Rightarrow> Some s
       | Some i \<Rightarrow> sqlite3_finalize (ce_statement (ss_cache s ! i)) (s\<lparr>ss_cache := remove_at i (ss_cache s)\<rparr>)) of
       None \<Rightarrow> None
     | Some s \<Rightarrow> evict_over_capacity (s\<lparr>ss_cache := ss_cache s @
         [\<lparr>ce_sql = sql, ce_statement = raw, ce_parameter_count = parameter_count\<rparr>]\<rparr>))"

fun finalize_entries :: "'st statement_cache \<Rightarrow> 'st stmt_state \<Rightarrow> 'st stmt_state option" where
  "finalize_entries [] s = Some s"
| "finalize_entries (e # es) s = (case sqlite3_finalize (ce_statement e) s of None \<Rightarrow> None
    | Some s \<Rightarrow> finalize_entries es s)"

definition finalize_all :: "'st stmt_state \<Rightarrow> 'st stmt_state option" where
  "finalize_all s = finalize_entries (ss_cache s) (s\<lparr>ss_cache := []\<rparr>)"

section \<open>Preparing\<close>

record 'st prepare_result =
  pr_code :: c_int
  pr_statement :: "'st option"
  pr_tail :: "byte list option"
  pr_errmsg :: "byte list option"
  pr_parameter_count :: c_int

text \<open>\<open>Statement::new\<close> reads the number of parameters; a negative number counts as none.\<close>

definition statement_new :: "byte list \<Rightarrow> 'st \<Rightarrow> c_int \<Rightarrow> 'st cached_entry" where
  "statement_new sql raw count = \<lparr>ce_sql = sql, ce_statement = raw, ce_parameter_count = nat count\<rparr>"

definition prepare :: "byte list \<Rightarrow> 'st prepare_result \<Rightarrow> 'st stmt_state \<Rightarrow>
    ((db_error + 'st cached_entry) \<times> 'st stmt_state) option" where
  "prepare sql res s =
    (if 0 \<in> set sql then Some (Inl InteriorNul, s)
     else if pr_code res \<noteq> SQLITE_OK then Some (Inl (sqlite_error (pr_errmsg res) (pr_code res)), s)
     else case pr_statement res of None \<Rightarrow> Some (Inl EmptySql, s)
     | Some raw \<Rightarrow>
         let s = s\<lparr>ss_open := raw # ss_open s\<rparr> in
         if \<not> tail_is_empty (pr_tail res)
         then map_option (Pair (Inl TrailingSql)) (sqlite3_finalize raw s)
         else Some (Inr (statement_new sql raw (pr_parameter_count res)), s))"

definition prepare_regular :: "byte list \<Rightarrow> 'st prepare_result \<Rightarrow> 'st stmt_state \<Rightarrow>
    ((db_error + 'st cached_entry) \<times> 'st stmt_state) option" where
  "prepare_regular sql res s = (case prepare sql res s of None \<Rightarrow> None
     | Some (Inl e, s) \<Rightarrow> Some (Inl e, s)
     | Some (Inr st, s) \<Rightarrow> Some (Inr st, s\<lparr>ss_regular := ce_statement st # ss_regular s\<rparr>))"

text \<open>Dropping a statement finalizes it.\<close>

definition drop_regular :: "'st \<Rightarrow> 'st stmt_state \<Rightarrow> 'st stmt_state option" where
  "drop_regular raw s = sqlite3_finalize raw (s\<lparr>ss_regular := removeAll raw (ss_regular s)\<rparr>)"

definition prepare_cached :: "byte list \<Rightarrow> 'st prepare_result \<Rightarrow> 'st stmt_state \<Rightarrow>
    ((db_error + 'st cached_entry) \<times> 'st stmt_state) option" where
  "prepare_cached sql res s = (case cache_take sql (ss_cache s) of
      Some (e, cache) \<Rightarrow> Some (Inr e, s\<lparr>ss_cache := cache, ss_out := e # ss_out s\<rparr>)
    | None \<Rightarrow> (case prepare sql res s of None \<Rightarrow> None
        | Some (Inl err, s) \<Rightarrow> Some (Inl err, s)
        | Some (Inr e, s) \<Rightarrow> Some (Inr e, s\<lparr>ss_out := e # ss_out s\<rparr>)))"

text \<open>Dropping a cached statement resets it, clears its bindings and returns it to the cache;
  discarding finalizes it.\<close>

definition drop_cached :: "'st cached_entry \<Rightarrow> 'st stmt_state \<Rightarrow> 'st stmt_state option" where
  "drop_cached e s = cache_insert (ce_sql e) (ce_statement e) (ce_parameter_count e)
     (s\<lparr>ss_out := remove1 e (ss_out s)\<rparr>)"

definition discard :: "'st cached_entry \<Rightarrow> 'st stmt_state \<Rightarrow> 'st stmt_state option" where
  "discard e s = sqlite3_finalize (ce_statement e) (s\<lparr>ss_out := remove1 e (ss_out s)\<rparr>)"

declare evict_over_capacity.simps [simp del]

section \<open>Invariant\<close>

definition held :: "'st stmt_state \<Rightarrow> 'st list" where
  "held s = map ce_statement (ss_cache s) @ map ce_statement (ss_out s) @ ss_regular s"

text \<open>Every open statement has exactly one owner: the cache, a cached statement in use, or a regular
  statement.\<close>

definition stmts_inv :: "'st stmt_state \<Rightarrow> bool" where
  "stmts_inv s \<longleftrightarrow> distinct (held s) \<and> set (ss_open s) = set (held s)"

definition cache_inv :: "'st statement_cache \<Rightarrow> bool" where
  "cache_inv cache \<longleftrightarrow> distinct (map ce_sql cache)"

lemma sql_position_Some:
  assumes "sql_position sql es = Some i"
  shows "i < length es" "ce_sql (es ! i) = sql" "es = take i es @ es ! i # drop (Suc i) es"
proof -
  have "i < length es \<and> ce_sql (es ! i) = sql"
    using assms by (induction es arbitrary: i) (auto split: if_splits)
  then show "i < length es" "ce_sql (es ! i) = sql" "es = take i es @ es ! i # drop (Suc i) es"
    using id_take_nth_drop [of i es] by blast+
qed

lemma filter_absent: "x \<notin> f ` set ys \<Longrightarrow> filter (\<lambda>y. y \<noteq> x) (map f ys) = map f ys"
  by (induction ys) auto

lemma sql_position_None: "sql_position sql es = None \<longleftrightarrow> sql \<notin> ce_sql ` set es"
  by (induction es) auto

lemma remove_at_split: "xs = ys @ x # zs \<Longrightarrow> i = length ys \<Longrightarrow> remove_at i xs = ys @ zs"
  by (simp add: remove_at_def)

lemma cache_takeE:
  assumes "cache_take sql cache = Some (e, cache')"
  obtains ys zs where "cache = ys @ e # zs" "cache' = ys @ zs" "ce_sql e = sql"
proof (cases "cache \<noteq> [] \<and> ce_sql (last cache) = sql")
  case True
  then have e: "e = last cache" "cache' = butlast cache" using assms by (simp_all add: cache_take_def)
  have "cache = butlast cache @ [last cache]" using True by simp
  then show thesis using that [of "butlast cache" "[]"] e True by blast
next
  case False
  then obtain i where i: "sql_position sql cache = Some i" "e = cache ! i" "cache' = remove_at i cache"
    using assms by (auto simp: cache_take_def split: if_splits)
  show thesis
    using that [of "take i cache" "drop (Suc i) cache"] sql_position_Some [OF i(1)] i(2,3)
    by (simp add: remove_at_def)
qed

lemma cache_take_None: "cache_take sql cache = None \<longleftrightarrow> sql \<notin> ce_sql ` set cache"
  using sql_position_None [of sql cache] by (auto simp: cache_take_def)

lemma finalize_Some: "st \<in> set (ss_open s) \<Longrightarrow> sqlite3_finalize st s = Some (s\<lparr>ss_open := removeAll st (ss_open s)\<rparr>)"
  by (simp add: sqlite3_finalize_def)

text \<open>What the cache drops is finalized: the state shrinks from the front of the cache.\<close>

lemma evict_ok:
  assumes "stmts_inv s"
  shows "\<exists>s'. evict_over_capacity s = Some s' \<and> stmts_inv s' \<and>
    ss_cache s' = drop (length (ss_cache s) - STATEMENT_CACHE_CAPACITY) (ss_cache s) \<and>
    ss_out s' = ss_out s \<and> ss_regular s' = ss_regular s"
  using assms
proof (induction s rule: evict_over_capacity.induct)
  case (1 s)
  show ?case
  proof (cases "STATEMENT_CACHE_CAPACITY < length (ss_cache s)")
    case True
    then obtain e es where c: "ss_cache s = e # es" by (cases "ss_cache s") auto
    let ?s = "s\<lparr>ss_cache := es, ss_open := removeAll (ce_statement e) (ss_open s)\<rparr>"
    have f: "sqlite3_finalize (ce_statement e) (s\<lparr>ss_cache := es\<rparr>) = Some ?s"
      using 1(2) c by (simp add: sqlite3_finalize_def stmts_inv_def held_def)
    have "stmts_inv ?s" using 1(2) c by (auto simp: stmts_inv_def held_def)
    from "1.IH" [OF c True f this] c True f show ?thesis
      by (subst evict_over_capacity.simps) (auto simp: Suc_diff_le less_Suc_eq_le)
  next
    case False
    then show ?thesis using 1(2) by (subst evict_over_capacity.simps) (auto split: list.split)
  qed
qed

lemma cache_insert_ok:
  assumes inv: "stmts_inv (s\<lparr>ss_regular := raw # ss_regular s\<rparr>)" and c: "cache_inv (ss_cache s)"
  shows "\<exists>s'. cache_insert sql raw n s = Some s' \<and> stmts_inv s' \<and> cache_inv (ss_cache s') \<and>
    length (ss_cache s') \<le> STATEMENT_CACHE_CAPACITY \<and> ss_out s' = ss_out s \<and> ss_regular s' = ss_regular s \<and>
    map ce_sql (ss_cache s') = (let l = filter (\<lambda>x. x \<noteq> sql) (map ce_sql (ss_cache s)) @ [sql]
      in drop (length l - STATEMENT_CACHE_CAPACITY) l)"
proof -
  let ?e = "\<lparr>ce_sql = sql, ce_statement = raw, ce_parameter_count = n\<rparr>"
  obtain s1 where s1: "(case sql_position sql (ss_cache s) of None \<Rightarrow> Some s
       | Some i \<Rightarrow> sqlite3_finalize (ce_statement (ss_cache s ! i)) (s\<lparr>ss_cache := remove_at i (ss_cache s)\<rparr>)) = Some s1"
    "stmts_inv (s1\<lparr>ss_cache := ss_cache s1 @ [?e]\<rparr>)" "ss_out s1 = ss_out s" "ss_regular s1 = ss_regular s"
    "map ce_sql (ss_cache s1) = filter (\<lambda>x. x \<noteq> sql) (map ce_sql (ss_cache s))"
  proof (cases "sql_position sql (ss_cache s)")
    case None
    then have "filter (\<lambda>x. x \<noteq> sql) (map ce_sql (ss_cache s)) = map ce_sql (ss_cache s)"
      using sql_position_None [of sql "ss_cache s"] filter_absent by metis
    then show thesis using that [of s] None inv by (auto simp: stmts_inv_def held_def)
  next
    case (Some i)
    note p = sql_position_Some [OF Some]
    obtain ys x zs where sp: "ss_cache s = ys @ x # zs" "i = length ys" "ce_sql x = sql"
      using p by (metis length_take min.absorb4)
    have r: "remove_at i (ss_cache s) = ys @ zs" using remove_at_split [OF sp(1,2)] .
    let ?s = "s\<lparr>ss_cache := ys @ zs, ss_open := removeAll (ce_statement x) (ss_open s)\<rparr>"
    have f: "sqlite3_finalize (ce_statement x) (s\<lparr>ss_cache := ys @ zs\<rparr>) = Some ?s"
      using inv sp(1) by (simp add: sqlite3_finalize_def stmts_inv_def held_def)
    have "sql \<notin> ce_sql ` set (ys @ zs)" using c sp by (auto simp: cache_inv_def)
    then have "filter (\<lambda>x. x \<noteq> sql) (map ce_sql (ss_cache s)) = map ce_sql (ys @ zs)"
      using sp filter_absent [of sql ce_sql "ys @ zs"] by simp
    moreover have "stmts_inv (?s\<lparr>ss_cache := ys @ zs @ [?e]\<rparr>)"
      using inv sp(1) by (auto simp: stmts_inv_def held_def)
    ultimately show thesis using that [of ?s] Some sp r f by simp
  qed
  let ?s2 = "s1\<lparr>ss_cache := ss_cache s1 @ [?e]\<rparr>" and ?l = "filter (\<lambda>x. x \<noteq> sql) (map ce_sql (ss_cache s)) @ [sql]"
  have run: "cache_insert sql raw n s = evict_over_capacity ?s2" using s1(1) by (simp add: cache_insert_def)
  have l: "map ce_sql (ss_cache ?s2) = ?l" using s1(5) by simp
  then have len: "length (ss_cache ?s2) = length ?l" by (metis length_map)
  have d: "distinct ?l" using c by (simp add: cache_inv_def)
  obtain s3 where e: "evict_over_capacity ?s2 = Some s3" "stmts_inv s3"
    "ss_cache s3 = drop (length (ss_cache ?s2) - STATEMENT_CACHE_CAPACITY) (ss_cache ?s2)"
    "ss_out s3 = ss_out s1" "ss_regular s3 = ss_regular s1"
    using evict_ok [OF s1(2)] by auto
  have m: "map ce_sql (ss_cache s3) = drop (length ?l - STATEMENT_CACHE_CAPACITY) ?l"
    unfolding e(3) drop_map [symmetric] len l ..
  then have "cache_inv (ss_cache s3)" using distinct_drop [OF d] by (simp only: cache_inv_def)
  then show ?thesis using run e m s1(3,4) by (auto simp: Let_def)
qed

section \<open>Lives of statements\<close>

datatype 'st stmt_event = Prepare "byte list" "'st prepare_result" | DropStatement 'st
  | PrepareCached "byte list" "'st prepare_result" | DropCached "'st cached_entry" | Discard "'st cached_entry"

fun stmt_call :: "'st stmt_event \<Rightarrow> 'st stmt_state \<Rightarrow> 'st stmt_state option" where
  "stmt_call (Prepare sql res) s = map_option snd (prepare_regular sql res s)"
| "stmt_call (DropStatement raw) s = drop_regular raw s"
| "stmt_call (PrepareCached sql res) s = map_option snd (prepare_cached sql res s)"
| "stmt_call (DropCached e) s = drop_cached e s"
| "stmt_call (Discard e) s = discard e s"

text \<open>What SQLite and the ownership rules of Rust provide: a prepared statement is a new handle, and
  only statements in use are dropped.\<close>

definition fresh_result :: "'st prepare_result \<Rightarrow> 'st stmt_state \<Rightarrow> bool" where
  "fresh_result res s \<longleftrightarrow> (case pr_statement res of None \<Rightarrow> True | Some raw \<Rightarrow> raw \<notin> set (ss_open s))"

fun possible :: "'st stmt_event \<Rightarrow> 'st stmt_state \<Rightarrow> bool" where
  "possible (Prepare sql res) s \<longleftrightarrow> fresh_result res s"
| "possible (DropStatement raw) s \<longleftrightarrow> raw \<in> set (ss_regular s)"
| "possible (PrepareCached sql res) s \<longleftrightarrow> fresh_result res s"
| "possible (DropCached e) s \<longleftrightarrow> e \<in> set (ss_out s)"
| "possible (Discard e) s \<longleftrightarrow> e \<in> set (ss_out s)"

inductive stmt_reach :: "'st stmt_state \<Rightarrow> bool" where
  stmt_init: "stmt_reach stmt_new"
| stmt_step: "stmt_reach s \<Longrightarrow> possible e s \<Longrightarrow> stmt_call e s = Some s' \<Longrightarrow> stmt_reach s'"

definition conn_inv :: "'st stmt_state \<Rightarrow> bool" where
  "conn_inv s \<longleftrightarrow> stmts_inv s \<and> cache_inv (ss_cache s) \<and> length (ss_cache s) \<le> STATEMENT_CACHE_CAPACITY"

lemma prepare_ok:
  assumes inv: "stmts_inv s" and f: "fresh_result res s"
  shows "(\<exists>err s'. prepare sql res s = Some (Inl err, s') \<and> stmts_inv s' \<and> s' = s\<lparr>ss_open := ss_open s'\<rparr>) \<or>
    (\<exists>st. prepare sql res s = Some (Inr st, s\<lparr>ss_open := ce_statement st # ss_open s\<rparr>) \<and>
      ce_sql st = sql \<and> ce_statement st \<notin> set (held s))"
proof (cases "0 \<in> set sql \<or> pr_code res \<noteq> SQLITE_OK \<or> pr_statement res = None")
  case True
  then show ?thesis using inv by (auto simp: prepare_def)
next
  case False
  then obtain raw where raw: "pr_statement res = Some raw" by auto
  have "raw \<notin> set (held s)" using f raw inv by (simp add: fresh_result_def stmts_inv_def)
  moreover have "stmts_inv (s\<lparr>ss_open := removeAll raw (ss_open s)\<rparr>)"
    using inv calculation by (auto simp: stmts_inv_def held_def)
  ultimately show ?thesis
    using False raw by (auto simp: prepare_def Let_def sqlite3_finalize_def statement_new_def)
qed

lemma prepare_cases:
  assumes inv: "conn_inv s"
  obtains (Stale) "\<not> fresh_result res s"
  | (Err) err s' where "prepare sql res s = Some (Inl err, s')" "conn_inv s'"
  | (Ok) st where "prepare sql res s = Some (Inr st, s\<lparr>ss_open := ce_statement st # ss_open s\<rparr>)"
      "ce_sql st = sql" "ce_statement st \<notin> set (held s)"
proof (cases "fresh_result res s")
  case True
  have i: "stmts_inv s" using inv by (simp add: conn_inv_def)
  from prepare_ok [OF i True, of sql] show thesis
  proof (elim disjE exE conjE)
    fix err s'
    assume r: "prepare sql res s = Some (Inl err, s')" "stmts_inv s'" "s' = s\<lparr>ss_open := ss_open s'\<rparr>"
    have "ss_cache s' = ss_cache s" using r(3) by (metis stmt_state.select_convs(1) stmt_state.surjective stmt_state.update_convs(4))
    then show thesis using Err r(1,2) inv by (simp add: conn_inv_def)
  qed (use Ok in blast)
qed (use Stale in blast)

lemma out_entry:
  assumes "stmts_inv s" "e \<in> set (ss_out s)"
  shows "stmts_inv (s\<lparr>ss_out := remove1 e (ss_out s), ss_regular := ce_statement e # ss_regular s\<rparr>)"
proof -
  obtain ys zs where sp: "ss_out s = ys @ e # zs" "e \<notin> set ys" using split_list_first [OF assms(2)] by blast
  then have r: "remove1 e (ss_out s) = ys @ zs" by (simp add: remove1_append)
  show ?thesis using assms(1) unfolding stmts_inv_def held_def r by (auto simp: sp(1))
qed

lemma stmt_call_ok:
  assumes inv: "conn_inv s" and p: "possible e s"
  shows "\<exists>s'. stmt_call e s = Some s' \<and> conn_inv s'"
proof (cases e)
  case (Prepare sql res)
  show ?thesis
  proof (cases rule: prepare_cases [OF inv, where res = res and sql = sql])
    case (2 err s')
    then show ?thesis by (simp add: Prepare prepare_regular_def)
  next
    case (3 st)
    then show ?thesis using inv by (auto simp: Prepare prepare_regular_def conn_inv_def stmts_inv_def held_def)
  qed (use p Prepare in simp)
next
  case (DropStatement raw)
  then show ?thesis
    using inv p by (auto simp: drop_regular_def sqlite3_finalize_def conn_inv_def stmts_inv_def held_def distinct_removeAll)
next
  case (PrepareCached sql res)
  show ?thesis
  proof (cases "cache_take sql (ss_cache s)")
    case None
    show ?thesis
    proof (cases rule: prepare_cases [OF inv, where res = res and sql = sql])
      case (2 err s')
      then show ?thesis by (simp add: None PrepareCached prepare_cached_def)
    next
      case (3 st)
      then show ?thesis
        using inv by (auto simp: None PrepareCached prepare_cached_def conn_inv_def stmts_inv_def held_def)
    qed (use p PrepareCached in simp)
  next
    case (Some ec)
    then obtain x cache ys zs where sp: "ec = (x, cache)" "ss_cache s = ys @ x # zs" "cache = ys @ zs"
      using cache_takeE by (metis surj_pair)
    then show ?thesis
      using inv Some by (auto simp: PrepareCached prepare_cached_def conn_inv_def stmts_inv_def held_def cache_inv_def)
  qed
next
  case (DropCached x)
  let ?s = "s\<lparr>ss_out := remove1 x (ss_out s)\<rparr>"
  have "stmts_inv (?s\<lparr>ss_regular := ce_statement x # ss_regular ?s\<rparr>)" "cache_inv (ss_cache ?s)"
    using out_entry [of s x] inv p DropCached by (simp_all add: conn_inv_def)
  from cache_insert_ok [OF this, of "ce_sql x" "ce_parameter_count x"] show ?thesis
    by (auto simp: DropCached drop_cached_def conn_inv_def)
next
  case (Discard x)
  have i: "stmts_inv (s\<lparr>ss_out := remove1 x (ss_out s), ss_regular := ce_statement x # ss_regular s\<rparr>)"
    using out_entry [of s x] inv p Discard by (simp add: conn_inv_def)
  let ?s = "s\<lparr>ss_out := remove1 x (ss_out s)\<rparr>"
  have m: "ce_statement x \<in> set (ss_open ?s)" using i by (simp add: stmts_inv_def held_def)
  have "conn_inv (?s\<lparr>ss_open := removeAll (ce_statement x) (ss_open ?s)\<rparr>)"
    using i inv by (auto simp: conn_inv_def stmts_inv_def held_def)
  then show ?thesis using finalize_Some [OF m] by (simp add: Discard discard_def)
qed

lemma stmt_reach_inv: "stmt_reach s \<Longrightarrow> conn_inv s"
proof (induction rule: stmt_reach.induct)
  case stmt_init
  show ?case by (simp add: conn_inv_def stmts_inv_def held_def cache_inv_def stmt_new_def cache_new_def)
next
  case (stmt_step s e s')
  then show ?case using stmt_call_ok by fastforce
qed

lemma finalize_entries_ok:
  "set (map ce_statement es) \<subseteq> set (ss_open s) \<Longrightarrow> distinct (map ce_statement es) \<Longrightarrow>
    \<exists>l. finalize_entries es s = Some (s\<lparr>ss_open := l\<rparr>) \<and> set l = set (ss_open s) - set (map ce_statement es)"
proof (induction es arbitrary: s)
  case (Cons e es)
  let ?s = "s\<lparr>ss_open := removeAll (ce_statement e) (ss_open s)\<rparr>"
  have "\<exists>l. finalize_entries es ?s = Some (?s\<lparr>ss_open := l\<rparr>) \<and> set l = set (ss_open ?s) - set (map ce_statement es)"
    by (rule Cons.IH) (use Cons.prems in \<open>simp_all add: subset_Diff_insert\<close>)
  then show ?case using Cons.prems by (auto simp: sqlite3_finalize_def)
next
  case Nil
  show ?case by (rule exI [of _ "ss_open s"]) simp
qed

text \<open>C32. Statements are neither leaked nor finalized twice: in every state a connection can reach,
  every open SQLite statement has exactly one owner, the cache holds at most its capacity and one
  statement per text, every operation that is possible there finalizes only open statements, and once
  no statement is in use closing the connection finalizes all that remain.\<close>

theorem statement_ownership:
  assumes "stmt_reach s"
  shows "distinct (held s) \<and> set (ss_open s) = set (held s) \<and>
    distinct (map ce_sql (ss_cache s)) \<and> length (ss_cache s) \<le> STATEMENT_CACHE_CAPACITY \<and>
    (\<forall>e. possible e s \<longrightarrow> stmt_call e s \<noteq> None) \<and>
    (ss_out s = [] \<and> ss_regular s = [] \<longrightarrow> (\<exists>s'. finalize_all s = Some s' \<and> ss_open s' = []))"
proof -
  have i: "conn_inv s" by (rule stmt_reach_inv [OF assms])
  have "\<exists>s'. finalize_all s = Some s' \<and> ss_open s' = []" if "ss_out s = []" "ss_regular s = []"
    using finalize_entries_ok [of "ss_cache s" "s\<lparr>ss_cache := []\<rparr>"] i that
    by (auto simp: finalize_all_def conn_inv_def stmts_inv_def held_def)
  moreover have "\<forall>e. possible e s \<longrightarrow> stmt_call e s \<noteq> None" using stmt_call_ok [OF i] by fastforce
  ultimately show ?thesis using i by (simp add: conn_inv_def stmts_inv_def cache_inv_def)
qed

definition sample_result :: "nat \<Rightarrow> nat prepare_result" where
  "sample_result raw = \<lparr>pr_code = SQLITE_OK, pr_statement = Some raw, pr_tail = Some [32, 10], pr_errmsg = None, pr_parameter_count = 2\<rparr>"

theorem statement_ownership_witness:
  "\<exists>s'. finalize_all (the (stmt_call (DropCached (statement_new [65] 7 2)) (the (stmt_call (PrepareCached [65] (sample_result 7)) stmt_new)))) = Some s' \<and>
    ss_open s' = []"
proof -
  let ?s = "stmt_new\<lparr>ss_out := [statement_new [65] (7 :: nat) 2], ss_open := [7]\<rparr>"
  have p: "stmt_call (PrepareCached [65] (sample_result 7)) stmt_new = Some ?s"
    by (simp add: prepare_cached_def cache_take_def stmt_new_def cache_new_def prepare_def sample_result_def
        tail_is_empty_def is_ascii_whitespace_def)
  have "stmt_reach ?s"
    by (rule stmt_step [OF stmt_init _ p]) (simp add: fresh_result_def sample_result_def stmt_new_def)
  moreover have "possible (DropCached (statement_new [65] 7 2)) ?s" by simp
  moreover obtain s' where d: "stmt_call (DropCached (statement_new [65] 7 2)) ?s = Some s'" "ss_out s' = []" "ss_regular s' = []"
    by (simp add: drop_cached_def cache_insert_def stmt_new_def cache_new_def statement_new_def evict_over_capacity.simps STATEMENT_CACHE_CAPACITY_def)
  ultimately have "stmt_reach s'" by (blast intro: stmt_step)
  then have "\<exists>s''. finalize_all s' = Some s'' \<and> ss_open s'' = []" using statement_ownership d(2,3) by blast
  then show ?thesis unfolding p d(1) option.sel .
qed

section \<open>Eviction\<close>

text \<open>Using a statement is taking it from the cache or preparing it and dropping it again.\<close>

definition use_statement :: "byte list \<times> 'st prepare_result \<Rightarrow> 'st stmt_state \<Rightarrow> 'st stmt_state option" where
  "use_statement u s = (case prepare_cached (fst u) (snd u) s of
      Some (Inr e, s') \<Rightarrow> drop_cached e s' | Some (Inl _, s') \<Rightarrow> Some s' | None \<Rightarrow> None)"

fun use_all :: "(byte list \<times> 'st prepare_result) list \<Rightarrow> 'st stmt_state \<Rightarrow> 'st stmt_state option" where
  "use_all [] s = Some s"
| "use_all (u # us) s = (case use_statement u s of None \<Rightarrow> None | Some s' \<Rightarrow> use_all us s')"

text \<open>The reference: the texts used, each once at its last use, oldest first, the last ones.\<close>

definition last_n :: "nat \<Rightarrow> 'a list \<Rightarrow> 'a list" where
  "last_n n xs = drop (length xs - n) xs"

definition most_recent :: "nat \<Rightarrow> 'a list \<Rightarrow> 'a list" where
  "most_recent n xs = last_n n (remdups xs)"

lemma last_n_append: "n \<le> length ys \<Longrightarrow> last_n n (xs @ ys) = last_n n ys"
  by (simp add: last_n_def)

lemma filter_one: "distinct xs \<Longrightarrow> length xs \<le> Suc (length (filter (\<lambda>y. y \<noteq> x) xs))"
proof (induction xs)
  case (Cons y xs)
  show ?case
  proof (cases "y = x")
    case True
    then have "filter (\<lambda>z. z \<noteq> x) xs = xs" using Cons.prems by (auto simp: filter_id_conv)
    then show ?thesis by simp
  qed (use Cons in simp)
qed simp

lemma remdups_snoc: "remdups (xs @ [x]) = filter (\<lambda>y. y \<noteq> x) (remdups xs) @ [x]"
  by (induction xs) auto

lemma most_recent_snoc: "most_recent n (xs @ [x]) = last_n n (filter (\<lambda>y. y \<noteq> x) (most_recent n xs) @ [x])"
proof -
  let ?r = "remdups xs" and ?k = "length (remdups xs) - n"
  have e: "most_recent n (xs @ [x]) = last_n n (filter (\<lambda>y. y \<noteq> x) (take ?k ?r) @ filter (\<lambda>y. y \<noteq> x) (drop ?k ?r) @ [x])"
    unfolding most_recent_def remdups_snoc append_assoc [symmetric] filter_append [symmetric] append_take_drop_id ..
  show ?thesis
  proof (cases "?k = 0")
    case True
    then show ?thesis using e by (simp add: most_recent_def last_n_def)
  next
    case False
    then have "n \<le> length (filter (\<lambda>y. y \<noteq> x) (drop ?k ?r) @ [x])"
      using filter_one [of "drop ?k ?r" x] by simp
    from last_n_append [OF this] e show ?thesis by (simp add: most_recent_def last_n_def [of n ?r])
  qed
qed

lemma use_statement_ok:
  assumes inv: "conn_inv s" and idle: "ss_out s = []" "ss_regular s = []" and f: "fresh_result (snd u) s"
    and ok: "0 \<notin> set (fst u)" "pr_code (snd u) = SQLITE_OK" "pr_statement (snd u) \<noteq> None" "tail_is_empty (pr_tail (snd u))"
  shows "\<exists>s'. use_statement u s = Some s' \<and> conn_inv s' \<and> ss_out s' = [] \<and> ss_regular s' = [] \<and>
    map ce_sql (ss_cache s') = last_n STATEMENT_CACHE_CAPACITY (filter (\<lambda>x. x \<noteq> fst u) (map ce_sql (ss_cache s)) @ [fst u])"
proof -
  obtain e s1 where p: "prepare_cached (fst u) (snd u) s = Some (Inr e, s1)" "ss_out s1 = [e]" "ss_regular s1 = []"
    "conn_inv s1" "ce_sql e = fst u"
    "filter (\<lambda>x. x \<noteq> fst u) (map ce_sql (ss_cache s1)) = filter (\<lambda>x. x \<noteq> fst u) (map ce_sql (ss_cache s))"
  proof (cases "cache_take (fst u) (ss_cache s)")
    case None
    obtain raw where raw: "pr_statement (snd u) = Some raw" using ok(3) by blast
    have "raw \<notin> set (held s)" using f raw inv by (simp add: fresh_result_def conn_inv_def stmts_inv_def)
    then show thesis
      using None ok raw idle inv
      by (intro that [of "statement_new (fst u) raw (pr_parameter_count (snd u))"
            "s\<lparr>ss_open := raw # ss_open s, ss_out := [statement_new (fst u) raw (pr_parameter_count (snd u))]\<rparr>"])
        (auto simp: prepare_cached_def prepare_def Let_def statement_new_def conn_inv_def stmts_inv_def held_def)
  next
    case (Some ec)
    obtain x cache where ec: "ec = (x, cache)" by fastforce
    then obtain ys zs where sp: "ss_cache s = ys @ x # zs" "cache = ys @ zs" "ce_sql x = fst u"
      using cache_takeE Some by metis
    show thesis
      by (rule that [of x "s\<lparr>ss_cache := cache, ss_out := [x]\<rparr>"])
        (use Some ec sp idle inv in \<open>auto simp: prepare_cached_def conn_inv_def stmts_inv_def held_def cache_inv_def\<close>)
  qed
  let ?s = "s1\<lparr>ss_out := []\<rparr>"
  have "stmts_inv (?s\<lparr>ss_regular := ce_statement e # ss_regular ?s\<rparr>)" "cache_inv (ss_cache ?s)"
    using out_entry [of s1 e] p(2-4) by (simp_all add: conn_inv_def)
  from cache_insert_ok [OF this, of "ce_sql e" "ce_parameter_count e"] p show ?thesis
    by (auto simp: use_statement_def drop_cached_def conn_inv_def last_n_def Let_def)
qed

lemma evict_open: "evict_over_capacity s = Some s' \<Longrightarrow> set (ss_open s') \<subseteq> set (ss_open s)"
proof (induction s rule: evict_over_capacity.induct)
  case (1 s)
  show ?case
  proof (cases "ss_cache s")
    case Nil
    then show ?thesis using "1.prems" by (subst (asm) evict_over_capacity.simps) simp
  next
    case (Cons e es)
    show ?thesis
    proof (cases "STATEMENT_CACHE_CAPACITY < length (ss_cache s)")
      case True
      let ?s = "s\<lparr>ss_cache := es, ss_open := removeAll (ce_statement e) (ss_open s)\<rparr>"
      have f: "sqlite3_finalize (ce_statement e) (s\<lparr>ss_cache := es\<rparr>) = Some ?s" "evict_over_capacity ?s = Some s'"
        using "1.prems" Cons True
        by (subst (asm) evict_over_capacity.simps; simp add: sqlite3_finalize_def split: if_splits)+
      from "1.IH" [OF Cons True f] show ?thesis by auto
    next
      case False
      then show ?thesis using "1.prems" Cons by (subst (asm) evict_over_capacity.simps) simp
    qed
  qed
qed

lemma cache_insert_open: "cache_insert sql raw n s = Some s' \<Longrightarrow> set (ss_open s') \<subseteq> set (ss_open s)"
  by (fastforce simp: cache_insert_def sqlite3_finalize_def split: option.splits if_splits dest: evict_open)

lemma use_statement_open:
  assumes "use_statement u s = Some s'" "pr_statement (snd u) = Some raw"
  shows "set (ss_open s') \<subseteq> insert raw (set (ss_open s))"
  using assms
  by (fastforce simp: use_statement_def prepare_cached_def prepare_def Let_def drop_cached_def sqlite3_finalize_def
      split: option.splits prod.splits sum.splits if_splits dest!: cache_insert_open)

definition succeeds :: "byte list \<times> 'st prepare_result \<Rightarrow> bool" where
  "succeeds u \<longleftrightarrow> 0 \<notin> set (fst u) \<and> pr_code (snd u) = SQLITE_OK \<and> pr_statement (snd u) \<noteq> None \<and>
     tail_is_empty (pr_tail (snd u))"

definition handles :: "(byte list \<times> 'st prepare_result) list \<Rightarrow> 'st list" where
  "handles us = map (\<lambda>u. the (pr_statement (snd u))) us"

lemma use_all_ok:
  assumes "conn_inv s" "ss_out s = []" "ss_regular s = []" "list_all succeeds us" "distinct (handles us)"
    "set (handles us) \<inter> set (ss_open s) = {}" "map ce_sql (ss_cache s) = most_recent STATEMENT_CACHE_CAPACITY hist"
  shows "\<exists>s'. use_all us s = Some s' \<and> map ce_sql (ss_cache s') = most_recent STATEMENT_CACHE_CAPACITY (hist @ map fst us)"
  using assms
proof (induction us arbitrary: s hist)
  case (Cons u us)
  obtain raw where raw: "pr_statement (snd u) = Some raw" using Cons.prems(4) by (auto simp: succeeds_def)
  have f: "fresh_result (snd u) s" using Cons.prems(6) raw by (simp add: fresh_result_def handles_def)
  obtain s' where u: "use_statement u s = Some s'" "conn_inv s'" "ss_out s' = []" "ss_regular s' = []"
    "map ce_sql (ss_cache s') = last_n STATEMENT_CACHE_CAPACITY (filter (\<lambda>x. x \<noteq> fst u) (map ce_sql (ss_cache s)) @ [fst u])"
    using use_statement_ok [OF Cons.prems(1-3) f] Cons.prems(4) by (auto simp: succeeds_def)
  have "map ce_sql (ss_cache s') = most_recent STATEMENT_CACHE_CAPACITY (hist @ [fst u])"
    using u(5) Cons.prems(7) most_recent_snoc by metis
  moreover have "set (handles us) \<inter> set (ss_open s') = {}"
    using use_statement_open [OF u(1) raw] Cons.prems(5,6) raw by (auto simp: handles_def)
  ultimately show ?case
    using Cons.IH [OF u(2-4), of "hist @ [fst u]"] Cons.prems(4,5) u(1) by (simp add: handles_def)
qed simp

text \<open>C33. The statement cache is a least-recently-used cache: after any sequence of successful uses
  it holds exactly the texts used last, each once, ordered by last use, as many as its capacity.\<close>

theorem statement_cache_lru:
  assumes "list_all succeeds us" "distinct (handles us)"
  shows "\<exists>s. use_all us stmt_new = Some s \<and>
    map ce_sql (ss_cache s) = most_recent STATEMENT_CACHE_CAPACITY (map fst us)"
  using use_all_ok [of stmt_new us "[]"] assms
  by (simp add: stmt_new_def cache_new_def conn_inv_def stmts_inv_def held_def cache_inv_def most_recent_def last_n_def)

theorem statement_cache_lru_witness:
  "\<exists>s. use_all [([65], sample_result 1), ([66], sample_result 2), ([65], sample_result 3)] stmt_new = Some s \<and>
    map ce_sql (ss_cache s) = [[66], [65]]"
proof -
  have "most_recent STATEMENT_CACHE_CAPACITY [[65], [66], [65 :: byte]] = [[66], [65]]"
    by (simp add: most_recent_def last_n_def STATEMENT_CACHE_CAPACITY_def)
  then show ?thesis
    using statement_cache_lru [of "[([65], sample_result 1), ([66], sample_result 2), ([65], sample_result 3)]"]
    by (simp add: succeeds_def sample_result_def handles_def tail_is_empty_def is_ascii_whitespace_def)
qed

end
