(* ===== verification/Overlay_Spec.thy ===== *)
theory Overlay_Spec
  imports Overlay
begin

text \<open>
  The overlay implements the abstract file.  \<open>ov_view n g ov\<close> is the content of an overlay over
  the image \<open>g\<close> when its logical size is \<open>n\<close>; \<open>ov_inv n N g ov\<close> is its invariant over an image
  of size \<open>N\<close>.  The size is a parameter because a growing write prepares the pages of the new
  size before it sets it.  The conjunct on pages that are neither dirty nor masked is what makes
  a commit right: such a page lies inside the published image, so its stored tail is never
  exposed by a larger size.

  The predicate \<open>based V B g\<close> is all the overlay needs of the published image: from a world in
  \<open>B\<close>, a base page reads as the page of \<open>g\<close> and the world stays in \<open>B\<close>.
\<close>

definition based :: "('h \<times> 's) memory_ops \<Rightarrow> (('h, 's, 'z) meta_world_scheme \<Rightarrow> bool) \<Rightarrow> (nat \<Rightarrow> byte) \<Rightarrow> bool" where
  "based V B g \<longleftrightarrow> (\<forall>p w. B w \<longrightarrow> p * PS \<le> u64_max \<longrightarrow>
     (\<exists>w'. read_base_page V p w = (Ok (bytes_at g (p * PS) PS), w') \<and> B w'))"

abbreviation pc :: "nat \<Rightarrow> nat" where
  "pc \<equiv> page_count_for_size"

definition ov_view :: "nat \<Rightarrow> (nat \<Rightarrow> byte) \<Rightarrow> overlay \<Rightarrow> nat \<Rightarrow> byte" where
  "ov_view n g ov i =
    (if n \<le> i then 0
     else case dirty_page ov (i div PS) of Some page \<Rightarrow> page ! (i mod PS)
       | None \<Rightarrow> if ov_page_is_zero_masked ov (i div PS) then 0 else g i)"

definition ov_inv :: "nat \<Rightarrow> nat \<Rightarrow> (nat \<Rightarrow> byte) \<Rightarrow> overlay \<Rightarrow> bool" where
  "ov_inv n N g ov \<longleftrightarrow> n \<le> u64_max \<and> ov_base_size ov = N \<and>
     distinct (map fst (ov_pages ov)) \<and>
     (\<forall>p page. dirty_page ov p = Some page \<longrightarrow> length page = PS \<and> p < pc n) \<and>
     (\<forall>(p, page) \<in> set (ov_clean_pages ov). page = bytes_at g (p * PS) PS) \<and>
     (\<forall>p < pc n. dirty_page ov p = None \<longrightarrow> \<not> ov_page_is_zero_masked ov p \<longrightarrow> min n ((p + 1) * PS) \<le> N) \<and>
     extents_within u64_max (ov_zero_extents ov)"

text \<open>What no page operation changes.\<close>

definition ov_same :: "overlay \<Rightarrow> overlay \<Rightarrow> bool" where
  "ov_same ov ov' \<longleftrightarrow> ov_size ov' = ov_size ov \<and> ov_base_size ov' = ov_base_size ov \<and>
     ov_zero_extents ov' = ov_zero_extents ov \<and> (ov_write_budget ov = None \<longrightarrow> ov_write_budget ov' = None)"

lemma ov_same_refl [simp]: "ov_same ov ov"
  by (simp add: ov_same_def)

lemma ov_same_trans: "ov_same a b \<Longrightarrow> ov_same b c \<Longrightarrow> ov_same a c"
  by (auto simp: ov_same_def)

lemma pc_less_iff: "p < pc n \<longleftrightarrow> p * PS < n"
  by (simp add: page_count_for_size_def less_div_ceil_iff)

lemma pc_mono: "m \<le> n \<Longrightarrow> pc m \<le> pc n"
  by (simp add: page_count_for_size_def div_ceil_mono)

lemma byte_page: "i < n \<Longrightarrow> i div PS < pc n"
  by (simp add: page_count_for_size_def div_less_div_ceil)

lemma partial_page: "n mod PS \<noteq> 0 \<Longrightarrow> n div PS < pc n"
  unfolding pc_less_iff using div_mult_mod_eq [of n PS] by linarith

lemma ov_view_beyond: "n \<le> i \<Longrightarrow> ov_view n g ov i = 0"
  by (simp add: ov_view_def)

lemma blit_zeros:
  fixes f :: "nat \<Rightarrow> byte"
  shows "(\<And>i. off \<le> i \<Longrightarrow> f i = 0) \<Longrightarrow> blit f off (replicate k 0) = f"
  by (auto simp: blit_def fun_eq_iff)

lemma in_page_div: "j < PS \<Longrightarrow> (p * PS + j) div PS = p" "j < PS \<Longrightarrow> (p * PS + j) mod PS = j"
  by (auto intro: div_nat_eqI)

lemma ov_invD:
  assumes "ov_inv n N g ov"
  shows "n \<le> u64_max" "ov_base_size ov = N" "distinct (map fst (ov_pages ov))"
    "dirty_page ov p = Some page \<Longrightarrow> length page = PS \<and> p < pc n"
    "clean_page ov p = Some page \<Longrightarrow> page = bytes_at g (p * PS) PS"
    "p < pc n \<Longrightarrow> dirty_page ov p = None \<Longrightarrow> \<not> ov_page_is_zero_masked ov p \<Longrightarrow> min n ((p + 1) * PS) \<le> N"
    "extents_within u64_max (ov_zero_extents ov)"
  using assms unfolding ov_inv_def clean_page_def by (auto dest!: map_of_SomeD)

lemma ov_inv_new: "N \<le> u64_max \<Longrightarrow> ov_inv N N g (overlay_new N)"
  by (simp add: ov_inv_def overlay_new_def extents_within_def dirty_page_def pc_less_iff)

lemma ov_view_new: "(\<And>i. N \<le> i \<Longrightarrow> g i = 0) \<Longrightarrow> ov_view N g (overlay_new N) = g"
  by (auto simp: ov_view_def overlay_new_def dirty_page_def ov_page_is_zero_masked_def fun_eq_iff)

text \<open>The invariant and the view depend on the listed fields only.\<close>

lemma ov_cong:
  assumes "ov_pages ov' = ov_pages ov" "ov_zero_extents ov' = ov_zero_extents ov"
    "set (ov_clean_pages ov') \<subseteq> set (ov_clean_pages ov)" "ov_base_size ov' = ov_base_size ov"
  shows "ov_inv n N g ov \<Longrightarrow> ov_inv n N g ov'" "ov_view n g ov' = ov_view n g ov"
    "dirty_page ov' = dirty_page ov" "ov_page_is_zero_masked ov' = ov_page_is_zero_masked ov"
  using assms
  by (auto simp: ov_inv_def dirty_page_def ov_page_is_zero_masked_def ov_view_def fun_eq_iff)

section \<open>Dirty pages\<close>

lemma admit_cases:
  obtains (Ok) ov' where "admit_dirty_page (w, ov) = (Ok (), (w, ov'))" "ov_same ov ov'"
      "ov_pages ov' = ov_pages ov" "ov_clean_pages ov' = ov_clean_pages ov"
  | (Err) ov' where "admit_dirty_page (w, ov) = (Err budget_exceeded, (w, ov'))" "ov_same ov ov'"
      "ov_write_budget ov \<noteq> None"
proof (cases "ov_write_budget ov")
  case None
  then show ?thesis using Ok [of ov] by (simp add: admit_dirty_page_def)
next
  case (Some budget)
  define pages st where "pages = length (ov_pages ov) + 1" and "st = wb_stats budget"
  let ?bytes = "saturating_mul pages PS"
  let ?full = "ws_exceeded st \<noteq> None \<or> wb_max_pages budget < pages \<or> wb_max_bytes budget < ?bytes"
  let ?no = "ov\<lparr>ov_write_budget := Some (budget\<lparr>wb_stats := (if ws_exceeded st = None
     then st\<lparr>ws_exceeded := Some (pages \<le> wb_max_pages budget)\<rparr> else st)\<rparr>)\<rparr>"
  let ?yes = "ov\<lparr>ov_write_budget := Some (budget\<lparr>wb_stats := st\<lparr>ws_dirty_pages := max (ws_dirty_pages st) pages,
     ws_peak_bytes := max (ws_peak_bytes st) ?bytes\<rparr>\<rparr>)\<rparr>"
  have run: "admit_dirty_page (w, ov) = (if ?full then (Err budget_exceeded, (w, ?no)) else (Ok (), (w, ?yes)))"
    by (simp add: admit_dirty_page_def Some Let_def pages_def st_def)
  show ?thesis
  proof (cases ?full)
    case True
    then show ?thesis using Err [of ?no] run Some by (simp add: ov_same_def)
  next
    case False
    then show ?thesis using Ok [of ?yes] run Some by (simp add: ov_same_def)
  qed
qed

lemma set_remove_first: "set (remove_first p xs) \<subseteq> set xs"
  by (induction p xs rule: remove_first.induct) auto

lemma dirty_page_append [simp]:
  "dirty_page (ov\<lparr>ov_pages := ov_pages ov @ [(p, page)]\<rparr>) q =
    (case dirty_page ov q of None \<Rightarrow> if q = p then Some page else None | Some pg \<Rightarrow> Some pg)"
  by (auto simp: dirty_page_def map_add_def split: option.splits)

lemma masked_pages_update [simp]:
  "ov_page_is_zero_masked (ov\<lparr>ov_pages := x\<rparr>) = ov_page_is_zero_masked ov"
  by (simp add: ov_page_is_zero_masked_def fun_eq_iff)

lemma dirty_None_iff: "dirty_page ov p = None \<longleftrightarrow> p \<notin> fst ` set (ov_pages ov)"
  by (simp add: dirty_page_def map_of_eq_None_iff)

text \<open>Making a page dirty with its current content changes nothing that can be seen.\<close>

lemma push_page_ok:
  assumes inv: "ov_inv n N g ov" and p: "p < pc n" "dirty_page ov p = None"
    and len: "length page = PS"
    and same: "\<And>j. j < PS \<Longrightarrow> p * PS + j < n \<Longrightarrow> page ! j = ov_view n g ov (p * PS + j)"
  defines "ov' \<equiv> ov\<lparr>ov_pages := ov_pages ov @ [(p, page)]\<rparr>"
  shows "ov_inv n N g ov'" "ov_view n g ov' = ov_view n g ov" "dirty_page ov' p = Some page"
proof -
  show "dirty_page ov' p = Some page" using p by (simp add: ov'_def)
  have "dirty_page ov q = None" if "dirty_page ov' q = None" for q
    using that by (auto simp: ov'_def split: option.splits)
  moreover have "distinct (map fst (ov_pages ov'))"
    using ov_invD(3) [OF inv] p(2) by (simp add: ov'_def dirty_None_iff)
  moreover have "length pg = PS \<and> q < pc n" if "dirty_page ov' q = Some pg" for q pg
    using that ov_invD(4) [OF inv, of q pg] p(1) len by (auto simp: ov'_def split: option.splits if_splits)
  ultimately show "ov_inv n N g ov'"
    using ov_invD(1,2,6,7) [OF inv] inv unfolding ov_inv_def by (simp add: ov'_def)
  show "ov_view n g ov' = ov_view n g ov"
  proof (rule ext)
    fix i
    have "page ! (i mod PS) = ov_view n g ov i" if "i div PS = p" "i < n"
      using same [of "i mod PS"] that by (metis div_mult_mod_eq mod_less_divisor page_sizes_pos(1))
    then show "ov_view n g ov' i = ov_view n g ov i"
      using p(2) by (auto simp: ov_view_def ov'_def split: option.splits)
  qed
qed

lemma base_page_view:
  assumes inv: "ov_inv n N g ov" and p: "dirty_page ov p = None" "\<not> ov_page_is_zero_masked ov p"
    and j: "j < PS" "p * PS + j < n"
  shows "bytes_at g (p * PS) PS ! j = ov_view n g ov (p * PS + j)"
  using p j by (simp add: ov_view_def in_page_div [OF j(1)])

lemma load_dirty_page_cases:
  fixes V :: "('h \<times> 's) memory_ops" and w :: "('h, 's, 'z) meta_world_scheme"
  assumes base: "based V B g" "B w" and inv: "ov_inv n N g ov" and p: "p < pc n"
  obtains (Ok) w' ov' page where "load_dirty_page V p (w, ov) = (Ok (), (w', ov'))" "B w'"
      "ov_inv n N g ov'" "ov_view n g ov' = ov_view n g ov" "ov_same ov ov'" "dirty_page ov' p = Some page"
  | (Err) ov' where "load_dirty_page V p (w, ov) = (Err budget_exceeded, (w, ov'))" "ov_same ov ov'"
      "ov_write_budget ov \<noteq> None"
proof (cases "dirty_page ov p")
  case (Some page)
  then show ?thesis using that(1) [of w ov page] base inv by (simp add: load_dirty_page_def)
next
  case None
  show ?thesis
  proof (cases rule: admit_cases [of w ov])
    case (Err ov')
    then show ?thesis using that(2) None by (simp add: load_dirty_page_def)
  next
    case 1: (Ok ov1)
    have ext: "ov_zero_extents ov1 = ov_zero_extents ov" "ov_base_size ov1 = ov_base_size ov"
      using 1(2) by (simp_all add: ov_same_def)
    note c1 = ov_cong [OF 1(3) ext(1) _ ext(2)]
    have inv1: "ov_inv n N g ov1" "ov_view n g ov1 = ov_view n g ov" "dirty_page ov1 = dirty_page ov"
      using c1(1,2,3) inv 1(4) by simp_all
    define get :: "('h, 's, 'z, byte list) ov_stm" where "get = (if ov_page_is_zero_masked ov1 p then retS zero_page
       else tryS (take_clean_page p) (\<lambda>found.
         case found of Some page \<Rightarrow> retS page | None \<Rightarrow> liftS (read_base_page V p)))"
    have run: "load_dirty_page V p (w, ov) = tryS get (\<lambda>page.
        modify_ov (\<lambda>ov. ov\<lparr>ov_pages := ov_pages ov @ [(p, page)]\<rparr>)) (w, ov1)"
      using None 1(1) by (simp add: load_dirty_page_def get_def)
    obtain w2 ov2 page where g: "get (w, ov1) = (Ok page, (w2, ov2))" "B w2"
      "ov_pages ov2 = ov_pages ov1" "ov_zero_extents ov2 = ov_zero_extents ov1"
      "set (ov_clean_pages ov2) \<subseteq> set (ov_clean_pages ov1)" "ov_same ov1 ov2" "length page = PS"
      "\<And>j. j < PS \<Longrightarrow> p * PS + j < n \<Longrightarrow> page ! j = ov_view n g ov1 (p * PS + j)"
    proof (cases "ov_page_is_zero_masked ov1 p")
      case True
      then show thesis
        using None base(2) inv1(3)
        by (intro that [of zero_page w ov1])
          (auto simp: get_def retS_def zero_page_def ov_view_def in_page_div)
    next
      case False
      have view: "bytes_at g (p * PS) PS ! j = ov_view n g ov1 (p * PS + j)" if "j < PS" "p * PS + j < n" for j
        using base_page_view [OF inv1(1) _ False that] None inv1(3) by simp
      show thesis
      proof (cases "map_of (ov_clean_pages ov1) p")
        case (Some page)
        then have page: "page = bytes_at g (p * PS) PS"
          using ov_invD(5) [OF inv1(1)] by (simp add: clean_page_def)
        show thesis
          by (rule that [of page w "ov1\<lparr>ov_clean_pages := remove_first p (ov_clean_pages ov1)\<rparr>"])
            (use False Some base(2) set_remove_first page view in
              \<open>auto simp: get_def take_clean_page_def retS_def ov_same_def\<close>)
      next
        case miss: None
        have "p * PS \<le> u64_max" using p ov_invD(1) [OF inv] by (simp add: pc_less_iff)
        then obtain w2 where "read_base_page V p w = (Ok (bytes_at g (p * PS) PS), w2)" "B w2"
          using base by (auto simp: based_def)
        then show thesis
          using False miss view by (intro that [of "bytes_at g (p * PS) PS" w2 ov1])
            (auto simp: get_def take_clean_page_def liftS_def)
      qed
    qed
    have base2: "ov_base_size ov2 = ov_base_size ov1" using g(6) by (simp add: ov_same_def)
    note c2 = ov_cong [OF g(3,4,5) base2]
    have d2: "dirty_page ov2 p = None" using c2(3) inv1(3) None by simp
    have s2: "page ! j = ov_view n g ov2 (p * PS + j)" if "j < PS" "p * PS + j < n" for j
      using g(8) [OF that] c2(2) by simp
    note push = push_page_ok [OF c2(1) [OF inv1(1)] p d2 g(7) s2]
    have "load_dirty_page V p (w, ov) = (Ok (), (w2, ov2\<lparr>ov_pages := ov_pages ov2 @ [(p, page)]\<rparr>))"
      unfolding run using g(1) by (simp add: modifyS_def)
    moreover have "ov_same ov (ov2\<lparr>ov_pages := ov_pages ov2 @ [(p, page)]\<rparr>)"
      using ov_same_trans [OF 1(2) g(6)] by (simp add: ov_same_def)
    ultimately show ?thesis
      using that(1) [of w2 "ov2\<lparr>ov_pages := ov_pages ov2 @ [(p, page)]\<rparr>" page] g(2) push c2(2) inv1(2) by simp
  qed
qed

section \<open>Editing a dirty page\<close>

lemma map_of_update_slot_fun: "map_of xs p \<noteq> None \<Longrightarrow> map_of (update_slot p y xs) = (map_of xs)(p \<mapsto> y)"
  by (auto simp: map_of_update_slot fun_eq_iff)

lemma nth_splice:
  assumes "splice a bs page = Some page'"
  shows "length page' = length page"
    "j < length page \<Longrightarrow> page' ! j = (if a \<le> j \<and> j < a + length bs then bs ! (j - a) else page ! j)"
  using assms by (auto simp: splice_def nth_append min_def split: if_splits)

lemma edit_page_run:
  assumes "dirty_page ov p = Some page" "a + length bs \<le> length page"
  obtains ov' page' where "edit_page p a bs (w, ov) = (Ok (), (w, ov'))" "ov_same ov ov'"
    "dirty_page ov' = (dirty_page ov)(p \<mapsto> page')" "map fst (ov_pages ov') = map fst (ov_pages ov)"
    "ov_clean_pages ov' = ov_clean_pages ov" "splice a bs page = Some page'"
proof -
  obtain page' where p': "splice a bs page = Some page'" using assms(2) by (simp add: splice_def)
  let ?ov = "ov\<lparr>ov_pages := update_slot p page' (ov_pages ov)\<rparr>"
  have "dirty_page ?ov = (dirty_page ov)(p \<mapsto> page')"
    using assms(1) map_of_update_slot_fun [of "ov_pages ov" p page'] by (simp add: dirty_page_def fun_eq_iff)
  then show ?thesis
    using that [of ?ov page'] p' assms(1) by (simp add: edit_page_def dirty_page_def ov_same_def)
qed

lemma edited_ok:
  assumes inv: "ov_inv n N g ov" and d: "dirty_page ov p = Some page" and s: "splice a bs page = Some page'"
    and ov': "ov_same ov ov'" "dirty_page ov' = (dirty_page ov)(p \<mapsto> page')"
      "map fst (ov_pages ov') = map fst (ov_pages ov)" "ov_clean_pages ov' = ov_clean_pages ov"
    and fit: "a + length bs \<le> PS"
  shows "ov_inv n N g ov'"
    "ov_view n g ov' = (\<lambda>i. if i < n then blit (ov_view n g ov) (p * PS + a) bs i else 0)"
proof -
  have len: "length page = PS" "p < pc n" using ov_invD(4) [OF inv d] by auto
  have mask: "ov_page_is_zero_masked ov' = ov_page_is_zero_masked ov"
    using ov'(1) by (simp add: ov_same_def ov_page_is_zero_masked_def fun_eq_iff)
  show "ov_inv n N g ov'"
    using inv ov' mask len nth_splice(1) [OF s]
    by (auto simp: ov_inv_def ov_same_def split: if_splits)
  show "ov_view n g ov' = (\<lambda>i. if i < n then blit (ov_view n g ov) (p * PS + a) bs i else 0)"
  proof (rule ext)
    fix i
    show "ov_view n g ov' i = (if i < n then blit (ov_view n g ov) (p * PS + a) bs i else 0)"
    proof (cases "i div PS = p")
      case True
      then have i: "i = p * PS + i mod PS" by (metis div_mult_mod_eq)
      have j: "i mod PS < PS" by simp
      have "p * PS + a \<le> i \<longleftrightarrow> a \<le> i mod PS" "i < p * PS + a + length bs \<longleftrightarrow> i mod PS < a + length bs"
        "i - (p * PS + a) = i mod PS - a"
        using i by linarith+
      then show ?thesis
        using True d nth_splice(2) [OF s, of "i mod PS"] len(1) j
        by (auto simp: ov_view_def ov'(2) blit_def)
    next
      case False
      have "i div PS = p" if "p * PS + a \<le> i" "i < p * PS + a + length bs"
        using that fit by (intro div_nat_eqI) (simp_all add: mult.commute)
      with False have "\<not> (p * PS + a \<le> i \<and> i < p * PS + a + length bs)" by blast
      then show ?thesis
        using False by (auto simp: ov_view_def ov'(2) mask blit_def)
    qed
  qed
qed

text \<open>Loading a page and editing it: the two calls the source makes through a reference.\<close>

lemma load_edit_cases:
  assumes base: "based V B g" "B w" and inv: "ov_inv n N g ov" and p: "p < pc n" and fit: "a + length bs \<le> PS"
  obtains (Ok) w' ov' where
      "tryS (load_dirty_page V p) (\<lambda>_. edit_page p a bs) (w, ov) = (Ok (), (w', ov'))" "B w'"
      "ov_inv n N g ov'" "ov_same ov ov'"
      "ov_view n g ov' = (\<lambda>i. if i < n then blit (ov_view n g ov) (p * PS + a) bs i else 0)"
      "\<exists>page. dirty_page ov' p = Some page \<and> (\<forall>j < length bs. page ! (a + j) = bs ! j)"
  | (Err) ov' where
      "tryS (load_dirty_page V p) (\<lambda>_. edit_page p a bs) (w, ov) = (Err budget_exceeded, (w, ov'))"
      "ov_same ov ov'" "ov_write_budget ov \<noteq> None"
proof (cases rule: load_dirty_page_cases [OF base inv p])
  case (1 w' ov1 page)
  have len: "length page = PS" using ov_invD(4) [OF 1(3,6)] by simp
  obtain ov' page' where e: "edit_page p a bs (w', ov1) = (Ok (), (w', ov'))" "ov_same ov1 ov'"
    "dirty_page ov' = (dirty_page ov1)(p \<mapsto> page')" "map fst (ov_pages ov') = map fst (ov_pages ov1)"
    "ov_clean_pages ov' = ov_clean_pages ov1" "splice a bs page = Some page'"
    using edit_page_run [OF 1(6)] fit len by metis
  note ok = edited_ok [OF 1(3,6) e(6) e(2-5) fit, unfolded 1(4)]
  have "page' ! (a + j) = bs ! j" if "j < length bs" for j
    using nth_splice(2) [OF e(6), of "a + j"] that fit len by simp
  then show ?thesis
    using Ok [of w' ov'] 1 e ok ov_same_trans [OF 1(5) e(2)] by simp
next
  case (2 ov')
  then show ?thesis using Err by simp
qed

section \<open>Growing\<close>

definition ov_keep :: "overlay \<Rightarrow> overlay \<Rightarrow> bool" where
  "ov_keep ov ov' \<longleftrightarrow> ov_size ov' = ov_size ov \<and> ov_base_size ov' = ov_base_size ov \<and>
     (ov_write_budget ov = None \<longrightarrow> ov_write_budget ov' = None)"

lemma ov_keep_trans: "ov_keep a b \<Longrightarrow> ov_keep b c \<Longrightarrow> ov_keep a c"
  by (auto simp: ov_keep_def)

lemma ov_keep_same: "ov_same a b \<Longrightarrow> ov_keep a b"
  by (auto simp: ov_keep_def ov_same_def)

lemma masked_record:
  "ov_page_is_zero_masked (record_zero_extent a b ov) p \<longleftrightarrow> ov_page_is_zero_masked ov p \<or> a \<le> p \<and> p < b"
  by (auto simp: ov_page_is_zero_masked_def record_zero_extent_def page_in_extent_def)

lemma record_fields [simp]:
  "ov_pages (record_zero_extent a b ov) = ov_pages ov" "ov_clean_pages (record_zero_extent a b ov) = ov_clean_pages ov"
  "ov_base_size (record_zero_extent a b ov) = ov_base_size ov" "ov_size (record_zero_extent a b ov) = ov_size ov"
  "ov_write_budget (record_zero_extent a b ov) = ov_write_budget ov"
  "dirty_page (record_zero_extent a b ov) = dirty_page ov"
  by (simp_all add: record_zero_extent_def dirty_page_def fun_eq_iff)

lemma ov_inv_record:
  assumes "ov_inv n N g ov" "b \<le> u64_max"
  shows "ov_inv n N g (record_zero_extent a b ov)"
proof -
  have "extents_within u64_max (ov_zero_extents (record_zero_extent a b ov))"
    using assms by (auto simp: ov_inv_def record_zero_extent_def extents_within_def)
  then show ?thesis
    using assms(1) unfolding ov_inv_def by (simp add: masked_record)
qed

lemma ov_view_record:
  assumes "pc n \<le> a"
  shows "ov_view n g (record_zero_extent a b ov) = ov_view n g ov"
proof (rule ext)
  fix i
  show "ov_view n g (record_zero_extent a b ov) i = ov_view n g ov i"
    using byte_page [of i n] assms by (auto simp: ov_view_def masked_record split: option.splits)
qed

lemma pc_le_u64: "n \<le> u64_max \<Longrightarrow> pc n \<le> u64_max"
  unfolding page_count_for_size_def div_ceil_le_iff [OF page_sizes_pos(1)]
  by (rule le_trans [of _ "u64_max * 1"]) (simp_all add: config_defs)

text \<open>When the pages of the new size are masked and the tail of the old last page is zero, the
  size can be raised without changing the content.\<close>

lemma raise_size:
  assumes inv: "ov_inv old N g ov" and lt: "old < new" and new: "new \<le> u64_max"
    and mask: "\<And>p. pc old \<le> p \<Longrightarrow> p < pc new \<Longrightarrow> ov_page_is_zero_masked ov p"
    and part: "old mod PS = 0 \<or> (\<exists>page. dirty_page ov (old div PS) = Some page \<and>
      (\<forall>j < PS. old mod PS \<le> j \<longrightarrow> old div PS * PS + j < new \<longrightarrow> page ! j = 0))"
  shows "ov_inv new N g ov" "ov_view new g ov = ov_view old g ov"
proof -
  have old_page: "p = old div PS \<or> (p + 1) * PS \<le> old" if "p < pc old" for p
  proof -
    have "p * PS < old" using that by (simp add: pc_less_iff)
    then have "p \<le> old div PS" by (simp add: less_eq_div_iff_mult_less_eq)
    then consider "p = old div PS" | "p + 1 \<le> old div PS" by linarith
    then show ?thesis
      by cases (simp_all only: less_eq_div_iff_mult_less_eq [OF page_sizes_pos(1)] simp_thms)
  qed
  have "min new ((p + 1) * PS) \<le> N"
    if p: "p < pc new" "dirty_page ov p = None" "\<not> ov_page_is_zero_masked ov p" for p
  proof -
    have po: "p < pc old" using mask [of p] p by (meson not_le)
    have "(p + 1) * PS \<le> old"
    proof (cases "p = old div PS")
      case True
      then have "old mod PS = 0" using part p(2) by auto
      then show ?thesis
        using True po by (auto simp: pc_less_iff)
    next
      case False
      then show ?thesis using old_page [OF po] by simp
    qed
    then show ?thesis using ov_invD(6) [OF inv po p(2,3)] lt by simp
  qed
  moreover have "length page = PS \<and> p < pc new" if "dirty_page ov p = Some page" for p page
    using ov_invD(4) [OF inv that] pc_mono [of old new] lt by simp
  ultimately show "ov_inv new N g ov"
    using inv new unfolding ov_inv_def by simp
  show "ov_view new g ov = ov_view old g ov"
  proof (rule ext)
    fix i
    consider "i < old" | "old \<le> i" "i < new" | "new \<le> i" by linarith
    then show "ov_view new g ov i = ov_view old g ov i"
    proof cases
      case 2
      have pn: "i div PS < pc new" using 2 byte_page by simp
      have "ov_view new g ov i = 0"
      proof (cases "i div PS < pc old")
        case True
        then have p: "i div PS = old div PS"
          using 2 old_page [OF True] by (metis div_times_less_eq_dividend dividend_less_div_times
              less_le_trans not_le page_sizes_pos(1) add.commute mult.commute mult_Suc Suc_eq_plus1)
        then have "old mod PS \<noteq> 0"
          using True div_mult_mod_eq [of old PS] unfolding pc_less_iff by (simp only: p)
        then obtain page where pg: "dirty_page ov (old div PS) = Some page"
          "\<forall>j < PS. old mod PS \<le> j \<longrightarrow> old div PS * PS + j < new \<longrightarrow> page ! j = 0"
          using part by auto
        have "old div PS * PS + i mod PS = i" using p by (metis div_mult_mod_eq)
        moreover have "old mod PS \<le> i mod PS" using p 2 by (metis add_le_cancel_left div_mult_mod_eq)
        ultimately have "page ! (i mod PS) = 0" using pg(2) 2 by simp
        then show ?thesis using 2 pg(1) p by (simp add: ov_view_def)
      next
        case False
        then have "dirty_page ov (i div PS) = None"
          using ov_invD(4) [OF inv] by (cases "dirty_page ov (i div PS)") auto
        then show ?thesis using mask [of "i div PS"] False pn 2 by (simp add: ov_view_def)
      qed
      then show ?thesis using 2 by (simp add: ov_view_def)
    qed (use lt in \<open>auto simp: ov_view_def\<close>)
  qed
qed

lemma zero_old_partial_cases:
  assumes base: "based V B g" "B w" and inv: "ov_inv old N g ov" and lt: "old < new" and new: "new \<le> u64_max"
    and mask: "\<And>p. pc old \<le> p \<Longrightarrow> p < pc new \<Longrightarrow> ov_page_is_zero_masked ov p"
  obtains (Ok) w' ov' where "zero_old_partial_page V old new (w, ov) = (Ok (), (w', ov'))" "B w'"
      "ov_inv new N g ov'" "ov_view new g ov' = ov_view old g ov" "ov_same ov ov'"
  | (Err) e ov' where "zero_old_partial_page V old new (w, ov) = (Err e, (w, ov'))" "ov_same ov ov'"
      "ov_write_budget ov \<noteq> None \<or> u64_max < old + PS"
proof (cases "old mod PS = 0")
  case True
  then show ?thesis
    using Ok [of w ov] raise_size [OF inv lt new mask] base(2)
    by (simp add: zero_old_partial_page_def retS_def)
next
  case False
  let ?p = "old div PS" and ?a = "old mod PS"
  let ?e = "if new < ?p * PS + PS then new mod PS else PS"
  have old: "old = ?p * PS + ?a" "?a < PS" by simp_all
  have p: "?p < pc old" by (rule partial_page [OF False])
  have e: "?a \<le> ?e" "?e \<le> PS" "\<And>j. j < PS \<Longrightarrow> ?p * PS + j < new \<Longrightarrow> j < ?e"
  proof -
    have "new div PS = ?p" if "new < ?p * PS + PS"
    proof -
      have "?p * PS \<le> new" using lt div_times_less_eq_dividend [of old PS] by linarith
      with that show ?thesis by (intro div_nat_eqI) (simp_all add: mult.commute)
    qed
    then have m: "new = ?p * PS + new mod PS" if "new < ?p * PS + PS" using that by (metis div_mult_mod_eq)
    have le: "?a \<le> new mod PS" "?p * PS + j < new \<Longrightarrow> j < new mod PS" if "new < ?p * PS + PS" for j
      using m [OF that] lt old(1) by linarith+
    show "?a \<le> ?e" "?e \<le> PS" "\<And>j. j < PS \<Longrightarrow> ?p * PS + j < new \<Longrightarrow> j < ?e"
      using le old(2) by simp_all
  qed
  show ?thesis
  proof (cases "?p * PS + PS \<le> u64_max")
    case fits: False
    then have "?p * PS \<le> u64_max" "u64_max < ?p * PS + PS" "u64_max < old + PS"
      using ov_invD(1) [OF inv] old(1) by linarith+
    then show ?thesis
      using False by (intro Err [of OffsetOverflow ov])
        (simp_all add: zero_old_partial_page_def checked_mul_def checked_add_def checked_addS_def
          page_no_def errS_def Let_def)
  next
    case fits: True
    have unfold: "zero_old_partial_page V old new (w, ov) = tryS (load_dirty_page V ?p)
        (\<lambda>_. edit_page ?p ?a (replicate (?e - ?a) 0)) (w, ov)"
    proof -
      have "min new (?p * PS + PS) = ?p * PS + PS \<longleftrightarrow> \<not> new < ?p * PS + PS" by auto
      moreover have "new < ?p * PS + PS \<Longrightarrow> min new (?p * PS + PS) = new" by simp
      ultimately show ?thesis
        using False fits e(1)
        by (auto simp: zero_old_partial_page_def checked_mul_def checked_addS_Some page_no_def
            page_offset_def Let_def)
    qed
    have fit: "?a + length (replicate (?e - ?a) (0 :: byte)) \<le> PS" using e by simp
    show ?thesis
    proof (cases rule: load_edit_cases [OF base inv p fit])
      case (1 w' ov')
      have v: "ov_view old g ov' = ov_view old g ov"
      proof (rule ext)
        fix i
        show "ov_view old g ov' i = ov_view old g ov i"
          using 1(5) old(1) by (auto simp: ov_view_def blit_def)
      qed
      obtain page where pg: "dirty_page ov' ?p = Some page"
        "\<forall>j < length (replicate (?e - ?a) (0 :: byte)). page ! (?a + j) = replicate (?e - ?a) 0 ! j"
        using 1(6) by blast
      have "page ! j = 0" if "j < PS" "?a \<le> j" "?p * PS + j < new" for j
        using pg(2) e(3) [OF that(1,3)] that(2) by (auto dest: spec [of _ "j - ?a"])
      moreover have "ov_page_is_zero_masked ov' = ov_page_is_zero_masked ov"
        using 1(4) by (simp add: ov_same_def ov_page_is_zero_masked_def fun_eq_iff)
      ultimately show ?thesis
        using Ok [of w' ov'] raise_size [OF 1(3) lt new] mask pg(1) 1 v unfold by auto
    next
      case (2 ov')
      then show ?thesis using Err unfold by simp
    qed
  qed
qed

lemma zero_new_partial_cases:
  assumes base: "based V B g" "B w" and inv: "ov_inv new N g ov" and lt: "old < new"
    and zero: "\<And>i. old \<le> i \<Longrightarrow> ov_view new g ov i = 0"
  obtains (Ok) w' ov' where "zero_new_partial_page V old new (w, ov) = (Ok (), (w', ov'))" "B w'"
      "ov_inv new N g ov'" "ov_view new g ov' = ov_view new g ov" "ov_same ov ov'"
  | (Err) ov' where "zero_new_partial_page V old new (w, ov) = (Err budget_exceeded, (w, ov'))" "ov_same ov ov'"
      "ov_write_budget ov \<noteq> None"
proof (cases "new mod PS = 0 \<or> new div PS = old div PS")
  case True
  then show ?thesis using Ok [of w ov] inv base(2) by (simp add: zero_new_partial_page_def page_no_def retS_def)
next
  case False
  let ?p = "new div PS"
  have new: "new = ?p * PS + new mod PS" "new mod PS < PS" by simp_all
  have p: "?p < pc new" using False by (intro partial_page) simp
  have "old div PS < ?p" using False lt by (simp add: div_le_mono le_neq_implies_less)
  then have "old < ?p * PS" by (simp add: div_less_iff_less_mult)
  then have z: "ov_view new g ov i = 0" if "?p * PS \<le> i" for i using zero that by simp
  have fit: "0 + length (replicate (new mod PS) (0 :: byte)) \<le> PS" by simp
  have unfold: "zero_new_partial_page V old new (w, ov) = tryS (load_dirty_page V ?p)
      (\<lambda>_. edit_page ?p 0 (replicate (new mod PS) 0)) (w, ov)"
    using False by (simp add: zero_new_partial_page_def page_no_def page_offset_def)
  show ?thesis
  proof (cases rule: load_edit_cases [OF base inv p fit])
    case (1 w' ov')
    have "ov_view new g ov' = ov_view new g ov"
    proof (rule ext)
      fix i show "ov_view new g ov' i = ov_view new g ov i"
        using 1(5) z blit_zeros [of "?p * PS" "ov_view new g ov"] by (simp add: ov_view_beyond)
    qed
    then show ?thesis using Ok [of w' ov'] 1 unfold by simp
  next
    case (2 ov')
    then show ?thesis using Err unfold by simp
  qed
qed

end
