(* ===== verification/Overlay_Refine.thy ===== *)
theory Overlay_Refine
  imports Overlay_Spec
begin

text \<open>
  The operations of the overlay refine the abstract file: a successful read, write or truncate
  acts on \<open>ov_content\<close> as the abstract operation, and each succeeds unless the write budget is
  exhausted or the offset is within a page of the end of the 64-bit range.
\<close>

section \<open>Growing\<close>

lemma grow_to_cases:
  assumes base: "based V B g" "B w" and inv: "ov_inv old N g ov" and new: "new \<le> u64_max"
  obtains (Ok) w' ov' where "grow_to V old new (w, ov) = (Ok (), (w', ov'))" "B w'"
      "ov_inv (max old new) N g ov'" "ov_view (max old new) g ov' = ov_view old g ov" "ov_keep ov ov'"
  | (Err) e w' ov' where "grow_to V old new (w, ov) = (Err e, (w', ov'))" "B w'" "ov_keep ov ov'"
      "ov_write_budget ov \<noteq> None \<or> u64_max < old + PS"
proof (cases "old < new")
  case False
  then show ?thesis using Ok [of w ov] inv base(2) by (simp add: grow_to_def retS_def ov_keep_def max_def)
next
  case lt: True
  let ?ov1 = "record_zero_extent (pc old) (pc new) ov"
  have k1: "ov_keep ov ?ov1" by (simp add: ov_keep_def)
  have run: "grow_to V old new (w, ov) = tryS (zero_old_partial_page V old new)
      (\<lambda>_. zero_new_partial_page V old new) (w, ?ov1)"
    using lt by (simp add: grow_to_def zero_newly_active_partial_pages_def record_newly_active_zero_pages_def)
  have inv1: "ov_inv old N g ?ov1" by (rule ov_inv_record [OF inv pc_le_u64 [OF new]])
  have view1: "ov_view old g ?ov1 = ov_view old g ov" by (rule ov_view_record) simp
  show ?thesis
  proof (cases rule: zero_old_partial_cases [OF base inv1 lt new])
    case (2 w1 ov2)
    have zero: "ov_view new g ov2 i = 0" if "old \<le> i" for i using 2(4) that by (simp add: ov_view_beyond)
    show ?thesis
    proof (cases rule: zero_new_partial_cases [OF base(1) 2(2,3) lt zero])
      case (2 w' ov')
      then show ?thesis
        using Ok [of w' ov'] \<open>zero_old_partial_page _ _ _ _ = _\<close> \<open>ov_view new g ov2 = _\<close> view1 lt run
          ov_keep_trans [OF k1 ov_keep_trans [OF ov_keep_same ov_keep_same], OF \<open>ov_same ?ov1 ov2\<close>]
        by (simp add: max_def)
    next
      case (3 ov')
      then show ?thesis
        using Err [of budget_exceeded w1 ov'] \<open>zero_old_partial_page _ _ _ _ = _\<close> \<open>B w1\<close> run
          ov_keep_trans [OF k1 ov_keep_trans [OF ov_keep_same ov_keep_same], OF \<open>ov_same ?ov1 ov2\<close>]
          \<open>ov_same ?ov1 ov2\<close>
        by (auto simp: ov_same_def)
    qed
  next
    case (3 e ov')
    then show ?thesis
      using Err [of e w ov'] base(2) run ov_keep_trans [OF k1 ov_keep_same [OF 3(2)]] by simp
  qed (simp add: masked_record)
qed

section \<open>Writing\<close>

lemma set_page_ok:
  assumes inv: "ov_inv n N g ov" and p: "p < pc n" and len: "length page = PS"
    and ov': "ov_same ov ov'" "dirty_page ov' = (dirty_page ov)(p \<mapsto> page)"
      "distinct (map fst (ov_pages ov'))" "ov_clean_pages ov' = ov_clean_pages ov"
  shows "ov_inv n N g ov'"
    "ov_view n g ov' = (\<lambda>i. if i < n then blit (ov_view n g ov) (p * PS) page i else 0)"
proof -
  have mask: "ov_page_is_zero_masked ov' = ov_page_is_zero_masked ov"
    using ov'(1) by (simp add: ov_same_def ov_page_is_zero_masked_def fun_eq_iff)
  show "ov_inv n N g ov'"
    using inv ov' mask len p by (auto simp: ov_inv_def ov_same_def split: if_splits)
  show "ov_view n g ov' = (\<lambda>i. if i < n then blit (ov_view n g ov) (p * PS) page i else 0)"
  proof (rule ext)
    fix i
    have i: "i = i div PS * PS + i mod PS" "i mod PS < PS" by simp_all
    have "i div PS = p \<longleftrightarrow> p * PS \<le> i \<and> i < p * PS + PS"
    proof
      assume "i div PS = p"
      with i show "p * PS \<le> i \<and> i < p * PS + PS" by (metis add_less_cancel_left le_add1)
    next
      assume "p * PS \<le> i \<and> i < p * PS + PS"
      then show "i div PS = p" by (intro div_nat_eqI) (simp_all add: mult.commute)
    qed
    moreover have "i mod PS = i - p * PS" if "i div PS = p"
      using that div_mult_mod_eq [of i PS] by auto
    ultimately show "ov_view n g ov' i = (if i < n then blit (ov_view n g ov) (p * PS) page i else 0)"
      using len by (auto simp: ov_view_def ov'(2) mask blit_def)
  qed
qed

lemma write_full_page_cases:
  assumes inv: "ov_inv n N g ov" and p: "p < pc n" and len: "length bs = PS"
  obtains (Ok) ov' where "write_full_page p bs (w, ov) = (Ok (), (w, ov'))" "ov_inv n N g ov'" "ov_keep ov ov'"
      "ov_view n g ov' = (\<lambda>i. if i < n then blit (ov_view n g ov) (p * PS) bs i else 0)"
  | (Err) ov' where "write_full_page p bs (w, ov) = (Err budget_exceeded, (w, ov'))" "ov_keep ov ov'"
      "ov_write_budget ov \<noteq> None"
proof (cases "dirty_page ov p")
  case (Some page)
  let ?ov = "ov\<lparr>ov_pages := update_slot p bs (ov_pages ov)\<rparr>"
  have s: "ov_same ov ?ov" by (simp add: ov_same_def)
  have d: "dirty_page ?ov = (dirty_page ov)(p \<mapsto> bs)"
    using Some map_of_update_slot_fun [of "ov_pages ov" p bs] by (simp add: dirty_page_def fun_eq_iff)
  have "length page = PS" using ov_invD(4) [OF inv Some] by simp
  then show ?thesis
    using Ok [of ?ov] set_page_ok [OF inv p len s d] ov_invD(3) [OF inv] Some len ov_keep_same [OF s]
    by (simp add: write_full_page_def modifyS_def)
next
  case None
  show ?thesis
  proof (cases rule: admit_cases [of w ov])
    case (Err ov')
    then show ?thesis using that(2) None ov_keep_same by (simp add: write_full_page_def)
  next
    case 1: (Ok ov1)
    let ?ov = "ov1\<lparr>ov_pages := ov_pages ov1 @ [(p, bs)]\<rparr>"
    have s: "ov_same ov ?ov" using 1(2) by (simp add: ov_same_def)
    have d1: "dirty_page ov1 = dirty_page ov" using 1(3) by (simp add: dirty_page_def fun_eq_iff)
    have d: "dirty_page ?ov = (dirty_page ov)(p \<mapsto> bs)"
      using None d1 by (auto simp: fun_eq_iff split: option.splits)
    have "distinct (map fst (ov_pages ?ov))"
      using ov_invD(3) [OF inv] None 1(3) by (simp add: dirty_None_iff)
    then show ?thesis
      using that(1) [of ?ov] set_page_ok [OF inv p len s d] 1 None ov_keep_same [OF s]
      by (simp add: write_full_page_def modifyS_def)
  qed
qed

lemma cut_blit:
  fixes f :: "nat \<Rightarrow> byte"
  assumes "\<And>i. n \<le> i \<Longrightarrow> f i = 0" "off + length bs \<le> n"
  shows "(\<lambda>i. if i < n then blit f off bs i else 0) = blit f off bs"
  using assms by (auto simp: blit_def fun_eq_iff)

lemma blit_take_step:
  assumes "k + c \<le> length bs"
  shows "blit (blit f off (take k bs)) (off + k) (slice bs k c) = blit f off (take (k + c) bs)"
proof -
  have "take (k + c) bs = take k bs @ slice bs k c" by (simp add: slice_def take_add)
  then show ?thesis using assms blit_append [of f off "take k bs" "slice bs k c"] by simp
qed

lemma ov_write_loop_cases:
  assumes base: "based V B g" and fits: "off + length bs \<le> n"
  shows "B w \<Longrightarrow> ov_inv n N g ov \<Longrightarrow> ov_view n g ov = blit f off (take k bs) \<Longrightarrow> k \<le> length bs \<Longrightarrow>
    (\<exists>w' ov'. ov_write_loop V off bs k (w, ov) = (Ok (), (w', ov')) \<and> B w' \<and> ov_inv n N g ov' \<and>
       ov_view n g ov' = blit f off bs \<and> ov_keep ov ov') \<or>
    (\<exists>w' ov'. ov_write_loop V off bs k (w, ov) = (Err budget_exceeded, (w', ov')) \<and> B w' \<and>
       ov_keep ov ov' \<and> ov_write_budget ov \<noteq> None)"
proof (induction "length bs - k" arbitrary: k w ov rule: less_induct)
  case less
  show ?case
  proof (cases "length bs \<le> k")
    case True
    then show ?thesis using less.prems by (simp add: ov_write_loop.simps retS_def ov_keep_def)
  next
    case False
    let ?a = "off + k" and ?c = "min (PS - (off + k) mod PS) (length bs - k)"
    let ?p = "(off + k) div PS" and ?i = "(off + k) mod PS"
    have c: "0 < ?c" "?i + ?c \<le> PS" "k + ?c \<le> length bs"
      using False page_step(2) [of ?a] by linarith+
    have a: "?a \<le> u64_max" "?a < n" using False fits ov_invD(1) [OF less.prems(2)] by linarith+
    have p: "?p < pc n" by (rule byte_page [OF a(2)])
    have fit: "?i + length (slice bs k ?c) \<le> PS" using c by simp
    have run: "ov_write_loop V off bs k (w, ov) =
        tryS (tryS (load_dirty_page V ?p) (\<lambda>_. edit_page ?p ?i (slice bs k ?c)))
          (\<lambda>_. ov_write_loop V off bs (k + ?c)) (w, ov)"
      using False a(1) by (simp add: ov_write_loop.simps [of V off bs k] checked_addS_Some Let_def
          page_no_def tryS_assoc)
    have addr: "?p * PS + ?i = ?a" by simp
    show ?thesis
    proof (cases rule: load_edit_cases [OF base less.prems(1,2) p fit])
      case (1 w1 ov1)
      have "ov_view n g ov1 = blit (ov_view n g ov) ?a (slice bs k ?c)"
        unfolding 1(5) addr using fits c(3) by (intro cut_blit) (auto simp: ov_view_beyond)
      also have "\<dots> = blit f off (take (k + ?c) bs)"
        unfolding less.prems(3) by (rule blit_take_step [OF c(3)])
      finally have v: "ov_view n g ov1 = blit f off (take (k + ?c) bs)" .
      have lt: "length bs - (k + ?c) < length bs - k" using c(1) False by linarith
      have "ov_write_budget ov = None \<Longrightarrow> ov_write_budget ov1 = None" "ov_keep ov ov1"
        using 1(4) ov_keep_same by (auto simp: ov_same_def)
      then show ?thesis
        using less.hyps [OF lt 1(2,3) v c(3)] 1(1) ov_keep_trans unfolding run by auto
    next
      case (2 ov')
      then show ?thesis using run less.prems(1) ov_keep_same by auto
    qed
  qed
qed

section \<open>The operations\<close>

definition ov_ok :: "(('h, 's, 'z) meta_world_scheme \<Rightarrow> bool) \<Rightarrow> nat \<Rightarrow> (nat \<Rightarrow> byte) \<Rightarrow>
    ('h, 's, 'z) meta_world_scheme \<times> overlay \<Rightarrow> bool" where
  "ov_ok B N g wo \<longleftrightarrow> B (fst wo) \<and> ov_inv (ov_size (snd wo)) N g (snd wo)"

definition ov_content :: "(nat \<Rightarrow> byte) \<Rightarrow> overlay \<Rightarrow> afile" where
  "ov_content g ov = (ov_size ov, ov_view (ov_size ov) g ov)"

lemma ov_content_wf: "afile_wf (ov_content g ov)"
  by (simp add: afile_wf_def ov_content_def ov_view_beyond)

lemma ov_size_update [simp]:
  "dirty_page (ov\<lparr>ov_size := x\<rparr>) = dirty_page ov" "ov_page_is_zero_masked (ov\<lparr>ov_size := x\<rparr>) = ov_page_is_zero_masked ov"
  "ov_view n g (ov\<lparr>ov_size := x\<rparr>) = ov_view n g ov" "ov_inv n N g (ov\<lparr>ov_size := x\<rparr>) = ov_inv n N g ov"
  by (auto simp: dirty_page_def ov_page_is_zero_masked_def ov_view_def ov_inv_def fun_eq_iff)

text \<open>The reasons for which an operation that reaches offset \<open>e\<close> may fail.\<close>

definition may_fail :: "overlay \<Rightarrow> nat \<Rightarrow> bool" where
  "may_fail ov e \<longleftrightarrow> ov_write_budget ov \<noteq> None \<or> u64_max < ov_size ov + PS \<or> u64_max < e"

lemma ov_put_cases:
  assumes base: "based V B g" and w: "B w" and inv: "ov_inv n N g ov" and fits: "off + length bs \<le> n"
    and view: "ov_view n g ov = f"
  obtains (Ok) w' ov' where "(if length bs = PS \<and> off mod PS = 0 then write_full_page (page_no off) bs
        else ov_write_loop V off bs 0) (w, ov) = (Ok (), (w', ov'))" "B w'" "ov_inv n N g ov'"
      "ov_view n g ov' = blit f off bs" "ov_keep ov ov'"
  | (Err) w' ov' where "(if length bs = PS \<and> off mod PS = 0 then write_full_page (page_no off) bs
        else ov_write_loop V off bs 0) (w, ov) = (Err budget_exceeded, (w', ov'))" "B w'" "ov_keep ov ov'"
      "ov_write_budget ov \<noteq> None"
proof (cases "length bs = PS \<and> off mod PS = 0")
  case True
  then have off: "off div PS * PS = off" by auto
  have p: "off div PS < pc n" using True fits page_sizes_pos(1) unfolding pc_less_iff off by linarith
  have cut: "(\<lambda>i. if i < n then blit (ov_view n g ov) off bs i else 0) = blit (ov_view n g ov) off bs"
    by (rule cut_blit [OF _ fits]) (simp add: ov_view_beyond)
  show ?thesis
  proof (cases rule: write_full_page_cases [OF inv p conjunct1 [OF True], of w])
    case (1 ov')
    have "ov_view n g ov' = blit f off bs" using 1(4) cut view by (simp only: off)
    then show ?thesis using Ok [of w ov'] True w 1 by (simp add: page_no_def)
  next
    case (2 ov')
    then show ?thesis using Err [of w ov'] True w by (simp add: page_no_def)
  qed
next
  case False
  then have r: "(if length bs = PS \<and> off mod PS = 0 then write_full_page (page_no off) bs
        else ov_write_loop V off bs 0) (w, ov) = ov_write_loop V off bs 0 (w, ov)" by auto
  have "ov_view n g ov = blit f off (take 0 bs)" using view by simp
  from ov_write_loop_cases [OF base fits w inv this] show ?thesis
    using Ok Err unfolding r by blast
qed

lemma ov_write_at_cases:
  assumes base: "based V B g" and ok: "ov_ok B N g (w, ov)"
  obtains (Ok) w' ov' where "ov_write_at V off bs (w, ov) = (Ok (), (w', ov'))" "ov_ok B N g (w', ov')"
      "ov_content g ov' = afile_write off bs (ov_content g ov)" "ov_write_budget ov = None \<Longrightarrow> ov_write_budget ov' = None"
  | (Err) e w' ov' where "ov_write_at V off bs (w, ov) = (Err e, (w', ov'))" "B w'"
      "ov_size ov' = ov_size ov" "ov_base_size ov' = ov_base_size ov" "may_fail ov (off + length bs)"
proof -
  from ok have w: "B w" and inv: "ov_inv (ov_size ov) N g ov" by (simp_all add: ov_ok_def)
  let ?old = "ov_size ov" and ?e = "off + length bs" and ?n = "max (ov_size ov) (off + length bs)"
  consider "bs = []" | "bs \<noteq> []" "u64_max < ?e" | "bs \<noteq> []" "?e \<le> u64_max" by linarith
  then show ?thesis
  proof cases
    case 1
    then show ?thesis using Ok [of w ov] ok by (simp add: ov_write_at_def afile_write_def)
  next
    case 2
    then show ?thesis using Err [of OffsetOverflow w ov] w
      by (simp add: ov_write_at_def checked_addS_def checked_add_def errS_def may_fail_def)
  next
    case 3
    show ?thesis
    proof (cases rule: grow_to_cases [OF base w inv 3(2)])
      case (2 er w1 ov1)
      then show ?thesis
        using Err [of er w1 ov1] 3 by (auto simp: ov_write_at_def checked_addS_Some ov_keep_def may_fail_def)
    next
      case (1 w1 ov1)
      let ?put = "if length bs = PS \<and> off mod PS = 0 then write_full_page (page_no off) bs else ov_write_loop V off bs 0"
      have run: "ov_write_at V off bs (w, ov) = tryS ?put
          (\<lambda>_. modify_ov (\<lambda>ov. ov\<lparr>ov_size := max (ov_size ov) ?e\<rparr>)) (w1, ov1)"
        using 3 1(1) by (simp add: ov_write_at_def checked_addS_Some)
      show ?thesis
      proof (cases rule: ov_put_cases [OF base 1(2,3) _ 1(4), of off bs])
        case (2 w' ov')
        have k: "ov_keep ov ov'" by (rule ov_keep_trans [OF 1(5) 2(5)])
        let ?ov = "ov'\<lparr>ov_size := max (ov_size ov') ?e\<rparr>"
        have sz: "ov_size ov' = ?old" using k by (simp add: ov_keep_def)
        have "ov_write_at V off bs (w, ov) = (Ok (), (w', ?ov))" unfolding run using 2(1) by (simp add: modifyS_def)
        then show ?thesis
          by (rule Ok) (use 2 3 k sz in \<open>auto simp: ov_ok_def ov_content_def afile_write_def ov_keep_def\<close>)
      next
        case (3 w' ov')
        have k: "ov_keep ov ov'" by (rule ov_keep_trans [OF 1(5) 3(3)])
        have "ov_write_at V off bs (w, ov) = (Err budget_exceeded, (w', ov'))" unfolding run using 3(1) by simp
        then show ?thesis
          by (rule Err) (use 3 k 1(5) in \<open>auto simp: ov_keep_def may_fail_def\<close>)
      qed simp
    qed
  qed
qed

lemma dirty_page_drop:
  "dirty_page (drop_pages_from keep ov) p = (if p < keep then dirty_page ov p else None)"
proof -
  have "map_of (filter (\<lambda>(q, _). q < keep) xs) p = (if p < keep then map_of xs p else None)" for xs :: "(nat \<times> byte list) list"
    by (induction xs) auto
  then show ?thesis by (simp add: dirty_page_def drop_pages_from_def)
qed

lemma drop_fields [simp]:
  "ov_size (drop_pages_from keep ov) = ov_size ov" "ov_base_size (drop_pages_from keep ov) = ov_base_size ov"
  "ov_zero_extents (drop_pages_from keep ov) = ov_zero_extents ov"
  "ov_write_budget (drop_pages_from keep ov) = ov_write_budget ov"
  "ov_page_is_zero_masked (drop_pages_from keep ov) = ov_page_is_zero_masked ov"
  by (simp_all add: drop_pages_from_def ov_page_is_zero_masked_def fun_eq_iff)

text \<open>Dropping the pages beyond a smaller size cuts the content off there.\<close>

lemma cut_size:
  assumes inv: "ov_inv m N g ov" and le: "n \<le> m"
  shows "ov_inv n N g (drop_pages_from (pc n) ov)"
    "ov_view n g (drop_pages_from (pc n) ov) = (\<lambda>i. if i < n then ov_view m g ov i else 0)"
proof -
  have pcle: "pc n \<le> pc m" by (rule pc_mono [OF le])
  have "min n ((p + 1) * PS) \<le> N"
    if "p < pc n" "dirty_page ov p = None" "\<not> ov_page_is_zero_masked ov p" for p
    using ov_invD(6) [OF inv _ that(2,3)] that(1) pcle le by simp
  moreover have "distinct (map fst (ov_pages (drop_pages_from (pc n) ov)))"
    using ov_invD(3) [OF inv] by (simp add: drop_pages_from_def distinct_map_filter)
  moreover have "\<forall>(p, page) \<in> set (ov_clean_pages (drop_pages_from (pc n) ov)). page = bytes_at g (p * PS) PS"
    using inv by (auto simp: ov_inv_def drop_pages_from_def)
  ultimately show "ov_inv n N g (drop_pages_from (pc n) ov)"
    using ov_invD(1,2,4,7) [OF inv] le by (auto simp: ov_inv_def dirty_page_drop split: if_splits)
  show "ov_view n g (drop_pages_from (pc n) ov) = (\<lambda>i. if i < n then ov_view m g ov i else 0)"
    using le byte_page by (auto simp: ov_view_def dirty_page_drop fun_eq_iff)
qed

lemma ov_truncate_prepare:
  assumes base: "based V B g" and w: "B w" and inv: "ov_inv old N g ov" and n: "n \<le> u64_max"
  obtains (Ok) w' ov' where "(if old < n then grow_to V old n
        else if n < old then modify_ov (record_truncated_zero_pages n old) else retS ()) (w, ov) = (Ok (), (w', ov'))"
      "B w'" "ov_inv (max old n) N g ov'" "ov_keep ov ov'"
      "\<And>i. i < n \<Longrightarrow> ov_view (max old n) g ov' i = ov_view old g ov i"
  | (Err) e w' ov' where "(if old < n then grow_to V old n
        else if n < old then modify_ov (record_truncated_zero_pages n old) else retS ()) (w, ov) = (Err e, (w', ov'))"
      "B w'" "ov_write_budget ov \<noteq> None \<or> u64_max < old + PS"
proof (cases "old < n")
  case True
  show ?thesis
    by (cases rule: grow_to_cases [OF base w inv n]) (use True Ok Err in auto)
next
  case False
  let ?ov = "record_zero_extent (pc n) (pc old) ov"
  have "ov_view old g ?ov i = ov_view old g ov i" if "i < n" for i
    using byte_page [OF that] by (auto simp: ov_view_def masked_record split: option.splits)
  moreover have "ov_inv old N g ?ov"
    by (rule ov_inv_record [OF inv pc_le_u64 [OF ov_invD(1) [OF inv]]])
  ultimately have down: thesis if "n < old"
    using Ok [of w ?ov] that w by (simp add: modifyS_def record_truncated_zero_pages_def ov_keep_def max_def)
  have "n = old \<Longrightarrow> ?thesis" using Ok [of w ov] w inv by (simp add: retS_def ov_keep_def)
  with down False show ?thesis by (cases "n = old") auto
qed

lemma ov_truncate_cases:
  assumes base: "based V B g" and ok: "ov_ok B N g (w, ov)" and n: "n \<le> u64_max"
  obtains (Ok) w' ov' where "ov_truncate V n (w, ov) = (Ok (), (w', ov'))" "ov_ok B N g (w', ov')"
      "ov_content g ov' = afile_truncate n (ov_content g ov)" "ov_write_budget ov = None \<Longrightarrow> ov_write_budget ov' = None"
  | (Err) e w' ov' where "ov_truncate V n (w, ov) = (Err e, (w', ov'))" "B w'" "may_fail ov n"
proof -
  from ok have w: "B w" and inv: "ov_inv (ov_size ov) N g ov" by (simp_all add: ov_ok_def)
  let ?old = "ov_size ov"
  show ?thesis
  proof (cases rule: ov_truncate_prepare [OF base w inv n])
    case (2 e w' ov')
    then show ?thesis
      by (intro Err [of e w' ov']) (auto simp: ov_truncate_def Let_def may_fail_def tryS_def)
  next
    case (1 w1 ov1)
    define ov2 where "ov2 = drop_pages_from (pc n) (ov1\<lparr>ov_size := n\<rparr>)"
    have inv2: "ov_inv n N g ov2" and view2: "ov_view n g ov2 = (\<lambda>i. if i < n then ov_view ?old g ov i else 0)"
      using cut_size [of "max ?old n" N g "ov1\<lparr>ov_size := n\<rparr>" n] 1(3,5) by (auto simp: ov2_def)
    have sz: "ov_size ov2 = n" "ov_write_budget ov = None \<Longrightarrow> ov_write_budget ov2 = None"
      using 1(4) by (auto simp: ov2_def ov_keep_def)
    have run: "ov_truncate V n (w, ov) = (if n = 0 \<or> n mod PS = 0 then retS ()
        else tryS (load_dirty_page V (page_no n)) (\<lambda>_.
          edit_page (page_no n) (page_offset n) (replicate (PS - page_offset n) 0))) (w1, ov2)"
      using 1(1) by (simp add: ov_truncate_def Let_def ov2_def modifyS_def tryS_def)
    have content: "ov_content g ov' = afile_truncate n (ov_content g ov)"
      if "ov_size ov' = n" "ov_view n g ov' = ov_view n g ov2" for ov'
      using that view2 by (auto simp: ov_content_def afile_truncate_def fun_eq_iff)
    show ?thesis
    proof (cases "n mod PS = 0")
      case True
      then show ?thesis
        using Ok [of w1 ov2] run 1(2) inv2 sz content by (simp add: retS_def ov_ok_def)
    next
      case False
      have p: "n div PS < pc n" by (rule partial_page [OF False])
      have fit: "n mod PS + length (replicate (PS - n mod PS) (0 :: byte)) \<le> PS"
        using page_step(2) [of n] by simp
      have run': "ov_truncate V n (w, ov) = tryS (load_dirty_page V (n div PS))
          (\<lambda>_. edit_page (n div PS) (n mod PS) (replicate (PS - n mod PS) 0)) (w1, ov2)"
        using run False by (auto simp: page_no_def page_offset_def)
      show ?thesis
      proof (cases rule: load_edit_cases [OF base 1(2) inv2 p fit])
        case (1 w' ov')
        have "ov_view n g ov' = ov_view n g ov2"
          using 1(5) blit_zeros [of n "ov_view n g ov2"] by (simp add: ov_view_beyond fun_eq_iff)
        then show ?thesis
          using Ok [of w' ov'] run' 1 sz content by (simp add: ov_ok_def ov_same_def)
      next
        case (2 ov')
        have "may_fail ov n" using 2(3) sz(2) unfolding may_fail_def by metis
        then show ?thesis using Err [of budget_exceeded w1 ov'] run' 2(1) \<open>B w1\<close> by simp
      qed
    qed
  qed
qed

section \<open>Reading\<close>

lemma ov_read_slice_ok:
  assumes base: "based V B g" and w: "B w" and inv: "ov_inv n N g ov"
    and c: "0 < c" "i + c \<le> PS" "p * PS + i + c \<le> n"
  shows "\<exists>w' ov'. ov_read_slice V p i c (w, ov) = (Ok (bytes_at (ov_view n g ov) (p * PS + i) c), (w', ov')) \<and>
    B w' \<and> ov_inv n N g ov' \<and> ov_view n g ov' = ov_view n g ov \<and> ov_same ov ov' \<and> ov_pages ov' = ov_pages ov"
proof -
  have dv: "(p * PS + i + j) div PS = p \<and> (p * PS + i + j) mod PS = i + j" if "j < c" for j
    using in_page_div [of "i + j" p] that c(2) by (simp add: add.assoc)
  have view: "bytes_at (ov_view n g ov) (p * PS + i) c = (case dirty_page ov p of Some page \<Rightarrow> slice page i c
      | None \<Rightarrow> if ov_page_is_zero_masked ov p then replicate c 0 else slice (bytes_at g (p * PS) PS) i c)"
    using dv c ov_invD(4) [OF inv]
    by (intro nth_equalityI) (auto simp: ov_view_def slice_bytes_at split: option.splits)
  have same: ?thesis if "ov_read_slice V p i c (w, ov) = (Ok (bytes_at (ov_view n g ov) (p * PS + i) c), (w, ov))"
    using that w inv by auto
  show ?thesis
  proof (cases "dirty_page ov p")
    case (Some page)
    then show ?thesis
      using same view c ov_invD(4) [OF inv Some] by (simp add: ov_read_slice_def slice_of_page_def retS_def)
  next
    case clean: None
    show ?thesis
    proof (cases "ov_page_is_zero_masked ov p")
      case True
      then show ?thesis using same view clean by (simp add: ov_read_slice_def)
    next
      case base_page: False
      show ?thesis
      proof (cases "clean_page ov p")
        case (Some page)
        then show ?thesis
          using same view c clean base_page ov_invD(5) [OF inv Some]
          by (simp add: ov_read_slice_def slice_of_page_def retS_def)
      next
        case None
        have "p * PS \<le> u64_max" using c ov_invD(1) [OF inv] by linarith
        then obtain w' where r: "read_base_page V p w = (Ok (bytes_at g (p * PS) PS), w')" "B w'"
          using base w by (auto simp: based_def)
        let ?ov = "insert_clean_page p (bytes_at g (p * PS) PS) ov"
        have f: "ov_pages ?ov = ov_pages ov" "ov_zero_extents ?ov = ov_zero_extents ov" "ov_base_size ?ov = ov_base_size ov"
          "ov_same ov ?ov" "set (ov_clean_pages ?ov) \<subseteq> insert (p, bytes_at g (p * PS) PS) (set (ov_clean_pages ov))"
          by (auto simp: insert_clean_page_def ov_same_def Let_def dest: set_tl split: if_splits)
        have "ov_inv n N g ?ov"
          using inv f(1,2,3,5) by (auto simp: ov_inv_def dirty_page_def ov_page_is_zero_masked_def)
        moreover have "ov_view n g ?ov = ov_view n g ov"
          using f(1,2) by (simp add: ov_view_def dirty_page_def ov_page_is_zero_masked_def fun_eq_iff)
        moreover have "ov_read_slice V p i c (w, ov) = (Ok (bytes_at (ov_view n g ov) (p * PS + i) c), (w', ?ov))"
          using clean base_page None r view c
          by (simp add: ov_read_slice_def liftS_def slice_of_page_def modifyS_def retS_def tryS_def)
        ultimately show ?thesis using r(2) f(1,4) by auto
      qed
    qed
  qed
qed

definition ov_reading :: "(('h, 's, 'z) meta_world_scheme \<Rightarrow> bool) \<Rightarrow> nat \<Rightarrow> (nat \<Rightarrow> byte) \<Rightarrow> overlay \<Rightarrow>
    ('h, 's, 'z) meta_world_scheme \<times> overlay \<Rightarrow> bool" where
  "ov_reading B N g ov0 wo \<longleftrightarrow> B (fst wo) \<and> ov_inv (ov_size ov0) N g (snd wo) \<and>
     ov_view (ov_size ov0) g (snd wo) = ov_view (ov_size ov0) g ov0 \<and> ov_same ov0 (snd wo) \<and>
     ov_pages (snd wo) = ov_pages ov0"

lemma ov_read_at_ok:
  assumes base: "based V B g" and ok: "ov_ok B N g (w, ov)"
  shows "\<exists>w' ov'. ov_read_at V off n (w, ov) = (Ok (afile_read off n (ov_content g ov)), (w', ov')) \<and>
    ov_ok B N g (w', ov') \<and> ov_content g ov' = ov_content g ov \<and> ov_same ov ov' \<and> ov_pages ov' = ov_pages ov"
proof -
  let ?S = "ov_size ov"
  let ?v = "ov_view ?S g ov"
  from ok have inv: "ov_inv ?S N g ov" and start: "ov_reading B N g ov (w, ov)"
    by (simp_all add: ov_ok_def ov_reading_def)
  have slice: "\<exists>wo'. ov_read_slice V p i c wo = (Ok (bytes_at ?v (p * PS + i) c), wo') \<and> ov_reading B N g ov wo'"
    if "ov_reading B N g ov wo" "0 < c" "i + c \<le> PS" "p * PS + i + c \<le> ?S" for p i c wo
    using ov_read_slice_ok [OF base, of "fst wo" ?S N "snd wo" c i p] that ov_same_trans
    by (auto simp: ov_reading_def)
  have range: "\<exists>wo'. ov_read_range V off k (w, ov) = (Ok (bytes_at ?v off k), wo') \<and> ov_reading B N g ov wo'"
    if "off + k \<le> ?S" for k
    using read_range_loop_ok [where I = "ov_reading B N g ov" and rs = "ov_read_slice V" and k = 0,
        OF slice ov_invD(1) [OF inv] that start] by (simp add: ov_read_range_def)
  have final: ?thesis if "ov_read_at V off n (w, ov) = (Ok (afile_read off n (ov_content g ov)), wo')"
    "ov_reading B N g ov wo'" for wo'
    using that by (cases wo') (auto simp: ov_reading_def ov_ok_def ov_content_def ov_same_def)
  have beyond: "bytes_at ?v a m = replicate m 0" if "?S \<le> a" for a m
    using that by (auto intro!: nth_equalityI simp: ov_view_beyond)
  consider "n = 0" | "0 < n" "?S \<le> off" | "0 < n" "off < ?S" by linarith
  then show ?thesis
  proof cases
    case 1
    then show ?thesis using final [OF _ start] by (simp add: ov_read_at_def afile_read_def)
  next
    case 2
    then show ?thesis
      using final [OF _ start] beyond by (simp add: ov_read_at_def afile_read_def ov_content_def)
  next
    case 3
    let ?k = "min n (?S - off)"
    have "off + ?k \<le> ?S" using 3 by linarith
    then obtain wo' where r: "ov_read_range V off ?k (w, ov) = (Ok (bytes_at ?v off ?k), wo')" "ov_reading B N g ov wo'"
      using range by blast
    have "bytes_at ?v off n = bytes_at ?v off ?k @ replicate (n - ?k) 0"
      using bytes_at_split [of ?k n ?v off] beyond [of "off + ?k" "n - ?k"] 3 by (cases "n \<le> ?S - off") auto
    then have "ov_read_at V off n (w, ov) = (Ok (afile_read off n (ov_content g ov)), wo')"
      using r(1) 3 by (auto simp: ov_read_at_def afile_read_def ov_content_def Let_def retS_def)
    then show ?thesis using final r(2) by blast
  qed
qed

end
