(* ===== verification/Commit.thy ===== *)
theory Commit
  imports Stable_Blob Overlay_Refine
begin

text \<open>
  Committing an overlay in place publishes exactly its content: afterwards the image is the
  file the overlay showed.  A commit that fails does so before its first write, and never
  panics when the state is well-formed.
\<close>

section \<open>Zero extents after a commit\<close>

lemma add_overlay_extents_ok:
  "add_overlay_extents limit xs es = Inr es' \<Longrightarrow>
    (zero_masked es' p \<longleftrightarrow> zero_masked es p \<or> zero_masked xs p) \<and>
    (normal_extents es \<longrightarrow> normal_extents es') \<and>
    (extents_within n es \<longrightarrow> extents_within n xs \<longrightarrow> extents_within n es')"
proof (induction limit xs es rule: add_overlay_extents.induct)
  case (2 limit x xs es)
  let ?es = "add_zero_extent_without_limit es (start_page x) (end_page x)"
  from 2(2) have r: "add_overlay_extents limit xs ?es = Inr es'"
    and e: "enforce_temporary_zero_extent_limit ?es limit = Inr ()"
    by (auto simp: Let_def split: sum.splits)
  from 2(1) [OF refl e r] show ?case
    by (auto simp: page_in_extent_def add_zero_extent_normal extents_within_def [of n "x # xs"]
        intro: extents_within_add) (auto simp: extents_within_def)
qed auto

lemma subtract_dirty_pages_ok:
  assumes "final \<le> u64_max"
  shows "(zero_masked (subtract_dirty_pages final ps es) p \<longleftrightarrow>
      zero_masked es p \<and> \<not> (p < final \<and> p \<in> fst ` set ps)) \<and>
    (normal_extents es \<longrightarrow> normal_extents (subtract_dirty_pages final ps es)) \<and>
    (extents_within n es \<longrightarrow> extents_within n (subtract_dirty_pages final ps es))"
proof (induction ps arbitrary: es)
  case (Cons x rest)
  obtain q page where x: "x = (q, page)" by (cases x)
  have sat: "saturating_add q (Suc 0) = Suc q" if "q < final"
    using that assms by (simp add: saturating_add_def)
  have one: "q \<le> p \<and> p < q + 1 \<longleftrightarrow> p = q" by auto
  show ?case
  proof (cases "q < final")
    case True
    then have "subtract_dirty_pages final (x # rest) es =
        subtract_dirty_pages final rest (subtract_zero_extent_without_limit es q (q + 1))"
      by (simp add: x sat)
    then show ?thesis
      using Cons.IH [of "subtract_zero_extent_without_limit es q (q + 1)"] True one
        subtract_zero_extent_normal [of es q "q + 1"] extents_within_subtract [of n es q "q + 1"]
      by (simp add: x del: Suc_eq_plus1) blast
  next
    case False
    then show ?thesis using Cons.IH [of es] by (auto simp: x)
  qed
qed simp

definition commit_mask :: "superblock \<Rightarrow> overlay \<Rightarrow> nat \<Rightarrow> bool" where
  "commit_mask b ov p \<longleftrightarrow>
    (zero_masked (zero_extents b) p \<or> db_size b < ov_size ov \<and> page_count_for_size (db_size b) \<le> p \<and> p < pc (ov_size ov) \<or>
     ov_size ov < db_size b \<and> pc (ov_size ov) \<le> p \<and> p < pc (db_size b) \<or> ov_page_is_zero_masked ov p) \<and>
    \<not> (p < pc (ov_size ov) \<and> dirty_page ov p \<noteq> None)"

lemma zero_extents_after_commit_ok:
  assumes es: "zero_extents_after_commit b ov (pc (ov_size ov)) = Inr es"
    and u: "ov_size ov \<le> u64_max" "db_size b \<le> u64_max" and n: "normal_extents (zero_extents b)"
    and wi: "extents_within u64_max (zero_extents b)" "extents_within u64_max (ov_zero_extents ov)"
  shows "zero_masked es p \<longleftrightarrow> commit_mask b ov p"
    and "normal_extents es" and "extents_within u64_max es" and "length es \<le> MAX_ZERO_EXTENTS"
proof -
  let ?final = "pc (ov_size ov)"
  let ?xs = "size_change_extents b ov ?final @ ov_zero_extents ov"
  obtain limit es1 where a: "add_overlay_extents limit ?xs (zero_extents b) = Inr es1"
    and es1: "es = subtract_dirty_pages ?final (ov_pages ov) es1" and lim: "enforce_zero_extent_limit es = Inr ()"
    using es by (auto simp: zero_extents_after_commit_def Let_def split: if_splits sum.splits)
  have w: "extents_within u64_max ?xs"
    using wi(2) pc_le_u64 [OF u(1)] pc_le_u64 [OF u(2)] by (auto simp: extents_within_def size_change_extents_def)
  note A = add_overlay_extents_ok [OF a]
  note S = subtract_dirty_pages_ok [OF pc_le_u64 [OF u(1)], of "ov_pages ov" es1, folded es1]
  have "zero_masked ?xs p \<longleftrightarrow> db_size b < ov_size ov \<and> page_count_for_size (db_size b) \<le> p \<and> p < ?final \<or>
      ov_size ov < db_size b \<and> pc (ov_size ov) \<le> p \<and> p < pc (db_size b) \<or> ov_page_is_zero_masked ov p"
    by (auto simp: page_in_extent_def ov_page_is_zero_masked_def size_change_extents_def)
  then show "zero_masked es p \<longleftrightarrow> commit_mask b ov p"
    using A [of p] S [of p] unfolding commit_mask_def dirty_None_iff by blast
  show "normal_extents es" "extents_within u64_max es" using A S n wi(1) w by blast+
  show "length es \<le> MAX_ZERO_EXTENTS" using lim by (simp add: enforce_zero_extent_limit_def split: if_splits)
qed

section \<open>Reserving and writing the pages\<close>

lemma page_physical_offset_cases:
  "page_physical_offset b p w = (if db_base_offset b + p * PS \<le> u64_max
     then (Ok (db_base_offset b + p * PS), w) else (Err OffsetOverflow, w))"
  by (auto simp: page_physical_offset_def checked_mul_def checked_addS_def checked_add_def retS_def errS_def)

lemma required_end_cases:
  obtains (Ok) re' where "required_end_loop b final ps re w = (Ok re', w)" "re \<le> re'"
      "\<And>p page. (p, page) \<in> set ps \<Longrightarrow> p < final \<Longrightarrow> db_base_offset b + p * PS + PS \<le> re'"
      "re \<le> u64_max \<Longrightarrow> re' \<le> u64_max"
  | (Err) "required_end_loop b final ps re w = (Err OffsetOverflow, w)"
proof (induction ps arbitrary: re thesis)
  case Nil
  then show ?case by (simp add: retS_def)
next
  case (Cons x rest)
  obtain p page where x: "x = (p, page)" by (cases x)
  let ?a = "db_base_offset b + p * PS"
  consider "final \<le> p" | "p < final" "u64_max < ?a + PS" | "p < final" "?a + PS \<le> u64_max" by linarith
  then show ?case
  proof cases
    case 1
    have step: "required_end_loop b final (x # rest) re w = required_end_loop b final rest re w"
      using 1 by (simp add: x)
    show ?thesis
    proof (rule Cons.IH [of re])
      fix re'
      assume r: "required_end_loop b final rest re w = (Ok re', w)" "re \<le> re'"
        "\<And>p page. (p, page) \<in> set rest \<Longrightarrow> p < final \<Longrightarrow> db_base_offset b + p * PS + PS \<le> re'"
        "re \<le> u64_max \<Longrightarrow> re' \<le> u64_max"
      show ?thesis by (rule Cons.prems(1) [of re']) (use r step 1 x in auto)
    next
      assume "required_end_loop b final rest re w = (Err OffsetOverflow, w)"
      then show ?thesis using Cons.prems(2) step by simp
    qed
  next
    case 2
    then have "required_end_loop b final (x # rest) re w = (Err OffsetOverflow, w)"
      by (simp add: x tryS_def page_physical_offset_cases checked_addS_def checked_add_def errS_def)
    then show ?thesis by (rule Cons.prems(2))
  next
    case 3
    have step: "required_end_loop b final (x # rest) re w = required_end_loop b final rest (max re (?a + PS)) w"
      using 3 by (simp add: x tryS_def page_physical_offset_cases checked_addS_Some retS_def)
    show ?thesis
    proof (rule Cons.IH [of "max re (?a + PS)"])
      fix re'
      assume r: "required_end_loop b final rest (max re (?a + PS)) w = (Ok re', w)" "max re (?a + PS) \<le> re'"
        "\<And>p page. (p, page) \<in> set rest \<Longrightarrow> p < final \<Longrightarrow> db_base_offset b + p * PS + PS \<le> re'"
        "max re (?a + PS) \<le> u64_max \<Longrightarrow> re' \<le> u64_max"
      show ?thesis
        by (rule Cons.prems(1) [of re']) (use r step 3 x in auto)
    next
      assume "required_end_loop b final rest (max re (?a + PS)) w = (Err OffsetOverflow, w)"
      then show ?thesis using Cons.prems(2) step by simp
    qed
  qed
qed

fun blit_pages :: "nat \<Rightarrow> nat \<Rightarrow> (nat \<times> byte list) list \<Rightarrow> (nat \<Rightarrow> byte) \<Rightarrow> (nat \<Rightarrow> byte)" where
  "blit_pages base final [] f = f"
| "blit_pages base final ((p, page) # rest) f =
    blit_pages base final rest (if p < final then blit f (base + p * PS) page else f)"

lemma blit_pages_below: "a < base \<Longrightarrow> blit_pages base final ps f a = f a"
  by (induction base final ps f rule: blit_pages.induct) (auto simp: blit_out)

lemma blit_pages_nth:
  assumes "distinct (map fst ps)" "\<forall>(p, page) \<in> set ps. length page = PS"
  shows "blit_pages base final ps f (base + i) = (case map_of ps (i div PS) of
      Some page \<Rightarrow> if i div PS < final then page ! (i mod PS) else f (base + i) | None \<Rightarrow> f (base + i))"
  using assms
proof (induction ps arbitrary: f)
  case (Cons x rest)
  obtain p page where x: "x = (p, page)" by (cases x)
  have len: "length page = PS" using Cons.prems(2) x by simp
  have i: "i = i div PS * PS + i mod PS" "i mod PS < PS" by simp_all
  have in_page: "base + p * PS \<le> base + i \<and> base + i < base + p * PS + length page \<longleftrightarrow> i div PS = p"
  proof
    assume "base + p * PS \<le> base + i \<and> base + i < base + p * PS + length page"
    then show "i div PS = p" using len by (intro div_nat_eqI) (simp_all add: mult.commute)
  next
    assume "i div PS = p"
    then show "base + p * PS \<le> base + i \<and> base + i < base + p * PS + length page"
      using i len by (metis add_le_cancel_left add_less_cancel_left le_add1 add.assoc)
  qed
  have off: "base + i - (base + p * PS) = i mod PS" if "i div PS = p" using that i by simp
  have "blit f (base + p * PS) page (base + i) = (if i div PS = p then page ! (i mod PS) else f (base + i))"
    using in_page off by (simp add: blit_def)
  moreover have "map_of rest p = None" using Cons.prems(1) x by (simp add: map_of_eq_None_iff)
  ultimately show ?case
    using Cons.IH Cons.prems x by (auto split: option.splits)
qed simp

end
