(* ===== verification/Commit_Publish.thy ===== *)
theory Commit_Publish
  imports Commit
begin

text \<open>
  A commit publishes the content of the overlay: when it succeeds, the image is the file the
  overlay showed and the bytes outside the database are untouched; when it fails, the world is
  the one it started from, because every check comes before the first write.  The panic of
  \<open>commit_overlay_in_place\<close> is unreachable.
\<close>

section \<open>What a commit stores\<close>

lemma storable_fields:
  assumes "valid_sb b"
  shows "normal_extents (zero_extents b)" "extents_within u64_max (zero_extents b)" "db_size b \<le> u64_max"
    "db_base_offset b \<le> u64_max" "last_tx_id b \<le> u64_max"
  using assms by (auto simp: valid_sb_def sb_ok_def validate_zero_extents_iff extents_within_def)

definition committed :: "bool \<Rightarrow> nat \<Rightarrow> zero_extent list \<Rightarrow> superblock \<Rightarrow> superblock" where
  "committed advance_tx n es b = (if advance_tx then bump_tx (with_db_image (db_base_offset b) n es b)
     else with_db_image (db_base_offset b) n es b)"

lemma storable_committed:
  assumes "valid_sb b" "n \<le> u64_max" "normal_extents es" "extents_within u64_max es" "length es \<le> MAX_ZERO_EXTENTS"
  shows "storable_sb (committed advance_tx n es b)"
  using assms pc_le_u64 [OF assms(2)]
  by (auto simp: committed_def storable_sb_def valid_sb_def sb_ok_def bump_tx_def with_db_image_def
      clear_checksum_refresh_def validate_zero_extents_iff extents_within_def saturating_add_def
      CURRENT_LAYOUT_VERSION_def u64_max_def)

lemma committed_fields [simp]:
  "db_size (committed adv n es b) = n" "db_base_offset (committed adv n es b) = db_base_offset b"
  "zero_extents (committed adv n es b) = es" "page_count (committed adv n es b) = page_count_for_size n"
  "import_base_offset (committed adv n es b) = import_base_offset b"
  "import_total_size (committed adv n es b) = import_total_size b"
  "import_written_until (committed adv n es b) = import_written_until b"
  "import_expected_checksum (committed adv n es b) = import_expected_checksum b"
  "sb_checksum (committed adv n es b) = sb_checksum b"
  by (simp_all add: committed_def bump_tx_def with_db_image_def clear_checksum_refresh_def)

text \<open>The published image is the view of the overlay.\<close>

lemma committed_image:
  assumes inv: "ov_inv (ov_size ov) (db_size b) (img_byte b f) ov" and b': "db_size b' = ov_size ov"
    "db_base_offset b' = db_base_offset b" and mask: "\<And>p. zero_masked (zero_extents b') p \<longleftrightarrow> commit_mask b ov p"
    and f': "\<And>i. i < ov_size ov \<Longrightarrow> dirty_page ov (i div PS) = None \<Longrightarrow> i < db_size b \<Longrightarrow>
        f' (db_base_offset b + i) = f (db_base_offset b + i)"
    and dirty: "\<And>i page. i < ov_size ov \<Longrightarrow> dirty_page ov (i div PS) = Some page \<Longrightarrow>
        f' (db_base_offset b + i) = page ! (i mod PS)"
  shows "img_byte b' f' = ov_view (ov_size ov) (img_byte b f) ov"
proof
  fix i
  let ?n = "ov_size ov" and ?p = "i div PS"
  consider "?n \<le> i" | page where "i < ?n" "dirty_page ov ?p = Some page"
    | "i < ?n" "dirty_page ov ?p = None" "ov_page_is_zero_masked ov ?p"
    | "i < ?n" "dirty_page ov ?p = None" "\<not> ov_page_is_zero_masked ov ?p"
    by (metis not_le option.exhaust)
  then show "img_byte b' f' i = ov_view ?n (img_byte b f) ov i"
  proof cases
    case 1
    then show ?thesis by (simp add: img_byte_def ov_view_def b')
  next
    case 2
    then show ?thesis
      using dirty [OF 2] byte_page [OF 2(1)] by (simp add: img_byte_def ov_view_def b' mask commit_mask_def)
  next
    case 3
    then show ?thesis by (simp add: img_byte_def ov_view_def b' mask commit_mask_def)
  next
    case 4
    have p: "?p < pc ?n" by (rule byte_page [OF 4(1)])
    have "i < (?p + 1) * PS" using dividend_less_times_div [of PS i] by (simp add: mult.commute add.commute)
    then have i: "i < db_size b" using ov_invD(6) [OF inv p 4(2,3)] 4(1) by linarith
    then have "?p < pc (db_size b)" by (rule byte_page)
    then have "commit_mask b ov ?p \<longleftrightarrow> zero_masked (zero_extents b) ?p"
      using 4 p by (auto simp: commit_mask_def)
    then show ?thesis
      using 4 i f' [OF 4(1,2) i] by (simp add: img_byte_def ov_view_def b' mask)
  qed
qed

section \<open>Writing the pages\<close>

context db_mem
begin

lemma write_pages_loop_ok:
  assumes "active_mem w = Some v" "inv v"
    "\<forall>(p, page) \<in> set ps. length page = PS \<and> (p < final \<longrightarrow> db_base_offset b + p * PS + PS \<le> cap v)"
  shows "\<exists>v'. write_pages_loop V b final ps w = (Ok (), put_mem v' w) \<and> inv v' \<and>
    mem_size V v' = mem_size V v \<and> byte_of v' = blit_pages (db_base_offset b) final ps (byte_of v)"
  using assms
proof (induction ps arbitrary: w v)
  case Nil
  then show ?case by (intro exI [of _ v]) (simp add: retS_def)
next
  case (Cons x rest)
  obtain p page where x: "x = (p, page)" by (cases x)
  show ?case
  proof (cases "p < final")
    case False
    then show ?thesis using Cons.IH [OF Cons.prems(1,2)] Cons.prems(3) by (simp add: x)
  next
    case True
    let ?a = "db_base_offset b + p * PS"
    have le: "?a + length page \<le> cap v" using Cons.prems(3) True by (simp add: x)
    obtain v1 where v1: "write_prechecked_unmetered V ?a page w = (Ok (), put_mem v1 w)" "inv v1"
      "mem_size V v1 = mem_size V v" "byte_of v1 = blit (byte_of v) ?a page"
      using write_prechecked_ok [OF Cons.prems(1,2) le] by metis
    have "page_physical_offset b p w = (Ok ?a, w)"
      using cap_u64 [OF Cons.prems(2) le] by (simp add: page_physical_offset_cases)
    then have run: "write_pages_loop V b final (x # rest) w = write_pages_loop V b final rest (put_mem v1 w)"
      using True v1(1) by (simp add: x)
    have a1: "active_mem (put_mem v1 w) = Some v1" using Cons.prems(1) by simp
    show ?thesis
      using Cons.IH [OF a1 v1(2)] Cons.prems(3) run True v1 by (auto simp: x)
  qed
qed

lemma store_commit_db_image_ok:
  assumes h: "holds w v b" and s: "storable_sb (committed adv n es b)"
  obtains w' v' where "store_commit_db_image V adv (db_base_offset b) n es w = (Ok (), w')"
    "holds w' v' (seal (committed adv n es b))" "touches w w'" "mem_size V v' = mem_size V v"
    "\<And>i. SUPERBLOCK_SIZE \<le> i \<Longrightarrow> byte_of v' i = byte_of v i"
proof -
  let ?f = "\<lambda>block. if adv then bump_tx (with_db_image (db_base_offset b) n es block)
     else with_db_image (db_base_offset b) n es block"
  have "?f b = committed adv n es b" by (simp add: committed_def)
  then have s': "storable_sb (?f b)" using s by simp
  have "store_commit_db_image V adv (db_base_offset b) n es w =
      tryS (sb_load V) (\<lambda>block. store_preallocated V (?f block)) w"
    by (simp add: store_commit_db_image_def commit_db_image_def store_db_image_without_tx_def)
  moreover obtain w' v' where "tryS (sb_load V) (\<lambda>block. store_preallocated V (?f block)) w = (Ok (), w')"
    "holds w' v' (seal (?f b))" "touches w w'" "mem_size V v' = mem_size V v"
    "\<And>i. SUPERBLOCK_SIZE \<le> i \<Longrightarrow> byte_of v' i = byte_of v i"
    by (rule update_block_ok [where f = ?f, OF h s']) blast
  ultimately show ?thesis using that [of w' v'] \<open>?f b = _\<close> by simp
qed

text \<open>\<open>publishes w v b n g w' v' b'\<close>: a commit took the image of \<open>b\<close> to an image of size \<open>n\<close> and
  content \<open>g\<close>.\<close>

definition publishes :: "bool \<Rightarrow> ('h, 's, 'z) meta_world_scheme \<Rightarrow> 'h \<times> 's \<Rightarrow> superblock \<Rightarrow>
    nat \<Rightarrow> (nat \<Rightarrow> byte) \<Rightarrow> ('h, 's, 'z) meta_world_scheme \<Rightarrow> 'h \<times> 's \<Rightarrow> superblock \<Rightarrow> bool" where
  "publishes adv w v b n g w' v' b' \<longleftrightarrow> holds w' v' b' \<and> img_placed b' (cap v') \<and> touches w w' \<and>
     db_size b' = n \<and> img_byte b' (byte_of v') = g \<and> (\<exists>es. b' = seal (committed adv n es b)) \<and>
     cap v \<le> cap v'"

lemma commit_write_ok:
  assumes h: "holds w v b" and placed: "img_placed b (cap v)"
    and inv: "ov_inv (ov_size ov) (db_size b) (img_byte b (byte_of v)) ov"
    and es: "zero_extents_after_commit b ov (pc (ov_size ov)) = Inr es"
    and ext: "extends v v1" "db_base_offset b + ov_size ov \<le> cap v1"
    and fits: "\<forall>(p, page) \<in> set (ov_pages ov). db_base_offset b + p * PS + PS \<le> cap v1"
  obtains w' v' b' where "tryS (write_pages_loop V b (pc (ov_size ov)) (ov_pages ov)) (\<lambda>_.
       or_panic (store_commit_db_image V adv (db_base_offset b) (ov_size ov) es)) (put_mem v1 w) = (Ok (), w')"
    "publishes adv w v b (ov_size ov) (ov_view (ov_size ov) (img_byte b (byte_of v)) ov) w' v' b'"
proof -
  let ?n = "ov_size ov" and ?base = "db_base_offset b" and ?ps = "ov_pages ov" and ?w1 = "put_mem v1 w"
  let ?b' = "seal (committed adv ?n es b)"
  note d = holdsD [OF h] and sf = storable_fields [OF holdsD(5) [OF h]] and i1 = extendsD [OF ext(1)]
  note Z = zero_extents_after_commit_ok [OF es ov_invD(1) [OF inv] sf(3) sf(1,2) ov_invD(7) [OF inv]]
  have base: "SUPERBLOCK_SIZE \<le> ?base" using placed by (simp add: img_placed_def config_defs)
  have pages: "length page = PS \<and> p < pc ?n" if "(p, page) \<in> set ?ps" for p page
    using that ov_invD(3) [OF inv] ov_invD(4) [OF inv, of p page] by (simp add: dirty_page_def map_of_is_SomeI)
  obtain v2 where v2: "write_pages_loop V b (pc ?n) ?ps ?w1 = (Ok (), put_mem v2 ?w1)" "inv v2"
    "mem_size V v2 = mem_size V v1" "byte_of v2 = blit_pages ?base (pc ?n) ?ps (byte_of v1)"
    using write_pages_loop_ok [of ?w1 v1 ?ps "pc ?n" b] d(1) i1(1) pages fits by fastforce
  have low: "byte_of v2 i = byte_of v i" if "i < SUPERBLOCK_SIZE" for i
    using that base d(6) i1(3) [of i] by (simp add: v2(4) blit_pages_below)
  have cp: "cap v \<le> cap v2" using i1(2) v2(3) by simp
  then have "1 \<le> mem_size V v2" using d(3) by (simp add: config_defs)
  then have h2: "holds (put_mem v2 w) v2 b"
    using h d v2(2) sb_image_cong [OF low d(4)] by (auto simp: holds_def)
  obtain w3 v3 where s3: "store_commit_db_image V adv ?base ?n es (put_mem v2 w) = (Ok (), w3)"
    "holds w3 v3 ?b'" "touches (put_mem v2 w) w3" "mem_size V v3 = mem_size V v2"
    "\<And>i. SUPERBLOCK_SIZE \<le> i \<Longrightarrow> byte_of v3 i = byte_of v2 i"
    using store_commit_db_image_ok [OF h2 storable_committed [OF d(5) ov_invD(1) [OF inv] Z(2-4)]] by metis
  have nth: "byte_of v3 (?base + i) = (case dirty_page ov (i div PS) of Some page \<Rightarrow>
      if i div PS < pc ?n then page ! (i mod PS) else byte_of v1 (?base + i) | None \<Rightarrow> byte_of v1 (?base + i))" for i
    using blit_pages_nth [OF ov_invD(3) [OF inv], of ?base "pc ?n" "byte_of v1" i] pages s3(5) [of "?base + i"] base v2(4)
    by (auto simp: dirty_page_def)
  have "img_byte ?b' (byte_of v3) = ov_view ?n (img_byte b (byte_of v)) ov"
  proof (rule committed_image [OF inv])
    fix i assume i: "i < ?n" "dirty_page ov (i div PS) = None" "i < db_size b"
    then have "?base + i < cap v" using placed by (simp add: img_placed_def)
    then show "byte_of v3 (?base + i) = byte_of v (?base + i)" using nth [of i] i i1(3) by simp
  next
    fix i page assume "i < ?n" "dirty_page ov (i div PS) = Some page"
    then show "byte_of v3 (?base + i) = page ! (i mod PS)" using nth [of i] byte_page by simp
  qed (simp_all add: Z(1))
  moreover have "img_placed ?b' (cap v3)" using placed ext(2) v2(3) s3(4) by (auto simp: img_placed_def)
  ultimately show ?thesis
    using that [of w3 v3 ?b'] s3 cp v2(1) touches_trans [OF touches_put_mem s3(3)]
    by (auto simp: publishes_def or_panic_def)
qed

lemma commit_overlay_in_place_cases:
  assumes h: "holds w v b" and placed: "img_placed b (cap v)"
    and inv: "ov_inv (ov_size ov) (db_size b) (img_byte b (byte_of v)) ov"
  obtains (Ok) w' v' b' where "commit_overlay_in_place V b ov adv w = (Ok (), w')"
      "publishes adv w v b (ov_size ov) (ov_view (ov_size ov) (img_byte b (byte_of v)) ov) w' v' b'"
  | (Err) e where "commit_overlay_in_place V b ov adv w = (Err e, w)"
proof -
  let ?n = "ov_size ov" and ?base = "db_base_offset b" and ?ps = "ov_pages ov"
  note d = holdsD [OF h]
  consider (extents) e where "zero_extents_after_commit b ov (pc ?n) = Inl e"
    | (overflow) es where "zero_extents_after_commit b ov (pc ?n) = Inr es" "u64_max < ?base + ?n"
    | (fits) es where "zero_extents_after_commit b ov (pc ?n) = Inr es" "?base + ?n \<le> u64_max"
    by (metis not_le sum.exhaust)
  then show ?thesis
  proof cases
    case (extents e)
    then show ?thesis by (intro Err [of e]) (simp add: commit_overlay_in_place_def Let_def errS_def)
  next
    case (overflow es)
    then show ?thesis
      by (intro Err [of OffsetOverflow])
        (simp add: commit_overlay_in_place_def Let_def checked_addS_def checked_add_def errS_def)
  next
    case (fits es)
    let ?pages_then_block = "tryS (write_pages_loop V b (pc ?n) ?ps) (\<lambda>_. or_panic (store_commit_db_image V adv ?base ?n es))"
    have run: "commit_overlay_in_place V b ov adv w = tryS (required_end_loop b (pc ?n) ?ps (?base + ?n))
        (\<lambda>re. tryS (ensure_capacity V re) (\<lambda>_. ?pages_then_block)) w"
      using fits by (simp add: commit_overlay_in_place_def Let_def checked_addS_Some)
    show ?thesis
    proof (cases rule: required_end_cases [of b "pc ?n" ?ps "?base + ?n" w])
      case Err
      then show ?thesis using run that(2) [of OffsetOverflow] by simp
    next
      case (Ok re)
      have run2: "commit_overlay_in_place V b ov adv w = tryS (ensure_capacity V re) (\<lambda>_. ?pages_then_block) w"
        using run Ok(1) by simp
      show ?thesis
      proof (cases rule: ensure_capacity_cases [OF d(1,2), of re])
        case (2 err)
        then show ?thesis using run2 that(2) [of err] by simp
      next
        case (1 v1)
        have "\<forall>(p, page) \<in> set ?ps. ?base + p * PS + PS \<le> cap v1"
          using Ok(3) 1(3) ov_invD(3) [OF inv] ov_invD(4) [OF inv] by (fastforce simp: dirty_page_def)
        moreover have "?base + ?n \<le> cap v1" using Ok(2) 1(3) by simp
        ultimately obtain w' v' b' where "?pages_then_block (put_mem v1 w) = (Ok (), w')"
          "publishes adv w v b ?n (ov_view ?n (img_byte b (byte_of v)) ov) w' v' b'"
          using commit_write_ok [OF h placed inv fits(1) 1(2)] by metis
        then show ?thesis using that(1) run2 1(1) by simp
      qed
    qed
  qed
qed

end

end
