(* ===== verification/Overlay_Table.thy ===== *)
theory Overlay_Table
  imports Stable_Blob Overlay_Refine
begin

text \<open>
  The table of overlays behaves as a finite map from contexts to overlays: looking up is
  \<open>map_of\<close>, and the \<open>swap_remove\<close> of a commit or rollback deletes one key, although it changes
  the order of the others.
\<close>

section \<open>Lookup\<close>

lemma overlay_index_Some:
  "overlay_index xs c = Some i \<longleftrightarrow> i < length xs \<and> fst (xs ! i) = c \<and> (\<forall>j < i. fst (xs ! j) \<noteq> c)"
proof -
  have *: "(case filter P [0..<n] of [] \<Rightarrow> None | i # _ \<Rightarrow> Some i) = Some i \<longleftrightarrow>
      i < n \<and> P i \<and> (\<forall>j < i. \<not> P j)" for P n i
  proof (induction n)
    case (Suc n)
    show ?case
    proof (cases "filter P [0..<n]")
      case Nil
      then have "\<forall>j < n. \<not> P j" by (simp add: filter_empty_conv)
      with Nil show ?thesis by (auto simp: less_Suc_eq)
    next
      case (Cons j js)
      then have "j < n \<and> P j" by (metis Cons_eq_filterD atLeastLessThan_upt atLeastLessThan_iff in_set_conv_decomp)
      with Cons Suc show ?thesis by (auto simp: less_Suc_eq)
    qed
  qed simp
  show ?thesis unfolding overlay_index_def by (rule *)
qed

lemma overlay_index_None: "overlay_index xs c = None \<longleftrightarrow> c \<notin> fst ` set xs"
proof -
  have "overlay_index xs c = None \<longleftrightarrow> filter (\<lambda>i. fst (xs ! i) = c) [0..<length xs] = []"
    by (simp add: overlay_index_def split: list.splits)
  also have "\<dots> \<longleftrightarrow> (\<forall>i < length xs. fst (xs ! i) \<noteq> c)"
    by (auto simp: filter_empty_conv)
  finally show ?thesis by (metis image_iff in_set_conv_nth)
qed

lemma overlay_index_lookup: "overlay_index xs c = Some i \<Longrightarrow> map_of xs c = Some (snd (xs ! i))"
proof (induction xs arbitrary: i)
  case (Cons x xs)
  obtain d y where x: "x = (d, y)" by (cases x)
  show ?case
  proof (cases i)
    case 0
    then show ?thesis using Cons.prems by (simp add: overlay_index_Some x)
  next
    case (Suc j)
    then have "d \<noteq> c" using Cons.prems by (auto simp: overlay_index_Some x)
    moreover have "overlay_index xs c = Some j" using Cons.prems Suc by (auto simp: overlay_index_Some)
    ultimately show ?thesis using Cons.IH Suc x by simp
  qed
qed (simp add: overlay_index_Some)

lemma active_overlay_map: "active_overlay w =
    (case active_context w of None \<Rightarrow> None | Some c \<Rightarrow> map_of (overlays w) c)"
proof (cases "active_context w")
  case (Some c)
  show ?thesis
  proof (cases "overlay_index (overlays w) c")
    case None
    then show ?thesis using Some by (simp add: active_overlay_def overlay_index_None map_of_eq_None_iff [symmetric])
  next
    case (Some i)
    then show ?thesis using \<open>active_context w = Some c\<close> overlay_index_lookup [OF Some] by (simp add: active_overlay_def)
  qed
qed (simp add: active_overlay_def)

lemma overlay_is_active_iff: "overlay_is_active w \<longleftrightarrow> active_overlay w \<noteq> None"
  by (auto simp: overlay_is_active_def active_overlay_def split: option.splits)

lemma update_at_index:
  assumes "overlay_index xs c = Some i"
  shows "map_of (xs[i := (c, y)]) d = (if d = c then Some y else map_of xs d)"
    "map fst (xs[i := (c, y)]) = map fst xs"
proof -
  show "map fst (xs[i := (c, y)]) = map fst xs"
    using assms by (simp add: overlay_index_Some map_update list_update_same_conv)
  show "map_of (xs[i := (c, y)]) d = (if d = c then Some y else map_of xs d)"
    using assms
  proof (induction xs arbitrary: i)
    case (Cons x xs)
    obtain e z where x: "x = (e, z)" by (cases x)
    show ?case
    proof (cases i)
      case 0
      then show ?thesis using Cons.prems by (auto simp: overlay_index_Some x)
    next
      case (Suc j)
      then have "e \<noteq> c" "overlay_index xs c = Some j" using Cons.prems by (auto simp: overlay_index_Some x)
      then show ?thesis using Cons.IH [of j] Suc x by (cases "d = c") simp_all
    qed
  qed (simp add: overlay_index_Some)
qed

section \<open>Removal\<close>

lemma option_eqI: "(\<And>y. a = Some y \<longleftrightarrow> b = Some y) \<Longrightarrow> a = b"
  by (cases a; cases b) auto

lemma set_swap_remove:
  assumes "i < length xs" "distinct xs"
  shows "set (swap_remove i xs) = set xs - {xs ! i}" "distinct (swap_remove i xs)"
proof -
  obtain ys z where xs: "xs = ys @ [z]" using assms(1) by (cases xs rule: rev_cases) auto
  have "set (swap_remove i xs) = set xs - {xs ! i} \<and> distinct (swap_remove i xs)"
  proof (cases "i = length ys")
    case True
    then show ?thesis using assms(2) xs by (simp add: swap_remove_def)
  next
    case False
    then have i: "i < length ys" using assms(1) xs by simp
    have "swap_remove i xs = ys[i := z]" using i xs by (simp add: swap_remove_def list_update_append)
    moreover have "set (ys[i := z]) = insert z (set ys - {ys ! i})"
      using i assms(2) xs by (simp add: set_update_distinct)
    moreover have "distinct (ys[i := z])" using i assms(2) xs by (simp add: distinct_list_update)
    moreover have "ys ! i \<noteq> z" using i assms(2) xs by auto
    ultimately show ?thesis using i xs assms(2) by (auto simp: nth_append)
  qed
  then show "set (swap_remove i xs) = set xs - {xs ! i}" "distinct (swap_remove i xs)" by simp_all
qed

lemma remove_at_index:
  assumes ix: "overlay_index xs c = Some i" and d: "distinct (map fst xs)"
  shows "map_of (swap_remove i xs) e = (if e = c then None else map_of xs e)"
    "distinct (map fst (swap_remove i xs))"
proof -
  have i: "i < length xs" "fst (xs ! i) = c" using ix by (auto simp: overlay_index_Some)
  have "distinct xs" using d by (rule distinct_map [THEN iffD1, THEN conjunct1])
  note sr = set_swap_remove [OF i(1) this]
  have inj: "inj_on fst (set xs)" using d by (simp add: distinct_map)
  have "inj_on fst (set (swap_remove i xs))" by (rule inj_on_subset [OF inj]) (auto simp: sr)
  then show d': "distinct (map fst (swap_remove i xs))" using sr(2) by (simp add: distinct_map)
  have "(e, y) \<in> set xs \<Longrightarrow> e = c \<longleftrightarrow> (e, y) = xs ! i" for y
    by (metis fst_conv i inj inj_onD nth_mem)
  then have "(e, y) \<in> set (swap_remove i xs) \<longleftrightarrow> e \<noteq> c \<and> (e, y) \<in> set xs" for y
    unfolding sr(1) by blast
  then have "map_of (swap_remove i xs) e = Some y \<longleftrightarrow> e \<noteq> c \<and> map_of xs e = Some y" for y
    using map_of_eq_Some_iff [OF d, of e y] map_of_eq_Some_iff [OF d', of e y] by metis
  then have "map_of (swap_remove i xs) e = Some y \<longleftrightarrow> (if e = c then None else map_of xs e) = Some y" for y
    by simp
  then show "map_of (swap_remove i xs) e = (if e = c then None else map_of xs e)"
    by (rule option_eqI)
qed

end
