(* ===== verification/Transactions.thy ===== *)
theory Transactions
  imports Commit_Publish Overlay_Table
begin

text \<open>
  Updates as transactions on the abstract file.  \<open>db_at w v b\<close>: in world \<open>w\<close> the active database
  is the valid image \<open>b\<close> in memory \<open>v\<close>; its content is \<open>file_of v b\<close>.  \<open>updating w v b ov\<close>: an
  update is running on it with overlay \<open>ov\<close>.  Writes and truncates during an update act on the
  overlay's content and leave the published file alone, a commit publishes it, a rollback drops it.
\<close>

section \<open>Frames\<close>

lemma overlays_update [simp]:
  "active_context (w\<lparr>overlays := x\<rparr>) = active_context w"
  "active_mem (w\<lparr>overlays := x\<rparr>) = active_mem w"
  by (auto simp: active_context_def active_mem_def split: option.splits)

lemma touches_overlays: "touches w w' \<Longrightarrow> overlays w' = overlays (w :: ('h, 's, 'z) blob_world_scheme)"
  by (cases w; cases w') (auto dest!: touches_fields(5))

lemma touches_active_overlay: "touches w w' \<Longrightarrow> active_overlay w' = active_overlay w"
  by (simp add: active_overlay_map touches_overlays touches_active split: option.splits)

lemma on_overlay_run:
  fixes w :: "('h, 's, 'z) blob_world_scheme"
  assumes c: "active_context w = Some c" and i: "overlay_index (overlays w) c = Some i"
    and f: "f (w, snd (overlays w ! i)) = (r, (w', ov'))" and t: "touches w w'"
  shows "on_overlay f w = (case r of Ok x \<Rightarrow> Ok (Some x) | Err e \<Rightarrow> Err e | Panic \<Rightarrow> Panic,
    w'\<lparr>overlays := (overlays w)[i := (c, ov')]\<rparr>)"
  using c i f touches_overlays [OF t]
  by (auto simp: on_overlay_def active_context_id_def tryS_def Let_def split: outcome.splits)

lemma on_overlay_none:
  "active_mem w \<noteq> None \<Longrightarrow> active_overlay w = None \<Longrightarrow> on_overlay f w = (Ok None, w)"
  by (auto simp: on_overlay_def active_context_id_def tryS_def active_overlay_def active_mem_def split: option.splits)

lemma active_overlay_index:
  assumes "active_overlay w = Some ov"
  obtains c i where "active_context w = Some c" "overlay_index (overlays w) c = Some i" "snd (overlays w ! i) = ov"
  using assms by (auto simp: active_overlay_def split: option.splits)

lemma active_overlay_put:
  assumes "touches w w'" "active_context w = Some c" "overlay_index (overlays w) c = Some i"
  shows "active_overlay (w'\<lparr>overlays := (overlays w)[i := (c, ov')]\<rparr>) = Some ov'"
  using update_at_index(1) [OF assms(3), of ov' c] assms(2) touches_active [OF assms(1)]
  by (simp add: active_overlay_map)

section \<open>The published file\<close>

context db_mem
begin

lemma holds_overlays [simp]: "holds (w\<lparr>overlays := x\<rparr>) v b = holds w v b"
  by (simp add: holds_def)

definition file_of :: "'h \<times> 's \<Rightarrow> superblock \<Rightarrow> afile" where
  "file_of v b = (db_size b, img_byte b (byte_of v))"

definition db_at :: "('h, 's, 'z) blob_world_scheme \<Rightarrow> 'h \<times> 's \<Rightarrow> superblock \<Rightarrow> bool" where
  "db_at w v b \<longleftrightarrow> holds w v b \<and> img_placed b (cap v) \<and> distinct (map fst (overlays w))"

definition updating :: "('h, 's, 'z) blob_world_scheme \<Rightarrow> 'h \<times> 's \<Rightarrow> superblock \<Rightarrow> overlay \<Rightarrow> bool" where
  "updating w v b ov \<longleftrightarrow> db_at w v b \<and> active_overlay w = Some ov \<and>
     ov_inv (ov_size ov) (db_size b) (img_byte b (byte_of v)) ov"

lemma file_of_wf: "afile_wf (file_of v b)"
  by (simp add: afile_wf_def file_of_def img_byte_def)

lemma file_of_same: "same_mem v v' \<Longrightarrow> file_of v' b = file_of v b"
  by (simp add: file_of_def same_mem_def)

lemma db_at_same:
  assumes "db_at w v b" "holds w' v' b" "same_mem v v'" "touches w w'"
  shows "db_at w' v' b"
  using assms touches_overlays [OF assms(4)] by (simp add: db_at_def same_mem_def)

text \<open>The worlds that reads reach: the image is the same, the caches and the heap may differ.\<close>

definition steady :: "('h, 's, 'z) meta_world_scheme \<Rightarrow> 'h \<times> 's \<Rightarrow> superblock \<Rightarrow> ('h, 's, 'z) meta_world_scheme \<Rightarrow> bool" where
  "steady w0 v0 b w \<longleftrightarrow> (\<exists>v. holds w v b \<and> same_mem v0 v \<and> touches w0 w)"

lemma steady_refl: "holds w v b \<Longrightarrow> steady w v b w"
  unfolding steady_def using holdsD [of w v b] same_mem_refl by (intro exI [of _ v]) simp

lemma read_base_steady:
  assumes s: "steady w0 v0 b w" and p: "img_placed b (cap v0)"
  shows "\<exists>w'. tryS (sb_load V) (\<lambda>block. read_base_at_with_block V block off n) w =
      (Ok (afile_read off n (file_of v0 b)), w') \<and> steady w0 v0 b w'"
proof -
  obtain v where v: "holds w v b" "same_mem v0 v" "touches w0 w" using s by (auto simp: steady_def)
  obtain w1 v1 where l: "sb_load V w = (Ok b, w1)" "holds w1 v1 b" "same_mem v v1" "touches w w1"
    using load_ok [OF v(1)] by blast
  note d = holdsD [OF l(2)] and s1 = same_mem_trans [OF v(2) l(3)]
  have pl: "img_placed b (cap v1)" using p s1 by (simp add: same_mem_def)
  obtain w2 where r: "read_base_at_with_block V b off n w1 =
      (Ok (bytes_at (img_byte b (byte_of v1)) off n, n = 0 \<or> off + n \<le> db_size b), w2)" "reached w1 v1 w2"
    using read_base_at_with_block_ok [OF reached_refl [OF d(1,2)] d(1,2) pl] by blast
  obtain v2 where v2: "w2 = put_mem v2 w1" "same_mem v1 v2" using r(2) by (auto simp: reached_def)
  have "holds w2 v2 b" unfolding v2(1) by (rule holds_same_mem [OF l(2) v2(2)])
  moreover have "touches w0 w2"
    unfolding v2(1) by (rule touches_trans [OF touches_trans [OF v(3) l(4)] touches_put_mem])
  ultimately have "steady w0 v0 b w2" unfolding steady_def using same_mem_trans [OF s1 v2(2)] by blast
  then show ?thesis using l(1) r(1) same_memD(3) [OF s1] by (simp add: file_of_def afile_read_def)
qed

lemma based_steady:
  assumes "img_placed b (cap v0)"
  shows "based V (steady w0 v0 b) (img_byte b (byte_of v0))"
  unfolding based_def
proof (intro allI impI)
  fix p w
  assume w: "steady w0 v0 b w" and p: "p * PS \<le> u64_max"
  obtain w' where w': "tryS (sb_load V) (\<lambda>block. read_base_at_with_block V block (p * PS) PS) w =
      (Ok (afile_read (p * PS) PS (file_of v0 b)), w')" "steady w0 v0 b w'"
    using read_base_steady [OF w assms] by blast
  have "read_base_page V p w = tryS (tryS (sb_load V) (\<lambda>block. read_base_at_with_block V block (p * PS) PS))
      (\<lambda>(page, _). retS page) w"
    using p by (simp add: read_base_page_def tryS_assoc checked_mul_def)
  then show "\<exists>w'. read_base_page V p w = (Ok (bytes_at (img_byte b (byte_of v0)) (p * PS) PS), w') \<and> steady w0 v0 b w'"
    using w' by (simp add: afile_read_def file_of_def retS_def)
qed

section \<open>Beginning an update\<close>

lemma valid_layout: "holds w v b \<Longrightarrow> layout_version b = CURRENT_LAYOUT_VERSION"
  using holdsD(5) [of w v b] by (simp add: valid_sb_def)

lemma db_at_load:
  assumes d: "db_at w v b"
  obtains w' v' where "sb_load V w = (Ok b, w')" "db_at w' v' b" "same_mem v v'" "touches w w'"
    "active_overlay w' = active_overlay w"
proof -
  have h: "holds w v b" using d by (simp add: db_at_def)
  obtain w' v' where l: "sb_load V w = (Ok b, w')" "holds w' v' b" "same_mem v v'" "touches w w'"
    using load_ok [OF h] by blast
  then show ?thesis
    using that [of w' v'] db_at_same [OF d] touches_active_overlay [OF l(4)] by blast
qed

lemma begin_update_ok:
  assumes d: "db_at w v b" and none: "active_overlay w = None" and imp: "\<not> is_importing b"
  obtains w' v' ov where "begin_update V w = (Ok (db_size b), w')" "updating w' v' b ov" "same_mem v v'"
    "ov_content (img_byte b (byte_of v')) ov = file_of v b" "ov_write_budget ov = None"
proof -
  obtain w1 v1 where l: "sb_load V w = (Ok b, w1)" "db_at w1 v1 b" "same_mem v v1" "touches w w1"
    "active_overlay w1 = None"
    using db_at_load [OF d] none by metis
  from l(2) have h: "holds w1 v1 b" by (simp add: db_at_def)
  obtain c where c: "active_context w1 = Some c" using active_context_idD [OF holdsD(1) [OF h]] by blast
  have ix: "overlay_index (overlays w1) c = None" using l(5) c by (simp add: active_overlay_def)
  then have fr: "c \<notin> fst ` set (overlays w1)" by (simp add: overlay_index_None)
  let ?w = "w1\<lparr>overlays := overlays w1 @ [(c, overlay_new (db_size b))]\<rparr>"
  have "overlay_begin (db_size b) w1 = (Ok (), ?w)"
    using c ix by (simp add: overlay_begin_def active_context_id_def)
  then have run: "begin_update V w = (Ok (db_size b), ?w)"
    using l(1) valid_layout [OF h] imp by (simp add: begin_update_def retS_def)
  have g: "img_byte b (byte_of v1) i = 0" if "db_size b \<le> i" for i using that by (simp add: img_byte_def)
  have "db_size b \<le> u64_max" using storable_fields(3) [OF holdsD(5) [OF h]] .
  then have "updating ?w v1 b (overlay_new (db_size b))"
    using l(2) c fr ov_inv_new [of "db_size b"]
    by (simp add: updating_def db_at_def active_overlay_map map_of_eq_None_iff [THEN iffD2] overlay_new_def map_add_def)
  moreover have "ov_content (img_byte b (byte_of v1)) (overlay_new (db_size b)) = file_of v b"
    using ov_view_new [of "db_size b" "img_byte b (byte_of v1)", OF g] same_memD(3) [OF l(3)]
    by (simp add: ov_content_def file_of_def overlay_new_def)
  ultimately show ?thesis using that [OF run _ l(3)] by (simp add: overlay_new_def)
qed

lemma begin_update_err:
  assumes d: "db_at w v b" and rej: "is_importing b \<or> active_overlay w \<noteq> None"
  obtains w' v' where "begin_update V w = (Err (if is_importing b then ImportAlreadyStarted else overlay_already_active), w')"
    "db_at w' v' b" "same_mem v v'" "active_overlay w' = active_overlay w"
proof -
  obtain w1 v1 where l: "sb_load V w = (Ok b, w1)" "db_at w1 v1 b" "same_mem v v1" "touches w w1"
    "active_overlay w1 = active_overlay w"
    using db_at_load [OF d] by blast
  from l(2) have h: "holds w1 v1 b" by (simp add: db_at_def)
  have "overlay_begin (db_size b) w1 = (Err overlay_already_active, w1)" if "active_overlay w \<noteq> None"
    using that l(5) by (auto simp: overlay_begin_def active_context_id_def active_overlay_def tryS_def split: option.splits)
  then have "begin_update V w = (Err (if is_importing b then ImportAlreadyStarted else overlay_already_active), w1)"
    using l(1) valid_layout [OF h] rej by (auto simp: begin_update_def errS_def)
  then show ?thesis using that l(2,3,5) by blast
qed

section \<open>Operations of a running update\<close>

lemma overlay_step:
  assumes d: "db_at w v b" and ov: "active_overlay w = Some ov" and f: "f (w, ov) = (r, (w', ov'))"
    and s: "steady w v b w'"
  obtains w2 v2 where "on_overlay f w = (case r of Ok x \<Rightarrow> Ok (Some x) | Err e \<Rightarrow> Err e | Panic \<Rightarrow> Panic, w2)"
    "db_at w2 v2 b" "same_mem v v2" "active_overlay w2 = Some ov'"
proof -
  obtain c i where ci: "active_context w = Some c" "overlay_index (overlays w) c = Some i" "snd (overlays w ! i) = ov"
    using active_overlay_index [OF ov] by blast
  obtain v2 where v2: "holds w' v2 b" "same_mem v v2" "touches w w'" using s by (auto simp: steady_def)
  let ?w = "w'\<lparr>overlays := (overlays w)[i := (c, ov')]\<rparr>"
  have "on_overlay f w = (case r of Ok x \<Rightarrow> Ok (Some x) | Err e \<Rightarrow> Err e | Panic \<Rightarrow> Panic, ?w)"
    using on_overlay_run [OF ci(1,2) _ v2(3)] f ci(3) by blast
  moreover have "db_at ?w v2 b"
    using d v2(1,2) update_at_index(2) [OF ci(2), of ov'] by (simp add: db_at_def same_mem_def)
  ultimately show ?thesis using that v2(2) active_overlay_put [OF v2(3) ci(1,2)] by blast
qed

lemma updating_ok:
  assumes "updating w v b ov"
  shows "ov_ok (steady w v b) (db_size b) (img_byte b (byte_of v)) (w, ov)"
    "based V (steady w v b) (img_byte b (byte_of v))" "db_at w v b" "active_overlay w = Some ov"
  using assms based_steady [of b v w] steady_refl [of w v b] by (auto simp: updating_def db_at_def ov_ok_def)

lemma updatingI:
  assumes "db_at w2 v2 b" "same_mem v v2" "active_overlay w2 = Some ov'"
    "ov_ok B (db_size b) (img_byte b (byte_of v)) (w', ov')"
  shows "updating w2 v2 b ov'"
  using assms same_memD(3) [OF assms(2)] by (simp add: updating_def ov_ok_def)

lemma update_write_cases:
  assumes u: "updating w v b ov"
  obtains (Ok) w' v' ov' where "blob_write_at V off bs w = (Ok (), w')" "updating w' v' b ov'" "same_mem v v'"
      "ov_content (img_byte b (byte_of v')) ov' = afile_write off bs (ov_content (img_byte b (byte_of v)) ov)"
      "ov_write_budget ov = None \<Longrightarrow> ov_write_budget ov' = None"
  | (Err) e w' v' ov' where "blob_write_at V off bs w = (Err e, w')" "db_at w' v' b" "same_mem v v'"
      "active_overlay w' = Some ov'" "may_fail ov (off + length bs)"
proof -
  note k = updating_ok [OF u]
  show ?thesis
  proof (cases rule: ov_write_at_cases [OF k(2,1), of off bs])
    case (1 w1 ov1)
    then have "steady w v b w1" by (simp add: ov_ok_def)
    from overlay_step [where f = "ov_write_at V off bs", OF k(3,4) 1(1) this] obtain w2 v2 where
      o: "on_overlay (ov_write_at V off bs) w = (Ok (Some ()), w2)" "db_at w2 v2 b" "same_mem v v2" "active_overlay w2 = Some ov1"
      by auto
    show ?thesis
      by (rule Ok [of w2 v2 ov1])
        (use o 1 updatingI [OF o(2-4) 1(2)] same_memD(3) [OF o(3)] in \<open>auto simp: blob_write_at_def retS_def\<close>)
  next
    case (2 e w1 ov1)
    from overlay_step [where f = "ov_write_at V off bs", OF k(3,4) 2(1,2)] obtain w2 v2 where
      o: "on_overlay (ov_write_at V off bs) w = (Err e, w2)" "db_at w2 v2 b" "same_mem v v2" "active_overlay w2 = Some ov1"
      by auto
    then show ?thesis using Err [of e w2 v2 ov1] 2(5) by (simp add: blob_write_at_def)
  qed
qed

lemma update_truncate_cases:
  assumes u: "updating w v b ov" and n: "n \<le> u64_max"
  obtains (Ok) w' v' ov' where "blob_truncate V n w = (Ok (), w')" "updating w' v' b ov'" "same_mem v v'"
      "ov_content (img_byte b (byte_of v')) ov' = afile_truncate n (ov_content (img_byte b (byte_of v)) ov)"
      "ov_write_budget ov = None \<Longrightarrow> ov_write_budget ov' = None"
  | (Err) e w' v' ov' where "blob_truncate V n w = (Err e, w')" "db_at w' v' b" "same_mem v v'"
      "active_overlay w' = Some ov'" "may_fail ov n"
proof -
  note k = updating_ok [OF u]
  show ?thesis
  proof (cases rule: ov_truncate_cases [OF k(2,1) n])
    case (1 w1 ov1)
    then have "steady w v b w1" by (simp add: ov_ok_def)
    from overlay_step [where f = "ov_truncate V n", OF k(3,4) 1(1) this] obtain w2 v2 where
      o: "on_overlay (ov_truncate V n) w = (Ok (Some ()), w2)" "db_at w2 v2 b" "same_mem v v2" "active_overlay w2 = Some ov1"
      by auto
    show ?thesis
      by (rule Ok [of w2 v2 ov1])
        (use o 1 updatingI [OF o(2-4) 1(2)] same_memD(3) [OF o(3)] in \<open>auto simp: blob_truncate_def retS_def\<close>)
  next
    case (2 e w1 ov1)
    from overlay_step [where f = "ov_truncate V n", OF k(3,4) 2(1,2)] obtain w2 v2 where
      o: "on_overlay (ov_truncate V n) w = (Err e, w2)" "db_at w2 v2 b" "same_mem v v2" "active_overlay w2 = Some ov1"
      by auto
    then show ?thesis using Err [of e w2 v2 ov1] 2(3) by (simp add: blob_truncate_def)
  qed
qed

lemma update_read_ok:
  assumes u: "updating w v b ov"
  obtains w' v' ov' where "blob_read_at V off n w = (Ok (afile_read off n (ov_content (img_byte b (byte_of v)) ov)), w')"
    "updating w' v' b ov'" "same_mem v v'" "ov_write_budget ov = None \<Longrightarrow> ov_write_budget ov' = None"
    "ov_content (img_byte b (byte_of v')) ov' = ov_content (img_byte b (byte_of v)) ov"
proof -
  note k = updating_ok [OF u]
  obtain w1 ov1 where r: "ov_read_at V off n (w, ov) = (Ok (afile_read off n (ov_content (img_byte b (byte_of v)) ov)), (w1, ov1))"
    "ov_ok (steady w v b) (db_size b) (img_byte b (byte_of v)) (w1, ov1)"
    "ov_content (img_byte b (byte_of v)) ov1 = ov_content (img_byte b (byte_of v)) ov" "ov_same ov ov1"
    using ov_read_at_ok [OF k(2,1)] by blast
  then have "steady w v b w1" by (simp add: ov_ok_def)
  from overlay_step [where f = "ov_read_at V off n", OF k(3,4) r(1) this] obtain w2 v2 where
    o: "on_overlay (ov_read_at V off n) w = (Ok (Some (afile_read off n (ov_content (img_byte b (byte_of v)) ov))), w2)"
      "db_at w2 v2 b" "same_mem v v2" "active_overlay w2 = Some ov1"
    by auto
  show ?thesis
    by (rule that [of w2 v2 ov1])
      (use o r updatingI [OF o(2-4) r(2)] same_memD(3) [OF o(3)] in \<open>auto simp: blob_read_at_def retS_def ov_same_def\<close>)
qed

section \<open>Ending an update\<close>

lemma commit_overlay_cases:
  assumes d: "db_at w v b" and inv: "ov_inv (ov_size ov) (db_size b) (img_byte b (byte_of v)) ov"
  obtains (Ok) w' v' b' es where "commit_overlay V ov adv w = (Ok (), w')" "db_at w' v' b'"
      "file_of v' b' = ov_content (img_byte b (byte_of v)) ov" "active_overlay w' = active_overlay w"
      "b' = seal (committed adv (ov_size ov) es b)" "touches w w'"
  | (Err) e w' v' where "commit_overlay V ov adv w = (Err e, w')" "db_at w' v' b" "same_mem v v'"
      "active_overlay w' = active_overlay w" "touches w w'"
proof -
  obtain w1 v1 where l: "sb_load V w = (Ok b, w1)" "db_at w1 v1 b" "same_mem v v1" "touches w w1"
    "active_overlay w1 = active_overlay w"
    using db_at_load [OF d] by blast
  have run: "commit_overlay V ov adv w = commit_overlay_in_place V b ov adv w1"
    using l(1) by (simp add: commit_overlay_def)
  have h: "holds w1 v1 b" "img_placed b (cap v1)" using l(2) by (simp_all add: db_at_def)
  have inv1: "ov_inv (ov_size ov) (db_size b) (img_byte b (byte_of v1)) ov"
    using inv same_memD(3) [OF l(3)] by simp
  show ?thesis
  proof (cases rule: commit_overlay_in_place_cases [OF h inv1, of adv])
    case (1 w2 v2 b2)
    then obtain es where p: "holds w2 v2 b2" "img_placed b2 (cap v2)" "touches w1 w2" "db_size b2 = ov_size ov"
      "img_byte b2 (byte_of v2) = ov_view (ov_size ov) (img_byte b (byte_of v1)) ov"
      "b2 = seal (committed adv (ov_size ov) es b)"
      by (auto simp: publishes_def)
    show ?thesis
    proof (rule Ok [of w2 v2 b2 es])
      show "db_at w2 v2 b2" using p l(2) touches_overlays [OF p(3)] by (simp add: db_at_def)
      show "file_of v2 b2 = ov_content (img_byte b (byte_of v)) ov"
        using p same_memD(3) [OF l(3)] by (simp add: file_of_def ov_content_def)
      show "active_overlay w2 = active_overlay w" using touches_active_overlay [OF p(3)] l(5) by simp
    qed (use 1(1) run p touches_trans [OF l(4)] in auto)
  next
    case (2 e)
    then show ?thesis using Err [of e w1 v1] run l by simp
  qed
qed

lemma overlay_take_ok:
  assumes d: "db_at w v b" and ov: "active_overlay w = Some ov"
  obtains w1 where "overlay_take w = (Some ov, w1)" "overlay_rollback w = w1" "db_at w1 v b"
    "active_overlay w1 = None"
proof -
  obtain c i where ci: "active_context w = Some c" "overlay_index (overlays w) c = Some i" "snd (overlays w ! i) = ov"
    using active_overlay_index [OF ov] by blast
  let ?w = "w\<lparr>overlays := swap_remove i (overlays w)\<rparr>"
  have ds: "distinct (map fst (overlays w))" using d by (simp add: db_at_def)
  note rm = remove_at_index [OF ci(2) ds]
  show ?thesis
    by (rule that [of ?w])
      (use ci d rm in \<open>simp_all add: overlay_take_def overlay_rollback_def db_at_def active_overlay_map\<close>)
qed

lemma empty_overlay_content:
  assumes inv: "ov_inv (ov_size ov) (db_size b) (img_byte b f) ov" and e: "ov_is_empty ov"
  shows "ov_content (img_byte b f) ov = (db_size b, img_byte b f)"
proof -
  have "ov_size ov = db_size b" using ov_invD(2) [OF inv] e by (simp add: ov_is_empty_def)
  then show ?thesis
    using e by (auto simp: ov_is_empty_def ov_content_def ov_view_def dirty_page_def
        ov_page_is_zero_masked_def img_byte_def fun_eq_iff)
qed

lemma commit_update_cases:
  assumes u: "updating w v b ov"
  obtains (Ok) w' v' b' where "commit_update V w = (Ok (), w')" "db_at w' v' b'" "active_overlay w' = None"
      "file_of v' b' = ov_content (img_byte b (byte_of v)) ov"
      "b' = b \<or> (\<exists>es. b' = seal (committed True (ov_size ov) es b))"
  | (Err) e w' v' where "commit_update V w = (Err e, w')" "db_at w' v' b" "same_mem v v'" "active_overlay w' = None"
proof -
  note k = updating_ok(3,4) [OF u]
  from u have inv: "ov_inv (ov_size ov) (db_size b) (img_byte b (byte_of v)) ov" by (simp add: updating_def)
  obtain w1 where t: "overlay_take w = (Some ov, w1)" "db_at w1 v b" "active_overlay w1 = None"
    using overlay_take_ok [OF k] by blast
  show ?thesis
  proof (cases "ov_is_empty ov")
    case True
    then show ?thesis
      using Ok [of w1 v b] t empty_overlay_content [OF inv True] by (simp add: commit_update_def file_of_def)
  next
    case False
    then have run: "commit_update V w = commit_overlay V ov True w1" using t(1) by (simp add: commit_update_def)
    show ?thesis
    proof (cases rule: commit_overlay_cases [OF t(2) inv, of True])
      case (1 w' v' b' es)
      show ?thesis by (rule Ok [of w' v' b']) (use 1 run t(3) in auto)
    next
      case (2 e w' v')
      show ?thesis by (rule Err [of e w' v']) (use 2 run t(3) in auto)
    qed
  qed
qed

lemma rollback_update_ok:
  assumes d: "db_at w v b"
  shows "db_at (rollback_update w) v b" "active_overlay (rollback_update w) = None"
proof -
  have "db_at (rollback_update w) v b \<and> active_overlay (rollback_update w) = None"
  proof (cases "active_overlay w")
    case None
    then have "overlay_rollback w = w"
      by (auto simp: overlay_rollback_def active_overlay_def split: option.splits)
    then show ?thesis using d None by (simp add: rollback_update_def)
  next
    case (Some ov)
    then show ?thesis using overlay_take_ok [OF d Some] by (metis rollback_update_def)
  qed
  then show "db_at (rollback_update w) v b" "active_overlay (rollback_update w) = None" by simp_all
qed

end

end
