(* ===== verification/Direct_Access.thy ===== *)
theory Direct_Access
  imports Transactions
begin

text \<open>
  Access to the database file while no update is running: reads return ranges of the published
  file, and a write or truncate acts on it directly and atomically, without advancing the
  transaction counter or the flags of the superblock.
\<close>

context db_mem
begin

section \<open>Access outside an update\<close>

lemma idle_read_ok:
  assumes d: "db_at w v b" and none: "active_overlay w = None"
  obtains w' v' where "blob_read_at V off n w = (Ok (afile_read off n (file_of v b)), w')"
    "db_at w' v' b" "same_mem v v'" "active_overlay w' = None"
proof -
  from d have h: "holds w v b" "img_placed b (cap v)" by (simp_all add: db_at_def)
  have a: "active_mem w \<noteq> None" using holdsD(1) [OF h(1)] by simp
  note o = on_overlay_none [OF a none, of "ov_read_at V off n"]
  show ?thesis
  proof (cases "n = 0")
    case True
    then show ?thesis
      using that [OF _ d same_mem_refl [OF holdsD(2) [OF h(1)]] none] o
      by (simp add: blob_read_at_def read_base_at_def retS_def afile_read_def)
  next
    case False
    obtain w' where w': "tryS (sb_load V) (\<lambda>block. read_base_at_with_block V block off n) w =
        (Ok (afile_read off n (file_of v b)), w')" "steady w v b w'"
      using read_base_steady [OF steady_refl [OF h(1)] h(2)] by blast
    then obtain v' where v': "holds w' v' b" "same_mem v v'" "touches w w'" by (auto simp: steady_def)
    show ?thesis
      by (rule that [of w' v'])
        (use o w'(1) False v' db_at_same [OF d v'] touches_active_overlay [OF v'(3)] none in
          \<open>simp_all add: blob_read_at_def read_base_at_def\<close>)
  qed
qed

lemma file_size_ok:
  assumes d: "db_at w v b"
  obtains w' v' where "blob_file_size V w =
      (Ok (case active_overlay w of Some ov \<Rightarrow> ov_size ov | None \<Rightarrow> db_size b), w')"
    "db_at w' v' b" "same_mem v v'" "active_overlay w' = active_overlay w"
proof (cases "active_overlay w")
  case None
  obtain w' v' where l: "sb_load V w = (Ok b, w')" "db_at w' v' b" "same_mem v v'" "active_overlay w' = active_overlay w"
    using db_at_load [OF d] by metis
  show ?thesis
    by (rule that [of w' v']) (use l None in \<open>simp_all add: blob_file_size_def overlay_file_size_def retS_def\<close>)
next
  case (Some ov)
  have "inv v" using d holdsD(2) [of w v b] by (simp add: db_at_def)
  then show ?thesis
    using that [of w v] d Some same_mem_refl by (simp add: blob_file_size_def overlay_file_size_def)
qed

text \<open>Direct writes build an overlay, apply the operation and commit it at once.\<close>

lemma ensure_current_layout_ok:
  assumes d: "db_at w v b"
  obtains w' v' where "ensure_current_layout V w = (Ok (), w')" "db_at w' v' b" "same_mem v v'"
    "active_overlay w' = active_overlay w"
proof -
  obtain w' v' where l: "sb_load V w = (Ok b, w')" "db_at w' v' b" "same_mem v v'" "active_overlay w' = active_overlay w"
    using db_at_load [OF d] by metis
  moreover have "layout_version b = CURRENT_LAYOUT_VERSION"
    using valid_layout [of w' v' b] l(2) by (simp add: db_at_def)
  ultimately show ?thesis using that [of w' v'] by (simp add: ensure_current_layout_def retS_def)
qed

lemma fresh_overlay_ok:
  assumes d: "db_at w v b"
  shows "ov_ok (steady w v b) (db_size b) (img_byte b (byte_of v)) (w, overlay_new (db_size b))"
    "ov_content (img_byte b (byte_of v)) (overlay_new (db_size b)) = file_of v b"
    "based V (steady w v b) (img_byte b (byte_of v))"
proof -
  from d have h: "holds w v b" "img_placed b (cap v)" by (simp_all add: db_at_def)
  have sz [simp]: "ov_size (overlay_new N) = N" for N by (simp add: overlay_new_def)
  show "ov_ok (steady w v b) (db_size b) (img_byte b (byte_of v)) (w, overlay_new (db_size b))"
    using steady_refl [OF h(1)] ov_inv_new [OF storable_fields(3) [OF holdsD(5) [OF h(1)]]] by (simp add: ov_ok_def)
  show "ov_content (img_byte b (byte_of v)) (overlay_new (db_size b)) = file_of v b"
    using ov_view_new [of "db_size b" "img_byte b (byte_of v)"] by (simp add: ov_content_def file_of_def img_byte_def)
  show "based V (steady w v b) (img_byte b (byte_of v))" by (rule based_steady [OF h(2)])
qed

text \<open>The outcome of a direct operation that takes the published file \<open>A\<close> to \<open>A'\<close>.\<close>

definition direct_outcome :: "'h \<times> 's \<Rightarrow> superblock \<Rightarrow> afile \<Rightarrow> (unit, stable_memory_error) outcome \<Rightarrow>
    ('h, 's, 'z) blob_world_scheme \<Rightarrow> bool" where
  "direct_outcome v b A' r w' \<longleftrightarrow> active_overlay w' = None \<and>
     (r = Ok () \<and> (\<exists>v' b'. db_at w' v' b' \<and> file_of v' b' = A' \<and> sb_flags b' = sb_flags b \<and> last_tx_id b' = last_tx_id b) \<or>
      (\<exists>e. r = Err e) \<and> (\<exists>v'. db_at w' v' b \<and> same_mem v v'))"

lemma direct_outcomeI:
  "active_overlay w' = None \<Longrightarrow> db_at w' v' b' \<Longrightarrow> file_of v' b' = A' \<Longrightarrow> sb_flags b' = sb_flags b \<Longrightarrow>
    last_tx_id b' = last_tx_id b \<Longrightarrow> direct_outcome v b A' (Ok ()) w'"
  "active_overlay w' = None \<Longrightarrow> db_at w' v' b \<Longrightarrow> same_mem v v' \<Longrightarrow> direct_outcome v b A' (Err e) w'"
  unfolding direct_outcome_def by blast+

lemma direct_commit:
  assumes d: "db_at w v b" and none: "active_overlay w = None" and ok: "ov_ok (steady w0 v b) (db_size b) (img_byte b (byte_of v)) (w, ov)"
    and run: "commit_overlay V ov False w = (r, w')"
  shows "direct_outcome v b (ov_content (img_byte b (byte_of v)) ov) r w'"
proof -
  from ok have inv: "ov_inv (ov_size ov) (db_size b) (img_byte b (byte_of v)) ov" by (simp add: ov_ok_def)
  show ?thesis
  proof (cases rule: commit_overlay_cases [OF d inv, of False])
    case (1 w1 v' b' es)
    have fl: "sb_flags b' = sb_flags b" "last_tx_id b' = last_tx_id b"
      unfolding 1(5) by (simp_all add: committed_def with_db_image_def)
    have "r = Ok ()" "w' = w1" "active_overlay w' = None" using 1 none run by simp_all
    then show ?thesis using direct_outcomeI(1) [of w' v' b'] 1(2,3) fl by simp
  next
    case (2 e w1 v1)
    then have "r = Err e" "w' = w1" "active_overlay w' = None" using none run by simp_all
    then show ?thesis using direct_outcomeI(2) [of w' v1 b v] 2(2,3) by simp
  qed
qed

lemma direct_outcome_same:
  assumes "same_mem v v1" "direct_outcome v1 b A r w'"
  shows "direct_outcome v b A r w'"
  using assms(2) same_mem_trans [OF assms(1)] unfolding direct_outcome_def by blast

lemma direct_finish:
  assumes "db_at w v b" "active_overlay w = None" "steady w v b w1"
  obtains v1 where "db_at w1 v1 b" "same_mem v v1" "active_overlay w1 = None"
proof -
  obtain v1 where "holds w1 v1 b" "same_mem v v1" "touches w w1" using assms(3) unfolding steady_def by blast
  then show thesis using that [of v1] db_at_same [OF assms(1)] touches_active_overlay [of w w1] assms(2) by simp
qed

lemma direct_write_ok:
  assumes d: "db_at w v b" and none: "active_overlay w = None"
  shows "direct_outcome v b (afile_write off bs (file_of v b)) (fst (blob_write_at V off bs w)) (snd (blob_write_at V off bs w))"
proof -
  have a: "active_mem w \<noteq> None" using d holdsD(1) [of w v b] by (simp add: db_at_def)
  note o = on_overlay_none [OF a none, of "ov_write_at V off bs"]
  have iv: "inv v" using d holdsD(2) [of w v b] by (simp add: db_at_def)
  show ?thesis
  proof (cases "bs = []")
    case True
    then have "blob_write_at V off bs w = (Ok (), w)" using o by (simp add: blob_write_at_def retS_def)
    then show ?thesis using True d none by (auto simp: afile_write_def intro: direct_outcomeI)
  next
    case False
    obtain w1 v1 where e: "ensure_current_layout V w = (Ok (), w1)" "db_at w1 v1 b" "same_mem v v1" "active_overlay w1 = None"
      using ensure_current_layout_ok [OF d] none by metis
    obtain w2 v2 where l: "sb_load V w1 = (Ok b, w2)" "db_at w2 v2 b" "same_mem v1 v2" "active_overlay w2 = None"
      using db_at_load [OF e(2)] e(4) by metis
    note s = same_mem_trans [OF e(3) l(3)] and f = fresh_overlay_ok [OF l(2)]
    have A: "file_of v2 b = file_of v b" by (rule file_of_same [OF s])
    have run: "blob_write_at V off bs w = (case ov_write_at V off bs (w2, overlay_new (db_size b)) of
        (Ok _, (w', direct)) \<Rightarrow> commit_overlay V direct False w'
      | (Err e, (w', _)) \<Rightarrow> (Err e, w') | (Panic, (w', _)) \<Rightarrow> (Panic, w'))"
      using o e(1) l(1) False by (simp add: blob_write_at_def)
    show ?thesis
    proof (cases rule: ov_write_at_cases [OF f(3,1), of off bs])
      case (1 w3 ov)
      then have "steady w2 v2 b w3" by (simp add: ov_ok_def)
      then obtain v3 where v3: "db_at w3 v3 b" "same_mem v2 v3" "active_overlay w3 = None"
        using direct_finish [OF l(2,4)] by blast
      have ok3: "ov_ok (steady w3 v3 b) (db_size b) (img_byte b (byte_of v3)) (w3, ov)"
        using 1(2) steady_refl [of w3 v3 b] v3(1) same_memD(3) [OF v3(2)] by (simp add: ov_ok_def db_at_def)
      have "direct_outcome v3 b (ov_content (img_byte b (byte_of v3)) ov)
          (fst (commit_overlay V ov False w3)) (snd (commit_overlay V ov False w3))"
        by (rule direct_commit [OF v3(1,3) ok3]) simp
      then show ?thesis
        using direct_outcome_same [OF same_mem_trans [OF s v3(2)]] run 1(1,3) f(2) A same_memD(3) [OF v3(2)] by simp
    next
      case (2 e w3 ov)
      then obtain v3 where "db_at w3 v3 b" "same_mem v2 v3" "active_overlay w3 = None"
        using direct_finish [OF l(2,4)] by blast
      then show ?thesis using run 2(1) same_mem_trans [OF s] direct_outcomeI(2) [of w3 v3 b v] by simp
    qed
  qed
qed

lemma direct_truncate_ok:
  assumes d: "db_at w v b" and none: "active_overlay w = None" and n: "n \<le> u64_max"
  shows "direct_outcome v b (afile_truncate n (file_of v b)) (fst (blob_truncate V n w)) (snd (blob_truncate V n w))"
proof -
  have a: "active_mem w \<noteq> None" using d holdsD(1) [of w v b] by (simp add: db_at_def)
  note o = on_overlay_none [OF a none, of "ov_truncate V n"]
  obtain w1 v1 where e: "ensure_current_layout V w = (Ok (), w1)" "db_at w1 v1 b" "same_mem v v1" "active_overlay w1 = None"
    using ensure_current_layout_ok [OF d] none by metis
  obtain w2 v2 where l: "sb_load V w1 = (Ok b, w2)" "db_at w2 v2 b" "same_mem v1 v2" "active_overlay w2 = None"
    using db_at_load [OF e(2)] e(4) by metis
  note s = same_mem_trans [OF e(3) l(3)] and f = fresh_overlay_ok [OF l(2)]
  have A: "file_of v2 b = file_of v b" by (rule file_of_same [OF s])
  have run: "blob_truncate V n w = (case ov_truncate V n (w2, overlay_new (db_size b)) of
      (Ok _, (w', direct)) \<Rightarrow> if ov_is_empty direct then (Ok (), w') else commit_overlay V direct False w'
    | (Err e, (w', _)) \<Rightarrow> (Err e, w') | (Panic, (w', _)) \<Rightarrow> (Panic, w'))"
    using o e(1) l(1) by (simp add: blob_truncate_def)
  show ?thesis
  proof (cases rule: ov_truncate_cases [OF f(3,1) n])
    case (1 w3 ov)
    then have "steady w2 v2 b w3" by (simp add: ov_ok_def)
    then obtain v3 where v3: "db_at w3 v3 b" "same_mem v2 v3" "active_overlay w3 = None"
      using direct_finish [OF l(2,4)] by blast
    have ok3: "ov_ok (steady w3 v3 b) (db_size b) (img_byte b (byte_of v3)) (w3, ov)"
      using 1(2) steady_refl [of w3 v3 b] v3(1) same_memD(3) [OF v3(2)] by (simp add: ov_ok_def db_at_def)
    have out: "ov_content (img_byte b (byte_of v3)) ov = afile_truncate n (file_of v b)"
      using 1(3) f(2) A same_memD(3) [OF v3(2)] by simp
    show ?thesis
    proof (cases "ov_is_empty ov")
      case True
      then have "file_of v3 b = afile_truncate n (file_of v b)"
        using empty_overlay_content [OF _ True, of b "byte_of v3"] ok3 out by (simp add: ov_ok_def file_of_def)
      then show ?thesis using run 1(1) True v3(1,3) direct_outcomeI(1) [of w3 v3 b] by simp
    next
      case False
      have "direct_outcome v3 b (ov_content (img_byte b (byte_of v3)) ov)
          (fst (commit_overlay V ov False w3)) (snd (commit_overlay V ov False w3))"
        by (rule direct_commit [OF v3(1,3) ok3]) simp
      then show ?thesis using direct_outcome_same [OF same_mem_trans [OF s v3(2)]] run 1(1) False out by simp
    qed
  next
    case (2 e w3 ov)
    then obtain v3 where "db_at w3 v3 b" "same_mem v2 v3" "active_overlay w3 = None"
      using direct_finish [OF l(2,4)] by blast
    then show ?thesis using run 2(1) same_mem_trans [OF s] direct_outcomeI(2) [of w3 v3 b v] by simp
  qed
qed

end

end
