(* ===== verification/Import_Laws.thy ===== *)
theory Import_Laws
  imports Blob_Import Direct_Access
begin

text \<open>
  Laws of the import protocol.  \<open>importing_at w v b bs\<close>: an import is running on the database
  \<open>b\<close>, and the bytes \<open>bs\<close> have been received.  They lie behind the published image, so no chunk
  changes the published file; finishing adopts exactly the received bytes when their checksum is
  the expected one, and otherwise forgets them.
\<close>

section \<open>Flags\<close>

lemma flag_bits:
  "is_importing b \<longleftrightarrow> bit (sb_flags b) 0" "is_checksum_stale b \<longleftrightarrow> bit (sb_flags b) 1"
  "is_checksum_refreshing b \<longleftrightarrow> bit (sb_flags b) 2"
  using and_exp_eq_0_iff_not_bit [of "sb_flags b" 0] and_exp_eq_0_iff_not_bit [of "sb_flags b" 1]
    and_exp_eq_0_iff_not_bit [of "sb_flags b" 2]
  by (simp_all add: is_importing_def is_checksum_stale_def is_checksum_refreshing_def FLAG_IMPORTING_def
      FLAG_CHECKSUM_STALE_def FLAG_CHECKSUM_REFRESHING_def push_bit_eq_mult)

lemma flag_constant_bits [simp]:
  "bit FLAG_IMPORTING n \<longleftrightarrow> n = 0" "bit FLAG_CHECKSUM_STALE n \<longleftrightarrow> n = 1" "bit FLAG_CHECKSUM_REFRESHING n \<longleftrightarrow> n = 2"
  by (simp_all only: FLAG_IMPORTING_def FLAG_CHECKSUM_STALE_def FLAG_CHECKSUM_REFRESHING_def push_bit_of_1
      bit_exp_iff bit_1_iff) auto

lemmas flag_simps = flag_bits bit_or_iff bit_and_iff bit_not_iff_eq possible_bit_word

section \<open>Block updates\<close>

lemmas block_updates = start_import_def without_import_def adopt_import_def with_checksum_def
  start_refresh_def progress_refresh_def clear_checksum_refresh_def clear_zero_extents_def Let_def

lemma storable_updates:
  assumes "valid_sb b"
  shows "e \<le> u64_max \<Longrightarrow> storable_sb (b\<lparr>import_written_until := e\<rparr>)"
    "t \<le> u64_max \<Longrightarrow> base \<le> u64_max \<Longrightarrow> storable_sb (start_import t hash base b)"
    "storable_sb (without_import b)" "storable_sb (adopt_import hash b)" "storable_sb (with_checksum hash b)"
    "storable_sb (clear_checksum_refresh b)" "storable_sb (start_refresh b)"
    "off \<le> u64_max \<Longrightarrow> storable_sb (progress_refresh off hash (start_refresh b))"
  using assms pc_le_u64 [of "import_total_size b"]
  by (auto simp: storable_sb_def valid_sb_def sb_ok_def block_updates validate_zero_extents_iff
      normal_extents_def CURRENT_LAYOUT_VERSION_def u64_max_def)

context db_mem
begin

section \<open>Storing with a capacity check\<close>

lemma memory_write_in_bounds:
  assumes w: "active_mem w = Some v" and v: "inv v" and le: "off + length bs \<le> cap v"
  obtains v' where "memory_write V off bs w = (Ok (), put_mem v' w)" "inv v'"
    "mem_size V v' = mem_size V v" "byte_of v' = blit (byte_of v) off bs"
proof (cases "bs = []")
  case True
  then show ?thesis using that [of v] w v by (simp add: memory_write_def retS_def)
next
  case False
  obtain v' where c: "call_write V off bs v = (Ok (), v')" "inv v'" "mem_size V v' = mem_size V v"
    "byte_of v' = blit (byte_of v) off bs"
    using call_write_ok [OF v le] by blast
  have "ensure_memory_capacity V (off + length bs) v = (Ok (), v)"
    using ensure_memory_capacity_cases [OF v, of "off + length bs"] le by (metis not_le)
  then have "tryS (ensure_memory_capacity V (off + length bs)) (\<lambda>_. call_write V off bs) v = (Ok (), v')"
    using c(1) by simp
  then have "memory_write V off bs w = (Ok (), put_mem v' w)"
    using with_memory_run [OF w] False cap_u64 [OF v le]
    by (simp add: memory_write_def memory_checked_end_def checked_add_def)
  then show ?thesis using that c by blast
qed

lemma sb_store_ok:
  assumes h: "holds w v b" and s: "storable_sb b'"
  obtains w' v' where "sb_store V b' w = (Ok (), w')" "holds w' v' (seal b')" "touches w w'"
    "mem_size V v' = mem_size V v" "\<And>i. SUPERBLOCK_SIZE \<le> i \<Longrightarrow> byte_of v' i = byte_of v i"
proof -
  note d = holdsD [OF h]
  let ?e = "take (encoded_len (seal b')) (encode (seal b'))"
  note im = stored_image [OF s]
  have le: "SUPERBLOCK_OFFSET + length ?e \<le> cap v" using im(2) d(6) by (simp add: config_defs)
  obtain v' where w: "memory_write V SUPERBLOCK_OFFSET ?e w = (Ok (), put_mem v' w)"
    and v': "inv v'" "mem_size V v' = mem_size V v" "byte_of v' = blit (byte_of v) SUPERBLOCK_OFFSET ?e"
    using memory_write_in_bounds [OF d(1,2) le] by blast
  have "validate_zero_extents b' = Inr ()" using s by (simp add: storable_sb_def)
  then have run: "sb_store V b' w = (Ok (), cache_superblock_owned (seal b') (put_mem v' w))"
    using w by (simp add: sb_store_def store_with_capacity_check_def Let_def modifyS_def)
  have keep: "byte_of v' i = byte_of v i" if "SUPERBLOCK_SIZE \<le> i" for i
    unfolding v'(3) using that im(2) by (intro blit_out) (simp add: config_defs)
  have "holds (cache_superblock_owned (seal b') (put_mem v' w)) v' (seal b')"
    using d v' im(1) by (auto simp: holds_def)
  with run that v'(2) keep touches_cache [OF touches_put_mem] show ?thesis by blast
qed

text \<open>Storing a block that describes the same image.\<close>

lemma db_at_store:
  assumes d: "db_at w v b" and s: "storable_sb b'" and p: "img_placed b' (cap v)"
  obtains w' v' where "sb_store V b' w = (Ok (), w')" "db_at w' v' (seal b')" "active_overlay w' = active_overlay w"
    "mem_size V v' = mem_size V v" "\<And>i. SUPERBLOCK_SIZE \<le> i \<Longrightarrow> byte_of v' i = byte_of v i"
proof -
  have h: "holds w v b" using d by (simp add: db_at_def)
  obtain w' v' where st: "sb_store V b' w = (Ok (), w')" "holds w' v' (seal b')" "touches w w'"
    "mem_size V v' = mem_size V v" "\<And>i. SUPERBLOCK_SIZE \<le> i \<Longrightarrow> byte_of v' i = byte_of v i"
    using sb_store_ok [OF h s] by metis
  have "db_at w' v' (seal b')"
    using st p d touches_overlays [OF st(3)] by (simp add: db_at_def img_placed_def)
  then show ?thesis using that [of w' v'] st touches_active_overlay [OF st(3)] by simp
qed

lemma same_image:
  assumes "db_size b' = db_size b" "db_base_offset b' = db_base_offset b" "zero_extents b' = zero_extents b"
    and "img_placed b (cap v)" "\<And>i. SUPERBLOCK_SIZE \<le> i \<Longrightarrow> byte_of v' i = byte_of v i"
  shows "file_of v' b' = file_of v b"
proof -
  have "SUPERBLOCK_SIZE \<le> db_base_offset b" using assms(4) by (simp add: img_placed_def config_defs)
  then show ?thesis using assms by (auto simp: file_of_def img_byte_def fun_eq_iff)
qed

end

end
