(* ===== verification/Import_Protocol.thy ===== *)
theory Import_Protocol
  imports Import_Laws
begin

text \<open>
  The import protocol step by step: beginning, receiving a chunk, finishing and cancelling, on
  every branch, and the export and checksum of the published file.
\<close>

definition afile_of_bytes :: "byte list \<Rightarrow> afile" where
  "afile_of_bytes bs = (length bs, \<lambda>i. if i < length bs then bs ! i else 0)"

definition afile_bytes :: "afile \<Rightarrow> byte list" where
  "afile_bytes A = bytes_at (snd A) 0 (fst A)"

lemma afile_of_bytes_inverse: "afile_wf A \<Longrightarrow> afile_of_bytes (afile_bytes A) = A"
  by (cases A) (auto simp: afile_of_bytes_def afile_bytes_def afile_wf_def fun_eq_iff)

section \<open>Hashing in chunks\<close>

text \<open>Hashing chunk by chunk is hashing at once.\<close>

lemma fold_fnv_append: "fold_fnv1a64 h (as @ bs) = fold_fnv1a64 (fold_fnv1a64 h as) bs"
  by (simp add: fold_fnv1a64_def)

lemma fnv1a64_fold: "fold_fnv1a64 (fnv1a64 as) bs = fnv1a64 (as @ bs)"
  by (simp add: fold_fnv1a64_def fnv1a64_def)

lemma hash_loop_ok:
  assumes rd: "\<And>a n w. I w \<Longrightarrow> a + n \<le> finish \<Longrightarrow> \<exists>w'. rd a n w = (Ok (bytes_at g a n), w') \<and> I w'"
  shows "I w \<Longrightarrow> off \<le> finish \<Longrightarrow> \<exists>w'. hash_loop rd off finish h w =
      (Ok (finish, fold_fnv1a64 h (bytes_at g off (finish - off))), w') \<and> I w'"
proof (induction "finish - off" arbitrary: off h w rule: less_induct)
  case less
  show ?case
  proof (cases "finish \<le> off")
    case True
    then show ?thesis using less.prems by (simp add: hash_loop.simps retS_def fold_fnv1a64_def)
  next
    case False
    let ?n = "min (finish - off) CHECKSUM_CHUNK_LEN"
    have n: "0 < ?n" "off + ?n \<le> finish" using False by (auto simp: config_defs)
    obtain w1 where w1: "rd off ?n w = (Ok (bytes_at g off ?n), w1)" "I w1"
      using rd [OF less.prems(1) n(2)] by blast
    have "hash_loop rd off finish h w =
        hash_loop rd (off + ?n) finish (fold_fnv1a64 h (bytes_at g off ?n)) w1"
      using False w1(1) by (simp add: hash_loop.simps [of rd off] Let_def)
    moreover have "bytes_at g off (finish - off) = bytes_at g off ?n @ bytes_at g (off + ?n) (finish - (off + ?n))"
      using bytes_at_split [of ?n "finish - off" g off] n by simp
    moreover have "finish - (off + ?n) < finish - off" using n False by linarith
    ultimately show ?thesis
      using less.hyps [OF _ w1(2) n(2), of "fold_fnv1a64 h (bytes_at g off ?n)"] by (simp add: fold_fnv_append)
  qed
qed

context db_mem
begin

lemma checksum_physical_range_ok:
  assumes w: "active_mem w = Some v" and v: "inv v" and le: "base + n \<le> cap v"
  obtains w' v' where "checksum_physical_range V base n w = (Ok (fnv1a64 (bytes_at (byte_of v) base n)), w')"
    "w' = put_mem v' w" "same_mem v v'"
proof -
  let ?g = "\<lambda>i. byte_of v (base + i)"
  have rd: "\<exists>w2. tryS (checked_addS base i) (\<lambda>a. read_preallocated V a k) w1 = (Ok (bytes_at ?g i k), w2) \<and> reached w v w2"
    if "reached w v w1" "i + k \<le> n" for i k w1
  proof -
    have ok: "base + i \<le> u64_max" "base + i + k \<le> cap v" using that(2) le cap_u64 [OF v le] by linarith+
    moreover have "bytes_at (byte_of v) (base + i) k = bytes_at ?g i k"
      by (intro nth_equalityI) (simp_all add: add.assoc)
    ultimately show ?thesis using reached_read [OF that(1) w ok(2)] by (simp add: checked_addS_Some)
  qed
  have "bytes_at ?g 0 n = bytes_at (byte_of v) base n" by (intro nth_equalityI) simp_all
  moreover obtain w' where "hash_loop (\<lambda>i k. tryS (checked_addS base i) (\<lambda>a. read_preallocated V a k)) 0 n (fnv1a64 []) w =
      (Ok (n, fold_fnv1a64 (fnv1a64 []) (bytes_at ?g 0 (n - 0))), w')" "reached w v w'"
    using hash_loop_ok [where I = "reached w v" and off = 0 and g = ?g and finish = n and
        rd = "\<lambda>i k. tryS (checked_addS base i) (\<lambda>a. read_preallocated V a k)", OF rd reached_refl [OF w v] le0] by blast
  ultimately have "checksum_physical_range V base n w = (Ok (fnv1a64 (bytes_at (byte_of v) base n)), w')"
    by (simp add: checksum_physical_range_def fnv1a64_fold retS_def)
  then show ?thesis using that \<open>reached w v w'\<close> unfolding reached_def by blast
qed

lemma checksum_logical_range_ok:
  assumes w: "active_mem w = Some v" and v: "inv v" "img_placed b (cap v)" and le: "n \<le> db_size b"
  obtains w' v' where "checksum_logical_range V b n w = (Ok (fnv1a64 (bytes_at (img_byte b (byte_of v)) 0 n)), w')"
    "w' = put_mem v' w" "same_mem v v'"
proof -
  have rd: "\<exists>w2. read_logical_range V b i k w1 = (Ok (bytes_at (img_byte b (byte_of v)) i k), w2) \<and> reached w v w2"
    if "reached w v w1" "i + k \<le> n" for i k w1
    using read_logical_range_ok [OF that(1) w v] that(2) le by simp
  obtain w' where "hash_loop (read_logical_range V b) 0 n (fnv1a64 []) w =
      (Ok (n, fold_fnv1a64 (fnv1a64 []) (bytes_at (img_byte b (byte_of v)) 0 (n - 0))), w')" "reached w v w'"
    using hash_loop_ok [where I = "reached w v" and off = 0 and finish = n and rd = "read_logical_range V b",
        OF rd reached_refl [OF w v(1)] le0] by blast
  then have "checksum_logical_range V b n w = (Ok (fnv1a64 (bytes_at (img_byte b (byte_of v)) 0 n)), w')"
    by (simp add: checksum_logical_range_def fnv1a64_fold retS_def)
  then show ?thesis using that \<open>reached w v w'\<close> unfolding reached_def by blast
qed

section \<open>Export and checksum of the published file\<close>

lemma reject_idle: "active_overlay w = None \<Longrightarrow> reject_during_update w = (Ok (), w)"
  by (simp add: reject_during_update_def overlay_is_active_iff)

lemma reject_updating: "active_overlay w \<noteq> None \<Longrightarrow> reject_during_update w = (Err UpdateInProgress, w)"
  by (simp add: reject_during_update_def overlay_is_active_iff)

lemma db_at_put:
  assumes "db_at w v b" "same_mem v v'"
  shows "db_at (put_mem v' w) v' b" "active_overlay (put_mem v' w) = active_overlay w"
proof -
  have "holds w v b" using assms(1) by (simp add: db_at_def)
  then show "db_at (put_mem v' w) v' b"
    using db_at_same [OF assms(1) holds_same_mem assms(2) touches_put_mem] assms(2) by blast
  show "active_overlay (put_mem v' w) = active_overlay w" by (rule touches_active_overlay [OF touches_put_mem])
qed

lemma export_chunk_ok:
  assumes d: "db_at w v b" and none: "active_overlay w = None"
  obtains w' v' where "export_chunk V off len w =
      (Ok (bytes_at (snd (file_of v b)) off (min len (db_size b - off))), w')"
    "db_at w' v' b" "same_mem v v'" "active_overlay w' = None"
proof -
  obtain w1 v1 where l: "sb_load V w = (Ok b, w1)" "db_at w1 v1 b" "same_mem v v1" "touches w w1"
    "active_overlay w1 = active_overlay w"
    using db_at_load [OF d] by blast
  have A: "img_byte b (byte_of v1) = snd (file_of v b)" using same_memD(3) [OF l(3)] by (simp add: file_of_def)
  show ?thesis
  proof (cases "db_size b \<le> off")
    case True
    then show ?thesis
      using that [of w1 v1] l none reject_idle [OF none] by (simp add: export_chunk_def retS_def)
  next
    case False
    let ?n = "min len (db_size b - off)"
    from l(2) have h: "active_mem w1 = Some v1" "inv v1" "img_placed b (cap v1)"
      using holdsD(1,2) [of w1 v1 b] by (simp_all add: db_at_def)
    have fits: "off + ?n \<le> db_size b" using False by simp
    obtain v2 where r: "read_logical_range V b off ?n w1 = (Ok (bytes_at (snd (file_of v b)) off ?n), put_mem v2 w1)" "same_mem v1 v2"
      using read_logical_range_ok [OF reached_refl [OF h(1,2)] h fits] A unfolding reached_def by metis
    show ?thesis
      by (rule that [of "put_mem v2 w1" v2])
        (use l(1,5) r False none reject_idle [OF none] db_at_put [OF l(2) r(2)] same_mem_trans [OF l(3) r(2)] in
          \<open>simp_all add: export_chunk_def\<close>)
  qed
qed

lemma checksum_ok:
  assumes d: "db_at w v b" and none: "active_overlay w = None"
  obtains w' v' where "checksum V w = (Ok (fnv1a64 (afile_bytes (file_of v b))), w')"
    "db_at w' v' b" "same_mem v v'" "active_overlay w' = None"
proof -
  obtain w1 v1 where l: "sb_load V w = (Ok b, w1)" "db_at w1 v1 b" "same_mem v v1" "touches w w1"
    "active_overlay w1 = active_overlay w"
    using db_at_load [OF d] by blast
  from l(2) have h: "active_mem w1 = Some v1" "inv v1" "img_placed b (cap v1)"
    using holdsD(1,2) [of w1 v1 b] by (simp_all add: db_at_def)
  obtain w2 v2 where c: "checksum_logical_range V b (db_size b) w1 =
      (Ok (fnv1a64 (bytes_at (img_byte b (byte_of v1)) 0 (db_size b))), w2)" "w2 = put_mem v2 w1" "same_mem v1 v2"
    using checksum_logical_range_ok [OF h order_refl] by blast
  show ?thesis
    by (rule that [of w2 v2])
      (use l(1,5) c none reject_idle [OF none] db_at_put [OF l(2) c(3)] same_mem_trans [OF l(3) c(3)] same_memD(3) [OF l(3)] in
        \<open>simp_all add: checksum_def afile_bytes_def file_of_def\<close>)
qed

section \<open>A running import\<close>

definition importing_at :: "('h, 's, 'z) blob_world_scheme \<Rightarrow> 'h \<times> 's \<Rightarrow> superblock \<Rightarrow> byte list \<Rightarrow> bool" where
  "importing_at w v b bs \<longleftrightarrow> db_at w v b \<and> active_overlay w = None \<and> is_importing b \<and>
     import_written_until b = length bs \<and> length bs \<le> import_total_size b \<and>
     db_base_offset b + db_size b \<le> import_base_offset b \<and>
     import_base_offset b mod STABLE_PAGE_SIZE = 0 \<and> DB_REGION_OFFSET \<le> import_base_offset b \<and>
     import_base_offset b + length bs \<le> cap v \<and> import_base_offset b + import_total_size b \<le> u64_max \<and>
     bytes_at (byte_of v) (import_base_offset b) (length bs) = bs"

lemma begin_import_ok:
  assumes d: "db_at w v b" and none: "active_overlay w = None" and imp: "\<not> is_importing b"
    and room: "cap v + n \<le> u64_max"
  obtains w' v' b' where "begin_import V n expected w = (Ok (), w')" "importing_at w' v' b' []"
    "file_of v' b' = file_of v b" "import_total_size b' = n" "import_expected_checksum b' = expected"
    "import_base_offset b' = cap v"
proof -
  obtain w1 v1 where l: "sb_load V w = (Ok b, w1)" "db_at w1 v1 b" "same_mem v v1" "touches w w1"
    "active_overlay w1 = active_overlay w"
    using db_at_load [OF d] by blast
  note s = same_memD [OF l(3)]
  let ?b = "start_import n expected (cap v) b"
  from l(2) have h: "holds w1 v1 b" and pl: "img_placed b (cap v1)" by (simp_all add: db_at_def)
  have st: "storable_sb ?b"
    by (rule storable_updates(2) [OF holdsD(5) [OF h]]) (use room in simp_all)
  have pl': "img_placed ?b (cap v1)" using pl by (simp add: img_placed_def block_updates)
  obtain w2 v2 where w2: "sb_store V ?b w1 = (Ok (), w2)" "db_at w2 v2 (seal ?b)" "active_overlay w2 = active_overlay w1"
    "mem_size V v2 = mem_size V v1" "\<And>i. SUPERBLOCK_SIZE \<le> i \<Longrightarrow> byte_of v2 i = byte_of v1 i"
    using db_at_store [OF l(2) st pl'] by metis
  have "append_base V w1 = (Ok (cap v), w1)"
    using size_pages_active [OF holdsD(1) [OF h], of V] s(2) size_bound [OF holdsD(2) [OF h]]
    by (simp add: append_base_def checked_mul_def retS_def)
  then have run: "begin_import V n expected w = (Ok (), w2)"
    using reject_idle [OF none] l(1) imp room w2(1) by (simp add: begin_import_def checked_addS_Some)
  have "SUPERBLOCK_SIZE \<le> cap v" using holdsD(6) [OF h] s(2) by simp
  then have "importing_at w2 v2 (seal ?b) []"
    using w2 l(5) none pl s(2) room
    by (simp add: importing_at_def block_updates flag_simps img_placed_def config_defs)
  moreover have "file_of v2 (seal ?b) = file_of v1 b"
    by (rule same_image [OF _ _ _ pl w2(5)]) (simp_all add: block_updates)
  ultimately show ?thesis using that [OF run] file_of_same [OF l(3)] by (simp add: block_updates)
qed

text \<open>A write into the import region leaves the superblock and the published file alone.\<close>

lemma import_write_keeps:
  assumes d: "db_at w v b" and lo: "db_base_offset b + db_size b \<le> a" "DB_REGION_OFFSET \<le> a"
    and u: "extends v u" and v': "inv v'" "mem_size V v' = mem_size V u" "byte_of v' = blit (byte_of u) a bs"
  shows "db_at (put_mem v' w) v' b" "file_of v' b = file_of v b" "active_overlay (put_mem v' w) = active_overlay w"
proof -
  have h: "holds w v b" and pl: "img_placed b (cap v)" using d by (simp_all add: db_at_def)
  note hd = holdsD [OF h] and e = extendsD [OF u]
  have keep: "byte_of v' i = byte_of v i" if "i < a" "i < cap v" for i
    using that e(3) [of i] by (simp add: v'(3) blit_out)
  have "sb_image (byte_of v') b"
    by (rule sb_image_cong [OF _ hd(4)]) (use keep lo(2) hd(6) in \<open>simp add: config_defs\<close>)
  moreover have cp: "cap v \<le> cap v'" using e(2) v'(2) by simp
  moreover from cp have "1 \<le> mem_size V v'" using hd(3) by (simp add: config_defs)
  ultimately have "holds (put_mem v' w) v' b" using h hd v'(1) by (auto simp: holds_def)
  moreover have "img_placed b (cap v')" using pl cp unfolding img_placed_def by (metis order_trans)
  ultimately show "db_at (put_mem v' w) v' b"
    using d touches_overlays [OF touches_put_mem, of v' w] by (simp add: db_at_def)
  show "active_overlay (put_mem v' w) = active_overlay w" by (rule touches_active_overlay [OF touches_put_mem])
  have "byte_of v' (db_base_offset b + i) = byte_of v (db_base_offset b + i)" if "i < db_size b" for i
    using that keep lo(1) pl by (simp add: img_placed_def)
  then show "file_of v' b = file_of v b" by (auto simp: file_of_def img_byte_def fun_eq_iff)
qed

lemma import_chunk_cases:
  assumes i: "importing_at w v b bs" and len: "length bs + length cs \<le> import_total_size b"
  obtains (Ok) w' v' b' where "import_chunk V (length bs) cs w = (Ok (), w')" "importing_at w' v' b' (bs @ cs)"
      "file_of v' b' = file_of v b" "import_total_size b' = import_total_size b"
      "import_expected_checksum b' = import_expected_checksum b" "import_base_offset b' = import_base_offset b"
  | (Err) e w' v' where "import_chunk V (length bs) cs w = (Err e, w')" "importing_at w' v' b bs" "same_mem v v'"
      "e = OffsetOverflow \<or> (\<exists>x y. e = GrowFailed x y)" "cap v < import_base_offset b + length bs + length cs"
      "memory_write V (import_base_offset b + length bs) cs w' = (Err e, w')"
proof -
  let ?base = "import_base_offset b"
  let ?b = "b\<lparr>import_written_until := length bs + length cs\<rparr>"
  from i have d: "db_at w v b" and none: "active_overlay w = None" and imp: "is_importing b"
    and k: "import_written_until b = length bs" "db_base_offset b + db_size b \<le> ?base" "?base mod STABLE_PAGE_SIZE = 0"
      "DB_REGION_OFFSET \<le> ?base" "?base + import_total_size b \<le> u64_max" "bytes_at (byte_of v) ?base (length bs) = bs"
      "?base + length bs \<le> cap v"
    by (simp_all add: importing_at_def)
  obtain w1 v1 where l: "sb_load V w = (Ok b, w1)" "db_at w1 v1 b" "same_mem v v1" "touches w w1"
    "active_overlay w1 = active_overlay w"
    using db_at_load [OF d] by blast
  note s = same_memD [OF l(3)]
  from l(2) have h: "holds w1 v1 b" and pl: "img_placed b (cap v1)" by (simp_all add: db_at_def)
  have u: "length bs + length cs \<le> u64_max" "?base + length bs \<le> u64_max" using k(5) len by simp_all
  have run: "import_chunk V (length bs) cs w = tryS (memory_write V (?base + length bs) cs) (\<lambda>_. sb_store V ?b) w1"
    using reject_idle [OF none] l(1) imp k(1) u len
    by (simp add: import_chunk_def checked_addS_Some import_offset_def)
  show ?thesis
  proof (cases rule: memory_write_cases [OF holdsD(1,2) [OF h], of "?base + length bs" cs])
    case (2 e)
    then show ?thesis
      using Err [of e w1 v1] run i l s by (simp add: importing_at_def)
  next
    case (1 x v2)
    let ?w2 = "put_mem v2 w1"
    have lo: "db_base_offset b + db_size b \<le> ?base + length bs" "DB_REGION_OFFSET \<le> ?base + length bs" using k by simp_all
    note keeps = import_write_keeps [OF l(2) lo 1(2-5)]
    have pl2: "img_placed ?b (cap v2)" using keeps(1) by (simp add: db_at_def img_placed_def)
    have st: "storable_sb ?b" by (rule storable_updates(1) [OF holdsD(5) [OF h] u(1)])
    obtain w3 v3 where w3: "sb_store V ?b ?w2 = (Ok (), w3)" "db_at w3 v3 (seal ?b)" "active_overlay w3 = active_overlay ?w2"
      "mem_size V v3 = mem_size V v2" "\<And>j. SUPERBLOCK_SIZE \<le> j \<Longrightarrow> byte_of v3 j = byte_of v2 j"
      using db_at_store [OF keeps(1) st pl2] by metis
    have old: "byte_of v2 (?base + j) = byte_of v (?base + j)" if "j < length bs" for j
    proof -
      have "?base + j < cap v1" using that k(7) s(2) by simp
      then show ?thesis using that extendsD(3) [OF 1(2), of "?base + j"] s(3) by (simp add: 1(5) blit_out)
    qed
    have "byte_of v3 (?base + j) = (bs @ cs) ! j" if "j < length bs + length cs" for j
    proof -
      have "byte_of v3 (?base + j) = byte_of v2 (?base + j)" using w3(5) k(4) by (simp add: config_defs)
      moreover have "byte_of v (?base + j) = bs ! j" if "j < length bs"
        using that nth_bytes_at [of j "length bs" "byte_of v" ?base] k(6) by simp
      ultimately show ?thesis using that old by (auto simp: 1(5) blit_def nth_append)
    qed
    then have got: "bytes_at (byte_of v3) ?base (length bs + length cs) = bs @ cs"
      by (intro nth_equalityI) simp_all
    have fit: "?base + (length bs + length cs) \<le> cap v3"
    proof (cases "cs = []")
      case True
      have "cap v \<le> cap v3" using s(2) extendsD(2) [OF 1(2)] 1(4) w3(4) by simp
      then show ?thesis using k(7) True by (metis add.right_neutral list.size(3) order_trans)
    next
      case False
      then show ?thesis using 1(6) w3(4) by simp
    qed
    have "importing_at w3 v3 (seal ?b) (bs @ cs)"
      using w3(2,3) keeps(3) l(5) none imp k len got fit
      by (simp add: importing_at_def flag_bits)
    moreover have "file_of v3 (seal ?b) = file_of v2 b"
      by (rule same_image [where v = v2]) (use keeps(1) w3(5) in \<open>simp_all add: db_at_def\<close>)
    ultimately show ?thesis
      using Ok [of w3 v3 "seal ?b"] run 1(1) w3(1) keeps(2) file_of_same [OF l(3)] by simp
  qed
qed

end

end
