(* ===== verification/Import_Session.thy ===== *)
theory Import_Session
  imports Import_Protocol
begin

text \<open>
  Finishing and cancelling an import, the calls the protocol rejects, and whole sessions: an
  import of chunks in order publishes their concatenation or leaves the old file, and importing
  what was exported reproduces the file.
\<close>

context db_mem
begin

text \<open>Forgetting an import keeps the published file.\<close>

lemma clear_import_ok:
  assumes d: "db_at w v b" and none: "active_overlay w = None"
  obtains w' v' b' where "clear_import V b w = (Ok (), w')" "db_at w' v' b'" "active_overlay w' = None"
    "\<not> is_importing b'" "file_of v' b' = file_of v b"
proof -
  from d have h: "holds w v b" and pl: "img_placed b (cap v)" by (simp_all add: db_at_def)
  have "img_placed (without_import b) (cap v)" using pl by (simp add: img_placed_def block_updates)
  then obtain w' v' where w': "sb_store V (without_import b) w = (Ok (), w')" "db_at w' v' (seal (without_import b))"
    "active_overlay w' = active_overlay w" "\<And>i. SUPERBLOCK_SIZE \<le> i \<Longrightarrow> byte_of v' i = byte_of v i"
    using db_at_store [OF d storable_updates(3) [OF holdsD(5) [OF h]]] by metis
  have "file_of v' (seal (without_import b)) = file_of v b"
    by (rule same_image [OF _ _ _ pl w'(4)]) (simp_all add: block_updates)
  then show ?thesis
    using that [of w' v' "seal (without_import b)"] w' none by (simp add: clear_import_def block_updates flag_simps)
qed

lemma finish_import_cases:
  assumes i: "importing_at w v b bs" and full: "length bs = import_total_size b"
  obtains (Ok) w' v' b' where "finish_import V w = (Ok (), w')" "db_at w' v' b'" "active_overlay w' = None"
      "fnv1a64 bs = import_expected_checksum b" "file_of v' b' = afile_of_bytes bs" "\<not> is_importing b'"
      "\<not> is_checksum_stale b'" "sb_checksum b' = fnv1a64 bs"
  | (Err) w' v' b' where "finish_import V w = (Err (ChecksumMismatch (import_expected_checksum b) (fnv1a64 bs)), w')"
      "db_at w' v' b'" "active_overlay w' = None" "fnv1a64 bs \<noteq> import_expected_checksum b"
      "file_of v' b' = file_of v b" "\<not> is_importing b'"
proof -
  let ?base = "import_base_offset b"
  from i have d: "db_at w v b" and none: "active_overlay w = None" and imp: "is_importing b"
    and k: "import_written_until b = length bs" "?base mod STABLE_PAGE_SIZE = 0" "DB_REGION_OFFSET \<le> ?base"
      "?base + length bs \<le> cap v" "bytes_at (byte_of v) ?base (length bs) = bs"
    by (simp_all add: importing_at_def)
  obtain w1 v1 where l: "sb_load V w = (Ok b, w1)" "db_at w1 v1 b" "same_mem v v1" "touches w w1"
    "active_overlay w1 = active_overlay w"
    using db_at_load [OF d] by blast
  note s = same_memD [OF l(3)]
  from l(2) have h: "holds w1 v1 b" by (simp add: db_at_def)
  have fit: "?base + length bs \<le> cap v1" using k(4) s(2) by simp
  obtain v2 where c: "checksum_physical_range V ?base (length bs) w1 = (Ok (fnv1a64 bs), put_mem v2 w1)" "same_mem v1 v2"
    using checksum_physical_range_ok [OF holdsD(1,2) [OF h] fit] k(5) s(3) by metis
  note d2 = db_at_put [OF l(2) c(2)] and s2 = same_mem_trans [OF l(3) c(2)]
  have none2: "active_overlay (put_mem v2 w1) = None" using d2(2) l(5) none by simp
  have run: "finish_import V w = (if fnv1a64 bs \<noteq> import_expected_checksum b
      then tryS (clear_import V b) (\<lambda>_. errS (ChecksumMismatch (import_expected_checksum b) (fnv1a64 bs)))
      else sb_store V (adopt_import (fnv1a64 bs) b)) (put_mem v2 w1)"
    using reject_idle [OF none] l(1) imp k(1) full c(1) by (simp add: finish_import_def)
  show ?thesis
  proof (cases "fnv1a64 bs = import_expected_checksum b")
    case False
    obtain w3 v3 b3 where "clear_import V b (put_mem v2 w1) = (Ok (), w3)" "db_at w3 v3 b3" "active_overlay w3 = None"
      "\<not> is_importing b3" "file_of v3 b3 = file_of v2 b"
      using clear_import_ok [OF d2(1) none2] by metis
    then show ?thesis
      using Err [of w3 v3 b3] False run file_of_same [OF s2] by (simp add: errS_def)
  next
    case True
    let ?b = "adopt_import (fnv1a64 bs) b"
    have b: "db_base_offset ?b = ?base" "db_size ?b = length bs" "zero_extents ?b = []" "sb_checksum ?b = fnv1a64 bs"
      using full by (simp_all add: block_updates)
    have "?base + length bs \<le> cap v2" using fit same_memD(2) [OF c(2)] by simp
    then have pl: "img_placed ?b (cap v2)" using k(2,3) b by (simp add: img_placed_def)
    obtain w3 v3 where w3: "sb_store V ?b (put_mem v2 w1) = (Ok (), w3)" "db_at w3 v3 (seal ?b)"
      "active_overlay w3 = active_overlay (put_mem v2 w1)" "\<And>i. SUPERBLOCK_SIZE \<le> i \<Longrightarrow> byte_of v3 i = byte_of v2 i"
      using db_at_store [OF d2(1) storable_updates(4) [OF holdsD(5) [OF h]] pl] by metis
    have "byte_of v3 (?base + j) = bs ! j" if "j < length bs" for j
      using that w3(4) k(3) same_memD(3) [OF s2] nth_bytes_at [of j "length bs" "byte_of v" ?base] k(5)
      by (simp add: config_defs)
    then have "file_of v3 (seal ?b) = afile_of_bytes bs"
      using b by (auto simp: file_of_def afile_of_bytes_def img_byte_def fun_eq_iff)
    moreover have "\<not> is_importing (seal ?b) \<and> \<not> is_checksum_stale (seal ?b)"
      by (simp add: block_updates flag_simps)
    ultimately show ?thesis
      using Ok [of w3 v3 "seal ?b"] True run w3 none2 b(4) by simp
  qed
qed

lemma cancel_import_ok:
  assumes i: "importing_at w v b bs"
  obtains w' v' b' where "cancel_import V w = (Ok (), w')" "db_at w' v' b'" "active_overlay w' = None"
    "\<not> is_importing b'" "file_of v' b' = file_of v b"
proof -
  from i have d: "db_at w v b" and none: "active_overlay w = None" and imp: "is_importing b"
    by (simp_all add: importing_at_def)
  obtain w1 v1 where l: "sb_load V w = (Ok b, w1)" "db_at w1 v1 b" "same_mem v v1" "active_overlay w1 = active_overlay w"
    using db_at_load [OF d] by metis
  have none1: "active_overlay w1 = None" using l(4) none by simp
  obtain w' v' b' where "clear_import V b w1 = (Ok (), w')" "db_at w' v' b'" "active_overlay w' = None"
    "\<not> is_importing b'" "file_of v' b' = file_of v1 b"
    using clear_import_ok [OF l(2) none1] by metis
  then show ?thesis
    using that reject_idle [OF none] l(1) imp file_of_same [OF l(3)] by (simp add: cancel_import_def)
qed

section \<open>Rejected calls\<close>

text \<open>A rejected call reports the reason and changes neither image nor overlay.\<close>

definition rejected :: "('h, 's, 'z) blob_world_scheme \<Rightarrow> 'h \<times> 's \<Rightarrow> superblock \<Rightarrow> stable_memory_error \<Rightarrow>
    (unit, stable_memory_error) outcome \<times> ('h, 's, 'z) blob_world_scheme \<Rightarrow> bool" where
  "rejected w v b e r \<longleftrightarrow> fst r = Err e \<and> active_overlay (snd r) = active_overlay w \<and>
     (\<exists>v'. db_at (snd r) v' b \<and> same_mem v v')"

lemma rejected_load:
  assumes d: "db_at w v b" and f: "\<And>w'. f b w' = (Err e, w')" and none: "active_overlay w = None"
  shows "rejected w v b e (tryS reject_during_update (\<lambda>_. tryS (sb_load V) f) w)"
proof -
  obtain w1 v1 where "sb_load V w = (Ok b, w1)" "db_at w1 v1 b" "same_mem v v1" "active_overlay w1 = active_overlay w"
    using db_at_load [OF d] by metis
  then show ?thesis using reject_idle [OF none] f unfolding rejected_def by (intro conjI exI [of _ v1]) simp_all
qed

lemma import_rejections:
  assumes d: "db_at w v b" and none: "active_overlay w = None"
  shows "is_importing b \<Longrightarrow> rejected w v b ImportAlreadyStarted (begin_import V n hash w)"
    "\<not> is_importing b \<Longrightarrow> rejected w v b ImportNotStarted (import_chunk V off bs w)"
    "\<not> is_importing b \<Longrightarrow> rejected w v b ImportNotStarted (finish_import V w)"
    "\<not> is_importing b \<Longrightarrow> rejected w v b ImportNotStarted (cancel_import V w)"
    "is_importing b \<Longrightarrow> off \<noteq> import_written_until b \<Longrightarrow>
      rejected w v b (ImportOutOfOrder off (import_written_until b)) (import_chunk V off bs w)"
    "is_importing b \<Longrightarrow> off = import_written_until b \<Longrightarrow> off + length bs \<le> u64_max \<Longrightarrow>
      import_total_size b < off + length bs \<Longrightarrow>
      rejected w v b (ImportOutOfBounds off (length bs) (import_total_size b)) (import_chunk V off bs w)"
    "is_importing b \<Longrightarrow> import_written_until b \<noteq> import_total_size b \<Longrightarrow>
      rejected w v b (ImportIncomplete (import_written_until b) (import_total_size b)) (finish_import V w)"
  unfolding begin_import_def import_chunk_def finish_import_def cancel_import_def
  by (rule rejected_load [OF d _ none]; simp add: errS_def checked_addS_Some)+

lemma update_rejects_import:
  assumes d: "db_at w v b" and ov: "active_overlay w \<noteq> None"
  shows "rejected w v b UpdateInProgress (begin_import V n hash w)" "rejected w v b UpdateInProgress (import_chunk V off bs w)"
    "rejected w v b UpdateInProgress (finish_import V w)" "rejected w v b UpdateInProgress (cancel_import V w)"
    "rejected w v b UpdateInProgress (compact V w)"
proof -
  have "inv v" using d holdsD(2) [of w v b] by (simp add: db_at_def)
  then have "rejected w v b UpdateInProgress (Err UpdateInProgress, w)"
    using d same_mem_refl unfolding rejected_def by (intro conjI exI [of _ v]) simp_all
  then show "rejected w v b UpdateInProgress (begin_import V n hash w)" "rejected w v b UpdateInProgress (import_chunk V off bs w)"
    "rejected w v b UpdateInProgress (finish_import V w)" "rejected w v b UpdateInProgress (cancel_import V w)"
    "rejected w v b UpdateInProgress (compact V w)"
    using reject_updating [OF ov]
    by (simp_all add: begin_import_def import_chunk_def finish_import_def cancel_import_def compact_def)
qed

end

section \<open>Sessions\<close>

fun import_chunks :: "('h \<times> 's) memory_ops \<Rightarrow> nat \<Rightarrow> byte list list \<Rightarrow> ('h, 's, 'z, unit) blob_stm" where
  "import_chunks V off [] = retS ()"
| "import_chunks V off (c # cs) = tryS (import_chunk V off c) (\<lambda>_. import_chunks V (off + length c) cs)"

definition import_session :: "('h \<times> 's) memory_ops \<Rightarrow> u64w \<Rightarrow> byte list list \<Rightarrow> ('h, 's, 'z, unit) blob_stm" where
  "import_session V expected chunks =
     tryS (begin_import V (length (concat chunks)) expected) (\<lambda>_.
     tryS (import_chunks V 0 chunks) (\<lambda>_. finish_import V))"

fun export_chunks :: "('h \<times> 's) memory_ops \<Rightarrow> nat \<Rightarrow> nat list \<Rightarrow> ('h, 's, 'z, byte list list) blob_stm" where
  "export_chunks V off [] = retS []"
| "export_chunks V off (n # ns) = tryS (export_chunk V off n) (\<lambda>c.
     tryS (export_chunks V (off + length c) ns) (\<lambda>cs. retS (c # cs)))"

context db_mem
begin

lemma import_chunks_cases:
  assumes "importing_at w v b bs" "length bs + length (concat cs) \<le> import_total_size b"
  obtains (Ok) w' v' b' where "import_chunks V (length bs) cs w = (Ok (), w')" "importing_at w' v' b' (bs @ concat cs)"
      "file_of v' b' = file_of v b" "import_total_size b' = import_total_size b"
      "import_expected_checksum b' = import_expected_checksum b"
  | (Err) e w' v' b' bs' where "import_chunks V (length bs) cs w = (Err e, w')" "importing_at w' v' b' bs'"
      "file_of v' b' = file_of v b"
  using assms
proof (induction cs arbitrary: w v b bs thesis)
  case Nil
  then show ?case by (simp add: retS_def)
next
  case (Cons c cs)
  have len: "length bs + length c \<le> import_total_size b" using Cons.prems(4) by simp
  show ?case
  proof (cases rule: import_chunk_cases [OF Cons.prems(3) len])
    case (1 w1 v1 b1)
    have run: "import_chunks V (length bs) (c # cs) w = import_chunks V (length (bs @ c)) cs w1" using 1(1) by simp
    have len1: "length (bs @ c) + length (concat cs) \<le> import_total_size b1" using Cons.prems(4) 1(4) by simp
    show ?thesis
    proof (rule Cons.IH [OF _ _ 1(2) len1])
      fix w' v' b'
      assume "import_chunks V (length (bs @ c)) cs w1 = (Ok (), w')" "importing_at w' v' b' ((bs @ c) @ concat cs)"
        "file_of v' b' = file_of v1 b1" "import_total_size b' = import_total_size b1"
        "import_expected_checksum b' = import_expected_checksum b1"
      then show ?thesis using Cons.prems(1) [of w' v' b'] run 1(3-5) by simp
    next
      fix e w' v' b' bs'
      assume "import_chunks V (length (bs @ c)) cs w1 = (Err e, w')" "importing_at w' v' b' bs'"
        "file_of v' b' = file_of v1 b1"
      then show ?thesis using Cons.prems(2) [of e w' v' b' bs'] run 1(3) by simp
    qed
  next
    case (2 e w1 v1)
    then show ?thesis using Cons.prems(2) [of e w1 v1 b bs] file_of_same by simp
  qed
qed

lemma import_session_cases:
  assumes d: "db_at w v b" and none: "active_overlay w = None" and imp: "\<not> is_importing b"
    and room: "cap v + length (concat cs) \<le> u64_max"
  obtains (Ok) w' v' b' where "import_session V expected cs w = (Ok (), w')" "db_at w' v' b'" "active_overlay w' = None"
      "\<not> is_importing b'" "file_of v' b' = afile_of_bytes (concat cs)" "fnv1a64 (concat cs) = expected"
      "sb_checksum b' = expected" "\<not> is_checksum_stale b'"
  | (Err) e w' v' b' where "import_session V expected cs w = (Err e, w')" "db_at w' v' b'" "active_overlay w' = None"
      "file_of v' b' = file_of v b"
proof -
  let ?n = "length (concat cs)"
  obtain w1 v1 b1 where b1: "begin_import V ?n expected w = (Ok (), w1)" "importing_at w1 v1 b1 []"
    "file_of v1 b1 = file_of v b" "import_total_size b1 = ?n" "import_expected_checksum b1 = expected"
    using begin_import_ok [OF d none imp room] by metis
  have len: "length [] + ?n \<le> import_total_size b1" using b1(4) by simp
  show ?thesis
  proof (cases rule: import_chunks_cases [OF b1(2) len])
    case (2 e w' v' b' bs')
    then have "import_session V expected cs w = (Err e, w')" using b1(1) by (simp add: import_session_def)
    then show ?thesis using Err [of e w' v' b'] 2 b1(3) by (simp add: importing_at_def)
  next
    case (1 w2 v2 b2)
    have run: "import_session V expected cs w = finish_import V w2" using b1(1) 1(1) by (simp add: import_session_def)
    have im: "importing_at w2 v2 b2 (concat cs)" "?n = import_total_size b2" using 1(2,4) b1(4) by simp_all
    show ?thesis
    proof (cases rule: finish_import_cases [OF im])
      case (1 w3 v3 b3)
      show ?thesis by (rule Ok [of w3 v3 b3]) (use run 1 \<open>import_expected_checksum b2 = _\<close> b1(5) in simp_all)
    next
      case (2 w3 v3 b3)
      show ?thesis
        by (rule Err [of _ w3 v3 b3]) (use run 2 \<open>file_of v2 b2 = _\<close> b1(3) in simp_all)
    qed
  qed
qed

lemma export_chunks_ok:
  assumes "db_at w v b" "active_overlay w = None"
  shows "\<exists>cs w' v'. export_chunks V off ns w = (Ok cs, w') \<and> db_at w' v' b \<and> same_mem v v' \<and>
    active_overlay w' = None \<and> concat cs = bytes_at (snd (file_of v b)) off (min (sum_list ns) (db_size b - off))"
  using assms
proof (induction ns arbitrary: off w v)
  case Nil
  have "inv v" using Nil.prems(1) holdsD(2) [of w v b] by (simp add: db_at_def)
  then show ?case using Nil.prems same_mem_refl by (intro exI [of _ "[]"] exI [of _ w] exI [of _ v]) (simp add: retS_def)
next
  case (Cons n ns)
  let ?f = "snd (file_of v b)" and ?k = "min n (db_size b - off)"
  obtain w1 v1 where e: "export_chunk V off n w = (Ok (bytes_at ?f off ?k), w1)" "db_at w1 v1 b" "same_mem v v1"
    "active_overlay w1 = None"
    using export_chunk_ok [OF Cons.prems] by metis
  have f1: "snd (file_of v1 b) = ?f" using file_of_same [OF e(3)] by simp
  obtain cs w2 v2 where r: "export_chunks V (off + ?k) ns w1 = (Ok cs, w2)" "db_at w2 v2 b" "same_mem v1 v2"
    "active_overlay w2 = None" "concat cs = bytes_at ?f (off + ?k) (min (sum_list ns) (db_size b - (off + ?k)))"
    using Cons.IH [OF e(2,4), of "off + ?k"] f1 by metis
  let ?m = "min (sum_list (n # ns)) (db_size b - off)"
  have "?m = ?k + min (sum_list ns) (db_size b - (off + ?k))" by auto
  then have "concat (bytes_at ?f off ?k # cs) = bytes_at ?f off ?m" using r(5) by (simp add: bytes_at_append)
  moreover have "export_chunks V off (n # ns) w = (Ok (bytes_at ?f off ?k # cs), w2)"
    using e(1) r(1) by (simp add: retS_def)
  ultimately show ?case using r(2,4) same_mem_trans [OF e(3) r(3)] by blast
qed

end

end
