(* ===== verification/Checksum_Refresh.thy ===== *)
theory Checksum_Refresh
  imports Import_Session
begin

text \<open>
  Refreshing the stored checksum, at once or in bounded chunks.  A chunked refresh computes the
  checksum of the whole file: its state is the hash of a prefix (\<open>refresh_inv\<close>), it restarts when
  a transaction was committed in between, it never recurses more than once, and it completes
  after as many calls as the file has chunks.
\<close>

definition refresh_inv :: "afile \<Rightarrow> superblock \<Rightarrow> bool" where
  "refresh_inv A b \<longleftrightarrow> (is_checksum_refreshing b \<and> checksum_refresh_tx_id b = last_tx_id b \<longrightarrow>
     checksum_refresh_offset b \<le> fst A \<and>
     checksum_refresh_hash b = fnv1a64 (bytes_at (snd A) 0 (checksum_refresh_offset b)))"

text \<open>Where the next chunk starts.\<close>

definition refresh_start :: "superblock \<Rightarrow> nat" where
  "refresh_start b = (if is_checksum_refreshing b \<and> checksum_refresh_tx_id b = last_tx_id b
     then checksum_refresh_offset b else 0)"

lemma start_refresh_fields:
  "db_size (start_refresh b) = db_size b" "db_base_offset (start_refresh b) = db_base_offset b"
  "zero_extents (start_refresh b) = zero_extents b" "last_tx_id (start_refresh b) = last_tx_id b"
  "is_importing (start_refresh b) = is_importing b" "is_checksum_refreshing (start_refresh b)"
  by (simp_all add: start_refresh_def flag_simps)

text \<open>What a chunk that ends at \<open>fin\<close> leaves.\<close>

definition refreshed_to :: "nat \<Rightarrow> afile \<Rightarrow> superblock \<Rightarrow> superblock \<Rightarrow> bool" where
  "refreshed_to fin A b b' \<longleftrightarrow> db_size b' = db_size b \<and> is_importing b' = is_importing b \<and>
     (if fin = fst A then \<not> is_checksum_refreshing b' \<and> \<not> is_checksum_stale b' \<and> sb_checksum b' = fnv1a64 (afile_bytes A)
      else refresh_start b' = fin \<and> refresh_inv A b')"

lemma refreshed_progress:
  assumes tx: "checksum_refresh_tx_id (start_refresh b) = last_tx_id b" and sz: "db_size b = fst A" and le: "fin \<le> fst A"
  shows "refreshed_to fin A b (seal (progress_refresh fin (fnv1a64 (bytes_at (snd A) 0 fin)) (start_refresh b)))"
  using assms start_refresh_fields [of b]
  by (auto simp: refreshed_to_def refresh_start_def refresh_inv_def progress_refresh_def with_checksum_def
      clear_checksum_refresh_def Let_def flag_simps afile_bytes_def)

context db_mem
begin

text \<open>A call whose refresh belongs to the current transaction.\<close>

lemma refresh_chunk_current:
  assumes d: "db_at w v b" and none: "active_overlay w = None" and imp: "\<not> is_importing b" and mb: "0 < mb"
    and tx: "checksum_refresh_tx_id (start_refresh b) = last_tx_id b" and ri: "refresh_inv (file_of v b) b"
  defines "fin \<equiv> min (db_size b) (refresh_start b + mb)"
  obtains w' v' b' where "refresh_checksum_chunk_fuel (Suc n) V mb w =
      (Ok (refresh_report fin (fnv1a64 (bytes_at (snd (file_of v b)) 0 fin)) b), w')"
    "db_at w' v' b'" "active_overlay w' = None" "file_of v' b' = file_of v b" "refreshed_to fin (file_of v b) b b'"
proof -
  let ?b = "start_refresh b" and ?A = "file_of v b"
  let ?h = "fnv1a64 (bytes_at (snd ?A) 0 fin)"
  obtain w1 v1 where l: "sb_load V w = (Ok b, w1)" "db_at w1 v1 b" "same_mem v v1" "active_overlay w1 = active_overlay w"
    using db_at_load [OF d] by metis
  from l(2) have h: "holds w1 v1 b" and pl: "img_placed b (cap v1)" by (simp_all add: db_at_def)
  note f = start_refresh_fields [of b] and hd = holdsD [OF h]
  have sz: "fst ?A = db_size b" by (simp add: file_of_def)
  have start: "checksum_refresh_offset ?b = refresh_start b" "refresh_start b \<le> fin"
    "checksum_refresh_hash ?b = fnv1a64 (bytes_at (snd ?A) 0 (refresh_start b))"
    using tx ri sz by (auto simp: start_refresh_def refresh_start_def refresh_inv_def fin_def split: if_splits)
  have fin: "fin = min (db_size ?b) (saturating_add (checksum_refresh_offset ?b) mb)"
    using storable_fields(3) [OF hd(5)] start(1) f(1) by (auto simp: fin_def saturating_add_def)
  have pl': "img_placed ?b (cap v1)" using pl f by (simp add: img_placed_def)
  have img: "img_byte ?b (byte_of v1) = snd ?A"
    using same_memD(3) [OF l(3)] f by (auto simp: file_of_def img_byte_def fun_eq_iff)
  have rd: "\<exists>w2. read_logical_range V ?b i k wa = (Ok (bytes_at (snd ?A) i k), w2) \<and> reached w1 v1 w2"
    if "reached w1 v1 wa" "i + k \<le> fin" for i k wa
    using read_logical_range_ok [OF that(1) hd(1,2) pl', of i k] that(2) f(1) img by (simp add: fin_def)
  obtain w2 where w2: "hash_loop (read_logical_range V ?b) (refresh_start b) fin (checksum_refresh_hash ?b) w1 =
      (Ok (fin, fold_fnv1a64 (checksum_refresh_hash ?b) (bytes_at (snd ?A) (refresh_start b) (fin - refresh_start b))), w2)"
    "reached w1 v1 w2"
    using hash_loop_ok [where I = "reached w1 v1" and rd = "read_logical_range V ?b", OF rd reached_refl [OF hd(1,2)] start(2)]
    by blast
  have hash: "fold_fnv1a64 (checksum_refresh_hash ?b) (bytes_at (snd ?A) (refresh_start b) (fin - refresh_start b)) = ?h"
    using bytes_at_split [of "refresh_start b" fin "snd ?A" 0] start by (simp add: fnv1a64_fold)
  obtain v2 where v2: "w2 = put_mem v2 w1" "same_mem v1 v2" using w2(2) by (auto simp: reached_def)
  note d2 = db_at_put [OF l(2) v2(2), folded v2(1)]
  let ?p = "progress_refresh fin ?h ?b"
  have p: "db_size ?p = db_size b" "db_base_offset ?p = db_base_offset b" "zero_extents ?p = zero_extents b"
    using f by (simp_all add: progress_refresh_def with_checksum_def clear_checksum_refresh_def Let_def)
  have "fin \<le> u64_max" using storable_fields(3) [OF hd(5)] by (simp add: fin_def)
  note st = storable_updates(8) [OF hd(5) this]
  have "img_placed b (cap v2)" using pl same_memD(2) [OF v2(2)] by simp
  then have "img_placed ?p (cap v2)" using p by (simp add: img_placed_def)
  then obtain w3 v3 where w3: "sb_store V ?p w2 = (Ok (), w3)" "db_at w3 v3 (seal ?p)" "active_overlay w3 = active_overlay w2"
    "\<And>i. SUPERBLOCK_SIZE \<le> i \<Longrightarrow> byte_of v3 i = byte_of v2 i"
    using db_at_store [OF d2(1) st] by metis
  have "file_of v3 (seal ?p) = file_of v2 b"
    by (rule same_image [OF _ _ _ \<open>img_placed b (cap v2)\<close> w3(4)]) (simp_all add: p)
  then have same: "file_of v3 (seal ?p) = ?A" using file_of_same [OF same_mem_trans [OF l(3) v2(2)]] by simp
  have "refresh_checksum_chunk_fuel (Suc n) V mb w = (Ok (refresh_report fin ?h b), w3)"
    using reject_idle [OF none] mb l(1) imp tx f(4) w2(1) hash w3(1) start(1) fin [symmetric]
    by (simp add: Let_def refresh_report_def retS_def f(1))
  moreover have "refreshed_to fin ?A b (seal ?p)" by (rule refreshed_progress [OF tx]) (simp_all add: sz fin_def)
  ultimately show ?thesis using that w3(2,3) d2(2) l(4) none same by metis
qed

text \<open>A refresh left over from an older transaction is dropped and started again; the second
  call is the last one, so two units of fuel are enough.\<close>

lemma refresh_chunk_ok:
  assumes d: "db_at w v b" and none: "active_overlay w = None" and imp: "\<not> is_importing b" and mb: "0 < mb"
    and ri: "refresh_inv (file_of v b) b" and fuel: "2 \<le> fuel"
  defines "fin \<equiv> min (db_size b) (refresh_start b + mb)"
  obtains w' v' b' where "refresh_checksum_chunk_fuel fuel V mb w =
      (Ok (refresh_report fin (fnv1a64 (bytes_at (snd (file_of v b)) 0 fin)) b), w')"
    "db_at w' v' b'" "active_overlay w' = None" "file_of v' b' = file_of v b" "refreshed_to fin (file_of v b) b b'"
proof -
  obtain n where n: "fuel = Suc (Suc n)" using fuel by (metis numeral_2_eq_2 Suc_le_D Suc_le_mono)
  show ?thesis
  proof (cases "checksum_refresh_tx_id (start_refresh b) = last_tx_id b")
    case True
    then show ?thesis
      using refresh_chunk_current [OF d none imp mb True ri, of "Suc n"] that unfolding n fin_def by metis
  next
    case False
    then have rf: "is_checksum_refreshing b" "start_refresh b = b" "refresh_start b = 0"
      by (auto simp: start_refresh_def refresh_start_def split: if_splits)
    obtain w1 v1 where l: "sb_load V w = (Ok b, w1)" "db_at w1 v1 b" "same_mem v v1" "active_overlay w1 = active_overlay w"
      using db_at_load [OF d] by metis
    from l(2) have h: "holds w1 v1 b" and pl: "img_placed b (cap v1)" by (simp_all add: db_at_def)
    let ?c = "seal (clear_checksum_refresh b)"
    have "img_placed (clear_checksum_refresh b) (cap v1)"
      using pl by (simp add: img_placed_def clear_checksum_refresh_def)
    then obtain w2 v2 where w2: "sb_store V (clear_checksum_refresh b) w1 = (Ok (), w2)" "db_at w2 v2 ?c"
      "active_overlay w2 = active_overlay w1" "\<And>i. SUPERBLOCK_SIZE \<le> i \<Longrightarrow> byte_of v2 i = byte_of v1 i"
      using db_at_store [OF l(2) storable_updates(6) [OF holdsD(5) [OF h]]] by metis
    have same: "file_of v2 ?c = file_of v b"
      using same_image [OF _ _ _ pl w2(4), of ?c] file_of_same [OF l(3)] by (simp add: clear_checksum_refresh_def)
    have c: "\<not> is_checksum_refreshing ?c" "is_importing ?c = is_importing b" "db_size ?c = db_size b"
      by (simp_all add: clear_checksum_refresh_def flag_simps)
    then have c': "checksum_refresh_tx_id (start_refresh ?c) = last_tx_id ?c" "refresh_inv (file_of v2 ?c) ?c" "refresh_start ?c = 0"
      by (simp_all add: start_refresh_def refresh_inv_def refresh_start_def)
    have none2: "active_overlay w2 = None" using w2(3) l(4) none by simp
    have run: "refresh_checksum_chunk_fuel fuel V mb w = refresh_checksum_chunk_fuel (Suc n) V mb w2"
      using reject_idle [OF none] mb l(1) imp False rf(2) w2(1) by (simp add: n Let_def)
    obtain w3 v3 b3 where w3: "refresh_checksum_chunk_fuel (Suc n) V mb w2 =
        (Ok (refresh_report fin (fnv1a64 (bytes_at (snd (file_of v b)) 0 fin)) ?c), w3)"
      "db_at w3 v3 b3" "active_overlay w3 = None" "file_of v3 b3 = file_of v b" "refreshed_to fin (file_of v b) ?c b3"
      using refresh_chunk_current [OF w2(2) none2 _ mb c'(1,2), of n] imp c c'(3) rf(3) same unfolding fin_def by metis
    have "refreshed_to fin (file_of v b) b b3" using w3(5) c by (simp add: refreshed_to_def)
    moreover have "refresh_report fin h ?c = refresh_report fin h b" for h using c(3) by (simp add: refresh_report_def)
    ultimately show ?thesis using that w3 run by metis
  qed
qed

end

text \<open>Calling until the report is complete, at most \<open>k\<close> times.\<close>

fun refresh_calls :: "nat \<Rightarrow> ('h \<times> 's) memory_ops \<Rightarrow> nat \<Rightarrow> ('h, 's, 'z, checksum_refresh option) blob_stm" where
  "refresh_calls 0 V mb = retS None"
| "refresh_calls (Suc k) V mb = tryS (refresh_checksum_chunk V mb) (\<lambda>report.
     if cr_complete report then retS (Some report) else refresh_calls k V mb)"

context db_mem
begin

lemma refresh_calls_complete:
  assumes "db_at w v b" "active_overlay w = None" "\<not> is_importing b" "0 < mb" "refresh_inv (file_of v b) b"
    and "db_size b \<le> refresh_start b + k * mb" "0 < k"
  shows "\<exists>w' v' b'. refresh_calls k V mb w = (Ok (Some \<lparr>cr_complete = True,
        cr_checksum = fnv1a64 (afile_bytes (file_of v b)), cr_scanned_bytes = db_size b, cr_db_size = db_size b\<rparr>), w') \<and>
      db_at w' v' b' \<and> file_of v' b' = file_of v b \<and> \<not> is_checksum_stale b' \<and>
      sb_checksum b' = fnv1a64 (afile_bytes (file_of v b))"
  using assms
proof (induction k arbitrary: w v b)
  case (Suc k)
  let ?A = "file_of v b" and ?fin = "min (db_size b) (refresh_start b + mb)"
  have sz: "fst ?A = db_size b" by (simp add: file_of_def)
  obtain w1 v1 b1 where c: "refresh_checksum_chunk V mb w =
      (Ok (refresh_report ?fin (fnv1a64 (bytes_at (snd ?A) 0 ?fin)) b), w1)"
    "db_at w1 v1 b1" "active_overlay w1 = None" "file_of v1 b1 = ?A" "refreshed_to ?fin ?A b b1"
    unfolding refresh_checksum_chunk_def using refresh_chunk_ok [OF Suc.prems(1-5) order_refl] by metis
  show ?case
  proof (cases "?fin = db_size b")
    case True
    then show ?thesis
      using c sz by (intro exI [of _ w1] exI [of _ v1] exI [of _ b1])
        (simp add: refresh_report_def refreshed_to_def afile_bytes_def retS_def)
  next
    case False
    then have f: "?fin = refresh_start b + mb" "refresh_start b1 = ?fin" "refresh_inv ?A b1" "db_size b1 = db_size b"
      "\<not> is_importing b1"
      using c(5) sz Suc.prems(3) by (auto simp: refreshed_to_def)
    have ne: "refresh_start b + mb \<noteq> db_size b" using f(1) False by simp
    have "db_size b1 \<le> refresh_start b1 + k * mb" using Suc.prems(6) f by (simp add: add.assoc)
    moreover have "0 < k" using Suc.prems(6) f(1) False by (cases k) auto
    ultimately show ?thesis
      using Suc.IH [OF c(2,3) f(5) Suc.prems(4)] f c(1,4) ne by (simp add: refresh_report_def)
  qed
qed simp

end

end
