(* ===== verification/Vfs_File.thy ===== *)
theory Vfs_File
  imports Vfs_State
begin

text \<open>
  The file callbacks of \<open>src/src/sqlite_vfs/file.rs\<close>.

  A callback is a state transformer on the file handle SQLite owns and the shared state.  It
  returns the result code together with what it stored through its output pointer, if anything:
  the buffer of a read, a size, a flag.  A failed read leaves its buffer to SQLite, which ignores
  it, so its content is not part of the result.  A null pointer is \<open>None\<close>.  The counters of
  \<open>read_metrics\<close> are compiled in for measurements only and are left out.
\<close>

section \<open>The file handle\<close>

datatype file_kind = MainFile | TempFile temp_file

record ic_stable_file =
  if_context :: context_id
  if_kind :: file_kind
  if_read_only :: bool
  if_read_snapshot :: "superblock option"
  if_read_page_offsets :: page_offset_cache
  if_powersafe_overwrite :: bool

type_synonym ('h, 's, 'z, 'a) file_stm =
  "(ic_stable_file \<times> ('h, 's, 'z) vfs_world_scheme, 'a, stable_memory_error) stm"

definition file_new ::
    "file_kind \<Rightarrow> bool \<Rightarrow> context_id \<Rightarrow> superblock option \<Rightarrow> ic_stable_file" where
  "file_new kind read_only context read_snapshot = \<lparr>if_context = context, if_kind = kind,
     if_read_only = read_only, if_read_snapshot = read_snapshot,
     if_read_page_offsets = page_offset_cache_new, if_powersafe_overwrite = True\<rparr>"

definition install :: "file_kind \<Rightarrow> bool \<Rightarrow> context_id \<Rightarrow> ic_stable_file" where
  "install kind read_only context = file_new kind read_only context None"

definition checked_amount :: "c_int \<Rightarrow> nat option" where
  "checked_amount amount = (if amount < 0 then None else usize_try_from (nat amount))"

definition checked_offset :: "int \<Rightarrow> nat option" where
  "checked_offset offset = (if offset < 0 then None else Some (nat offset))"

text \<open>The closure of \<open>memory::with_context(file.context, ..)\<close> also borrows the handle.\<close>

definition in_context :: "('h, 's, 'z, 'a) file_stm \<Rightarrow> ('h, 's, 'z, 'a) file_stm" where
  "in_context m fw =
    (let (f, w) = fw; (r, (f', w')) = m (f, w\<lparr>current_context := Some (if_context f)\<rparr>)
     in (r, (f', w'\<lparr>current_context := current_context w\<rparr>)))"

definition on_world :: "('h, 's, 'z, 'a) vfs_stm \<Rightarrow> ('h, 's, 'z, 'a) file_stm" where
  "on_world m fw = (let (r, w') = m (snd fw) in (r, (fst fw, w')))"

definition fail_with :: "c_int \<Rightarrow> stable_memory_error \<Rightarrow> ('h, 's, 'z, c_int \<times> 'b option) file_stm" where
  "fail_with rc e fw = (Ok (rc, None), (fst fw, record_last_error rc (error_text e) (snd fw)))"

section \<open>Reading\<close>

definition read_code :: "bool \<Rightarrow> c_int" where
  "read_code complete = (if complete then SQLITE_OK else SQLITE_IOERR_SHORT_READ)"

definition snapshot_block :: "('h \<times> 's) memory_ops \<Rightarrow> ('h, 's, 'z, superblock) file_stm" where
  "snapshot_block V fw = (case if_read_snapshot (fst fw) of
      Some block \<Rightarrow> (Ok block, fw)
    | None \<Rightarrow> tryS (on_world (sb_load V)) (\<lambda>block.
        tryS (modifyS (\<lambda>(f, w). (f\<lparr>if_read_snapshot := Some block\<rparr>, w))) (\<lambda>_. retS block)) fw)"

definition read_cached :: "('h \<times> 's) memory_ops \<Rightarrow> superblock \<Rightarrow> nat \<Rightarrow> nat \<Rightarrow>
    ('h, 's, 'z, byte list \<times> bool) file_stm" where
  "read_cached V block offset n fw =
    (let (f, w) = fw;
         (r, (w', c')) = read_base_at_with_page_cache V block offset n (w, if_read_page_offsets f)
     in (r, (f\<lparr>if_read_page_offsets := c'\<rparr>, w')))"

definition x_read :: "('h \<times> 's) memory_ops \<Rightarrow> c_int \<Rightarrow> int \<Rightarrow> ('h, 's, 'z, c_int \<times> byte list option) file_stm" where
  "x_read V amount offset fw = (case checked_amount amount of
      None \<Rightarrow> (Ok (SQLITE_IOERR_READ, None), fw)
    | Some n \<Rightarrow> (case checked_offset offset of
        None \<Rightarrow> (Ok (SQLITE_IOERR_READ, None), fw)
      | Some off \<Rightarrow> (case if_kind (fst fw) of
          TempFile temp \<Rightarrow> (let (bs, complete) = temp_read temp off n in (Ok (read_code complete, Some bs), fw))
        | MainFile \<Rightarrow>
            in_context (catchS
              (if if_read_only (fst fw)
               then tryS (snapshot_block V) (\<lambda>block. read_cached V block off n)
               else on_world (blob_read_at V off n))
              (fail_with SQLITE_IOERR_READ)
              (\<lambda>(bs, complete). retS (read_code complete, Some bs))) fw)))"

section \<open>Writing\<close>

definition write_code :: "c_int \<Rightarrow> bool \<Rightarrow> c_int" where
  "write_code failure done = (if done then SQLITE_OK else failure)"

definition on_temp ::
    "c_int \<Rightarrow> (temp_file \<Rightarrow> (bool \<times> temp_file) option) \<Rightarrow> temp_file \<Rightarrow> ('h, 's, 'z, c_int) file_stm" where
  "on_temp failure m temp fw = (case m temp of None \<Rightarrow> (Panic, fw)
     | Some (done, temp') \<Rightarrow> (Ok (write_code failure done), (fst fw\<lparr>if_kind := TempFile temp'\<rparr>, snd fw)))"

text \<open>The call of \<open>stable_blob\<close> in the context of the file, with its error recorded.\<close>

definition on_main :: "c_int \<Rightarrow> ('h, 's, 'z, unit) vfs_stm \<Rightarrow> ('h, 's, 'z, c_int) file_stm" where
  "on_main failure m = in_context (catchS (on_world m)
     (\<lambda>e fw. (Ok failure, (fst fw, record_last_error failure (error_text e) (snd fw))))
     (\<lambda>_. retS SQLITE_OK))"

text \<open>\<open>buf\<close> is what the pointer gives access to; the slice takes \<open>amount\<close> bytes of it.\<close>

definition x_write ::
    "('h \<times> 's) memory_ops \<Rightarrow> byte list \<Rightarrow> c_int \<Rightarrow> int \<Rightarrow> ('h, 's, 'z, c_int) file_stm" where
  "x_write V buf amount offset fw =
    (if if_read_only (fst fw)
     then (Ok SQLITE_READONLY, (fst fw,
       record_last_error SQLITE_READONLY ''write attempted on read-only file'' (snd fw)))
     else case checked_amount amount of None \<Rightarrow> (Ok SQLITE_IOERR_WRITE, fw)
     | Some n \<Rightarrow> (case checked_offset offset of None \<Rightarrow> (Ok SQLITE_IOERR_WRITE, fw)
       | Some off \<Rightarrow> (let bytes = take n buf in case if_kind (fst fw) of
           TempFile temp \<Rightarrow> on_temp SQLITE_IOERR_WRITE (temp_write off bytes) temp fw
         | MainFile \<Rightarrow> on_main SQLITE_IOERR_WRITE (blob_write_at V off bytes) fw)))"

definition x_truncate :: "('h \<times> 's) memory_ops \<Rightarrow> int \<Rightarrow> ('h, 's, 'z, c_int) file_stm" where
  "x_truncate V sz fw =
    (if if_read_only (fst fw)
     then (Ok SQLITE_READONLY, (fst fw,
       record_last_error SQLITE_READONLY ''truncate attempted on read-only file'' (snd fw)))
     else case checked_offset sz of None \<Rightarrow> (Ok SQLITE_IOERR_TRUNCATE, fw)
     | Some n \<Rightarrow> (case if_kind (fst fw) of
         TempFile temp \<Rightarrow> on_temp SQLITE_IOERR_TRUNCATE (temp_truncate n) temp fw
       | MainFile \<Rightarrow> on_main SQLITE_IOERR_TRUNCATE (blob_truncate V n) fw))"

definition x_sync :: "('h, 's, 'z, c_int) file_stm" where
  "x_sync = retS SQLITE_OK"

definition x_close :: "('h, 's, 'z) vfs_world_scheme \<Rightarrow> c_int \<times> ('h, 's, 'z) vfs_world_scheme" where
  "x_close w = (SQLITE_OK, w)"

section \<open>Size\<close>

definition size_result :: "nat \<Rightarrow> c_int \<times> int option" where
  "size_result n = (if n \<le> i64_max then (SQLITE_OK, Some (int n)) else (SQLITE_IOERR_FSTAT, None))"

definition x_file_size :: "('h \<times> 's) memory_ops \<Rightarrow> ('h, 's, 'z, c_int \<times> int option) file_stm" where
  "x_file_size V fw = (case if_kind (fst fw) of
      TempFile temp \<Rightarrow> (Ok (size_result (temp_len temp)), fw)
    | MainFile \<Rightarrow>
        if if_read_only (fst fw)
        then case if_read_snapshot (fst fw) of
            Some block \<Rightarrow> (Ok (size_result (db_size block)), fw)
          | None \<Rightarrow> in_context (catchS (snapshot_block V) (fail_with SQLITE_IOERR_FSTAT)
              (\<lambda>block. retS (size_result (db_size block)))) fw
        else in_context (catchS (on_world (blob_file_size V)) (fail_with SQLITE_IOERR_FSTAT)
          (\<lambda>n. retS (size_result n))) fw)"

section \<open>Locks and controls\<close>

definition x_lock :: "c_int \<Rightarrow> ('h, 's, 'z, c_int) file_stm" where
  "x_lock level fw = (case if_kind (fst fw) of
      TempFile _ \<Rightarrow> (Ok SQLITE_OK, fw)
    | MainFile \<Rightarrow> (Ok SQLITE_OK, (fst fw,
        (snd fw)\<lparr>lock_level := lock_for (if_context (fst fw)) level (lock_level (snd fw))\<rparr>)))"

definition x_unlock :: "c_int \<Rightarrow> ('h, 's, 'z, c_int) file_stm" where
  "x_unlock level fw = (case if_kind (fst fw) of
      TempFile _ \<Rightarrow> (Ok SQLITE_OK, fw)
    | MainFile \<Rightarrow> (Ok SQLITE_OK, (fst fw,
        (snd fw)\<lparr>lock_level := unlock_for (if_context (fst fw)) level (lock_level (snd fw))\<rparr>)))"

definition x_check_reserved_lock :: "('h, 's, 'z, c_int \<times> c_int) file_stm" where
  "x_check_reserved_lock fw = (case if_kind (fst fw) of
      TempFile _ \<Rightarrow> (Ok (SQLITE_OK, 0), fw)
    | MainFile \<Rightarrow> (Ok (SQLITE_OK,
        if has_reserved_for (if_context (fst fw)) (lock_level (snd fw)) then 1 else 0), fw))"

text \<open>What a file control stored through its argument.  The C library's \<open>sqlite3_mprintf\<close> is a
  parameter: it gets the format and the name and returns the string allocated, if any.\<close>

datatype fcntl_out = Unwritten | IntOut c_int | NameOut "byte list option"

definition write_c_int :: "c_int option \<Rightarrow> c_int \<Rightarrow> c_int \<times> fcntl_out" where
  "write_c_int arg v = (SQLITE_OK, if arg = None then Unwritten else IntOut v)"

definition x_file_control :: "(byte list \<Rightarrow> byte list \<Rightarrow> byte list option) \<Rightarrow> c_int \<Rightarrow> c_int option \<Rightarrow>
    ('h, 's, 'z, c_int \<times> fcntl_out) file_stm" where
  "x_file_control mprintf opcode arg fw =
    (if opcode = SQLITE_FCNTL_LOCKSTATE
     then (Ok (write_c_int arg (level_for (if_context (fst fw)) (lock_level (snd fw)))), fw)
     else if opcode = SQLITE_FCNTL_LAST_ERRNO
     then in_context (\<lambda>fw. (Ok (write_c_int arg (last_errno (snd fw))), fw)) fw
     else if opcode = SQLITE_FCNTL_SIZE_HINT \<or> opcode = SQLITE_FCNTL_CHUNK_SIZE
     then (Ok (SQLITE_OK, Unwritten), fw)
     else if opcode = SQLITE_FCNTL_HAS_MOVED then (Ok (write_c_int arg 0), fw)
     else if opcode = SQLITE_FCNTL_VFSNAME
     then (Ok (SQLITE_OK, if arg = None then Unwritten
       else NameOut (mprintf (ascii ''%s'') (ascii ''icstable''))), fw)
     else if opcode = SQLITE_FCNTL_POWERSAFE_OVERWRITE
     then (case arg of None \<Rightarrow> (Ok (SQLITE_OK, Unwritten), fw)
       | Some v \<Rightarrow>
           let f = (if 0 \<le> v then (fst fw)\<lparr>if_powersafe_overwrite := (v \<noteq> 0)\<rparr> else fst fw) in
           (Ok (SQLITE_OK, IntOut (if if_powersafe_overwrite f then 1 else 0)), (f, snd fw)))
     else (Ok (SQLITE_NOTFOUND, Unwritten), fw))"

definition x_sector_size :: c_int where
  "x_sector_size = int SQLITE_PAGE_SIZE"

definition x_device_characteristics :: "ic_stable_file \<Rightarrow> c_int" where
  "x_device_characteristics f = (if if_powersafe_overwrite f then SQLITE_IOCAP_POWERSAFE_OVERWRITE else 0)"

end
