(* ===== verification/Vfs.thy ===== *)
theory Vfs
  imports Vfs_File
begin

unbundle bit_operations_syntax

text \<open>
  The callbacks of the VFS object, \<open>src/src/sqlite_vfs/vfs.rs\<close>: opening, deleting, testing and
  naming files, randomness and time.  A C string is the list of its bytes without the
  terminating zero, a null pointer is \<open>None\<close>.  \<open>x_current_time\<close> converts the result of
  \<open>x_current_time_int64\<close> to a floating-point number and is left out; the clock is a parameter.
\<close>

section \<open>Open flags\<close>

datatype open_kind = MainDb | MainJournal | TempDb | TempJournal | TransientDb | Wal | OtherKind

datatype open_access = AccessReadOnly | AccessReadWrite bool

record open_options =
  oo_kind :: open_kind
  oo_access :: open_access
  oo_uri :: bool
  oo_delete_on_close :: bool

definition classify_open_flags :: "c_int \<Rightarrow> open_options" where
  "classify_open_flags flags =
    \<lparr>oo_kind =
       (if flags AND SQLITE_OPEN_WAL \<noteq> 0 then Wal
        else if flags AND SQLITE_OPEN_MAIN_JOURNAL \<noteq> 0 then MainJournal
        else if flags AND SQLITE_OPEN_TEMP_DB \<noteq> 0 then TempDb
        else if flags AND SQLITE_OPEN_TEMP_JOURNAL \<noteq> 0 then TempJournal
        else if flags AND SQLITE_OPEN_TRANSIENT_DB \<noteq> 0 then TransientDb
        else if flags AND SQLITE_OPEN_MAIN_DB \<noteq> 0 then MainDb
        else OtherKind),
     oo_access =
       (if flags AND SQLITE_OPEN_READONLY \<noteq> 0 then AccessReadOnly
        else AccessReadWrite (flags AND SQLITE_OPEN_CREATE \<noteq> 0)),
     oo_uri = (flags AND SQLITE_OPEN_URI \<noteq> 0),
     oo_delete_on_close = (flags AND SQLITE_OPEN_DELETEONCLOSE \<noteq> 0)\<rparr>"

section \<open>Paths\<close>

definition MAIN_DB_PATH :: "byte list" where
  "MAIN_DB_PATH = ascii ''/main.db''"

definition strip_scheme :: "byte list \<Rightarrow> byte list" where
  "strip_scheme path =
    (if take 5 path = ascii ''file:'' then drop 5 path else path)"

definition normalized_main_path_bytes :: "byte list \<Rightarrow> byte list" where
  "normalized_main_path_bytes path = takeWhile (\<lambda>byte. byte \<noteq> of_char CHR ''?'') (strip_scheme path)"

definition is_main_db_path :: "byte list option \<Rightarrow> bool" where
  "is_main_db_path name = (case name of None \<Rightarrow> False
     | Some path \<Rightarrow> normalized_main_path_bytes path = MAIN_DB_PATH)"

section \<open>Files\<close>

text \<open>The result of \<open>x_open\<close>: the code, what was stored in the output flags, and the handle if one
  was installed.\<close>

type_synonym open_result = "c_int \<times> c_int option \<times> ic_stable_file option"

definition refuse_open :: "string \<Rightarrow> c_int option \<Rightarrow> ('h, 's, 'z, open_result) vfs_stm" where
  "refuse_open message out_flags w =
    (Ok (SQLITE_CANTOPEN, out_flags, None), record_last_error SQLITE_CANTOPEN message w)"

definition x_open :: "('h \<times> 's) memory_ops \<Rightarrow> byte list option \<Rightarrow> c_int \<Rightarrow> ('h, 's, 'z, open_result) vfs_stm" where
  "x_open V name flags =
    (let opens_main_db = is_main_db_path name; options = classify_open_flags flags;
         read_only = (oo_access options = AccessReadOnly) in
     catchS active_context_id (\<lambda>e. refuse_open (error_text e) None) (\<lambda>context.
       if opens_main_db then
         catchS (sb_load V) (\<lambda>_. refuse_open ''failed to load SQLite superblock'' (Some flags)) (\<lambda>block.
           if is_importing block then refuse_open ''database import is in progress'' (Some flags)
           else retS (SQLITE_OK, Some flags, Some (install MainFile read_only context)))
       else if oo_kind options = Wal then refuse_open ''WAL files are unsupported'' (Some flags)
       else retS (SQLITE_OK, Some flags, Some (install (TempFile temp_default) read_only context))))"

definition x_delete :: "byte list option \<Rightarrow> c_int" where
  "x_delete name = (if is_main_db_path name then SQLITE_IOERR_DELETE else SQLITE_OK)"

definition x_access :: "byte list option \<Rightarrow> c_int \<times> c_int" where
  "x_access name = (SQLITE_OK, if is_main_db_path name then 1 else 0)"

definition x_full_pathname :: "byte list option \<Rightarrow> c_int \<Rightarrow> c_int \<times> byte list option" where
  "x_full_pathname name out_len =
    (if out_len < 0 then (SQLITE_CANTOPEN, None)
     else let max_len = nat out_len in
       if max_len = 0 then (SQLITE_CANTOPEN, None)
       else let bytes = (case name of None \<Rightarrow> MAIN_DB_PATH
           | Some input \<Rightarrow> if normalized_main_path_bytes input = MAIN_DB_PATH then MAIN_DB_PATH else input) in
         if max_len \<le> length bytes then (SQLITE_CANTOPEN, None)
         else (SQLITE_OK, Some (bytes @ [0])))"

section \<open>Randomness, sleep and time\<close>

definition random_step :: "u64w \<Rightarrow> u64w" where
  "random_step state =
    (let s1 = state XOR push_bit 7 state; s2 = s1 XOR drop_bit 9 s1 in s2 * 0x00000100000001b3)"

fun random_bytes :: "nat \<Rightarrow> u64w \<Rightarrow> byte list" where
  "random_bytes 0 state = []"
| "random_bytes (Suc n) state =
    (let s = random_step state in ucast s # random_bytes n s)"

definition x_randomness :: "('h \<times> 's) memory_ops \<Rightarrow> c_int \<Rightarrow> ('h, 's, 'z, c_int \<times> byte list) vfs_stm" where
  "x_randomness V amount =
    (if amount < 0 then retS (0, [])
     else catchS (catchS (sb_load V) (\<lambda>_. retS 0)
         (\<lambda>block. retS (of_nat (last_tx_id block) XOR of_nat (db_size block))))
       (\<lambda>_. retS (0, []))
       (\<lambda>seed. retS (amount, random_bytes (nat amount) (seed XOR 0x9e3779b97f4a7c15))))"

definition x_sleep :: "c_int \<Rightarrow> c_int" where
  "x_sleep microseconds = 0"

definition x_current_time_int64 :: "nat \<Rightarrow> c_int \<times> int option" where
  "x_current_time_int64 current_time_nanos =
    (let unix_ms = current_time_nanos div 1000000; v = saturating_add 210866760000000 unix_ms in
     if v \<le> i64_max then (SQLITE_OK, Some (int v)) else (SQLITE_IOERR, None))"

end
