(* ===== verification/Db_Connection.thy ===== *)
theory Db_Connection
  imports Statement_Cache Checksum_Refresh Vfs
begin

unbundle bit_operations_syntax

text \<open>
  Connections of the database facade: opening and configuring them (\<open>src/src/db/connection.rs\<close>,
  \<open>src/src/db/pragmas.rs\<close>), the tables of cached connections and the count of running queries
  (\<open>src/src/db/mod.rs\<close>).

  The SQLite library is a parameter: its entry points are functions on its own state and the state
  of the VFS, which they reach through the callbacks.  A connection is the handle SQLite returns;
  \<open>query_observer_active\<close> is the flag the code keeps beside it.
\<close>

section \<open>State\<close>

record ('h, 's, 'c, 'q) db_state =
  db_vfs :: "('h, 's) vfs_world"
  read_connections :: "context_id \<rightharpoonup> 'c"
  write_connections :: "context_id \<rightharpoonup> 'c"
  active_reads :: "(context_id \<times> nat) list"
  query_observer_active :: "'c \<Rightarrow> bool"
  sqlite_state :: 'q

type_synonym ('h, 's, 'c, 'q, 'a) db_stm = "(('h, 's, 'c, 'q) db_state, 'a, db_error) stm"

type_synonym ('h, 's, 'q, 'r) sqlite_fun = "'q \<times> ('h, 's) vfs_world \<Rightarrow> 'r \<times> ('q \<times> ('h, 's) vfs_world)"

text \<open>\<open>sqlite3_open_v2\<close> returns a code, the handle or null and the message of \<open>sqlite3_errmsg\<close>;
  \<open>sqlite3_exec\<close> a code and the message it allocated, if any.\<close>

record ('h, 's, 'c, 'q) sqlite_api =
  sqlite3_open_v2 :: "byte list \<Rightarrow> c_int \<Rightarrow> byte list \<Rightarrow> ('h, 's, 'q, c_int \<times> 'c option \<times> byte list option) sqlite_fun"
  sqlite3_exec :: "'c \<Rightarrow> byte list \<Rightarrow> ('h, 's, 'q, c_int \<times> byte list option) sqlite_fun"
  sqlite3_close :: "'c \<Rightarrow> ('h, 's, 'q, unit) sqlite_fun"
  sqlite3_vfs_register :: "('h, 's, 'q, c_int) sqlite_fun"

definition sqlite_call :: "('h, 's, 'q, 'r) sqlite_fun \<Rightarrow> ('h, 's, 'c, 'q, 'r) db_stm" where
  "sqlite_call f s = (let (r, (q, w)) = f (sqlite_state s, db_vfs s) in (Ok r, s\<lparr>sqlite_state := q, db_vfs := w\<rparr>))"

text \<open>Calls of the storage layer; its errors become \<open>DbError::Stable\<close>.\<close>

definition on_store :: "(('h, 's) vfs_world, 'a, stable_memory_error) stm \<Rightarrow> ('h, 's, 'c, 'q, 'a) db_stm" where
  "on_store m s = (case m (db_vfs s) of
      (Ok x, w) \<Rightarrow> (Ok x, s\<lparr>db_vfs := w\<rparr>) | (Err e, w) \<Rightarrow> (Err (Stable e), s\<lparr>db_vfs := w\<rparr>)
    | (Panic, w) \<Rightarrow> (Panic, s\<lparr>db_vfs := w\<rparr>))"

section \<open>Opening connections\<close>

definition VFS_NAME :: "byte list" where
  "VFS_NAME = ascii ''icstable''"

definition SQLITE_URI :: "byte list" where
  "SQLITE_URI = ascii ''file:/main.db?vfs=icstable''"

definition SQLITE_OPEN_READWRITE :: c_int where [sqlite_codes]: "SQLITE_OPEN_READWRITE = 2"
definition SQLITE_OPEN_NOMUTEX :: c_int where [sqlite_codes]: "SQLITE_OPEN_NOMUTEX = 32768"

text \<open>Dropping a connection closes it.\<close>

definition close_connection :: "('h, 's, 'c, 'q) sqlite_api \<Rightarrow> 'c \<Rightarrow> ('h, 's, 'c, 'q, unit) db_stm" where
  "close_connection api connection = sqlite_call (sqlite3_close api connection)"

definition set_query_observer :: "'c \<Rightarrow> bool \<Rightarrow> ('h, 's, 'c, 'q, unit) db_stm" where
  "set_query_observer raw active = modifyS (\<lambda>s. s\<lparr>query_observer_active := (query_observer_active s)(raw := active)\<rparr>)"

definition connection_open :: "('h, 's, 'c, 'q) sqlite_api \<Rightarrow> c_int \<Rightarrow> ('h, 's, 'c, 'q, 'c) db_stm" where
  "connection_open api flags = tryS (sqlite_call (sqlite3_open_v2 api SQLITE_URI flags VFS_NAME)) (\<lambda>(rc, db, errmsg).
     case db of None \<Rightarrow> errS (Sqlite rc (ascii ''sqlite3_open_v2 returned null''))
     | Some raw \<Rightarrow>
         if rc \<noteq> SQLITE_OK
         then tryS (close_connection api raw) (\<lambda>_. errS (sqlite_error errmsg rc))
         else tryS (set_query_observer raw False) (\<lambda>_. retS raw))"

definition execute_batch_cstr :: "('h, 's, 'c, 'q) sqlite_api \<Rightarrow> 'c \<Rightarrow> byte list \<Rightarrow> ('h, 's, 'c, 'q, unit) db_stm" where
  "execute_batch_cstr api connection sql = tryS (sqlite_call (sqlite3_exec api connection sql)) (\<lambda>(rc, error).
     if rc = SQLITE_OK then retS () else errS (classify_sqlite_error rc (take_error_message error)))"

definition execute_batch :: "('h, 's, 'c, 'q) sqlite_api \<Rightarrow> 'c \<Rightarrow> byte list \<Rightarrow> ('h, 's, 'c, 'q, unit) db_stm" where
  "execute_batch api connection sql =
    (if 0 \<in> set sql then errS InteriorNul else execute_batch_cstr api connection sql)"

definition READ_WRITE_EXISTING_SQL :: "byte list" where
  "READ_WRITE_EXISTING_SQL = ascii (''PRAGMA journal_mode = MEMORY;'' @ [CHR 0x0A] @
     ''PRAGMA synchronous = OFF;'' @ [CHR 0x0A] @ ''PRAGMA temp_store = MEMORY;'' @ [CHR 0x0A] @
     ''PRAGMA locking_mode = EXCLUSIVE;'' @ [CHR 0x0A] @ ''PRAGMA foreign_keys = ON;'' @ [CHR 0x0A] @
     ''PRAGMA cache_size = -32768;'')"

definition READ_WRITE_SQL :: "byte list" where
  "READ_WRITE_SQL = ascii (''PRAGMA page_size = 16384;'' @ [CHR 0x0A]) @ READ_WRITE_EXISTING_SQL"

definition READ_ONLY_SQL :: "byte list" where
  "READ_ONLY_SQL = ascii (''PRAGMA cache_size = -32768;'' @ [CHR 0x0A] @ ''PRAGMA query_only = ON;'' @ [CHR 0x0A] @
     ''PRAGMA locking_mode = EXCLUSIVE;'' @ [CHR 0x0A] @ ''PRAGMA foreign_keys = ON;'' @ [CHR 0x0A] @
     ''PRAGMA temp_store = MEMORY;'')"

definition apply_read_write :: "('h, 's, 'c, 'q) sqlite_api \<Rightarrow> 'c \<Rightarrow> bool \<Rightarrow> ('h, 's, 'c, 'q, unit) db_stm" where
  "apply_read_write api connection apply_page_size =
     execute_batch_cstr api connection (if apply_page_size then READ_WRITE_SQL else READ_WRITE_EXISTING_SQL)"

definition apply_read_only :: "('h, 's, 'c, 'q) sqlite_api \<Rightarrow> 'c \<Rightarrow> ('h, 's, 'c, 'q, unit) db_stm" where
  "apply_read_only api connection = execute_batch_cstr api connection READ_ONLY_SQL"

text \<open>A connection that cannot be configured is dropped.\<close>

definition or_close :: "('h, 's, 'c, 'q) sqlite_api \<Rightarrow> 'c \<Rightarrow> ('h, 's, 'c, 'q, unit) db_stm \<Rightarrow> ('h, 's, 'c, 'q, 'c) db_stm" where
  "or_close api connection m = catchS m
     (\<lambda>e. tryS (close_connection api connection) (\<lambda>_. errS e)) (\<lambda>_. retS connection)"

definition open_read_write_with_page_size :: "('h, 's, 'c, 'q) sqlite_api \<Rightarrow> bool \<Rightarrow> ('h, 's, 'c, 'q, 'c) db_stm" where
  "open_read_write_with_page_size api apply_page_size =
     tryS (connection_open api (SQLITE_OPEN_READWRITE OR SQLITE_OPEN_CREATE OR SQLITE_OPEN_URI OR SQLITE_OPEN_NOMUTEX))
       (\<lambda>connection. or_close api connection (apply_read_write api connection apply_page_size))"

definition open_read_write :: "('h, 's, 'c, 'q) sqlite_api \<Rightarrow> ('h, 's, 'c, 'q, 'c) db_stm" where
  "open_read_write api = open_read_write_with_page_size api True"

definition open_read_write_existing :: "('h, 's, 'c, 'q) sqlite_api \<Rightarrow> ('h, 's, 'c, 'q, 'c) db_stm" where
  "open_read_write_existing api = open_read_write_with_page_size api False"

definition open_read_only :: "('h, 's, 'c, 'q) sqlite_api \<Rightarrow> ('h, 's, 'c, 'q, 'c) db_stm" where
  "open_read_only api = tryS (connection_open api (SQLITE_OPEN_READONLY OR SQLITE_OPEN_URI OR SQLITE_OPEN_NOMUTEX))
     (\<lambda>connection. or_close api connection (apply_read_only api connection))"

section \<open>The tables of connections\<close>

definition write_connection :: "('h, 's, 'c, 'q) sqlite_api \<Rightarrow> context_id \<Rightarrow> nat \<Rightarrow> ('h, 's, 'c, 'q, 'c) db_stm" where
  "write_connection api context n s = (case write_connections s context of
      Some connection \<Rightarrow> (Ok connection, s)
    | None \<Rightarrow> tryS (if n = 0 then open_read_write api else open_read_write_existing api) (\<lambda>connection.
        tryS (modifyS (\<lambda>s. s\<lparr>write_connections := (write_connections s)(context \<mapsto> connection)\<rparr>)) (\<lambda>_.
        retS connection)) s)"

text \<open>Removing an entry drops the table's reference.  The connection of a finished query has no
  other owner and is closed; the connection an update works on is still held by the update, which
  closes it at its end.\<close>

definition clear_read_connection :: "('h, 's, 'c, 'q) sqlite_api \<Rightarrow> context_id \<Rightarrow> ('h, 's, 'c, 'q, unit) db_stm" where
  "clear_read_connection api context s = (case read_connections s context of
      None \<Rightarrow> (Ok (), s)
    | Some connection \<Rightarrow> close_connection api connection (s\<lparr>read_connections := (read_connections s)(context := None)\<rparr>))"

definition forget_write_connection :: "context_id \<Rightarrow> ('h, 's, 'c, 'q) db_state \<Rightarrow> ('h, 's, 'c, 'q) db_state" where
  "forget_write_connection context s = s\<lparr>write_connections := (write_connections s)(context := None)\<rparr>"

definition clear_write_connection :: "('h, 's, 'c, 'q) sqlite_api \<Rightarrow> context_id \<Rightarrow> ('h, 's, 'c, 'q, unit) db_stm" where
  "clear_write_connection api context s = (case write_connections s context of
      None \<Rightarrow> (Ok (), s)
    | Some connection \<Rightarrow> close_connection api connection (forget_write_connection context s))"

section \<open>Running queries\<close>

fun active_read_index :: "(context_id \<times> nat) list \<Rightarrow> context_id \<Rightarrow> nat option" where
  "active_read_index [] context = None"
| "active_read_index ((stored_context, _) # entries) context =
    (if stored_context = context then Some 0 else map_option Suc (active_read_index entries context))"

definition guard_enter :: "context_id \<Rightarrow> (context_id \<times> nat) list \<Rightarrow> (context_id \<times> nat) list" where
  "guard_enter context slot =
    (if slot = [] then [(context, 1)]
     else case active_read_index slot context of
       Some index \<Rightarrow> slot[index := (context, snd (slot ! index) + 1)]
     | None \<Rightarrow> slot @ [(context, 1)])"

definition guard_drop :: "context_id \<Rightarrow> (context_id \<times> nat) list \<Rightarrow> (context_id \<times> nat) list" where
  "guard_drop context slot =
    (if length slot = 1 \<and> fst (slot ! 0) = context
     then let depth = snd (slot ! 0) - 1 in if depth = 0 then [] else [(context, depth)]
     else case active_read_index slot context of None \<Rightarrow> slot
     | Some index \<Rightarrow>
         let depth = snd (slot ! index) - 1 in
         if depth = 0 then swap_remove index slot else slot[index := (context, depth)])"

definition reject_active_read_connection :: "context_id \<Rightarrow> ('h, 's, 'c, 'q, unit) db_stm" where
  "reject_active_read_connection context s =
    (let active = (case active_read_index (active_reads s) context of
        Some index \<Rightarrow> snd (active_reads s ! index) | None \<Rightarrow> 0) in
     if active = 0 then (Ok (), s) else (Err ReadConnectionInUse, s))"

definition with_read_connection :: "('h, 's, 'c, 'q) sqlite_api \<Rightarrow> context_id \<Rightarrow>
    ('c \<Rightarrow> ('h, 's, 'c, 'q, 't) db_stm) \<Rightarrow> ('h, 's, 'c, 'q, 't) db_stm" where
  "with_read_connection api context f = tryS
     (\<lambda>s. case read_connections s context of Some connection \<Rightarrow> (Ok connection, s)
        | None \<Rightarrow> tryS (open_read_only api) (\<lambda>connection.
            tryS (modifyS (\<lambda>s. s\<lparr>read_connections := (read_connections s)(context \<mapsto> connection)\<rparr>)) (\<lambda>_.
            retS connection)) s)
     (\<lambda>connection s.
        let (r, s') = f connection (s\<lparr>active_reads := guard_enter context (active_reads s)\<rparr>)
        in (r, s'\<lparr>active_reads := guard_drop context (active_reads s')\<rparr>))"

end
