(* ===== verification/Db_Facade.thy ===== *)
theory Db_Facade
  imports Db_Connection
begin

text \<open>
  Updates, queries and initialization of a database (\<open>src/src/db/mod.rs\<close>) and the transaction an
  update runs in (\<open>src/src/db/transaction.rs\<close>).  The closures of the callers are parameters.
\<close>

section \<open>Transactions\<close>

record 'c update_connection =
  uc_connection :: 'c
  uc_savepoint_id :: nat

type_synonym ('h, 's, 'c, 'q, 't) update_fun =
  "('c update_connection \<times> ('h, 's, 'c, 'q) db_state, 't, db_error) stm"

definition update_connection_new :: "'c \<Rightarrow> 'c update_connection" where
  "update_connection_new connection = \<lparr>uc_connection = connection, uc_savepoint_id = 0\<rparr>"

definition on_connection :: "('c \<Rightarrow> ('h, 's, 'c, 'q, 'a) db_stm) \<Rightarrow> ('h, 's, 'c, 'q, 'a) update_fun" where
  "on_connection m us = (let (r, s') = m (uc_connection (fst us)) (snd us) in (r, (fst us, s')))"

definition next_savepoint_name :: "('h, 's, 'c, 'q, byte list) update_fun" where
  "next_savepoint_name us = (let (uc, s) = us in
     (Ok (ascii (''__ic_sqlite_sp_'' @ show_nat (uc_savepoint_id uc))),
      (uc\<lparr>uc_savepoint_id := uc_savepoint_id uc + 1\<rparr>, s)))"

text \<open>The results of the clean-up statements after a failure are ignored.\<close>

definition ignoring :: "('w, 'a, 'e) stm \<Rightarrow> 'w \<Rightarrow> 'w" where
  "ignoring m w = snd (m w)"

definition savepoint :: "('h, 's, 'c, 'q) sqlite_api \<Rightarrow> ('h, 's, 'c, 'q, 't) update_fun \<Rightarrow> ('h, 's, 'c, 'q, 't) update_fun" where
  "savepoint api f = tryS next_savepoint_name (\<lambda>name.
     tryS (on_connection (\<lambda>conn. execute_batch api conn (ascii ''SAVEPOINT '' @ name))) (\<lambda>_. catchS f
       (\<lambda>error us.
          let us = ignoring (on_connection (\<lambda>conn. execute_batch api conn (ascii ''ROLLBACK TRANSACTION TO SAVEPOINT '' @ name))) us;
              us = ignoring (on_connection (\<lambda>conn. execute_batch api conn (ascii ''RELEASE SAVEPOINT '' @ name))) us
          in (Err error, us))
       (\<lambda>v. tryS (on_connection (\<lambda>conn. execute_batch api conn (ascii ''RELEASE SAVEPOINT '' @ name))) (\<lambda>_. retS v))))"

definition BEGIN_SQL :: "byte list" where "BEGIN_SQL = ascii ''BEGIN''"
definition COMMIT_SQL :: "byte list" where "COMMIT_SQL = ascii ''COMMIT''"
definition ROLLBACK_SQL :: "byte list" where "ROLLBACK_SQL = ascii ''ROLLBACK''"

definition run_immediate :: "('h, 's, 'c, 'q) sqlite_api \<Rightarrow> ('h \<times> 's) memory_ops \<Rightarrow> 'c \<Rightarrow>
    ('h, 's, 'c, 'q, 't) update_fun \<Rightarrow> ('h, 's, 'c, 'q, 't) db_stm" where
  "run_immediate api V connection f = tryS (execute_batch_cstr api connection BEGIN_SQL) (\<lambda>_ s.
     case f (update_connection_new connection, s) of
       (Ok v, (_, s)) \<Rightarrow> catchS (execute_batch_cstr api connection COMMIT_SQL)
         (\<lambda>error s. (Err error, ignoring (execute_batch_cstr api connection ROLLBACK_SQL) s))
         (\<lambda>_. tryS (on_store (commit_update V)) (\<lambda>_. retS v)) s
     | (Err error, (_, s)) \<Rightarrow>
         let s = ignoring (execute_batch_cstr api connection ROLLBACK_SQL) s
         in (Err error, s\<lparr>db_vfs := rollback_update (db_vfs s)\<rparr>)
     | (Panic, (_, s)) \<Rightarrow> (Panic, s))"

section \<open>Updates and queries\<close>

definition db_with_context :: "context_id \<Rightarrow> ('h, 's, 'c, 'q, 't) db_stm \<Rightarrow> ('h, 's, 'c, 'q, 't) db_stm" where
  "db_with_context context f s =
    (let previous = current_context (db_vfs s);
         (r, s') = f (s\<lparr>db_vfs := (db_vfs s)\<lparr>current_context := Some context\<rparr>\<rparr>)
     in (r, s'\<lparr>db_vfs := (db_vfs s')\<lparr>current_context := previous\<rparr>\<rparr>))"

text \<open>The guard of the overlay rolls back whatever is left of the update when the closure ends.\<close>

definition overlay_guard :: "('h, 's, 'c, 'q, 't) db_stm \<Rightarrow> ('h, 's, 'c, 'q, 't) db_stm" where
  "overlay_guard m s = (let (r, s') = m s in (r, s'\<lparr>db_vfs := rollback_update (db_vfs s')\<rparr>))"

text \<open>At the end of an update its reference to the connection is dropped: the connection is closed
  unless the table still holds it.\<close>

definition release_connection :: "('h, 's, 'c, 'q) sqlite_api \<Rightarrow> context_id \<Rightarrow> 'c \<Rightarrow>
    ('h, 's, 'c, 'q) db_state \<Rightarrow> ('h, 's, 'c, 'q) db_state" where
  "release_connection api context connection s =
    (if write_connections s context = None then ignoring (close_connection api connection) s else s)"

definition is_err :: "('a, 'e) outcome \<Rightarrow> bool" where
  "is_err r = (case r of Err _ \<Rightarrow> True | _ \<Rightarrow> False)"

definition db_update :: "('h, 's, 'c, 'q) sqlite_api \<Rightarrow> ('h \<times> 's) memory_ops \<Rightarrow> context_id \<Rightarrow>
    ('h, 's, 'c, 'q, 't) update_fun \<Rightarrow> ('h, 's, 'c, 'q, 't) db_stm" where
  "db_update api V context f = db_with_context context (
     tryS (reject_active_read_connection context) (\<lambda>_.
     tryS (clear_read_connection api context) (\<lambda>_.
     tryS (on_store (begin_update V)) (\<lambda>size. overlay_guard (
       tryS (write_connection api context size) (\<lambda>connection s.
         let (r, s) = run_immediate api V connection f s;
             s = ignoring (clear_read_connection api context) s;
             s = (if is_err r then forget_write_connection context s else s)
         in (r, release_connection api context connection s)))))))"

definition db_query :: "('h, 's, 'c, 'q) sqlite_api \<Rightarrow> context_id \<Rightarrow> ('c \<Rightarrow> ('h, 's, 'c, 'q, 't) db_stm) \<Rightarrow>
    ('h, 's, 'c, 'q, 't) db_stm" where
  "db_query api context f = db_with_context context (with_read_connection api context f)"

section \<open>Checksums\<close>

definition db_checksum :: "('h \<times> 's) memory_ops \<Rightarrow> context_id \<Rightarrow> ('h, 's, 'c, 'q, u64w) db_stm" where
  "db_checksum V context = db_with_context context (on_store (checksum V))"

definition db_refresh_checksum :: "('h, 's, 'c, 'q) sqlite_api \<Rightarrow> ('h \<times> 's) memory_ops \<Rightarrow> context_id \<Rightarrow>
    ('h, 's, 'c, 'q, u64w) db_stm" where
  "db_refresh_checksum api V context = db_with_context context (
     tryS (reject_active_read_connection context) (\<lambda>_.
     tryS (clear_read_connection api context) (\<lambda>_. on_store (refresh_checksum V))))"

definition db_refresh_checksum_chunk :: "('h, 's, 'c, 'q) sqlite_api \<Rightarrow> ('h \<times> 's) memory_ops \<Rightarrow> context_id \<Rightarrow> nat \<Rightarrow>
    ('h, 's, 'c, 'q, checksum_refresh) db_stm" where
  "db_refresh_checksum_chunk api V context max_bytes = db_with_context context (
     tryS (reject_active_read_connection context) (\<lambda>_.
     tryS (clear_read_connection api context) (\<lambda>_. on_store (refresh_checksum_chunk V max_bytes))))"

section \<open>Initialization\<close>

definition initialize :: "('h, 's, 'c, 'q) sqlite_api \<Rightarrow> ('h \<times> 's) memory_ops \<Rightarrow> context_id \<Rightarrow> ('h, 's, 'c, 'q, unit) db_stm" where
  "initialize api V context = db_with_context context (
     tryS (sqlite_call (sqlite3_vfs_register api)) (\<lambda>_.
     tryS (on_store (sb_load V)) (\<lambda>_. on_store (ensure_current_layout V))))"

definition init_error :: "stable_memory_error \<Rightarrow> db_error" where
  "init_error e = (case e of AlreadyInitialized \<Rightarrow> StableMemoryAlreadyInitialized
     | NotInitialized \<Rightarrow> StableMemoryNotInitialized | _ \<Rightarrow> Stable e)"

definition clear_connections :: "('h, 's, 'c, 'q) sqlite_api \<Rightarrow> context_id \<Rightarrow> ('h, 's, 'c, 'q, unit) db_stm" where
  "clear_connections api context = tryS (clear_read_connection api context) (\<lambda>_. clear_write_connection api context)"

text \<open>A database that fails to initialize is unregistered again.\<close>

definition finish_init :: "('h, 's, 'c, 'q) sqlite_api \<Rightarrow> ('h \<times> 's) memory_ops \<Rightarrow> context_id \<Rightarrow> ('h, 's, 'c, 'q, unit) db_stm" where
  "finish_init api V context = tryS (clear_connections api context) (\<lambda>_. catchS (initialize api V context)
     (\<lambda>error. tryS (clear_connections api context) (\<lambda>_ s.
        (Err error, s\<lparr>db_vfs := clear_failed_initialization context (db_vfs s)\<rparr>)))
     (\<lambda>_. retS ()))"

definition db_init :: "('h, 's, 'c, 'q) sqlite_api \<Rightarrow> ('h \<times> 's) memory_ops \<Rightarrow> ('h \<times> 's \<Rightarrow> memory_identity) \<Rightarrow> 'h \<Rightarrow>
    ('h, 's, 'c, 'q, unit) db_stm" where
  "db_init api V identity h s = (case memory_init identity h (db_vfs s) of
      (Ok context, w) \<Rightarrow> finish_init api V context (s\<lparr>db_vfs := w\<rparr>)
    | (Err e, w) \<Rightarrow> (Err (init_error e), s\<lparr>db_vfs := w\<rparr>)
    | (Panic, w) \<Rightarrow> (Panic, s\<lparr>db_vfs := w\<rparr>))"

definition handle_init :: "('h, 's, 'c, 'q) sqlite_api \<Rightarrow> ('h \<times> 's) memory_ops \<Rightarrow> ('h \<times> 's \<Rightarrow> memory_identity) \<Rightarrow> 'h \<Rightarrow>
    ('h, 's, 'c, 'q, context_id) db_stm" where
  "handle_init api V identity h = tryS (on_store (init_context identity h)) (\<lambda>context.
     tryS (finish_init api V context) (\<lambda>_. retS context))"

definition default_handle :: "('h, 's, 'c, 'q, context_id) db_stm" where
  "default_handle s = (case default_context (db_vfs s) of None \<Rightarrow> (Err StableMemoryNotInitialized, s)
     | Some context \<Rightarrow> (Ok context, s))"

end
