(* ===== verification/Utf8.thy ===== *)
theory Utf8
  imports Prelude
begin

text \<open>
  UTF-8 as Rust's \<open>str\<close> and \<open>String::from_utf8_lossy\<close> treat it.  SQLite hands out the bytes of a text,
  and the readers of \<open>src/src/db/row.rs\<close>, \<open>src/src/db/statement.rs\<close> and \<open>src/src/db/value.rs\<close> turn them
  into strings: valid UTF-8 is kept, every maximal ill-formed part becomes the replacement character.
\<close>

section \<open>Scanning\<close>

definition continuation :: "byte \<Rightarrow> bool" where
  "continuation b \<longleftrightarrow> 128 \<le> b \<and> b \<le> 191"

text \<open>The range of the second byte depends on the first: it excludes overlong forms, surrogates and
  code points beyond the last one.\<close>

definition second_of_three :: "byte \<Rightarrow> byte \<Rightarrow> bool" where
  "second_of_three first b \<longleftrightarrow>
    (if first = 224 then 160 \<le> b \<and> b \<le> 191 else if first = 237 then 128 \<le> b \<and> b \<le> 159 else continuation b)"

definition second_of_four :: "byte \<Rightarrow> byte \<Rightarrow> bool" where
  "second_of_four first b \<longleftrightarrow>
    (if first = 240 then 144 \<le> b \<and> b \<le> 191 else if first = 244 then 128 \<le> b \<and> b \<le> 143 else continuation b)"

text \<open>The predicates the bytes after the first have to satisfy, one for each byte; \<open>None\<close> when the
  first byte cannot start a character.\<close>

definition tail_of :: "byte \<Rightarrow> (byte \<Rightarrow> bool) list option" where
  "tail_of first =
    (if first \<le> 127 then Some []
     else if 194 \<le> first \<and> first \<le> 223 then Some [continuation]
     else if 224 \<le> first \<and> first \<le> 239 then Some [second_of_three first, continuation]
     else if 240 \<le> first \<and> first \<le> 244 then Some [second_of_four first, continuation, continuation]
     else None)"

text \<open>How many bytes match, from the left.\<close>

fun matching :: "('a \<Rightarrow> bool) list \<Rightarrow> 'a list \<Rightarrow> nat" where
  "matching (p # ps) (x # xs) = (if p x then Suc (matching ps xs) else 0)"
| "matching ps xs = 0"

text \<open>The first character: whether it is well formed, and how many bytes it has or, when it is not,
  how many bytes its longest well-formed beginning has.\<close>

definition scan :: "byte list \<Rightarrow> bool \<times> nat" where
  "scan bs = (case bs of [] \<Rightarrow> (False, 0) | first # rest \<Rightarrow>
     (case tail_of first of None \<Rightarrow> (False, 1)
      | Some ps \<Rightarrow> let n = matching ps rest in (n = length ps, Suc n)))"

definition replacement :: "byte list" where
  "replacement = [239, 191, 189]"

function from_utf8_lossy :: "byte list \<Rightarrow> byte list" where
  "from_utf8_lossy [] = []"
| "from_utf8_lossy (b # bs) = (let (ok, n) = scan (b # bs) in
     (if ok then take n (b # bs) else replacement) @ from_utf8_lossy (drop n (b # bs)))"
  by pat_completeness auto
termination
  by (relation "measure length") (auto simp: scan_def Let_def split: option.splits)

function is_utf8 :: "byte list \<Rightarrow> bool" where
  "is_utf8 [] = True"
| "is_utf8 (b # bs) = (let (ok, n) = scan (b # bs) in ok \<and> is_utf8 (drop n (b # bs)))"
  by pat_completeness auto
termination
  by (relation "measure length") (auto simp: scan_def Let_def split: option.splits)

declare from_utf8_lossy.simps(2) [simp del] is_utf8.simps(2) [simp del]

section \<open>Lossy decoding\<close>

lemma matching_le: "matching ps xs \<le> length xs" "matching ps xs \<le> length ps"
  by (induction ps xs rule: matching.induct) auto

lemma matching_append: "matching ps xs = length ps \<Longrightarrow> matching ps (take (matching ps xs) xs @ ys) = length ps"
  by (induction ps xs rule: matching.induct) (auto split: if_splits)

lemma scan_le: "bs \<noteq> [] \<Longrightarrow> 0 < snd (scan bs) \<and> snd (scan bs) \<le> length bs"
  using matching_le(1) by (cases bs) (auto simp: scan_def Let_def split: option.splits)

text \<open>A well-formed character is recognized whatever follows it.\<close>

lemma scan_prefix:
  assumes "scan bs = (True, n)"
  shows "scan (take n bs @ ys) = (True, n)"
proof (cases bs)
  case (Cons b rest)
  then obtain ps where ps: "tail_of b = Some ps" "matching ps rest = length ps" "n = Suc (matching ps rest)"
    using assms by (auto simp: scan_def Let_def split: option.splits)
  then show ?thesis using Cons matching_append [OF ps(2), of ys] by (simp add: scan_def)
qed (use assms in \<open>simp add: scan_def\<close>)

lemma is_utf8_first:
  assumes "scan bs = (True, n)" "bs \<noteq> []"
  shows "is_utf8 (take n bs @ ys) \<longleftrightarrow> is_utf8 ys"
proof -
  have n: "0 < n" "n \<le> length bs" using scan_le [OF assms(2)] assms(1) by simp_all
  obtain c cs where c: "take n bs @ ys = c # cs" using n assms(2) by (cases "take n bs @ ys") auto
  have "drop n (c # cs) = ys" using n c [symmetric] by simp
  then show ?thesis
    using scan_prefix [OF assms(1), of ys] c by (simp add: is_utf8.simps(2))
qed

lemma from_utf8_lossy_valid: "is_utf8 (from_utf8_lossy bs)"
proof (induction bs rule: from_utf8_lossy.induct)
  case (2 b bs)
  obtain ok n where s: "scan (b # bs) = (ok, n)" by fastforce
  have ih: "is_utf8 (from_utf8_lossy (drop n (b # bs)))" using 2 s by simp
  have r: "scan replacement = (True, 3)"
    by (simp add: scan_def replacement_def tail_of_def second_of_three_def continuation_def)
  show ?case
  proof (cases ok)
    case True
    then show ?thesis
      using is_utf8_first [of "b # bs" n] s ih by (simp add: from_utf8_lossy.simps(2))
  next
    case False
    then show ?thesis
      using is_utf8_first [OF r, of "from_utf8_lossy (drop n (b # bs))"] s ih
      by (simp add: from_utf8_lossy.simps(2) replacement_def)
  qed
qed simp

lemma from_utf8_lossy_id: "is_utf8 bs \<Longrightarrow> from_utf8_lossy bs = bs"
proof (induction bs rule: from_utf8_lossy.induct)
  case (2 b bs)
  obtain ok n where s: "scan (b # bs) = (ok, n)" by fastforce
  then have "ok" "is_utf8 (drop n (b # bs))" using 2(2) by (simp_all add: is_utf8.simps(2))
  then show ?case using 2(1) s append_take_drop_id [of n "b # bs"] by (simp add: from_utf8_lossy.simps(2))
qed simp

lemma ascii_utf8: "list_all (\<lambda>b. b \<le> 127) bs \<Longrightarrow> is_utf8 bs"
  by (induction bs) (simp_all add: is_utf8.simps(2) scan_def tail_of_def)

end
