(* ===== verification/Sql_Value.thy ===== *)
theory Sql_Value
  imports Db_Facade Utf8
begin

text \<open>
  Values bound to the parameters of a statement (\<open>src/src/db/value.rs\<close>) and typed reads of the current
  row (\<open>src/src/db/row.rs\<close>).

  The statement interface of the SQLite library is a parameter.  Bound texts and blobs carry the
  destructor the caller passes: \<open>Transient\<close> values are copied by SQLite, \<open>Static\<close> values are borrowed
  until the binding is replaced or cleared.  Texts are their UTF-8 bytes, and a pointer to a blob that
  is null is \<open>None\<close>.  Floating-point numbers are only passed on; they are their 64 bits.
\<close>

section \<open>The statement interface of SQLite\<close>

datatype destructor = Static | Transient

record ('h, 's, 'c, 'st, 'q) stmt_api =
  sqlite3_prepare_v2 :: "'c \<Rightarrow> byte list \<Rightarrow> ('h, 's, 'q, c_int \<times> 'st option \<times> byte list option) sqlite_fun"
  sqlite3_stmt_finalize :: "'st \<Rightarrow> ('h, 's, 'q, unit) sqlite_fun"
  sqlite3_reset :: "'st \<Rightarrow> ('h, 's, 'q, c_int) sqlite_fun"
  sqlite3_clear_bindings :: "'st \<Rightarrow> ('h, 's, 'q, c_int) sqlite_fun"
  sqlite3_step :: "'st \<Rightarrow> ('h, 's, 'q, c_int) sqlite_fun"
  sqlite3_bind_text :: "'st \<Rightarrow> c_int \<Rightarrow> byte list \<Rightarrow> destructor \<Rightarrow> ('h, 's, 'q, c_int) sqlite_fun"
  sqlite3_bind_blob :: "'st \<Rightarrow> c_int \<Rightarrow> byte list option \<Rightarrow> destructor \<Rightarrow> ('h, 's, 'q, c_int) sqlite_fun"
  sqlite3_bind_int64 :: "'st \<Rightarrow> c_int \<Rightarrow> int \<Rightarrow> ('h, 's, 'q, c_int) sqlite_fun"
  sqlite3_bind_double :: "'st \<Rightarrow> c_int \<Rightarrow> u64w \<Rightarrow> ('h, 's, 'q, c_int) sqlite_fun"
  sqlite3_bind_null :: "'st \<Rightarrow> c_int \<Rightarrow> ('h, 's, 'q, c_int) sqlite_fun"
  sqlite3_bind_parameter_count :: "'st \<Rightarrow> 'q \<Rightarrow> c_int"
  sqlite3_bind_parameter_name :: "'st \<Rightarrow> c_int \<Rightarrow> 'q \<Rightarrow> byte list option"
  sqlite3_bind_parameter_index :: "'st \<Rightarrow> byte list \<Rightarrow> 'q \<Rightarrow> c_int"
  sqlite3_column_count :: "'st \<Rightarrow> 'q \<Rightarrow> c_int"
  sqlite3_column_type :: "'st \<Rightarrow> c_int \<Rightarrow> 'q \<Rightarrow> c_int"
  sqlite3_column_text :: "'st \<Rightarrow> c_int \<Rightarrow> 'q \<Rightarrow> byte list option"
  sqlite3_column_blob :: "'st \<Rightarrow> c_int \<Rightarrow> 'q \<Rightarrow> byte list option"
  sqlite3_column_bytes :: "'st \<Rightarrow> c_int \<Rightarrow> 'q \<Rightarrow> c_int"
  sqlite3_column_int64 :: "'st \<Rightarrow> c_int \<Rightarrow> 'q \<Rightarrow> int"
  sqlite3_column_double :: "'st \<Rightarrow> c_int \<Rightarrow> 'q \<Rightarrow> u64w"
  sqlite3_stmt_readonly :: "'st \<Rightarrow> 'q \<Rightarrow> c_int"
  sqlite3_errmsg :: "'c \<Rightarrow> 'q \<Rightarrow> byte list option"
  sqlite3_changes64 :: "'c \<Rightarrow> 'q \<Rightarrow> int"

text \<open>A call that only looks at the state of SQLite.\<close>

definition sqlite_get :: "('q \<Rightarrow> 'r) \<Rightarrow> ('h, 's, 'c, 'q, 'r) db_stm" where
  "sqlite_get f = getS (\<lambda>s. f (sqlite_state s))"

definition c_int_try_from :: "nat \<Rightarrow> c_int option" where
  "c_int_try_from n = (if n \<le> c_int_max then Some (int n) else None)"

definition usize_of_c_int :: "c_int \<Rightarrow> nat option" where
  "usize_of_c_int i = (if 0 \<le> i then Some (nat i) else None)"

section \<open>Binding values\<close>

datatype sql_value = Text "byte list" | Integer int | Real u64w | Blob "byte list" | Null

definition bind_result :: "c_int \<Rightarrow> ('h, 's, 'c, 'q, unit) db_stm" where
  "bind_result rc = (if rc = SQLITE_OK then retS () else errS (Sqlite rc (ascii ''sqlite bind failed'')))"

definition bind_text :: "('h, 's, 'c, 'st, 'q, 'z) stmt_api_scheme \<Rightarrow> 'st \<Rightarrow> c_int \<Rightarrow> byte list \<Rightarrow> ('h, 's, 'c, 'q, unit) db_stm" where
  "bind_text sq st index v = tryS (ok_orS TextTooLarge (c_int_try_from (length v))) (\<lambda>_.
     tryS (sqlite_call (sqlite3_bind_text sq st index v Transient)) bind_result)"

definition bind_i64 :: "('h, 's, 'c, 'st, 'q, 'z) stmt_api_scheme \<Rightarrow> 'st \<Rightarrow> c_int \<Rightarrow> int \<Rightarrow> ('h, 's, 'c, 'q, unit) db_stm" where
  "bind_i64 sq st index v = tryS (sqlite_call (sqlite3_bind_int64 sq st index v)) bind_result"

definition bind_f64 :: "('h, 's, 'c, 'st, 'q, 'z) stmt_api_scheme \<Rightarrow> 'st \<Rightarrow> c_int \<Rightarrow> u64w \<Rightarrow> ('h, 's, 'c, 'q, unit) db_stm" where
  "bind_f64 sq st index v = tryS (sqlite_call (sqlite3_bind_double sq st index v)) bind_result"

text \<open>An empty blob is bound through a pointer that is not null, so it does not become \<open>NULL\<close>.\<close>

definition bind_blob :: "('h, 's, 'c, 'st, 'q, 'z) stmt_api_scheme \<Rightarrow> 'st \<Rightarrow> c_int \<Rightarrow> byte list \<Rightarrow> ('h, 's, 'c, 'q, unit) db_stm" where
  "bind_blob sq st index v = tryS (ok_orS BlobTooLarge (c_int_try_from (length v))) (\<lambda>_.
     tryS (sqlite_call (sqlite3_bind_blob sq st index (Some v) Transient)) bind_result)"

definition bind_null :: "('h, 's, 'c, 'st, 'q, 'z) stmt_api_scheme \<Rightarrow> 'st \<Rightarrow> c_int \<Rightarrow> ('h, 's, 'c, 'q, unit) db_stm" where
  "bind_null sq st index = tryS (sqlite_call (sqlite3_bind_null sq st index)) bind_result"

definition bind_to :: "('h, 's, 'c, 'st, 'q, 'z) stmt_api_scheme \<Rightarrow> sql_value \<Rightarrow> 'st \<Rightarrow> c_int \<Rightarrow> ('h, 's, 'c, 'q, unit) db_stm" where
  "bind_to sq v st index = (case v of Text t \<Rightarrow> bind_text sq st index t | Integer i \<Rightarrow> bind_i64 sq st index i
     | Real r \<Rightarrow> bind_f64 sq st index r | Blob b \<Rightarrow> bind_blob sq st index b | Null \<Rightarrow> bind_null sq st index)"

fun bind_from :: "('h, 's, 'c, 'st, 'q, 'z) stmt_api_scheme \<Rightarrow> 'st \<Rightarrow> nat \<Rightarrow> sql_value list \<Rightarrow> ('h, 's, 'c, 'q, unit) db_stm" where
  "bind_from sq st index [] = retS ()"
| "bind_from sq st index (v # vs) = tryS (ok_orS TooManyParameters (c_int_try_from (index + 1))) (\<lambda>param.
     tryS (bind_to sq v st param) (\<lambda>_. bind_from sq st (index + 1) vs))"

definition bind_all_with_count :: "('h, 's, 'c, 'st, 'q, 'z) stmt_api_scheme \<Rightarrow> 'st \<Rightarrow> sql_value list \<Rightarrow> nat \<Rightarrow> ('h, 's, 'c, 'q, unit) db_stm" where
  "bind_all_with_count sq st vs expected =
    (if length vs \<noteq> expected then errS (ParameterCountMismatch expected (length vs)) else bind_from sq st 0 vs)"

section \<open>Named parameters\<close>

definition parameter_count :: "('h, 's, 'c, 'st, 'q, 'z) stmt_api_scheme \<Rightarrow> 'st \<Rightarrow> ('h, 's, 'c, 'q, nat) db_stm" where
  "parameter_count sq st = tryS (sqlite_get (sqlite3_bind_parameter_count sq st)) (\<lambda>count.
     ok_orS TooManyParameters (usize_of_c_int count))"

fun names_from :: "('h, 's, 'c, 'st, 'q, 'z) stmt_api_scheme \<Rightarrow> 'st \<Rightarrow> nat list \<Rightarrow> ('h, 's, 'c, 'q, byte list list) db_stm" where
  "names_from sq st [] = retS []"
| "names_from sq st (index # indices) = tryS (ok_orS TooManyParameters (c_int_try_from index)) (\<lambda>i.
     tryS (sqlite_get (sqlite3_bind_parameter_name sq st i)) (\<lambda>name. case name of
       None \<Rightarrow> errS (AnonymousParameterInNamedBind index)
     | Some n \<Rightarrow> tryS (names_from sq st indices) (\<lambda>names. retS (from_utf8_lossy n # names))))"

definition named_parameters :: "('h, 's, 'c, 'st, 'q, 'z) stmt_api_scheme \<Rightarrow> 'st \<Rightarrow> ('h, 's, 'c, 'q, byte list list) db_stm" where
  "named_parameters sq st = tryS (parameter_count sq st) (\<lambda>count. names_from sq st [1..<count + 1])"

fun first_missing :: "byte list list \<Rightarrow> byte list list \<Rightarrow> byte list option" where
  "first_missing [] provided = None"
| "first_missing (name # names) provided = (if name \<in> set provided then first_missing names provided else Some name)"

fun bind_named :: "('h, 's, 'c, 'st, 'q, 'z) stmt_api_scheme \<Rightarrow> 'st \<Rightarrow> byte list list \<Rightarrow> (byte list \<times> sql_value) list \<Rightarrow>
    ('h, 's, 'c, 'q, unit) db_stm" where
  "bind_named sq st expected [] = retS ()"
| "bind_named sq st expected ((name, v) # vs) =
    (if name \<notin> set expected then errS (ParameterNotFound name)
     else if 0 \<in> set name then errS InteriorNul
     else tryS (sqlite_get (sqlite3_bind_parameter_index sq st name)) (\<lambda>index.
       if index = 0 then errS (ParameterNotFound name)
       else tryS (bind_to sq v st index) (\<lambda>_. bind_named sq st expected vs)))"

definition bind_named_all :: "('h, 's, 'c, 'st, 'q, 'z) stmt_api_scheme \<Rightarrow> 'st \<Rightarrow> (byte list \<times> sql_value) list \<Rightarrow>
    ('h, 's, 'c, 'q, unit) db_stm" where
  "bind_named_all sq st vs = tryS (named_parameters sq st) (\<lambda>expected.
     if card (set (map fst vs)) \<noteq> length vs \<or> length vs \<noteq> length expected
     then errS (ParameterCountMismatch (length expected) (length vs))
     else case first_missing expected (map fst vs) of
       Some name \<Rightarrow> errS (ParameterNotFound name)
     | None \<Rightarrow> bind_named sq st expected vs)"

section \<open>Reading a row\<close>

definition SQLITE_INTEGER :: c_int where [sqlite_codes]: "SQLITE_INTEGER = 1"
definition SQLITE_FLOAT :: c_int where [sqlite_codes]: "SQLITE_FLOAT = 2"
definition SQLITE_TEXT :: c_int where [sqlite_codes]: "SQLITE_TEXT = 3"
definition SQLITE_BLOB :: c_int where [sqlite_codes]: "SQLITE_BLOB = 4"
definition SQLITE_NULL :: c_int where [sqlite_codes]: "SQLITE_NULL = 5"

definition type_name :: "c_int \<Rightarrow> string" where
  "type_name code = (if code = SQLITE_INTEGER then ''INTEGER'' else if code = SQLITE_FLOAT then ''REAL''
     else if code = SQLITE_TEXT then ''TEXT'' else if code = SQLITE_BLOB then ''BLOB''
     else if code = SQLITE_NULL then ''NULL'' else ''UNKNOWN'')"

text \<open>The number of columns; a negative count is none.\<close>

definition row_columns :: "('h, 's, 'c, 'st, 'q, 'z) stmt_api_scheme \<Rightarrow> 'st \<Rightarrow> ('h, 's, 'c, 'q, nat) db_stm" where
  "row_columns sq st = sqlite_get (\<lambda>q. nat (sqlite3_column_count sq st q))"

definition check_index :: "('h, 's, 'c, 'st, 'q, 'z) stmt_api_scheme \<Rightarrow> 'st \<Rightarrow> nat \<Rightarrow> ('h, 's, 'c, 'q, unit) db_stm" where
  "check_index sq st index = tryS (row_columns sq st) (\<lambda>count.
     if index < count then retS () else errS (ColumnOutOfRange index count))"

definition column_type :: "('h, 's, 'c, 'st, 'q, 'z) stmt_api_scheme \<Rightarrow> 'st \<Rightarrow> nat \<Rightarrow> ('h, 's, 'c, 'q, c_int) db_stm" where
  "column_type sq st index = (case c_int_try_from index of
      None \<Rightarrow> tryS (row_columns sq st) (\<lambda>count. errS (ColumnOutOfRange index count))
    | Some i \<Rightarrow> sqlite_get (sqlite3_column_type sq st i))"

definition require_type :: "nat \<Rightarrow> string \<Rightarrow> c_int \<Rightarrow> ('h, 's, 'c, 'q, unit) db_stm" where
  "require_type index expected actual =
    (let expected_code = (if expected = ''TEXT'' then SQLITE_TEXT else if expected = ''INTEGER'' then SQLITE_INTEGER
        else if expected = ''REAL'' then SQLITE_FLOAT else if expected = ''BLOB'' then SQLITE_BLOB
        else if expected = ''NULL'' then SQLITE_NULL else actual) in
     if actual = expected_code then retS () else errS (TypeMismatch index expected (type_name actual)))"

text \<open>The beginning every typed read has: the type is checked and the index converted.\<close>

definition typed_column :: "('h, 's, 'c, 'st, 'q, 'z) stmt_api_scheme \<Rightarrow> 'st \<Rightarrow> nat \<Rightarrow> string \<Rightarrow> ('h, 's, 'c, 'q, c_int) db_stm" where
  "typed_column sq st index expected = tryS (column_type sq st index) (\<lambda>actual.
     tryS (require_type index expected actual) (\<lambda>_. ok_orS TooManyParameters (c_int_try_from index)))"

definition read_string :: "('h, 's, 'c, 'st, 'q, 'z) stmt_api_scheme \<Rightarrow> 'st \<Rightarrow> nat \<Rightarrow> ('h, 's, 'c, 'q, byte list) db_stm" where
  "read_string sq st index = tryS (typed_column sq st index ''TEXT'') (\<lambda>i.
     tryS (sqlite_get (sqlite3_column_text sq st i)) (\<lambda>text.
     tryS (sqlite_get (sqlite3_column_bytes sq st i)) (\<lambda>n.
     tryS (ok_orS TextTooLarge (usize_of_c_int n)) (\<lambda>n.
     if n = 0 then retS [] else case text of None \<Rightarrow> retS []
     | Some bytes \<Rightarrow> retS (from_utf8_lossy (take n bytes))))))"

definition read_text_len :: "('h, 's, 'c, 'st, 'q, 'z) stmt_api_scheme \<Rightarrow> 'st \<Rightarrow> nat \<Rightarrow> ('h, 's, 'c, 'q, nat) db_stm" where
  "read_text_len sq st index = tryS (typed_column sq st index ''TEXT'') (\<lambda>i.
     tryS (sqlite_get (sqlite3_column_bytes sq st i)) (\<lambda>n. ok_orS TextTooLarge (usize_of_c_int n)))"

definition read_i64 :: "('h, 's, 'c, 'st, 'q, 'z) stmt_api_scheme \<Rightarrow> 'st \<Rightarrow> nat \<Rightarrow> ('h, 's, 'c, 'q, int) db_stm" where
  "read_i64 sq st index = tryS (typed_column sq st index ''INTEGER'') (\<lambda>i. sqlite_get (sqlite3_column_int64 sq st i))"

definition read_f64 :: "('h, 's, 'c, 'st, 'q, 'z) stmt_api_scheme \<Rightarrow> 'st \<Rightarrow> nat \<Rightarrow> ('h, 's, 'c, 'q, u64w) db_stm" where
  "read_f64 sq st index = tryS (typed_column sq st index ''REAL'') (\<lambda>i. sqlite_get (sqlite3_column_double sq st i))"

definition read_blob :: "('h, 's, 'c, 'st, 'q, 'z) stmt_api_scheme \<Rightarrow> 'st \<Rightarrow> nat \<Rightarrow> ('h, 's, 'c, 'q, byte list) db_stm" where
  "read_blob sq st index = tryS (typed_column sq st index ''BLOB'') (\<lambda>i.
     tryS (sqlite_get (sqlite3_column_blob sq st i)) (\<lambda>ptr.
     tryS (sqlite_get (sqlite3_column_bytes sq st i)) (\<lambda>n.
     tryS (ok_orS BlobTooLarge (usize_of_c_int n)) (\<lambda>n.
     if n = 0 then retS [] else case ptr of None \<Rightarrow> retS [] | Some bytes \<Rightarrow> retS (take n bytes)))))"

text \<open>\<open>Option<T>\<close>: \<open>NULL\<close> is \<open>None\<close>, everything else is left to the reader of \<open>T\<close>.\<close>

definition read_option :: "('h, 's, 'c, 'st, 'q, 'z) stmt_api_scheme \<Rightarrow> ('st \<Rightarrow> nat \<Rightarrow> ('h, 's, 'c, 'q, 't) db_stm) \<Rightarrow>
    'st \<Rightarrow> nat \<Rightarrow> ('h, 's, 'c, 'q, 't option) db_stm" where
  "read_option sq read st index = tryS (column_type sq st index) (\<lambda>code.
     if code = SQLITE_NULL then retS None else tryS (read st index) (\<lambda>v. retS (Some v)))"

definition row_get :: "('h, 's, 'c, 'st, 'q, 'z) stmt_api_scheme \<Rightarrow> ('st \<Rightarrow> nat \<Rightarrow> ('h, 's, 'c, 'q, 't) db_stm) \<Rightarrow>
    'st \<Rightarrow> nat \<Rightarrow> ('h, 's, 'c, 'q, 't) db_stm" where
  "row_get sq read st index = tryS (check_index sq st index) (\<lambda>_. read st index)"

definition column_payload :: "('h, 's, 'c, 'st, 'q, 'z) stmt_api_scheme \<Rightarrow> 'st \<Rightarrow> 'q \<Rightarrow> c_int \<Rightarrow> nat" where
  "column_payload sq st q i = (let code = sqlite3_column_type sq st i q in
     if code = SQLITE_INTEGER \<or> code = SQLITE_FLOAT then 8
     else if code = SQLITE_TEXT \<or> code = SQLITE_BLOB then nat (max (sqlite3_column_bytes sq st i q) 0) else 0)"

definition payload_bytes :: "('h, 's, 'c, 'st, 'q, 'z) stmt_api_scheme \<Rightarrow> 'st \<Rightarrow> 'q \<Rightarrow> nat" where
  "payload_bytes sq st q = fold (\<lambda>i total. saturating_add total (column_payload sq st q (int i)))
     [0..<nat (sqlite3_column_count sq st q)] 0"

end
