(* ===== verification/Sql_Statement.thy ===== *)
theory Sql_Statement
  imports Sql_Value
begin

text \<open>
  Prepared statements: binding, execution and row iteration (\<open>src/src/db/statement.rs\<close>), and the
  one-shot helpers of a connection (\<open>src/src/db/connection.rs\<close>).

  Loops over the rows of a statement end when SQLite reports the end of the rows, so they are partial
  functions: \<open>None\<close> is a loop that does not end.  The \<open>_profiled\<close> variants are compiled for benchmarks
  only, and the failpoints of \<open>step\<close> for tests only.
\<close>

section \<open>Statements\<close>

record ('c, 'st) statement =
  st_db :: 'c
  st_raw :: 'st
  st_parameter_count :: nat

definition from_cached_raw :: "'c \<Rightarrow> 'st \<Rightarrow> nat \<Rightarrow> ('c, 'st) statement" where
  "from_cached_raw db raw count = \<lparr>st_db = db, st_raw = raw, st_parameter_count = count\<rparr>"

definition stmt_of_raw :: "('h, 's, 'c, 'st, 'q, 'z) stmt_api_scheme \<Rightarrow> 'c \<Rightarrow> 'st \<Rightarrow> ('h, 's, 'c, 'q, ('c, 'st) statement) db_stm" where
  "stmt_of_raw sq db raw = tryS (sqlite_get (sqlite3_bind_parameter_count sq raw)) (\<lambda>count.
     retS (from_cached_raw db raw (case usize_of_c_int count of Some n \<Rightarrow> n | None \<Rightarrow> 0)))"

text \<open>The error of a code, with the message SQLite has for the connection.\<close>

definition stmt_error :: "('h, 's, 'c, 'st, 'q, 'z) stmt_api_scheme \<Rightarrow> 'c \<Rightarrow> c_int \<Rightarrow> ('h, 's, 'c, 'q, 'a) db_stm" where
  "stmt_error sq db rc = tryS (sqlite_get (sqlite3_errmsg sq db)) (\<lambda>message.
     errS (sqlite_error (map_option from_utf8_lossy message) rc))"

definition is_read_only :: "('h, 's, 'c, 'st, 'q, 'z) stmt_api_scheme \<Rightarrow> ('c, 'st) statement \<Rightarrow> ('h, 's, 'c, 'q, bool) db_stm" where
  "is_read_only sq st = sqlite_get (\<lambda>q. sqlite3_stmt_readonly sq (st_raw st) q \<noteq> 0)"

definition step :: "('h, 's, 'c, 'st, 'q, 'z) stmt_api_scheme \<Rightarrow> ('c, 'st) statement \<Rightarrow> ('h, 's, 'c, 'q, c_int) db_stm" where
  "step sq st = sqlite_call (sqlite3_step sq (st_raw st))"

definition clear_bindings :: "('h, 's, 'c, 'st, 'q, 'z) stmt_api_scheme \<Rightarrow> ('c, 'st) statement \<Rightarrow>
    ('h, 's, 'c, 'q) db_state \<Rightarrow> ('h, 's, 'c, 'q) db_state" where
  "clear_bindings sq st = ignoring (sqlite_call (sqlite3_clear_bindings sq (st_raw st)) :: (_, _, db_error) stm)"

section \<open>Binding\<close>

definition reset :: "('h, 's, 'c, 'st, 'q, 'z) stmt_api_scheme \<Rightarrow> ('c, 'st) statement \<Rightarrow> ('h, 's, 'c, 'q, unit) db_stm" where
  "reset sq st = tryS (sqlite_call (sqlite3_reset sq (st_raw st))) (\<lambda>rc.
     if rc \<noteq> SQLITE_OK then stmt_error sq (st_db st) rc else retS ())"

definition reset_and_bind :: "('h, 's, 'c, 'st, 'q, 'z) stmt_api_scheme \<Rightarrow> ('c, 'st) statement \<Rightarrow> sql_value list \<Rightarrow>
    ('h, 's, 'c, 'q, unit) db_stm" where
  "reset_and_bind sq st vs = tryS (reset sq st) (\<lambda>_.
     if st_parameter_count st = 0 \<and> vs = [] then retS ()
     else bind_all_with_count sq (st_raw st) vs (st_parameter_count st))"

definition reset_and_bind_named :: "('h, 's, 'c, 'st, 'q, 'z) stmt_api_scheme \<Rightarrow> ('c, 'st) statement \<Rightarrow>
    (byte list \<times> sql_value) list \<Rightarrow> ('h, 's, 'c, 'q, unit) db_stm" where
  "reset_and_bind_named sq st vs = tryS (reset sq st) (\<lambda>_. bind_named_all sq (st_raw st) vs)"

definition bind_text_static :: "('h, 's, 'c, 'st, 'q, 'z) stmt_api_scheme \<Rightarrow> 'st \<Rightarrow> c_int \<Rightarrow> byte list \<Rightarrow> ('h, 's, 'c, 'q, unit) db_stm" where
  "bind_text_static sq raw index v = tryS (ok_orS TextTooLarge (c_int_try_from (length v))) (\<lambda>_.
     tryS (sqlite_call (sqlite3_bind_text sq raw index v Static)) bind_result)"

definition bind_blob_static :: "('h, 's, 'c, 'st, 'q, 'z) stmt_api_scheme \<Rightarrow> 'st \<Rightarrow> c_int \<Rightarrow> byte list \<Rightarrow> ('h, 's, 'c, 'q, unit) db_stm" where
  "bind_blob_static sq raw index v = tryS (ok_orS BlobTooLarge (c_int_try_from (length v))) (\<lambda>_.
     tryS (sqlite_call (sqlite3_bind_blob sq raw index (Some v) Static)) bind_result)"

text \<open>The statement takes a fixed number of parameters.\<close>

definition expecting :: "nat \<Rightarrow> ('h, 's, 'c, 'st, 'q, 'z) stmt_api_scheme \<Rightarrow> ('c, 'st) statement \<Rightarrow> ('h, 's, 'c, 'q, unit) db_stm" where
  "expecting n sq st = (if st_parameter_count st \<noteq> n then errS (ParameterCountMismatch (st_parameter_count st) n)
     else reset sq st)"

definition reset_and_bind_single_text_borrowed :: "('h, 's, 'c, 'st, 'q, 'z) stmt_api_scheme \<Rightarrow> ('c, 'st) statement \<Rightarrow> byte list \<Rightarrow>
    ('h, 's, 'c, 'q, unit) db_stm" where
  "reset_and_bind_single_text_borrowed sq st v = tryS (expecting 1 sq st) (\<lambda>_. bind_text_static sq (st_raw st) 1 v)"

definition reset_and_bind_single_i64 :: "('h, 's, 'c, 'st, 'q, 'z) stmt_api_scheme \<Rightarrow> ('c, 'st) statement \<Rightarrow> int \<Rightarrow>
    ('h, 's, 'c, 'q, unit) db_stm" where
  "reset_and_bind_single_i64 sq st v = tryS (expecting 1 sq st) (\<lambda>_. bind_i64 sq (st_raw st) 1 v)"

definition reset_and_bind_two_text_borrowed :: "('h, 's, 'c, 'st, 'q, 'z) stmt_api_scheme \<Rightarrow> ('c, 'st) statement \<Rightarrow>
    byte list \<Rightarrow> byte list \<Rightarrow> ('h, 's, 'c, 'q, unit) db_stm" where
  "reset_and_bind_two_text_borrowed sq st first second = tryS (expecting 2 sq st) (\<lambda>_.
     tryS (bind_text_static sq (st_raw st) 1 first) (\<lambda>_. bind_text_static sq (st_raw st) 2 second))"

definition reset_and_bind_i64_text_borrowed :: "('h, 's, 'c, 'st, 'q, 'z) stmt_api_scheme \<Rightarrow> ('c, 'st) statement \<Rightarrow>
    int \<Rightarrow> byte list \<Rightarrow> ('h, 's, 'c, 'q, unit) db_stm" where
  "reset_and_bind_i64_text_borrowed sq st first second = tryS (expecting 2 sq st) (\<lambda>_.
     tryS (bind_i64 sq (st_raw st) 1 first) (\<lambda>_. bind_text_static sq (st_raw st) 2 second))"

definition reset_and_bind_i64_blob_borrowed :: "('h, 's, 'c, 'st, 'q, 'z) stmt_api_scheme \<Rightarrow> ('c, 'st) statement \<Rightarrow>
    int \<Rightarrow> byte list \<Rightarrow> ('h, 's, 'c, 'q, unit) db_stm" where
  "reset_and_bind_i64_blob_borrowed sq st first second = tryS (expecting 2 sq st) (\<lambda>_.
     tryS (bind_i64 sq (st_raw st) 1 first) (\<lambda>_. bind_blob_static sq (st_raw st) 2 second))"

definition reset_and_bind_i64_i64_text_borrowed :: "('h, 's, 'c, 'st, 'q, 'z) stmt_api_scheme \<Rightarrow> ('c, 'st) statement \<Rightarrow>
    int \<Rightarrow> int \<Rightarrow> byte list \<Rightarrow> ('h, 's, 'c, 'q, unit) db_stm" where
  "reset_and_bind_i64_i64_text_borrowed sq st first second third = tryS (expecting 3 sq st) (\<lambda>_.
     tryS (bind_i64 sq (st_raw st) 1 first) (\<lambda>_. tryS (bind_i64 sq (st_raw st) 2 second) (\<lambda>_.
       bind_text_static sq (st_raw st) 3 third)))"

text \<open>The texts of an iterator are bound one after the other; the first that fails clears them all.\<close>

fun bind_texts_from :: "('h, 's, 'c, 'st, 'q, 'z) stmt_api_scheme \<Rightarrow> ('c, 'st) statement \<Rightarrow> nat \<Rightarrow> byte list list \<Rightarrow>
    ('h, 's, 'c, 'q, unit) db_stm" where
  "bind_texts_from sq st param [] = retS ()"
| "bind_texts_from sq st param (v # vs) = catchS (bind_text_static sq (st_raw st) (int param) v)
     (\<lambda>error s. (Err error, clear_bindings sq st s)) (\<lambda>_. bind_texts_from sq st (param + 1) vs)"

definition reset_and_bind_text_iter :: "('h, 's, 'c, 'st, 'q, 'z) stmt_api_scheme \<Rightarrow> ('c, 'st) statement \<Rightarrow> byte list list \<Rightarrow>
    ('h, 's, 'c, 'q, unit) db_stm" where
  "reset_and_bind_text_iter sq st vs =
    (if length vs \<noteq> st_parameter_count st then errS (ParameterCountMismatch (st_parameter_count st) (length vs))
     else tryS (reset sq st) (\<lambda>_. bind_texts_from sq st 1 vs))"

section \<open>Execution\<close>

text \<open>A step that has to end the statement.\<close>

definition step_done :: "('h, 's, 'c, 'st, 'q, 'z) stmt_api_scheme \<Rightarrow> ('c, 'st) statement \<Rightarrow> ('h, 's, 'c, 'q, unit) db_stm" where
  "step_done sq st = tryS (step sq st) (\<lambda>rc. if rc = SQLITE_DONE then retS () else stmt_error sq (st_db st) rc)"

definition execute :: "('h, 's, 'c, 'st, 'q, 'z) stmt_api_scheme \<Rightarrow> ('c, 'st) statement \<Rightarrow> sql_value list \<Rightarrow> ('h, 's, 'c, 'q, unit) db_stm" where
  "execute sq st vs = tryS (reset_and_bind sq st vs) (\<lambda>_. step_done sq st)"

definition execute_named :: "('h, 's, 'c, 'st, 'q, 'z) stmt_api_scheme \<Rightarrow> ('c, 'st) statement \<Rightarrow> (byte list \<times> sql_value) list \<Rightarrow>
    ('h, 's, 'c, 'q, unit) db_stm" where
  "execute_named sq st vs = tryS (reset_and_bind_named sq st vs) (\<lambda>_. step_done sq st)"

text \<open>Borrowed values are bound, the statement is run, and the bindings are cleared on every way out.\<close>

definition clearing :: "('h, 's, 'c, 'st, 'q, 'z) stmt_api_scheme \<Rightarrow> ('c, 'st) statement \<Rightarrow> ('h, 's, 'c, 'q, 'a) db_stm \<Rightarrow>
    ('h, 's, 'c, 'q, 'a) db_stm" where
  "clearing sq st m s = (case m s of (r, s') \<Rightarrow> (r, clear_bindings sq st s'))"

definition execute_text_text :: "('h, 's, 'c, 'st, 'q, 'z) stmt_api_scheme \<Rightarrow> ('c, 'st) statement \<Rightarrow> byte list \<Rightarrow> byte list \<Rightarrow>
    ('h, 's, 'c, 'q, unit) db_stm" where
  "execute_text_text sq st first second = clearing sq st
     (tryS (reset_and_bind_two_text_borrowed sq st first second) (\<lambda>_. step_done sq st))"

definition execute_i64_text :: "('h, 's, 'c, 'st, 'q, 'z) stmt_api_scheme \<Rightarrow> ('c, 'st) statement \<Rightarrow> int \<Rightarrow> byte list \<Rightarrow>
    ('h, 's, 'c, 'q, unit) db_stm" where
  "execute_i64_text sq st first second = clearing sq st
     (tryS (reset_and_bind_i64_text_borrowed sq st first second) (\<lambda>_. step_done sq st))"

definition execute_i64_blob :: "('h, 's, 'c, 'st, 'q, 'z) stmt_api_scheme \<Rightarrow> ('c, 'st) statement \<Rightarrow> int \<Rightarrow> byte list \<Rightarrow>
    ('h, 's, 'c, 'q, unit) db_stm" where
  "execute_i64_blob sq st first second = clearing sq st
     (tryS (reset_and_bind_i64_blob_borrowed sq st first second) (\<lambda>_. step_done sq st))"

definition execute_i64_i64_text :: "('h, 's, 'c, 'st, 'q, 'z) stmt_api_scheme \<Rightarrow> ('c, 'st) statement \<Rightarrow> int \<Rightarrow> int \<Rightarrow> byte list \<Rightarrow>
    ('h, 's, 'c, 'q, unit) db_stm" where
  "execute_i64_i64_text sq st first second third = clearing sq st
     (tryS (reset_and_bind_i64_i64_text_borrowed sq st first second third) (\<lambda>_. step_done sq st))"

definition read_string_column_zero :: "('h, 's, 'c, 'st, 'q, 'z) stmt_api_scheme \<Rightarrow> 'st \<Rightarrow> ('h, 's, 'c, 'q, byte list) db_stm" where
  "read_string_column_zero sq raw = tryS (sqlite_get (sqlite3_column_type sq raw 0)) (\<lambda>actual.
     if actual \<noteq> SQLITE_TEXT then errS (TypeMismatch 0 ''TEXT'' (type_name actual))
     else tryS (sqlite_get (sqlite3_column_text sq raw 0)) (\<lambda>text.
       tryS (sqlite_get (sqlite3_column_bytes sq raw 0)) (\<lambda>n.
       case text of None \<Rightarrow> retS []
       | Some bytes \<Rightarrow> if n = 0 then retS [] else retS (from_utf8_lossy (take (nat n) bytes)))))"

text \<open>The length is cast to \<open>usize\<close> without a check; SQLite reports no negative length.\<close>

definition read_string_column_zero_len :: "('h, 's, 'c, 'st, 'q, 'z) stmt_api_scheme \<Rightarrow> 'st \<Rightarrow> ('h, 's, 'c, 'q, nat) db_stm" where
  "read_string_column_zero_len sq raw = sqlite_get (\<lambda>q. nat (sqlite3_column_bytes sq raw 0 q mod 2 ^ 64))"

text \<open>At most one row: what is read of it, or \<open>None\<close> at the end.\<close>

definition step_optional :: "('h, 's, 'c, 'st, 'q, 'z) stmt_api_scheme \<Rightarrow> ('c, 'st) statement \<Rightarrow> ('h, 's, 'c, 'q, 'a) db_stm \<Rightarrow>
    ('h, 's, 'c, 'q, 'a option) db_stm" where
  "step_optional sq st read = tryS (step sq st) (\<lambda>rc.
     if rc = SQLITE_ROW then tryS read (\<lambda>v. retS (Some v))
     else if rc = SQLITE_DONE then retS None else stmt_error sq (st_db st) rc)"

definition query_optional_string_text_borrowed :: "('h, 's, 'c, 'st, 'q, 'z) stmt_api_scheme \<Rightarrow> ('c, 'st) statement \<Rightarrow> byte list \<Rightarrow>
    ('h, 's, 'c, 'q, byte list option) db_stm" where
  "query_optional_string_text_borrowed sq st v = clearing sq st (tryS (reset_and_bind_single_text_borrowed sq st v) (\<lambda>_.
     step_optional sq st (read_string_column_zero sq (st_raw st))))"

definition query_optional_string_text_len_borrowed :: "('h, 's, 'c, 'st, 'q, 'z) stmt_api_scheme \<Rightarrow> ('c, 'st) statement \<Rightarrow> byte list \<Rightarrow>
    ('h, 's, 'c, 'q, nat option) db_stm" where
  "query_optional_string_text_len_borrowed sq st v = clearing sq st (tryS (reset_and_bind_single_text_borrowed sq st v) (\<lambda>_.
     step_optional sq st (read_string_column_zero_len sq (st_raw st))))"

partial_function (option) len_sum_from :: "('h, 's, 'c, 'st, 'q, 'z) stmt_api_scheme \<Rightarrow> ('c, 'st) statement \<Rightarrow> nat \<Rightarrow>
    ('h, 's, 'c, 'q) db_state \<Rightarrow> ((nat, db_error) outcome \<times> ('h, 's, 'c, 'q) db_state) option" where
  "len_sum_from sq st acc s = (case step_optional sq st (read_string_column_zero_len sq (st_raw st)) s of
      (Ok v, s1) \<Rightarrow> (case v of Some n \<Rightarrow> len_sum_from sq st ((acc + n) mod 2 ^ 64) s1 | None \<Rightarrow> Some (Ok acc, s1))
    | (Err e, s1) \<Rightarrow> Some (Err e, s1) | (Panic, s1) \<Rightarrow> Some (Panic, s1))"

definition query_text_iter_text_len_sum :: "('h, 's, 'c, 'st, 'q, 'z) stmt_api_scheme \<Rightarrow> ('c, 'st) statement \<Rightarrow> byte list list \<Rightarrow>
    ('h, 's, 'c, 'q) db_state \<Rightarrow> ((nat, db_error) outcome \<times> ('h, 's, 'c, 'q) db_state) option" where
  "query_text_iter_text_len_sum sq st vs s = map_option (\<lambda>(r, s'). (r, clear_bindings sq st s'))
    (case reset_and_bind_text_iter sq st vs s of
      (Ok _, s1) \<Rightarrow> len_sum_from sq st 0 s1 | (Err e, s1) \<Rightarrow> Some (Err e, s1) | (Panic, s1) \<Rightarrow> Some (Panic, s1))"

section \<open>Rows\<close>

record ('c, 'st) rows =
  rw_statement :: "('c, 'st) statement"
  rw_done :: bool
  rw_clear_bindings_on_drop :: bool

definition rows_new :: "('c, 'st) statement \<Rightarrow> bool \<Rightarrow> ('c, 'st) rows" where
  "rows_new st clear = \<lparr>rw_statement = st, rw_done = False, rw_clear_bindings_on_drop = clear\<rparr>"

definition query :: "('h, 's, 'c, 'st, 'q, 'z) stmt_api_scheme \<Rightarrow> ('c, 'st) statement \<Rightarrow> sql_value list \<Rightarrow>
    ('h, 's, 'c, 'q, ('c, 'st) rows) db_stm" where
  "query sq st vs = tryS (reset_and_bind sq st vs) (\<lambda>_. retS (rows_new st False))"

definition query_i64 :: "('h, 's, 'c, 'st, 'q, 'z) stmt_api_scheme \<Rightarrow> ('c, 'st) statement \<Rightarrow> int \<Rightarrow>
    ('h, 's, 'c, 'q, ('c, 'st) rows) db_stm" where
  "query_i64 sq st v = tryS (reset_and_bind_single_i64 sq st v) (\<lambda>_. retS (rows_new st False))"

definition query_text_iter :: "('h, 's, 'c, 'st, 'q, 'z) stmt_api_scheme \<Rightarrow> ('c, 'st) statement \<Rightarrow> byte list list \<Rightarrow>
    ('h, 's, 'c, 'q, ('c, 'st) rows) db_stm" where
  "query_text_iter sq st vs = tryS (reset_and_bind_text_iter sq st vs) (\<lambda>_. retS (rows_new st True))"

definition query_named :: "('h, 's, 'c, 'st, 'q, 'z) stmt_api_scheme \<Rightarrow> ('c, 'st) statement \<Rightarrow> (byte list \<times> sql_value) list \<Rightarrow>
    ('h, 's, 'c, 'q, ('c, 'st) rows) db_stm" where
  "query_named sq st vs = tryS (reset_and_bind_named sq st vs) (\<lambda>_. retS (rows_new st False))"

definition clear_static_bindings :: "('h, 's, 'c, 'st, 'q, 'z) stmt_api_scheme \<Rightarrow>
    ('c, 'st) rows \<times> ('h, 's, 'c, 'q) db_state \<Rightarrow> ('c, 'st) rows \<times> ('h, 's, 'c, 'q) db_state" where
  "clear_static_bindings sq rs = (let (rows, s) = rs in
     if rw_clear_bindings_on_drop rows
     then (rows\<lparr>rw_clear_bindings_on_drop := False\<rparr>, clear_bindings sq (rw_statement rows) s) else (rows, s))"

type_synonym ('h, 's, 'c, 'st, 'q, 'a) rows_stm = "(('c, 'st) rows \<times> ('h, 's, 'c, 'q) db_state, 'a, db_error) stm"

text \<open>What a code of \<open>step\<close> means for the rows: a row, the end, or an error.\<close>

definition after_step :: "('h, 's, 'c, 'st, 'q, 'z) stmt_api_scheme \<Rightarrow> ('h, 's, 'c, 'q, 'a) db_stm \<Rightarrow>
    ('h, 's, 'c, 'st, 'q, 'a option) rows_stm" where
  "after_step sq read rs = (let (rows, s) = rs; st = rw_statement rows in case step sq st s of
      (Ok rc, s) \<Rightarrow>
        if rc = SQLITE_ROW then (let (r, s) = tryS read (\<lambda>v. retS (Some v)) s in (r, (rows, s)))
        else if rc = SQLITE_DONE then (Ok None, clear_static_bindings sq (rows\<lparr>rw_done := True\<rparr>, s))
        else (let (r, s) = stmt_error sq (st_db st) rc s in (r, (rows, s)))
    | (Err e, s) \<Rightarrow> (Err e, (rows, s)) | (Panic, s) \<Rightarrow> (Panic, (rows, s)))"

text \<open>A row is the handle of the statement that stands on it.\<close>

definition next_row :: "('h, 's, 'c, 'st, 'q, 'z) stmt_api_scheme \<Rightarrow> ('h, 's, 'c, 'st, 'q, 'st option) rows_stm" where
  "next_row sq rs = (if rw_done (fst rs) then (Ok None, rs)
     else after_step sq (retS (st_raw (rw_statement (fst rs)))) rs)"

definition next_text_len_zero :: "('h, 's, 'c, 'st, 'q, 'z) stmt_api_scheme \<Rightarrow> ('h, 's, 'c, 'st, 'q, nat option) rows_stm" where
  "next_text_len_zero sq rs = after_step sq (read_string_column_zero_len sq (st_raw (rw_statement (fst rs)))) rs"

definition drop_rows :: "('h, 's, 'c, 'st, 'q, 'z) stmt_api_scheme \<Rightarrow> ('c, 'st) rows \<times> ('h, 's, 'c, 'q) db_state \<Rightarrow>
    ('h, 's, 'c, 'q) db_state" where
  "drop_rows sq rs = snd (clear_static_bindings sq rs)"

text \<open>The first row, if there is one; the rows are dropped at the end.\<close>

definition first_row :: "('h, 's, 'c, 'st, 'q, 'z) stmt_api_scheme \<Rightarrow> ('c, 'st) rows \<Rightarrow> ('st \<Rightarrow> ('h, 's, 'c, 'q, 't) db_stm) \<Rightarrow>
    ('h, 's, 'c, 'q, 't option) db_stm" where
  "first_row sq rows f s = (case next_row sq (rows, s) of
      (Ok row, (rows, s)) \<Rightarrow> (let (r, s) = (case row of None \<Rightarrow> retS None | Some raw \<Rightarrow> tryS (f raw) (\<lambda>v. retS (Some v))) s
         in (r, drop_rows sq (rows, s)))
    | (Err e, rs) \<Rightarrow> (Err e, drop_rows sq rs) | (Panic, rs) \<Rightarrow> (Panic, snd rs))"

partial_function (option) rows_from :: "('h, 's, 'c, 'st, 'q, 'z) stmt_api_scheme \<Rightarrow> ('st \<Rightarrow> ('h, 's, 'c, 'q, 't) db_stm) \<Rightarrow> 't list \<Rightarrow>
    ('c, 'st) rows \<Rightarrow> ('h, 's, 'c, 'q) db_state \<Rightarrow> (('t list, db_error) outcome \<times> ('h, 's, 'c, 'q) db_state) option" where
  "rows_from sq f out rows s = (case next_row sq (rows, s) of
      (Ok row, rs) \<Rightarrow> (case row of None \<Rightarrow> Some (Ok out, drop_rows sq rs)
        | Some raw \<Rightarrow> (case f raw (snd rs) of
            (Ok v, s2) \<Rightarrow> rows_from sq f (out @ [v]) (fst rs) s2
          | (Err e, s2) \<Rightarrow> Some (Err e, drop_rows sq (fst rs, s2)) | (Panic, s2) \<Rightarrow> Some (Panic, s2)))
    | (Err e, rs) \<Rightarrow> Some (Err e, drop_rows sq rs) | (Panic, rs) \<Rightarrow> Some (Panic, snd rs))"

definition not_found :: "'a option \<Rightarrow> ('h, 's, 'c, 'q, 'a) db_stm" where
  "not_found v = ok_orS NotFound v"

definition query_one :: "('h, 's, 'c, 'st, 'q, 'z) stmt_api_scheme \<Rightarrow> ('c, 'st) statement \<Rightarrow> sql_value list \<Rightarrow>
    ('st \<Rightarrow> ('h, 's, 'c, 'q, 't) db_stm) \<Rightarrow> ('h, 's, 'c, 'q, 't) db_stm" where
  "query_one sq st vs f = tryS (query sq st vs) (\<lambda>rows. tryS (first_row sq rows f) not_found)"

definition query_one_named :: "('h, 's, 'c, 'st, 'q, 'z) stmt_api_scheme \<Rightarrow> ('c, 'st) statement \<Rightarrow> (byte list \<times> sql_value) list \<Rightarrow>
    ('st \<Rightarrow> ('h, 's, 'c, 'q, 't) db_stm) \<Rightarrow> ('h, 's, 'c, 'q, 't) db_stm" where
  "query_one_named sq st vs f = tryS (query_named sq st vs) (\<lambda>rows. tryS (first_row sq rows f) not_found)"

definition query_optional :: "('h, 's, 'c, 'st, 'q, 'z) stmt_api_scheme \<Rightarrow> ('c, 'st) statement \<Rightarrow> sql_value list \<Rightarrow>
    ('st \<Rightarrow> ('h, 's, 'c, 'q, 't) db_stm) \<Rightarrow> ('h, 's, 'c, 'q, 't option) db_stm" where
  "query_optional sq st vs f = tryS (query sq st vs) (\<lambda>rows. first_row sq rows f)"

definition query_optional_named :: "('h, 's, 'c, 'st, 'q, 'z) stmt_api_scheme \<Rightarrow> ('c, 'st) statement \<Rightarrow> (byte list \<times> sql_value) list \<Rightarrow>
    ('st \<Rightarrow> ('h, 's, 'c, 'q, 't) db_stm) \<Rightarrow> ('h, 's, 'c, 'q, 't option) db_stm" where
  "query_optional_named sq st vs f = tryS (query_named sq st vs) (\<lambda>rows. first_row sq rows f)"

definition all_rows :: "('h, 's, 'c, 'st, 'q, 'z) stmt_api_scheme \<Rightarrow> ('h, 's, 'c, 'q, ('c, 'st) rows) db_stm \<Rightarrow>
    ('st \<Rightarrow> ('h, 's, 'c, 'q, 't) db_stm) \<Rightarrow> ('h, 's, 'c, 'q) db_state \<Rightarrow>
    (('t list, db_error) outcome \<times> ('h, 's, 'c, 'q) db_state) option" where
  "all_rows sq start f s = (case start s of (Ok rows, s) \<Rightarrow> rows_from sq f [] rows s
     | (Err e, s) \<Rightarrow> Some (Err e, s) | (Panic, s) \<Rightarrow> Some (Panic, s))"

definition query_all :: "('h, 's, 'c, 'st, 'q, 'z) stmt_api_scheme \<Rightarrow> ('c, 'st) statement \<Rightarrow> sql_value list \<Rightarrow>
    ('st \<Rightarrow> ('h, 's, 'c, 'q, 't) db_stm) \<Rightarrow> ('h, 's, 'c, 'q) db_state \<Rightarrow>
    (('t list, db_error) outcome \<times> ('h, 's, 'c, 'q) db_state) option" where
  "query_all sq st vs f = all_rows sq (query sq st vs) f"

definition query_all_named :: "('h, 's, 'c, 'st, 'q, 'z) stmt_api_scheme \<Rightarrow> ('c, 'st) statement \<Rightarrow> (byte list \<times> sql_value) list \<Rightarrow>
    ('st \<Rightarrow> ('h, 's, 'c, 'q, 't) db_stm) \<Rightarrow> ('h, 's, 'c, 'q) db_state \<Rightarrow>
    (('t list, db_error) outcome \<times> ('h, 's, 'c, 'q) db_state) option" where
  "query_all_named sq st vs f = all_rows sq (query_named sq st vs) f"

definition query_scalar :: "('h, 's, 'c, 'st, 'q, 'z) stmt_api_scheme \<Rightarrow> ('st \<Rightarrow> nat \<Rightarrow> ('h, 's, 'c, 'q, 't) db_stm) \<Rightarrow>
    ('c, 'st) statement \<Rightarrow> sql_value list \<Rightarrow> ('h, 's, 'c, 'q, 't) db_stm" where
  "query_scalar sq read st vs = query_one sq st vs (\<lambda>raw. row_get sq read raw 0)"

definition query_optional_scalar :: "('h, 's, 'c, 'st, 'q, 'z) stmt_api_scheme \<Rightarrow> ('st \<Rightarrow> nat \<Rightarrow> ('h, 's, 'c, 'q, 't) db_stm) \<Rightarrow>
    ('c, 'st) statement \<Rightarrow> sql_value list \<Rightarrow> ('h, 's, 'c, 'q, 't option) db_stm" where
  "query_optional_scalar sq read st vs = query_optional sq st vs (\<lambda>raw. row_get sq read raw 0)"

definition query_column :: "('h, 's, 'c, 'st, 'q, 'z) stmt_api_scheme \<Rightarrow> ('st \<Rightarrow> nat \<Rightarrow> ('h, 's, 'c, 'q, 't) db_stm) \<Rightarrow>
    ('c, 'st) statement \<Rightarrow> sql_value list \<Rightarrow> ('h, 's, 'c, 'q) db_state \<Rightarrow>
    (('t list, db_error) outcome \<times> ('h, 's, 'c, 'q) db_state) option" where
  "query_column sq read st vs = query_all sq st vs (\<lambda>raw. row_get sq read raw 0)"

definition query_scalar_named :: "('h, 's, 'c, 'st, 'q, 'z) stmt_api_scheme \<Rightarrow> ('st \<Rightarrow> nat \<Rightarrow> ('h, 's, 'c, 'q, 't) db_stm) \<Rightarrow>
    ('c, 'st) statement \<Rightarrow> (byte list \<times> sql_value) list \<Rightarrow> ('h, 's, 'c, 'q, 't) db_stm" where
  "query_scalar_named sq read st vs = query_one_named sq st vs (\<lambda>raw. row_get sq read raw 0)"

definition query_optional_scalar_named :: "('h, 's, 'c, 'st, 'q, 'z) stmt_api_scheme \<Rightarrow> ('st \<Rightarrow> nat \<Rightarrow> ('h, 's, 'c, 'q, 't) db_stm) \<Rightarrow>
    ('c, 'st) statement \<Rightarrow> (byte list \<times> sql_value) list \<Rightarrow> ('h, 's, 'c, 'q, 't option) db_stm" where
  "query_optional_scalar_named sq read st vs = query_optional_named sq st vs (\<lambda>raw. row_get sq read raw 0)"

definition query_column_named :: "('h, 's, 'c, 'st, 'q, 'z) stmt_api_scheme \<Rightarrow> ('st \<Rightarrow> nat \<Rightarrow> ('h, 's, 'c, 'q, 't) db_stm) \<Rightarrow>
    ('c, 'st) statement \<Rightarrow> (byte list \<times> sql_value) list \<Rightarrow> ('h, 's, 'c, 'q) db_state \<Rightarrow>
    (('t list, db_error) outcome \<times> ('h, 's, 'c, 'q) db_state) option" where
  "query_column_named sq read st vs = query_all_named sq st vs (\<lambda>raw. row_get sq read raw 0)"

section \<open>The helpers of a connection\<close>

text \<open>\<open>Connection::prepare\<close>: a statement, or the reason why there is none.\<close>

definition prepare_statement :: "('h, 's, 'c, 'st, 'q, 'z) stmt_api_scheme \<Rightarrow> 'c \<Rightarrow> byte list \<Rightarrow> ('h, 's, 'c, 'q, ('c, 'st) statement) db_stm" where
  "prepare_statement sq conn sql = (if 0 \<in> set sql then errS InteriorNul
     else tryS (sqlite_call (sqlite3_prepare_v2 sq conn sql)) (\<lambda>(rc, st, rest).
       if rc \<noteq> SQLITE_OK then stmt_error sq conn rc
       else case st of None \<Rightarrow> errS EmptySql
       | Some raw \<Rightarrow>
           if \<not> tail_is_empty rest
           then tryS (sqlite_call (sqlite3_stmt_finalize sq raw)) (\<lambda>_. errS TrailingSql)
           else stmt_of_raw sq conn raw))"

definition drop_statement :: "('h, 's, 'c, 'st, 'q, 'z) stmt_api_scheme \<Rightarrow> ('c, 'st) statement \<Rightarrow> ('h, 's, 'c, 'q, unit) db_stm" where
  "drop_statement sq st = sqlite_call (sqlite3_stmt_finalize sq (st_raw st))"

text \<open>A statement prepared for one use; it is finalized at the end.\<close>

definition with_statement :: "('h, 's, 'c, 'st, 'q, 'z) stmt_api_scheme \<Rightarrow> 'c \<Rightarrow> byte list \<Rightarrow> (('c, 'st) statement \<Rightarrow> ('h, 's, 'c, 'q, 'a) db_stm) \<Rightarrow> 
    ('h, 's, 'c, 'q, 'a) db_stm" where
  "with_statement sq conn sql f = tryS (prepare_statement sq conn sql) (\<lambda>st s.
     let (r, s') = f st s in (r, ignoring (drop_statement sq st) s'))"

definition with_statement_loop :: "('h, 's, 'c, 'st, 'q, 'z) stmt_api_scheme \<Rightarrow> 'c \<Rightarrow> byte list \<Rightarrow> 
    (('c, 'st) statement \<Rightarrow> ('h, 's, 'c, 'q) db_state \<Rightarrow> (('a, db_error) outcome \<times> ('h, 's, 'c, 'q) db_state) option) \<Rightarrow> 
    ('h, 's, 'c, 'q) db_state \<Rightarrow> (('a, db_error) outcome \<times> ('h, 's, 'c, 'q) db_state) option" where
  "with_statement_loop sq conn sql f s = (case prepare_statement sq conn sql s of
      (Ok st, s) \<Rightarrow> map_option (\<lambda>(r, s'). (r, ignoring (drop_statement sq st) s')) (f st s)
    | (Err e, s) \<Rightarrow> Some (Err e, s) | (Panic, s) \<Rightarrow> Some (Panic, s))"

definition conn_execute :: "('h, 's, 'c, 'st, 'q, 'z) stmt_api_scheme \<Rightarrow> 'c \<Rightarrow> byte list \<Rightarrow> sql_value list \<Rightarrow> ('h, 's, 'c, 'q, unit) db_stm" where
  "conn_execute sq conn sql vs = with_statement sq conn sql (\<lambda>st. execute sq st vs)"

definition conn_execute_named :: "('h, 's, 'c, 'st, 'q, 'z) stmt_api_scheme \<Rightarrow> 'c \<Rightarrow> byte list \<Rightarrow> (byte list \<times> sql_value) list \<Rightarrow> ('h, 's, 'c, 'q, unit) db_stm" where
  "conn_execute_named sq conn sql vs = with_statement sq conn sql (\<lambda>st. execute_named sq st vs)"

definition conn_execute_text_text :: "('h, 's, 'c, 'st, 'q, 'z) stmt_api_scheme \<Rightarrow> 'c \<Rightarrow> byte list \<Rightarrow> byte list \<Rightarrow> byte list \<Rightarrow> 
    ('h, 's, 'c, 'q, unit) db_stm" where
  "conn_execute_text_text sq conn sql first second = with_statement sq conn sql (\<lambda>st. execute_text_text sq st first second)"

text \<open>\<open>sqlite3_changes64\<close> is cast to \<open>u64\<close>.\<close>

definition changes :: "('h, 's, 'c, 'st, 'q, 'z) stmt_api_scheme \<Rightarrow> 'c \<Rightarrow> ('h, 's, 'c, 'q, nat) db_stm" where
  "changes sq conn = sqlite_get (\<lambda>q. nat (sqlite3_changes64 sq conn q mod 2 ^ 64))"

definition conn_query_one :: "('h, 's, 'c, 'st, 'q, 'z) stmt_api_scheme \<Rightarrow> 'c \<Rightarrow> byte list \<Rightarrow> sql_value list \<Rightarrow> 
    ('st \<Rightarrow> ('h, 's, 'c, 'q, 't) db_stm) \<Rightarrow> ('h, 's, 'c, 'q, 't) db_stm" where
  "conn_query_one sq conn sql vs f = with_statement sq conn sql (\<lambda>st. query_one sq st vs f)"

definition conn_query_one_named :: "('h, 's, 'c, 'st, 'q, 'z) stmt_api_scheme \<Rightarrow> 'c \<Rightarrow> byte list \<Rightarrow> (byte list \<times> sql_value) list \<Rightarrow> 
    ('st \<Rightarrow> ('h, 's, 'c, 'q, 't) db_stm) \<Rightarrow> ('h, 's, 'c, 'q, 't) db_stm" where
  "conn_query_one_named sq conn sql vs f = with_statement sq conn sql (\<lambda>st. query_one_named sq st vs f)"

definition conn_query_optional :: "('h, 's, 'c, 'st, 'q, 'z) stmt_api_scheme \<Rightarrow> 'c \<Rightarrow> byte list \<Rightarrow> sql_value list \<Rightarrow> 
    ('st \<Rightarrow> ('h, 's, 'c, 'q, 't) db_stm) \<Rightarrow> ('h, 's, 'c, 'q, 't option) db_stm" where
  "conn_query_optional sq conn sql vs f = with_statement sq conn sql (\<lambda>st. query_optional sq st vs f)"

definition conn_query_optional_named :: "('h, 's, 'c, 'st, 'q, 'z) stmt_api_scheme \<Rightarrow> 'c \<Rightarrow> byte list \<Rightarrow> (byte list \<times> sql_value) list \<Rightarrow> 
    ('st \<Rightarrow> ('h, 's, 'c, 'q, 't) db_stm) \<Rightarrow> ('h, 's, 'c, 'q, 't option) db_stm" where
  "conn_query_optional_named sq conn sql vs f = with_statement sq conn sql (\<lambda>st. query_optional_named sq st vs f)"

definition conn_query_all :: "('h, 's, 'c, 'st, 'q, 'z) stmt_api_scheme \<Rightarrow> 'c \<Rightarrow> byte list \<Rightarrow> sql_value list \<Rightarrow> 
    ('st \<Rightarrow> ('h, 's, 'c, 'q, 't) db_stm) \<Rightarrow> ('h, 's, 'c, 'q) db_state \<Rightarrow>
    (('t list, db_error) outcome \<times> ('h, 's, 'c, 'q) db_state) option" where
  "conn_query_all sq conn sql vs f = with_statement_loop sq conn sql (\<lambda>st. query_all sq st vs f)"

definition conn_query_all_named :: "('h, 's, 'c, 'st, 'q, 'z) stmt_api_scheme \<Rightarrow> 'c \<Rightarrow> byte list \<Rightarrow> (byte list \<times> sql_value) list \<Rightarrow> 
    ('st \<Rightarrow> ('h, 's, 'c, 'q, 't) db_stm) \<Rightarrow> ('h, 's, 'c, 'q) db_state \<Rightarrow>
    (('t list, db_error) outcome \<times> ('h, 's, 'c, 'q) db_state) option" where
  "conn_query_all_named sq conn sql vs f = with_statement_loop sq conn sql (\<lambda>st. query_all_named sq st vs f)"

text \<open>The helpers that read the first column.\<close>

definition conn_query_scalar :: "('h, 's, 'c, 'st, 'q, 'z) stmt_api_scheme \<Rightarrow> ('st \<Rightarrow> nat \<Rightarrow> ('h, 's, 'c, 'q, 't) db_stm) \<Rightarrow> 'c \<Rightarrow> byte list \<Rightarrow> sql_value list \<Rightarrow> 
    ('h, 's, 'c, 'q, 't) db_stm" where
  "conn_query_scalar sq read conn sql vs = conn_query_one sq conn sql vs (\<lambda>raw. row_get sq read raw 0)"

definition conn_query_scalar_named :: "('h, 's, 'c, 'st, 'q, 'z) stmt_api_scheme \<Rightarrow> ('st \<Rightarrow> nat \<Rightarrow> ('h, 's, 'c, 'q, 't) db_stm) \<Rightarrow> 'c \<Rightarrow> byte list \<Rightarrow> (byte list \<times> sql_value) list \<Rightarrow> 
    ('h, 's, 'c, 'q, 't) db_stm" where
  "conn_query_scalar_named sq read conn sql vs = conn_query_one_named sq conn sql vs (\<lambda>raw. row_get sq read raw 0)"

definition conn_query_optional_scalar :: "('h, 's, 'c, 'st, 'q, 'z) stmt_api_scheme \<Rightarrow> ('st \<Rightarrow> nat \<Rightarrow> ('h, 's, 'c, 'q, 't) db_stm) \<Rightarrow> 'c \<Rightarrow> byte list \<Rightarrow> sql_value list \<Rightarrow> 
    ('h, 's, 'c, 'q, 't option) db_stm" where
  "conn_query_optional_scalar sq read conn sql vs = conn_query_optional sq conn sql vs (\<lambda>raw. row_get sq read raw 0)"

definition conn_query_optional_scalar_named :: "('h, 's, 'c, 'st, 'q, 'z) stmt_api_scheme \<Rightarrow> ('st \<Rightarrow> nat \<Rightarrow> ('h, 's, 'c, 'q, 't) db_stm) \<Rightarrow> 'c \<Rightarrow> byte list \<Rightarrow> (byte list \<times> sql_value) list \<Rightarrow> 
    ('h, 's, 'c, 'q, 't option) db_stm" where
  "conn_query_optional_scalar_named sq read conn sql vs = conn_query_optional_named sq conn sql vs (\<lambda>raw. row_get sq read raw 0)"

definition conn_query_column :: "('h, 's, 'c, 'st, 'q, 'z) stmt_api_scheme \<Rightarrow> ('st \<Rightarrow> nat \<Rightarrow> ('h, 's, 'c, 'q, 't) db_stm) \<Rightarrow> 'c \<Rightarrow> byte list \<Rightarrow> sql_value list \<Rightarrow> ('h, 's, 'c, 'q) db_state \<Rightarrow>
    (('t list, db_error) outcome \<times> ('h, 's, 'c, 'q) db_state) option" where
  "conn_query_column sq read conn sql vs = conn_query_all sq conn sql vs (\<lambda>raw. row_get sq read raw 0)"

definition conn_query_column_named :: "('h, 's, 'c, 'st, 'q, 'z) stmt_api_scheme \<Rightarrow> ('st \<Rightarrow> nat \<Rightarrow> ('h, 's, 'c, 'q, 't) db_stm) \<Rightarrow> 'c \<Rightarrow> byte list \<Rightarrow> (byte list \<times> sql_value) list \<Rightarrow> ('h, 's, 'c, 'q) db_state \<Rightarrow>
    (('t list, db_error) outcome \<times> ('h, 's, 'c, 'q) db_state) option" where
  "conn_query_column_named sq read conn sql vs = conn_query_all_named sq conn sql vs (\<lambda>raw. row_get sq read raw 0)"

definition conn_exists :: "('h, 's, 'c, 'st, 'q, 'z) stmt_api_scheme \<Rightarrow> 'c \<Rightarrow> byte list \<Rightarrow> sql_value list \<Rightarrow> ('h, 's, 'c, 'q, bool) db_stm" where
  "conn_exists sq conn sql vs = tryS (conn_query_optional sq conn sql vs (\<lambda>raw. row_get sq (read_i64 sq) raw 0)) (\<lambda>v.
     retS (case v of Some i \<Rightarrow> i \<noteq> 0 | None \<Rightarrow> False))"

end
