(* ===== verification/Query_Budget.thy ===== *)
theory Query_Budget
  imports Sql_Statement
begin

text \<open>
  Measured queries under a budget (\<open>src/src/db/query.rs\<close>).

  The instruction counter of the Internet Computer is a parameter that may change between any two
  calls; it is \<open>None\<close> on a host.  SQLite calls the progress callback at moments of its own choice; the
  callback sets the cell \<open>exceeded\<close> that the checks read.  \<open>progress_exceeded\<close> tells whether the
  callback installed last on a connection has set it; what the checks themselves record is in the
  environment.  The counters of \<open>read_metrics\<close> belong to an optional feature and are left out.
\<close>

section \<open>The interface\<close>

record ('h, 's, 'c, 'st, 'q) budget_api = "('h, 's, 'c, 'st, 'q) stmt_api" +
  performance_counter :: "('h, 's, 'q, nat option) sqlite_fun"
  sqlite3_limit :: "'c \<Rightarrow> c_int \<Rightarrow> c_int \<Rightarrow> ('h, 's, 'q, c_int) sqlite_fun"
  sqlite3_progress_handler :: "'c \<Rightarrow> c_int \<Rightarrow> (nat option \<times> nat option) option \<Rightarrow> ('h, 's, 'q, unit) sqlite_fun"
  progress_exceeded :: "'c \<Rightarrow> 'q \<Rightarrow> bool"
  sqlite3_stmt_status :: "'st \<Rightarrow> c_int \<Rightarrow> c_int \<Rightarrow> ('h, 's, 'q, c_int) sqlite_fun"
  sqlite3_set_authorizer :: "'c \<Rightarrow> bool \<Rightarrow> ('h, 's, 'q, c_int) sqlite_fun"
  schema_changed :: "'c \<Rightarrow> 'q \<Rightarrow> bool"

datatype budget_kind = Instructions | Rows | ResultBytes

datatype query_error =
    Database db_error
  | BudgetExceeded budget_kind
  | InstructionCounterUnavailable
  | InvalidQueryBudget string
  | SqlTooLong
  | QueryObserverActive
  | QueryNotReadOnly

record query_budget =
  max_instructions :: "nat option"
  max_rows :: nat
  max_result_bytes :: nat
  progress_interval :: nat
  max_sql_bytes :: "nat option"
  max_value_bytes :: "nat option"

definition default_budget :: query_budget where
  "default_budget = \<lparr>max_instructions = None, max_rows = 10000, max_result_bytes = 1048576, progress_interval = 1000,
     max_sql_bytes = Some 1048576, max_value_bytes = Some 1048576\<rparr>"

definition unlimited :: query_budget where
  "unlimited = default_budget\<lparr>max_rows := u64_max, max_result_bytes := u64_max, max_sql_bytes := None, max_value_bytes := None\<rparr>"

record statement_metrics =
  vm_steps :: nat
  full_scan_steps :: nat
  sorts :: nat
  autoindex_rows :: nat
  reprepares :: nat
  runs :: nat
  statement_memory_bytes :: nat

record query_metrics =
  qm_instructions :: "nat option"
  qm_prepare_instructions :: "nat option"
  qm_bind_instructions :: "nat option"
  qm_execute_instructions :: "nat option"
  qm_statement :: statement_metrics
  result_rows :: nat
  result_bytes :: nat

definition no_statement_metrics :: statement_metrics where
  "no_statement_metrics = \<lparr>vm_steps = 0, full_scan_steps = 0, sorts = 0, autoindex_rows = 0, reprepares = 0, runs = 0,
     statement_memory_bytes = 0\<rparr>"

definition query_metrics_default :: query_metrics where
  "query_metrics_default = \<lparr>qm_instructions = None, qm_prepare_instructions = None, qm_bind_instructions = None,
     qm_execute_instructions = None, qm_statement = no_statement_metrics, result_rows = 0, result_bytes = 0\<rparr>"

record 't query_report =
  qr_result :: "('t list, query_error) outcome"
  qr_metrics :: query_metrics

definition query_report_failed :: "query_error \<Rightarrow> 't query_report" where
  "query_report_failed error = \<lparr>qr_result = Err error, qr_metrics = query_metrics_default\<rparr>"

section \<open>The environment of a measured statement\<close>

record ('h, 's, 'c, 'q) budget_env =
  be_start :: "nat option"
  be_limit :: "nat option"
  be_exceeded :: bool
  be_progress :: "'c option"
  be_db :: "('h, 's, 'c, 'q) db_state"

type_synonym ('h, 's, 'c, 'q, 'm, 'a) budget_stm = "(('h, 's, 'c, 'q, 'm) budget_env_scheme, 'a, query_error) stm"

text \<open>A step of the facade; its errors become \<open>QueryError::Database\<close>.\<close>

definition on_db :: "('h, 's, 'c, 'q, 'a) db_stm \<Rightarrow> ('h, 's, 'c, 'q, 'm, 'a) budget_stm" where
  "on_db m e = (case m (be_db e) of
      (Ok x, s) \<Rightarrow> (Ok x, e\<lparr>be_db := s\<rparr>) | (Err err, s) \<Rightarrow> (Err (Database err), e\<lparr>be_db := s\<rparr>)
    | (Panic, s) \<Rightarrow> (Panic, e\<lparr>be_db := s\<rparr>))"

definition instruction_counter :: "('h, 's, 'c, 'st, 'q, 'z) budget_api_scheme \<Rightarrow> ('h, 's, 'c, 'q, nat option) db_stm" where
  "instruction_counter sq = sqlite_call (performance_counter sq)"

text \<open>The instructions since \<open>start\<close>.\<close>

definition delta :: "('h, 's, 'c, 'st, 'q, 'z) budget_api_scheme \<Rightarrow> nat option \<Rightarrow> ('h, 's, 'c, 'q, nat option) db_stm" where
  "delta sq start = tryS (instruction_counter sq) (\<lambda>now.
     retS (case (start, now) of (Some a, Some b) \<Rightarrow> Some (b - a) | _ \<Rightarrow> None))"

definition check_at :: "('h, 's, 'c, 'st, 'q, 'z) budget_api_scheme \<Rightarrow> nat option \<Rightarrow> ('h, 's, 'c, 'q, 'm, unit) budget_stm" where
  "check_at sq current e =
    (let over = (case (be_start e, current, be_limit e) of
         (Some start, Some now, Some limit) \<Rightarrow> limit < now - start | _ \<Rightarrow> False);
       e = (if over then e\<lparr>be_exceeded := True\<rparr> else e);
       called = (case be_progress e of Some conn \<Rightarrow> progress_exceeded sq conn (sqlite_state (be_db e)) | None \<Rightarrow> False) in
     if be_exceeded e \<or> called then (Err (BudgetExceeded Instructions), e) else (Ok (), e))"

definition check :: "('h, 's, 'c, 'st, 'q, 'z) budget_api_scheme \<Rightarrow> ('h, 's, 'c, 'q, 'm, unit) budget_stm" where
  "check sq e = (if be_limit e = None then (Ok (), e)
     else tryS (on_db (instruction_counter sq)) (check_at sq) e)"

definition i32_max :: nat where
  "i32_max = 2147483647"

definition limit_ok :: "nat option \<Rightarrow> bool" where
  "limit_ok limit = (case limit of None \<Rightarrow> True | Some n \<Rightarrow> n \<noteq> 0 \<and> n \<le> i32_max)"

definition validate :: "('h, 's, 'c, 'st, 'q, 'z) budget_api_scheme \<Rightarrow> query_budget \<Rightarrow> ('h, 's, 'c, 'q, query_error option) db_stm" where
  "validate sq budget =
    (if progress_interval budget = 0 \<or> i32_max < progress_interval budget
     then retS (Some (InvalidQueryBudget ''progress_interval must be 1..=i32::MAX''))
     else if \<not> limit_ok (max_sql_bytes budget) \<or> \<not> limit_ok (max_value_bytes budget)
     then retS (Some (InvalidQueryBudget ''SQL/value limits must be 1..=i32::MAX''))
     else if max_instructions budget = None then retS None
     else tryS (instruction_counter sq) (\<lambda>counter.
       retS (if counter = None then Some InstructionCounterUnavailable else None)))"

section \<open>The observer of a connection\<close>

definition SQLITE_LIMIT_LENGTH :: c_int where [sqlite_codes]: "SQLITE_LIMIT_LENGTH = 0"
definition SQLITE_LIMIT_SQL_LENGTH :: c_int where [sqlite_codes]: "SQLITE_LIMIT_SQL_LENGTH = 1"

record observer_guard =
  og_sql_limit :: c_int
  og_value_limit :: c_int
  og_progress_installed :: bool

definition lower_limit :: "('h, 's, 'c, 'st, 'q, 'z) budget_api_scheme \<Rightarrow> 'c \<Rightarrow> c_int \<Rightarrow> c_int \<Rightarrow> nat option \<Rightarrow> ('h, 's, 'c, 'q, unit) db_stm" where
  "lower_limit sq conn what current limit = (case limit of None \<Rightarrow> retS ()
     | Some n \<Rightarrow> tryS (sqlite_call (sqlite3_limit sq conn what (min current (int n)))) (\<lambda>_. retS ()))"

definition install_observer :: "('h, 's, 'c, 'st, 'q, 'z) budget_api_scheme \<Rightarrow> 'c \<Rightarrow> query_budget \<Rightarrow> nat option \<times> nat option \<Rightarrow>
    ('h, 's, 'c, 'q, observer_guard) db_stm" where
  "install_observer sq conn budget state =
     tryS (sqlite_call (sqlite3_limit sq conn SQLITE_LIMIT_SQL_LENGTH (- 1))) (\<lambda>sql_limit.
     tryS (sqlite_call (sqlite3_limit sq conn SQLITE_LIMIT_LENGTH (- 1))) (\<lambda>value_limit.
     tryS (lower_limit sq conn SQLITE_LIMIT_SQL_LENGTH sql_limit (max_sql_bytes budget)) (\<lambda>_.
     tryS (lower_limit sq conn SQLITE_LIMIT_LENGTH value_limit (max_value_bytes budget)) (\<lambda>_.
     tryS (if max_instructions budget = None then retS ()
       else sqlite_call (sqlite3_progress_handler sq conn (int (progress_interval budget)) (Some state))) (\<lambda>_.
     retS \<lparr>og_sql_limit = sql_limit, og_value_limit = value_limit,
       og_progress_installed = (max_instructions budget \<noteq> None)\<rparr>)))))"

definition observer_enter :: "('h, 's, 'c, 'st, 'q, 'z) budget_api_scheme \<Rightarrow> 'c \<Rightarrow> query_budget \<Rightarrow> ('h, 's, 'c, 'q, 'm, observer_guard) budget_stm" where
  "observer_enter sq conn budget e =
    (if query_observer_active (be_db e) conn then (Err QueryObserverActive, e)
     else tryS (on_db (set_query_observer conn True)) (\<lambda>_.
       tryS (on_db (install_observer sq conn budget (be_start e, be_limit e))) (\<lambda>guard.
       tryS (modifyS (\<lambda>e. if og_progress_installed guard then e\<lparr>be_progress := Some conn\<rparr> else e)) (\<lambda>_. retS guard))) e)"

definition observer_drop :: "('h, 's, 'c, 'st, 'q, 'z) budget_api_scheme \<Rightarrow> 'c \<Rightarrow> observer_guard \<Rightarrow> ('h, 's, 'c, 'q, unit) db_stm" where
  "observer_drop sq conn guard =
     tryS (if og_progress_installed guard then sqlite_call (sqlite3_progress_handler sq conn 0 None) else retS ()) (\<lambda>_.
     tryS (sqlite_call (sqlite3_limit sq conn SQLITE_LIMIT_SQL_LENGTH (og_sql_limit guard))) (\<lambda>_.
     tryS (sqlite_call (sqlite3_limit sq conn SQLITE_LIMIT_LENGTH (og_value_limit guard))) (\<lambda>_.
     set_query_observer conn False)))"

text \<open>A value that is dropped when the computation using it ends, however it ends.\<close>

definition dropping :: "('h, 's, 'c, 'q, unit) db_stm \<Rightarrow> (('h, 's, 'c, 'q, 'm) budget_env_scheme, 'a, 'e) stm \<Rightarrow>
    (('h, 's, 'c, 'q, 'm) budget_env_scheme, 'a, 'e) stm" where
  "dropping d m e = (let (r, e') = m e in (r, e'\<lparr>be_db := ignoring d (be_db e')\<rparr>))"

section \<open>Statements\<close>

fun bind_checked :: "('h, 's, 'c, 'st, 'q, 'z) budget_api_scheme \<Rightarrow> ('c, 'st) statement \<Rightarrow> nat \<Rightarrow> sql_value list \<Rightarrow>
    ('h, 's, 'c, 'q, 'm, unit) budget_stm" where
  "bind_checked sq st index [] = retS ()"
| "bind_checked sq st index (v # vs) = tryS (check sq) (\<lambda>_.
     tryS (ok_orS (Database TooManyParameters) (c_int_try_from (index + 1))) (\<lambda>param. catchS (on_db (bind_to sq v (st_raw st) param))
       (\<lambda>error. tryS (check sq) (\<lambda>_. errS error))
       (\<lambda>_. tryS (check sq) (\<lambda>_. bind_checked sq st (index + 1) vs))))"

definition query_with_bind_check :: "('h, 's, 'c, 'st, 'q, 'z) budget_api_scheme \<Rightarrow> ('c, 'st) statement \<Rightarrow> sql_value list \<Rightarrow>
    ('h, 's, 'c, 'q, 'm, ('c, 'st) rows) budget_stm" where
  "query_with_bind_check sq st vs = tryS (on_db (reset sq st)) (\<lambda>_.
     if length vs \<noteq> st_parameter_count st
     then errS (Database (ParameterCountMismatch (st_parameter_count st) (length vs)))
     else tryS (bind_checked sq st 0 vs) (\<lambda>_. retS (rows_new st False)))"

definition SQLITE_STMTSTATUS_FULLSCAN_STEP :: c_int where [sqlite_codes]: "SQLITE_STMTSTATUS_FULLSCAN_STEP = 1"
definition SQLITE_STMTSTATUS_SORT :: c_int where [sqlite_codes]: "SQLITE_STMTSTATUS_SORT = 2"
definition SQLITE_STMTSTATUS_AUTOINDEX :: c_int where [sqlite_codes]: "SQLITE_STMTSTATUS_AUTOINDEX = 3"
definition SQLITE_STMTSTATUS_VM_STEP :: c_int where [sqlite_codes]: "SQLITE_STMTSTATUS_VM_STEP = 4"
definition SQLITE_STMTSTATUS_REPREPARE :: c_int where [sqlite_codes]: "SQLITE_STMTSTATUS_REPREPARE = 5"
definition SQLITE_STMTSTATUS_RUN :: c_int where [sqlite_codes]: "SQLITE_STMTSTATUS_RUN = 6"
definition SQLITE_STMTSTATUS_MEMUSED :: c_int where [sqlite_codes]: "SQLITE_STMTSTATUS_MEMUSED = 99"

definition status_counter :: "('h, 's, 'c, 'st, 'q, 'z) budget_api_scheme \<Rightarrow> 'st \<Rightarrow> bool \<Rightarrow> c_int \<Rightarrow> ('h, 's, 'c, 'q, nat) db_stm" where
  "status_counter sq raw reset_counters which =
     tryS (sqlite_call (sqlite3_stmt_status sq raw which (if reset_counters then 1 else 0))) (\<lambda>n. retS (nat (n mod 2 ^ 32)))"

definition metrics_read :: "('h, 's, 'c, 'st, 'q, 'z) budget_api_scheme \<Rightarrow> 'st \<Rightarrow> bool \<Rightarrow> ('h, 's, 'c, 'q, statement_metrics) db_stm" where
  "metrics_read sq raw reset_counters = (let counter = status_counter sq raw reset_counters in
     tryS (counter SQLITE_STMTSTATUS_VM_STEP) (\<lambda>a. tryS (counter SQLITE_STMTSTATUS_FULLSCAN_STEP) (\<lambda>b.
     tryS (counter SQLITE_STMTSTATUS_SORT) (\<lambda>c. tryS (counter SQLITE_STMTSTATUS_AUTOINDEX) (\<lambda>d.
     tryS (counter SQLITE_STMTSTATUS_REPREPARE) (\<lambda>e. tryS (counter SQLITE_STMTSTATUS_RUN) (\<lambda>f.
     tryS (counter SQLITE_STMTSTATUS_MEMUSED) (\<lambda>g. retS \<lparr>vm_steps = a, full_scan_steps = b, sorts = c, autoindex_rows = d,
       reprepares = e, runs = f, statement_memory_bytes = g\<rparr>))))))))"

section \<open>A measured query\<close>

text \<open>The loop over the rows; \<open>n\<close> and \<open>bytes\<close> are the metrics of the rows admitted to the mapper.  It
  returns the rows object and the metrics beside the result.\<close>

function scan_rows :: "('h, 's, 'c, 'st, 'q, 'z) budget_api_scheme \<Rightarrow> query_budget \<Rightarrow> ('st \<Rightarrow> ('h, 's, 'c, 'q, 't) db_stm) \<Rightarrow>
    ('c, 'st) rows \<Rightarrow> 't list \<Rightarrow> nat \<Rightarrow> nat \<Rightarrow> ('h, 's, 'c, 'q, 'm) budget_env_scheme \<Rightarrow>
    ('t list, query_error) outcome \<times> ('c, 'st) rows \<times> nat \<times> nat \<times> ('h, 's, 'c, 'q, 'm) budget_env_scheme" where
  "scan_rows sq budget f rows out n bytes e =
    (case check sq e of
      (Err err, e) \<Rightarrow> (Err err, rows, n, bytes, e) | (Panic, e) \<Rightarrow> (Panic, rows, n, bytes, e)
    | (Ok _, e) \<Rightarrow>
        (let (stepped, (rows, s)) = next_row sq (rows, be_db e) in
         if stepped = Panic then (Panic, rows, n, bytes, e\<lparr>be_db := s\<rparr>) else
         case check sq (e\<lparr>be_db := s\<rparr>) of
           (Err err, e) \<Rightarrow> (Err err, rows, n, bytes, e) | (Panic, e) \<Rightarrow> (Panic, rows, n, bytes, e)
         | (Ok _, e) \<Rightarrow>
             (case stepped of Err err \<Rightarrow> (Err (Database err), rows, n, bytes, e) | Panic \<Rightarrow> (Panic, rows, n, bytes, e)
              | Ok None \<Rightarrow> (Ok out, rows, n, bytes, e)
              | Ok (Some raw) \<Rightarrow>
                  if max_rows budget \<le> n then (Err (BudgetExceeded Rows), rows, n, bytes, e)
                  else let more = payload_bytes sq raw (sqlite_state (be_db e)) in
                    if max_result_bytes budget - bytes < more then (Err (BudgetExceeded ResultBytes), rows, n, bytes, e)
                    else let (mapped, s) = f raw (be_db e) in
                      if mapped = Panic then (Panic, rows, n + 1, bytes + more, e\<lparr>be_db := s\<rparr>) else
                      (case check sq (e\<lparr>be_db := s\<rparr>) of
                        (Err err, e) \<Rightarrow> (Err err, rows, n + 1, bytes + more, e) | (Panic, e) \<Rightarrow> (Panic, rows, n + 1, bytes + more, e)
                      | (Ok _, e) \<Rightarrow>
                          (case mapped of Err err \<Rightarrow> (Err (Database err), rows, n + 1, bytes + more, e)
                           | Panic \<Rightarrow> (Panic, rows, n + 1, bytes + more, e)
                           | Ok v \<Rightarrow> scan_rows sq budget f rows (out @ [v]) (n + 1) (bytes + more) e)))))"
  by pat_completeness auto
termination
  by (relation "measure (\<lambda>(sq, budget, f, rows, out, n, bytes, e). max_rows budget - n)") auto

declare scan_rows.simps [simp del]

record ('h, 's, 'c, 'q) query_env = "('h, 's, 'c, 'q) budget_env" +
  be_metrics :: query_metrics

type_synonym ('h, 's, 'c, 'q, 'a) query_stm = "(('h, 's, 'c, 'q) query_env, 'a, query_error) stm"

definition metric :: "(query_metrics \<Rightarrow> query_metrics) \<Rightarrow> ('h, 's, 'c, 'q, unit) query_stm" where
  "metric f = modifyS (\<lambda>e. e\<lparr>be_metrics := f (be_metrics e)\<rparr>)"

text \<open>Going on with a result that was kept while something else was done.\<close>

definition resume :: "('a, 'e) outcome \<Rightarrow> ('w, 'a, 'e) stm" where
  "resume r w = (r, w)"

definition bind_statement :: "('h, 's, 'c, 'st, 'q, 'z) budget_api_scheme \<Rightarrow> query_budget \<Rightarrow> sql_value list \<Rightarrow> ('c, 'st) statement \<Rightarrow>
    ('h, 's, 'c, 'q, 'm, ('c, 'st) rows) budget_stm" where
  "bind_statement sq budget vs st = (if max_instructions budget \<noteq> None then query_with_bind_check sq st vs else on_db (query sq st vs))"

definition scan_measured :: "('h, 's, 'c, 'st, 'q, 'z) budget_api_scheme \<Rightarrow> query_budget \<Rightarrow> ('st \<Rightarrow> ('h, 's, 'c, 'q, 't) db_stm) \<Rightarrow>
    ('c, 'st) rows \<Rightarrow> ('h, 's, 'c, 'q, 't list) query_stm" where
  "scan_measured sq budget f rows = tryS (on_db (instruction_counter sq)) (\<lambda>execute_start e.
     let (r, rows, n, bytes, e) = scan_rows sq budget f rows [] 0 0 e in
     tryS (metric (\<lambda>m. m\<lparr>result_rows := n, result_bytes := bytes\<rparr>)) (\<lambda>_.
     tryS (on_db (delta sq execute_start)) (\<lambda>d. tryS (metric (\<lambda>m. m\<lparr>qm_execute_instructions := d\<rparr>)) (\<lambda>_.
     dropping (\<lambda>s. (Ok (), drop_rows sq (rows, s))) (resume r)))) e)"

definition query_statement :: "('h, 's, 'c, 'st, 'q, 'z) budget_api_scheme \<Rightarrow> query_budget \<Rightarrow> sql_value list \<Rightarrow>
    ('st \<Rightarrow> ('h, 's, 'c, 'q, 't) db_stm) \<Rightarrow> ('c, 'st) statement \<Rightarrow> ('h, 's, 'c, 'q, 't list) query_stm" where
  "query_statement sq budget vs f st = tryS (on_db (instruction_counter sq)) (\<lambda>bind_start e.
     let (bound, e) = bind_statement sq budget vs st e in
     tryS (on_db (delta sq bind_start)) (\<lambda>d. tryS (metric (\<lambda>m. m\<lparr>qm_bind_instructions := d\<rparr>)) (\<lambda>_.
     tryS (check sq) (\<lambda>_. tryS (resume bound) (scan_measured sq budget f)))) e)"

definition too_long :: "nat option \<Rightarrow> byte list \<Rightarrow> bool" where
  "too_long limit sql = (case limit of Some n \<Rightarrow> n < length sql | None \<Rightarrow> False)"

definition query_prepared :: "('h, 's, 'c, 'st, 'q, 'z) budget_api_scheme \<Rightarrow> query_budget \<Rightarrow> sql_value list \<Rightarrow>
    ('st \<Rightarrow> ('h, 's, 'c, 'q, 't) db_stm) \<Rightarrow> ('c, 'st) statement \<Rightarrow> ('h, 's, 'c, 'q, 't list) query_stm" where
  "query_prepared sq budget vs f st = tryS (check sq) (\<lambda>_. tryS (on_db (is_read_only sq st)) (\<lambda>read_only.
     if \<not> read_only then errS QueryNotReadOnly
     else (\<lambda>e. let (r, e) = query_statement sq budget vs f st e in
       tryS (on_db (metrics_read sq (st_raw st) False)) (\<lambda>m. tryS (metric (\<lambda>qm. qm\<lparr>qm_statement := m\<rparr>)) (\<lambda>_. resume r)) e)))"

definition query_body :: "('h, 's, 'c, 'st, 'q, 'z) budget_api_scheme \<Rightarrow> query_budget \<Rightarrow> byte list \<Rightarrow> sql_value list \<Rightarrow>
    ('st \<Rightarrow> ('h, 's, 'c, 'q, 't) db_stm) \<Rightarrow> 'c \<Rightarrow> ('h, 's, 'c, 'q, 't list) query_stm" where
  "query_body sq budget sql vs f conn = tryS (check sq) (\<lambda>_. tryS (observer_enter sq conn budget) (\<lambda>guard.
     dropping (observer_drop sq conn guard) (
     if too_long (max_sql_bytes budget) sql then errS SqlTooLong
     else tryS (on_db (instruction_counter sq)) (\<lambda>prepare_start e.
       let (prepared, e) = on_db (prepare_statement sq conn sql) e in
       tryS (on_db (delta sq prepare_start)) (\<lambda>d. tryS (metric (\<lambda>m. m\<lparr>qm_prepare_instructions := d\<rparr>)) (\<lambda>_.
       case prepared of
         Ok st \<Rightarrow> dropping (drop_statement sq st) (query_prepared sq budget vs f st)
       | Err error \<Rightarrow> tryS (check sq) (\<lambda>_. errS error)
       | Panic \<Rightarrow> panicS)) e))))"

definition query_env_new :: "nat option \<Rightarrow> query_budget \<Rightarrow> ('h, 's, 'c, 'q) db_state \<Rightarrow> ('h, 's, 'c, 'q) query_env" where
  "query_env_new start budget s = \<lparr>be_start = start, be_limit = max_instructions budget, be_exceeded = False,
     be_progress = None, be_db = s, be_metrics = query_metrics_default\<rparr>"

text \<open>The end of a run: the total and the last check, which covers the clean-up.\<close>

definition query_finish :: "('h, 's, 'c, 'st, 'q, 'z) budget_api_scheme \<Rightarrow> nat option \<Rightarrow> ('t list, query_error) outcome \<Rightarrow>
    ('h, 's, 'c, 'q) query_env \<Rightarrow> 't query_report \<times> ('h, 's, 'c, 'q) db_state" where
  "query_finish sq start r e = (case tryS (on_db (delta sq start)) (\<lambda>d. tryS (metric (\<lambda>m. m\<lparr>qm_instructions := d\<rparr>)) (\<lambda>_.
       tryS (check sq) (\<lambda>_. resume r))) e of
     (r', e') \<Rightarrow> (\<lparr>qr_result = r', qr_metrics = be_metrics e'\<rparr>, be_db e'))"

definition query_run :: "('h, 's, 'c, 'q) sqlite_api \<Rightarrow> ('h, 's, 'c, 'st, 'q, 'z) budget_api_scheme \<Rightarrow> context_id \<Rightarrow> byte list \<Rightarrow>
    sql_value list \<Rightarrow> query_budget \<Rightarrow> ('st \<Rightarrow> ('h, 's, 'c, 'q, 't) db_stm) \<Rightarrow> ('h, 's, 'c, 'q) db_state \<Rightarrow>
    't query_report \<times> ('h, 's, 'c, 'q) db_state" where
  "query_run api sq context sql vs budget f s = (case validate sq budget s of
      (Ok (Some error), s) \<Rightarrow> (query_report_failed error, s)
    | (_, s) \<Rightarrow> (case instruction_counter sq s of
        (Ok start, s) \<Rightarrow>
          (case db_query api context (\<lambda>conn s.
             let (r, e) = query_body sq budget sql vs f conn (query_env_new start budget s) in (Ok (r, e), be_db e)) s of
             (Ok (r, e), s) \<Rightarrow>
               if r = Panic then (\<lparr>qr_result = Panic, qr_metrics = be_metrics e\<rparr>, s)
               else query_finish sq start r (e\<lparr>be_db := s\<rparr>)
           | (Err error, s) \<Rightarrow> query_finish sq start (Err (Database error)) (query_env_new start budget s)
           | (Panic, s) \<Rightarrow> (\<lparr>qr_result = Panic, qr_metrics = query_metrics_default\<rparr>, s))
      | (_, s) \<Rightarrow> (\<lparr>qr_result = Panic, qr_metrics = query_metrics_default\<rparr>, s)))"

definition query_profiled :: "('h, 's, 'c, 'q) sqlite_api \<Rightarrow> ('h, 's, 'c, 'st, 'q, 'z) budget_api_scheme \<Rightarrow> context_id \<Rightarrow> byte list \<Rightarrow>
    sql_value list \<Rightarrow> ('st \<Rightarrow> ('h, 's, 'c, 'q, 't) db_stm) \<Rightarrow> ('h, 's, 'c, 'q) db_state \<Rightarrow>
    't query_report \<times> ('h, 's, 'c, 'q) db_state" where
  "query_profiled api sq context sql vs = query_run api sq context sql vs unlimited"

definition default_query_with_budget :: "('h, 's, 'c, 'q) sqlite_api \<Rightarrow> ('h, 's, 'c, 'st, 'q, 'z) budget_api_scheme \<Rightarrow> byte list \<Rightarrow>
    sql_value list \<Rightarrow> query_budget \<Rightarrow> ('st \<Rightarrow> ('h, 's, 'c, 'q, 't) db_stm) \<Rightarrow> ('h, 's, 'c, 'q) db_state \<Rightarrow>
    't query_report \<times> ('h, 's, 'c, 'q) db_state" where
  "default_query_with_budget api sq sql vs budget f s = (case default_handle s of
      (Ok context, s) \<Rightarrow> query_run api sq context sql vs budget f s
    | (Err error, s) \<Rightarrow> (query_report_failed (Database error), s)
    | (Panic, s) \<Rightarrow> (\<lparr>qr_result = Panic, qr_metrics = query_metrics_default\<rparr>, s))"

end
