(* ===== verification/Update_Budget.thy ===== *)
theory Update_Budget
  imports Query_Budget
begin

text \<open>
  One SQL write under a budget, in a transaction of its own (\<open>src/src/db/update.rs\<close>).

  The authorizer is the pure function \<open>authorize\<close>; SQLite calls it while it compiles a statement, and
  \<open>schema_changed\<close> tells whether the cell of the authorizer installed last was set.  The loop that
  drains the rows of a statement ends when SQLite reports the end of the rows; a loop that does not end
  is stopped by the platform, which discards the message, so it counts as a panic.
\<close>

section \<open>Budgets and reports\<close>

datatype update_budget_kind = UpdateInstructions | DirtyPages | ChangedBytes

datatype update_error =
    UpdateDatabase db_error
  | UpdateBudgetExceeded update_budget_kind
  | InvalidBudget string
  | UpdateCounterUnavailable
  | UnsupportedStatement
  | UpdateQuery query_error

record update_budget =
  ub_max_instructions :: "nat option"
  commit_reserve_instructions :: nat
  max_dirty_pages :: nat
  max_changed_bytes :: nat
  ub_progress_interval :: nat
  ub_max_sql_bytes :: "nat option"
  ub_max_value_bytes :: "nat option"

definition default_update_budget :: update_budget where
  "default_update_budget = \<lparr>ub_max_instructions = None, commit_reserve_instructions = 10000000, max_dirty_pages = 64,
     max_changed_bytes = 1048576, ub_progress_interval = 1000, ub_max_sql_bytes = Some 1048576, ub_max_value_bytes = Some 1048576\<rparr>"

record update_metrics =
  um_instructions :: "nat option"
  um_prepare_instructions :: "nat option"
  um_bind_instructions :: "nat option"
  um_execute_instructions :: "nat option"
  um_commit_instructions :: "nat option"
  um_statement :: statement_metrics
  peak_dirty_pages :: nat
  overlay_peak_bytes :: nat
  committed_bytes :: nat
  committed_over_soft_limit :: bool

definition update_metrics_default :: update_metrics where
  "update_metrics_default = \<lparr>um_instructions = None, um_prepare_instructions = None, um_bind_instructions = None,
     um_execute_instructions = None, um_commit_instructions = None, um_statement = no_statement_metrics, peak_dirty_pages = 0,
     overlay_peak_bytes = 0, committed_bytes = 0, committed_over_soft_limit = False\<rparr>"

record update_report =
  ur_result :: "(nat, update_error) outcome"
  ur_metrics :: update_metrics

definition update_report_failed :: "update_error \<Rightarrow> update_report" where
  "update_report_failed error = \<lparr>ur_result = Err error, ur_metrics = update_metrics_default\<rparr>"

fun classify :: "query_error \<Rightarrow> update_error" where
  "classify (BudgetExceeded kind) = UpdateBudgetExceeded UpdateInstructions"
| "classify InstructionCounterUnavailable = UpdateCounterUnavailable"
| "classify (InvalidQueryBudget reason) = InvalidBudget reason"
| "classify (Database error) = UpdateDatabase error"
| "classify SqlTooLong = UpdateQuery SqlTooLong"
| "classify QueryObserverActive = UpdateQuery QueryObserverActive"
| "classify QueryNotReadOnly = UpdateQuery QueryNotReadOnly"

section \<open>The authorizer\<close>

definition SQLITE_CREATE_INDEX :: c_int where [sqlite_codes]: "SQLITE_CREATE_INDEX = 1"
definition SQLITE_CREATE_TABLE :: c_int where [sqlite_codes]: "SQLITE_CREATE_TABLE = 2"
definition SQLITE_CREATE_TEMP_INDEX :: c_int where [sqlite_codes]: "SQLITE_CREATE_TEMP_INDEX = 3"
definition SQLITE_CREATE_TEMP_TABLE :: c_int where [sqlite_codes]: "SQLITE_CREATE_TEMP_TABLE = 4"
definition SQLITE_CREATE_TEMP_TRIGGER :: c_int where [sqlite_codes]: "SQLITE_CREATE_TEMP_TRIGGER = 5"
definition SQLITE_CREATE_TEMP_VIEW :: c_int where [sqlite_codes]: "SQLITE_CREATE_TEMP_VIEW = 6"
definition SQLITE_CREATE_TRIGGER :: c_int where [sqlite_codes]: "SQLITE_CREATE_TRIGGER = 7"
definition SQLITE_CREATE_VIEW :: c_int where [sqlite_codes]: "SQLITE_CREATE_VIEW = 8"
definition SQLITE_DROP_INDEX :: c_int where [sqlite_codes]: "SQLITE_DROP_INDEX = 10"
definition SQLITE_DROP_TABLE :: c_int where [sqlite_codes]: "SQLITE_DROP_TABLE = 11"
definition SQLITE_DROP_TEMP_INDEX :: c_int where [sqlite_codes]: "SQLITE_DROP_TEMP_INDEX = 12"
definition SQLITE_DROP_TEMP_TABLE :: c_int where [sqlite_codes]: "SQLITE_DROP_TEMP_TABLE = 13"
definition SQLITE_DROP_TEMP_TRIGGER :: c_int where [sqlite_codes]: "SQLITE_DROP_TEMP_TRIGGER = 14"
definition SQLITE_DROP_TEMP_VIEW :: c_int where [sqlite_codes]: "SQLITE_DROP_TEMP_VIEW = 15"
definition SQLITE_DROP_TRIGGER :: c_int where [sqlite_codes]: "SQLITE_DROP_TRIGGER = 16"
definition SQLITE_DROP_VIEW :: c_int where [sqlite_codes]: "SQLITE_DROP_VIEW = 17"
definition SQLITE_PRAGMA :: c_int where [sqlite_codes]: "SQLITE_PRAGMA = 19"
definition SQLITE_TRANSACTION :: c_int where [sqlite_codes]: "SQLITE_TRANSACTION = 22"
definition SQLITE_ATTACH :: c_int where [sqlite_codes]: "SQLITE_ATTACH = 24"
definition SQLITE_DETACH :: c_int where [sqlite_codes]: "SQLITE_DETACH = 25"
definition SQLITE_ALTER_TABLE :: c_int where [sqlite_codes]: "SQLITE_ALTER_TABLE = 26"
definition SQLITE_REINDEX :: c_int where [sqlite_codes]: "SQLITE_REINDEX = 27"
definition SQLITE_ANALYZE :: c_int where [sqlite_codes]: "SQLITE_ANALYZE = 28"
definition SQLITE_CREATE_VTABLE :: c_int where [sqlite_codes]: "SQLITE_CREATE_VTABLE = 29"
definition SQLITE_DROP_VTABLE :: c_int where [sqlite_codes]: "SQLITE_DROP_VTABLE = 30"
definition SQLITE_SAVEPOINT :: c_int where [sqlite_codes]: "SQLITE_SAVEPOINT = 32"
definition SQLITE_DENY :: c_int where [sqlite_codes]: "SQLITE_DENY = 1"

definition schema_actions :: "c_int list" where
  "schema_actions = [SQLITE_CREATE_INDEX, SQLITE_CREATE_TABLE, SQLITE_CREATE_TRIGGER, SQLITE_CREATE_VIEW, SQLITE_CREATE_VTABLE,
     SQLITE_DROP_INDEX, SQLITE_DROP_TABLE, SQLITE_DROP_TRIGGER, SQLITE_DROP_VIEW, SQLITE_DROP_VTABLE, SQLITE_ALTER_TABLE,
     SQLITE_REINDEX, SQLITE_ANALYZE]"

definition denied_actions :: "c_int list" where
  "denied_actions = [SQLITE_TRANSACTION, SQLITE_SAVEPOINT, SQLITE_PRAGMA, SQLITE_ATTACH, SQLITE_DETACH, SQLITE_CREATE_TEMP_TABLE,
     SQLITE_CREATE_TEMP_INDEX, SQLITE_CREATE_TEMP_TRIGGER, SQLITE_CREATE_TEMP_VIEW, SQLITE_DROP_TEMP_TABLE, SQLITE_DROP_TEMP_INDEX,
     SQLITE_DROP_TEMP_TRIGGER, SQLITE_DROP_TEMP_VIEW]"

text \<open>The cell of the authorizer before and after, and the answer.\<close>

definition authorize :: "bool \<Rightarrow> c_int \<Rightarrow> byte list option \<Rightarrow> byte list option \<Rightarrow> byte list option \<Rightarrow> bool \<times> c_int" where
  "authorize schema_change action first second database =
    (let schema_change = (schema_change \<or> action \<in> set schema_actions); temporary = (database = Some (ascii ''temp'')) in
     if action = SQLITE_PRAGMA \<and> \<not> temporary \<and> second = None \<and> first = Some (ascii ''data_version'')
     then (schema_change, SQLITE_OK)
     else (schema_change, if temporary \<or> action \<in> set denied_actions then SQLITE_DENY else SQLITE_OK))"

definition authorizer_enter :: "('h, 's, 'c, 'st, 'q, 'z) budget_api_scheme \<Rightarrow> 'c \<Rightarrow> ('h, 's, 'c, 'q, unit) db_stm" where
  "authorizer_enter sq conn = tryS (sqlite_call (sqlite3_set_authorizer sq conn True)) (\<lambda>rc.
     if rc \<noteq> SQLITE_OK then stmt_error sq conn rc else retS ())"

definition authorizer_drop :: "('h, 's, 'c, 'st, 'q, 'z) budget_api_scheme \<Rightarrow> 'c \<Rightarrow> ('h, 's, 'c, 'q, unit) db_stm" where
  "authorizer_drop sq conn = tryS (sqlite_call (sqlite3_set_authorizer sq conn False)) (\<lambda>_. retS ())"

section \<open>Running the statement\<close>

record ('h, 's, 'c, 'q) update_env = "('h, 's, 'c, 'q) budget_env" +
  ue_metrics :: update_metrics
  ue_published :: bool

type_synonym ('h, 's, 'c, 'q, 'a) update_stm = "(('h, 's, 'c, 'q) update_env, 'a, update_error) stm"

text \<open>\<open>map_err(classify)\<close>; for errors of the database it is the conversion of \<open>?\<close>.\<close>

definition classified :: "('w, 'a, query_error) stm \<Rightarrow> ('w, 'a, update_error) stm" where
  "classified m w = (case m w of (Ok x, w) \<Rightarrow> (Ok x, w) | (Err e, w) \<Rightarrow> (Err (classify e), w) | (Panic, w) \<Rightarrow> (Panic, w))"

definition umetric :: "(update_metrics \<Rightarrow> update_metrics) \<Rightarrow> ('h, 's, 'c, 'q, unit) update_stm" where
  "umetric f = modifyS (\<lambda>e. e\<lparr>ue_metrics := f (ue_metrics e)\<rparr>)"

definition ucheck :: "('h, 's, 'c, 'st, 'q, 'z) budget_api_scheme \<Rightarrow> (('h, 's, 'c, 'q, 'm) budget_env_scheme, unit, update_error) stm" where
  "ucheck sq = classified (check sq)"

definition udb :: "('h, 's, 'c, 'q, 'a) db_stm \<Rightarrow> (('h, 's, 'c, 'q, 'm) budget_env_scheme, 'a, update_error) stm" where
  "udb m = classified (on_db m)"

partial_function (option) drain_rows :: "('h, 's, 'c, 'st, 'q, 'z) budget_api_scheme \<Rightarrow> ('c, 'st) rows \<Rightarrow>
    ('h, 's, 'c, 'q, 'm) budget_env_scheme \<Rightarrow>
    ((unit, update_error) outcome \<times> ('c, 'st) rows \<times> ('h, 's, 'c, 'q, 'm) budget_env_scheme) option" where
  "drain_rows sq rows e = (case ucheck sq e of
      (Err err, e) \<Rightarrow> Some (Err err, rows, e) | (Panic, e) \<Rightarrow> Some (Panic, rows, e)
    | (Ok _, e) \<Rightarrow> (case next_row sq (rows, be_db e) of (row, (rows, s)) \<Rightarrow>
        (case ucheck sq (e\<lparr>be_db := s\<rparr>) of
          (Err err, e) \<Rightarrow> Some (Err err, rows, e) | (Panic, e) \<Rightarrow> Some (Panic, rows, e)
        | (Ok _, e) \<Rightarrow> (case row of
            Err err \<Rightarrow> Some (Err (UpdateDatabase err), rows, e) | Panic \<Rightarrow> Some (Panic, rows, e)
          | Ok v \<Rightarrow> (case v of None \<Rightarrow> Some (Ok (), rows, e) | Some _ \<Rightarrow> drain_rows sq rows e)))))"

definition drain_measured :: "('h, 's, 'c, 'st, 'q, 'z) budget_api_scheme \<Rightarrow> ('c, 'st) rows \<Rightarrow> ('h, 's, 'c, 'q, unit) update_stm" where
  "drain_measured sq rows = tryS (udb (instruction_counter sq)) (\<lambda>before e.
     case drain_rows sq rows e of None \<Rightarrow> (Panic, e)
     | Some (r, rows, e) \<Rightarrow>
         tryS (udb (delta sq before)) (\<lambda>d. tryS (umetric (\<lambda>m. m\<lparr>um_execute_instructions := d\<rparr>)) (\<lambda>_.
         dropping (\<lambda>s. (Ok (), drop_rows sq (rows, s))) (resume r))) e)"

definition update_execution :: "('h, 's, 'c, 'st, 'q, 'z) budget_api_scheme \<Rightarrow> query_budget \<Rightarrow> sql_value list \<Rightarrow> ('c, 'st) statement \<Rightarrow>
    ('h, 's, 'c, 'q, unit) update_stm" where
  "update_execution sq budget vs st = tryS (udb (instruction_counter sq)) (\<lambda>before e.
     let (bound, e) = classified (bind_statement sq budget vs st) e in
     tryS (udb (delta sq before)) (\<lambda>d. tryS (umetric (\<lambda>m. m\<lparr>um_bind_instructions := d\<rparr>)) (\<lambda>_.
     tryS (ucheck sq) (\<lambda>_. tryS (resume bound) (drain_measured sq)))) e)"

definition update_prepared :: "('h, 's, 'c, 'st, 'q, 'z) budget_api_scheme \<Rightarrow> query_budget \<Rightarrow> sql_value list \<Rightarrow> ('c, 'st) statement \<Rightarrow>
    ('h, 's, 'c, 'q, unit) update_stm" where
  "update_prepared sq budget vs st = tryS (ucheck sq) (\<lambda>_. tryS (udb (is_read_only sq st)) (\<lambda>read_only.
     if read_only then errS UnsupportedStatement
     else (\<lambda>e. let (r, e) = update_execution sq budget vs st e in
       tryS (udb (metrics_read sq (st_raw st) False)) (\<lambda>m. tryS (umetric (\<lambda>um. um\<lparr>um_statement := m\<rparr>)) (\<lambda>_. resume r)) e)))"

text \<open>The part under the authorizer: the statement is prepared, run and dropped; then the number of
  changed rows.\<close>

definition update_statement :: "('h, 's, 'c, 'st, 'q, 'z) budget_api_scheme \<Rightarrow> query_budget \<Rightarrow> byte list \<Rightarrow> sql_value list \<Rightarrow> 'c \<Rightarrow>
    ('h, 's, 'c, 'q, nat) update_stm" where
  "update_statement sq budget sql vs conn = tryS (udb (authorizer_enter sq conn)) (\<lambda>_. dropping (authorizer_drop sq conn) (
     if too_long (max_sql_bytes budget) sql then errS (UpdateQuery SqlTooLong)
     else tryS (udb (instruction_counter sq)) (\<lambda>before e.
       let (prepared, e) = udb (prepare_statement sq conn sql) e in
       tryS (udb (delta sq before)) (\<lambda>d. tryS (umetric (\<lambda>m. m\<lparr>um_prepare_instructions := d\<rparr>)) (\<lambda>_.
       case prepared of
         Ok st \<Rightarrow> tryS (dropping (drop_statement sq st) (update_prepared sq budget vs st)) (\<lambda>_.
           tryS (udb (sqlite_get (schema_changed sq conn))) (\<lambda>schema_change.
           if schema_change then retS 0 else udb (changes sq conn)))
       | Err error \<Rightarrow> tryS (ucheck sq) (\<lambda>_. errS error)
       | Panic \<Rightarrow> panicS)) e)))"

section \<open>The transaction\<close>

definition write_stats_of :: "('h, 's, 'c, 'q, write_stats) update_stm" where
  "write_stats_of = getS (\<lambda>e. overlay_write_stats (db_vfs (be_db e)))"

definition refused :: "bool \<Rightarrow> update_error" where
  "refused bytes = UpdateBudgetExceeded (if bytes then ChangedBytes else DirtyPages)"

text \<open>Under the observer: the statement, the \<open>COMMIT\<close> of SQLite and the last look at the budget.\<close>

definition update_observed :: "('h, 's, 'c, 'q) sqlite_api \<Rightarrow> ('h, 's, 'c, 'st, 'q, 'z) budget_api_scheme \<Rightarrow> query_budget \<Rightarrow> byte list \<Rightarrow>
    sql_value list \<Rightarrow> 'c \<Rightarrow> ('h, 's, 'c, 'q, nat \<times> nat option \<times> write_stats) update_stm" where
  "update_observed api sq budget sql vs conn = tryS (update_statement sq budget sql vs conn) (\<lambda>n.
     tryS (ucheck sq) (\<lambda>_. tryS (udb (instruction_counter sq)) (\<lambda>before e.
       let (committed, e) = udb (execute_batch api conn COMMIT_SQL) e in
       tryS (udb (delta sq before)) (\<lambda>d. tryS (umetric (\<lambda>m. m\<lparr>um_commit_instructions := d\<rparr>)) (\<lambda>_.
       tryS (ucheck sq) (\<lambda>_. tryS (resume committed) (\<lambda>_.
       tryS write_stats_of (\<lambda>stats. case ws_exceeded stats of
           Some bytes \<Rightarrow> errS (refused bytes) | None \<Rightarrow> retS (n, before, stats)))))) e)))"

definition overlay_dirty_bytes :: "('h, 's, 'c, 'q) update_env \<Rightarrow> nat" where
  "overlay_dirty_bytes e = saturating_mul (dirty_page_count (db_vfs (be_db e))) SQLITE_PAGE_SIZE"

definition update_publish :: "('h, 's, 'c, 'st, 'q, 'z) budget_api_scheme \<Rightarrow> ('h \<times> 's) memory_ops \<Rightarrow> nat option \<Rightarrow> write_stats \<Rightarrow>
    ('h, 's, 'c, 'q, unit) update_stm" where
  "update_publish sq V before stats = tryS (ucheck sq) (\<lambda>_. tryS (getS overlay_dirty_bytes) (\<lambda>bytes.
     tryS (umetric (\<lambda>m. m\<lparr>peak_dirty_pages := ws_dirty_pages stats, overlay_peak_bytes := ws_peak_bytes stats\<rparr>)) (\<lambda>_.
     tryS (udb (on_store (commit_update V))) (\<lambda>_.
     tryS (modifyS (\<lambda>e. e\<lparr>ue_published := True\<rparr>)) (\<lambda>_.
     tryS (umetric (\<lambda>m. m\<lparr>committed_bytes := bytes\<rparr>)) (\<lambda>_.
     tryS (udb (delta sq before)) (\<lambda>d. umetric (\<lambda>m. m\<lparr>um_commit_instructions := d\<rparr>))))))))"

definition update_transaction :: "('h, 's, 'c, 'q) sqlite_api \<Rightarrow> ('h, 's, 'c, 'st, 'q, 'z) budget_api_scheme \<Rightarrow> ('h \<times> 's) memory_ops \<Rightarrow>
    query_budget \<Rightarrow> byte list \<Rightarrow> sql_value list \<Rightarrow> 'c \<Rightarrow> ('h, 's, 'c, 'q, nat) update_stm" where
  "update_transaction api sq V budget sql vs conn = tryS (ucheck sq) (\<lambda>_. tryS (udb (execute_batch api conn BEGIN_SQL)) (\<lambda>_.
     tryS (classified (observer_enter sq conn budget)) (\<lambda>guard.
     tryS (dropping (observer_drop sq conn guard) (update_observed api sq budget sql vs conn)) (\<lambda>(n, before, stats).
     tryS (update_publish sq V before stats) (\<lambda>_. retS n)))))"

text \<open>The statistics of the overlay are looked at once more; a refused page is an error whatever the
  statement returned.\<close>

definition update_settled :: "('h, 's, 'c, 'q, nat) update_stm \<Rightarrow> ('h, 's, 'c, 'q, nat) update_stm" where
  "update_settled m e = (let (r, e) = m e in
     tryS write_stats_of (\<lambda>stats.
     tryS (umetric (\<lambda>m. m\<lparr>peak_dirty_pages := max (peak_dirty_pages m) (ws_dirty_pages stats),
       overlay_peak_bytes := max (overlay_peak_bytes m) (ws_peak_bytes stats)\<rparr>)) (\<lambda>_.
     if r = Panic then panicS else case ws_exceeded stats of Some bytes \<Rightarrow> errS (refused bytes) | None \<Rightarrow> resume r)) e)"

definition write_guard_drop :: "('h, 's, 'c, 'q) sqlite_api \<Rightarrow> context_id \<Rightarrow> 'c \<Rightarrow> bool \<Rightarrow> ('h, 's, 'c, 'q) db_state \<Rightarrow> ('h, 's, 'c, 'q) db_state" where
  "write_guard_drop api context conn published s = (let s = ignoring (clear_read_connection api context) s in
     if published then s
     else forget_write_connection context (ignoring (execute_batch api conn ROLLBACK_SQL) s))"

definition update_env_new :: "nat option \<Rightarrow> query_budget \<Rightarrow> ('h, 's, 'c, 'q) db_state \<Rightarrow> ('h, 's, 'c, 'q) update_env" where
  "update_env_new start budget s = \<lparr>be_start = start, be_limit = max_instructions budget, be_exceeded = False, be_progress = None,
     be_db = s, ue_metrics = update_metrics_default, ue_published = False\<rparr>"

text \<open>The closure under the context of the database: its result, and the metrics, which are kept also when
  the closure fails.\<close>

definition update_closure_run :: "('h, 's, 'c, 'q) sqlite_api \<Rightarrow> ('h, 's, 'c, 'st, 'q, 'z) budget_api_scheme \<Rightarrow> ('h \<times> 's) memory_ops \<Rightarrow>
    context_id \<Rightarrow> update_budget \<Rightarrow> query_budget \<Rightarrow> nat option \<Rightarrow> byte list \<Rightarrow> sql_value list \<Rightarrow>
    ('h, 's, 'c, 'q, (nat, update_error) outcome \<times> update_metrics) db_stm" where
  "update_closure_run api sq V context budget query_budget start sql vs =
     tryS (reject_active_read_connection context) (\<lambda>_.
     tryS (clear_read_connection api context) (\<lambda>_.
     tryS (on_store (begin_update V)) (\<lambda>size. overlay_guard (
       tryS (on_store (overlay_set_write_budget (max_dirty_pages budget) (max_changed_bytes budget))) (\<lambda>_.
       tryS (write_connection api context size) (\<lambda>conn s.
         let (r, e) = update_settled (update_transaction api sq V query_budget sql vs conn) (update_env_new start query_budget s);
             s = write_guard_drop api context conn (ue_published e) (be_db e)
         in (if r = Panic then Panic else Ok (r, ue_metrics e), release_connection api context conn s)))))))"

definition update_run :: "('h, 's, 'c, 'q) sqlite_api \<Rightarrow> ('h, 's, 'c, 'st, 'q, 'z) budget_api_scheme \<Rightarrow> ('h \<times> 's) memory_ops \<Rightarrow>
    context_id \<Rightarrow> byte list \<Rightarrow> sql_value list \<Rightarrow> update_budget \<Rightarrow> ('h, 's, 'c, 'q) db_state \<Rightarrow> update_report \<times> ('h, 's, 'c, 'q) db_state" where
  "update_run api sq V context sql vs budget s =
    (let reserve = commit_reserve_instructions budget in
     if (case ub_max_instructions budget of Some limit \<Rightarrow> reserve = 0 \<or> limit \<le> reserve | None \<Rightarrow> False)
     then (update_report_failed (InvalidBudget ''commit reserve must be positive and smaller than max_instructions''), s)
     else
       let execution_limit = map_option (\<lambda>limit. limit - reserve) (ub_max_instructions budget);
           qb = default_budget\<lparr>max_instructions := execution_limit, max_sql_bytes := ub_max_sql_bytes budget,
             max_value_bytes := ub_max_value_bytes budget, progress_interval := ub_progress_interval budget\<rparr> in
       case validate sq qb s of
         (Ok (Some error), s) \<Rightarrow> (update_report_failed (classify error), s)
       | (_, s) \<Rightarrow> (case instruction_counter sq s of
           (Ok start, s) \<Rightarrow>
             (case db_with_context context (update_closure_run api sq V context budget qb start sql vs) s of
               (Panic, s) \<Rightarrow> (\<lparr>ur_result = Panic, ur_metrics = update_metrics_default\<rparr>, s)
             | (outer, s) \<Rightarrow>
                 (let (r, m) = (case outer of Ok rm \<Rightarrow> rm | Err error \<Rightarrow> (Err (UpdateDatabase error), update_metrics_default)
                        | Panic \<Rightarrow> (Panic, update_metrics_default)) in
                  case delta sq start s of
                    (Ok used, s) \<Rightarrow> (\<lparr>ur_result = r, ur_metrics = m\<lparr>um_instructions := used, committed_over_soft_limit :=
                        ((\<exists>n. r = Ok n) \<and> (case (ub_max_instructions budget, used) of (Some limit, Some n) \<Rightarrow> limit < n | _ \<Rightarrow> False))\<rparr>\<rparr>, s)
                  | (_, s) \<Rightarrow> (\<lparr>ur_result = Panic, ur_metrics = m\<rparr>, s)))
         | (_, s) \<Rightarrow> (\<lparr>ur_result = Panic, ur_metrics = update_metrics_default\<rparr>, s)))"

definition default_update_with_budget :: "('h, 's, 'c, 'q) sqlite_api \<Rightarrow> ('h, 's, 'c, 'st, 'q, 'z) budget_api_scheme \<Rightarrow> ('h \<times> 's) memory_ops \<Rightarrow>
    byte list \<Rightarrow> sql_value list \<Rightarrow> update_budget \<Rightarrow> ('h, 's, 'c, 'q) db_state \<Rightarrow> update_report \<times> ('h, 's, 'c, 'q) db_state" where
  "default_update_with_budget api sq V sql vs budget s = (case default_handle s of
      (Ok context, s) \<Rightarrow> update_run api sq V context sql vs budget s
    | (Err error, s) \<Rightarrow> (update_report_failed (UpdateDatabase error), s)
    | (Panic, s) \<Rightarrow> (\<lparr>ur_result = Panic, ur_metrics = update_metrics_default\<rparr>, s))"

end
