(* ===== verification/Update_Session.thy ===== *)
theory Update_Session
  imports Direct_Access
begin

text \<open>
  Whole updates: the operations SQLite performs on the file between \<open>begin_update\<close> and
  \<open>commit_update\<close> or \<open>rollback_update\<close>, and their specification, the same operations applied to the
  abstract file.  An update whose operations fail is rolled back, as \<open>Db::update\<close> does
  (\<open>src/src/db/mod.rs\<close>).
\<close>

datatype file_op = OpRead nat nat | OpWrite nat "byte list" | OpTruncate nat

fun apply_op :: "file_op \<Rightarrow> afile \<Rightarrow> afile" where
  "apply_op (OpRead off n) a = a"
| "apply_op (OpWrite off bs) a = afile_write off bs a"
| "apply_op (OpTruncate n) a = afile_truncate n a"

fun op_valid :: "file_op \<Rightarrow> bool" where
  "op_valid (OpTruncate n) \<longleftrightarrow> n \<le> u64_max"
| "op_valid _ \<longleftrightarrow> True"

fun run_op :: "('h \<times> 's) memory_ops \<Rightarrow> file_op \<Rightarrow> ('h, 's, 'z, unit) blob_stm" where
  "run_op V (OpRead off n) = tryS (blob_read_at V off n) (\<lambda>_. retS ())"
| "run_op V (OpWrite off bs) = blob_write_at V off bs"
| "run_op V (OpTruncate n) = blob_truncate V n"

fun run_ops :: "('h \<times> 's) memory_ops \<Rightarrow> file_op list \<Rightarrow> ('h, 's, 'z, unit) blob_stm" where
  "run_ops V [] = retS ()"
| "run_ops V (x # xs) = tryS (run_op V x) (\<lambda>_. run_ops V xs)"

definition update_session :: "('h \<times> 's) memory_ops \<Rightarrow> file_op list \<Rightarrow> ('h, 's, 'z, unit) blob_stm" where
  "update_session V ops = tryS (begin_update V) (\<lambda>_ w. case run_ops V ops w of
      (Ok _, w') \<Rightarrow> commit_update V w'
    | (r, w') \<Rightarrow> (r, rollback_update w'))"

context db_mem
begin

lemma run_op_cases:
  assumes u: "updating w v b ov" and ok: "op_valid x"
  obtains (Ok) w' v' ov' where "run_op V x w = (Ok (), w')" "updating w' v' b ov'" "same_mem v v'"
      "ov_content (img_byte b (byte_of v')) ov' = apply_op x (ov_content (img_byte b (byte_of v)) ov)"
  | (Err) e w' v' where "run_op V x w = (Err e, w')" "db_at w' v' b" "same_mem v v'"
proof (cases x)
  case (OpRead off n)
  obtain w' v' ov' where "blob_read_at V off n w = (Ok (afile_read off n (ov_content (img_byte b (byte_of v)) ov)), w')"
    "updating w' v' b ov'" "same_mem v v'"
    "ov_content (img_byte b (byte_of v')) ov' = ov_content (img_byte b (byte_of v)) ov"
    using update_read_ok [OF u] by metis
  then show thesis using Ok [of w' v' ov'] OpRead by (simp add: retS_def)
next
  case (OpWrite off bs)
  show thesis
  proof (cases rule: update_write_cases [OF u, of off bs])
    case 1
    then show thesis using local.Ok OpWrite by simp
  next
    case 2
    then show thesis using local.Err OpWrite by simp
  qed
next
  case (OpTruncate n)
  have n: "n \<le> u64_max" using ok OpTruncate by simp
  show thesis
  proof (cases rule: update_truncate_cases [OF u n])
    case 1
    then show thesis using local.Ok OpTruncate by simp
  next
    case 2
    then show thesis using local.Err OpTruncate by simp
  qed
qed

lemma run_ops_cases:
  assumes "updating w v b ov" "list_all op_valid ops"
  shows "(\<exists>w' v' ov'. run_ops V ops w = (Ok (), w') \<and> updating w' v' b ov' \<and> same_mem v v' \<and>
      ov_content (img_byte b (byte_of v')) ov' = fold apply_op ops (ov_content (img_byte b (byte_of v)) ov)) \<or>
    (\<exists>e w' v'. run_ops V ops w = (Err e, w') \<and> db_at w' v' b \<and> same_mem v v')"
  using assms
proof (induction ops arbitrary: w v ov)
  case Nil
  then have "inv v" using holdsD(2) [of w v b] by (simp add: updating_def db_at_def)
  then show ?case
    using Nil same_mem_refl
    by (intro disjI1 exI [of _ w] exI [of _ v] exI [of _ ov]) (simp add: retS_def)
next
  case (Cons x xs)
  then have x: "op_valid x" and xs: "list_all op_valid xs" by simp_all
  show ?case
  proof (cases rule: run_op_cases [OF Cons.prems(1) x])
    case (1 w1 v1 ov1)
    have run: "run_ops V (x # xs) w = run_ops V xs w1" using 1(1) by simp
    from Cons.IH [OF 1(2) xs] show ?thesis
      unfolding run using 1(3,4) same_mem_trans [OF 1(3)] by (metis fold_simps(2))
  next
    case (2 e w1 v1)
    then show ?thesis by (metis run_ops.simps(2) tryS_simps(2))
  qed
qed

text \<open>What an update leaves behind: all of its operations, or nothing.\<close>

definition all_or_nothing :: "(afile \<Rightarrow> afile) \<Rightarrow> 'h \<times> 's \<Rightarrow> superblock \<Rightarrow>
    (unit, stable_memory_error) outcome \<times> ('h, 's, 'z) blob_world_scheme \<Rightarrow> bool" where
  "all_or_nothing g v b res \<longleftrightarrow> (\<exists>v' b'. db_at (snd res) v' b' \<and> active_overlay (snd res) = None \<and>
     (if fst res = Ok () then file_of v' b' = g (file_of v b)
      else (\<exists>e. fst res = Err e) \<and> b' = b \<and> same_mem v v'))"

lemma all_or_nothingI:
  "db_at w' v' b' \<Longrightarrow> active_overlay w' = None \<Longrightarrow> file_of v' b' = g (file_of v b) \<Longrightarrow>
    all_or_nothing g v b (Ok (), w')"
  "db_at w' v' b \<Longrightarrow> active_overlay w' = None \<Longrightarrow> same_mem v v' \<Longrightarrow> all_or_nothing g v b (Err e, w')"
  unfolding all_or_nothing_def by (rule exI [of _ v'], rule exI [of _ b'], simp)
    (rule exI [of _ v'], rule exI [of _ b], simp)

lemma update_session_atomic:
  assumes d: "db_at w v b" and none: "active_overlay w = None" and imp: "\<not> is_importing b"
    and ops: "list_all op_valid ops"
  shows "all_or_nothing (fold apply_op ops) v b (update_session V ops w)"
proof -
  obtain w1 v1 ov where u: "begin_update V w = (Ok (db_size b), w1)" "updating w1 v1 b ov" "same_mem v v1"
    "ov_content (img_byte b (byte_of v1)) ov = file_of v b"
    using begin_update_ok [OF d none imp] by metis
  have run: "update_session V ops w = (case run_ops V ops w1 of
      (Ok _, w') \<Rightarrow> commit_update V w' | (r, w') \<Rightarrow> (r, rollback_update w'))"
    using u(1) by (simp add: update_session_def)
  from run_ops_cases [OF u(2) ops] show ?thesis
  proof (elim disjE exE conjE)
    fix w2 v2 ov2
    assume r: "run_ops V ops w1 = (Ok (), w2)" and u2: "updating w2 v2 b ov2" and s: "same_mem v1 v2"
      and c: "ov_content (img_byte b (byte_of v2)) ov2 = fold apply_op ops (ov_content (img_byte b (byte_of v1)) ov)"
    show ?thesis
    proof (cases rule: commit_update_cases [OF u2])
      case (1 w3 v3 b3)
      then show ?thesis unfolding run r using c u(4) all_or_nothingI(1) [of w3 v3 b3] by simp
    next
      case (2 e w3 v3)
      then show ?thesis
        unfolding run r using all_or_nothingI(2) [OF 2(2,4)] same_mem_trans [OF same_mem_trans [OF u(3) s] 2(3)] by simp
    qed
  next
    fix e w2 v2
    assume r: "run_ops V ops w1 = (Err e, w2)" and d2: "db_at w2 v2 b" and s: "same_mem v1 v2"
    show ?thesis
      unfolding run r using all_or_nothingI(2) [OF rollback_update_ok [OF d2] same_mem_trans [OF u(3) s]] by simp
  qed
qed

end

end
