(* ===== verification/Frames.thy ===== *)
theory Frames
  imports Vfs Checksum_Refresh Update_Session
begin

text \<open>
  What an operation in one context leaves alone.  \<open>within R m\<close>: every run of \<open>m\<close>, also one that fails
  or panics, relates the state before and after by the preorder \<open>R\<close>.  The relation \<open>frame\<close> says
  that only the memory, the cached superblock and the overlay of the active context changed, and
  the memory only as its own operations change it; \<open>quiet\<close> is the same for operations that do not
  touch the overlays.  Every operation of the storage layer stays within one of them.
\<close>

section \<open>Runs within a preorder\<close>

definition pre :: "('w \<Rightarrow> 'w \<Rightarrow> bool) \<Rightarrow> bool" where
  "pre R \<longleftrightarrow> reflp R \<and> transp R"

definition within :: "('w \<Rightarrow> 'w \<Rightarrow> bool) \<Rightarrow> ('w, 'a, 'e) stm \<Rightarrow> bool" where
  "within R m \<longleftrightarrow> (\<forall>w. R w (snd (m w)))"

named_theorems within_intros \<open>rules for runs within a relation\<close>

lemma preD: "pre R \<Longrightarrow> R w w" "pre R \<Longrightarrow> R u v \<Longrightarrow> R v w \<Longrightarrow> R u w"
  unfolding pre_def by (blast dest: reflpD transpD)+

lemma within_run: "within R m \<Longrightarrow> m w = (r, w') \<Longrightarrow> R w w'"
  unfolding within_def by (metis snd_conv)

lemma withinD: "within R m \<Longrightarrow> R w (snd (m w))"
  by (simp add: within_def)

lemma within_pure [within_intros]:
  "pre R \<Longrightarrow> within R (\<lambda>w. (f w, w))" "pre R \<Longrightarrow> within R (retS x)" "pre R \<Longrightarrow> within R (errS e)"
  "pre R \<Longrightarrow> within R panicS" "pre R \<Longrightarrow> within R (getS g)" "pre R \<Longrightarrow> within R (sumS s)"
  "pre R \<Longrightarrow> within R (ok_orS e v)" "pre R \<Longrightarrow> within R (checked_addS i j)"
  by (auto simp: within_def preD monad_defs sumS_def checked_addS_def ok_orS_def split: sum.splits option.splits)

lemma within_tryS [within_intros]:
  assumes "pre R" "within R m" "\<And>x. within R (k x)"
  shows "within R (tryS m k)"
  unfolding within_def
proof
  fix w
  show "R w (snd (tryS m k w))"
  proof (cases rule: tryS_cases [of m w k])
    case (Ok x w1)
    then have "R w w1" "R w1 (snd (k x w1))" using within_run [OF assms(2)] assms(3) by (auto simp: within_def)
    then show ?thesis using Ok(2) preD(2) [OF assms(1)] by simp
  qed (use within_run [OF assms(2)] in auto)
qed

lemma within_modify: "(\<And>w. R w (f w)) \<Longrightarrow> within R (modifyS f)"
  by (simp add: within_def modifyS_def)

lemma within_branches [within_intros]:
  "(c \<Longrightarrow> within R a) \<Longrightarrow> (\<not> c \<Longrightarrow> within R b) \<Longrightarrow> within R (if c then a else b)"
  "within R a \<Longrightarrow> within R b \<Longrightarrow> within R (\<lambda>w. if P w then a w else b w)"
  "within R a \<Longrightarrow> (\<And>x. within R (b' x)) \<Longrightarrow> within R (case v of None \<Rightarrow> a | Some x \<Rightarrow> b' x)"
  "within R a \<Longrightarrow> (\<And>x. within R (b' x)) \<Longrightarrow> within R (\<lambda>w. case g w of None \<Rightarrow> a w | Some x \<Rightarrow> b' x w)"
  "(\<And>x y. within R (d x y)) \<Longrightarrow> within R (case p of (x, y) \<Rightarrow> d x y)"
  by (auto simp: within_def split: option.splits prod.splits)

lemma within_at: "(\<And>w0. within R (k w0)) \<Longrightarrow> within R (\<lambda>w. k (f w) w)"
  by (simp add: within_def)

definition on_fst :: "('w \<Rightarrow> 'w \<Rightarrow> bool) \<Rightarrow> 'w \<times> 'x \<Rightarrow> 'w \<times> 'x \<Rightarrow> bool" where
  "on_fst R p q \<longleftrightarrow> R (fst p) (fst q)"

lemma pre_on_fst [simp]: "pre R \<Longrightarrow> pre (on_fst R)"
  by (auto simp: pre_def on_fst_def reflp_def transp_def)

lemma within_liftS [within_intros]: "within R m \<Longrightarrow> within (on_fst R) (liftS m)"
  by (simp add: within_def on_fst_def liftS_def Let_def split_beta)

lemma within_modify_snd [within_intros]: "pre R \<Longrightarrow> within (on_fst R) (modifyS (\<lambda>(w, x). (w, f x)))"
  by (auto simp: within_def on_fst_def modifyS_def preD)

lemma within_read_range_loop [within_intros]:
  assumes "pre R" "\<And>p i k. within R (f p i k)"
  shows "within R (read_range_loop f off n c acc)"
  using assms
proof (induction f off n c acc rule: read_range_loop.induct)
  case (1 f off n c acc)
  show ?case
    unfolding read_range_loop.simps [of f off n c acc] Let_def
    by (intro within_intros 1) simp_all
qed

lemma within_hash_loop [within_intros]:
  assumes "pre R" "\<And>i k. within R (f i k)"
  shows "within R (hash_loop f off fin h)"
  using assms
proof (induction f off fin h rule: hash_loop.induct)
  case (1 f off fin h)
  show ?case
    unfolding hash_loop.simps [of f off fin h] Let_def
    by (intro within_intros 1) simp_all
qed

section \<open>The frame of a context\<close>

locale mem_frame =
  fixes V :: "('h \<times> 's) memory_ops" and M :: "'h \<times> 's \<Rightarrow> 'h \<times> 's \<Rightarrow> bool"
  assumes M_pre: "pre M"
    and M_read: "mem_read V v off n = Some (bs, v') \<Longrightarrow> M v v'"
    and M_write: "mem_write V v off xs = Some v' \<Longrightarrow> M v v'"
    and M_grow: "mem_grow V v n = Some (r, v') \<Longrightarrow> M v v'"
begin

lemmas M_rules = preD [OF M_pre] M_pre

definition same_globals :: "('h, 's, 'z) blob_world_scheme \<Rightarrow> ('h, 's, 'z) blob_world_scheme \<Rightarrow> bool" where
  "same_globals w w' \<longleftrightarrow> next_context_id w' = next_context_id w \<and> default_context w' = default_context w \<and>
     current_context w' = current_context w \<and> registered_memory w' = registered_memory w \<and>
     blob_world.more w' = blob_world.more w \<and> map fst (db_memory_slots w') = map fst (db_memory_slots w)"

definition same_others :: "('h, 's, 'z) blob_world_scheme \<Rightarrow> ('h, 's, 'z) blob_world_scheme \<Rightarrow> bool" where
  "same_others w w' \<longleftrightarrow> (\<forall>c. active_context w \<noteq> Some c \<longrightarrow>
     map_of (db_memory_slots w') c = map_of (db_memory_slots w) c \<and> superblock_cache w' c = superblock_cache w c)"

definition mem_rel :: "('h, 's, 'z) blob_world_scheme \<Rightarrow> ('h, 's, 'z) blob_world_scheme \<Rightarrow> bool" where
  "mem_rel w w' \<longleftrightarrow> (case active_mem w of None \<Rightarrow> mem_store w' = mem_store w \<and> active_mem w' = None
      | Some v \<Rightarrow> (\<exists>v'. active_mem w' = Some v' \<and> M v v'))"

definition quiet :: "('h, 's, 'z) blob_world_scheme \<Rightarrow> ('h, 's, 'z) blob_world_scheme \<Rightarrow> bool" where
  "quiet w w' \<longleftrightarrow> same_globals w w' \<and> same_others w w' \<and> mem_rel w w' \<and> overlays w' = overlays w"

lemmas quiet_defs = quiet_def same_globals_def same_others_def mem_rel_def

lemma quiet_active: "quiet w w' \<Longrightarrow> active_context w' = active_context w"
  by (simp add: quiet_def same_globals_def active_context_def split: option.splits)

lemma mem_rel_trans: "mem_rel u v \<Longrightarrow> mem_rel v w \<Longrightarrow> mem_rel u w"
  unfolding mem_rel_def using M_rules(2) by (auto split: option.splits)

lemma pre_quiet [simp]: "pre quiet"
proof -
  have "quiet w w" for w :: "('h, 's, 'z) blob_world_scheme"
    using M_rules(1) by (cases "active_mem w") (simp_all add: quiet_defs)
  moreover have "quiet u w" if "quiet u v" "quiet v w" for u v w :: "('h, 's, 'z) blob_world_scheme"
  proof -
    have "same_globals u w" "mem_rel u w" "overlays w = overlays u"
      using that mem_rel_trans by (auto simp: quiet_def same_globals_def)
    moreover have "same_others u w"
      using that quiet_active [OF that(1)] unfolding quiet_def same_others_def by metis
    ultimately show ?thesis by (simp add: quiet_def)
  qed
  ultimately show ?thesis unfolding pre_def reflp_def transp_def by blast
qed

lemma quiet_put_mem:
  assumes "active_mem w = Some v" "M v v'"
  shows "quiet w (put_mem v' w)"
proof -
  have "mem_rel w (put_mem v' w)" using assms by (simp add: mem_rel_def)
  moreover have "same_globals w (put_mem v' w)" "same_others w (put_mem v' w)" "overlays (put_mem v' w) = overlays w"
    by (auto simp: same_globals_def same_others_def put_mem_def map_of_update_slot split: option.splits)
  ultimately show ?thesis by (simp add: quiet_def)
qed

lemma quiet_cache [within_intros]: "within quiet (modifyS (cache_superblock_owned b))"
proof (rule within_modify)
  fix w :: "('h, 's, 'z) blob_world_scheme"
  show "quiet w (cache_superblock_owned b w)"
    using M_rules(1) by (cases "active_mem w") (auto simp: quiet_defs cache_superblock_owned_def split: option.splits)
qed

lemma within_with_memory:
  assumes "within M f"
  shows "within quiet (with_memory f)"
  unfolding within_def
proof
  fix w :: "('h, 's, 'z) blob_world_scheme"
  show "quiet w (snd (with_memory f w))"
  proof (cases "active_mem w")
    case None
    then show ?thesis using with_memory_none [OF None, of f] preD(1) [OF pre_quiet] by simp
  next
    case (Some v)
    obtain r v' where r: "f v = (r, v')" by (cases "f v")
    show ?thesis
      using with_memory_run [of w v f r v', OF Some r] quiet_put_mem [OF Some within_run [OF assms r]] by simp
  qed
qed

lemma within_calls [within_intros]:
  "within M (call_read V off n)" "within M (call_write V off bs)" "within M (call_grow V n)"
  "within M (ensure_memory_capacity V k)"
proof -
  show "within M (call_read V off n)" "within M (call_write V off bs)" and g: "within M (call_grow V n)" for n
    using M_rules M_read M_write M_grow
    by (auto simp: within_def call_read_def call_write_def call_grow_def split: option.splits)
  show "within M (ensure_memory_capacity V k)"
    unfolding within_def
  proof
    fix v
    have t: "within M (tryS (call_grow V pages) (\<lambda>previous v. if previous < 0 then
      (case checked_add p pages of None \<Rightarrow> (Err OffsetOverflow, v)
       | Some q \<Rightarrow> (Err (GrowFailed p q), v)) else (Ok (), v)))" for pages p
      by (intro within_intros g M_pre)
    show "M v (snd (ensure_memory_capacity V k v))"
    proof (cases "checked_mul (mem_size V v) STABLE_PAGE_SIZE")
      case None
      then show ?thesis using M_rules(1) by (simp add: ensure_memory_capacity_def Let_def checked_mul_def)
    next
      case (Some bytes)
      then show ?thesis
        using M_rules(1) [of v] withinD [OF t, of v "div_ceil (k - bytes) STABLE_PAGE_SIZE" "mem_size V v"]
        by (cases "k \<le> bytes") (simp_all add: ensure_memory_capacity_def Let_def checked_mul_def)
    qed
  qed
qed

section \<open>The storage layer stays within the frame\<close>

lemma within_memory [within_intros]:
  "within quiet active_context_id" "within quiet (read_preallocated V off n)" "within quiet (memory_read V off n)"
  "within quiet (memory_write V off bs)" "within quiet (write_preallocated V off bs)"
  "within quiet (write_prechecked V off bs)" "within quiet (write_prechecked_unmetered V off bs)"
  "within quiet (ensure_capacity V k)" "within quiet (memory_checked_end off n)"
proof -
  show "within quiet active_context_id"
    using preD(1) [OF pre_quiet] by (auto simp: within_def active_context_id_def split: option.splits)
  show e: "within quiet (memory_checked_end off n)" for off n
    unfolding memory_checked_end_def by (intro within_intros pre_quiet)
  have r: "within M (\<lambda>v. case checked_mul (mem_size V v) STABLE_PAGE_SIZE of None \<Rightarrow> (Err OffsetOverflow, v)
         | Some size_bytes \<Rightarrow> if size_bytes < e then (Err (ReadOutOfBounds off n size_bytes), v)
             else call_read V off n v)" for e
    by (intro within_intros M_pre)
  show "within quiet (read_preallocated V off n)" "within quiet (memory_read V off n)"
    "within quiet (memory_write V off bs)" "within quiet (write_preallocated V off bs)"
    "within quiet (write_prechecked V off bs)" "within quiet (write_prechecked_unmetered V off bs)"
    "within quiet (ensure_capacity V k)"
    unfolding read_preallocated_def memory_read_def memory_write_def write_preallocated_def
      write_prechecked_def write_prechecked_unmetered_def ensure_capacity_def
    by (intro within_intros e r within_with_memory pre_quiet M_pre)+
qed

lemma within_superblock [within_intros]:
  "within quiet (store_preallocated V b)" "within quiet (sb_store V b)" "within quiet (sb_load V)"
  "within quiet (commit_db_image V base n es)" "within quiet (store_db_image_without_tx V base n es)"
  "within quiet (store_commit_db_image V adv base n es)"
proof -
  show s: "within quiet (store_preallocated V b)" "within quiet (sb_store V b)" for b
    unfolding store_preallocated_def sb_store_def store_with_capacity_check_def Let_def
    by (intro within_intros pre_quiet)+
  show l: "within quiet (sb_load V)"
    unfolding sb_load_def by (intro within_intros s pre_quiet)
  show "within quiet (commit_db_image V base n es)" "within quiet (store_db_image_without_tx V base n es)"
    "within quiet (store_commit_db_image V adv base n es)"
    unfolding store_commit_db_image_def commit_db_image_def store_db_image_without_tx_def
    by (intro within_intros l s pre_quiet)+
qed

lemma within_reads [within_intros]:
  "within quiet (read_logical_range V b off n)" "within quiet (read_base_at_with_block V b off n)"
  "within quiet (read_base_at V off n)" "within quiet (read_base_page V p)"
  "within (on_fst quiet) (read_base_at_with_page_cache V b off n)"
proof -
  show r: "within quiet (read_logical_range V b off n)" for b off n
    unfolding read_logical_range_def read_logical_page_slice_def [abs_def] page_offset_for_def page_physical_offset_def
    by (intro within_intros pre_quiet)
  show b: "within quiet (read_base_at_with_block V b off n)" for b off n
    unfolding read_base_at_with_block_def Let_def by (intro within_intros r pre_quiet)
  show "within quiet (read_base_at V off n)" "within quiet (read_base_page V p)"
    unfolding read_base_at_def read_base_page_def by (intro within_intros b pre_quiet)+
  have o: "within (on_fst quiet) (page_offset_for b p)" for p
    unfolding page_offset_for_def page_physical_offset_def by (intro within_intros pre_on_fst pre_quiet)
  have c: "within (on_fst quiet) (cached_page_offset b p)" "within (on_fst quiet) (read_uncached_slice V p a i k)" for p a i k
    unfolding cached_page_offset_def [abs_def] read_uncached_slice_def
    by (intro within_intros o pre_on_fst pre_quiet)+
  have s: "within (on_fst quiet) (read_logical_page_slice_with_page_cache V b p i k)" for p i k
    unfolding within_def
  proof
    fix wc
    have "within (on_fst quiet) (tryS (cached_page_offset b p) (\<lambda>physical. read_uncached_slice V p physical i k))"
      by (intro within_intros c pre_on_fst pre_quiet)
    note this [THEN withinD, of wc] preD(1) [OF pre_on_fst [OF pre_quiet], of wc]
    then show "on_fst quiet wc (snd (read_logical_page_slice_with_page_cache V b p i k wc))"
      by (auto simp: read_logical_page_slice_with_page_cache_def retS_def panicS_def split: option.splits)
  qed
  show "within (on_fst quiet) (read_base_at_with_page_cache V b off n)"
    unfolding read_base_at_with_page_cache_def read_logical_range_with_page_cache_def Let_def
    by (intro within_intros s pre_on_fst pre_quiet)
qed

end

end
