(* ===== verification/Frames_Blob.thy ===== *)
theory Frames_Blob
  imports Frames
begin

text \<open>
  The overlay, the database file, imports and checksums stay within the frame of their context.
\<close>

section \<open>Overlays\<close>

lemma within_write_loop:
  assumes "pre R" "\<And>p. within R (load_dirty_page V p)" "\<And>p i xs. within R (edit_page p i xs)"
  shows "within R (ov_write_loop V off bs k)"
  using assms
proof (induction V off bs k rule: ov_write_loop.induct)
  case (1 V off bs k)
  show ?case
    unfolding ov_write_loop.simps [of V off bs k] Let_def
    by (intro within_intros 1) simp_all
qed

lemma within_required_end [within_intros]: "pre R \<Longrightarrow> within R (required_end_loop b final ps re)"
  by (induction b final ps re rule: required_end_loop.induct)
    (simp_all add: page_physical_offset_def within_pure within_tryS)

lemma within_or_panic [within_intros]: "within R m \<Longrightarrow> within R (or_panic m)"
  unfolding within_def or_panic_def by (simp add: split_beta split: outcome.splits)

context mem_frame
begin

lemma within_overlay_pages [within_intros]:
  "within (on_fst quiet) admit_dirty_page" "within (on_fst quiet) (take_clean_page p)"
  "within (on_fst quiet) (edit_page p i xs)" "within (on_fst quiet) (write_full_page p xs)"
  "within (on_fst quiet) (load_dirty_page V p)" "within (on_fst quiet) (slice_of_page page i n)"
proof -
  note q = preD(1) [OF pre_quiet]
  show a: "within (on_fst quiet) admit_dirty_page" and t: "within (on_fst quiet) (take_clean_page p)" for p
    by (auto simp: within_def on_fst_def admit_dirty_page_def take_clean_page_def q Let_def split: option.splits)
  show "within (on_fst quiet) (edit_page p i xs)" "within (on_fst quiet) (slice_of_page page i n)"
    by (auto simp: within_def on_fst_def edit_page_def slice_of_page_def q retS_def panicS_def split: option.splits)
  show "within (on_fst quiet) (write_full_page p xs)"
    unfolding write_full_page_def [abs_def]
    by (intro within_intros a pre_on_fst pre_quiet)
  have "within (on_fst quiet) (\<lambda>wo. tryS (if ov_page_is_zero_masked (snd wo) p then retS zero_page
             else tryS (take_clean_page p) (\<lambda>found.
               case found of Some page \<Rightarrow> retS page | None \<Rightarrow> liftS (read_base_page V p)))
         (\<lambda>page. modify_ov (\<lambda>ov. ov\<lparr>ov_pages := ov_pages ov @ [(p, page)]\<rparr>)) wo)"
    by (rule within_at [where f = "\<lambda>wo. ov_page_is_zero_masked (snd wo) p"
          and k = "\<lambda>z. tryS (if z then retS zero_page else tryS (take_clean_page p) (\<lambda>found.
               case found of Some page \<Rightarrow> retS page | None \<Rightarrow> liftS (read_base_page V p)))
         (\<lambda>page. modify_ov (\<lambda>ov. ov\<lparr>ov_pages := ov_pages ov @ [(p, page)]\<rparr>))"])
      (intro within_intros t pre_on_fst pre_quiet)
  then show "within (on_fst quiet) (load_dirty_page V p)"
    unfolding load_dirty_page_def [abs_def]
    by (intro within_intros a pre_on_fst pre_quiet)
qed

lemma within_grow_to [within_intros]: "within (on_fst quiet) (grow_to V m n)"
  unfolding grow_to_def zero_newly_active_partial_pages_def zero_old_partial_page_def zero_new_partial_page_def Let_def
  by (intro within_intros pre_on_fst pre_quiet)

lemma within_overlay_ops [within_intros]:
  "within (on_fst quiet) (ov_read_at V off n)" "within (on_fst quiet) (ov_write_at V off bs)"
  "within (on_fst quiet) (ov_truncate V n)"
proof -
  have s: "within (on_fst quiet) (ov_read_slice V p i k)" for p i k
    unfolding ov_read_slice_def [abs_def] by (intro within_intros pre_on_fst pre_quiet)
  have r: "within (on_fst quiet) (tryS (ov_read_range V off k) (\<lambda>bs. retS (bs @ replicate (n - k) 0, k = n)))" for k
    unfolding ov_read_range_def by (intro within_intros s pre_on_fst pre_quiet)
  show "within (on_fst quiet) (ov_read_at V off n)"
    unfolding ov_read_at_def [abs_def] Let_def
    by (intro within_branches within_pure pre_on_fst pre_quiet
        within_at [OF r, of "\<lambda>wo. min n (ov_size (snd wo) - off)"])
  have w: "within (on_fst quiet) (tryS (checked_addS off (length bs)) (\<lambda>e. tryS (grow_to V m e) (\<lambda>_.
       tryS (if length bs = PS \<and> off mod PS = 0 then write_full_page (page_no off) bs
             else ov_write_loop V off bs 0) (\<lambda>_. modify_ov (\<lambda>ov. ov\<lparr>ov_size := max (ov_size ov) e\<rparr>)))))" for m
    by (intro within_intros within_write_loop pre_on_fst pre_quiet)
  show "within (on_fst quiet) (ov_write_at V off bs)"
    unfolding ov_write_at_def [abs_def]
    by (intro within_branches within_pure pre_on_fst pre_quiet within_at [OF w, of "\<lambda>wo. ov_size (snd wo)"])
  show "within (on_fst quiet) (ov_truncate V n)"
    unfolding ov_truncate_def [abs_def] Let_def
    by (rule within_at [where f = "\<lambda>wo. ov_size (snd wo)"]) (intro within_intros pre_on_fst pre_quiet)
qed

section \<open>The database file\<close>

text \<open>Overlays of other contexts are untouched.\<close>

definition ov_rel :: "('h, 's, 'z) blob_world_scheme \<Rightarrow> ('h, 's, 'z) blob_world_scheme \<Rightarrow> bool" where
  "ov_rel w w' \<longleftrightarrow> (distinct (map fst (overlays w)) \<longrightarrow> distinct (map fst (overlays w')) \<and>
     (\<forall>c. active_context w \<noteq> Some c \<longrightarrow> map_of (overlays w') c = map_of (overlays w) c))"

definition frame :: "('h, 's, 'z) blob_world_scheme \<Rightarrow> ('h, 's, 'z) blob_world_scheme \<Rightarrow> bool" where
  "frame w w' \<longleftrightarrow> same_globals w w' \<and> same_others w w' \<and> mem_rel w w' \<and> ov_rel w w'"

lemma frame_active: "frame w w' \<Longrightarrow> active_context w' = active_context w"
  by (simp add: frame_def same_globals_def active_context_def split: option.splits)

lemma quiet_frame: "quiet w w' \<Longrightarrow> frame w w'"
  by (simp add: quiet_def frame_def ov_rel_def)

lemma within_frame [within_intros]: "within quiet m \<Longrightarrow> within frame m"
  by (simp add: within_def quiet_frame)

lemma pre_frame [simp]: "pre frame"
proof -
  have "frame w w" for w :: "('h, 's, 'z) blob_world_scheme"
    using quiet_frame preD(1) [OF pre_quiet] by blast
  moreover have "frame u w" if "frame u v" "frame v w" for u v w :: "('h, 's, 'z) blob_world_scheme"
  proof -
    have "same_globals u w" "mem_rel u w"
      using that mem_rel_trans by (auto simp: frame_def same_globals_def)
    moreover have "same_others u w" "ov_rel u w"
      using that frame_active [OF that(1)] unfolding frame_def same_others_def ov_rel_def by metis+
    ultimately show ?thesis by (simp add: frame_def)
  qed
  ultimately show ?thesis unfolding pre_def reflp_def transp_def by blast
qed

text \<open>Changing the overlay of the active context.\<close>

lemma frame_overlays:
  fixes w :: "('h, 's, 'z) blob_world_scheme"
  assumes "frame w u" "overlays u = overlays w"
    and "distinct (map fst (overlays w)) \<Longrightarrow> distinct (map fst xs)"
    and "\<And>c. distinct (map fst (overlays w)) \<Longrightarrow> active_context w \<noteq> Some c \<Longrightarrow> map_of xs c = map_of (overlays w) c"
  shows "frame w (u\<lparr>overlays := xs\<rparr>)"
proof -
  have "active_mem (u\<lparr>overlays := xs\<rparr>) = active_mem u" by simp
  then show ?thesis
    using assms by (auto simp: frame_def same_globals_def same_others_def mem_rel_def ov_rel_def split: option.splits)
qed

lemma within_on_overlay [within_intros]:
  fixes f :: "('h, 's, 'z blob_world_ext, 'a) ov_stm"
  assumes "within (on_fst quiet) f"
  shows "within frame (on_overlay f)"
  unfolding within_def
proof
  fix w :: "('h, 's, 'z) blob_world_scheme"
  have refl: "frame w w" by (rule preD(1) [OF pre_frame])
  show "frame w (snd (on_overlay f w))"
  proof (cases "active_context w")
    case None
    then show ?thesis using refl by (simp add: on_overlay_def active_context_id_def)
  next
    case (Some c)
    show ?thesis
    proof (cases "overlay_index (overlays w) c")
      case None
      then show ?thesis using refl Some by (simp add: on_overlay_def active_context_id_def)
    next
      case i: (Some i)
      obtain r w' ov' where f: "f (w, snd (overlays w ! i)) = (r, (w', ov'))" by (metis prod.exhaust)
      have q: "quiet w w'" using within_run [OF assms f] by (simp add: on_fst_def)
      then have o: "overlays w' = overlays w" by (simp add: quiet_def)
      have "frame w (w'\<lparr>overlays := (overlays w)[i := (c, ov')]\<rparr>)"
        using update_at_index [OF i, of ov'] Some
        by (intro frame_overlays [OF quiet_frame [OF q] o]) auto
      then show ?thesis using Some i f o
        by (simp add: on_overlay_def active_context_id_def Let_def split: outcome.splits)
    qed
  qed
qed

lemma frame_rollback: "frame w (overlay_rollback w)"
proof -
  have refl: "frame w w" by (rule preD(1) [OF pre_frame])
  show ?thesis
  proof (cases "\<exists>c i. active_context w = Some c \<and> overlay_index (overlays w) c = Some i")
    case True
    then obtain c i where c: "active_context w = Some c" "overlay_index (overlays w) c = Some i" by blast
    have "frame w (w\<lparr>overlays := swap_remove i (overlays w)\<rparr>)"
      using remove_at_index [OF c(2)] c(1) by (intro frame_overlays [OF refl]) auto
    then show ?thesis using c by (simp add: overlay_rollback_def)
  next
    case False
    then have "overlay_rollback w = w" by (auto simp: overlay_rollback_def split: option.splits)
    then show ?thesis using refl by simp
  qed
qed

lemma overlay_take_rollback: "snd (overlay_take w) = overlay_rollback w"
  by (auto simp: overlay_take_def overlay_rollback_def split: option.splits)

lemma within_overlay_begin [within_intros]: "within frame (overlay_begin n)"
  unfolding within_def
proof
  fix w
  have refl: "frame w w" by (rule preD(1) [OF pre_frame])
  show "frame w (snd (overlay_begin n w))"
  proof (cases "\<exists>c. active_context w = Some c \<and> overlay_index (overlays w) c = None")
    case True
    then obtain c where c: "active_context w = Some c" "overlay_index (overlays w) c = None" by blast
    have "frame w (w\<lparr>overlays := overlays w @ [(c, overlay_new n)]\<rparr>)"
      using c by (intro frame_overlays [OF refl]) (auto simp: overlay_index_None map_add_def split: option.splits)
    then show ?thesis using c by (simp add: overlay_begin_def active_context_id_def)
  next
    case False
    then have "snd (overlay_begin n w) = w"
      by (auto simp: overlay_begin_def active_context_id_def tryS_def split: option.splits)
    then show ?thesis using refl by simp
  qed
qed

lemma within_commit [within_intros]: "within frame (commit_overlay V ov adv)" "within quiet (ensure_current_layout V)"
proof -
  have p: "within quiet (write_pages_loop V b final ps)" for b final ps
  proof (induction ps)
    case (Cons x ps)
    show ?case
      by (cases x) (simp add: page_physical_offset_def within_pure within_tryS within_memory Cons)
  qed (simp add: within_pure)
  show "within quiet (ensure_current_layout V)"
    unfolding ensure_current_layout_def by (intro within_intros pre_quiet)
  have "within quiet (commit_overlay V ov adv)"
    unfolding commit_overlay_def commit_overlay_in_place_def Let_def by (intro within_intros p pre_quiet)
  then show "within frame (commit_overlay V ov adv)" by (rule within_frame)
qed

lemma within_commit_update [within_intros]: "within frame (commit_update V)"
  unfolding within_def
proof
  fix w :: "('h, 's, 'z) blob_world_scheme"
  obtain x u where t: "overlay_take w = (x, u)" by fastforce
  then have u: "frame w u" using frame_rollback overlay_take_rollback by (metis snd_conv)
  have "frame u (snd (commit_overlay V ov True u))" for ov by (rule withinD) (rule within_commit)
  then have "frame w (snd (commit_overlay V ov True u))" for ov using preD(2) [OF pre_frame u] by blast
  then show "frame w (snd (commit_update V w))"
    using t u by (auto simp: commit_update_def split: option.splits)
qed

section \<open>Every public operation\<close>

lemma within_direct:
  assumes "within (on_fst quiet) f"
    and "\<And>ov. within frame (k ov)"
  shows "within frame (\<lambda>w. case f (w, ov0) of (Ok _, (w', direct)) \<Rightarrow> k direct w'
    | (Err e, (w', _)) \<Rightarrow> (Err e, w') | (Panic, (w', _)) \<Rightarrow> (Panic, w'))"
  unfolding within_def
proof
  fix w
  obtain r w' ov' where f: "f (w, ov0) = (r, (w', ov'))" by (metis prod.exhaust)
  have "frame w w'" using within_run [OF assms(1) f] quiet_frame by (simp add: on_fst_def)
  moreover have "frame w' (snd (k ov' w'))" by (rule withinD [OF assms(2)])
  ultimately have "frame w (snd (k ov' w'))" "frame w w'" using preD(2) [OF pre_frame] by blast+
  then show "frame w (snd (case f (w, ov0) of (Ok _, (w', direct)) \<Rightarrow> k direct w'
    | (Err e, (w', _)) \<Rightarrow> (Err e, w') | (Panic, (w', _)) \<Rightarrow> (Panic, w')))"
    using f by (simp split: outcome.splits)
qed

lemma within_file_ops [within_intros]:
  "within frame (begin_update V)" "within frame (blob_read_at V off n)" "within frame (blob_write_at V off bs)"
  "within frame (blob_truncate V n)" "within frame (blob_file_size V)"
proof -
  show "within frame (begin_update V)" "within frame (blob_read_at V off n)"
    unfolding begin_update_def blob_read_at_def by (intro within_intros pre_frame)+
  have w: "within frame (\<lambda>w. case ov_write_at V off bs (w, ov0) of
               (Ok _, (w', direct)) \<Rightarrow> commit_overlay V direct False w'
             | (Err e, (w', _)) \<Rightarrow> (Err e, w') | (Panic, (w', _)) \<Rightarrow> (Panic, w'))" for ov0
    by (intro within_direct within_intros)
  show "within frame (blob_write_at V off bs)"
    unfolding blob_write_at_def by (intro within_intros w pre_frame)
  have t: "within frame (\<lambda>w. case ov_truncate V n (w, ov0) of
               (Ok _, (w', direct)) \<Rightarrow> if ov_is_empty direct then (Ok (), w') else commit_overlay V direct False w'
             | (Err e, (w', _)) \<Rightarrow> (Err e, w') | (Panic, (w', _)) \<Rightarrow> (Panic, w'))" for ov0
    by (intro within_direct [where k = "\<lambda>direct w'. if ov_is_empty direct then (Ok (), w') else commit_overlay V direct False w'"]
        within_intros pre_frame)
  show "within frame (blob_truncate V n)"
    unfolding blob_truncate_def by (intro within_intros t pre_frame)
  show "within frame (blob_file_size V)"
    unfolding blob_file_size_def [abs_def] by (intro within_intros pre_frame)
qed

lemma within_import [within_intros]:
  "within frame (export_chunk V off n)" "within frame (begin_import V n h)" "within frame (import_chunk V off bs)"
  "within frame (finish_import V)" "within frame (cancel_import V)" "within frame (checksum V)"
  "within frame (refresh_checksum V)" "within frame (refresh_checksum_chunk V mb)" "within frame (compact V)"
proof -
  have r: "within frame reject_during_update"
    by (simp add: within_def reject_during_update_def preD(1) [OF pre_frame])
  have a: "within quiet (append_base V)"
    unfolding append_base_def [abs_def] within_def
    by (simp add: ok_orS_def retS_def errS_def preD(1) [OF pre_quiet] split: option.splits)
  have c: "within quiet (checksum_logical_range V b n)" "within quiet (checksum_physical_range V base n)" for b n base
    unfolding checksum_logical_range_def checksum_physical_range_def by (intro within_intros pre_quiet)+
  show ck: "within frame (checksum V)" unfolding checksum_def by (intro within_intros r c pre_frame)
  show "within frame (export_chunk V off n)" "within frame (begin_import V n h)" "within frame (import_chunk V off bs)"
    "within frame (finish_import V)" "within frame (cancel_import V)" "within frame (refresh_checksum V)"
    "within frame (compact V)"
    unfolding export_chunk_def begin_import_def import_chunk_def finish_import_def cancel_import_def
      refresh_checksum_def compact_def clear_import_def import_offset_def
    by (intro within_intros r a c ck pre_frame)+
  have "within frame (refresh_checksum_chunk_fuel k V mb)" for k
  proof (induction k)
    case (Suc k)
    show ?case
      unfolding refresh_checksum_chunk_fuel.simps Let_def by (intro within_intros r Suc pre_frame)
  qed (simp add: within_pure)
  then show "within frame (refresh_checksum_chunk V mb)" by (simp add: refresh_checksum_chunk_def)
qed

end

end
