(* ===== verification/Memory_Manager_Inv.thy ===== *)
theory Memory_Manager_Inv
  imports Memory_Manager
begin

text \<open>
  The invariant of the MemoryManager, the address translation it induces, and its preservation
  by growing, reading and writing.  The proofs are about any backing memory that meets the
  contract \<open>byte_memory\<close>.
\<close>

section \<open>The invariant\<close>

definition layout_of :: "'m manager_inner \<Rightarrow> loaded_memory_manager" where
  "layout_of mm = \<lparr>lm_allocated_buckets = allocated_buckets mm,
     lm_bucket_size_in_pages = bucket_size_in_pages mm,
     lm_memory_sizes_in_pages = memory_sizes_in_pages mm, lm_memory_buckets = memory_buckets mm\<rparr>"

definition magic_ok :: "(nat \<Rightarrow> byte) \<Rightarrow> bool" where
  "magic_ok f \<longleftrightarrow> bytes_at f 0 3 = MGR_MAGIC \<and> f 3 = LAYOUT_VERSION"

definition mm_inv ::
    "'m memory_ops \<Rightarrow> ('m \<Rightarrow> bool) \<Rightarrow> ('m \<Rightarrow> nat \<Rightarrow> byte) \<Rightarrow> 'm manager_inner \<Rightarrow> bool" where
  "mm_inv M rinv rbyte mm \<longleftrightarrow>
     rinv (mm_memory mm) \<and> magic_ok (rbyte (mm_memory mm)) \<and>
     valid_layout (rbyte (mm_memory mm)) (mem_size M (mm_memory mm)) (layout_of mm)"

text \<open>The raw address of byte \<open>i\<close> of virtual memory \<open>k\<close>, and the byte stored there.\<close>

definition real_address :: "'m manager_inner \<Rightarrow> memory_id \<Rightarrow> nat \<Rightarrow> nat" where
  "real_address mm k i =
     bucket_address mm (memory_buckets mm ! k ! (i div bucket_size_in_bytes mm)) +
     i mod bucket_size_in_bytes mm"

definition capacity_bytes :: "'m manager_inner \<Rightarrow> memory_id \<Rightarrow> nat" where
  "capacity_bytes mm k = memory_size mm k * STABLE_PAGE_SIZE"

definition vm_byte :: "('m \<Rightarrow> nat \<Rightarrow> byte) \<Rightarrow> 'm virtual_mem \<Rightarrow> nat \<Rightarrow> byte" where
  "vm_byte rbyte v i =
    (if i < capacity_bytes (snd v) (vm_id (fst v))
     then rbyte (mm_memory (snd v)) (real_address (snd v) (vm_id (fst v)) i) else 0)"

definition cache_ok :: "'m manager_inner \<Rightarrow> memory_id \<Rightarrow> bucket_cache \<Rightarrow> bool" where
  "cache_ok mm k c \<longleftrightarrow> seg_length (cache_bucket c) = 0 \<or>
     (\<exists>j < length (memory_buckets mm ! k).
        cache_bucket c = \<lparr>seg_address = j * bucket_size_in_bytes mm,
                          seg_length = bucket_size_in_bytes mm\<rparr> \<and>
        cache_real_address c = bucket_address mm (memory_buckets mm ! k ! j))"

definition vm_inv ::
    "'m memory_ops \<Rightarrow> ('m \<Rightarrow> bool) \<Rightarrow> ('m \<Rightarrow> nat \<Rightarrow> byte) \<Rightarrow> 'm virtual_mem \<Rightarrow> bool" where
  "vm_inv M rinv rbyte v \<longleftrightarrow>
     mm_inv M rinv rbyte (snd v) \<and> vm_id (fst v) < MAX_NUM_MEMORIES \<and>
     cache_ok (snd v) (vm_id (fst v)) (vm_cache (fst v))"

lemma layout_of_sel [simp]:
  "lm_allocated_buckets (layout_of mm) = allocated_buckets mm"
  "lm_bucket_size_in_pages (layout_of mm) = bucket_size_in_pages mm"
  "lm_memory_sizes_in_pages (layout_of mm) = memory_sizes_in_pages mm"
  "lm_memory_buckets (layout_of mm) = memory_buckets mm"
  by (simp_all add: layout_of_def)

section \<open>The header page\<close>

lemma header_page: "HEADER_SIZE + MAX_NUM_BUCKETS \<le> STABLE_PAGE_SIZE"
  by (simp add: config_defs)

lemma header_bounds: "MAX_NUM_MEMORIES * 8 + 40 = HEADER_SIZE" "6 + 2 \<le> HEADER_SIZE"
  by (simp_all add: config_defs)

lemma first_page_cong:
  assumes "\<And>i. i < STABLE_PAGE_SIZE \<Longrightarrow> f i = g i"
  shows "magic_ok f = magic_ok g" "header_u16 f 4 = header_u16 g 4" "header_u16 f 6 = header_u16 g 6"
    "header_sizes f = header_sizes g" "b < MAX_NUM_BUCKETS \<Longrightarrow> table_owner f b = table_owner g b"
proof -
  have eq: "bytes_at f off n = bytes_at g off n" if "off + n \<le> STABLE_PAGE_SIZE" for off n
    using assms that by (intro bytes_at_cong) auto
  show "magic_ok f = magic_ok g"
    unfolding magic_ok_def using eq [of 0 3] assms [of 3] by (simp add: config_defs)
  show "header_u16 f 4 = header_u16 g 4" "header_u16 f 6 = header_u16 g 6"
    using eq [of 4 2] eq [of 6 2] by (simp_all add: header_u16_def config_defs)
  show "header_sizes f = header_sizes g"
    unfolding header_sizes_def
    by (rule map_cong) (auto intro!: arg_cong [where f = read_u64] eq simp: config_defs)
  show "b < MAX_NUM_BUCKETS \<Longrightarrow> table_owner f b = table_owner g b"
    using assms header_page by (simp add: table_owner_def)
qed

lemma owned_buckets_cong:
  "(\<And>b. b < n \<Longrightarrow> owner b = owner' b) \<Longrightarrow> owned_buckets owner n k = owned_buckets owner' n k"
  unfolding owned_buckets_def by (rule filter_cong) auto

lemma owned_buckets_props:
  "sorted (owned_buckets owner n k)" "distinct (owned_buckets owner n k)"
  "b \<in> set (owned_buckets owner n k) \<longleftrightarrow> b < n \<and> unat (owner b) = k"
  by (auto simp: owned_buckets_def sorted_wrt_filter)

lemma table_cong:
  assumes "\<And>b. b < MAX_NUM_BUCKETS \<Longrightarrow> table_owner f b = table_owner g b"
  shows "table_wf f n = table_wf g n" "n \<le> MAX_NUM_BUCKETS \<Longrightarrow> table_buckets f n = table_buckets g n"
  using assms
  by (auto simp: table_wf_def table_buckets_def intro!: owned_buckets_cong)

lemma valid_layout_cong:
  assumes "\<And>i. i < STABLE_PAGE_SIZE \<Longrightarrow> f i = g i" "p \<le> q" "valid_layout f p l"
  shows "valid_layout g q l"
  using assms(2,3) first_page_cong [OF assms(1)]
    table_cong(1) [of f g "lm_allocated_buckets l"] table_cong(2) [of f g "lm_allocated_buckets l"]
  unfolding valid_layout_def table_wf_def [of f] by auto

section \<open>Consequences of the invariant\<close>

lemma mm_invD:
  assumes "mm_inv M rinv rbyte mm"
  shows "rinv (mm_memory mm)"
    and "allocated_buckets mm \<le> MAX_NUM_BUCKETS"
    and "0 < bucket_size_in_pages mm" and "bucket_size_in_pages mm < 65536"
    and "length (memory_sizes_in_pages mm) = MAX_NUM_MEMORIES"
    and "length (memory_buckets mm) = MAX_NUM_MEMORIES"
    and "k < MAX_NUM_MEMORIES \<Longrightarrow> memory_buckets mm ! k =
      owned_buckets (table_owner (rbyte (mm_memory mm))) (allocated_buckets mm) k"
    and "k < MAX_NUM_MEMORIES \<Longrightarrow>
      length (memory_buckets mm ! k) = div_ceil (memory_size mm k) (bucket_size_in_pages mm)"
    and "k < MAX_NUM_MEMORIES \<Longrightarrow> capacity_bytes mm k \<le> u64_max"
    and "1 + bucket_size_in_pages mm * allocated_buckets mm \<le> mem_size M (mm_memory mm)"
    and "table_wf (rbyte (mm_memory mm)) (allocated_buckets mm)"
proof -
  let ?f = "rbyte (mm_memory mm)"
  from assms have v: "valid_layout ?f (mem_size M (mm_memory mm)) (layout_of mm)"
    and r: "rinv (mm_memory mm)" by (simp_all add: mm_inv_def)
  show "rinv (mm_memory mm)" by (rule r)
  show wf: "table_wf ?f (allocated_buckets mm)"
    using v unfolding valid_layout_def layout_of_sel by blast
  then show "allocated_buckets mm \<le> MAX_NUM_BUCKETS" by (simp add: table_wf_def)
  show "0 < bucket_size_in_pages mm" "bucket_size_in_pages mm < 65536"
    using v header_u16_bound [of ?f 6] by (simp_all add: valid_layout_def)
  have sizes: "memory_sizes_in_pages mm = header_sizes ?f" using v by (simp add: valid_layout_def)
  then show len: "length (memory_sizes_in_pages mm) = MAX_NUM_MEMORIES" by (simp add: header_sizes_def)
  have buckets: "memory_buckets mm = table_buckets ?f (allocated_buckets mm)"
    using v unfolding valid_layout_def layout_of_sel by blast
  then show "length (memory_buckets mm) = MAX_NUM_MEMORIES"
    "k < MAX_NUM_MEMORIES \<Longrightarrow> memory_buckets mm ! k =
      owned_buckets (table_owner ?f) (allocated_buckets mm) k"
    by (simp_all add: table_buckets_def)
  show "k < MAX_NUM_MEMORIES \<Longrightarrow>
      length (memory_buckets mm ! k) = div_ceil (memory_size mm k) (bucket_size_in_pages mm)"
    using v unfolding valid_layout_def layout_of_sel memory_size_def by blast
  have "\<forall>s \<in> set (memory_sizes_in_pages mm). s * STABLE_PAGE_SIZE \<le> u64_max"
    using v unfolding valid_layout_def layout_of_sel by blast
  then show "k < MAX_NUM_MEMORIES \<Longrightarrow> capacity_bytes mm k \<le> u64_max"
    using len by (simp add: capacity_bytes_def memory_size_def)
  show "1 + bucket_size_in_pages mm * allocated_buckets mm \<le> mem_size M (mm_memory mm)"
    using v unfolding valid_layout_def layout_of_sel BUCKETS_OFFSET_IN_PAGES_def by blast
qed

lemma mm_inv_sizes:
  assumes "mm_inv M rinv rbyte mm" "s \<in> set (memory_sizes_in_pages mm)"
  shows "s * STABLE_PAGE_SIZE \<le> u64_max" "s \<le> u64_max"
proof -
  show "s * STABLE_PAGE_SIZE \<le> u64_max"
    using assms unfolding mm_inv_def valid_layout_def layout_of_sel by blast
  then show "s \<le> u64_max" by (simp add: config_defs)
qed

lemma bucket_size_pos: "mm_inv M rinv rbyte mm \<Longrightarrow> 0 < bucket_size_in_bytes mm"
  using mm_invD(3) by (auto simp: bucket_size_in_bytes_def)

lemma capacity_in_buckets:
  assumes "mm_inv M rinv rbyte mm" "k < MAX_NUM_MEMORIES"
  shows "capacity_bytes mm k \<le> length (memory_buckets mm ! k) * bucket_size_in_bytes mm"
proof -
  have "memory_size mm k \<le> length (memory_buckets mm ! k) * bucket_size_in_pages mm"
    using mm_invD(3,8) [OF assms(1)] assms(2) by (simp add: div_ceil_covers)
  then have "memory_size mm k * STABLE_PAGE_SIZE \<le>
      length (memory_buckets mm ! k) * bucket_size_in_pages mm * STABLE_PAGE_SIZE"
    by (rule mult_le_mono1)
  then show ?thesis by (simp add: capacity_bytes_def bucket_size_in_bytes_def mult.assoc)
qed

lemma bucket_in_memory:
  assumes inv: "mm_inv M rinv rbyte mm" and k: "k < MAX_NUM_MEMORIES"
    and b: "b \<in> set (memory_buckets mm ! k)"
  shows "b < allocated_buckets mm" "unat (table_owner (rbyte (mm_memory mm)) b) = k"
    "STABLE_PAGE_SIZE \<le> bucket_address mm b"
    "bucket_address mm b + bucket_size_in_bytes mm \<le> mem_size M (mm_memory mm) * STABLE_PAGE_SIZE"
proof -
  show lt: "b < allocated_buckets mm"
    and "unat (table_owner (rbyte (mm_memory mm)) b) = k"
    using b mm_invD(7) [OF inv k] owned_buckets_props(3) by metis+
  show "STABLE_PAGE_SIZE \<le> bucket_address mm b"
    by (simp add: bucket_address_def config_defs)
  have "bucket_size_in_pages mm * (b + 1) \<le> bucket_size_in_pages mm * allocated_buckets mm"
    using lt by (intro mult_le_mono2) simp
  then have "1 + bucket_size_in_pages mm * (b + 1) \<le> mem_size M (mm_memory mm)"
    using mm_invD(10) [OF inv] by linarith
  then have "(1 + bucket_size_in_pages mm * (b + 1)) * STABLE_PAGE_SIZE \<le>
      mem_size M (mm_memory mm) * STABLE_PAGE_SIZE" by (rule mult_le_mono1)
  then show "bucket_address mm b + bucket_size_in_bytes mm \<le>
      mem_size M (mm_memory mm) * STABLE_PAGE_SIZE"
    by (simp add: bucket_address_def bucket_size_in_bytes_def BUCKETS_OFFSET_IN_BYTES_def
        BUCKETS_OFFSET_IN_PAGES_def algebra_simps)
qed

text \<open>The translation is injective across all virtual memories: no two virtual bytes share a
  raw byte, and none lies in the header page.\<close>

lemma bucket_index_less:
  assumes "mm_inv M rinv rbyte mm" "k < MAX_NUM_MEMORIES"
    "i < length (memory_buckets mm ! k) * bucket_size_in_bytes mm"
  shows "i div bucket_size_in_bytes mm < length (memory_buckets mm ! k)"
  using assms bucket_size_pos [OF assms(1)] by (simp add: less_mult_imp_div_less)

lemma real_address_bounds:
  assumes inv: "mm_inv M rinv rbyte mm" and k: "k < MAX_NUM_MEMORIES"
    and i: "i < length (memory_buckets mm ! k) * bucket_size_in_bytes mm"
  shows "STABLE_PAGE_SIZE \<le> real_address mm k i"
    "real_address mm k i < mem_size M (mm_memory mm) * STABLE_PAGE_SIZE"
proof -
  let ?b = "memory_buckets mm ! k ! (i div bucket_size_in_bytes mm)"
  have "?b \<in> set (memory_buckets mm ! k)"
    using bucket_index_less [OF assms] by (rule nth_mem)
  note b = bucket_in_memory [OF inv k this]
  have "i mod bucket_size_in_bytes mm < bucket_size_in_bytes mm"
    using bucket_size_pos [OF inv] by simp
  with b show "STABLE_PAGE_SIZE \<le> real_address mm k i"
    "real_address mm k i < mem_size M (mm_memory mm) * STABLE_PAGE_SIZE"
    by (simp_all add: real_address_def)
qed

lemma real_address_inj:
  assumes inv: "mm_inv M rinv rbyte mm" and k: "k < MAX_NUM_MEMORIES" "k' < MAX_NUM_MEMORIES"
    and i: "i < length (memory_buckets mm ! k) * bucket_size_in_bytes mm"
    and i': "i' < length (memory_buckets mm ! k') * bucket_size_in_bytes mm"
    and eq: "real_address mm k i = real_address mm k' i'"
  shows "k = k' \<and> i = i'"
proof -
  let ?B = "bucket_size_in_bytes mm"
  let ?b = "memory_buckets mm ! k ! (i div ?B)" and ?b' = "memory_buckets mm ! k' ! (i' div ?B)"
  have B: "0 < ?B" by (rule bucket_size_pos [OF inv])
  have sum: "?B * ?b + i mod ?B = ?B * ?b' + i' mod ?B"
    using eq by (simp add: real_address_def bucket_address_def)
  then have "(?B * ?b + i mod ?B) div ?B = (?B * ?b' + i' mod ?B) div ?B" by simp
  then have bb: "?b = ?b'" using B by simp
  with sum have r: "i mod ?B = i' mod ?B" by simp
  have m: "?b \<in> set (memory_buckets mm ! k)" "?b' \<in> set (memory_buckets mm ! k')"
    using bucket_index_less [OF inv k(1) i] bucket_index_less [OF inv k(2) i'] by (simp_all)
  from bucket_in_memory(2) [OF inv k(1) m(1)] bucket_in_memory(2) [OF inv k(2) m(2)] bb
  have kk: "k = k'" by simp
  have "distinct (memory_buckets mm ! k)"
    using mm_invD(7) [OF inv k(1)] owned_buckets_props(2) by simp
  then have "i div ?B = i' div ?B"
    using bb kk bucket_index_less [OF inv k(1) i] bucket_index_less [OF inv k(2) i']
    by (simp add: nth_eq_iff_index_eq)
  with r have "i = i'" by (metis div_mult_mod_eq)
  with kk show ?thesis by simp
qed

end
