(* ===== verification/Memory_Manager_IO.thy ===== *)
theory Memory_Manager_IO
  imports Memory_Manager_Inv
begin

text \<open>
  Reading and writing through the bucket loop and through the cache.  The loop visits the
  buckets that hold the range in order; a cache hit addresses the same raw bytes.
\<close>

section \<open>Segments\<close>

text \<open>Inside one bucket the translation is an offset, so the bytes of a segment are contiguous
  in the backing memory.\<close>

lemma real_address_in_bucket:
  assumes "j * bucket_size_in_bytes mm \<le> i" "i < Suc j * bucket_size_in_bytes mm"
  shows "real_address mm k i =
    bucket_address mm (memory_buckets mm ! k ! j) + (i - j * bucket_size_in_bytes mm)"
proof -
  have "i div bucket_size_in_bytes mm = j"
    using assms by (simp add: div_nat_eqI mult.commute)
  then show ?thesis by (simp add: real_address_def modulo_nat_def mult.commute)
qed

lemma segment_bytes:
  assumes "boff + n \<le> bucket_size_in_bytes mm"
  shows "bytes_at f (bucket_address mm (memory_buckets mm ! k ! j) + boff) n =
    bytes_at (\<lambda>i. f (real_address mm k i)) (j * bucket_size_in_bytes mm + boff) n"
proof (rule nth_equalityI)
  fix x assume "x < length (bytes_at f (bucket_address mm (memory_buckets mm ! k ! j) + boff) n)"
  then have "x < n" by simp
  with assms have "real_address mm k (j * bucket_size_in_bytes mm + boff + x) =
      bucket_address mm (memory_buckets mm ! k ! j) + (boff + x)"
    by (subst real_address_in_bucket [of j]) auto
  with \<open>x < n\<close> show "bytes_at f (bucket_address mm (memory_buckets mm ! k ! j) + boff) n ! x =
      bytes_at (\<lambda>i. f (real_address mm k i)) (j * bucket_size_in_bytes mm + boff) n ! x"
    by (simp add: add.assoc)
qed simp

text \<open>The cache left by a visit of bucket \<open>j\<close>.\<close>

lemma cache_ok_store:
  "j < length (memory_buckets mm ! k) \<Longrightarrow>
   cache_ok mm k (bucket_cache_store
     \<lparr>seg_address = j * bucket_size_in_bytes mm, seg_length = bucket_size_in_bytes mm\<rparr>
     (bucket_address mm (memory_buckets mm ! k ! j)) c)"
  by (auto simp: cache_ok_def bucket_cache_store_def)

lemma cache_hit:
  assumes inv: "mm_inv M rinv rbyte mm" and c: "cache_ok mm k c" and n: "0 < n"
    and hit: "bucket_cache_get c \<lparr>seg_address = off, seg_length = n\<rparr> = Some real"
  obtains j boff where "j < length (memory_buckets mm ! k)" "boff + n \<le> bucket_size_in_bytes mm"
    "off = j * bucket_size_in_bytes mm + boff"
    "real = bucket_address mm (memory_buckets mm ! k ! j) + boff"
proof -
  let ?B = "bucket_size_in_bytes mm"
  from hit have cont: "virtual_segment_contains (seg_address (cache_bucket c))
      (seg_length (cache_bucket c)) off n"
    and real: "real = cache_real_address c + (off - seg_address (cache_bucket c))"
    by (auto simp: bucket_cache_get_def segment_contains_def split: if_splits)
  have "seg_length (cache_bucket c) \<noteq> 0"
    using cont n by (auto simp: virtual_segment_contains_def split: if_splits)
  with c obtain j where j: "j < length (memory_buckets mm ! k)"
    "cache_bucket c = \<lparr>seg_address = j * ?B, seg_length = ?B\<rparr>"
    "cache_real_address c = bucket_address mm (memory_buckets mm ! k ! j)"
    by (auto simp: cache_ok_def)
  with cont have "j * ?B \<le> off" "off + n \<le> j * ?B + ?B"
    by (auto simp: virtual_segment_contains_def split: if_splits)
  with j real that [of j "off - j * ?B"] show ?thesis by auto
qed

section \<open>The bucket loop\<close>

text \<open>
  What a loop over the range \<open>[off, off + len)\<close> of memory \<open>k\<close> visits, as an induction rule: the
  step takes the part of the range in the current bucket.
\<close>

lemma for_each_bucket_induct:
  assumes inv: "mm_inv M rinv rbyte mm" and k: "k < MAX_NUM_MEMORIES"
    and range: "idx * bucket_size_in_bytes mm + boff + len \<le>
      length (memory_buckets mm ! k) * bucket_size_in_bytes mm"
    and boff: "boff < bucket_size_in_bytes mm"
    and start: "P (idx * bucket_size_in_bytes mm + boff) len s" and c: "cache_ok mm k c"
    and step: "\<And>j o' n l s. j < length (memory_buckets mm ! k) \<Longrightarrow> 0 < n \<Longrightarrow> n \<le> l \<Longrightarrow>
      o' + n \<le> bucket_size_in_bytes mm \<Longrightarrow> P (j * bucket_size_in_bytes mm + o') l s \<Longrightarrow>
      \<exists>s'. f (bucket_address mm (memory_buckets mm ! k ! j) + o') n s = Some s' \<and>
           P (j * bucket_size_in_bytes mm + o' + n) (l - n) s'"
  shows "\<exists>s' c'. for_each_bucket_loop mm (memory_buckets mm ! k) f idx boff len c s = Some (s', c')
    \<and> P (idx * bucket_size_in_bytes mm + boff + len) 0 s' \<and> cache_ok mm k c'"
  using range boff start c
proof (induction len arbitrary: idx boff s c rule: less_induct)
  case (less len)
  let ?B = "bucket_size_in_bytes mm" and ?bs = "memory_buckets mm ! k"
  show ?case
  proof (cases "len = 0")
    case True
    with less.prems show ?thesis by (simp add: for_each_bucket_loop.simps)
  next
    case False
    have idx: "idx < length ?bs"
    proof (rule ccontr)
      assume "\<not> idx < length ?bs"
      then have "length ?bs * ?B \<le> idx * ?B" by simp
      with less.prems(1) False show False by linarith
    qed
    let ?n = "min (?B - boff) len"
    have n: "0 < ?n" "?n \<le> len" "boff + ?n \<le> ?B" using False less.prems(2) by auto
    obtain s' where s': "f (bucket_address mm (?bs ! idx) + boff) ?n s = Some s'"
      "P (idx * ?B + boff + ?n) (len - ?n) s'"
      using step [OF idx n(1,2,3) less.prems(3)] by blast
    let ?c = "bucket_cache_store \<lparr>seg_address = idx * ?B, seg_length = ?B\<rparr>
      (bucket_address mm (?bs ! idx)) c"
    have unfold: "for_each_bucket_loop mm ?bs f idx boff len c s =
        for_each_bucket_loop mm ?bs f (Suc idx) 0 (len - ?n) ?c s'"
      using False idx s'(1)
      by (subst for_each_bucket_loop.simps) (simp add: Let_def)
    show ?thesis
    proof (cases "len \<le> ?B - boff")
      case True
      then have "?n = len" by simp
      with unfold s'(2) cache_ok_store [OF idx] show ?thesis
        by (simp add: for_each_bucket_loop.simps)
    next
      case False
      then have eq: "idx * ?B + boff + ?n = Suc idx * ?B + 0" "?n = ?B - boff"
        using less.prems(2) by auto
      have "\<exists>s'' c'. for_each_bucket_loop mm ?bs f (Suc idx) 0 (len - ?n) ?c s' = Some (s'', c')
        \<and> P (Suc idx * ?B + 0 + (len - ?n)) 0 s'' \<and> cache_ok mm k c'"
      proof (rule less.IH)
        show "len - ?n < len" using n by linarith
        show "Suc idx * ?B + 0 + (len - ?n) \<le> length ?bs * ?B"
          using less.prems(1) eq n by linarith
        show "0 < ?B" by (rule bucket_size_pos [OF inv])
        show "P (Suc idx * ?B + 0) (len - ?n) s'" using s'(2) unfolding eq(1) .
      qed (rule cache_ok_store [OF idx])
      moreover have "Suc idx * ?B + 0 + (len - ?n) = idx * ?B + boff + len" using eq n by linarith
      ultimately show ?thesis unfolding unfold by (simp only:)
    qed
  qed
qed

section \<open>Reads and writes of the manager\<close>

lemma assert_bounds_iff:
  assumes "mm_inv M rinv rbyte mm" "k < MAX_NUM_MEMORIES"
  shows "assert_bounds mm k off n \<longleftrightarrow> off + n \<le> capacity_bytes mm k"
  using mm_invD(9) [OF assms]
  by (auto simp: assert_bounds_def capacity_bytes_def split: option.splits)

text \<open>A state whose backing memory differs only outside the header page keeps the invariant.\<close>

lemma layout_of_memory_update [simp]: "layout_of (mm\<lparr>mm_memory := m\<rparr>) = layout_of mm"
  by (simp add: layout_of_def)

lemma mm_inv_memory_update:
  assumes "mm_inv M rinv rbyte mm" "rinv m" "mem_size M m = mem_size M (mm_memory mm)"
    "\<And>i. i < STABLE_PAGE_SIZE \<Longrightarrow> rbyte m i = rbyte (mm_memory mm) i"
  shows "mm_inv M rinv rbyte (mm\<lparr>mm_memory := m\<rparr>)"
  using assms valid_layout_cong [of "rbyte (mm_memory mm)" "rbyte m" "mem_size M (mm_memory mm)"
      "mem_size M m" "layout_of mm"]
    first_page_cong(1) [of "rbyte (mm_memory mm)" "rbyte m"]
  by (simp add: mm_inv_def)

lemma translation_memory_update [simp]:
  "real_address (mm\<lparr>mm_memory := m\<rparr>) k i = real_address mm k i"
  "capacity_bytes (mm\<lparr>mm_memory := m\<rparr>) k = capacity_bytes mm k"
  "memory_size (mm\<lparr>mm_memory := m\<rparr>) k = memory_size mm k"
  "cache_ok (mm\<lparr>mm_memory := m\<rparr>) k c = cache_ok mm k c"
  by (simp_all add: real_address_def capacity_bytes_def memory_size_def cache_ok_def
      bucket_address_def bucket_size_in_bytes_def)

definition stored_upto :: "('m \<Rightarrow> nat \<Rightarrow> byte) \<Rightarrow> 'm manager_inner \<Rightarrow> memory_id \<Rightarrow> nat \<Rightarrow>
    byte list \<Rightarrow> nat \<Rightarrow> 'm \<Rightarrow> bool" where
  "stored_upto rbyte mm k off src o' m \<longleftrightarrow>
    (\<forall>i. off \<le> i \<longrightarrow> i < o' \<longrightarrow> rbyte m (real_address mm k i) = src ! (i - off)) \<and>
    (\<forall>a. (\<forall>i. off \<le> i \<longrightarrow> i < o' \<longrightarrow> a \<noteq> real_address mm k i) \<longrightarrow>
       rbyte m a = rbyte (mm_memory mm) a)"

context byte_memory
begin

abbreviation minv :: "'v manager_inner \<Rightarrow> bool" where
  "minv \<equiv> mm_inv M inv byte_of"

lemma bucket_segment_in_bounds:
  assumes "minv mm" "k < MAX_NUM_MEMORIES" "j < length (memory_buckets mm ! k)"
    "o' + n \<le> bucket_size_in_bytes mm"
  shows "bucket_address mm (memory_buckets mm ! k ! j) + o' + n \<le>
    mem_size M (mm_memory mm) * STABLE_PAGE_SIZE"
  using bucket_in_memory(4) [OF assms(1,2) nth_mem [OF assms(3)]] assms(4) by linarith

lemma mm_read_ok:
  assumes mm: "minv mm" and k: "k < MAX_NUM_MEMORIES" and c: "cache_ok mm k c"
    and le: "off + n \<le> capacity_bytes mm k"
  obtains m c' where "mm_read M mm k off n c =
      Some (bytes_at (\<lambda>i. byte_of (mm_memory mm) (real_address mm k i)) off n, mm\<lparr>mm_memory := m\<rparr>, c')"
    "inv m" "mem_size M m = mem_size M (mm_memory mm)" "byte_of m = byte_of (mm_memory mm)"
    "cache_ok mm k c'"
proof -
  let ?B = "bucket_size_in_bytes mm" and ?bs = "memory_buckets mm ! k"
  let ?f = "byte_of (mm_memory mm)" and ?S = "mem_size M (mm_memory mm)"
  let ?g = "\<lambda>i. ?f (real_address mm k i)"
  have m: "inv (mm_memory mm)" by (rule mm_invD(1) [OF mm])
  have B: "0 < ?B" by (rule bucket_size_pos [OF mm])
  have bounds: "assert_bounds mm k off n" using le by (simp add: assert_bounds_iff [OF mm k])
  show ?thesis
  proof (cases "n = 0")
    case True
    then show ?thesis using that [of "mm_memory mm" c] c m by (simp add: mm_read_def)
  next
    case n: False
    show ?thesis
    proof (cases "bucket_cache_get c \<lparr>seg_address = off, seg_length = n\<rparr>")
      case (Some real)
      obtain j boff where j: "j < length ?bs" "boff + n \<le> ?B" "off = j * ?B + boff"
        "real = bucket_address mm (?bs ! j) + boff"
        using cache_hit [OF mm c _ Some] n by blast
      have "real + n \<le> ?S * STABLE_PAGE_SIZE"
        using bucket_segment_in_bounds [OF mm k j(1,2)] j(4) by simp
      then obtain m' where m': "mem_read M (mm_memory mm) real n = Some (bytes_at ?f real n, m')"
        "inv m'" "mem_size M m' = ?S" "byte_of m' = ?f"
        using read_Some [OF m] by blast
      have "bytes_at ?f real n = bytes_at ?g off n" unfolding j(3,4) by (rule segment_bytes [OF j(2)])
      then have "mm_read M mm k off n c = Some (bytes_at ?g off n, mm\<lparr>mm_memory := m'\<rparr>, c)"
        using n bounds Some m'(1) by (simp add: mm_read_def)
      then show ?thesis using m'(2-4) c by (rule that)
    next
      case None
      define P where "P = (\<lambda>o' (l :: nat) (s :: byte list \<times> 'v). inv (snd s) \<and> mem_size M (snd s) = ?S \<and>
        byte_of (snd s) = ?f \<and> off \<le> o' \<and> fst s = bytes_at ?g off (o' - off))"
      have "\<exists>s' c'. for_each_bucket_loop mm ?bs (read_segment M) (off div ?B) (off mod ?B) n c
          ([], mm_memory mm) = Some (s', c') \<and> P (off div ?B * ?B + off mod ?B + n) 0 s' \<and> cache_ok mm k c'"
      proof (rule for_each_bucket_induct [OF mm k, where P = P])
        show "off div ?B * ?B + off mod ?B + n \<le> length ?bs * ?B"
          using le capacity_in_buckets [OF mm k] by simp
        show "off mod ?B < ?B" using B by simp
        show "P (off div ?B * ?B + off mod ?B) n ([], mm_memory mm)" by (simp add: P_def m)
        show "cache_ok mm k c" by (rule c)
      next
        fix j o' x l and s :: "byte list \<times> 'v"
        assume j: "j < length ?bs" "0 < x" "x \<le> l" "o' + x \<le> ?B" and P: "P (j * ?B + o') l s"
        from P have s: "inv (snd s)" "mem_size M (snd s) = ?S" "byte_of (snd s) = ?f"
          "off \<le> j * ?B + o'" "fst s = bytes_at ?g off (j * ?B + o' - off)"
          by (simp_all add: P_def)
        obtain m' where r: "mem_read M (snd s) (bucket_address mm (?bs ! j) + o') x =
            Some (bytes_at ?f (bucket_address mm (?bs ! j) + o') x, m')"
          "inv m'" "mem_size M m' = ?S" "byte_of m' = ?f"
          using read_Some [OF s(1), of "bucket_address mm (?bs ! j) + o'" x] s
            bucket_segment_in_bounds [OF mm k j(1,4)] by auto
        have "fst s @ bytes_at ?f (bucket_address mm (?bs ! j) + o') x =
            bytes_at ?g off (j * ?B + o' + x - off)"
          unfolding segment_bytes [OF j(4), of ?f k j]
          using bytes_at_append [of ?g off "j * ?B + o' - off" x] s(4,5) by simp
        with r s(4) show "\<exists>s'. read_segment M (bucket_address mm (?bs ! j) + o') x s = Some s' \<and>
            P (j * ?B + o' + x) (l - x) s'"
          by (simp add: read_segment_def P_def)
      qed
      then show ?thesis
        using that n bounds None by (auto simp: mm_read_def for_each_bucket_def P_def)
    qed
  qed
qed

text \<open>
  A write stores the bytes at the translated addresses and touches no other byte of the
  backing memory: \<open>stored_upto\<close> says so of the part of the range below \<open>o'\<close>.
\<close>

lemma write_segment_stored:
  assumes mm: "minv mm" and k: "k < MAX_NUM_MEMORIES"
    and cap: "off + length src \<le> capacity_bytes mm k"
    and j: "j < length (memory_buckets mm ! k)" "o' + x \<le> bucket_size_in_bytes mm"
    and lo: "off \<le> j * bucket_size_in_bytes mm + o'"
    and hi: "j * bucket_size_in_bytes mm + o' + x \<le> off + length src"
    and m: "inv m" "mem_size M m = mem_size M (mm_memory mm)"
    and st: "stored_upto byte_of mm k off src (j * bucket_size_in_bytes mm + o') m"
  obtains m' where
    "mem_write M m (bucket_address mm (memory_buckets mm ! k ! j) + o')
       (slice src (j * bucket_size_in_bytes mm + o' - off) x) = Some m'"
    "inv m'" "mem_size M m' = mem_size M (mm_memory mm)"
    "stored_upto byte_of mm k off src (j * bucket_size_in_bytes mm + o' + x) m'"
proof -
  let ?B = "bucket_size_in_bytes mm" and ?ra = "real_address mm k"
  let ?o = "j * ?B + o'" and ?real = "bucket_address mm (memory_buckets mm ! k ! j) + o'"
  let ?seg = "slice src (?o - off) x"
  have len: "length ?seg = x" using lo hi by (intro length_slice) linarith
  have ra: "?ra i = ?real + (i - ?o)" if "?o \<le> i" "i < ?o + x" for i
    using real_address_in_bucket [of j mm i k] that j(2) by simp
  have inj: "i = i'" if "?ra i = ?ra i'" "i < off + length src" "i' < off + length src" for i i'
    using real_address_inj [OF mm k k _ _ that(1)] that(2,3) cap capacity_in_buckets [OF mm k] by auto
  have "?real + length ?seg \<le> mem_size M m * STABLE_PAGE_SIZE"
    using bucket_segment_in_bounds [OF mm k j(1,2)] m(2) len by simp
  then obtain m' where w: "mem_write M m ?real ?seg = Some m'" "inv m'"
    "mem_size M m' = mem_size M m" "byte_of m' = blit (byte_of m) ?real ?seg"
    using write_Some [OF m(1)] by blast
  have same: "byte_of m' a = byte_of m a" if "\<And>y. y < x \<Longrightarrow> a \<noteq> ?real + y" for a
    unfolding w(4) by (rule blit_other) (use that len in auto)
  have "byte_of m' (?ra i) = src ! (i - off)" if i: "off \<le> i" "i < ?o + x" for i
  proof (cases "?o \<le> i")
    case True
    then have "byte_of m' (?ra i) = ?seg ! (i - ?o)"
      using w(4) ra [OF True i(2)] i len by (simp add: blit_in)
    also have "\<dots> = src ! (i - off)" using True lo hi i by (subst nth_slice) auto
    finally show ?thesis .
  next
    case False
    then have "?ra i \<noteq> ?real + y" if "y < x" for y
      using ra [of "?o + y"] inj [of i "?o + y"] that hi i by auto
    then show ?thesis using same st False i by (simp add: stored_upto_def)
  qed
  moreover have "byte_of m' a = byte_of (mm_memory mm) a"
    if a: "\<And>i. off \<le> i \<Longrightarrow> i < ?o + x \<Longrightarrow> a \<noteq> ?ra i" for a
  proof -
    have "a \<noteq> ?real + y" if "y < x" for y
      using a [of "?o + y"] ra [of "?o + y"] that lo by auto
    moreover have "byte_of m a = byte_of (mm_memory mm) a" using st a by (simp add: stored_upto_def)
    ultimately show ?thesis using same by metis
  qed
  ultimately show ?thesis using that [OF w(1,2)] w(3) m(2) by (simp add: stored_upto_def)
qed

lemma mm_write_ok:
  assumes mm: "minv mm" and k: "k < MAX_NUM_MEMORIES" and c: "cache_ok mm k c"
    and le: "off + length src \<le> capacity_bytes mm k"
  obtains m c' where "mm_write M mm k off src c = Some (mm\<lparr>mm_memory := m\<rparr>, c')"
    "inv m" "mem_size M m = mem_size M (mm_memory mm)" "cache_ok mm k c'"
    "stored_upto byte_of mm k off src (off + length src) m"
proof -
  let ?B = "bucket_size_in_bytes mm" and ?bs = "memory_buckets mm ! k"
  let ?S = "mem_size M (mm_memory mm)" and ?st = "stored_upto byte_of mm k off src"
  have m: "inv (mm_memory mm)" by (rule mm_invD(1) [OF mm])
  have bounds: "assert_bounds mm k off (length src)"
    using le by (simp add: assert_bounds_iff [OF mm k])
  have start: "?st off (mm_memory mm)" by (simp add: stored_upto_def)
  note segment = write_segment_stored [OF mm k le]
  consider "src = []" | real where "src \<noteq> []"
      "bucket_cache_get c \<lparr>seg_address = off, seg_length = length src\<rparr> = Some real"
    | "src \<noteq> []" "bucket_cache_get c \<lparr>seg_address = off, seg_length = length src\<rparr> = None"
    by fastforce
  then show ?thesis
  proof cases
    case 1
    then show ?thesis using that [of "mm_memory mm" c] start c m by (simp add: mm_write_def)
  next
    case (2 real)
    obtain j boff where j: "j < length ?bs" "boff + length src \<le> ?B" "off = j * ?B + boff"
      "real = bucket_address mm (?bs ! j) + boff"
      using cache_hit [OF mm c _ 2(2)] 2(1) by blast
    obtain m' where "mem_write M (mm_memory mm) real (slice src (j * ?B + boff - off) (length src)) = Some m'"
      "inv m'" "mem_size M m' = ?S" "?st (j * ?B + boff + length src) m'"
      using segment [OF j(1,2) _ _ m] start unfolding j(3,4) by auto
    then show ?thesis
      using that [of m' c] 2 bounds c j(3) by (simp add: mm_write_def slice_exact)
  next
    case 3
    define P where "P = (\<lambda>o' (l :: nat) (s :: nat \<times> 'v). ?st o' (snd s) \<and> inv (snd s) \<and>
      mem_size M (snd s) = ?S \<and> off \<le> o' \<and> fst s = o' - off \<and> o' + l = off + length src)"
    have "\<exists>s' c'. for_each_bucket_loop mm ?bs (write_segment M src) (off div ?B) (off mod ?B)
        (length src) c (0, mm_memory mm) = Some (s', c') \<and>
        P (off div ?B * ?B + off mod ?B + length src) 0 s' \<and> cache_ok mm k c'"
    proof (rule for_each_bucket_induct [OF mm k, where P = P])
      show "off div ?B * ?B + off mod ?B + length src \<le> length ?bs * ?B"
        using le capacity_in_buckets [OF mm k] by simp
      show "off mod ?B < ?B" using bucket_size_pos [OF mm] by simp
      show "P (off div ?B * ?B + off mod ?B) (length src) (0, mm_memory mm)"
        using start m by (simp add: P_def)
    next
      fix j o' x l and s :: "nat \<times> 'v"
      assume j: "j < length ?bs" "0 < x" "x \<le> l" "o' + x \<le> ?B" and P: "P (j * ?B + o') l s"
      with segment [OF j(1,4), of "snd s"] obtain m'' where
        "mem_write M (snd s) (bucket_address mm (?bs ! j) + o') (slice src (fst s) x) = Some m''"
        "inv m''" "mem_size M m'' = ?S" "?st (j * ?B + o' + x) m''"
        by (auto simp: P_def)
      with P j show "\<exists>s'. write_segment M src (bucket_address mm (?bs ! j) + o') x s = Some s' \<and>
          P (j * ?B + o' + x) (l - x) s'"
        by (auto simp: write_segment_def P_def)
    qed (rule c)
    then show ?thesis
      using that 3 bounds by (auto simp: mm_write_def for_each_bucket_def P_def)
  qed
qed

end

end
