(* ===== verification/Memory_Manager_Grow.thy ===== *)
theory Memory_Manager_Grow
  imports Memory_Manager_IO
begin

text \<open>
  Creating, growing and reloading a manager.  \<open>save_header\<close> makes the image agree with the heap
  state, the allocation loop extends the table and the owner's bucket list in step, and loading
  a valid image gives the state back.
\<close>

section \<open>The encoded header\<close>

lemma length_encode_header:
  "length (memory_sizes_in_pages mm) = MAX_NUM_MEMORIES \<Longrightarrow> length (encode_header mm) = HEADER_SIZE"
  by (simp add: encode_header_def config_defs length_concat_map [where w = 8])

lemma encode_header_fields:
  assumes len: "length (memory_sizes_in_pages mm) = MAX_NUM_MEMORIES"
  shows "slice (encode_header mm) 0 3 = MGR_MAGIC" "encode_header mm ! 3 = LAYOUT_VERSION"
    "slice (encode_header mm) 4 2 = le_bytes 2 (allocated_buckets mm)"
    "slice (encode_header mm) 6 2 = le_bytes 2 (bucket_size_in_pages mm)"
    "i < MAX_NUM_MEMORIES \<Longrightarrow>
      slice (encode_header mm) (40 + 8 * i) 8 = le_bytes 8 (memory_sizes_in_pages mm ! i)"
proof -
  let ?tail = "concat (map (le_bytes 8) (memory_sizes_in_pages mm))"
  show "slice (encode_header mm) 0 3 = MGR_MAGIC" "encode_header mm ! 3 = LAYOUT_VERSION"
    by (simp_all add: encode_header_def slice_def MGR_MAGIC_def)
  show "slice (encode_header mm) 4 2 = le_bytes 2 (allocated_buckets mm)"
    "slice (encode_header mm) 6 2 = le_bytes 2 (bucket_size_in_pages mm)"
    by (simp_all add: encode_header_def slice_def MGR_MAGIC_def)
  show "slice (encode_header mm) (40 + 8 * i) 8 = le_bytes 8 (memory_sizes_in_pages mm ! i)"
    if "i < MAX_NUM_MEMORIES"
  proof -
    let ?pre = "MGR_MAGIC @ [LAYOUT_VERSION] @ le_bytes 2 (allocated_buckets mm) @
      le_bytes 2 (bucket_size_in_pages mm) @ replicate HEADER_RESERVED_BYTES 0"
    have "encode_header mm = ?pre @ ?tail" by (simp add: encode_header_def)
    moreover have "length ?pre = 40" by (simp add: config_defs)
    ultimately have "slice (encode_header mm) (40 + 8 * i) 8 = slice ?tail (i * 8) 8"
      using slice_append_right [of ?pre "40 + 8 * i" ?tail 8] by (simp add: mult.commute)
    with that len show ?thesis by (simp add: slice_concat_map)
  qed
qed

text \<open>A header written over a memory decodes to the state it was built from.\<close>

definition storable :: "'m manager_inner \<Rightarrow> bool" where
  "storable mm \<longleftrightarrow> length (memory_sizes_in_pages mm) = MAX_NUM_MEMORIES \<and>
     allocated_buckets mm < 65536 \<and> bucket_size_in_pages mm < 65536 \<and>
     (\<forall>s \<in> set (memory_sizes_in_pages mm). s \<le> u64_max)"

lemma blit_header:
  fixes f :: "nat \<Rightarrow> byte"
  assumes "storable mm"
  defines "g \<equiv> blit f 0 (encode_header mm)"
  shows "magic_ok g" "header_u16 g 4 = allocated_buckets mm" "header_u16 g 6 = bucket_size_in_pages mm"
    "header_sizes g = memory_sizes_in_pages mm" "table_owner g = table_owner f"
proof -
  from assms have len: "length (memory_sizes_in_pages mm) = MAX_NUM_MEMORIES"
    and le: "\<And>i. i < MAX_NUM_MEMORIES \<Longrightarrow> memory_sizes_in_pages mm ! i \<le> u64_max"
    by (auto simp: storable_def)
  note h = length_encode_header [OF len] encode_header_fields [OF len]
  have sl: "bytes_at g off n = slice (encode_header mm) off n" if "off + n \<le> HEADER_SIZE" for off n
    using that h(1) bytes_at_blit_slice [of 0 off n "encode_header mm" f] by (simp add: g_def)
  have "g 3 = encode_header mm ! 3" using h(1) by (simp add: g_def blit_def config_defs)
  then show "magic_ok g" using h sl [of 0 3] by (simp add: magic_ok_def config_defs)
  show "header_u16 g 4 = allocated_buckets mm" "header_u16 g 6 = bucket_size_in_pages mm"
    using h assms(1) sl [of 4 2] sl [of 6 2] by (simp_all add: header_u16_def storable_def config_defs)
  show "header_sizes g = memory_sizes_in_pages mm"
  proof (rule nth_equalityI)
    fix i assume "i < length (header_sizes g)"
    then have i: "i < MAX_NUM_MEMORIES" by (simp add: header_sizes_def)
    then have "40 + 8 * i + 8 \<le> HEADER_SIZE" by (simp add: config_defs)
    with i h le show "header_sizes g ! i = memory_sizes_in_pages mm ! i"
      by (simp add: header_sizes_def sl read_u64_def)
  qed (simp add: header_sizes_def len)
  show "table_owner g = table_owner f"
    using h(1) by (simp add: table_owner_def fun_eq_iff g_def blit_def)
qed

section \<open>The allocation table\<close>

lemma owned_buckets_extend:
  assumes "\<And>b. b < a \<Longrightarrow> owner' b = owner b" "\<And>b. a \<le> b \<Longrightarrow> b < a + n \<Longrightarrow> unat (owner' b) = k"
  shows "owned_buckets owner' (a + n) i = owned_buckets owner a i @ (if i = k then [a..<a + n] else [])"
proof -
  have "[0..<a + n] = [0..<a] @ [a..<a + n]" by (rule upt_add_eq_append) simp
  moreover have "[b \<leftarrow> [a..<a + n]. unat (owner' b) = i] = (if i = k then [a..<a + n] else [])"
    using assms(2) by (auto simp: filter_id_conv filter_empty_conv)
  moreover have "[b \<leftarrow> [0..<a]. unat (owner' b) = i] = [b \<leftarrow> [0..<a]. unat (owner b) = i]"
    by (rule filter_cong) (use assms(1) in auto)
  ultimately show ?thesis by (simp add: owned_buckets_def)
qed

lemma unat_memory_id: "k < MAX_NUM_MEMORIES \<Longrightarrow> unat (of_nat k :: byte) = k"
  by (simp add: unat_of_nat config_defs)

lemma unat_marker: "unat (of_nat UNALLOCATED_BUCKET_MARKER :: byte) = UNALLOCATED_BUCKET_MARKER"
  by (simp add: unat_of_nat config_defs)

context byte_memory
begin

lemma save_header_ok:
  assumes m: "inv (mm_memory mm)" "1 \<le> mem_size M (mm_memory mm)" and st: "storable mm"
  obtains m' where "save_header M mm = Some (mm\<lparr>mm_memory := m'\<rparr>)" "inv m'"
    "mem_size M m' = mem_size M (mm_memory mm)"
    "byte_of m' = blit (byte_of (mm_memory mm)) 0 (encode_header mm)"
proof -
  have "length (encode_header mm) = HEADER_SIZE"
    using st by (intro length_encode_header) (simp add: storable_def)
  then have "0 + length (encode_header mm) \<le> mem_size M (mm_memory mm) * STABLE_PAGE_SIZE"
    using m(2) header_page by (simp add: config_defs)
  from write_growing_in_bounds [OF m(1) this] that show ?thesis by (fastforce simp: save_header_def)
qed

lemma allocate_buckets_ok:
  assumes "inv (mm_memory mm)" "1 \<le> mem_size M (mm_memory mm)"
    "allocated_buckets mm + n \<le> MAX_NUM_BUCKETS" "k < length (memory_buckets mm)"
  obtains m where "allocate_buckets M k n mm = Some (mm\<lparr>mm_memory := m,
       allocated_buckets := allocated_buckets mm + n,
       memory_buckets := (memory_buckets mm)[k := memory_buckets mm ! k @
         [allocated_buckets mm..<allocated_buckets mm + n]]\<rparr>)"
    "inv m" "mem_size M m = mem_size M (mm_memory mm)"
    "byte_of m = blit (byte_of (mm_memory mm)) (HEADER_SIZE + allocated_buckets mm)
       (replicate n (of_nat k))"
  using assms
proof (induction n arbitrary: mm thesis)
  case 0
  then show ?case by (cases mm) simp
next
  case (Suc n)
  let ?a = "allocated_buckets mm"
  have "bucket_allocations_address ?a + length [of_nat k :: byte] \<le>
      mem_size M (mm_memory mm) * STABLE_PAGE_SIZE"
    using Suc.prems(3,4) header_page by (simp add: bucket_allocations_address_def config_defs)
  then obtain m where w: "write_growing M (mm_memory mm) (bucket_allocations_address ?a) [of_nat k] = Some m"
    "inv m" "mem_size M m = mem_size M (mm_memory mm)"
    "byte_of m = blit (byte_of (mm_memory mm)) (bucket_allocations_address ?a) [of_nat k]"
    using write_growing_in_bounds [OF Suc.prems(2)] by blast
  let ?mm = "mm\<lparr>mm_memory := m, allocated_buckets := ?a + 1,
      memory_buckets := (memory_buckets mm)[k := memory_buckets mm ! k @ [?a]]\<rparr>"
  have step: "allocate_buckets M k (Suc n) mm = allocate_buckets M k n ?mm"
    using w(1) Suc.prems(4) by (simp add: Let_def config_defs)
  obtain m' where m': "allocate_buckets M k n ?mm = Some (?mm\<lparr>mm_memory := m',
       allocated_buckets := ?a + 1 + n,
       memory_buckets := (memory_buckets ?mm)[k := memory_buckets ?mm ! k @ [?a + 1..<?a + 1 + n]]\<rparr>)"
    "inv m'" "mem_size M m' = mem_size M m"
    "byte_of m' = blit (byte_of m) (HEADER_SIZE + (?a + 1)) (replicate n (of_nat k))"
    using Suc.IH [of ?mm] w Suc.prems(3-5) by auto
  have list: "memory_buckets mm ! k @ [?a] @ [Suc ?a..<Suc (?a + n)] =
      memory_buckets mm ! k @ [?a..<Suc (?a + n)]"
    by (simp add: upt_conv_Cons del: upt_Suc)
  have bytes: "byte_of m' = blit (byte_of (mm_memory mm)) (HEADER_SIZE + ?a) (replicate (Suc n) (of_nat k))"
    using blit_append [of "byte_of (mm_memory mm)" "HEADER_SIZE + ?a" "[of_nat k]" "replicate n (of_nat k)"]
    by (simp add: m'(4) w(4) bucket_allocations_address_def)
  show ?case
    using Suc.prems(1) [of m'] step m' w(3) bytes list Suc.prems(5)
    by (simp add: nth_list_update del: upt_Suc allocate_buckets.simps)
qed

text \<open>
  The state after a successful grow of memory \<open>k\<close> by \<open>n\<close> buckets satisfies the invariant,
  whatever backing memory holds its header and its table.
\<close>

lemma grown_manager_inv:
  assumes mm: "minv mm" and k: "k < MAX_NUM_MEMORIES" and m: "inv m"
    and n: "n = num_buckets_needed mm new - num_buckets_needed mm (memory_size mm k)"
    and new: "memory_size mm k \<le> new" and lim: "allocated_buckets mm + n \<le> MAX_NUM_BUCKETS"
    and pages: "1 + bucket_size_in_pages mm * (allocated_buckets mm + n) \<le> mem_size M m"
    and hdr: "magic_ok (byte_of m)" "header_u16 (byte_of m) 4 = allocated_buckets mm + n"
      "header_u16 (byte_of m) 6 = bucket_size_in_pages mm"
      "header_sizes (byte_of m) = (memory_sizes_in_pages mm)[k := new]"
    and tab: "\<And>b. b < MAX_NUM_BUCKETS \<Longrightarrow> table_owner (byte_of m) b =
      (if allocated_buckets mm \<le> b \<and> b < allocated_buckets mm + n then of_nat k
       else table_owner (byte_of (mm_memory mm)) b)"
  shows "minv (mm\<lparr>mm_memory := m, allocated_buckets := allocated_buckets mm + n,
      memory_sizes_in_pages := (memory_sizes_in_pages mm)[k := new],
      memory_buckets := (memory_buckets mm)[k := memory_buckets mm ! k @
        [allocated_buckets mm..<allocated_buckets mm + n]]\<rparr>)" (is "minv ?mm")
proof -
  let ?a = "allocated_buckets mm" and ?bs = "bucket_size_in_pages mm" and ?f = "byte_of m"
  let ?bk = "(memory_buckets mm)[k := memory_buckets mm ! k @ [?a..<?a + n]]"
  note inv = mm_invD [OF mm]
  have owned: "owned_buckets (table_owner ?f) (?a + n) i = ?bk ! i" if "i < MAX_NUM_MEMORIES" for i
    using owned_buckets_extend [of ?a "table_owner ?f" "table_owner (byte_of (mm_memory mm))" n k i]
      that inv(6,7) tab lim k unat_memory_id [OF k] by (auto simp: nth_list_update)
  have wf: "table_wf ?f (?a + n)"
    using inv(11) tab lim k unat_memory_id [OF k]
    by (auto simp: table_wf_def UNALLOCATED_BUCKET_MARKER_def)
  have buckets: "table_buckets ?f (?a + n) = ?bk"
    by (rule nth_equalityI) (auto simp: table_buckets_def owned inv(6))
  have lenk: "length (memory_buckets mm ! k) + n = div_ceil new ?bs"
    using n inv(8) [OF k] div_ceil_mono [OF inv(3) new] by (simp add: num_buckets_needed_def)
  have "length (memory_buckets mm ! k) \<le> ?a"
    using length_filter_le [of _ "[0..<?a]"] inv(7) [OF k] by (simp add: owned_buckets_def)
  then have "div_ceil new ?bs * ?bs \<le> MAX_NUM_BUCKETS * 65536"
    using lenk lim inv(4) by (intro mult_le_mono) auto
  then have "new * STABLE_PAGE_SIZE \<le> u64_max"
    using div_ceil_covers [OF inv(3), of new] by (simp add: config_defs int_max_defs)
  then have fit: "\<forall>s \<in> set ((memory_sizes_in_pages mm)[k := new]). s * STABLE_PAGE_SIZE \<le> u64_max"
    using mm_inv_sizes(1) [OF mm] by (auto dest!: set_update_subset_insert [THEN subsetD])
  have "length (?bk ! i) = div_ceil ((memory_sizes_in_pages mm)[k := new] ! i) ?bs"
    if "i < MAX_NUM_MEMORIES" for i
    using lenk inv(5,6,8) that k by (auto simp: nth_list_update memory_size_def)
  with hdr wf buckets fit m pages inv(3) show ?thesis
    by (simp add: mm_inv_def valid_layout_def BUCKETS_OFFSET_IN_PAGES_def)
qed

lemma reserve_pages_cases:
  assumes mm: "minv mm"
  obtains (Failed) "reserve_pages M mm p = Some (False, mm)"
  | (Ok) m where "reserve_pages M mm p = Some (True, mm\<lparr>mm_memory := m\<rparr>)" "inv m"
      "p \<le> mem_size M m" "mem_size M (mm_memory mm) \<le> mem_size M m"
      "\<And>a. a < mem_size M (mm_memory mm) * STABLE_PAGE_SIZE \<Longrightarrow> byte_of m a = byte_of (mm_memory mm) a"
proof (cases "mem_size M (mm_memory mm) < p")
  case False
  then show ?thesis using Ok [of "mm_memory mm"] mm_invD(1) [OF mm] by (simp add: reserve_pages_def)
next
  case True
  let ?s = "mem_size M (mm_memory mm)"
  have i: "inv (mm_memory mm)" by (rule mm_invD(1) [OF mm])
  obtain r m where g: "mem_grow M (mm_memory mm) (p - ?s) = Some (r, m)"
    using grow_total [OF i] by blast
  show ?thesis
  proof (cases "r < 0")
    case True
    then show ?thesis
      using grow_failed [OF i g] g \<open>?s < p\<close> Failed by (simp add: reserve_pages_def)
  next
    case False
    then show ?thesis
      using grow_ok [OF i g] g \<open>?s < p\<close> Ok [of m] by (simp add: reserve_pages_def)
  qed
qed

end

text \<open>When a grow fits the bucket table, the page count the backing memory then needs, and what a
  successful grow changes: the size and bucket list of one memory, the count of buckets and, in the backing
  memory, the header page only; everything that was allocated keeps its bytes.\<close>

definition buckets_after_grow :: "'m manager_inner \<Rightarrow> memory_id \<Rightarrow> nat \<Rightarrow> nat" where
  "buckets_after_grow mm k pages =
     num_buckets_needed mm (memory_size mm k + pages) - num_buckets_needed mm (memory_size mm k) +
     allocated_buckets mm"

definition grow_fits :: "'m manager_inner \<Rightarrow> memory_id \<Rightarrow> nat \<Rightarrow> bool" where
  "grow_fits mm k pages \<longleftrightarrow>
     memory_size mm k + pages \<le> u64_max \<and> buckets_after_grow mm k pages \<le> MAX_NUM_BUCKETS"

definition pages_after_grow :: "'m manager_inner \<Rightarrow> memory_id \<Rightarrow> nat \<Rightarrow> nat" where
  "pages_after_grow mm k pages = 1 + bucket_size_in_pages mm * buckets_after_grow mm k pages"

definition grown ::
    "'m memory_ops \<Rightarrow> ('m \<Rightarrow> nat \<Rightarrow> byte) \<Rightarrow> memory_id \<Rightarrow> nat \<Rightarrow> 'm manager_inner \<Rightarrow> 'm manager_inner \<Rightarrow> bool" where
  "grown M rbyte k pages mm mm' \<longleftrightarrow>
     bucket_size_in_pages mm' = bucket_size_in_pages mm \<and>
     memory_sizes_in_pages mm' = (memory_sizes_in_pages mm)[k := memory_size mm k + pages] \<and>
     allocated_buckets mm' = buckets_after_grow mm k pages \<and>
     (\<exists>ext. memory_buckets mm' = (memory_buckets mm)[k := memory_buckets mm ! k @ ext]) \<and>
     (\<forall>a. STABLE_PAGE_SIZE \<le> a \<longrightarrow> a < mem_size M (mm_memory mm) * STABLE_PAGE_SIZE \<longrightarrow>
        rbyte (mm_memory mm') a = rbyte (mm_memory mm) a)"

context byte_memory
begin

lemma allocate_and_save_ok:
  assumes mm: "minv mm" and k: "k < MAX_NUM_MEMORIES"
    and n: "n = num_buckets_needed mm (memory_size mm k + pages) - num_buckets_needed mm (memory_size mm k)"
    and lim: "allocated_buckets mm + n \<le> MAX_NUM_BUCKETS"
    and m1: "inv m1" "1 + bucket_size_in_pages mm * (allocated_buckets mm + n) \<le> mem_size M m1"
      "\<And>a. a < mem_size M (mm_memory mm) * STABLE_PAGE_SIZE \<Longrightarrow> byte_of m1 a = byte_of (mm_memory mm) a"
      "memory_size mm k + pages \<le> u64_max"
  obtains mm2 mm3 where "allocate_buckets M k n (mm\<lparr>mm_memory := m1\<rparr>) = Some mm2"
    "save_header M (mm2\<lparr>memory_sizes_in_pages :=
       (memory_sizes_in_pages mm2)[k := memory_size mm k + pages]\<rparr>) = Some mm3"
    "minv mm3" "grown M byte_of k pages mm mm3"
proof -
  let ?a = "allocated_buckets mm" and ?new = "memory_size mm k + pages" and ?f = "byte_of (mm_memory mm)"
  note inv = mm_invD [OF mm]
  let ?bk = "(memory_buckets mm)[k := memory_buckets mm ! k @ [?a..<?a + n]]"
  obtain m2 where m2: "allocate_buckets M k n (mm\<lparr>mm_memory := m1\<rparr>) =
      Some (mm\<lparr>mm_memory := m2, allocated_buckets := ?a + n, memory_buckets := ?bk\<rparr>)"
    "inv m2" "mem_size M m2 = mem_size M m1"
    "byte_of m2 = blit (byte_of m1) (HEADER_SIZE + ?a) (replicate n (of_nat k))"
    using allocate_buckets_ok [of "mm\<lparr>mm_memory := m1\<rparr>" n k] m1 lim inv(6) k by auto
  let ?mm2 = "mm\<lparr>mm_memory := m2, allocated_buckets := ?a + n, memory_buckets := ?bk\<rparr>"
  let ?mm2' = "?mm2\<lparr>memory_sizes_in_pages := (memory_sizes_in_pages ?mm2)[k := ?new]\<rparr>"
  have "\<forall>s \<in> set (memory_sizes_in_pages mm). s \<le> u64_max"
    using mm_inv_sizes(2) [OF mm] by blast
  then have st: "storable ?mm2'"
    using inv(4,5) lim m1(4) set_update_subset_insert [of "memory_sizes_in_pages mm" k ?new]
    by (auto simp: storable_def config_defs)
  obtain m3 where m3: "save_header M ?mm2' = Some (?mm2'\<lparr>mm_memory := m3\<rparr>)" "inv m3"
    "mem_size M m3 = mem_size M m2" "byte_of m3 = blit (byte_of m2) 0 (encode_header ?mm2')"
    using save_header_ok [of ?mm2'] m2 m1(2) st by auto
  note h = blit_header [OF st, of "byte_of m2", folded m3(4)]
  have P: "STABLE_PAGE_SIZE \<le> mem_size M (mm_memory mm) * STABLE_PAGE_SIZE" using inv(10) by simp
  have tab: "table_owner (byte_of m3) b =
      (if ?a \<le> b \<and> b < ?a + n then of_nat k else table_owner ?f b)" if "b < MAX_NUM_BUCKETS" for b
  proof -
    have "byte_of m1 (HEADER_SIZE + b) = ?f (HEADER_SIZE + b)"
      by (rule m1(3)) (use that header_page P in linarith)
    then show ?thesis using h(5) m2(4) by (auto simp: table_owner_def blit_def)
  qed
  have len: "length (encode_header ?mm2') = HEADER_SIZE"
    by (rule length_encode_header) (simp add: inv(5))
  have data: "byte_of m3 a = ?f a" if "STABLE_PAGE_SIZE \<le> a" "a < mem_size M (mm_memory mm) * STABLE_PAGE_SIZE" for a
  proof -
    have "HEADER_SIZE + ?a + n \<le> a" using that(1) lim header_page by linarith
    then show ?thesis using m1(3) [OF that(2)] m2(4) m3(4) len by (simp add: blit_out)
  qed
  let ?mm3 = "?mm2'\<lparr>mm_memory := m3\<rparr>"
  have "minv (mm\<lparr>mm_memory := m3, allocated_buckets := ?a + n,
      memory_sizes_in_pages := (memory_sizes_in_pages mm)[k := ?new], memory_buckets := ?bk\<rparr>)"
    by (rule grown_manager_inv [OF mm k m3(2) n _ lim]) (use h m1(2) m2(3) m3(3) tab in auto)
  then have "minv ?mm3" by (cases mm) simp
  moreover have "grown M byte_of k pages mm ?mm3" using data n by (auto simp: grown_def buckets_after_grow_def)
  ultimately show ?thesis using that m2(1) m3(1) by blast
qed

lemma mm_grow_cases:
  assumes mm: "minv mm" and k: "k < MAX_NUM_MEMORIES"
  obtains (Failed) "mm_grow M mm k pages = Some (- 1, mm)"
      "grow_fits mm k pages \<Longrightarrow> reserve_pages M mm (pages_after_grow mm k pages) = Some (False, mm)"
  | (Ok) mm' where "mm_grow M mm k pages = Some (int (memory_size mm k), mm')" "minv mm'"
      "grow_fits mm k pages" "grown M byte_of k pages mm mm'"
proof -
  note [simp] = grow_fits_def pages_after_grow_def buckets_after_grow_def
  let ?n = "num_buckets_needed mm (memory_size mm k + pages) - num_buckets_needed mm (memory_size mm k)"
  let ?t = "?n + allocated_buckets mm" and ?bs = "bucket_size_in_pages mm"
  have i64: "as_i64 (memory_size mm k) = int (memory_size mm k)"
    using mm_invD(9) [OF mm k] by (simp add: as_i64_def capacity_bytes_def config_defs int_max_defs)
  show ?thesis
  proof (cases "memory_size mm k + pages \<le> u64_max \<and> ?t \<le> MAX_NUM_BUCKETS")
    case False
    then have "mm_grow M mm k pages = Some (- 1, mm)"
      by (auto simp: mm_grow_def Let_def split: option.splits)
    then show ?thesis by (rule Failed) (use False in auto)
  next
    case True
    have "?bs * ?t \<le> 65536 * MAX_NUM_BUCKETS"
      using True mm_invD(4) [OF mm] by (intro mult_le_mono) auto
    then have fits: "?t \<le> u64_max" "?n \<le> usize_max" "?bs * ?t \<le> u64_max" "1 + ?bs * ?t \<le> u64_max"
      using True by (simp_all add: config_defs int_max_defs)
    have unfold: "mm_grow M mm k pages =
        (case reserve_pages M mm (1 + ?bs * ?t) of None \<Rightarrow> None
         | Some (ok, mm1) \<Rightarrow> if \<not> ok then Some (- 1, mm1)
           else case allocate_buckets M k ?n mm1 of None \<Rightarrow> None
           | Some mm2 \<Rightarrow> (case save_header M (mm2\<lparr>memory_sizes_in_pages :=
                 (memory_sizes_in_pages mm2)[k := memory_size mm k + pages]\<rparr>) of None \<Rightarrow> None
              | Some mm3 \<Rightarrow> Some (as_i64 (memory_size mm k), mm3)))"
      using True fits
      by (simp add: mm_grow_def Let_def checked_add_def checked_mul_def usize_try_from_def
          BUCKETS_OFFSET_IN_PAGES_def)
    show ?thesis
    proof (cases rule: reserve_pages_cases [OF mm, of "1 + ?bs * ?t"])
      case 1
      then show ?thesis using Failed unfold by simp
    next
      case (2 m)
      have t: "?t = allocated_buckets mm + ?n" by simp
      obtain mm2 mm3 where "allocate_buckets M k ?n (mm\<lparr>mm_memory := m\<rparr>) = Some mm2"
        "save_header M (mm2\<lparr>memory_sizes_in_pages :=
           (memory_sizes_in_pages mm2)[k := memory_size mm k + pages]\<rparr>) = Some mm3"
        "minv mm3" "grown M byte_of k pages mm mm3"
        using True 2(3) unfolding t by (blast intro: allocate_and_save_ok [OF mm k refl _ 2(2) _ 2(5)])
      then show ?thesis using Ok [of mm3] unfold 2(1) i64 True by simp
    qed
  qed
qed

end

end
