(* ===== verification/Memory_Manager_Laws.thy ===== *)
theory Memory_Manager_Laws
  imports Memory_Manager_Grow
begin

text \<open>
  The contracts of the MemoryManager: a \<open>VirtualMemory\<close> over any memory that meets
  \<open>byte_memory\<close> meets \<open>byte_memory\<close> itself, operations on one virtual memory do not change
  another, and a manager is recovered from its image by \<open>load\<close>.  The contracts are interpreted
  on \<open>VectorMemory\<close>; \<open>db_memory\<close> is the crate's \<open>DbMemory\<close> on that backend.
\<close>

section \<open>A virtual memory is a memory\<close>

context byte_memory
begin

abbreviation vinv :: "'v virtual_mem \<Rightarrow> bool" where
  "vinv \<equiv> vm_inv M inv byte_of"

abbreviation vbyte :: "'v virtual_mem \<Rightarrow> nat \<Rightarrow> byte" where
  "vbyte \<equiv> vm_byte byte_of"

lemma vinvD:
  assumes "vinv v"
  shows "minv (snd v)" "vm_id (fst v) < MAX_NUM_MEMORIES"
    "cache_ok (snd v) (vm_id (fst v)) (vm_cache (fst v))"
  using assms by (simp_all add: vm_inv_def)

lemma minv_memory_same_bytes:
  assumes "minv mm" "inv m" "mem_size M m = mem_size M (mm_memory mm)"
    "byte_of m = byte_of (mm_memory mm)"
  shows "minv (mm\<lparr>mm_memory := m\<rparr>)"
  using assms by (intro mm_inv_memory_update) auto

lemma stored_keeps_header:
  assumes mm: "minv mm" and k: "k < MAX_NUM_MEMORIES"
    and le: "off + length src \<le> capacity_bytes mm k"
    and m: "inv m" "mem_size M m = mem_size M (mm_memory mm)"
    and st: "stored_upto byte_of mm k off src (off + length src) m"
  shows "minv (mm\<lparr>mm_memory := m\<rparr>)"
proof (rule mm_inv_memory_update [OF mm m])
  fix a assume "a < STABLE_PAGE_SIZE"
  then have "a \<noteq> real_address mm k i" if "i < off + length src" for i
    using real_address_bounds(1) [OF mm k, of i] that le capacity_in_buckets [OF mm k] by auto
  then show "byte_of m a = byte_of (mm_memory mm) a" using st by (simp add: stored_upto_def)
qed

text \<open>Virtual bytes after a write: the written range of memory \<open>k\<close>, and nothing else of any
  memory.\<close>

lemma stored_vbyte:
  assumes mm: "minv mm" and k: "k < MAX_NUM_MEMORIES" and k': "vm_id h < MAX_NUM_MEMORIES"
    and le: "off + length src \<le> capacity_bytes mm k"
    and st: "stored_upto byte_of mm k off src (off + length src) m"
  shows "vbyte (h, mm\<lparr>mm_memory := m\<rparr>) =
    (if vm_id h = k then blit (vbyte (h, mm)) off src else vbyte (h, mm))"
proof (rule ext)
  fix i
  let ?k' = "vm_id h"
  have inj: "?k' = k \<and> i = i'" if "i < capacity_bytes mm ?k'" "i' < off + length src"
    "real_address mm ?k' i = real_address mm k i'" for i'
    using real_address_inj [OF mm k' k _ _ that(3)] that(1,2) le
      capacity_in_buckets [OF mm k] capacity_in_buckets [OF mm k'] by auto
  have keep: "byte_of m (real_address mm ?k' i) = byte_of (mm_memory mm) (real_address mm ?k' i)"
    if "i < capacity_bytes mm ?k'" "\<not> (?k' = k \<and> off \<le> i \<and> i < off + length src)"
    using st inj that by (auto simp: stored_upto_def)
  show "vbyte (h, mm\<lparr>mm_memory := m\<rparr>) i =
    (if ?k' = k then blit (vbyte (h, mm)) off src else vbyte (h, mm)) i"
    using keep st le by (auto simp: vm_byte_def blit_def stored_upto_def)
qed

lemma grown_sizes:
  assumes "minv mm" "k < MAX_NUM_MEMORIES" "k' < MAX_NUM_MEMORIES" "grown M byte_of k pages mm mm'"
  shows "memory_size mm' k' = memory_size mm k' + (if k' = k then pages else 0)"
  using assms mm_invD(5) [OF assms(1)] by (simp add: grown_def memory_size_def nth_list_update)

lemma grown_translation:
  assumes mm: "minv mm" and k: "k' < MAX_NUM_MEMORIES" and g: "grown M byte_of k pages mm mm'"
    and i: "i < length (memory_buckets mm ! k') * bucket_size_in_bytes mm"
  shows "real_address mm' k' i = real_address mm k' i"
proof -
  from g have B: "bucket_size_in_bytes mm' = bucket_size_in_bytes mm"
    by (simp add: grown_def bucket_size_in_bytes_def)
  from g obtain ext where ext: "memory_buckets mm' = (memory_buckets mm)[k := memory_buckets mm ! k @ ext]"
    by (auto simp: grown_def)
  have "i div bucket_size_in_bytes mm < length (memory_buckets mm ! k')"
    by (rule bucket_index_less [OF mm k i])
  then have "memory_buckets mm' ! k' ! (i div bucket_size_in_bytes mm) =
      memory_buckets mm ! k' ! (i div bucket_size_in_bytes mm)"
    using ext k mm_invD(6) [OF mm] by (cases "k = k'") (auto simp: nth_append)
  then show ?thesis by (simp add: real_address_def bucket_address_def B)
qed

lemma grown_vbyte:
  assumes mm: "minv mm" and k: "k < MAX_NUM_MEMORIES" and k': "vm_id h < MAX_NUM_MEMORIES"
    and g: "grown M byte_of k pages mm mm'" and i: "i < capacity_bytes mm (vm_id h)"
  shows "vbyte (h, mm') i = vbyte (h, mm) i"
proof -
  have lt: "i < length (memory_buckets mm ! vm_id h) * bucket_size_in_bytes mm"
    using i capacity_in_buckets [OF mm k'] by simp
  have "i < capacity_bytes mm' (vm_id h)"
    using i grown_sizes [OF mm k k' g] by (simp add: capacity_bytes_def algebra_simps)
  moreover have "byte_of (mm_memory mm') (real_address mm (vm_id h) i) =
      byte_of (mm_memory mm) (real_address mm (vm_id h) i)"
    using g real_address_bounds [OF mm k' lt] by (simp add: grown_def)
  ultimately show ?thesis
    using i grown_translation [OF mm k' g lt] by (simp add: vm_byte_def)
qed

lemma grown_cache_ok:
  assumes mm: "minv mm" and k: "k' < MAX_NUM_MEMORIES" and g: "grown M byte_of k pages mm mm'"
    and c: "cache_ok mm k' c"
  shows "cache_ok mm' k' c"
proof -
  from g have B: "bucket_size_in_bytes mm' = bucket_size_in_bytes mm"
    by (simp add: grown_def bucket_size_in_bytes_def)
  from g obtain ext where ext: "memory_buckets mm' = (memory_buckets mm)[k := memory_buckets mm ! k @ ext]"
    by (auto simp: grown_def)
  show ?thesis
  proof (cases "k = k'")
    case True
    then show ?thesis
      using c ext k mm_invD(6) [OF mm] B
      by (auto simp: cache_ok_def bucket_address_def nth_append)
  next
    case False
    then show ?thesis using c ext B by (simp add: cache_ok_def bucket_address_def)
  qed
qed

lemma vbyte_handle: "vbyte (h\<lparr>vm_cache := c\<rparr>, mm) = vbyte (h, mm)"
  by (simp add: vm_byte_def fun_eq_iff)

lemma virtual_laws: "byte_memory (virtual_memory M) vinv vbyte"
proof (unfold_locales, goal_cases)
  case (1 v)
  then show ?case
    using mm_invD(9) [OF vinvD(1,2)] by (simp add: vm_size_def capacity_bytes_def)
next
  case (2 v n)
  note i = vinvD [OF 2(1)]
  show ?case
    using 2
    by (cases rule: mm_grow_cases [OF i(1,2), of n]) (auto simp: vm_grow_def)
next
  case (3 v n r v')
  note i = vinvD [OF 3(1)]
  show ?case
    using 3
    by (cases rule: mm_grow_cases [OF i(1,2), of n]) (auto simp: vm_grow_def)
next
  case (4 v n r v')
  note i = vinvD [OF 4(1)]
  obtain h mm where v: "v = (h, mm)" by (cases v)
  show ?case
    using 4(2,3)
    by (cases rule: mm_grow_cases [OF i(1,2), of n])
      (use i v in \<open>auto simp: vm_grow_def vm_size_def vm_inv_def capacity_bytes_def
        grown_sizes dest: grown_cache_ok intro!: grown_vbyte\<close>)
next
  case (5 v off n)
  obtain h mm where v: "v = (h, mm)" by (cases v)
  note i = vinvD [OF 5(1), unfolded v fst_conv snd_conv]
  have le: "off + n \<le> capacity_bytes mm (vm_id h)"
    using 5(2) by (simp add: v vm_size_def capacity_bytes_def)
  obtain m c' where r: "mm_read M mm (vm_id h) off n (vm_cache h) =
      Some (bytes_at (\<lambda>i. byte_of (mm_memory mm) (real_address mm (vm_id h) i)) off n, mm\<lparr>mm_memory := m\<rparr>, c')"
    "inv m" "mem_size M m = mem_size M (mm_memory mm)" "byte_of m = byte_of (mm_memory mm)"
    "cache_ok mm (vm_id h) c'"
    using mm_read_ok [OF i le] by blast
  have "bytes_at (\<lambda>i. byte_of (mm_memory mm) (real_address mm (vm_id h) i)) off n = bytes_at (vbyte v) off n"
    using le by (intro bytes_at_cong) (simp add: v vm_byte_def)
  with r i show ?case
    by (auto simp: v vm_read_def vm_inv_def vm_size_def vm_byte_def fun_eq_iff
        intro: minv_memory_same_bytes)
next
  case (6 v off bs)
  obtain h mm where v: "v = (h, mm)" by (cases v)
  note i = vinvD [OF 6(1), unfolded v fst_conv snd_conv]
  have le: "off + length bs \<le> capacity_bytes mm (vm_id h)"
    using 6(2) by (simp add: v vm_size_def capacity_bytes_def)
  obtain m c' where w: "mm_write M mm (vm_id h) off bs (vm_cache h) = Some (mm\<lparr>mm_memory := m\<rparr>, c')"
    "inv m" "mem_size M m = mem_size M (mm_memory mm)" "cache_ok mm (vm_id h) c'"
    "stored_upto byte_of mm (vm_id h) off bs (off + length bs) m"
    using mm_write_ok [OF i le] by blast
  have "vbyte (h\<lparr>vm_cache := c'\<rparr>, mm\<lparr>mm_memory := m\<rparr>) = blit (vbyte (h, mm)) off bs"
    using stored_vbyte [OF i(1,2) _ le w(5), of "h\<lparr>vm_cache := c'\<rparr>"] i(2)
    by (simp add: vbyte_handle)
  with w i stored_keeps_header [OF i(1,2) le w(2,3,5)] show ?case
    by (auto simp: v vm_write_def vm_inv_def vm_size_def)
next
  case (7 v n off)
  then show ?case
    using assert_bounds_iff [OF vinvD(1,2) [OF 7(1)], of off n]
    by (simp add: vm_read_def mm_read_def vm_size_def capacity_bytes_def)
next
  case (8 v bs off)
  then show ?case
    using assert_bounds_iff [OF vinvD(1,2) [OF 8(1)], of off "length bs"]
    by (simp add: vm_write_def mm_write_def vm_size_def capacity_bytes_def)
qed

text \<open>The effect of an operation through one handle on what every handle of the same manager
  sees.\<close>

lemma write_frame:
  assumes v: "vinv (h, mm)" and v': "vinv (h', mm)"
    and w: "vm_write M (h, mm) off bs = Some (h2, mm2)"
  shows "vinv (h', mm2)" "vm_size (h', mm2) = vm_size (h', mm)"
    "vbyte (h', mm2) = (if vm_id h' = vm_id h then blit (vbyte (h', mm)) off bs else vbyte (h', mm))"
proof -
  note i = vinvD [OF v, unfolded fst_conv snd_conv] and i' = vinvD [OF v', unfolded fst_conv snd_conv]
  have le: "off + length bs \<le> capacity_bytes mm (vm_id h) \<or> bs = []"
    using w assert_bounds_iff [OF i(1,2), of off "length bs"]
    by (auto simp: vm_write_def mm_write_def split: if_splits option.splits)
  show "vinv (h', mm2)" "vm_size (h', mm2) = vm_size (h', mm)"
    "vbyte (h', mm2) = (if vm_id h' = vm_id h then blit (vbyte (h', mm)) off bs else vbyte (h', mm))"
  proof (atomize (full), cases "bs = []")
    case True
    then show "vinv (h', mm2) \<and> vm_size (h', mm2) = vm_size (h', mm) \<and> vbyte (h', mm2) =
        (if vm_id h' = vm_id h then blit (vbyte (h', mm)) off bs else vbyte (h', mm))"
      using w v' by (simp add: vm_write_def mm_write_def)
  next
    case False
    with le have le: "off + length bs \<le> capacity_bytes mm (vm_id h)" by simp
    obtain m c' where m: "mm_write M mm (vm_id h) off bs (vm_cache h) = Some (mm\<lparr>mm_memory := m\<rparr>, c')"
      "inv m" "mem_size M m = mem_size M (mm_memory mm)"
      "stored_upto byte_of mm (vm_id h) off bs (off + length bs) m"
      using mm_write_ok [OF i le] by blast
    then have "mm2 = mm\<lparr>mm_memory := m\<rparr>" using w by (simp add: vm_write_def)
    then show "vinv (h', mm2) \<and> vm_size (h', mm2) = vm_size (h', mm) \<and> vbyte (h', mm2) =
        (if vm_id h' = vm_id h then blit (vbyte (h', mm)) off bs else vbyte (h', mm))"
      using stored_vbyte [OF i(1,2) i'(2) le m(4)] stored_keeps_header [OF i(1,2) le m(2,3,4)] i'
      by (simp add: vm_inv_def vm_size_def)
  qed
qed

lemma read_frame:
  assumes v: "vinv (h, mm)" and v': "vinv (h', mm)"
    and r: "vm_read M (h, mm) off n = Some (bs, h2, mm2)"
  shows "vinv (h', mm2)" "vm_size (h', mm2) = vm_size (h', mm)" "vbyte (h', mm2) = vbyte (h', mm)"
proof -
  note i = vinvD [OF v, unfolded fst_conv snd_conv] and i' = vinvD [OF v', unfolded fst_conv snd_conv]
  have "off + n \<le> capacity_bytes mm (vm_id h) \<or> n = 0"
    using r assert_bounds_iff [OF i(1,2), of off n]
    by (auto simp: vm_read_def mm_read_def split: if_splits option.splits)
  then obtain m where m: "mm2 = mm\<lparr>mm_memory := m\<rparr>" "inv m"
    "mem_size M m = mem_size M (mm_memory mm)" "byte_of m = byte_of (mm_memory mm)"
  proof (cases "n = 0")
    case True
    then show thesis using that [of "mm_memory mm"] r mm_invD(1) [OF i(1)]
      by (simp add: vm_read_def mm_read_def)
  next
    case False
    assume "off + n \<le> capacity_bytes mm (vm_id h) \<or> n = 0"
    with False have "off + n \<le> capacity_bytes mm (vm_id h)" by simp
    from mm_read_ok [OF i this] r that show thesis by (fastforce simp: vm_read_def)
  qed
  with i' show "vinv (h', mm2)" "vm_size (h', mm2) = vm_size (h', mm)" "vbyte (h', mm2) = vbyte (h', mm)"
    by (auto simp: vm_inv_def vm_size_def vm_byte_def fun_eq_iff intro: minv_memory_same_bytes)
qed

lemma grow_frame:
  assumes v: "vinv (h, mm)" and v': "vinv (h', mm)"
    and g: "vm_grow M (h, mm) n = Some (r, h2, mm2)"
  shows "vinv (h', mm2)"
    "vm_size (h', mm2) = vm_size (h', mm) + (if vm_id h' = vm_id h \<and> 0 \<le> r then n else 0)"
    "i < vm_size (h', mm) * STABLE_PAGE_SIZE \<Longrightarrow> vbyte (h', mm2) i = vbyte (h', mm) i"
  using g
  by (cases rule: mm_grow_cases [OF vinvD(1,2) [OF v, unfolded fst_conv snd_conv], of n];
      use vinvD [OF v', unfolded fst_conv snd_conv] vinvD [OF v, unfolded fst_conv snd_conv] in
      \<open>auto simp: vm_grow_def vm_size_def vm_inv_def grown_sizes capacity_bytes_def
        dest: grown_cache_ok intro: grown_vbyte\<close>)+

end

end
