(* ===== verification/Memory_Manager_Init.thy ===== *)
theory Memory_Manager_Init
  imports Memory_Manager_Laws
begin

text \<open>
  Creating, loading and reloading a manager.  A fresh manager satisfies the invariant; loading
  accepts an image exactly when it is valid, never panics on a corrupt one, and gives a manager
  that satisfies the invariant; and a manager whose heap state is lost (a canister upgrade) is
  recovered from its image unchanged.  The contracts are interpreted on \<open>VectorMemory\<close>;
  \<open>db_memory\<close> is the crate's \<open>DbMemory\<close> on that backend.
\<close>

lemma sumS_no_panic [simp]: "sumS r v \<noteq> (Panic, v')"
  by (cases r) (auto simp: errS_def retS_def)

lemma tryS_Panic_iff:
  "tryS m k w = (Panic, w2) \<longleftrightarrow>
    m w = (Panic, w2) \<or> (\<exists>x w1. m w = (Ok x, w1) \<and> k x w1 = (Panic, w2))"
  by (auto simp: tryS_def split: prod.splits outcome.splits)

lemma manager_of_layout_of [simp]: "manager_of_layout (mm_memory mm) (layout_of mm) = mm"
  by (cases mm) (simp add: manager_of_layout_def layout_of_def)

lemma layout_of_manager [simp]:
  "layout_of (manager_of_layout m l) = l" "mm_memory (manager_of_layout m l) = m"
  by (cases l, simp_all add: manager_of_layout_def layout_of_def)

lemma valid_layout_unique: "valid_layout f p l \<Longrightarrow> valid_layout f p l' \<Longrightarrow> l = l'"
  by (cases l; cases l') (auto simp: valid_layout_def)

section \<open>A fresh manager\<close>

context byte_memory
begin

lemma write_growing_Some:
  assumes v: "inv v" and w: "write_growing M v off bs = Some v'"
  obtains v0 where "inv v'" "mem_size M v' = mem_size M v0" "byte_of v' = blit (byte_of v0) off bs"
    "off + length bs \<le> mem_size M v' * STABLE_PAGE_SIZE" "mem_size M v \<le> mem_size M v'"
proof (cases "off + length bs \<le> mem_size M v * STABLE_PAGE_SIZE")
  case True
  from write_growing_in_bounds [OF v this] w that True show ?thesis by (metis option.inject order_refl)
next
  case False
  let ?n = "div_ceil (off + length bs - mem_size M v * STABLE_PAGE_SIZE) STABLE_PAGE_SIZE"
  obtain r g where g: "mem_grow M v ?n = Some (r, g)" "0 \<le> r" "mem_write M g off bs = Some v'"
    using w False by (auto simp: write_growing_def split: option.splits if_splits prod.splits)
  have gi: "inv g" "mem_size M g = mem_size M v + ?n" using grow_ok [OF v g(1,2)] by simp_all
  have "off + length bs - mem_size M v * STABLE_PAGE_SIZE \<le> ?n * STABLE_PAGE_SIZE"
    by (rule div_ceil_covers) simp
  then have le: "off + length bs \<le> mem_size M g * STABLE_PAGE_SIZE"
    using False gi(2) by (simp add: algebra_simps)
  from write_Some [OF gi(1) le] g(3) le gi(2) that show ?thesis
    by (metis le_add1 option.inject)
qed

lemma mm_new_inv:
  assumes m: "inv m" and bs: "0 < bs" "bs < 65536" and new: "mm_new M m bs = Some mm"
  shows "minv mm" "memory_size mm k = 0 \<or> MAX_NUM_MEMORIES \<le> k" "bucket_size_in_pages mm = bs"
proof -
  let ?markers = "replicate MAX_NUM_BUCKETS (of_nat UNALLOCATED_BUCKET_MARKER) :: byte list"
  let ?mm = "\<lambda>m. \<lparr>mm_memory = m, allocated_buckets = 0, bucket_size_in_pages = bs,
    memory_sizes_in_pages = replicate MAX_NUM_MEMORIES 0,
    memory_buckets = replicate MAX_NUM_MEMORIES []\<rparr>"
  obtain m1 where w: "write_growing M m HEADER_SIZE ?markers = Some m1"
    and sv: "save_header M (?mm m1) = Some mm"
    using new by (auto simp: mm_new_def Let_def split: option.splits)
  obtain m0 where m1: "inv m1" "byte_of m1 = blit (byte_of m0) HEADER_SIZE ?markers"
    "HEADER_SIZE + length ?markers \<le> mem_size M m1 * STABLE_PAGE_SIZE"
    using write_growing_Some [OF m w] by blast
  have p1: "1 \<le> mem_size M m1" using m1(3) by (cases "mem_size M m1") (auto simp: config_defs)
  have st: "storable (?mm m1)" using bs by (simp add: storable_def)
  obtain m2 where m2: "mm = ?mm m2" "inv m2" "mem_size M m2 = mem_size M m1"
    "byte_of m2 = blit (byte_of m1) 0 (encode_header (?mm m1))"
    using save_header_ok [of "?mm m1"] m1(1) p1 st sv by auto
  note h = blit_header [OF st, of "byte_of m1", folded m2(4)]
  have own: "unat (table_owner (byte_of m2) b) = UNALLOCATED_BUCKET_MARKER" if "b < MAX_NUM_BUCKETS" for b
    using that h(5) by (simp add: table_owner_def m1(2) blit_def unat_marker)
  have "table_buckets (byte_of m2) 0 = replicate MAX_NUM_MEMORIES []"
    by (rule nth_equalityI) (simp_all add: table_buckets_def owned_buckets_def)
  then have "valid_layout (byte_of m2) (mem_size M m2) (layout_of (?mm m2))"
    using h own bs p1 m2(3)
    by (auto simp: valid_layout_def table_wf_def BUCKETS_OFFSET_IN_PAGES_def)
  with h(1) m2 show "minv mm" by (simp add: mm_inv_def)
  show "memory_size mm k = 0 \<or> MAX_NUM_MEMORIES \<le> k" "bucket_size_in_pages mm = bs"
    using m2(1) by (auto simp: memory_size_def)
qed

end

section \<open>Loading\<close>

text \<open>A raw memory whose reads have no effect at all, not even on a translation cache.\<close>

locale raw_memory = byte_memory M inv byte_of
  for M :: "'v memory_ops" and inv byte_of +
  assumes read_pure: "mem_read M v off n = Some (bs, v') \<Longrightarrow> v' = v"
begin

lemma read_header:
  assumes "inv m" "1 \<le> mem_size M m" "off + n \<le> STABLE_PAGE_SIZE"
  shows "mem_read M m off n = Some (bytes_at (byte_of m) off n, m)"
proof -
  have "1 * STABLE_PAGE_SIZE \<le> mem_size M m * STABLE_PAGE_SIZE"
    using assms(2) by (rule mult_le_mono1)
  then have "off + n \<le> mem_size M m * STABLE_PAGE_SIZE" using assms(3) by linarith
  from read_Some [OF assms(1) this] show ?thesis using read_pure by metis
qed

lemma readS_header:
  assumes "inv m" "1 \<le> mem_size M m" "off + n \<le> STABLE_PAGE_SIZE"
  shows "readS M off n m = (Ok (bytes_at (byte_of m) off n), m)"
  using read_header [OF assms] by (simp add: readS_def)

lemma layout_Ok_iff:
  assumes v: "inv v" "1 \<le> mem_size M v"
  shows "try_load_validated_layout M (bytes_at (byte_of v) 0 HEADER_SIZE) v = (Ok l, v2) \<longleftrightarrow>
    v2 = v \<and> valid_layout (byte_of v) (mem_size M v) l"
proof -
  obtain v' where v': "\<And>l v2. try_load_validated_layout M (bytes_at (byte_of v) 0 HEADER_SIZE) v = (Ok l, v2) \<longleftrightarrow>
       v2 = v' \<and> valid_layout (byte_of v) (mem_size M v) l"
    using try_load_validated_layout_Ok [OF v] by blast
  have "v2 = v" if "try_load_validated_layout M h v = (Ok l, v2)" for h l v2
    using that header_page
    by (auto simp: readS_header [OF v] try_load_validated_layout_def Let_def read_validated_buckets_def tryS_Ok_iff
        sumS_Ok_iff split: if_splits)
  with v' show ?thesis by blast
qed

lemma layout_no_panic:
  assumes v: "inv v" "1 \<le> mem_size M v"
  shows "try_load_validated_layout M h v \<noteq> (Panic, v2)"
  using header_page
  by (auto simp: readS_header [OF v] try_load_validated_layout_def Let_def read_validated_buckets_def tryS_Panic_iff
      sumS_Ok_iff errS_def retS_def)

lemma magic_iff:
  assumes "inv m" "1 \<le> mem_size M m"
  shows "slice (bytes_at (byte_of m) 0 HEADER_SIZE) 0 3 = bytes_at (byte_of m) 0 3"
    "bytes_at (byte_of m) 0 HEADER_SIZE ! 3 = byte_of m 3"
  by (simp_all add: slice_bytes_at config_defs)

lemma mm_try_load_Ok_iff:
  assumes m: "inv m" "1 \<le> mem_size M m"
  shows "mm_try_load M m = Ok mm \<longleftrightarrow> mm_memory mm = m \<and> minv mm"
proof -
  have r: "mem_read M m 0 HEADER_SIZE = Some (bytes_at (byte_of m) 0 HEADER_SIZE, m)"
    using read_header [OF m, of 0 HEADER_SIZE] header_page by simp
  have "mm_try_load M m = Ok mm \<longleftrightarrow> magic_ok (byte_of m) \<and>
      (\<exists>l. valid_layout (byte_of m) (mem_size M m) l \<and> mm = manager_of_layout m l)"
    using layout_Ok_iff [OF m]
    by (auto simp: mm_try_load_def r magic_iff [OF m] magic_ok_def dest: valid_layout_unique
        split: prod.splits outcome.splits)
  also have "\<dots> \<longleftrightarrow> mm_memory mm = m \<and> minv mm"
  proof
    assume "magic_ok (byte_of m) \<and>
      (\<exists>l. valid_layout (byte_of m) (mem_size M m) l \<and> mm = manager_of_layout m l)"
    then show "mm_memory mm = m \<and> minv mm" using m by (auto simp: mm_inv_def)
  next
    assume a: "mm_memory mm = m \<and> minv mm"
    then have "mm = manager_of_layout m (layout_of mm)"
      using manager_of_layout_of [of mm] by simp
    with a show "magic_ok (byte_of m) \<and>
      (\<exists>l. valid_layout (byte_of m) (mem_size M m) l \<and> mm = manager_of_layout m l)"
      by (auto simp: mm_inv_def)
  qed
  finally show ?thesis .
qed

lemma mm_try_load_no_panic:
  assumes m: "inv m" "1 \<le> mem_size M m"
  shows "mm_try_load M m \<noteq> Panic"
  using read_header [OF m, of 0 HEADER_SIZE] header_page layout_no_panic [OF m]
  by (auto simp: mm_try_load_def split: prod.splits outcome.splits)

lemma mm_load_try_load:
  "mm_load M m = Some mm \<longleftrightarrow> mm_try_load M m = Ok mm"
  by (auto simp: mm_load_def mm_try_load_def split: option.splits prod.splits outcome.splits)

lemma minv_pages: "minv mm \<Longrightarrow> inv (mm_memory mm) \<and> 1 \<le> mem_size M (mm_memory mm)"
  using mm_invD(1,10) by fastforce

lemma reload:
  assumes "minv mm"
  shows "mm_try_load M (mm_memory mm) = Ok mm" "mm_load M (mm_memory mm) = Some mm"
    "mm_init M (mm_memory mm) bs = Some mm" "mm_init_strict M (mm_memory mm) bs = Ok mm"
proof -
  let ?m = "mm_memory mm"
  have m: "inv ?m" "1 \<le> mem_size M ?m" using minv_pages [OF assms] by auto
  show l: "mm_try_load M ?m = Ok mm" using mm_try_load_Ok_iff [OF m] assms by simp
  then show l': "mm_load M ?m = Some mm" by (simp add: mm_load_try_load)
  have "bytes_at (byte_of ?m) 0 3 = MGR_MAGIC"
    using assms by (simp add: mm_inv_def magic_ok_def)
  moreover have "mem_read M ?m 0 3 = Some (bytes_at (byte_of ?m) 0 3, ?m)"
    using read_header [OF m, of 0 3] by (simp add: config_defs)
  ultimately show "mm_init M ?m bs = Some mm" "mm_init_strict M ?m bs = Ok mm"
    using m l l' by (simp_all add: mm_init_def mm_init_strict_def)
qed

lemma mm_init_inv:
  assumes m: "inv m" and bs: "0 < bs" "bs < 65536" and r: "mm_init M m bs = Some mm"
  shows "minv mm"
proof (cases "mem_size M m = 0")
  case True
  then show ?thesis using r mm_new_inv(1) [OF m bs] by (simp add: mm_init_def)
next
  case False
  then have p: "1 \<le> mem_size M m" by simp
  have rd: "mem_read M m 0 3 = Some (bytes_at (byte_of m) 0 3, m)"
    using read_header [OF m p, of 0 3] by (simp add: config_defs)
  show ?thesis
    using r False mm_new_inv(1) [OF m bs] mm_try_load_Ok_iff [OF m p]
    by (auto simp: mm_init_def rd mm_load_try_load split: if_splits)
qed

lemma mm_init_strict_foreign:
  assumes m: "inv m" "1 \<le> mem_size M m" and f: "bytes_at (byte_of m) 0 3 \<noteq> MGR_MAGIC"
  shows "mm_init_strict M m bs = Err NonMemoryManagerLayout"
proof -
  have "mem_read M m 0 3 = Some (bytes_at (byte_of m) 0 3, m)"
    using read_header [OF m, of 0 3] by (simp add: config_defs)
  with f m(2) show ?thesis by (simp add: mm_init_strict_def)
qed

end

section \<open>The contracts on VectorMemory\<close>

interpretation vec: raw_memory vector_memory vec_inv vec_byte
  by unfold_locales (auto simp: vec_read_def split: option.splits if_splits)

abbreviation db_memory :: "vec_mem virtual_mem memory_ops" where
  "db_memory \<equiv> virtual_memory vector_memory"

abbreviation db_inv :: "vec_mem virtual_mem \<Rightarrow> bool" where
  "db_inv \<equiv> vm_inv vector_memory vec_inv vec_byte"

abbreviation db_byte :: "vec_mem virtual_mem \<Rightarrow> nat \<Rightarrow> byte" where
  "db_byte \<equiv> vm_byte vec_byte"

abbreviation manager_ok :: "vec_mem manager_inner \<Rightarrow> bool" where
  "manager_ok \<equiv> mm_inv vector_memory vec_inv vec_byte"

interpretation dbm: byte_memory db_memory db_inv db_byte
  by (rule vec.virtual_laws)

text \<open>On the native backend growing fails only for want of buckets.\<close>

lemma vec_reserve_pages:
  assumes mm: "manager_ok mm" and p: "p * STABLE_PAGE_SIZE \<le> u64_max"
  shows "reserve_pages vector_memory mm p \<noteq> Some (False, mm')"
proof (cases "vec_size (mm_memory mm) < p")
  case True
  then have "vec_grow (mm_memory mm) (p - vec_size (mm_memory mm)) =
      Some (int (vec_size (mm_memory mm)), vec_resize (mm_memory mm) (p * STABLE_PAGE_SIZE))"
    using p by (simp add: vec_grow_cases [OF mm_invD(1) [OF mm]])
  with True show ?thesis by (simp add: reserve_pages_def)
qed (simp add: reserve_pages_def)

lemma vec_mm_grow_iff:
  assumes mm: "manager_ok mm" and k: "k < MAX_NUM_MEMORIES"
  obtains (Failed) "\<not> grow_fits mm k pages" "mm_grow vector_memory mm k pages = Some (- 1, mm)"
  | (Ok) mm' where "grow_fits mm k pages"
      "mm_grow vector_memory mm k pages = Some (int (memory_size mm k), mm')" "manager_ok mm'"
      "grown vector_memory vec_byte k pages mm mm'"
proof (cases rule: vec.mm_grow_cases [OF mm k, of pages])
  case 1
  have "\<not> grow_fits mm k pages"
  proof
    assume fit: "grow_fits mm k pages"
    then have "bucket_size_in_pages mm * buckets_after_grow mm k pages \<le> 65536 * 32768"
      using mm_invD(4) [OF mm] by (intro mult_le_mono) (auto simp: grow_fits_def config_defs)
    then have "pages_after_grow mm k pages * STABLE_PAGE_SIZE \<le> u64_max"
      by (simp add: pages_after_grow_def config_defs u64_max_def)
    from vec_reserve_pages [OF mm this, of mm] 1(2) [OF fit] show False by contradiction
  qed
  with 1 Failed show ?thesis by simp
qed (rule Ok)

text \<open>On the native backend the first write of an empty memory cannot fail.\<close>

lemma mm_new_empty:
  assumes "0 < bs" "bs < 65536"
  obtains mm where "mm_new vector_memory (vec_empty a) bs = Some mm" "manager_ok mm"
proof -
  let ?markers = "replicate MAX_NUM_BUCKETS (of_nat UNALLOCATED_BUCKET_MARKER) :: byte list"
  have n: "div_ceil (HEADER_SIZE + MAX_NUM_BUCKETS) STABLE_PAGE_SIZE = 1"
    by (simp add: div_ceil_def config_defs)
  have sz: "vec_size (vec_empty a) = 0" by (simp add: vec_size_def vec_empty_def)
  have "vec_grow (vec_empty a) 1 = Some (0, vec_resize (vec_empty a) STABLE_PAGE_SIZE)"
    by (simp add: vec_grow_cases sz) (simp add: config_defs int_max_defs)
  moreover have "0 < HEADER_SIZE + MAX_NUM_BUCKETS" "HEADER_SIZE + MAX_NUM_BUCKETS \<le> u64_max"
    by (simp_all add: config_defs u64_max_def)
  ultimately obtain m1
    where w: "write_growing vector_memory (vec_empty a) HEADER_SIZE ?markers = Some m1"
    and m1: "vec_inv m1" "vec_size m1 = 1"
    by (rule_tac vec.write_growing_grows [of "vec_empty a" HEADER_SIZE ?markers 0
        "vec_resize (vec_empty a) STABLE_PAGE_SIZE"]) (simp_all add: sz n)
  let ?mm = "\<lparr>mm_memory = m1, allocated_buckets = 0, bucket_size_in_pages = bs,
    memory_sizes_in_pages = replicate MAX_NUM_MEMORIES 0,
    memory_buckets = replicate MAX_NUM_MEMORIES []\<rparr>"
  have "storable ?mm" using assms by (simp add: storable_def)
  then obtain mm where "mm_new vector_memory (vec_empty a) bs = Some mm"
    using vec.save_header_ok [of ?mm] m1 w by (auto simp: mm_new_def Let_def)
  with vec.mm_new_inv(1) [OF vec_inv_empty assms] that show ?thesis by blast
qed

end
