(* ===== verification/Memory_Manager_Props.thy ===== *)
theory Memory_Manager_Props
  imports Memory_Manager_Init
begin

text \<open>
  What the MemoryManager guarantees its clients, on the native backend: reads return what was
  written, memories are isolated from each other, growing appends pages, loading accepts
  exactly the valid images, and any history of operations is recovered from stable memory.
\<close>

section \<open>Histories of operations\<close>

text \<open>One step of a client: it opens a handle, grows, reads or writes through an open one, or
  the canister is upgraded: the heap is lost and the manager is loaded from its image.\<close>

inductive mm_step :: "vm_handle list \<times> vec_mem manager_inner \<Rightarrow> vm_handle list \<times> vec_mem manager_inner \<Rightarrow> bool" where
  step_get: "memory_id_new i = Some k \<Longrightarrow> i < 256 \<Longrightarrow> mm_step (hs, mm) (manager_get k # hs, mm)"
| step_grow: "j < length hs \<Longrightarrow> vm_grow vector_memory (hs ! j, mm) n = Some (r, h, mm') \<Longrightarrow>
    mm_step (hs, mm) (hs[j := h], mm')"
| step_read: "j < length hs \<Longrightarrow> vm_read vector_memory (hs ! j, mm) off n = Some (bs, h, mm') \<Longrightarrow>
    mm_step (hs, mm) (hs[j := h], mm')"
| step_write: "j < length hs \<Longrightarrow> vm_write vector_memory (hs ! j, mm) off bs = Some (h, mm') \<Longrightarrow>
    mm_step (hs, mm) (hs[j := h], mm')"
| step_upgrade: "init_strict_with_bucket_size vector_memory (mm_memory mm) n = Ok mm' \<Longrightarrow>
    mm_step (hs, mm) ([], mm')"

inductive mm_reachable :: "vm_handle list \<times> vec_mem manager_inner \<Rightarrow> bool" where
  reach_init: "init_strict_with_bucket_size vector_memory (vec_empty a) n = Ok mm \<Longrightarrow> n < 65536 \<Longrightarrow>
    mm_reachable ([], mm)"
| reach_step: "mm_reachable s \<Longrightarrow> mm_step s s' \<Longrightarrow> mm_reachable s'"

definition fleet_ok :: "vm_handle list \<times> vec_mem manager_inner \<Rightarrow> bool" where
  "fleet_ok s \<longleftrightarrow> manager_ok (snd s) \<and> (\<forall>h \<in> set (fst s). db_inv (h, snd s))"

lemma memory_id_new_bound: "memory_id_new i = Some k \<Longrightarrow> i < 256 \<Longrightarrow> k < MAX_NUM_MEMORIES"
  by (auto simp: memory_id_new_def config_defs split: if_splits)

lemma db_inv_fresh: "manager_ok mm \<Longrightarrow> k < MAX_NUM_MEMORIES \<Longrightarrow> db_inv (manager_get k, mm)"
  by (simp add: vm_inv_def manager_get_def cache_ok_def bucket_cache_new_def)

lemma fleet_update:
  assumes "fleet_ok (hs, mm)" "j < length hs" "db_inv (h, mm')"
    "\<And>h'. db_inv (h', mm) \<Longrightarrow> db_inv (h', mm')"
  shows "fleet_ok (hs[j := h], mm')"
  using assms vec.vinvD(1) [OF assms(3)] by (auto simp: fleet_ok_def dest!: set_update_subset_insert [THEN subsetD])

lemma fleet_handle: "fleet_ok (hs, mm) \<Longrightarrow> j < length hs \<Longrightarrow> db_inv (hs ! j, mm)"
  by (simp add: fleet_ok_def)

lemma handle_grow:
  assumes "db_inv v" "vm_grow vector_memory v n = Some (r, v')"
  shows "db_inv v'"
proof (cases "r < 0")
  case True
  then show ?thesis using dbm.grow_failed [OF assms(1), of n r v'] assms by simp
next
  case False
  then show ?thesis using dbm.grow_ok [OF assms(1), of n r v'] assms by simp
qed

lemma handle_read:
  assumes "db_inv v" "vm_read vector_memory v off n = Some (bs, v')"
  shows "db_inv v'"
proof (cases "off + n \<le> vm_size v * STABLE_PAGE_SIZE")
  case True
  then show ?thesis using dbm.read_ok [OF assms(1), of off n] assms by auto
next
  case False
  then have "n = 0" using dbm.read_oob [OF assms(1), of n off] assms by (cases n) auto
  then show ?thesis using assms by (cases v) (auto simp: vm_read_def mm_read_def)
qed

lemma handle_write:
  assumes "db_inv v" "vm_write vector_memory v off bs = Some v'"
  shows "db_inv v'"
proof (cases "off + length bs \<le> vm_size v * STABLE_PAGE_SIZE")
  case True
  then show ?thesis using dbm.write_ok [OF assms(1), of off bs] assms by auto
next
  case False
  then have "bs = []" using dbm.write_oob [OF assms(1), of bs off] assms by auto
  then show ?thesis using assms by (cases v) (auto simp: vm_write_def mm_write_def)
qed

lemma init_strict_nonzero:
  "init_strict_with_bucket_size M m n = Ok mm \<Longrightarrow> 0 < n \<and> mm_init_strict M m n = Ok mm"
  by (auto simp: init_strict_with_bucket_size_def split: if_splits)

lemma fleet_ok_step: "mm_step s s' \<Longrightarrow> fleet_ok s \<Longrightarrow> fleet_ok s'"
proof (induction rule: mm_step.induct)
  case (step_get i k hs mm)
  then show ?case using memory_id_new_bound db_inv_fresh by (auto simp: fleet_ok_def)
next
  case (step_grow j hs mm n r h mm')
  note v = fleet_handle [OF step_grow(3,1)]
  show ?case
    by (rule fleet_update [OF step_grow(3,1) handle_grow [OF v step_grow(2)]])
      (rule vec.grow_frame(1) [OF v _ step_grow(2)])
next
  case (step_read j hs mm off n bs h mm')
  note v = fleet_handle [OF step_read(3,1)]
  show ?case
    by (rule fleet_update [OF step_read(3,1) handle_read [OF v step_read(2)]])
      (rule vec.read_frame(1) [OF v _ step_read(2)])
next
  case (step_write j hs mm off bs h mm')
  note v = fleet_handle [OF step_write(3,1)]
  show ?case
    by (rule fleet_update [OF step_write(3,1) handle_write [OF v step_write(2)]])
      (rule vec.write_frame(1) [OF v _ step_write(2)])
next
  case (step_upgrade mm n mm' hs)
  then have "manager_ok mm" by (simp add: fleet_ok_def)
  then have "mm' = mm"
    using init_strict_nonzero [OF step_upgrade(1)] vec.reload(4) [of mm n] by simp
  with \<open>manager_ok mm\<close> show ?case by (simp add: fleet_ok_def)
qed

lemma fleet_ok_reachable: "mm_reachable s \<Longrightarrow> fleet_ok s"
proof (induction rule: mm_reachable.induct)
  case (reach_init a n mm)
  then have "0 < n" "mm_new vector_memory (vec_empty a) n = Some mm"
    by (auto simp: mm_init_strict_def vec_size_def vec_empty_def dest!: init_strict_nonzero
        split: option.splits)
  then have "manager_ok mm"
    using vec.mm_new_inv(1) [OF vec_inv_empty] reach_init by blast
  then show ?case by (simp add: fleet_ok_def)
next
  case (reach_step s s')
  then show ?case by (blast intro: fleet_ok_step)
qed

section \<open>A concrete manager\<close>

text \<open>A manager of eight-page buckets on an empty vector, and the same after memory 3 has grown
  by ten pages: the state the examples below are evaluated at.\<close>

definition sample_manager :: "vec_mem manager_inner" where
  "sample_manager = the (mm_new vector_memory (vec_empty 0) 8)"

definition sample_grown :: "vec_mem manager_inner" where
  "sample_grown = snd (the (mm_grow vector_memory sample_manager 3 10))"

lemma sample_manager_new:
  "mm_new vector_memory (vec_empty 0) 8 = Some sample_manager" "manager_ok sample_manager"
proof -
  obtain mm where mm: "mm_new vector_memory (vec_empty 0) 8 = Some mm" "manager_ok mm"
    by (rule mm_new_empty [of 8 0]) simp_all
  then have "sample_manager = mm" unfolding sample_manager_def by (simp only: option.sel)
  with mm show "mm_new vector_memory (vec_empty 0) 8 = Some sample_manager" "manager_ok sample_manager"
    by simp_all
qed

lemma mm_new_state:
  assumes "mm_new M m bs = Some mm"
  shows "bucket_size_in_pages mm = bs" "allocated_buckets mm = 0"
    "memory_sizes_in_pages mm = replicate MAX_NUM_MEMORIES 0"
  using assms by (auto simp: mm_new_def Let_def save_header_def split: option.splits)

lemma sample_manager_state:
  "bucket_size_in_pages sample_manager = 8" "allocated_buckets sample_manager = 0"
  "memory_sizes_in_pages sample_manager = replicate 255 0"
  using mm_new_state [OF sample_manager_new(1)] by (simp_all add: MAX_NUM_MEMORIES_def)

lemma sample_grow:
  "mm_grow vector_memory sample_manager 3 10 = Some (0, sample_grown)"
  "manager_ok sample_grown" "memory_sizes_in_pages sample_grown = (replicate 255 0)[3 := 10]"
proof (atomize (full), cases rule: vec_mm_grow_iff [OF sample_manager_new(2), of 3 10])
  case 2
  then show "mm_grow vector_memory sample_manager 3 10 = Some (0, sample_grown) \<and>
    manager_ok sample_grown \<and> memory_sizes_in_pages sample_grown = (replicate 255 0)[3 := 10]"
    by (simp add: grow_fits_def buckets_after_grow_def sample_manager_state memory_size_def
        num_buckets_needed_def div_ceil_def config_defs u64_max_def)
next
  case (3 mm')
  then show "mm_grow vector_memory sample_manager 3 10 = Some (0, sample_grown) \<and>
    manager_ok sample_grown \<and> memory_sizes_in_pages sample_grown = (replicate 255 0)[3 := 10]"
    by (auto simp: sample_grown_def sample_manager_state memory_size_def grown_def)
qed (simp add: config_defs)

lemma sample_handle: "db_inv (manager_get 3, sample_grown)" "vm_size (manager_get 3, sample_grown) = 10"
  using sample_grow(2,3) db_inv_fresh [of sample_grown 3]
  by (simp_all add: config_defs vm_size_def memory_size_def manager_get_def)

lemma sample_other: "db_inv (manager_get 4, sample_grown)"
  using sample_grow(2) db_inv_fresh [of sample_grown 4] by (simp add: config_defs)

section \<open>Guarantees\<close>

text \<open>C3. A virtual memory is a flat byte memory: a write in bounds succeeds, after it a read
  through the same handle returns the written bytes in their range and the old bytes elsewhere,
  whatever buckets the range crosses and whatever the translation cache holds, and an access
  beyond the end panics.\<close>

theorem virtual_memory_read_write:
  assumes "db_inv v" and "off + length bs \<le> vm_size v * STABLE_PAGE_SIZE"
  shows "\<exists>v'. vm_write vector_memory v off bs = Some v' \<and> db_inv v' \<and> vm_size v' = vm_size v \<and>
    (\<forall>off' n. 0 < n \<longrightarrow> (case vm_read vector_memory v' off' n of
        Some (r, _) \<Rightarrow> off' + n \<le> vm_size v * STABLE_PAGE_SIZE \<and>
          r = bytes_at (blit (db_byte v) off bs) off' n
      | None \<Rightarrow> vm_size v * STABLE_PAGE_SIZE < off' + n))"
proof -
  obtain v' where v': "vm_write vector_memory v off bs = Some v'" "db_inv v'" "vm_size v' = vm_size v"
    "db_byte v' = blit (db_byte v) off bs"
    using dbm.write_Some [of v off bs] assms by auto
  have "case vm_read vector_memory v' off' n of
      Some (r, _) \<Rightarrow> off' + n \<le> vm_size v * STABLE_PAGE_SIZE \<and> r = bytes_at (blit (db_byte v) off bs) off' n
    | None \<Rightarrow> vm_size v * STABLE_PAGE_SIZE < off' + n" if "0 < n" for off' n
    using dbm.read_ok [OF v'(2), of off' n] dbm.read_oob [OF v'(2) that, of off'] v'(3,4)
    by (cases "off' + n \<le> vm_size v * STABLE_PAGE_SIZE") auto
  with v'(1-3) show ?thesis by blast
qed

theorem virtual_memory_read_write_witness:
  "\<exists>v'. vm_write vector_memory (manager_get 3, sample_grown) 600000 [1, 2, 3] = Some v' \<and>
    (\<exists>h. vm_read vector_memory v' 600001 2 = Some ([2, 3], h))"
proof -
  let ?v = "(manager_get 3, sample_grown)"
  have "600000 + length [1, 2, 3 :: byte] \<le> vm_size ?v * STABLE_PAGE_SIZE"
    by (simp add: sample_handle config_defs)
  from virtual_memory_read_write [OF sample_handle(1) this]
  obtain v' where w: "vm_write vector_memory ?v 600000 [1, 2, 3] = Some v'"
    and r: "case vm_read vector_memory v' 600001 2 of
        Some (r, _) \<Rightarrow> 600001 + 2 \<le> vm_size ?v * STABLE_PAGE_SIZE \<and>
          r = bytes_at (blit (db_byte ?v) 600000 [1, 2, 3]) 600001 2
      | None \<Rightarrow> vm_size ?v * STABLE_PAGE_SIZE < 600001 + 2"
    by force
  have "bytes_at (blit (db_byte ?v) 600000 [1, 2, 3]) 600001 2 = [2, 3]"
    by (simp add: bytes_at_blit_slice slice_def)
  with r have "\<exists>h. vm_read vector_memory v' 600001 2 = Some ([2, 3], h)"
    by (auto simp: sample_handle(2) config_defs split: option.splits)
  with w show ?thesis by blast
qed

text \<open>C4. Virtual memories are isolated: a write through a handle of one memory changes no byte,
  no size and not the invariant of any other memory of the manager, and a read changes none of
  any memory.\<close>

theorem virtual_memory_isolation:
  assumes "db_inv (h, mm)" "db_inv (h', mm)" "vm_id h' \<noteq> vm_id h"
  shows "(vm_write vector_memory (h, mm) off bs = Some (h2, mm2) \<longrightarrow>
      db_inv (h', mm2) \<and> vm_size (h', mm2) = vm_size (h', mm) \<and> db_byte (h', mm2) = db_byte (h', mm)) \<and>
    (vm_read vector_memory (h, mm) off n = Some (r, h3, mm3) \<longrightarrow>
      db_inv (h', mm3) \<and> vm_size (h', mm3) = vm_size (h', mm) \<and> db_byte (h', mm3) = db_byte (h', mm))"
  using vec.write_frame [OF assms(1,2)] vec.read_frame [OF assms(1,2)] assms(3) by simp_all

theorem virtual_memory_isolation_witness:
  "\<exists>h2 mm2. vm_write vector_memory (manager_get 3, sample_grown) 5 [9] = Some (h2, mm2) \<and>
    db_byte (manager_get 4, mm2) = db_byte (manager_get 4, sample_grown)"
proof -
  let ?v = "(manager_get 3, sample_grown)"
  have "5 + length [9 :: byte] \<le> mem_size db_memory ?v * STABLE_PAGE_SIZE"
    by (simp add: sample_handle config_defs)
  then obtain h2 mm2 where w: "vm_write vector_memory ?v 5 [9] = Some (h2, mm2)"
    using dbm.write_ok [OF sample_handle(1)] by fastforce
  then show ?thesis
    using virtual_memory_isolation [OF sample_handle(1) sample_other, of 5 "[9]" h2 mm2] w
    by (auto simp: manager_get_def)
qed

text \<open>C5. Growing a virtual memory on the native backend succeeds exactly when the bucket table
  has room; it then returns the old size, adds the pages to that memory only and keeps every
  byte of every memory; when it fails it changes nothing.\<close>

theorem virtual_memory_grow:
  assumes "db_inv (h, mm)"
  shows "\<exists>r mm'. vm_grow vector_memory (h, mm) n = Some (r, h, mm') \<and> db_inv (h, mm') \<and>
    (if grow_fits mm (vm_id h) n
     then r = int (vm_size (h, mm)) \<and> vm_size (h, mm') = vm_size (h, mm) + n
     else r = - 1 \<and> mm' = mm) \<and>
    (\<forall>h'. db_inv (h', mm) \<longrightarrow> db_inv (h', mm') \<and>
      (vm_id h' \<noteq> vm_id h \<longrightarrow> vm_size (h', mm') = vm_size (h', mm)) \<and>
      (\<forall>i < vm_size (h', mm) * STABLE_PAGE_SIZE. db_byte (h', mm') i = db_byte (h', mm) i))"
proof -
  note i = vec.vinvD(1,2) [OF assms, unfolded fst_conv snd_conv]
  obtain r mm' where g: "vm_grow vector_memory (h, mm) n = Some (r, h, mm')"
    "if grow_fits mm (vm_id h) n then r = int (vm_size (h, mm)) else r = - 1 \<and> mm' = mm"
    by (cases rule: vec_mm_grow_iff [OF i, of n]) (auto simp: vm_grow_def vm_size_def)
  note f = vec.grow_frame [OF assms _ g(1)]
  from g f(1,2) [OF assms] f show ?thesis
    by (intro exI [of _ r] exI [of _ mm']) (auto split: if_splits)
qed

theorem virtual_memory_grow_witness:
  "\<exists>mm'. vm_grow vector_memory (manager_get 4, sample_grown) 0 = Some (0, manager_get 4, mm') \<and>
    db_inv (manager_get 4, mm')"
proof -
  have "memory_size sample_grown 4 = 0"
    by (simp add: memory_size_def sample_grow(3))
  moreover have "grow_fits sample_grown 4 0"
    using mm_invD(2) [OF sample_grow(2)] by (simp add: grow_fits_def buckets_after_grow_def calculation)
  ultimately show ?thesis
    using virtual_memory_grow [OF sample_other, of 0] by (auto simp: manager_get_def vm_size_def)
qed

text \<open>C6. Loading is sound, complete and total: from a memory of at least one page, \<open>try_load\<close>
  returns a manager exactly when the image is that manager's valid image, so a corrupt header
  or allocation table is an error and never a panic or a wrong manager.\<close>

theorem try_load_exact:
  assumes "vec_inv m" "1 \<le> vec_size m"
  shows "mm_try_load vector_memory m \<noteq> Panic \<and>
    (mm_try_load vector_memory m = Ok mm \<longleftrightarrow> mm_memory mm = m \<and> manager_ok mm)"
  using vec.mm_try_load_Ok_iff [of m mm] vec.mm_try_load_no_panic [of m] assms by simp

theorem try_load_exact_witness:
  "mm_try_load vector_memory (mm_memory sample_grown) = Ok sample_grown"
  using try_load_exact [of "mm_memory sample_grown" sample_grown] vec.minv_pages [OF sample_grow(2)]
    sample_grow(2) by simp

text \<open>C7. Every history is recovered: whatever handles were opened and whatever was grown, read
  and written since the memory was created, a strict load of the stable image after an upgrade
  gives back exactly the manager that was on the heap.\<close>

theorem upgrade_recovers_manager:
  assumes "mm_reachable (hs, mm)" "0 < n"
  shows "init_strict_with_bucket_size vector_memory (mm_memory mm) n = Ok mm"
  using fleet_ok_reachable [OF assms(1)] vec.reload(4) [of mm n] assms(2)
  by (simp add: fleet_ok_def init_strict_with_bucket_size_def)

lemma sample_reachable: "mm_reachable ([manager_get 3], sample_grown)"
proof -
  have "init_strict_with_bucket_size vector_memory (vec_empty 0) 8 = Ok sample_manager"
    by (simp add: init_strict_with_bucket_size_def mm_init_strict_def sample_manager_new(1))
      (simp add: vec_size_def vec_empty_def)
  then have "mm_reachable ([], sample_manager)" by (rule reach_init) simp
  then have "mm_reachable ([manager_get 3], sample_manager)"
    by (rule reach_step) (rule step_get [of 3], simp_all add: memory_id_new_def config_defs)
  moreover have "vm_grow vector_memory ([manager_get 3] ! 0, sample_manager) 10 =
      Some (0, manager_get 3, sample_grown)"
    by (simp add: vm_grow_def manager_get_def sample_grow(1))
  then have "mm_step ([manager_get 3], sample_manager) ([manager_get 3][0 := manager_get 3], sample_grown)"
    by (intro step_grow) simp_all
  ultimately show ?thesis using reach_step by fastforce
qed

theorem upgrade_recovers_manager_witness:
  "init_strict_with_bucket_size vector_memory (mm_memory sample_grown) 128 = Ok sample_grown"
  using upgrade_recovers_manager [OF sample_reachable] by simp

text \<open>C8. A strict initialisation never takes over a memory that is not its own: a bucket size of
  zero is refused, a non-empty memory without the magic is refused and left alone, and an empty
  memory becomes a manager whose 255 memories are empty.\<close>

theorem init_strict_guards:
  assumes "vec_inv m" "bs < 65536"
  shows "init_strict_with_bucket_size vector_memory m 0 = Err InitBucketSizeIsZero \<and>
    (0 < bs \<and> 1 \<le> vec_size m \<and> bytes_at (vec_byte m) 0 3 \<noteq> MGR_MAGIC \<longrightarrow>
      init_strict_with_bucket_size vector_memory m bs = Err NonMemoryManagerLayout) \<and>
    (0 < bs \<longrightarrow> (\<exists>mm. init_strict_with_bucket_size vector_memory (vec_empty a) bs = Ok mm \<and>
      manager_ok mm \<and> memory_sizes_in_pages mm = replicate 255 0))"
proof (intro conjI impI)
  show "init_strict_with_bucket_size vector_memory m 0 = Err InitBucketSizeIsZero"
    by (simp add: init_strict_with_bucket_size_def)
next
  assume "0 < bs \<and> 1 \<le> vec_size m \<and> bytes_at (vec_byte m) 0 3 \<noteq> MGR_MAGIC"
  then show "init_strict_with_bucket_size vector_memory m bs = Err NonMemoryManagerLayout"
    using vec.mm_init_strict_foreign [of m bs] assms(1) by (simp add: init_strict_with_bucket_size_def)
next
  assume bs: "0 < bs"
  obtain mm where mm: "mm_new vector_memory (vec_empty a) bs = Some mm" "manager_ok mm"
    by (rule mm_new_empty [OF bs assms(2)])
  have "vec_size (vec_empty a) = 0" by (simp add: vec_size_def vec_empty_def)
  with mm bs mm_new_state(3) [OF mm(1)]
  show "\<exists>mm. init_strict_with_bucket_size vector_memory (vec_empty a) bs = Ok mm \<and>
      manager_ok mm \<and> memory_sizes_in_pages mm = replicate 255 0"
    by (simp add: init_strict_with_bucket_size_def mm_init_strict_def MAX_NUM_MEMORIES_def)
qed

theorem init_strict_guards_witness:
  "init_strict_with_bucket_size vector_memory \<lparr>vec_addr = 0, vec_len = 65536, vec_byte = (\<lambda>_. 7)\<rparr> 128 =
    Err NonMemoryManagerLayout"
  using init_strict_guards [of "\<lparr>vec_addr = 0, vec_len = 65536, vec_byte = (\<lambda>_. 7)\<rparr>" 128]
  by (simp add: vec_inv_def vec_size_def config_defs u64_max_def bytes_at_def upt_rec)

end
