(* ===== verification/Sample_Db.thy ===== *)
theory Sample_Db
  imports Frames_Blob Memory_Manager_Props
begin

text \<open>
  The development on the memory of the crate: the contract of a database memory interpreted on
  \<open>DbMemory\<close>, a \<open>VirtualMemory\<close> of a \<open>MemoryManager\<close> on the native backend.  \<open>sample_world\<close> is the
  state after \<open>memory::init\<close> on memory 3 of a new manager, and \<open>sample_db\<close> the state after the
  first load of its superblock, which creates an empty database.
\<close>

type_synonym db_handle = vm_handle
type_synonym db_store = "vec_mem manager_inner"

interpretation sdb: db_mem db_memory db_inv db_byte
  by unfold_locales

text \<open>The bucket table bounds a virtual memory, so offsets in a database stay far below \<open>i64::MAX\<close>.\<close>

lemma vm_size_bound:
  assumes "db_inv v"
  shows "vm_size v \<le> 32768 * 65535" "vm_size v * STABLE_PAGE_SIZE \<le> 140735340871680"
proof -
  let ?mm = "snd v" and ?k = "vm_id (fst v)"
  have m: "manager_ok ?mm" "?k < MAX_NUM_MEMORIES" using assms by (simp_all add: vm_inv_def)
  note d = mm_invD [OF m(1)]
  have "div_ceil (vm_size v) (bucket_size_in_pages ?mm) = length (memory_buckets ?mm ! ?k)"
    using d(8) [OF m(2)] by (cases v) (simp add: vm_size_def)
  also have "\<dots> \<le> allocated_buckets ?mm"
    unfolding d(7) [OF m(2)] owned_buckets_def by (rule order_trans [OF length_filter_le]) simp
  finally have "vm_size v \<le> allocated_buckets ?mm * bucket_size_in_pages ?mm"
    using div_ceil_le_iff [OF d(3)] by blast
  also have "\<dots> \<le> 32768 * 65535"
    using d(2,4) by (intro mult_le_mono) (simp_all add: config_defs)
  finally show "vm_size v \<le> 32768 * 65535" .
  then show "vm_size v * STABLE_PAGE_SIZE \<le> 140735340871680" by (simp add: config_defs)
qed

section \<open>A concrete database\<close>

definition empty_world :: "db_store \<Rightarrow> (db_handle, db_store) vfs_world" where
  "empty_world s = \<lparr>next_context_id = 1, default_context = None, current_context = None, db_memory_slots = [],
     registered_memory = [], mem_store = s, superblock_cache = Map.empty, overlays = [],
     last_error = Map.empty, lock_level = []\<rparr>"

definition sample_world :: "(db_handle, db_store) vfs_world" where
  "sample_world = snd (memory_init (vm_identity vec_identity) (manager_get 3) (empty_world sample_manager))"

definition sample_db :: "(db_handle, db_store) vfs_world" where
  "sample_db = snd (sb_load db_memory sample_world)"

lemma sample_world_state:
  "active_context sample_world = Some 1" "active_mem sample_world = Some (manager_get 3, sample_manager)"
  "superblock_cache sample_world = Map.empty" "overlays sample_world = []" "current_context sample_world = None"
  "last_error sample_world = Map.empty" "lock_level sample_world = []"
  by (simp_all add: sample_world_def memory_init_def init_context_def reject_registered_memory_def
      empty_world_def active_context_def active_mem_def tryS_def modifyS_def retS_def checked_add_def
      u64_max_def Let_def)

lemma sample_memory: "db_inv (manager_get 3, sample_manager)" "vm_size (manager_get 3, sample_manager) = 0"
  using db_inv_fresh [OF sample_manager_new(2), of 3]
  by (simp_all add: config_defs vm_size_def memory_size_def manager_get_def sample_manager_state)

lemma sample_grow_one: "\<exists>v. vm_grow vector_memory (manager_get 3, sample_manager) 1 = Some (0, v)"
proof (cases rule: vec_mm_grow_iff [OF sample_manager_new(2), of 3 1])
  case 2
  then show ?thesis
    by (simp add: grow_fits_def buckets_after_grow_def sample_manager_state memory_size_def
        num_buckets_needed_def div_ceil_def config_defs u64_max_def)
next
  case (3 mm')
  then show ?thesis by (simp add: vm_grow_def manager_get_def sample_manager_state memory_size_def)
qed (simp add: config_defs)

context db_mem
begin

lemma first_write_no_error:
  assumes w: "active_mem w = Some v" and v: "mem_size V v = 0" and g: "mem_grow V v 1 = Some (r, v1)" "0 \<le> r"
    and bs: "bs \<noteq> []" "length bs \<le> STABLE_PAGE_SIZE"
  shows "memory_write V SUPERBLOCK_OFFSET bs w \<noteq> (Err e, w')"
proof -
  have pages: "div_ceil (length bs) STABLE_PAGE_SIZE = 1"
    using bs div_ceil_le_iff [of STABLE_PAGE_SIZE "length bs" 1] less_div_ceil_iff [of STABLE_PAGE_SIZE 0 "length bs"]
    by (simp add: le_antisym)
  have "length bs \<le> u64_max" using bs(2) by (simp add: config_defs u64_max_def)
  moreover have "ensure_memory_capacity V (length bs) v = (Ok (), v1)"
    using v g bs(1) pages by (simp add: ensure_memory_capacity_def call_grow_def tryS_def Let_def checked_mul_def)
  then have "fst (tryS (ensure_memory_capacity V (length bs)) (\<lambda>_. call_write V 0 bs) v) \<noteq> Err e"
    by (simp add: call_write_def split: option.splits)
  then have "fst (with_memory (tryS (ensure_memory_capacity V (length bs)) (\<lambda>_. call_write V 0 bs)) w) \<noteq> Err e"
    using with_memory_run [OF w] by (metis prod.collapse fst_conv)
  ultimately show ?thesis
    using bs(1) by (simp add: memory_write_def memory_checked_end_def SUPERBLOCK_OFFSET_def checked_add_def) (metis fst_conv)
qed

lemma first_load:
  assumes w: "active_mem w = Some v" and v: "inv v" "mem_size V v = 0" and g: "mem_grow V v 1 = Some (r, v1)" "0 \<le> r"
    and c: "active_context w = Some c" "superblock_cache w c = None"
  obtains w' v' where "sb_load V w = (Ok fresh, w')" "holds w' v' fresh" "touches w w'"
proof (cases rule: load_fresh [OF w v c])
  case (1 w' v')
  then show ?thesis using that by blast
next
  case (2 e)
  let ?e = "take (encoded_len fresh) (encode fresh)"
  have le: "length ?e \<le> STABLE_PAGE_SIZE" "?e \<noteq> []"
    using encoded_len_le [of fresh] length_encode [of fresh] fresh_ok(1)
    by (auto simp: sb_ok_def config_defs)
  have val: "validate_zero_extents fresh = Inr ()" using storable_fresh by (simp add: storable_sb_def)
  have ac: "active_context_id w = (Ok c, w)" using c by (simp add: active_context_id_def)
  have "sb_load V w = tryS (sb_store V fresh) (\<lambda>_. retS fresh) w"
    using ac c v(2) size_pages_active [OF w] by (simp add: sb_load_def)
  then have "fst (sb_load V w) \<noteq> Err e"
    using first_write_no_error [OF w v(2) g le(2,1)] val
    by (auto simp: sb_store_def store_with_capacity_check_def Let_def tryS_def retS_def modifyS_def
        split: prod.splits outcome.splits)
  with 2 show ?thesis by simp
qed

end

lemma fresh_fields [simp]:
  "db_size fresh = 0" "db_base_offset fresh = DB_REGION_OFFSET" "\<not> is_importing fresh" "last_tx_id fresh = 0"
  "\<not> is_checksum_refreshing fresh"
  by (simp_all add: fresh_def Let_def is_importing_def is_checksum_refreshing_def)

lemma sample_load:
  "sb_load db_memory sample_world = (Ok fresh, sample_db)" "\<exists>v. sdb.db_at sample_db v fresh"
  "active_overlay sample_db = None" "active_context sample_db = Some 1" "current_context sample_db = None"
proof -
  note sw = sample_world_state and sm = sample_memory
  obtain v1 where g: "vm_grow vector_memory (manager_get 3, sample_manager) 1 = Some (0, v1)"
    using sample_grow_one by blast
  obtain w' v' where l: "sb_load db_memory sample_world = (Ok fresh, w')" "sdb.holds w' v' fresh" "touches sample_world w'"
    by (rule sdb.first_load [OF sw(2) sm(1), of 0 v1 1]) (use g sm(2) sw in auto)
  then have w': "sample_db = w'" by (simp add: sample_db_def)
  show "sb_load db_memory sample_world = (Ok fresh, sample_db)" using l(1) w' by simp
  have "img_placed fresh (vm_size v' * STABLE_PAGE_SIZE)"
    using sdb.holdsD(6) [OF l(2)] by (simp add: img_placed_def config_defs)
  then have "sdb.db_at sample_db v' fresh"
    using l(2) touches_overlays [OF l(3)] sw(4) w' by (simp add: sdb.db_at_def)
  then show "\<exists>v. sdb.db_at sample_db v fresh" by blast
  show "active_overlay sample_db = None"
    using touches_active_overlay [OF l(3)] sw(4) w' by (simp add: active_overlay_map sw(1))
  show "active_context sample_db = Some 1" "current_context sample_db = None"
    using touches_active [OF l(3)] touches_fields(3) [OF l(3)] sw w' by simp_all
qed

end
