(* ===== verification/Blob_File.thy ===== *)
theory Blob_File
  imports Sample_Db
begin

text \<open>
  The database file on the crate's memory implements the abstract file: \<open>blob_repr w a\<close> says that
  the file of the active context holds \<open>a\<close>, either published (no update is running) or in the
  overlay of the running update.
\<close>

definition blob_repr :: "(db_handle, db_store, 'z) blob_world_scheme \<Rightarrow> afile \<Rightarrow> bool" where
  "blob_repr w a \<longleftrightarrow> (\<exists>v b. sdb.db_at w v b \<and> active_overlay w = None \<and> a = sdb.file_of v b) \<or>
     (\<exists>v b ov. sdb.updating w v b ov \<and> a = ov_content (img_byte b (db_byte v)) ov)"

lemma blob_reprI:
  "sdb.db_at w v b \<Longrightarrow> active_overlay w = None \<Longrightarrow> blob_repr w (sdb.file_of v b)"
  "sdb.updating w v b ov \<Longrightarrow> blob_repr w (ov_content (img_byte b (db_byte v)) ov)"
  unfolding blob_repr_def by blast+

lemma blob_reprE:
  assumes "blob_repr w a"
  obtains (idle) v b where "sdb.db_at w v b" "active_overlay w = None" "a = sdb.file_of v b"
  | (updating) v b ov where "sdb.updating w v b ov" "a = ov_content (img_byte b (db_byte v)) ov"
  using assms unfolding blob_repr_def by blast

lemma blob_read_repr:
  assumes "blob_repr w a"
  shows "\<exists>w'. blob_read_at db_memory off n w = (Ok (afile_read off n a), w') \<and> blob_repr w' a"
  using assms
proof (cases rule: blob_reprE)
  case (idle v b)
  obtain w' v' where "blob_read_at db_memory off n w = (Ok (afile_read off n (sdb.file_of v b)), w')"
    "sdb.db_at w' v' b" "sdb.same_mem v v'" "active_overlay w' = None"
    using sdb.idle_read_ok [OF idle(1,2)] by metis
  then show ?thesis using blob_reprI(1) [of w' v' b] sdb.file_of_same [of v v' b] idle(3) by auto
next
  case (updating v b ov)
  then show ?thesis using sdb.update_read_ok [OF updating(1), of off n] blob_reprI(2) by metis
qed

lemma blob_write_repr:
  assumes "blob_repr w a" "blob_write_at db_memory off bs w = (Ok (), w')"
  shows "blob_repr w' (afile_write off bs a)"
  using assms(1)
proof (cases rule: blob_reprE)
  case (idle v b)
  then show ?thesis
    using sdb.direct_write_ok [OF idle(1,2), of off bs] assms(2) blob_reprI(1)
    by (fastforce simp: sdb.direct_outcome_def)
next
  case (updating v b ov)
  show ?thesis
  proof (cases rule: sdb.update_write_cases [OF updating(1), of off bs])
    case (1 w1 v1 ov1)
    then show ?thesis using blob_reprI(2) [OF 1(2)] updating(2) assms(2) by simp
  next
    case 2
    then show ?thesis using assms(2) by simp
  qed
qed

lemma blob_truncate_repr:
  assumes "blob_repr w a" "n \<le> u64_max" "blob_truncate db_memory n w = (Ok (), w')"
  shows "blob_repr w' (afile_truncate n a)"
  using assms(1)
proof (cases rule: blob_reprE)
  case (idle v b)
  then show ?thesis
    using sdb.direct_truncate_ok [OF idle(1,2) assms(2)] assms(3) blob_reprI(1)
    by (fastforce simp: sdb.direct_outcome_def)
next
  case (updating v b ov)
  show ?thesis
  proof (cases rule: sdb.update_truncate_cases [OF updating(1) assms(2)])
    case (1 w1 v1 ov1)
    then show ?thesis using blob_reprI(2) [OF 1(2)] updating(2) assms(3) by simp
  next
    case 2
    then show ?thesis using assms(3) by simp
  qed
qed

interpretation blob: file_ops blob_repr "blob_read_at db_memory" "blob_write_at db_memory" "blob_truncate db_memory"
proof (unfold_locales, goal_cases)
  case (1 w a)
  then show ?case by (cases rule: blob_reprE) (simp_all add: sdb.file_of_wf ov_content_wf)
next
  case (2 w a n off)
  then show ?case using blob_read_repr [of w a off n] by blast
next
  case (3 w a bs off w')
  then show ?case using blob_write_repr by blast
next
  case (4 w a n w')
  then show ?case using blob_truncate_repr by blast
qed

lemma sample_repr: "blob_repr sample_db (0, \<lambda>_. 0)"
proof -
  obtain v where "sdb.db_at sample_db v fresh" using sample_load(2) by blast
  moreover have "sdb.file_of v fresh = (0, \<lambda>_. 0)" by (simp add: sdb.file_of_def img_byte_def fun_eq_iff)
  ultimately show ?thesis using blob_reprI(1) sample_load(3) by metis
qed

end
