(* ===== verification/Blob_Props.thy ===== *)
theory Blob_Props
  imports Blob_File
begin

text \<open>
  What the storage layer guarantees on the crate's memory: the superblock, the database file,
  updates, imports and checksums.
\<close>

section \<open>Examples\<close>

lemma sample_at: obtains v where "sdb.db_at sample_db v fresh" "sdb.file_of v fresh = (0, \<lambda>_. 0)"
proof -
  obtain v where "sdb.db_at sample_db v fresh" using sample_load(2) by blast
  moreover have "sdb.file_of v fresh = (0, \<lambda>_. 0)" by (simp add: sdb.file_of_def img_byte_def fun_eq_iff)
  ultimately show thesis using that by blast
qed

section \<open>Updates\<close>

text \<open>C9. An update is atomic.  Whatever reads, writes and truncates it performs, either it succeeds
  and the published file is the one those operations make of the old file, or it returns an error
  and the published file and the superblock are unchanged; it never panics, the database stays
  valid and no overlay is left behind.\<close>

theorem update_is_atomic:
  assumes "sdb.db_at w v b" "active_overlay w = None" "\<not> is_importing b" "list_all op_valid ops"
  shows "\<exists>r w' v' b'. update_session db_memory ops w = (r, w') \<and> r \<noteq> Panic \<and>
    sdb.db_at w' v' b' \<and> active_overlay w' = None \<and>
    (r = Ok () \<longrightarrow> sdb.file_of v' b' = fold apply_op ops (sdb.file_of v b)) \<and>
    (r \<noteq> Ok () \<longrightarrow> b' = b \<and> sdb.file_of v' b' = sdb.file_of v b)"
proof -
  obtain r w' where run: "update_session db_memory ops w = (r, w')" by fastforce
  from sdb.update_session_atomic [OF assms] obtain v' b' where
    "sdb.db_at w' v' b'" "active_overlay w' = None"
    "if r = Ok () then sdb.file_of v' b' = fold apply_op ops (sdb.file_of v b)
     else (\<exists>e. r = Err e) \<and> b' = b \<and> sdb.same_mem v v'"
    unfolding sdb.all_or_nothing_def run fst_conv snd_conv by blast
  then show ?thesis
    using run sdb.file_of_same [of v v' b]
    by (intro exI [of _ r] exI [of _ w'] exI [of _ v'] exI [of _ b']) (auto split: if_splits)
qed

theorem update_is_atomic_witness:
  "\<exists>r w' v' b'. update_session db_memory [OpWrite 0 [1, 2, 3], OpTruncate 2] sample_db = (r, w') \<and> r \<noteq> Panic \<and>
    (r = Ok () \<longrightarrow> afile_bytes (sdb.file_of v' b') = [1, 2])"
proof -
  obtain v where v: "sdb.db_at sample_db v fresh" "sdb.file_of v fresh = (0, \<lambda>_. 0)" by (rule sample_at)
  have "list_all op_valid [OpWrite 0 [1, 2, 3], OpTruncate 2]" by (simp add: u64_max_def)
  from update_is_atomic [OF v(1) sample_load(3) fresh_fields(3) this] obtain r w' v' b' where
    r: "update_session db_memory [OpWrite 0 [1, 2, 3], OpTruncate 2] sample_db = (r, w')" "r \<noteq> Panic"
      "r = Ok () \<longrightarrow> sdb.file_of v' b' = fold apply_op [OpWrite 0 [1, 2, 3], OpTruncate 2] (sdb.file_of v fresh)"
    by blast
  have "afile_bytes (fold apply_op [OpWrite 0 [1, 2, 3], OpTruncate 2] (0, \<lambda>_. 0)) = [1, 2]"
    by (simp add: afile_bytes_def afile_write_def afile_truncate_def bytes_at_def blit_def)
  with r v(2) show ?thesis by (intro exI [of _ r] exI [of _ w'] exI [of _ v'] exI [of _ b']) simp
qed

text \<open>C10. The database file refines the abstract file, during an update and outside one: every read
  succeeds and returns the bytes of the file with zeros beyond its end and whether it was complete,
  a write or truncate that succeeds has the abstract effect, and a write is read back.\<close>

theorem blob_refines_file:
  assumes "blob_repr w a"
  shows "(\<exists>w'. blob_read_at db_memory off n w = (Ok (afile_read off n a), w') \<and> blob_repr w' a) \<and>
    (\<forall>w'. blob_write_at db_memory off bs w = (Ok (), w') \<longrightarrow> blob_repr w' (afile_write off bs a) \<and>
      (bs \<noteq> [] \<longrightarrow> (\<exists>w''. blob_read_at db_memory off (length bs) w' = (Ok (bs, True), w'')))) \<and>
    (n \<le> u64_max \<longrightarrow> (\<forall>w'. blob_truncate db_memory n w = (Ok (), w') \<longrightarrow> blob_repr w' (afile_truncate n a)))"
proof -
  have "\<exists>w''. blob_read_at db_memory off (length bs) w' = (Ok (bs, True), w'')"
    if "blob_write_at db_memory off bs w = (Ok (), w')" "bs \<noteq> []" for w'
    using blob_read_repr [OF blob_write_repr [OF assms that(1)], of off "length bs"]
      afile_read_write_same [OF that(2)] by metis
  then show ?thesis using blob_read_repr [OF assms] blob_write_repr [OF assms] blob_truncate_repr [OF assms] by blast
qed

theorem blob_refines_file_witness:
  "\<exists>w'. blob_read_at db_memory 5 3 sample_db = (Ok ([0, 0, 0], False), w')"
proof -
  have "afile_read 5 3 (0, \<lambda>_. 0) = ([0, 0, 0], False)" by (simp add: afile_read_def bytes_at_def upt_rec)
  then show ?thesis using blob_refines_file [OF sample_repr, of 5 3] by metis
qed

text \<open>C11. Readers are isolated from a running update: whatever the update has written, a read of the
  published image returns the bytes of the file as it was when the update began.\<close>

theorem update_isolation:
  assumes "sdb.updating w v b ov" "list_all op_valid ops" "run_ops db_memory ops w = (Ok (), w')"
  shows "\<exists>w''. read_base_at db_memory off n w' = (Ok (afile_read off n (sdb.file_of v b)), w'')"
proof -
  obtain v' ov' where u: "sdb.updating w' v' b ov'" "sdb.same_mem v v'"
    using sdb.run_ops_cases [OF assms(1,2)] assms(3) by force
  then have h: "sdb.holds w' v' b" "img_placed b (mem_size db_memory v' * STABLE_PAGE_SIZE)"
    by (simp_all add: sdb.updating_def sdb.db_at_def)
  have "\<exists>w''. tryS (sb_load db_memory) (\<lambda>block. read_base_at_with_block db_memory block off n) w' =
      (Ok (afile_read off n (sdb.file_of v' b)), w'')"
    using sdb.read_base_steady [OF sdb.steady_refl [OF h(1)] h(2), of off n] by blast
  then show ?thesis
    using sdb.file_of_same [OF u(2), of b] by (auto simp: read_base_at_def retS_def afile_read_def)
qed

theorem update_isolation_witness:
  "\<exists>w1 r w'. begin_update db_memory sample_db = (Ok 0, w1) \<and> run_ops db_memory [OpWrite 0 [7]] w1 = (r, w') \<and>
    (r = Ok () \<longrightarrow> (\<exists>w''. read_base_at db_memory 0 1 w' = (Ok ([0], False), w'')))"
proof -
  obtain v where v: "sdb.db_at sample_db v fresh" "sdb.file_of v fresh = (0, \<lambda>_. 0)" by (rule sample_at)
  obtain w1 v1 ov where u: "begin_update db_memory sample_db = (Ok 0, w1)" "sdb.updating w1 v1 fresh ov" "sdb.same_mem v v1"
    using sdb.begin_update_ok [OF v(1) sample_load(3) fresh_fields(3)] fresh_fields(1) by metis
  obtain r w' where r: "run_ops db_memory [OpWrite 0 [7]] w1 = (r, w')" by fastforce
  have "afile_read 0 1 (sdb.file_of v1 fresh) = ([0], False)"
    using sdb.file_of_same [OF u(3), of fresh] v(2) by (simp add: afile_read_def bytes_at_def)
  then show ?thesis
    using u(1) r update_isolation [OF u(2), of "[OpWrite 0 [7]]" w' 0 1] by simp
qed

section \<open>The superblock\<close>

text \<open>C20. The superblock's encoding is faithful: a block whose fields fit their widths and that has
  at most \<open>MAX_ZERO_EXTENTS\<close> extents is decoded to itself, also when the bytes behind its encoded
  length are left over from another block, and it fits the reserved page.\<close>

theorem superblock_roundtrip:
  assumes "sb_ok b" "length (zero_extents b) \<le> MAX_ZERO_EXTENTS"
  shows "decode (encode b) = b \<and> length (encode b) \<le> SUPERBLOCK_SIZE \<and>
    (\<forall>rest. decode (take (encoded_len b) (encode b) @ rest) = b)"
proof -
  have len: "length (encode b) = ENCODED_LEN" using length_encode assms(1) by (simp add: sb_ok_def)
  then have "length (take (encoded_len b) (encode b)) = encoded_len b" using encoded_len_le(1) [of b] by simp
  then show ?thesis
    using decode_prefix [OF assms] len by (simp add: config_defs)
qed

theorem superblock_roundtrip_witness: "decode (encode fresh) = fresh"
  using superblock_roundtrip [OF fresh_ok(1)] fresh_ok(2) by simp

text \<open>C19. What is stored is loaded: after a successful start any storable block can be stored, and
  with the cache of superblocks lost, as after an upgrade, the load reads back that block with
  its version and checksum, whatever was stored before.\<close>

theorem store_then_load:
  assumes "sdb.db_at w v b" "storable_sb b'" "img_placed b' (vm_size v * STABLE_PAGE_SIZE)"
  shows "\<exists>w' w''. sb_store db_memory b' w = (Ok (), w') \<and>
    sb_load db_memory (clear_superblock_cache w') = (Ok (seal b'), w'')"
proof -
  obtain w' v' where s: "sb_store db_memory b' w = (Ok (), w')" "sdb.db_at w' v' (seal b')"
    using sdb.db_at_store [OF assms(1,2)] assms(3) by (metis virtual_memory_simps(1))
  then have "sdb.holds (clear_superblock_cache w') v' (seal b')"
    by (simp add: sdb.db_at_def sdb.holds_def clear_superblock_cache_def)
  then show ?thesis using s(1) sdb.load_ok by metis
qed

theorem store_then_load_witness:
  "\<exists>w' w''. sb_store db_memory (fresh\<lparr>schema_version := 7\<rparr>) sample_db = (Ok (), w') \<and>
    sb_load db_memory (clear_superblock_cache w') = (Ok (seal (fresh\<lparr>schema_version := 7\<rparr>)), w'')"
proof -
  obtain v where v: "sdb.db_at sample_db v fresh" by (rule sample_at)
  have "storable_sb (fresh\<lparr>schema_version := 7\<rparr>)"
    using sdb.storable_fresh by (auto simp: storable_sb_def sb_ok_def u64_max_def validate_zero_extents_def split: if_splits)
  moreover have "img_placed (fresh\<lparr>schema_version := 7\<rparr>) (vm_size v * STABLE_PAGE_SIZE)"
    using v by (simp add: sdb.db_at_def img_placed_def)
  ultimately show ?thesis by (rule store_then_load [OF v])
qed

text \<open>C21. Loading accepts exactly what storing writes: a buffer is accepted as the block \<open>b\<close> if and only
  if \<open>b\<close> is some storable block (its fields fit their types, it has the right magic and layout version
  and at most 1024 sorted, non-empty, non-adjacent extents) with version and checksum set, and the buffer
  begins with the bytes that storing that block writes.  Anything else is refused with an error.\<close>

theorem load_accepts_exactly:
  assumes "length bs = ENCODED_LEN"
  shows "check_loaded bs = Inr b \<longleftrightarrow>
    (\<exists>b'. storable_sb b' \<and> b = seal b' \<and> take (encoded_len b) bs = take (encoded_len b) (encode b))"
proof
  assume "check_loaded bs = Inr b"
  then have d: "decode bs = b" "valid_sb b" "eight bs 144 \<le> MAX_ZERO_EXTENTS"
    using check_loaded_iff [OF assms] by simp_all
  have "take (encoded_len b) bs = take (encoded_len b) (encode b)"
    using encode_decode_prefix [OF assms d(3)] d(1) by simp
  then show "\<exists>b'. storable_sb b' \<and> b = seal b' \<and> take (encoded_len b) bs = take (encoded_len b) (encode b)"
    using storable_valid [OF d(2)] seal_valid [OF d(2)] by metis
next
  assume "\<exists>b'. storable_sb b' \<and> b = seal b' \<and> take (encoded_len b) bs = take (encoded_len b) (encode b)"
  then have v: "valid_sb b" and p: "take (encoded_len b) bs = take (encoded_len b) (encode b)"
    using valid_seal by auto
  have k: "sb_ok b" "length (zero_extents b) \<le> MAX_ZERO_EXTENTS"
    using v by (simp_all add: valid_sb_def validate_zero_extents_iff)
  have "slice bs 144 8 = slice (encode b) 144 8"
    using p slice_take [of 144 8 "encoded_len b" bs] slice_take [of 144 8 "encoded_len b" "encode b"] encoded_len_le(2) [of b] by simp
  then have "eight bs 144 = length (zero_extents b)"
    using k slice_encode [of b 144 8] fixed_fields(20) [of b] by (simp add: sb_ok_def eight_def config_defs u64_max_def)
  then show "check_loaded bs = Inr b"
    using check_loaded_iff [OF assms] decode_prefix [OF k p] v k(2) by simp
qed

theorem load_accepts_exactly_witness:
  "check_loaded (encode fresh) = Inr fresh \<and> (\<forall>b. check_loaded (replicate ENCODED_LEN 0) \<noteq> Inr b)"
proof -
  have s: "storable_sb fresh" "seal fresh = fresh"
    using sdb.storable_fresh by (simp_all add: fresh_def seal_def compute_meta_checksum_def Let_def)
  have l: "length (encode fresh) = ENCODED_LEN" using fresh_ok(1) by (simp add: length_encode sb_ok_def)
  have a: "check_loaded (encode fresh) = Inr fresh"
    by (rule iffD2 [OF load_accepts_exactly [OF l, of fresh]], rule exI [of _ fresh]) (simp add: s)
  have "check_loaded (replicate ENCODED_LEN 0) \<noteq> Inr b" for b
  proof
    assume "check_loaded (replicate ENCODED_LEN 0) = Inr b"
    then obtain b' where b: "storable_sb b'" "b = seal b'"
      and p: "take (encoded_len b) (replicate ENCODED_LEN (0 :: byte)) = take (encoded_len b) (encode b)"
      using load_accepts_exactly [of "replicate ENCODED_LEN 0" b] by auto
    have m: "sb_magic b = SB_MAGIC" using b by (simp add: storable_sb_def)
    have "encode b ! 0 = replicate ENCODED_LEN (0 :: byte) ! 0"
      using encoded_len_le(2) [of b] by (metis (no_types) p nth_take less_le_trans zero_less_numeral)
    then show False using m by (simp add: encode_def encode_fixed_def Let_def config_defs nth_append)
  qed
  then show ?thesis using a by blast
qed

text \<open>C22. Zero extents are kept in normal form: normalising keeps the set of masked pages and gives
  sorted, non-empty, non-adjacent extents, and two lists have the same normal form exactly when
  they mask the same pages; adding and subtracting an interval act as union and difference and keep
  the normal form.\<close>

theorem zero_extents_normal_form:
  "normal_extents (normalize_zero_extents_without_limit es) \<and>
   (\<forall>p. zero_masked (normalize_zero_extents_without_limit es) p \<longleftrightarrow> zero_masked es p) \<and>
   (normalize_zero_extents_without_limit es = normalize_zero_extents_without_limit es' \<longleftrightarrow>
      (\<forall>p. zero_masked es p \<longleftrightarrow> zero_masked es' p)) \<and>
   (\<forall>p. zero_masked (add_zero_extent_without_limit es m n) p \<longleftrightarrow> zero_masked es p \<or> (m \<le> p \<and> p < n)) \<and>
   (\<forall>p. zero_masked (subtract_zero_extent_without_limit es m n) p \<longleftrightarrow> zero_masked es p \<and> \<not> (m \<le> p \<and> p < n)) \<and>
   (normal_extents es \<longrightarrow> normal_extents (add_zero_extent_without_limit es m n) \<and>
      normal_extents (subtract_zero_extent_without_limit es m n))"
proof -
  let ?n = normalize_zero_extents_without_limit
  have "?n es = ?n es' \<longleftrightarrow> (\<forall>p. zero_masked es p \<longleftrightarrow> zero_masked es' p)"
    using normal_extents_unique [of "?n es" "?n es'"] normalize_spec by metis
  then show ?thesis using normalize_spec add_zero_extent_normal subtract_zero_extent_normal by simp
qed

text \<open>Adding the pages 4 to 6 to the extents 2-4 and 9-12 joins the first, subtracting 10 to 11 splits the second.\<close>

theorem zero_extents_normal_form_witness:
  "add_zero_extent_without_limit [\<lparr>start_page = 2, end_page = 4\<rparr>, \<lparr>start_page = 9, end_page = 12\<rparr>] 4 6 =
     [\<lparr>start_page = 2, end_page = 6\<rparr>, \<lparr>start_page = 9, end_page = 12\<rparr>] \<and>
   normal_extents (add_zero_extent_without_limit [\<lparr>start_page = 2, end_page = 4\<rparr>, \<lparr>start_page = 9, end_page = 12\<rparr>] 4 6) \<and>
   subtract_zero_extent_without_limit [\<lparr>start_page = 2, end_page = 4\<rparr>, \<lparr>start_page = 9, end_page = 12\<rparr>] 10 11 =
     [\<lparr>start_page = 2, end_page = 4\<rparr>, \<lparr>start_page = 9, end_page = 10\<rparr>, \<lparr>start_page = 11, end_page = 12\<rparr>] \<and>
   normal_extents (subtract_zero_extent_without_limit [\<lparr>start_page = 2, end_page = 4\<rparr>, \<lparr>start_page = 9, end_page = 12\<rparr>] 10 11)"
proof -
  let ?es = "[\<lparr>start_page = 2, end_page = 4\<rparr>, \<lparr>start_page = 9, end_page = 12\<rparr>]"
  have "normal_extents ?es" by (simp add: normal_extents_def)
  then have "normal_extents (add_zero_extent_without_limit ?es 4 6)"
    "normal_extents (subtract_zero_extent_without_limit ?es 10 11)"
    using zero_extents_normal_form [of ?es ?es 4 6] zero_extents_normal_form [of ?es ?es 10 11] by blast+
  moreover have "add_zero_extent_without_limit ?es 4 6 = [\<lparr>start_page = 2, end_page = 6\<rparr>, \<lparr>start_page = 9, end_page = 12\<rparr>]"
    by code_simp
  moreover have "subtract_zero_extent_without_limit ?es 10 11 =
      [\<lparr>start_page = 2, end_page = 4\<rparr>, \<lparr>start_page = 9, end_page = 10\<rparr>, \<lparr>start_page = 11, end_page = 12\<rparr>]"
    by code_simp
  ultimately show ?thesis by blast
qed

end
