(* ===== verification/Import_Room.thy ===== *)
theory Import_Room
  imports Blob_Props
begin

text \<open>
  When an import cannot fail.  \<open>room v n\<close>: the memory \<open>v\<close> can be grown to \<open>n\<close> pages.  No operation of the
  storage layer takes this away, and while there is room no chunk of an import is refused.  On the memory of
  the crate there is room as long as the buckets of the manager are enough.
\<close>

section \<open>Memories with room to grow\<close>

locale room_mem = db_mem V inv byte_of
  for V :: "('h \<times> 's) memory_ops" and inv byte_of +
  fixes room :: "'h \<times> 's \<Rightarrow> nat \<Rightarrow> bool"
  assumes room_read: "inv v \<Longrightarrow> mem_read V v off k = Some (bs, v') \<Longrightarrow> inv v' \<and> (\<forall>n. room v n \<longrightarrow> room v' n)"
    and room_write: "inv v \<Longrightarrow> mem_write V v off xs = Some v' \<Longrightarrow> inv v' \<and> (\<forall>n. room v n \<longrightarrow> room v' n)"
    and room_kept: "inv v \<Longrightarrow> mem_grow V v k = Some (r, v') \<Longrightarrow> inv v' \<and> (\<forall>n. room v n \<longrightarrow> room v' n)"
    and room_grow: "inv v \<Longrightarrow> room v n \<Longrightarrow> mem_size V v + k \<le> n \<Longrightarrow> \<exists>r v'. mem_grow V v k = Some (r, v') \<and> 0 \<le> r"

sublocale room_mem \<subseteq> rf: mem_frame V "\<lambda>v v'. inv v \<longrightarrow> inv v' \<and> (\<forall>n. room v n \<longrightarrow> room v' n)"
proof (unfold_locales, goal_cases)
  case 1
  show ?case by (auto simp: pre_def reflp_def transp_def)
next
  case (2 v off k bs v')
  then show ?case using room_read by blast
next
  case (3 v off xs v')
  then show ?case using room_write by blast
next
  case (4 v k r v')
  then show ?case using room_kept by blast
qed

context room_mem
begin

lemma frame_room:
  assumes "rf.frame w w'" "active_mem w = Some v" "inv v" "active_mem w' = Some v'" "room v n"
  shows "room v' n"
  using assms by (auto simp: rf.frame_def rf.mem_rel_def)

lemma ensure_room:
  assumes v: "inv v" and r: "room v n" and e: "e \<le> n * STABLE_PAGE_SIZE"
  obtains v' where "ensure_memory_capacity V e v = (Ok (), v')"
proof (cases "e \<le> cap v")
  case True
  then show thesis using that [of v] size_bound [OF v] by (simp add: ensure_memory_capacity_def checked_mul_def)
next
  case False
  let ?k = "div_ceil (e - cap v) STABLE_PAGE_SIZE"
  have "e - cap v \<le> (n - mem_size V v) * STABLE_PAGE_SIZE" using e by (simp add: diff_mult_distrib)
  then have "?k \<le> n - mem_size V v" using div_ceil_le_iff [of STABLE_PAGE_SIZE] by (simp add: config_defs)
  moreover have "mem_size V v < n" using False e by (metis le_trans mult_le_mono1 not_le)
  ultimately have "mem_size V v + ?k \<le> n" by linarith
  then obtain p v' where "mem_grow V v ?k = Some (p, v')" "0 \<le> p" using room_grow [OF v r] by blast
  then show thesis
    using that [of v'] False size_bound [OF v] by (simp add: ensure_memory_capacity_def checked_mul_def call_grow_def Let_def)
qed

lemma memory_write_room:
  assumes w: "active_mem w = Some v" and v: "inv v" and r: "room v n" and e: "off + length bs \<le> n * STABLE_PAGE_SIZE" "off + length bs \<le> u64_max"
  shows "memory_write V off bs w \<noteq> (Err err, w')"
proof -
  obtain v' where "ensure_memory_capacity V (off + length bs) v = (Ok (), v')" by (rule ensure_room [OF v r e(1)])
  then have "fst (tryS (ensure_memory_capacity V (off + length bs)) (\<lambda>_. call_write V off bs) v) \<noteq> Err err"
    by (simp add: call_write_def split: option.splits)
  then have "fst (with_memory (tryS (ensure_memory_capacity V (off + length bs)) (\<lambda>_. call_write V off bs)) w) \<noteq> Err err"
    using with_memory_run [OF w] by (metis prod.collapse fst_conv)
  then show ?thesis
    using e(2) by (auto simp: memory_write_def memory_checked_end_def checked_add_def retS_def)
qed

section \<open>Imports with room\<close>

lemma importing_mem: "importing_at w v b bs \<Longrightarrow> active_mem w = Some v \<and> inv v"
  using holdsD(1,2) [of w v b] by (simp add: importing_at_def db_at_def)

lemma import_chunk_room:
  assumes i: "importing_at w v b bs" and len: "length bs + length cs \<le> import_total_size b"
    and r: "room v n" and fit: "import_base_offset b + length bs + length cs \<le> n * STABLE_PAGE_SIZE"
  obtains w' v' b' where "import_chunk V (length bs) cs w = (Ok (), w')" "importing_at w' v' b' (bs @ cs)"
      "file_of v' b' = file_of v b" "import_total_size b' = import_total_size b"
      "import_expected_checksum b' = import_expected_checksum b" "import_base_offset b' = import_base_offset b" "room v' n"
proof -
  have room: "room v' n" if "import_chunk V (length bs) cs w = (x, w')" "importing_at w' v' b' bs'" for x w' v' b' bs'
    using frame_room [OF within_run [OF rf.within_import(3) that(1)]] importing_mem [OF i] importing_mem [OF that(2)] r by blast
  show thesis
  proof (cases rule: import_chunk_cases [OF i len])
    case (1 w' v' b')
    then show thesis using that room by blast
  next
    case (2 e w' v')
    have "import_base_offset b + import_total_size b \<le> u64_max" using i by (simp add: importing_at_def)
    then have "import_base_offset b + length bs + length cs \<le> u64_max" using len by linarith
    then show thesis
      using memory_write_room [of w' v' n "import_base_offset b + length bs" cs e w'] importing_mem [OF 2(2)] room [OF 2(1,2)] fit 2(6)
      by simp
  qed
qed

lemma import_chunks_room:
  assumes "importing_at w v b bs" "length bs + length (concat cs) \<le> import_total_size b" "room v n"
    "import_base_offset b + length bs + length (concat cs) \<le> n * STABLE_PAGE_SIZE"
  shows "\<exists>w' v' b'. import_chunks V (length bs) cs w = (Ok (), w') \<and> importing_at w' v' b' (bs @ concat cs) \<and>
    import_total_size b' = import_total_size b \<and> import_expected_checksum b' = import_expected_checksum b"
  using assms
proof (induction cs arbitrary: w v b bs)
  case Nil
  then show ?case by (intro exI [of _ w] exI [of _ v] exI [of _ b]) (simp add: retS_def)
next
  case (Cons c cs)
  have len: "length bs + length c \<le> import_total_size b" "import_base_offset b + length bs + length c \<le> n * STABLE_PAGE_SIZE"
    using Cons.prems(2,4) by simp_all
  obtain w1 v1 b1 where 1: "import_chunk V (length bs) c w = (Ok (), w1)" "importing_at w1 v1 b1 (bs @ c)"
    "import_total_size b1 = import_total_size b" "import_expected_checksum b1 = import_expected_checksum b"
    "import_base_offset b1 = import_base_offset b" "room v1 n"
    using import_chunk_room [OF Cons.prems(1) len(1) Cons.prems(3) len(2)] by metis
  have "import_chunks V (length bs) (c # cs) w = import_chunks V (length (bs @ c)) cs w1" using 1(1) by simp
  moreover have "length (bs @ c) + length (concat cs) \<le> import_total_size b1"
    "import_base_offset b1 + length (bs @ c) + length (concat cs) \<le> n * STABLE_PAGE_SIZE"
    using Cons.prems(2,4) 1(3,5) by simp_all
  ultimately show ?case using Cons.IH [OF 1(2) _ 1(6)] 1(3,4) by simp
qed

text \<open>With room for the received bytes behind the present memory, an import comes to its checksum.\<close>

lemma import_session_room:
  assumes d: "db_at w v b" and none: "active_overlay w = None" and imp: "\<not> is_importing b"
    and lim: "cap v + length (concat cs) \<le> u64_max"
    and r: "room v n" and fit: "cap v + length (concat cs) \<le> n * STABLE_PAGE_SIZE"
  shows "fst (import_session V expected cs w) =
    (if fnv1a64 (concat cs) = expected then Ok () else Err (ChecksumMismatch expected (fnv1a64 (concat cs))))"
proof -
  let ?n = "length (concat cs)"
  obtain w1 v1 b1 where b1: "begin_import V ?n expected w = (Ok (), w1)" "importing_at w1 v1 b1 []"
    "import_total_size b1 = ?n" "import_expected_checksum b1 = expected" "import_base_offset b1 = cap v"
    using begin_import_ok [OF d none imp lim] by metis
  have "active_mem w = Some v" "inv v" using d holdsD(1,2) [of w v b] by (simp_all add: db_at_def)
  then have r1: "room v1 n"
    using frame_room [OF within_run [OF rf.within_import(2) b1(1)]] importing_mem [OF b1(2)] r by blast
  obtain w2 v2 b2 where 2: "import_chunks V 0 cs w1 = (Ok (), w2)" "importing_at w2 v2 b2 (concat cs)"
    "import_total_size b2 = ?n" "import_expected_checksum b2 = expected"
    using import_chunks_room [OF b1(2) _ r1, of cs] b1(3-5) fit by auto
  have run: "import_session V expected cs w = finish_import V w2" using b1(1) 2(1) by (simp add: import_session_def)
  show ?thesis
    by (cases rule: finish_import_cases [OF 2(2) 2(3) [symmetric]]) (use run 2(4) in auto)
qed

end

section \<open>Room in the memory of the crate\<close>

text \<open>A database can hold \<open>n\<close> pages when growing its memory to them fits the bucket table.\<close>

definition can_hold :: "db_handle \<times> db_store \<Rightarrow> nat \<Rightarrow> bool" where
  "can_hold v n \<longleftrightarrow> grow_fits (snd v) (vm_id (fst v)) (n - vm_size v)"

lemma num_buckets_mono: "manager_ok mm \<Longrightarrow> m \<le> n \<Longrightarrow> num_buckets_needed mm m \<le> num_buckets_needed mm n"
  unfolding num_buckets_needed_def by (rule div_ceil_mono [OF mm_invD(3)])

lemma can_hold_mono:
  assumes "db_inv v" "can_hold v n" "m \<le> n"
  shows "can_hold v m"
proof -
  have "manager_ok (snd v)" using assms(1) by (simp add: vm_inv_def)
  then have "num_buckets_needed (snd v) (vm_size v + (m - vm_size v)) \<le> num_buckets_needed (snd v) (vm_size v + (n - vm_size v))"
    using assms(3) by (intro num_buckets_mono) simp_all
  then show ?thesis
    using assms(2,3) by (auto simp: can_hold_def grow_fits_def buckets_after_grow_def vm_size_def)
qed

lemma can_hold_memory: "can_hold (h\<lparr>vm_cache := c\<rparr>, mm\<lparr>mm_memory := m\<rparr>) n = can_hold (h, mm) n"
  by (simp add: can_hold_def grow_fits_def buckets_after_grow_def vm_size_def memory_size_def num_buckets_needed_def)

lemma can_hold_keeps:
  assumes "vm_read vector_memory v off k = Some (bs, v') \<or> vm_write vector_memory v off xs = Some v'"
  shows "can_hold v' n = can_hold v n"
proof -
  obtain h mm where v: "v = (h, mm)" by (cases v)
  have "\<exists>c m. v' = (h\<lparr>vm_cache := c\<rparr>, mm\<lparr>mm_memory := m\<rparr>)"
  proof -
    have "\<exists>m. mm' = mm\<lparr>mm_memory := m\<rparr>" if "mm_read vector_memory mm i off k c0 = Some (bs', mm', c)" for i c0 bs' mm' c
      using that by (cases mm) (auto simp: mm_read_def split: if_splits option.splits prod.splits)
    moreover have "\<exists>m. mm' = mm\<lparr>mm_memory := m\<rparr>" if "mm_write vector_memory mm i off xs c0 = Some (mm', c)" for i c0 mm' c
      using that by (cases mm) (auto simp: mm_write_def split: if_splits option.splits prod.splits)
    ultimately show ?thesis
      using assms v by (fastforce simp: vm_read_def vm_write_def split: option.splits prod.splits)
  qed
  then show ?thesis using v can_hold_memory by auto
qed

lemma can_hold_grow:
  assumes v: "db_inv v" and g: "vm_grow vector_memory v k = Some (r, v')" and c: "can_hold v n"
  shows "can_hold v' n"
proof -
  obtain h mm where v0: "v = (h, mm)" by (cases v)
  have m: "manager_ok mm" "vm_id h < MAX_NUM_MEMORIES" using v v0 by (simp_all add: vm_inv_def)
  show ?thesis
  proof (cases rule: vec_mm_grow_iff [OF m, of k])
    case 1
    then show ?thesis using g c v0 by (simp add: vm_grow_def)
  next
    case (2 mm')
    let ?i = "vm_id h"
    have v': "v' = (h, mm')" using 2(2) g v0 by (simp add: vm_grow_def)
    have l: "length (memory_sizes_in_pages mm) = MAX_NUM_MEMORIES" using mm_invD(5) [OF m(1)] .
    have s: "memory_size mm' ?i = memory_size mm ?i + k" "allocated_buckets mm' = buckets_after_grow mm ?i k"
      "num_buckets_needed mm' = num_buckets_needed mm"
      using 2(4) l m(2) by (simp_all add: grown_def memory_size_def num_buckets_needed_def fun_eq_iff)
    have lim: "allocated_buckets mm' \<le> MAX_NUM_BUCKETS" "memory_size mm ?i + k \<le> u64_max"
      using 2(1) s(2) by (simp_all add: grow_fits_def)
    show ?thesis
    proof (cases "n \<le> memory_size mm ?i + k")
      case True
      then show ?thesis using lim s by (simp add: can_hold_def grow_fits_def buckets_after_grow_def v' vm_size_def)
    next
      case False
      then have n: "memory_size mm ?i + (n - memory_size mm ?i) = n" "memory_size mm ?i + k + (n - (memory_size mm ?i + k)) = n" by simp_all
      have "num_buckets_needed mm (memory_size mm ?i) \<le> num_buckets_needed mm (memory_size mm ?i + k)"
        "num_buckets_needed mm (memory_size mm ?i + k) \<le> num_buckets_needed mm n"
        using num_buckets_mono [OF m(1)] False by simp_all
      then show ?thesis
        using c s n by (simp add: can_hold_def grow_fits_def buckets_after_grow_def v0 v' vm_size_def)
    qed
  qed
qed

interpretation srm: room_mem db_memory db_inv db_byte can_hold
proof (unfold_locales, goal_cases)
  case (1 v off k bs v')
  then show ?case using handle_read can_hold_keeps by simp blast
next
  case (2 v off xs v')
  then show ?case using handle_write can_hold_keeps by simp blast
next
  case (3 v k r v')
  then show ?case using handle_grow [of v k r v'] can_hold_grow [of v k r v'] by simp
next
  case (4 v n k)
  obtain h mm where v0: "v = (h, mm)" by (cases v)
  have m: "manager_ok mm" "vm_id h < MAX_NUM_MEMORIES" using 4(1) v0 by (simp_all add: vm_inv_def)
  have "can_hold v (vm_size v + k)" using can_hold_mono [OF 4(1,2)] 4(3) by simp
  then have "grow_fits mm (vm_id h) k" by (simp add: can_hold_def v0)
  then show ?case by (cases rule: vec_mm_grow_iff [OF m, of k]) (simp_all add: v0 vm_grow_def)
qed

section \<open>The sample database\<close>

context db_mem
begin

lemma first_write_size:
  assumes w: "active_mem w = Some v" and v: "inv v" "mem_size V v = 0" and g: "mem_grow V v 1 = Some (r, v1)" "0 \<le> r"
    and bs: "bs \<noteq> []" "length bs \<le> STABLE_PAGE_SIZE"
  shows "\<exists>v'. memory_write V SUPERBLOCK_OFFSET bs w = (Ok (), put_mem v' w) \<and> mem_size V v' = 1"
proof -
  have pages: "div_ceil (length bs) STABLE_PAGE_SIZE = 1"
    using bs div_ceil_le_iff [of STABLE_PAGE_SIZE "length bs" 1] less_div_ceil_iff [of STABLE_PAGE_SIZE 0 "length bs"]
    by (simp add: le_antisym)
  have u: "length bs \<le> u64_max" using bs(2) by (simp add: config_defs u64_max_def)
  have v1: "inv v1" "mem_size V v1 = 1" using grow_ok [OF v(1) g] v(2) by simp_all
  have "ensure_memory_capacity V (length bs) v = (Ok (), v1)"
    using v g bs(1) pages by (simp add: ensure_memory_capacity_def call_grow_def tryS_def Let_def checked_mul_def)
  moreover obtain v2 where v2: "call_write V 0 bs v1 = (Ok (), v2)" "mem_size V v2 = 1"
    by (rule call_write_ok [OF v1(1), of 0 bs]) (use v1(2) bs(2) in auto)
  ultimately have "with_memory (tryS (ensure_memory_capacity V (length bs)) (\<lambda>_. call_write V 0 bs)) w = (Ok (), put_mem v2 w)"
    by (intro with_memory_run [OF w]) simp
  then show ?thesis
    using bs(1) u v2(2)
    by (intro exI [of _ v2]) (simp add: memory_write_def memory_checked_end_def SUPERBLOCK_OFFSET_def checked_add_def)
qed

end

lemma sample_size:
  assumes d: "sdb.db_at sample_db v fresh"
  shows "vm_size v = 1"
proof -
  note sw = sample_world_state and sm = sample_memory
  let ?e = "take (encoded_len fresh) (encode fresh)"
  obtain v1 where g: "vm_grow vector_memory (manager_get 3, sample_manager) 1 = Some (0, v1)" using sample_grow_one by blast
  have le: "length ?e \<le> STABLE_PAGE_SIZE" "?e \<noteq> []"
    using encoded_len_le [of fresh] length_encode [of fresh] fresh_ok(1) by (auto simp: sb_ok_def config_defs)
  obtain v2 where v2: "memory_write db_memory SUPERBLOCK_OFFSET ?e sample_world = (Ok (), put_mem v2 sample_world)" "vm_size v2 = 1"
    using sdb.first_write_size [OF sw(2) sm(1), of 0 v1 ?e] g sm(2) le by auto
  have val: "validate_zero_extents fresh = Inr ()" using sdb.storable_fresh by (simp add: storable_sb_def)
  have "sb_load db_memory sample_world = tryS (sb_store db_memory fresh) (\<lambda>_. retS fresh) sample_world"
    using sw sm(2) size_pages_active [OF sw(2), of db_memory] by (simp add: sb_load_def active_context_id_def)
  then have "sample_db = cache_superblock_owned fresh (put_mem v2 sample_world)"
    using v2(1) val by (simp add: sample_db_def sb_store_def store_with_capacity_check_def modifyS_def retS_def Let_def)
  then have "active_mem sample_db = Some v2"
    using active_mem_put_mem [OF sw(2), of v2] cache_owned_simps(2) by metis
  moreover have "active_mem sample_db = Some v" using d sdb.holdsD(1) [of sample_db v fresh] by (simp add: sdb.db_at_def)
  ultimately show ?thesis using v2(2) by simp
qed

lemma sample_room:
  assumes d: "sdb.db_at sample_db v fresh" and n: "n \<le> 1000000"
  shows "can_hold v (div_ceil (vm_size v * STABLE_PAGE_SIZE + n) STABLE_PAGE_SIZE)"
proof -
  have i: "active_mem sample_db = Some v" "db_inv v"
    using d sdb.holdsD(1,2) [of sample_db v fresh] by (simp_all add: sdb.db_at_def)
  have "can_hold (manager_get 3, sample_manager) 1000"
    by (simp add: can_hold_def grow_fits_def buckets_after_grow_def sample_manager_state memory_size_def vm_size_def
        num_buckets_needed_def div_ceil_def config_defs u64_max_def manager_get_def)
  then have c: "can_hold v 1000"
    using srm.frame_room [OF srm.rf.quiet_frame [OF within_run [OF srm.rf.within_superblock(3) sample_load(1)]]
        sample_world_state(2) sample_memory(1) i(1)] by blast
  have "div_ceil (vm_size v * STABLE_PAGE_SIZE + n) STABLE_PAGE_SIZE \<le> 1000"
    using n by (subst div_ceil_le_iff) (simp_all add: sample_size [OF d] config_defs)
  then show ?thesis by (rule can_hold_mono [OF i(2) c])
qed

end
