(* ===== verification/Import_Props.thy ===== *)
theory Import_Props
  imports Import_Room
begin

text \<open>
  What importing, exporting and checksumming guarantee, and that the page cache of a reading file
  handle is transparent.
\<close>

section \<open>Import and export\<close>

text \<open>The pages a memory has when \<open>n\<close> bytes are put behind it.\<close>

definition pages_behind :: "db_handle \<times> db_store \<Rightarrow> nat \<Rightarrow> nat" where
  "pages_behind v n = div_ceil (vm_size v * STABLE_PAGE_SIZE + n) STABLE_PAGE_SIZE"

lemma pages_behind_fit: "vm_size v * STABLE_PAGE_SIZE + n \<le> pages_behind v n * STABLE_PAGE_SIZE"
  unfolding pages_behind_def by (rule div_ceil_covers) (simp add: config_defs)

text \<open>C12. An import is all or nothing.  When the memory can be grown to hold the chunks, the import returns
  success exactly when their checksum is the expected one, and otherwise the checksum error; an import that
  succeeds makes the concatenation of the chunks the published file, with its checksum stored and fresh.
  When any step fails, also for want of memory, the old file is still the published one, and nothing
  panics.\<close>

theorem import_all_or_nothing:
  assumes "sdb.db_at w v b" "active_overlay w = None" "\<not> is_importing b"
    "vm_size v * STABLE_PAGE_SIZE + length (concat cs) \<le> u64_max"
  shows "\<exists>r w' v' b'. import_session db_memory expected cs w = (r, w') \<and> r \<noteq> Panic \<and>
    sdb.db_at w' v' b' \<and> active_overlay w' = None \<and>
    (can_hold v (pages_behind v (length (concat cs))) \<longrightarrow>
      r = (if fnv1a64 (concat cs) = expected then Ok () else Err (ChecksumMismatch expected (fnv1a64 (concat cs))))) \<and>
    (r = Ok () \<longrightarrow> sdb.file_of v' b' = afile_of_bytes (concat cs) \<and> fnv1a64 (concat cs) = expected \<and>
      \<not> is_importing b' \<and> \<not> is_checksum_stale b' \<and> sb_checksum b' = expected) \<and>
    (r \<noteq> Ok () \<longrightarrow> sdb.file_of v' b' = sdb.file_of v b)"
proof -
  have lim: "mem_size db_memory v * STABLE_PAGE_SIZE + length (concat cs) \<le> u64_max" using assms(4) by simp
  have room: "fst (import_session db_memory expected cs w) =
      (if fnv1a64 (concat cs) = expected then Ok () else Err (ChecksumMismatch expected (fnv1a64 (concat cs))))"
    if "can_hold v (pages_behind v (length (concat cs)))"
    using srm.import_session_room [OF assms(1-3) lim that] pages_behind_fit by simp
  show ?thesis
  proof (cases rule: sdb.import_session_cases [OF assms(1-3) lim, of expected])
    case (1 w' v' b')
    then show ?thesis using room by (intro exI [of _ "Ok ()"] exI [of _ w'] exI [of _ v'] exI [of _ b']) simp
  next
    case (2 e w' v' b')
    then show ?thesis using room by (intro exI [of _ "Err e"] exI [of _ w'] exI [of _ v'] exI [of _ b']) simp
  qed
qed

lemma db_at_inv: "sdb.db_at w v b \<Longrightarrow> db_inv v"
  using sdb.holdsD(2) [of w v b] by (simp add: sdb.db_at_def)

lemma room_for:
  assumes "sdb.db_at w v b" "n \<le> 1000000000000"
  shows "vm_size v * STABLE_PAGE_SIZE + n \<le> u64_max"
  using vm_size_bound(2) [OF db_at_inv [OF assms(1)]] assms(2) by (simp add: u64_max_def)

text \<open>Three bytes are imported into the sample database in two chunks.\<close>

theorem import_all_or_nothing_witness:
  "\<exists>w' v' b'. import_session db_memory (fnv1a64 [1, 2, 3]) [[1], [2, 3]] sample_db = (Ok (), w') \<and>
    sdb.db_at w' v' b' \<and> sdb.file_of v' b' = afile_of_bytes [1, 2, 3]"
proof -
  obtain v where v: "sdb.db_at sample_db v fresh" by (rule sample_at)
  let ?cs = "[[1], [2, 3 :: byte]]"
  have l: "length (concat ?cs) = 3" "concat ?cs = [1, 2, 3]" by simp_all
  have lim: "vm_size v * STABLE_PAGE_SIZE + length (concat ?cs) \<le> u64_max" unfolding l(1) by (rule room_for [OF v]) simp
  have r: "can_hold v (pages_behind v (length (concat ?cs)))" unfolding l(1) pages_behind_def by (rule sample_room [OF v]) simp
  obtain x w' v' b' where "import_session db_memory (fnv1a64 [1, 2, 3]) ?cs sample_db = (x, w')" "sdb.db_at w' v' b'" "x = Ok ()"
    "sdb.file_of v' b' = afile_of_bytes (concat ?cs)"
    using import_all_or_nothing [OF v sample_load(3) fresh_fields(3) lim, of "fnv1a64 [1, 2, 3]"] r l(2) by metis
  then show ?thesis unfolding l(2) by blast
qed

text \<open>C13. Exporting and importing are inverse: an export with any chunk sizes that cover the file returns
  its bytes, and importing the chunks with their checksum into any idle database whose memory can be grown
  to hold them succeeds and makes its file equal to the exported one.\<close>

theorem export_then_import:
  assumes "sdb.db_at w v b" "active_overlay w = None" "db_size b \<le> sum_list ns"
    "sdb.db_at u x c" "active_overlay u = None" "\<not> is_importing c"
    "vm_size x * STABLE_PAGE_SIZE + db_size b \<le> u64_max" "can_hold x (pages_behind x (db_size b))"
  shows "\<exists>cs w' u' x' c'. export_chunks db_memory 0 ns w = (Ok cs, w') \<and> concat cs = afile_bytes (sdb.file_of v b) \<and>
    import_session db_memory (fnv1a64 (concat cs)) cs u = (Ok (), u') \<and>
    sdb.db_at u' x' c' \<and> sdb.file_of x' c' = sdb.file_of v b"
proof -
  obtain cs w' where e: "export_chunks db_memory 0 ns w = (Ok cs, w')"
    "concat cs = bytes_at (snd (sdb.file_of v b)) 0 (min (sum_list ns) (db_size b - 0))"
    using sdb.export_chunks_ok [OF assms(1,2), of 0 ns] by blast
  then have cs: "concat cs = afile_bytes (sdb.file_of v b)"
    using assms(3) by (simp add: afile_bytes_def sdb.file_of_def min_def)
  have l: "length (concat cs) = db_size b" unfolding cs by (simp add: afile_bytes_def sdb.file_of_def)
  then have lim: "mem_size db_memory x * STABLE_PAGE_SIZE + length (concat cs) \<le> u64_max" using assms(7) by simp
  have inv: "afile_of_bytes (concat cs) = sdb.file_of v b"
    unfolding cs by (rule afile_of_bytes_inverse [OF sdb.file_of_wf])
  have ok: "fst (import_session db_memory (fnv1a64 (concat cs)) cs u) = Ok ()"
    using srm.import_session_room [OF assms(4-6) lim assms(8)] pages_behind_fit [of x "db_size b"] l by simp
  show ?thesis
  proof (cases rule: sdb.import_session_cases [OF assms(4-6) lim, of "fnv1a64 (concat cs)"])
    case (1 u' x' c')
    then show ?thesis
      using e(1) cs inv by (intro exI [of _ cs] exI [of _ w'] exI [of _ u'] exI [of _ x'] exI [of _ c']) simp
  next
    case 2
    then show ?thesis using ok by simp
  qed
qed

text \<open>A database of three bytes is exported in chunks of two and imported into an empty one.\<close>

theorem export_then_import_witness:
  "\<exists>cs w' u' x' c'. export_chunks db_memory 0 [2, 2] (snd (import_session db_memory (fnv1a64 [1, 2, 3]) [[1], [2, 3]] sample_db)) = (Ok cs, w') \<and>
    concat cs = [1, 2, 3] \<and> import_session db_memory (fnv1a64 (concat cs)) cs sample_db = (Ok (), u') \<and>
    sdb.db_at u' x' c' \<and> sdb.file_of x' c' = afile_of_bytes [1, 2, 3]"
proof -
  let ?e = "fnv1a64 [1, 2, 3 :: byte]" and ?cs = "[[1], [2, 3 :: byte]]"
  obtain v where v: "sdb.db_at sample_db v fresh" by (rule sample_at)
  have lim: "vm_size v * STABLE_PAGE_SIZE + 3 \<le> u64_max" by (rule room_for [OF v]) simp
  have l: "length (concat ?cs) = 3" "concat ?cs = [1, 2, 3]" by simp_all
  have lim': "mem_size db_memory v * STABLE_PAGE_SIZE + length (concat ?cs) \<le> u64_max" unfolding l(1) using lim by simp
  have r: "can_hold v (pages_behind v 3)" unfolding pages_behind_def by (rule sample_room [OF v]) simp
  have "fst (import_session db_memory ?e ?cs sample_db) = Ok ()"
    using srm.import_session_room [OF v sample_load(3) fresh_fields(3) lim' r] pages_behind_fit [of v 3] by simp
  with sdb.import_session_cases [OF v sample_load(3) fresh_fields(3) lim', of ?e]
  obtain w1 v1 b1 where w1: "import_session db_memory ?e ?cs sample_db = (Ok (), w1)" "sdb.db_at w1 v1 b1" "active_overlay w1 = None"
    "sdb.file_of v1 b1 = afile_of_bytes [1, 2, 3]"
    unfolding l(2) by (metis fst_conv outcome.distinct(1))
  then have s: "db_size b1 = 3" using arg_cong [OF w1(4), of fst] by (simp add: sdb.file_of_def afile_of_bytes_def)
  have b: "afile_bytes (sdb.file_of v1 b1) = [1, 2, 3]"
    unfolding w1(4) by (simp add: afile_bytes_def afile_of_bytes_def bytes_at_def upt_rec)
  have "db_size b1 \<le> sum_list [2, 2]" "vm_size v * STABLE_PAGE_SIZE + db_size b1 \<le> u64_max" "can_hold v (pages_behind v (db_size b1))"
    using s lim r by simp_all
  from export_then_import [OF w1(2,3) this(1) v sample_load(3) fresh_fields(3) this(2,3)]
  show ?thesis unfolding b unfolding w1(1,4) snd_conv .
qed

text \<open>C14. Every misuse of the import protocol is refused with its own error and changes nothing:
  starting twice, a chunk, a finish or a cancel without an import, a chunk out of order or beyond
  the announced size, finishing early, and any import call during an update.\<close>

theorem import_misuse_refused:
  assumes "sdb.db_at w v b"
  shows "(active_overlay w = None \<longrightarrow>
      (is_importing b \<longrightarrow> sdb.rejected w v b ImportAlreadyStarted (begin_import db_memory n hash w)) \<and>
      (\<not> is_importing b \<longrightarrow> sdb.rejected w v b ImportNotStarted (import_chunk db_memory off bs w) \<and>
        sdb.rejected w v b ImportNotStarted (finish_import db_memory w) \<and>
        sdb.rejected w v b ImportNotStarted (cancel_import db_memory w)) \<and>
      (is_importing b \<and> off \<noteq> import_written_until b \<longrightarrow>
        sdb.rejected w v b (ImportOutOfOrder off (import_written_until b)) (import_chunk db_memory off bs w)) \<and>
      (is_importing b \<and> import_written_until b + length bs \<le> u64_max \<and>
        import_total_size b < import_written_until b + length bs \<longrightarrow>
        sdb.rejected w v b (ImportOutOfBounds (import_written_until b) (length bs) (import_total_size b))
          (import_chunk db_memory (import_written_until b) bs w)) \<and>
      (is_importing b \<and> import_written_until b \<noteq> import_total_size b \<longrightarrow>
        sdb.rejected w v b (ImportIncomplete (import_written_until b) (import_total_size b))
          (finish_import db_memory w))) \<and>
    (active_overlay w \<noteq> None \<longrightarrow>
      sdb.rejected w v b UpdateInProgress (begin_import db_memory n hash w) \<and>
      sdb.rejected w v b UpdateInProgress (import_chunk db_memory off bs w) \<and>
      sdb.rejected w v b UpdateInProgress (finish_import db_memory w) \<and>
      sdb.rejected w v b UpdateInProgress (cancel_import db_memory w))"
  using sdb.import_rejections [OF assms] sdb.update_rejects_import [OF assms] by blast

theorem import_misuse_refused_witness: "fst (finish_import db_memory sample_db) = Err ImportNotStarted"
proof -
  obtain v where v: "sdb.db_at sample_db v fresh" by (rule sample_at)
  show ?thesis using import_misuse_refused [OF v] sample_load(3) fresh_fields(3) by (simp add: sdb.rejected_def)
qed

section \<open>Checksums\<close>

text \<open>C17. The checksum of an idle database is the FNV-1a hash of exactly the bytes of its file, whatever
  zero extents mask and however the chunks of the scan fall.\<close>

theorem checksum_is_file_hash:
  assumes "sdb.db_at w v b" "active_overlay w = None"
  shows "\<exists>w' v'. checksum db_memory w = (Ok (fnv1a64 (afile_bytes (sdb.file_of v b))), w') \<and> sdb.db_at w' v' b \<and>
    sdb.file_of v' b = sdb.file_of v b"
  using sdb.checksum_ok [OF assms] sdb.file_of_same by metis

theorem checksum_is_file_hash_witness: "\<exists>w'. checksum db_memory sample_db = (Ok 0xcbf29ce484222325, w')"
proof -
  obtain v where v: "sdb.db_at sample_db v fresh" "sdb.file_of v fresh = (0, \<lambda>_. 0)" by (rule sample_at)
  have "fnv1a64 (afile_bytes (sdb.file_of v fresh)) = 0xcbf29ce484222325"
    using v(2) by (simp add: afile_bytes_def fnv1a64_def fnv_offset_basis_def)
  then show ?thesis using checksum_is_file_hash [OF v(1) sample_load(3)] by metis
qed

lemma tryS_mono:
  assumes "tryS m k w = (Ok y, w2)" "\<And>x w1. k x w1 = (Ok y, w2) \<Longrightarrow> k' x w1 = (Ok y, w2)"
  shows "tryS m k' w = (Ok y, w2)"
  using assms by (auto simp: tryS_Ok_iff)

lemma refresh_fuel_Suc:
  "refresh_checksum_chunk_fuel k V mb w = (Ok r, w') \<Longrightarrow> refresh_checksum_chunk_fuel (Suc k) V mb w = (Ok r, w')"
proof (induction k arbitrary: w)
  case (Suc k)
  note unfold = refresh_checksum_chunk_fuel.simps(2) [of "Suc k"]
  show ?case
    unfolding unfold
    by (rule tryS_mono [OF Suc.prems [unfolded refresh_checksum_chunk_fuel.simps(2) [of k]]])
      (auto simp: Let_def simp del: refresh_checksum_chunk_fuel.simps split: if_splits elim!: tryS_mono intro: Suc.IH)
qed (simp add: panicS_def)

lemma refresh_fuel_mono:
  assumes "refresh_checksum_chunk_fuel k V mb w = (Ok r, w')" "k \<le> n"
  shows "refresh_checksum_chunk_fuel n V mb w = (Ok r, w')"
  using assms(2,1) by (induction rule: dec_induct) (blast intro: refresh_fuel_Suc)+

text \<open>C16. One call of the chunked refresh always returns: it restarts a refresh of an older
  transaction by at most one further call, so two levels of recursion are enough, and it hashes at
  most the allowed number of bytes more.\<close>

theorem refresh_chunk_terminates:
  assumes "sdb.db_at w v b" "active_overlay w = None" "\<not> is_importing b" "0 < mb"
    "refresh_inv (sdb.file_of v b) b" "2 \<le> fuel"
  shows "refresh_checksum_chunk_fuel fuel db_memory mb w = refresh_checksum_chunk db_memory mb w \<and>
    (\<exists>r w'. refresh_checksum_chunk db_memory mb w = (Ok r, w') \<and>
      cr_scanned_bytes r = min (db_size b) (refresh_start b + mb))"
proof -
  let ?fin = "min (db_size b) (refresh_start b + mb)"
  let ?r = "refresh_report ?fin (fnv1a64 (bytes_at (snd (sdb.file_of v b)) 0 ?fin)) b"
  obtain w1 where "refresh_checksum_chunk db_memory mb w = (Ok ?r, w1)"
    unfolding refresh_checksum_chunk_def using sdb.refresh_chunk_ok [OF assms(1-5) order_refl] by metis
  moreover have "refresh_checksum_chunk_fuel fuel db_memory mb w = refresh_checksum_chunk_fuel 2 db_memory mb w"
    using refresh_fuel_mono [OF _ assms(6)] calculation by (simp add: refresh_checksum_chunk_def)
  ultimately show ?thesis by (simp add: refresh_report_def refresh_checksum_chunk_def)
qed

lemma sample_refresh: "refresh_inv A fresh" "refresh_start fresh = 0"
  by (simp_all add: refresh_inv_def refresh_start_def)

theorem refresh_chunk_terminates_witness:
  "refresh_checksum_chunk_fuel 5 db_memory 10 sample_db = refresh_checksum_chunk db_memory 10 sample_db \<and>
    (\<exists>r w'. refresh_checksum_chunk db_memory 10 sample_db = (Ok r, w') \<and> cr_scanned_bytes r = 0)"
proof -
  obtain v where v: "sdb.db_at sample_db v fresh" by (rule sample_at)
  show ?thesis
    using refresh_chunk_terminates [OF v sample_load(3) fresh_fields(3) _ sample_refresh(1), of 10 5] by simp
qed

text \<open>C15. A chunked refresh completes: with any positive chunk size, calling it as often as the rest
  of the file has chunks returns a complete report with the checksum of the whole file, stores that
  checksum and clears the stale mark, if no update intervenes.\<close>

theorem refresh_completes:
  assumes "sdb.db_at w v b" "active_overlay w = None" "\<not> is_importing b" "0 < mb"
    "refresh_inv (sdb.file_of v b) b" "db_size b \<le> refresh_start b + k * mb" "0 < k"
  shows "\<exists>w' v' b'. refresh_calls k db_memory mb w = (Ok (Some \<lparr>cr_complete = True,
        cr_checksum = fnv1a64 (afile_bytes (sdb.file_of v b)), cr_scanned_bytes = db_size b, cr_db_size = db_size b\<rparr>), w') \<and>
    sdb.db_at w' v' b' \<and> sdb.file_of v' b' = sdb.file_of v b \<and> \<not> is_checksum_stale b' \<and>
    sb_checksum b' = fnv1a64 (afile_bytes (sdb.file_of v b))"
  using sdb.refresh_calls_complete [OF assms] .

theorem refresh_completes_witness:
  "\<exists>r w'. refresh_calls 1 db_memory 1 sample_db = (Ok (Some r), w') \<and> cr_complete r"
proof -
  obtain v where v: "sdb.db_at sample_db v fresh" by (rule sample_at)
  show ?thesis
    using refresh_completes [OF v sample_load(3) fresh_fields(3) _ sample_refresh(1), of 1 1] by fastforce
qed

section \<open>The page cache of a file handle\<close>

fun mapS :: "('a \<Rightarrow> ('w, 'b, 'e) stm) \<Rightarrow> 'a list \<Rightarrow> ('w, 'b list, 'e) stm" where
  "mapS f [] = retS []"
| "mapS f (x # xs) = tryS (f x) (\<lambda>y. tryS (mapS f xs) (\<lambda>ys. retS (y # ys)))"

lemma cached_reads_ok:
  assumes "active_mem w0 = Some v0" "db_inv v0" "img_placed b (vm_size v0 * STABLE_PAGE_SIZE)"
    and "sdb.cached_at b w0 v0 wc"
  shows "\<exists>wc'. mapS (\<lambda>(off, n). read_base_at_with_page_cache db_memory b off n) reqs wc =
      (Ok (map (\<lambda>(off, n). afile_read off n (sdb.file_of v0 b)) reqs), wc') \<and> sdb.cached_at b w0 v0 wc'"
  using assms(4)
proof (induction reqs arbitrary: wc)
  case Nil
  then show ?case by (auto simp: retS_def)
next
  case (Cons r rs)
  obtain off n where r: "r = (off, n)" by fastforce
  have pl: "img_placed b (mem_size db_memory v0 * STABLE_PAGE_SIZE)" using assms(3) by simp
  obtain wc1 where w1: "read_base_at_with_page_cache db_memory b off n wc = (Ok (afile_read off n (sdb.file_of v0 b)), wc1)"
    "sdb.cached_at b w0 v0 wc1"
    using sdb.read_base_at_with_page_cache_ok [OF Cons.prems assms(1,2) pl, of off n]
    by (auto simp: afile_read_def sdb.file_of_def)
  obtain wc2 where "mapS (\<lambda>(off, n). read_base_at_with_page_cache db_memory b off n) rs wc1 =
      (Ok (map (\<lambda>(off, n). afile_read off n (sdb.file_of v0 b)) rs), wc2)" "sdb.cached_at b w0 v0 wc2"
    using Cons.IH [OF w1(2)] by blast
  with w1(1) r show ?case by (intro exI [of _ wc2]) (simp add: retS_def)
qed

text \<open>C18. The caches of a read-only file handle are transparent: any sequence of reads of the published
  image through one handle returns what reads without a cache return, whichever pages and page
  addresses it keeps or evicts.\<close>

theorem page_cache_transparent:
  assumes "sdb.db_at w v b"
  shows "\<exists>wc'. mapS (\<lambda>(off, n). read_base_at_with_page_cache db_memory b off n) reqs (w, page_offset_cache_new) =
    (Ok (map (\<lambda>(off, n). afile_read off n (sdb.file_of v b)) reqs), wc')"
proof -
  have h: "sdb.holds w v b" "img_placed b (vm_size v * STABLE_PAGE_SIZE)" using assms by (simp_all add: sdb.db_at_def)
  note d = sdb.holdsD [OF h(1)]
  have "sdb.cached_at b w v (w, page_offset_cache_new)"
    unfolding sdb.cached_at_def using sdb.reached_refl [OF d(1,2)] poc_ok_new by simp
  from cached_reads_ok [OF d(1,2) h(2) this] show ?thesis by blast
qed

theorem page_cache_transparent_witness:
  "\<exists>wc'. mapS (\<lambda>(off, n). read_base_at_with_page_cache db_memory fresh off n) [(0, 2), (7, 1)]
      (sample_db, page_offset_cache_new) = (Ok [([0, 0], False), ([0], False)], wc')"
proof -
  obtain v where v: "sdb.db_at sample_db v fresh" "sdb.file_of v fresh = (0, \<lambda>_. 0)" by (rule sample_at)
  have "map (\<lambda>(off, n). afile_read off n (sdb.file_of v fresh)) [(0, 2), (7, 1)] = [([0, 0], False), ([0], False)]"
    using v(2) by (simp add: afile_read_def bytes_at_def upt_rec)
  then show ?thesis using page_cache_transparent [OF v(1), of "[(0, 2), (7, 1)]"] by metis
qed

end
