(* ===== verification/Isolation.thy ===== *)
theory Isolation
  imports Import_Props
begin

text \<open>
  Several databases in one canister.  Each context owns a virtual memory of the same manager;
  \<open>vm_step\<close> is what an operation on one virtual memory may change of the shared manager: nothing
  that a handle of another memory can see.  So an operation in one context, whatever its outcome,
  leaves every other database as it was.
\<close>

definition vm_step :: "db_handle \<times> db_store \<Rightarrow> db_handle \<times> db_store \<Rightarrow> bool" where
  "vm_step v v' \<longleftrightarrow> vm_id (fst v') = vm_id (fst v) \<and> (db_inv v \<longrightarrow> db_inv v' \<and>
     (\<forall>k. vm_id k \<noteq> vm_id (fst v) \<longrightarrow> db_inv (k, snd v) \<longrightarrow> db_inv (k, snd v') \<and>
       vm_size (k, snd v') = vm_size (k, snd v) \<and> db_byte (k, snd v') = db_byte (k, snd v)))"

lemma vm_stepI:
  assumes "vm_id h' = vm_id h" "db_inv (h, s) \<Longrightarrow> db_inv (h', s')"
    and "\<And>k. db_inv (h, s) \<Longrightarrow> vm_id k \<noteq> vm_id h \<Longrightarrow> db_inv (k, s) \<Longrightarrow> db_inv (k, s') \<and>
      vm_size (k, s') = vm_size (k, s) \<and> db_byte (k, s') = db_byte (k, s)"
  shows "vm_step (h, s) (h', s')"
  using assms by (simp add: vm_step_def)

lemma vm_keeps_id:
  "vm_read vector_memory (h, s) off n = Some (bs, h', s') \<Longrightarrow> vm_id h' = vm_id h"
  "vm_write vector_memory (h, s) off xs = Some (h', s') \<Longrightarrow> vm_id h' = vm_id h"
  "vm_grow vector_memory (h, s) n = Some (r, h', s') \<Longrightarrow> vm_id h' = vm_id h"
  by (auto simp: vm_read_def vm_write_def vm_grow_def split: option.splits)

interpretation iso: mem_frame db_memory vm_step
proof (unfold_locales, goal_cases)
  case 1
  have "vm_step u w" if "vm_step u v" "vm_step v w" for u v w
    using that unfolding vm_step_def by metis
  then show ?case by (auto simp: pre_def reflp_def transp_def vm_step_def)
next
  case (2 v off n bs v')
  obtain h s h' s' where v: "v = (h, s)" "v' = (h', s')" by fastforce
  with 2 have r: "vm_read vector_memory (h, s) off n = Some (bs, h', s')" by simp
  show ?case
    unfolding v using vm_keeps_id(1) [OF r] handle_read [of "(h, s)"] r vec.read_frame [of h s _ off n bs h' s']
    by (intro vm_stepI) auto
next
  case (3 v off xs v')
  obtain h s h' s' where v: "v = (h, s)" "v' = (h', s')" by fastforce
  with 3 have r: "vm_write vector_memory (h, s) off xs = Some (h', s')" by simp
  show ?case
    unfolding v using vm_keeps_id(2) [OF r] handle_write [of "(h, s)"] r vec.write_frame [of h s _ off xs h' s']
    by (intro vm_stepI) auto
next
  case (4 v n r v')
  obtain h s h' s' where v: "v = (h, s)" "v' = (h', s')" by fastforce
  with 4 have g: "vm_grow vector_memory (h, s) n = Some (r, h', s')" by simp
  have "db_byte (k, s') = db_byte (k, s)" if "db_inv (h, s)" "db_inv (k, s)" "vm_id k \<noteq> vm_id h" for k
  proof
    fix i
    have "vm_size (k, s') = vm_size (k, s)" using vec.grow_frame(2) [OF that(1,2) g] that(3) by simp
    then show "db_byte (k, s') i = db_byte (k, s) i"
      using vec.grow_frame(3) [OF that(1,2) g, of i]
      by (cases "i < vm_size (k, s) * STABLE_PAGE_SIZE") (simp_all add: vm_byte_def capacity_bytes_def vm_size_def)
  qed
  then show ?case
    unfolding v using vm_keeps_id(3) [OF g] handle_grow [of "(h, s)"] g vec.grow_frame(1,2) [of h s _ n r h' s']
    by (intro vm_stepI) auto
qed

section \<open>Histories over several contexts\<close>

datatype db_call = CallBegin | CallCommit | CallRollback | CallOp file_op | CallFileSize
  | CallExport nat nat | CallBeginImport nat u64w | CallImportChunk nat "byte list" | CallFinishImport
  | CallCancelImport | CallChecksum | CallRefresh | CallRefreshChunk nat | CallCompact

fun call :: "db_call \<Rightarrow> (db_handle, db_store, 'z) blob_world_scheme \<Rightarrow> (db_handle, db_store, 'z) blob_world_scheme" where
  "call CallBegin w = snd (begin_update db_memory w)"
| "call CallCommit w = snd (commit_update db_memory w)"
| "call CallRollback w = rollback_update w"
| "call (CallOp (OpRead off n)) w = snd (blob_read_at db_memory off n w)"
| "call (CallOp (OpWrite off bs)) w = snd (blob_write_at db_memory off bs w)"
| "call (CallOp (OpTruncate n)) w = snd (blob_truncate db_memory n w)"
| "call CallFileSize w = snd (blob_file_size db_memory w)"
| "call (CallExport off n) w = snd (export_chunk db_memory off n w)"
| "call (CallBeginImport n h) w = snd (begin_import db_memory n h w)"
| "call (CallImportChunk off bs) w = snd (import_chunk db_memory off bs w)"
| "call CallFinishImport w = snd (finish_import db_memory w)"
| "call CallCancelImport w = snd (cancel_import db_memory w)"
| "call CallChecksum w = snd (checksum db_memory w)"
| "call CallRefresh w = snd (refresh_checksum db_memory w)"
| "call (CallRefreshChunk mb) w = snd (refresh_checksum_chunk db_memory mb w)"
| "call CallCompact w = snd (compact db_memory w)"

definition at_context :: "context_id \<Rightarrow> ('h, 's, 'z) mem_world_scheme \<Rightarrow> ('h, 's, 'z) mem_world_scheme" where
  "at_context c w = w\<lparr>current_context := Some c\<rparr>"

definition call_in :: "context_id \<times> db_call \<Rightarrow> (db_handle, db_store, 'z) blob_world_scheme \<Rightarrow>
    (db_handle, db_store, 'z) blob_world_scheme" where
  "call_in x w = snd (with_context (fst x) (\<lambda>w. (Ok (), call (snd x) w)) w)"

lemma call_frame: "iso.frame w (call x w)"
proof (cases x)
  case (CallOp f)
  then show ?thesis by (cases f) (simp_all add: withinD [OF iso.within_file_ops(2)]
        withinD [OF iso.within_file_ops(3)] withinD [OF iso.within_file_ops(4)])
qed (simp_all add: withinD [OF iso.within_file_ops(1)] withinD [OF iso.within_file_ops(5)]
      withinD [OF iso.within_commit_update] rollback_update_def iso.frame_rollback withinD [OF iso.within_import(1)]
      withinD [OF iso.within_import(2)] withinD [OF iso.within_import(3)] withinD [OF iso.within_import(4)]
      withinD [OF iso.within_import(5)] withinD [OF iso.within_import(6)] withinD [OF iso.within_import(7)]
      withinD [OF iso.within_import(8)] withinD [OF iso.within_import(9)])

lemma call_in_eq: "call_in (c, x) w = (call x (at_context c w))\<lparr>current_context := current_context w\<rparr>"
  by (simp add: call_in_def with_context_def at_context_def)

text \<open>The memories registered with the contexts are intact and pairwise different.\<close>

definition fleet :: "(db_handle, db_store, 'z) blob_world_scheme \<Rightarrow> bool" where
  "fleet w \<longleftrightarrow> (\<forall>c h. map_of (db_memory_slots w) c = Some h \<longrightarrow> db_inv (h, mem_store w)) \<and>
     (\<forall>c c' h h'. c \<noteq> c' \<longrightarrow> map_of (db_memory_slots w) c = Some h \<longrightarrow>
       map_of (db_memory_slots w) c' = Some h' \<longrightarrow> vm_id h \<noteq> vm_id h')"

lemma at_context_simps [simp]:
  "active_context (at_context c w) = Some c" "db_memory_slots (at_context c w) = db_memory_slots w"
  "mem_store (at_context c w) = mem_store w" "at_context c (at_context d w) = at_context c w"
  "at_context c (w\<lparr>current_context := x\<rparr>) = at_context c w"
  by (simp_all add: at_context_def active_context_def)

lemma at_context_blob [simp]:
  "superblock_cache (at_context c w) = superblock_cache w" "overlays (at_context c w) = overlays w"
  by (simp_all add: at_context_def)

lemma active_mem_at: "active_mem (at_context c w) = map_option (\<lambda>h. (h, mem_store w)) (map_of (db_memory_slots w) c)"
  by (simp add: active_mem_def)

lemma frame_slot:
  assumes "iso.frame (at_context c w) w'"
  shows "case map_of (db_memory_slots w) c of
      None \<Rightarrow> map_of (db_memory_slots w') c = None \<and> mem_store w' = mem_store w
    | Some h \<Rightarrow> \<exists>h'. map_of (db_memory_slots w') c = Some h' \<and> vm_step (h, mem_store w) (h', mem_store w')"
    and "d \<noteq> c \<Longrightarrow> map_of (db_memory_slots w') d = map_of (db_memory_slots w) d \<and> superblock_cache w' d = superblock_cache w d"
proof -
  have m: "iso.mem_rel (at_context c w) w'" and o: "iso.same_others (at_context c w) w'"
    and a: "active_context w' = Some c"
    using assms iso.frame_active [OF assms] by (simp_all add: iso.frame_def)
  then show "case map_of (db_memory_slots w) c of
      None \<Rightarrow> map_of (db_memory_slots w') c = None \<and> mem_store w' = mem_store w
    | Some h \<Rightarrow> \<exists>h'. map_of (db_memory_slots w') c = Some h' \<and> vm_step (h, mem_store w) (h', mem_store w')"
    by (auto simp: iso.mem_rel_def active_mem_at active_mem_def split: option.splits)
  show "d \<noteq> c \<Longrightarrow> map_of (db_memory_slots w') d = map_of (db_memory_slots w) d \<and> superblock_cache w' d = superblock_cache w d"
    using o by (simp add: iso.same_others_def)
qed

lemma other_slot:
  assumes f: "iso.frame (at_context c w) w'" and fl: "fleet w" and d: "d \<noteq> c" "map_of (db_memory_slots w) d = Some k"
  shows "db_inv (k, mem_store w')" "vm_size (k, mem_store w') = vm_size (k, mem_store w)"
    "db_byte (k, mem_store w') = db_byte (k, mem_store w)"
proof -
  have k: "db_inv (k, mem_store w)" using fl d(2) by (simp add: fleet_def)
  have "db_inv (k, mem_store w') \<and> vm_size (k, mem_store w') = vm_size (k, mem_store w) \<and>
    db_byte (k, mem_store w') = db_byte (k, mem_store w)"
  proof (cases "map_of (db_memory_slots w) c")
    case None
    then show ?thesis using frame_slot(1) [OF f] k by simp
  next
    case (Some h)
    then have "db_inv (h, mem_store w)" "vm_id k \<noteq> vm_id h" using fl d unfolding fleet_def by metis+
    then show ?thesis using frame_slot(1) [OF f] Some k by (auto simp: vm_step_def)
  qed
  then show "db_inv (k, mem_store w')" "vm_size (k, mem_store w') = vm_size (k, mem_store w)"
    "db_byte (k, mem_store w') = db_byte (k, mem_store w)" by simp_all
qed

lemma fleet_frame:
  assumes f: "iso.frame (at_context c w) w'" and fl: "fleet w"
  shows "fleet w'"
proof -
  have own: "db_inv (h', mem_store w') \<and> (\<exists>h. map_of (db_memory_slots w) c = Some h \<and> vm_id h' = vm_id h)"
    if "map_of (db_memory_slots w') c = Some h'" for h'
    using frame_slot(1) [OF f] that fl unfolding fleet_def vm_step_def
    by (auto split: option.splits)
  have other: "map_of (db_memory_slots w') d = map_of (db_memory_slots w) d" if "d \<noteq> c" for d
    using frame_slot(2) [OF f that] by simp
  show ?thesis
    unfolding fleet_def
  proof (intro conjI allI impI)
    fix d h
    assume "map_of (db_memory_slots w') d = Some h"
    then show "db_inv (h, mem_store w')"
      using own other_slot(1) [OF f fl, of d h] other by (cases "d = c") auto
  next
    fix d d' h h'
    assume "d \<noteq> d'" "map_of (db_memory_slots w') d = Some h" "map_of (db_memory_slots w') d' = Some h'"
    then show "vm_id h \<noteq> vm_id h'"
      using own other fl unfolding fleet_def by (metis (no_types, lifting))
  qed
qed

text \<open>What is seen of the database of context \<open>d\<close>: its image, its file and its overlay.\<close>

definition same_database :: "context_id \<Rightarrow> superblock \<Rightarrow> afile \<Rightarrow> overlay option \<Rightarrow>
    (db_handle, db_store, 'z) blob_world_scheme \<Rightarrow> bool" where
  "same_database d b a ov w \<longleftrightarrow> (\<exists>v. sdb.db_at (at_context d w) v b \<and> sdb.file_of v b = a) \<and>
     active_overlay (at_context d w) = ov"

lemma db_at_slot:
  assumes "sdb.db_at (at_context d w) v b"
  obtains k where "map_of (db_memory_slots w) d = Some k" "v = (k, mem_store w)"
  using assms sdb.holdsD(1) [of "at_context d w" v b] by (auto simp: sdb.db_at_def active_mem_at)

lemma same_database_frame:
  assumes f: "iso.frame (at_context c w) w'" and fl: "fleet w" and d: "d \<noteq> c" and s: "same_database d b a ov w"
  shows "same_database d b a ov w'"
proof -
  obtain v where v: "sdb.db_at (at_context d w) v b" "sdb.file_of v b = a"
    and ov: "active_overlay (at_context d w) = ov" using s unfolding same_database_def by blast
  obtain k where k: "map_of (db_memory_slots w) d = Some k" "v = (k, mem_store w)" using db_at_slot [OF v(1)] by blast
  note o = other_slot [OF f fl d k(1)] and fs = frame_slot(2) [OF f d]
  let ?v = "(k, mem_store w')"
  have sm: "db_inv ?v" "vm_size ?v = vm_size v" "db_byte ?v = db_byte v" using o k(2) by simp_all
  have h: "sdb.holds (at_context d w) v b" and dis: "distinct (map fst (overlays w))"
    and pl: "img_placed b (vm_size v * STABLE_PAGE_SIZE)"
    using v(1) by (simp_all add: sdb.db_at_def)
  have ovr: "iso.ov_rel (at_context c w) w'" using f by (simp add: iso.frame_def)
  have "sdb.holds (at_context d w') ?v b"
    using h sm fs k(1) by (simp add: sdb.holds_def active_mem_at)
  moreover have "distinct (map fst (overlays w'))" "map_of (overlays w') d = map_of (overlays w) d"
    using ovr dis d by (auto simp: iso.ov_rel_def)
  ultimately have "sdb.db_at (at_context d w') ?v b" "active_overlay (at_context d w') = ov"
    using pl sm ov by (simp_all add: sdb.db_at_def active_overlay_map)
  moreover have "sdb.file_of ?v b = a" using v(2) sm by (simp add: sdb.file_of_def)
  ultimately show ?thesis unfolding same_database_def by blast
qed

lemma call_in_keeps:
  assumes "fleet w"
  shows "fleet (call_in x w)" "d \<noteq> fst x \<Longrightarrow> same_database d b a ov w \<Longrightarrow> same_database d b a ov (call_in x w)"
proof -
  obtain c y where x: "x = (c, y)" by fastforce
  note f = call_frame [of "at_context c w" y]
  have "fleet (call y (at_context c w))" by (rule fleet_frame [OF f assms])
  then show "fleet (call_in x w)" by (simp add: x call_in_eq fleet_def)
  assume "d \<noteq> fst x" "same_database d b a ov w"
  then have "same_database d b a ov (call y (at_context c w))"
    using same_database_frame [OF f assms] x by simp
  then show "same_database d b a ov (call_in x w)" by (simp add: x call_in_eq same_database_def)
qed

text \<open>C23. Databases in one canister are isolated: whatever calls of the storage layer are made in other
  contexts, in any number, order and interleaving and whether they succeed, fail or panic, the
  superblock, the published file and the running update of a database stay exactly as they were.\<close>

theorem databases_are_isolated:
  assumes "fleet w" "same_database d b a ov w" "\<forall>x \<in> set calls. fst x \<noteq> d"
  shows "same_database d b a ov (fold call_in calls w) \<and> fleet (fold call_in calls w)"
  using assms
proof (induction calls arbitrary: w)
  case (Cons x calls)
  then show ?case using call_in_keeps(1) [of w x] call_in_keeps(2) [of w d x b a ov] by auto
qed simp

section \<open>Two databases\<close>

text \<open>A second database on memory 4 beside the first one on memory 3.\<close>

definition sample_pair :: "(db_handle, db_store) vfs_world" where
  "sample_pair = snd (init_context (vm_identity vec_identity) (manager_get 4) sample_db)"

lemma sample_db_slots:
  obtains h s where "db_memory_slots sample_db = [(1, h)]" "mem_store sample_db = s" "vm_id h = 3" "db_inv (h, s)"
    "next_context_id sample_db = 2" "registered_memory sample_db = [(1, vm_identity vec_identity (manager_get 3, sample_manager))]"
proof -
  have q: "iso.quiet sample_world sample_db"
    using withinD [OF iso.within_superblock(3), of sample_world] sample_load(1) by simp
  have w: "db_memory_slots sample_world = [(1, manager_get 3)]" "next_context_id sample_world = 2"
    "registered_memory sample_world = [(1, vm_identity vec_identity (manager_get 3, sample_manager))]"
    by (simp_all add: sample_world_def memory_init_def init_context_def reject_registered_memory_def
        empty_world_def tryS_def modifyS_def retS_def checked_add_def u64_max_def Let_def)
  have g: "map fst (db_memory_slots sample_db) = [1]" "next_context_id sample_db = 2"
    "registered_memory sample_db = [(1, vm_identity vec_identity (manager_get 3, sample_manager))]"
    using q w by (simp_all add: iso.quiet_def iso.same_globals_def)
  then obtain h where h: "db_memory_slots sample_db = [(1, h)]" by (cases "db_memory_slots sample_db") auto
  have "active_mem sample_db = Some (h, mem_store sample_db)" using h sample_load(4) by (simp add: active_mem_def)
  then have "vm_step (manager_get 3, sample_manager) (h, mem_store sample_db)"
    using q sample_world_state(2) by (simp add: iso.quiet_def iso.mem_rel_def)
  then have "vm_id h = 3" "db_inv (h, mem_store sample_db)"
    using sample_memory(1) by (simp_all add: vm_step_def manager_get_def)
  then show thesis using that h g(2,3) by blast
qed

lemma sample_pair_state:
  "fleet sample_pair" "same_database 1 fresh (0, \<lambda>_. 0) None sample_pair" "map_of (db_memory_slots sample_pair) 2 = Some (manager_get 4)"
proof -
  obtain h s where d: "db_memory_slots sample_db = [(1, h)]" "mem_store sample_db = s" "vm_id h = 3" "db_inv (h, s)"
    "next_context_id sample_db = 2" "registered_memory sample_db = [(1, vm_identity vec_identity (manager_get 3, sample_manager))]"
    by (rule sample_db_slots)
  have "vm_identity vec_identity (manager_get 3, sample_manager) \<noteq> vm_identity vec_identity (manager_get 4, s)"
    by (simp add: vm_identity_def manager_get_def)
  then have p: "sample_pair = sample_db\<lparr>next_context_id := 3, db_memory_slots := [(1, h), (2, manager_get 4)],
      registered_memory := registered_memory sample_db @ [(2, vm_identity vec_identity (manager_get 4, s))]\<rparr>"
    using d by (simp add: sample_pair_def init_context_def reject_registered_memory_def tryS_def Let_def
        checked_add_def u64_max_def)
  have "db_inv (manager_get 4, s)"
    using d(4) db_inv_fresh [of s 4] by (simp add: vm_inv_def config_defs)
  moreover have "db_memory_slots sample_pair = [(1, h), (2, manager_get 4)]" "mem_store sample_pair = s"
    using d(2) by (simp_all add: p)
  ultimately show "fleet sample_pair"
    using d(3,4) by (simp add: fleet_def) (auto simp: manager_get_def)
  show "map_of (db_memory_slots sample_pair) 2 = Some (manager_get 4)" by (simp add: p)
  obtain v where v: "sdb.db_at sample_db v fresh" "sdb.file_of v fresh = (0, \<lambda>_. 0)" by (rule sample_at)
  have am: "active_mem (at_context 1 sample_pair) = active_mem sample_db"
    using d sample_load(4) by (simp add: active_mem_at p active_mem_def)
  have "sdb.db_at (at_context 1 sample_pair) v fresh"
    using v(1) am sample_load(4) by (simp add: sdb.db_at_def sdb.holds_def) (simp add: p)
  moreover have "active_overlay (at_context 1 sample_pair) = None"
    using sample_load(3,4) by (simp add: active_overlay_map p)
  ultimately show "same_database 1 fresh (0, \<lambda>_. 0) None sample_pair"
    using v(2) unfolding same_database_def by blast
qed

theorem databases_are_isolated_witness:
  "same_database 1 fresh (0, \<lambda>_. 0) None
    (fold call_in [(2, CallBegin), (2, CallOp (OpWrite 0 [1, 2])), (2, CallCommit), (2, CallChecksum)] sample_pair)"
  by (rule databases_are_isolated [OF sample_pair_state(1,2), THEN conjunct1]) simp

end
