(* ===== verification/Vfs_Refine.thy ===== *)
theory Vfs_Refine
  imports Isolation
begin

text \<open>
  The file callbacks implement the abstract file.  \<open>open_file f w a\<close>: the writable handle \<open>f\<close>, of the
  database or of a temporary file, holds \<open>a\<close>; \<open>open_reader f w a\<close>: the read-only handle \<open>f\<close> of the
  database shows \<open>a\<close>, through its snapshot and its caches.
\<close>

section \<open>Running in the context of a file\<close>

lemma frame_context: "iso.frame w w' \<Longrightarrow> current_context w' = current_context w"
  "iso.frame w w' \<Longrightarrow> blob_world.more w' = blob_world.more w"
  by (simp_all add: iso.frame_def iso.same_globals_def)

lemma in_context_run:
  assumes "m (f, at_context (if_context f) w) = (r, (f', w'))"
  shows "in_context m (f, w) = (r, (f', w'\<lparr>current_context := current_context w\<rparr>))"
  using assms by (simp add: in_context_def at_context_def)

lemma on_world_run: "m w = (r, w') \<Longrightarrow> on_world m (f, w) = (r, (f, w'))"
  by (simp add: on_world_def)

lemma at_context_back: "current_context w' = Some c \<Longrightarrow> at_context c (w'\<lparr>current_context := x\<rparr>) = w'"
  by (simp add: at_context_def)

lemma at_context_current [simp]: "current_context (at_context c w) = Some c"
  by (simp add: at_context_def)

section \<open>Writable handles\<close>

definition open_file :: "ic_stable_file \<Rightarrow> (db_handle, db_store, 'z) vfs_world_scheme \<Rightarrow> afile \<Rightarrow> bool" where
  "open_file f w a \<longleftrightarrow> \<not> if_read_only f \<and> (case if_kind f of
      MainFile \<Rightarrow> blob_repr (at_context (if_context f) w) a
    | TempFile t \<Rightarrow> temp_ok t \<and> a = temp_content t)"

lemma main_read:
  assumes a: "blob_repr (at_context (if_context f) w) a" and k: "if_kind f = MainFile" "\<not> if_read_only f"
    and n: "n \<le> usize_max"
  shows "\<exists>w'. x_read db_memory (int n) (int off) (f, w) =
      (Ok (read_code (snd (afile_read off n a)), Some (fst (afile_read off n a))), (f, w')) \<and>
    blob_repr (at_context (if_context f) w') a"
proof -
  let ?c = "if_context f"
  obtain w1 where r: "blob_read_at db_memory off n (at_context ?c w) = (Ok (afile_read off n a), w1)" "blob_repr w1 a"
    using blob_read_repr [OF a] by blast
  have cc: "current_context w1 = Some ?c"
    using frame_context(1) [OF within_run [OF iso.within_file_ops(2) r(1)]] by simp
  obtain bs full where rd: "afile_read off n a = (bs, full)" by fastforce
  let ?m = "catchS (on_world (blob_read_at db_memory off n)) (fail_with SQLITE_IOERR_READ)
      (\<lambda>(bs, complete). retS (read_code complete, Some bs))"
  have "?m (f, at_context ?c w) = (Ok (read_code full, Some bs), (f, w1))"
    using on_world_run [where m = "blob_read_at db_memory off n", OF r(1), of f] rd by (simp add: retS_def)
  note run = in_context_run [where m = ?m, OF this]
  show ?thesis
    by (rule exI [of _ "w1\<lparr>current_context := current_context w\<rparr>"])
      (use run n k rd r(2) at_context_back [OF cc] in
        \<open>simp add: x_read_def checked_amount_def checked_offset_def usize_try_from_def\<close>)
qed

text \<open>A write or truncate of the database file through \<open>on_main\<close>.\<close>

lemma on_main_run:
  assumes w: "within iso.frame m" and run: "on_main rc m (f, w) = (Ok code, (f', w'))" and rc: "rc \<noteq> SQLITE_OK"
  shows "f' = f" "current_context w' = current_context w"
    "code = SQLITE_OK \<Longrightarrow> \<exists>w1. m (at_context (if_context f) w) = (Ok (), w1) \<and> at_context (if_context f) w' = w1"
    "code \<noteq> SQLITE_OK \<Longrightarrow> code = rc \<and> (\<exists>e w1. m (at_context (if_context f) w) = (Err e, w1) \<and>
      last_error w' (if_context f) = Some \<lparr>ve_errno = rc, ve_message = ascii (error_text e)\<rparr>)"
proof -
  let ?c = "if_context f"
  obtain r w1 where m: "m (at_context ?c w) = (r, w1)" by fastforce
  have cc: "current_context w1 = Some ?c" using frame_context(1) [OF within_run [OF w m]] by simp
  note o = on_world_run [where m = m, OF m, of f]
  have "f' = f \<and> current_context w' = current_context w \<and>
    (code = SQLITE_OK \<longrightarrow> (\<exists>w1. m (at_context ?c w) = (Ok (), w1) \<and> at_context ?c w' = w1)) \<and>
    (code \<noteq> SQLITE_OK \<longrightarrow> code = rc \<and> (\<exists>e w1. m (at_context ?c w) = (Err e, w1) \<and>
      last_error w' ?c = Some \<lparr>ve_errno = rc, ve_message = ascii (error_text e)\<rparr>))"
  proof (cases r)
    case (Ok x)
    then have "on_main rc m (f, w) = (Ok SQLITE_OK, (f, w1\<lparr>current_context := current_context w\<rparr>))"
      unfolding on_main_def using o by (intro in_context_run) (simp add: retS_def)
    then show ?thesis using run m Ok at_context_back [OF cc] by auto
  next
    case (Err e)
    then have "on_main rc m (f, w) = (Ok rc, (f, (record_last_error rc (error_text e) w1)\<lparr>current_context := current_context w\<rparr>))"
      unfolding on_main_def using o by (intro in_context_run) simp
    moreover have "active_context w1 = Some ?c" using cc by (simp add: active_context_def)
    ultimately show ?thesis
      using run m Err rc by (auto simp: record_last_error_def record_last_error_for_def)
  next
    case Panic
    then have "on_main rc m (f, w) = (Panic, (f, w1\<lparr>current_context := current_context w\<rparr>))"
      unfolding on_main_def using o by (intro in_context_run) simp
    then show ?thesis using run by simp
  qed
  then show "f' = f" "current_context w' = current_context w"
    "code = SQLITE_OK \<Longrightarrow> \<exists>w1. m (at_context ?c w) = (Ok (), w1) \<and> at_context ?c w' = w1"
    "code \<noteq> SQLITE_OK \<Longrightarrow> code = rc \<and> (\<exists>e w1. m (at_context ?c w) = (Err e, w1) \<and>
      last_error w' ?c = Some \<lparr>ve_errno = rc, ve_message = ascii (error_text e)\<rparr>)" by blast+
qed

lemma code_neq [simp]: "SQLITE_IOERR_WRITE \<noteq> SQLITE_OK" "SQLITE_IOERR_TRUNCATE \<noteq> SQLITE_OK"
  "SQLITE_READONLY \<noteq> SQLITE_OK" "SQLITE_IOERR_SHORT_READ \<noteq> SQLITE_OK" "SQLITE_IOERR_READ \<noteq> SQLITE_OK"
  "SQLITE_IOERR_READ \<noteq> SQLITE_IOERR_SHORT_READ"
  by (simp_all add: sqlite_codes)

declare code_neq [symmetric, simp]

lemma x_write_ok:
  assumes f: "open_file f w a" and bs: "bs \<noteq> []" "length bs \<le> usize_max"
    and run: "x_write db_memory bs (int (length bs)) (int off) (f, w) = (Ok SQLITE_OK, (f', w'))"
  shows "open_file f' w' (afile_write off bs a)"
proof -
  have ro: "\<not> if_read_only f" using f by (simp add: open_file_def)
  have am: "checked_amount (int (length bs)) = Some (length bs)" "checked_offset (int off) = Some off"
    using bs(2) by (simp_all add: checked_amount_def checked_offset_def usize_try_from_def)
  show ?thesis
  proof (cases "if_kind f")
    case MainFile
    then have "on_main SQLITE_IOERR_WRITE (blob_write_at db_memory off bs) (f, w) = (Ok SQLITE_OK, (f', w'))"
      using run ro am by (simp add: x_write_def)
    note m = on_main_run [OF iso.within_file_ops(3) this code_neq(1)]
    then obtain w1 where w1: "blob_write_at db_memory off bs (at_context (if_context f) w) = (Ok (), w1)"
      "at_context (if_context f) w' = w1" by auto
    then have "blob_repr w1 (afile_write off bs a)"
      using blob_write_repr [OF _ w1(1), of a] f MainFile by (simp add: open_file_def)
    then show ?thesis using m(1) w1(2) MainFile ro by (simp add: open_file_def)
  next
    case (TempFile t)
    then obtain t' where "temp_write off bs t = Some (True, t')" "f' = f\<lparr>if_kind := TempFile t'\<rparr>"
      using run ro am by (auto simp: x_write_def on_temp_def write_code_def split: option.splits if_splits)
    then show ?thesis using temp_write_ok [of t off bs t'] f TempFile bs ro by (simp add: open_file_def)
  qed
qed

lemma x_truncate_ok:
  assumes f: "open_file f w a" and n: "n \<le> u64_max"
    and run: "x_truncate db_memory (int n) (f, w) = (Ok SQLITE_OK, (f', w'))"
  shows "open_file f' w' (afile_truncate n a)"
proof -
  have ro: "\<not> if_read_only f" using f by (simp add: open_file_def)
  have am: "checked_offset (int n) = Some n" by (simp add: checked_offset_def)
  show ?thesis
  proof (cases "if_kind f")
    case MainFile
    then have "on_main SQLITE_IOERR_TRUNCATE (blob_truncate db_memory n) (f, w) = (Ok SQLITE_OK, (f', w'))"
      using run ro am by (simp add: x_truncate_def)
    note m = on_main_run [OF iso.within_file_ops(4) this code_neq(2)]
    then obtain w1 where w1: "blob_truncate db_memory n (at_context (if_context f) w) = (Ok (), w1)"
      "at_context (if_context f) w' = w1" by auto
    then have "blob_repr w1 (afile_truncate n a)"
      using blob_truncate_repr [OF _ n w1(1), of a] f MainFile by (simp add: open_file_def)
    then show ?thesis using m(1) w1(2) MainFile ro by (simp add: open_file_def)
  next
    case (TempFile t)
    then obtain t' where "temp_truncate n t = Some (True, t')" "f' = f\<lparr>if_kind := TempFile t'\<rparr>"
      using run ro am by (auto simp: x_truncate_def on_temp_def write_code_def split: option.splits if_splits)
    then show ?thesis using temp_truncate_ok [of t n t'] f TempFile ro by (simp add: open_file_def)
  qed
qed

lemma x_read_ok:
  assumes f: "open_file f w a" and n: "n \<le> usize_max"
  shows "\<exists>full w'. x_read db_memory (int n) (int off) (f, w) =
      (Ok (read_code full, Some (fst (afile_read off n a))), (f, w')) \<and> open_file f w' a \<and>
      (0 < n \<longrightarrow> full = snd (afile_read off n a))"
proof (cases "if_kind f")
  case MainFile
  then show ?thesis using main_read [of f w a n off] f n by (auto simp: open_file_def)
next
  case (TempFile t)
  then have t: "temp_ok t" "a = temp_content t" using f by (simp_all add: open_file_def)
  obtain bs full where r: "temp_read t off n = (bs, full)" by fastforce
  then have "fst (afile_read off n a) = bs" "0 < n \<longrightarrow> full = snd (afile_read off n a)"
    using temp_read_ok(1) [OF t(1), of off n] temp_read_ok(2) [OF t(1), of n off] unfolding t(2)
    by (cases "afile_read off n (temp_content t)"; auto)+
  then show ?thesis
    using r TempFile f n
    by (intro exI [of _ full] exI [of _ w])
      (simp add: x_read_def checked_amount_def checked_offset_def usize_try_from_def)
qed

section \<open>The contract\<close>

text \<open>The callbacks as the operations of a file: the result code decides.\<close>

definition vfs_rd :: "nat \<Rightarrow> nat \<Rightarrow> (ic_stable_file \<times> (db_handle, db_store, 'z) vfs_world_scheme, byte list \<times> bool, c_int) stm" where
  "vfs_rd off n fw = (case x_read db_memory (int n) (int off) fw of
      (Ok (rc, Some bs), fw') \<Rightarrow> (if rc = SQLITE_OK \<or> rc = SQLITE_IOERR_SHORT_READ then Ok (bs, rc = SQLITE_OK) else Err rc, fw')
    | (Ok (rc, None), fw') \<Rightarrow> (Err rc, fw') | (_, fw') \<Rightarrow> (Panic, fw'))"

definition vfs_code :: "(ic_stable_file \<times> 'w, c_int, stable_memory_error) stm \<Rightarrow> (ic_stable_file \<times> 'w, unit, c_int) stm" where
  "vfs_code m fw = (case m fw of (Ok rc, fw') \<Rightarrow> (if rc = SQLITE_OK then Ok () else Err rc, fw') | (_, fw') \<Rightarrow> (Panic, fw'))"

lemma vfs_code_Ok: "vfs_code m fw = (Ok (), fw') \<longleftrightarrow> m fw = (Ok SQLITE_OK, fw')"
  by (auto simp: vfs_code_def split: prod.splits outcome.splits if_splits)

interpretation vfs: file_ops "\<lambda>fw a. open_file (fst fw) (snd fw) a" vfs_rd
    "\<lambda>off bs. vfs_code (if length bs \<le> usize_max then x_write db_memory bs (int (length bs)) (int off) else panicS)"
    "\<lambda>n. vfs_code (x_truncate db_memory (int n))"
proof (unfold_locales, goal_cases)
  case (1 fw a)
  then show ?case
    using blob.repr_wf [of _ a] temp_content_wf by (auto simp: open_file_def simp del: split_paired_All split: file_kind.splits)
next
  case (2 fw a n off)
  obtain f w where fw: "fw = (f, w)" by fastforce
  obtain full w' where "x_read db_memory (int n) (int off) (f, w) =
      (Ok (read_code full, Some (fst (afile_read off n a))), (f, w'))" "open_file f w' a"
      "0 < n \<longrightarrow> full = snd (afile_read off n a)"
    using x_read_ok [of f w a n off] 2 fw by auto
  then show ?case
    unfolding fw vfs_rd_def by (intro exI [of _ "(fst (afile_read off n a), full)"] exI [of _ "(f, w')"]) (auto simp: read_code_def)
next
  case (3 fw a bs off fw')
  then show ?case
    using x_write_ok [of "fst fw" "snd fw" a bs off "fst fw'" "snd fw'"]
    by (auto simp: vfs_code_Ok panicS_def split: if_splits)
next
  case (4 fw a n fw')
  then show ?case
    using x_truncate_ok [of "fst fw" "snd fw" a n "fst fw'" "snd fw'"] by (simp add: vfs_code_Ok)
qed

end
