(* ===== verification/Vfs_Reader.thy ===== *)
theory Vfs_Reader
  imports Vfs_Refine
begin

text \<open>
  Read-only handles of the database, the size of a file, and opening.  A reader keeps the superblock
  of its first access and caches pages; it shows the published file as long as no commit, import
  or direct write replaces it, also while an update of the same database is writing.
\<close>

section \<open>Contexts\<close>

lemma db_at_context:
  assumes "active_context w = Some c"
  shows "sdb.db_at (at_context c w) v b \<longleftrightarrow> sdb.db_at w v b" "active_overlay (at_context c w) = active_overlay w"
proof -
  have "active_mem (at_context c w) = active_mem w" using assms by (simp add: active_mem_def)
  then show "sdb.db_at (at_context c w) v b \<longleftrightarrow> sdb.db_at w v b" "active_overlay (at_context c w) = active_overlay w"
    using assms by (simp_all add: sdb.db_at_def sdb.holds_def active_overlay_map)
qed

section \<open>Readers\<close>

definition open_reader :: "ic_stable_file \<Rightarrow> (db_handle, db_store, 'z) vfs_world_scheme \<Rightarrow> afile \<Rightarrow> bool" where
  "open_reader f w a \<longleftrightarrow> if_read_only f \<and> if_kind f = MainFile \<and>
     (\<exists>v b. sdb.db_at (at_context (if_context f) w) v b \<and> a = sdb.file_of v b \<and>
       (if_read_snapshot f = None \<or> if_read_snapshot f = Some b) \<and> poc_ok b (db_byte v) (if_read_page_offsets f))"

lemma open_readerI:
  "if_read_only f \<Longrightarrow> if_kind f = MainFile \<Longrightarrow> sdb.db_at (at_context (if_context f) w) v b \<Longrightarrow>
    if_read_snapshot f = None \<or> if_read_snapshot f = Some b \<Longrightarrow> poc_ok b (db_byte v) (if_read_page_offsets f) \<Longrightarrow>
    open_reader f w (sdb.file_of v b)"
  unfolding open_reader_def by blast

lemma load_context:
  fixes w :: "(db_handle, db_store, 'z) vfs_world_scheme"
  assumes "sb_load db_memory w = (r, w')"
  shows "current_context w' = current_context w"
proof -
  have "iso.quiet w w'" by (rule within_run [OF iso.within_superblock(3) assms])
  then show ?thesis by (simp add: iso.quiet_def iso.same_globals_def)
qed

lemma snapshot_ok:
  assumes d: "sdb.db_at w v b" and s: "if_read_snapshot f = None \<or> if_read_snapshot f = Some b"
  obtains w' v' where "snapshot_block db_memory (f, w) = (Ok b, (f\<lparr>if_read_snapshot := Some b\<rparr>, w'))"
    "sdb.db_at w' v' b" "sdb.same_mem v v'" "current_context w' = current_context w"
proof (cases "if_read_snapshot f")
  case None
  obtain w' v' where l: "sb_load db_memory w = (Ok b, w')" "sdb.db_at w' v' b" "sdb.same_mem v v'"
    using sdb.db_at_load [OF d] by metis
  have "on_world (sb_load db_memory) (f, w) = (Ok b, (f, w'))" using l(1) by (simp add: on_world_def)
  then have "snapshot_block db_memory (f, w) = (Ok b, (f\<lparr>if_read_snapshot := Some b\<rparr>, w'))"
    using None by (simp add: snapshot_block_def retS_def)
  then show thesis using that l load_context [OF l(1)] by blast
next
  case (Some b')
  then have "snapshot_block db_memory (f, w) = (Ok b, (f\<lparr>if_read_snapshot := Some b\<rparr>, w))"
    using s by (cases f) (simp add: snapshot_block_def)
  then show thesis using that d sdb.same_mem_refl [OF db_at_inv [OF d]] by blast
qed

lemma read_cached_ok:
  assumes d: "sdb.db_at w v b" and c: "poc_ok b (db_byte v) (if_read_page_offsets f)"
  obtains w' v' c' where "read_cached db_memory b off n (f, w) =
      (Ok (afile_read off n (sdb.file_of v b)), (f\<lparr>if_read_page_offsets := c'\<rparr>, w'))"
    "sdb.db_at w' v' b" "sdb.same_mem v v'" "poc_ok b (db_byte v) c'" "current_context w' = current_context w"
proof -
  have h: "sdb.holds w v b" "img_placed b (mem_size db_memory v * STABLE_PAGE_SIZE)" using d by (simp_all add: sdb.db_at_def)
  note hd = sdb.holdsD [OF h(1)]
  have "sdb.cached_at b w v (w, if_read_page_offsets f)"
    unfolding sdb.cached_at_def using sdb.reached_refl [OF hd(1,2)] c by simp
  then obtain w' c' where r: "read_base_at_with_page_cache db_memory b off n (w, if_read_page_offsets f) =
      (Ok (afile_read off n (sdb.file_of v b)), (w', c'))" "sdb.cached_at b w v (w', c')"
    using sdb.read_base_at_with_page_cache_ok [OF _ hd(1,2) h(2), of "(w, if_read_page_offsets f)" off n]
    by (auto simp: afile_read_def sdb.file_of_def)
  then obtain v' where v': "w' = put_mem v' w" "sdb.same_mem v v'" "poc_ok b (db_byte v) c'"
    unfolding sdb.cached_at_def sdb.reached_def by auto
  show thesis
    by (rule that [of c' w' v'])
      (use r(1) v' sdb.db_at_put(1) [OF d v'(2)] in \<open>simp_all add: read_cached_def\<close>)
qed

lemma x_read_reader:
  assumes f: "open_reader f w a" and n: "n \<le> usize_max"
  shows "\<exists>f' w'. x_read db_memory (int n) (int off) (f, w) =
      (Ok (read_code (snd (afile_read off n a)), Some (fst (afile_read off n a))), (f', w')) \<and> open_reader f' w' a"
proof -
  let ?c = "if_context f"
  obtain v b where d: "sdb.db_at (at_context ?c w) v b" "a = sdb.file_of v b"
    "if_read_snapshot f = None \<or> if_read_snapshot f = Some b" "poc_ok b (db_byte v) (if_read_page_offsets f)"
    and k: "if_read_only f" "if_kind f = MainFile"
    using f unfolding open_reader_def by blast
  let ?f1 = "f\<lparr>if_read_snapshot := Some b\<rparr>"
  obtain w1 v1 where s: "snapshot_block db_memory (f, at_context ?c w) = (Ok b, (?f1, w1))"
    "sdb.db_at w1 v1 b" "sdb.same_mem v v1" "current_context w1 = Some ?c"
    using snapshot_ok [OF d(1,3)] by auto
  have c1: "poc_ok b (db_byte v1) (if_read_page_offsets ?f1)" using d(4) sdb.same_memD(3) [OF s(3)] by simp
  obtain w2 v2 c2 where r: "read_cached db_memory b off n (?f1, w1) =
      (Ok (afile_read off n (sdb.file_of v1 b)), (?f1\<lparr>if_read_page_offsets := c2\<rparr>, w2))"
    "sdb.db_at w2 v2 b" "sdb.same_mem v1 v2" "poc_ok b (db_byte v1) c2" "current_context w2 = Some ?c"
    using read_cached_ok [OF s(2) c1] s(4) by metis
  let ?f2 = "?f1\<lparr>if_read_page_offsets := c2\<rparr>" and ?w = "w2\<lparr>current_context := current_context w\<rparr>"
  have a: "sdb.file_of v1 b = a" "sdb.file_of v2 b = a"
    using sdb.file_of_same [OF s(3)] sdb.file_of_same [OF r(3)] d(2) by simp_all
  obtain bs full where rd: "afile_read off n a = (bs, full)" by fastforce
  let ?m = "catchS (tryS (snapshot_block db_memory) (\<lambda>block. read_cached db_memory block off n))
      (fail_with SQLITE_IOERR_READ) (\<lambda>(bs, complete). retS (read_code complete, Some bs))"
  have "?m (f, at_context ?c w) = (Ok (read_code full, Some bs), (?f2, w2))"
    using s(1) r(1) rd a(1) by (simp add: retS_def)
  note run = in_context_run [where m = ?m, OF this]
  have "open_reader ?f2 ?w (sdb.file_of v2 b)"
    using k r(2,4) sdb.same_memD(3) [OF r(3)] at_context_back [OF r(5)]
    by (intro open_readerI [of ?f2 ?w v2 b]) simp_all
  then show ?thesis
    using run k n rd a(2)
    by (intro exI [of _ ?f2] exI [of _ ?w])
      (simp add: x_read_def checked_amount_def checked_offset_def usize_try_from_def)
qed

section \<open>Readers beside a writer\<close>

text \<open>During an update the published image is fixed, whatever the writing handle does.\<close>

lemma reader_beside_update:
  assumes u: "sdb.updating (at_context c w) v b ov" and x: "x = CallOp y" "op_valid y"
    and r: "open_reader f w a" "if_context f = c"
    and w': "at_context c w' = call x (at_context c w)"
  shows "open_reader f w' a"
proof -
  obtain v0 b0 where d: "sdb.db_at (at_context c w) v0 b0" "a = sdb.file_of v0 b0"
    "if_read_snapshot f = None \<or> if_read_snapshot f = Some b0" "poc_ok b0 (db_byte v0) (if_read_page_offsets f)"
    and k: "if_read_only f" "if_kind f = MainFile"
    using r unfolding open_reader_def by blast
  have du: "sdb.db_at (at_context c w) v b" using u by (simp add: sdb.updating_def)
  have hv: "active_mem (at_context c w) = Some v0" "active_mem (at_context c w) = Some v"
    "sb_image (db_byte v0) b0" "sb_image (db_byte v) b"
    using d(1) du by (simp_all add: sdb.db_at_def sdb.holds_def)
  then have eq: "v0 = v" "b0 = b" using sb_image_unique by auto
  have "\<exists>v'. sdb.db_at (call x (at_context c w)) v' b \<and> sdb.same_mem v v'"
  proof (cases rule: sdb.run_op_cases [OF u x(2)])
    case (1 w1 v1 ov1)
    have "sdb.db_at w1 v1 b" using 1(2) by (simp add: sdb.updating_def)
    moreover have "call x (at_context c w) = w1"
      using 1(1) unfolding x(1) by (cases y) (auto simp: tryS_Ok_iff retS_def)
    ultimately show ?thesis using 1(3) by blast
  next
    case (2 e w1 v1)
    have "call x (at_context c w) = w1"
      using 2(1) unfolding x(1) by (cases y) (auto simp: tryS_def retS_def split: prod.splits outcome.splits)
    then show ?thesis using 2(2,3) by blast
  qed
  then obtain v' where v': "sdb.db_at (at_context c w') v' b" "sdb.same_mem v v'" using w' by auto
  have "open_reader f w' (sdb.file_of v' b)"
    using k d(3,4) v'(1) r(2) eq sdb.same_memD(3) [OF v'(2)] by (intro open_readerI [of f w' v' b]) simp_all
  then show ?thesis using sdb.file_of_same [OF v'(2)] d(2) eq by simp
qed

section \<open>Opening\<close>

lemma x_open_main:
  assumes d: "sdb.db_at w v b" and c: "active_context w = Some c" and imp: "\<not> is_importing b"
    and p: "is_main_db_path (Some path)"
  obtains w' v' where "x_open db_memory (Some path) flags w = (Ok (SQLITE_OK, Some flags,
      Some (install MainFile (oo_access (classify_open_flags flags) = AccessReadOnly) c)), w')"
    "sdb.db_at w' v' b" "sdb.same_mem v v'" "active_context w' = Some c" "active_overlay w' = active_overlay w"
proof -
  obtain w' v' where l: "sb_load db_memory w = (Ok b, w')" "sdb.db_at w' v' b" "sdb.same_mem v v'" "touches w w'"
    "active_overlay w' = active_overlay w"
    using sdb.db_at_load [OF d] by metis
  have "active_context_id w = (Ok c, w)" using c by (simp add: active_context_id_def)
  then have "x_open db_memory (Some path) flags w = (Ok (SQLITE_OK, Some flags,
      Some (install MainFile (oo_access (classify_open_flags flags) = AccessReadOnly) c)), w')"
    using l(1) imp p by (simp add: x_open_def Let_def retS_def)
  then show thesis using that l touches_active [OF l(4)] c by simp
qed

lemma installed [simp]:
  "if_context (install k r c) = c" "if_kind (install k r c) = k" "if_read_only (install k r c) = r"
  "if_read_snapshot (install k r c) = None" "if_read_page_offsets (install k r c) = page_offset_cache_new"
  by (simp_all add: install_def file_new_def)

end
