(* ===== verification/Vfs_Props.thy ===== *)
theory Vfs_Props
  imports Vfs_Reader
begin

text \<open>
  What the VFS guarantees to SQLite: files that read back what was written, snapshots for readers,
  refusals, opening, path names, locks and error reports.
\<close>

section \<open>Open files of the examples\<close>

definition main_path :: "byte list" where
  "main_path = MAIN_DB_PATH"

lemma main_path_main: "is_main_db_path (Some main_path)"
  by (simp add: main_path_def is_main_db_path_def MAIN_DB_PATH_def ascii_def normalized_main_path_bytes_def strip_scheme_def)

lemma flag_classes:
  "oo_access (classify_open_flags 2) = AccessReadWrite False" "oo_access (classify_open_flags 1) = AccessReadOnly"
  by (simp_all add: classify_open_flags_def sqlite_codes)

definition sample_file :: ic_stable_file where
  "sample_file = install MainFile False 1"

definition sample_reader :: ic_stable_file where
  "sample_reader = install MainFile True 1"

lemma sample_open: "open_file sample_file sample_db (0, \<lambda>_. 0)" "open_reader sample_reader sample_db (0, \<lambda>_. 0)"
proof -
  obtain v where v: "sdb.db_at sample_db v fresh" "sdb.file_of v fresh = (0, \<lambda>_. 0)" by (rule sample_at)
  have d: "sdb.db_at (at_context 1 sample_db) v fresh" "active_overlay (at_context 1 sample_db) = None"
    using db_at_context(1) [OF sample_load(4), of v fresh] db_at_context(2) [OF sample_load(4)] v(1) sample_load(3)
    by simp_all
  then have "blob_repr (at_context 1 sample_db) (0, \<lambda>_. 0)" using blob_reprI(1) [OF d] v(2) by simp
  then show "open_file sample_file sample_db (0, \<lambda>_. 0)" by (simp add: open_file_def sample_file_def)
  have "open_reader sample_reader sample_db (sdb.file_of v fresh)"
    using d(1) poc_ok_new by (intro open_readerI) (simp_all add: sample_reader_def)
  then show "open_reader sample_reader sample_db (0, \<lambda>_. 0)" using v(2) by simp
qed

section \<open>Files\<close>

text \<open>C24. An open writable file, of the database or a temporary one, behaves as the abstract file: a
  read succeeds and fills the buffer with the bytes of the file and zeros beyond its end, reporting
  a short read exactly when the range runs past the end; a write that reports success is read back
  unchanged; a successful truncate cuts or extends with zeros.\<close>

theorem vfs_file_contract:
  assumes "open_file f w a" "0 < n" "n \<le> usize_max" "bs \<noteq> []" "length bs \<le> usize_max" "m \<le> u64_max"
  shows "(\<exists>w'. x_read db_memory (int n) (int off) (f, w) =
      (Ok (if off + n \<le> fst a then SQLITE_OK else SQLITE_IOERR_SHORT_READ, Some (bytes_at (snd a) off n)), (f, w')) \<and>
      open_file f w' a) \<and>
    (\<forall>f' w'. x_write db_memory bs (int (length bs)) (int off) (f, w) = (Ok SQLITE_OK, (f', w')) \<longrightarrow>
      open_file f' w' (afile_write off bs a) \<and>
      (\<exists>w''. x_read db_memory (int (length bs)) (int off) (f', w') = (Ok (SQLITE_OK, Some bs), (f', w'')))) \<and>
    (\<forall>f' w'. x_truncate db_memory (int m) (f, w) = (Ok SQLITE_OK, (f', w')) \<longrightarrow>
      open_file f' w' (afile_truncate m a))"
proof (intro conjI allI impI)
  show "\<exists>w'. x_read db_memory (int n) (int off) (f, w) =
      (Ok (if off + n \<le> fst a then SQLITE_OK else SQLITE_IOERR_SHORT_READ, Some (bytes_at (snd a) off n)), (f, w')) \<and>
      open_file f w' a"
    using x_read_ok [OF assms(1,3), of off] assms(2) by (auto simp: afile_read_def read_code_def)
next
  fix f' w'
  assume run: "x_write db_memory bs (int (length bs)) (int off) (f, w) = (Ok SQLITE_OK, (f', w'))"
  show o: "open_file f' w' (afile_write off bs a)" by (rule x_write_ok [OF assms(1,4,5) run])
  show "\<exists>w''. x_read db_memory (int (length bs)) (int off) (f', w') = (Ok (SQLITE_OK, Some bs), (f', w''))"
    using x_read_ok [OF o assms(5), of off] afile_read_write_same [OF assms(4), of off a] assms(4)
    by (auto simp: read_code_def)
next
  fix f' w'
  assume "x_truncate db_memory (int m) (f, w) = (Ok SQLITE_OK, (f', w'))"
  then show "open_file f' w' (afile_truncate m a)" by (rule x_truncate_ok [OF assms(1,6)])
qed

theorem vfs_file_contract_witness:
  "\<exists>w'. x_read db_memory 4 10 (sample_file, sample_db) =
    (Ok (SQLITE_IOERR_SHORT_READ, Some [0, 0, 0, 0]), (sample_file, w'))"
proof -
  have "bytes_at (\<lambda>_. 0) 10 4 = [0, 0, 0, 0 :: byte]" by (simp add: bytes_at_def upt_rec)
  then show ?thesis
    using vfs_file_contract [OF sample_open(1), of 4 "[1]" 0 10] by (auto simp: int_max_defs)
qed

text \<open>C25. A read-only handle is a snapshot: any sequence of reads through it returns the bytes of the
  published file it was opened on, with the codes of complete and short reads, whatever its page
  caches hold.\<close>

theorem reader_reads_snapshot:
  assumes "open_reader f w a" "\<forall>(off, n) \<in> set reqs. n \<le> usize_max"
  shows "\<exists>f' w'. mapS (\<lambda>(off, n). x_read db_memory (int n) (int off)) reqs (f, w) =
    (Ok (map (\<lambda>(off, n). (read_code (snd (afile_read off n a)), Some (fst (afile_read off n a)))) reqs), (f', w')) \<and>
    open_reader f' w' a"
  using assms
proof (induction reqs arbitrary: f w)
  case Nil
  then show ?case by (auto simp: retS_def)
next
  case (Cons r rs)
  obtain off n where r: "r = (off, n)" by fastforce
  obtain f1 w1 where x: "x_read db_memory (int n) (int off) (f, w) =
      (Ok (read_code (snd (afile_read off n a)), Some (fst (afile_read off n a))), (f1, w1))" "open_reader f1 w1 a"
    using x_read_reader [OF Cons.prems(1), of n off] Cons.prems(2) r by auto
  obtain f' w' where "mapS (\<lambda>(off, n). x_read db_memory (int n) (int off)) rs (f1, w1) =
    (Ok (map (\<lambda>(off, n). (read_code (snd (afile_read off n a)), Some (fst (afile_read off n a)))) rs), (f', w'))"
    "open_reader f' w' a"
    using Cons.IH [OF x(2)] Cons.prems(2) by auto
  with x(1) r show ?case by (intro exI [of _ f'] exI [of _ w']) (simp add: retS_def)
qed

theorem reader_reads_snapshot_witness:
  "\<exists>fw. mapS (\<lambda>(off, n). x_read db_memory (int n) (int off)) [(0, 1), (3, 2)] (sample_reader, sample_db) =
    (Ok [(SQLITE_IOERR_SHORT_READ, Some [0]), (SQLITE_IOERR_SHORT_READ, Some [0, 0])], fw)"
proof -
  have "map (\<lambda>(off, n). (read_code (snd (afile_read off n (0, \<lambda>_. 0))), Some (fst (afile_read off n (0, \<lambda>_. 0)))))
      [(0, 1), (3, 2)] = [(SQLITE_IOERR_SHORT_READ, Some [0]), (SQLITE_IOERR_SHORT_READ, Some [0, 0])]"
    by (simp add: afile_read_def bytes_at_def read_code_def upt_rec)
  then show ?thesis
    using reader_reads_snapshot [OF sample_open(2), of "[(0, 1), (3, 2)]"] by (fastforce simp: int_max_defs)
qed

end
