(* ===== verification/Vfs_Sessions.thy ===== *)
theory Vfs_Sessions
  imports Vfs_Props
begin

text \<open>
  Sessions over the callbacks: a writer beside readers of the same database, opening, sizes, path
  names, error reports and locks.
\<close>

section \<open>Readers beside a writer\<close>

text \<open>The error slots are no part of the database.\<close>

lemma error_slot_active [simp]: "active_context (w\<lparr>last_error := le\<rparr>) = active_context w"
  by (simp add: active_context_def split: option.split)

lemma error_slot_state [simp]:
  "active_mem (w\<lparr>last_error := le\<rparr>) = active_mem w" "active_overlay (w\<lparr>last_error := le\<rparr>) = active_overlay w"
  by (simp_all add: active_mem_def active_overlay_map split: option.split)

lemma error_slot_ignored [simp]:
  "sdb.db_at (w\<lparr>last_error := le\<rparr>) v b \<longleftrightarrow> sdb.db_at w v b"
  "sdb.updating (w\<lparr>last_error := le\<rparr>) v b ov \<longleftrightarrow> sdb.updating w v b ov"
  "at_context c (w\<lparr>last_error := le\<rparr>) = (at_context c w)\<lparr>last_error := le\<rparr>"
  by (simp_all add: sdb.db_at_def sdb.updating_def sdb.holds_def at_context_def)

lemma lock_slot_active [simp]: "active_context (w\<lparr>lock_level := l\<rparr>) = active_context w"
  by (simp add: active_context_def split: option.split)

lemma lock_slot_state [simp]:
  "active_mem (w\<lparr>lock_level := l\<rparr>) = active_mem w" "active_overlay (w\<lparr>lock_level := l\<rparr>) = active_overlay w"
  by (simp_all add: active_mem_def active_overlay_map split: option.split)

lemma lock_slot_ignored [simp]:
  "sdb.db_at (w\<lparr>lock_level := l\<rparr>) v b \<longleftrightarrow> sdb.db_at w v b"
  "sdb.updating (w\<lparr>lock_level := l\<rparr>) v b ov \<longleftrightarrow> sdb.updating w v b ov"
  "at_context c (w\<lparr>lock_level := l\<rparr>) = (at_context c w)\<lparr>lock_level := l\<rparr>"
  by (simp_all add: sdb.db_at_def sdb.updating_def sdb.holds_def at_context_def)

lemma on_main_world:
  assumes w: "within iso.frame m" and m: "m (at_context (if_context f) w) = (r, w1)"
  shows "\<exists>le. on_main rc m (f, w) = (case r of Ok _ \<Rightarrow> Ok SQLITE_OK | Err _ \<Rightarrow> Ok rc | Panic \<Rightarrow> Panic,
      (f, (w1\<lparr>last_error := le\<rparr>)\<lparr>current_context := current_context w\<rparr>))"
    and "current_context w1 = Some (if_context f)"
proof -
  show cc: "current_context w1 = Some (if_context f)" using frame_context(1) [OF within_run [OF w m]] by simp
  note o = on_world_run [where m = m, OF m, of f]
  show "\<exists>le. on_main rc m (f, w) = (case r of Ok _ \<Rightarrow> Ok SQLITE_OK | Err _ \<Rightarrow> Ok rc | Panic \<Rightarrow> Panic,
      (f, (w1\<lparr>last_error := le\<rparr>)\<lparr>current_context := current_context w\<rparr>))"
  proof (cases r)
    case (Ok x)
    then have "on_main rc m (f, w) = (Ok SQLITE_OK, (f, w1\<lparr>current_context := current_context w\<rparr>))"
      unfolding on_main_def using o by (intro in_context_run) (simp add: retS_def)
    then show ?thesis using Ok by (intro exI [of _ "last_error w1"]) simp
  next
    case (Err e')
    have "active_context w1 = Some (if_context f)" using cc by (simp add: active_context_def)
    then obtain le where "record_last_error rc (error_text e') w1 = w1\<lparr>last_error := le\<rparr>"
      by (simp add: record_last_error_def record_last_error_for_def)
    moreover have "on_main rc m (f, w) = (Ok rc, (f, (record_last_error rc (error_text e') w1)\<lparr>current_context := current_context w\<rparr>))"
      unfolding on_main_def using o Err by (intro in_context_run) simp
    ultimately show ?thesis using Err by (intro exI [of _ le]) simp
  next
    case Panic
    then have "on_main rc m (f, w) = (Panic, (f, w1\<lparr>current_context := current_context w\<rparr>))"
      unfolding on_main_def using o by (intro in_context_run) simp
    then show ?thesis using Panic by (intro exI [of _ "last_error w1"]) simp
  qed
qed

section \<open>Requests during an update\<close>

text \<open>\<open>in_update c b g w a\<close>: an update without write budget runs in context \<open>c\<close>; the published image
  is still the superblock \<open>b\<close> over the bytes \<open>g\<close>, and the writer sees the file \<open>a\<close>.  SQLite's file
  offsets are signed 64-bit numbers, so the file stays within that range.\<close>

definition in_update :: "context_id \<Rightarrow> superblock \<Rightarrow> (nat \<Rightarrow> byte) \<Rightarrow> (db_handle, db_store, 'z) vfs_world_scheme \<Rightarrow> afile \<Rightarrow> bool" where
  "in_update c b g w a \<longleftrightarrow> (\<exists>v ov. sdb.updating (at_context c w) v b ov \<and> ov_write_budget ov = None \<and>
     db_byte v = g \<and> ov_content (img_byte b g) ov = a \<and> fst a \<le> i64_max)"

lemma in_updateI:
  "sdb.updating (at_context c w) v b ov \<Longrightarrow> ov_write_budget ov = None \<Longrightarrow> db_byte v = g \<Longrightarrow>
    ov_content (img_byte b g) ov = a \<Longrightarrow> fst a \<le> i64_max \<Longrightarrow> in_update c b g w a"
  unfolding in_update_def by blast

lemma main_write_run:
  assumes "\<not> if_read_only g" "if_kind g = MainFile" "length bs \<le> usize_max"
  shows "x_write db_memory bs (int (length bs)) (int off) (g, w) = on_main SQLITE_IOERR_WRITE (blob_write_at db_memory off bs) (g, w)"
    "x_truncate db_memory (int n) (g, w) = on_main SQLITE_IOERR_TRUNCATE (blob_truncate db_memory n) (g, w)"
  using assms by (simp_all add: x_write_def x_truncate_def checked_amount_def checked_offset_def usize_try_from_def)

lemma i64_room: "n \<le> i64_max \<Longrightarrow> n + PS \<le> u64_max" "n \<le> i64_max \<Longrightarrow> n \<le> u64_max"
  by (simp_all add: int_max_defs config_defs)

lemma ov_content_size: "fst (ov_content g ov) = ov_size ov"
  by (simp add: ov_content_def)

lemma no_failure:
  "ov_write_budget ov = None \<Longrightarrow> fst (ov_content g ov) \<le> i64_max \<Longrightarrow> e \<le> i64_max \<Longrightarrow> \<not> may_fail ov e"
  using i64_room [of "ov_size ov"] i64_room [of e] by (simp add: may_fail_def ov_content_size)

lemma on_main_ok:
  assumes "within iso.frame m" "m (at_context (if_context f) w) = (Ok (), w1)"
  shows "\<exists>w'. on_main rc m (f, w) = (Ok SQLITE_OK, (f, w')) \<and> current_context w' = current_context w \<and>
    (\<exists>le. at_context (if_context f) w' = w1\<lparr>last_error := le\<rparr>)"
proof -
  obtain le where o: "on_main rc m (f, w) = (Ok SQLITE_OK, (f, (w1\<lparr>last_error := le\<rparr>)\<lparr>current_context := current_context w\<rparr>))"
    using on_main_world(1) [OF assms, of rc] by auto
  have cc: "current_context (w1\<lparr>last_error := le\<rparr>) = Some (if_context f)" using on_main_world(2) [OF assms] by simp
  show ?thesis
    by (rule exI, intro conjI, rule o, simp, rule exI [of _ le], rule at_context_back [OF cc])
qed

lemma writer_write:
  assumes u: "in_update c b g w a" and f: "\<not> if_read_only f" "if_kind f = MainFile" "if_context f = c"
    and r: "off + length bs \<le> i64_max"
  shows "\<exists>w'. x_write db_memory bs (int (length bs)) (int off) (f, w) = (Ok SQLITE_OK, (f, w')) \<and>
    in_update c b g w' (afile_write off bs a) \<and> current_context w' = current_context w"
proof -
  obtain v ov where o: "sdb.updating (at_context c w) v b ov" "ov_write_budget ov = None" "db_byte v = g"
    "ov_content (img_byte b g) ov = a" "fst a \<le> i64_max" using u unfolding in_update_def by blast
  have nf: "\<not> may_fail ov (off + length bs)" using no_failure [OF o(2) _ r, of "img_byte b g"] o(4,5) by simp
  have len: "length bs \<le> usize_max" using r by (simp add: int_max_defs)
  note run = main_write_run(1) [OF f(1,2) len, of off w]
  show ?thesis
  proof (cases rule: sdb.update_write_cases [OF o(1), of off bs])
    case (1 w1 v1 ov1)
    obtain w' le where w': "on_main SQLITE_IOERR_WRITE (blob_write_at db_memory off bs) (f, w) = (Ok SQLITE_OK, (f, w'))"
      "current_context w' = current_context w" "at_context c w' = w1\<lparr>last_error := le\<rparr>"
      using on_main_ok [OF iso.within_file_ops(3), of off bs f w w1 SQLITE_IOERR_WRITE] 1(1) f(3) by auto
    have g: "db_byte v1 = g" using sdb.same_memD(3) [OF 1(3)] o(3) by simp
    have "in_update c b g w' (afile_write off bs a)"
      by (rule in_updateI [of c w' v1 b ov1])
        (use 1 w'(3) g o r in \<open>simp_all add: afile_write_def\<close>)
    then show ?thesis using run w' by auto
  next
    case 2
    then show ?thesis using nf by simp
  qed
qed

lemma writer_truncate:
  assumes u: "in_update c b g w a" and f: "\<not> if_read_only f" "if_kind f = MainFile" "if_context f = c"
    and r: "n \<le> i64_max"
  shows "\<exists>w'. x_truncate db_memory (int n) (f, w) = (Ok SQLITE_OK, (f, w')) \<and>
    in_update c b g w' (afile_truncate n a) \<and> current_context w' = current_context w"
proof -
  obtain v ov where o: "sdb.updating (at_context c w) v b ov" "ov_write_budget ov = None" "db_byte v = g"
    "ov_content (img_byte b g) ov = a" "fst a \<le> i64_max" using u unfolding in_update_def by blast
  have nf: "\<not> may_fail ov n" using no_failure [OF o(2) _ r, of "img_byte b g"] o(4,5) by simp
  note run = main_write_run(2) [OF f(1,2), of "[]" n w]
  show ?thesis
  proof (cases rule: sdb.update_truncate_cases [OF o(1) i64_room(2) [OF r]])
    case (1 w1 v1 ov1)
    obtain w' le where w': "on_main SQLITE_IOERR_TRUNCATE (blob_truncate db_memory n) (f, w) = (Ok SQLITE_OK, (f, w'))"
      "current_context w' = current_context w" "at_context c w' = w1\<lparr>last_error := le\<rparr>"
      using on_main_ok [OF iso.within_file_ops(4), of n f w w1 SQLITE_IOERR_TRUNCATE] 1(1) f(3) by auto
    have g: "db_byte v1 = g" using sdb.same_memD(3) [OF 1(3)] o(3) by simp
    have "in_update c b g w' (afile_truncate n a)"
      by (rule in_updateI [of c w' v1 b ov1])
        (use 1 w'(3) g o r in \<open>simp_all add: afile_truncate_def\<close>)
    then show ?thesis using run w' by auto
  next
    case 2
    then show ?thesis using nf by simp
  qed
qed

lemma writer_read:
  assumes u: "in_update c b g w a" and f: "\<not> if_read_only f" "if_kind f = MainFile" "if_context f = c"
    and r: "n \<le> usize_max"
  shows "\<exists>w'. x_read db_memory (int n) (int off) (f, w) =
      (Ok (read_code (snd (afile_read off n a)), Some (fst (afile_read off n a))), (f, w')) \<and>
    in_update c b g w' a \<and> current_context w' = current_context w"
proof -
  obtain v ov where o: "sdb.updating (at_context c w) v b ov" "ov_write_budget ov = None" "db_byte v = g"
    "ov_content (img_byte b g) ov = a" "fst a \<le> i64_max" using u unfolding in_update_def by blast
  obtain w1 v1 ov1 where d: "blob_read_at db_memory off n (at_context c w) = (Ok (afile_read off n a), w1)"
    "sdb.updating w1 v1 b ov1" "sdb.same_mem v v1" "ov_write_budget ov1 = None" "ov_content (img_byte b (db_byte v1)) ov1 = a"
    using sdb.update_read_ok [OF o(1), of off n] o(2-4) by metis
  have cc: "current_context w1 = Some c"
    using frame_context(1) [OF within_run [OF iso.within_file_ops(2) d(1)]] by simp
  obtain bs full where rd: "afile_read off n a = (bs, full)" by fastforce
  let ?m = "catchS (on_world (blob_read_at db_memory off n)) (fail_with SQLITE_IOERR_READ)
      (\<lambda>(bs, complete). retS (read_code complete, Some bs))"
  have "?m (f, at_context c w) = (Ok (read_code full, Some bs), (f, w1))"
    using on_world_run [where m = "blob_read_at db_memory off n", OF d(1), of f] rd by (simp add: retS_def)
  then have run: "in_context ?m (f, w) = (Ok (read_code full, Some bs), (f, w1\<lparr>current_context := current_context w\<rparr>))"
    using in_context_run [where m = ?m, of f w] f(3) by simp
  have "in_update c b g (w1\<lparr>current_context := current_context w\<rparr>) a"
    using d o(3,5) sdb.same_memD(3) [OF d(3)] at_context_back [OF cc] by (intro in_updateI [of c _ v1 b ov1]) simp_all
  then show ?thesis
    using run r f rd
    by (intro exI [of _ "w1\<lparr>current_context := current_context w\<rparr>"])
      (simp add: x_read_def checked_amount_def checked_offset_def usize_try_from_def)
qed

lemma in_update_slots [simp]:
  "in_update c b g (w\<lparr>last_error := le\<rparr>) a \<longleftrightarrow> in_update c b g w a"
  "in_update c b g (w\<lparr>lock_level := l\<rparr>) a \<longleftrightarrow> in_update c b g w a"
  "in_update c b g (w\<lparr>current_context := x\<rparr>) a \<longleftrightarrow> in_update c b g w a"
  by (simp_all add: in_update_def)

lemma at_context_same: "current_context w = Some c \<Longrightarrow> at_context c w = w"
  by (simp add: at_context_def)

lemma in_update_load:
  assumes u: "in_update c b g w a"
  shows "\<exists>w'. sb_load db_memory (at_context c w) = (Ok b, w') \<and> in_update c b g w' a \<and> current_context w' = Some c"
proof -
  obtain v ov where o: "sdb.updating (at_context c w) v b ov" "ov_write_budget ov = None" "db_byte v = g"
    "ov_content (img_byte b g) ov = a" "fst a \<le> i64_max" using u unfolding in_update_def by blast
  have "sdb.db_at (at_context c w) v b" using o(1) by (simp add: sdb.updating_def)
  from sdb.db_at_load [OF this] obtain w' v' where l: "sb_load db_memory (at_context c w) = (Ok b, w')"
    "sdb.db_at w' v' b" "sdb.same_mem v v'" "active_overlay w' = active_overlay (at_context c w)" by metis
  have g: "db_byte v' = g" using sdb.same_memD(3) [OF l(3)] o(3) by simp
  have cc: "current_context w' = Some c" using load_context [OF l(1)] by simp
  have "in_update c b g w' a"
    by (rule in_updateI [of c w' v' b ov]) (use o l(2,4) g at_context_same [OF cc] in \<open>simp_all add: sdb.updating_def\<close>)
  then show ?thesis using l(1) cc by blast
qed

lemma writer_size:
  assumes u: "in_update c b g w a" and f: "\<not> if_read_only f" "if_kind f = MainFile" "if_context f = c"
  shows "x_file_size db_memory (f, w) = (Ok (SQLITE_OK, Some (int (fst a))), (f, w))"
proof -
  obtain v ov where o: "sdb.updating (at_context c w) v b ov" "ov_content (img_byte b g) ov = a" "fst a \<le> i64_max"
    using u unfolding in_update_def by blast
  have "overlay_file_size (at_context c w) = Some (fst a)"
    using o by (auto simp: overlay_file_size_def sdb.updating_def ov_content_size)
  then have "blob_file_size db_memory (at_context c w) = (Ok (fst a), at_context c w)" by (simp add: blob_file_size_def)
  note s = on_world_run [where m = "blob_file_size db_memory", OF this, of f]
  let ?m = "catchS (on_world (blob_file_size db_memory)) (fail_with SQLITE_IOERR_FSTAT) (\<lambda>n. retS (size_result n))"
  have "?m (f, at_context c w) = (Ok (size_result (fst a)), (f, at_context c w))" using s by (simp add: retS_def)
  then have "in_context ?m (f, w) = (Ok (size_result (fst a)), (f, (at_context c w)\<lparr>current_context := current_context w\<rparr>))"
    using in_context_run [where m = ?m, of f w] f(3) by simp
  then show ?thesis using f o(3) by (simp add: x_file_size_def size_result_def at_context_def)
qed

section \<open>SQLite as a client of the VFS\<close>

text \<open>What SQLite may do to the shared state while a statement runs on the writing connection of
  context \<open>c\<close>: requests on its writable handle of the database, in the range of its 64-bit file
  offsets, on temporary files, locks, opens, sizes and random numbers, in any order.\<close>

definition writer_handle :: "context_id \<Rightarrow> ic_stable_file \<Rightarrow> bool" where
  "writer_handle c f \<longleftrightarrow> \<not> if_read_only f \<and> if_kind f = MainFile \<and> if_context f = c"

inductive client_step :: "context_id \<Rightarrow> (db_handle, db_store, 'z) vfs_world_scheme \<Rightarrow>
    (db_handle, db_store, 'z) vfs_world_scheme \<Rightarrow> bool" for c where
  write_step: "client_step c w w'" if "writer_handle c f" "off + length bs \<le> i64_max"
    "x_write db_memory bs (int (length bs)) (int off) (f, w) = (r, (f', w'))"
| truncate_step: "client_step c w w'" if "writer_handle c f" "n \<le> i64_max"
    "x_truncate db_memory (int n) (f, w) = (r, (f', w'))"
| read_step: "client_step c w w'" if "writer_handle c f" "n \<le> usize_max"
    "x_read db_memory (int n) (int off) (f, w) = (r, (f', w'))"
| size_step: "client_step c w w'" if "writer_handle c f" "x_file_size db_memory (f, w) = (r, (f', w'))"
| temp_write_step: "client_step c w w'" if "if_kind f = TempFile t" "x_write db_memory bs n off (f, w) = (r, (f', w'))"
| temp_truncate_step: "client_step c w w'" if "if_kind f = TempFile t" "x_truncate db_memory n (f, w) = (r, (f', w'))"
| temp_read_step: "client_step c w w'" if "if_kind f = TempFile t" "x_read db_memory n off (f, w) = (r, (f', w'))"
| lock_step: "client_step c w w'" if "if_context f = c" "x_lock l (f, w) = (r, (f', w'))"
| unlock_step: "client_step c w w'" if "if_context f = c" "x_unlock l (f, w) = (r, (f', w'))"
| control_step: "client_step c w w'" if "x_file_control mprintf opcode arg (f, w) = (r, (f', w'))"
| open_step: "client_step c w w'" if "current_context w = Some c" "x_open db_memory name flags w = (r, w')"
| random_step: "client_step c w w'" if "current_context w = Some c" "x_randomness db_memory n w = (r, w')"

abbreviation client_run :: "context_id \<Rightarrow> (db_handle, db_store, 'z) vfs_world_scheme \<Rightarrow>
    (db_handle, db_store, 'z) vfs_world_scheme \<Rightarrow> bool" where
  "client_run c \<equiv> (client_step c)\<^sup>*\<^sup>*"

lemma temp_callbacks_world:
  assumes "if_kind f = TempFile t"
  shows "x_write V bs n off (f, w) = (r, (f', w')) \<Longrightarrow> \<exists>le. w' = w\<lparr>last_error := le\<rparr>"
    "x_truncate V n (f, w) = (r, (f', w')) \<Longrightarrow> \<exists>le. w' = w\<lparr>last_error := le\<rparr>"
    "x_read V n off (f, w) = (r', (f', w')) \<Longrightarrow> w' = w"
proof -
  have same: "\<exists>le. w = w\<lparr>last_error := le\<rparr>" by (rule exI [of _ "last_error w"]) simp
  have rec: "\<exists>le. record_last_error rc m w = w\<lparr>last_error := le\<rparr>" for rc m
    using same by (cases "active_context w") (auto simp: record_last_error_def record_last_error_for_def)
  show "x_write V bs n off (f, w) = (r, (f', w')) \<Longrightarrow> \<exists>le. w' = w\<lparr>last_error := le\<rparr>"
    using assms same rec by (auto simp: x_write_def on_temp_def Let_def split: if_splits option.splits)
  show "x_truncate V n (f, w) = (r, (f', w')) \<Longrightarrow> \<exists>le. w' = w\<lparr>last_error := le\<rparr>"
    using assms same rec by (auto simp: x_truncate_def on_temp_def split: if_splits option.splits)
  show "x_read V n off (f, w) = (r', (f', w')) \<Longrightarrow> w' = w"
    using assms by (auto simp: x_read_def split: option.splits prod.splits)
qed

lemma lock_callbacks_world:
  "x_lock l (f, w) = (r, (f', w')) \<Longrightarrow> \<exists>l'. w' = w\<lparr>lock_level := l'\<rparr>"
  "x_unlock l (f, w) = (r, (f', w')) \<Longrightarrow> \<exists>l'. w' = w\<lparr>lock_level := l'\<rparr>"
  by (auto simp: x_lock_def x_unlock_def intro: exI [of _ "lock_level w"] split: file_kind.splits)

lemma control_world: "x_file_control mp opcode arg (f, w) = (r, (f', w')) \<Longrightarrow> w' = w"
  by (auto simp: x_file_control_def in_context_def Let_def split: if_splits option.splits)

lemma client_load_keeps:
  assumes u: "in_update c b g w a" and c: "current_context w = Some c"
    and m: "m = catchS (sb_load db_memory) h k"
    and k: "\<And>w r w'. k b w = (r, w') \<Longrightarrow> \<exists>le. w' = w\<lparr>last_error := le\<rparr>"
    and run: "m w = (r, w')"
  shows "in_update c b g w' a \<and> current_context w' = Some c"
proof -
  obtain w1 where l: "sb_load db_memory w = (Ok b, w1)" "in_update c b g w1 a" "current_context w1 = Some c"
    using in_update_load [OF u] at_context_same [OF c] by auto
  then have "k b w1 = (r, w')" using run m by simp
  from k [OF this] l(2,3) show ?thesis by auto
qed

lemma refuse_world: "refuse_open m fl w = (r, w') \<Longrightarrow> \<exists>le. w' = w\<lparr>last_error := le\<rparr>"
  by (cases "active_context w")
    (auto simp: refuse_open_def record_last_error_def record_last_error_for_def intro: exI [of _ "last_error w"])

lemma ret_world: "retS x w = (r, w') \<Longrightarrow> \<exists>le. w' = w\<lparr>last_error := le\<rparr>"
  by (auto simp: retS_def intro: exI [of _ "last_error w"])

lemma open_keeps:
  assumes u: "in_update c b g w a" and c: "current_context w = Some c" and run: "x_open db_memory name flags w = (r, w')"
  shows "in_update c b g w' a \<and> current_context w' = Some c"
proof -
  have ac: "active_context_id w = (Ok c, w)" using c by (simp add: active_context_id_def active_context_def)
  show ?thesis
  proof (cases "is_main_db_path name")
    case True
    then show ?thesis
      using run ac refuse_world ret_world
      by (intro client_load_keeps [OF u c refl, where r = r]) (auto simp: x_open_def Let_def split: if_splits)
  next
    case False
    then have "\<exists>le. w' = w\<lparr>last_error := le\<rparr>"
      using run ac refuse_world ret_world by (fastforce simp: x_open_def Let_def split: if_splits)
    then show ?thesis using u c by auto
  qed
qed

lemma random_keeps:
  assumes u: "in_update c b g w a" and c: "current_context w = Some c" and run: "x_randomness db_memory n w = (r, w')"
  shows "in_update c b g w' a \<and> current_context w' = Some c"
proof (cases "n < 0")
  case False
  obtain w1 where l: "sb_load db_memory w = (Ok b, w1)" "in_update c b g w1 a" "current_context w1 = Some c"
    using in_update_load [OF u] at_context_same [OF c] by auto
  then show ?thesis using run False by (auto simp: x_randomness_def retS_def catchS_def)
qed (use u c run in \<open>auto simp: x_randomness_def retS_def\<close>)

lemma client_step_keeps:
  assumes s: "client_step c w w'" and u: "in_update c b g w a"
  shows "(\<exists>a'. in_update c b g w' a') \<and> current_context w' = current_context w"
  using s
proof cases
  case (write_step f off bs r f')
  then show ?thesis using writer_write [OF u, of f off bs] by (auto simp: writer_handle_def simp del: split_paired_Ex)
next
  case (truncate_step f n r f')
  then show ?thesis using writer_truncate [OF u, of f n] by (auto simp: writer_handle_def simp del: split_paired_Ex)
next
  case (read_step f n off r f')
  then show ?thesis using writer_read [OF u, of f n off] by (auto simp: writer_handle_def simp del: split_paired_Ex)
next
  case (size_step f r f')
  then show ?thesis using writer_size [OF u, of f] u by (auto simp: writer_handle_def simp del: split_paired_Ex)
next
  case (temp_write_step f t bs n off r f')
  then show ?thesis using temp_callbacks_world(1) [OF temp_write_step(1,2)] u by (auto simp del: split_paired_Ex)
next
  case (temp_truncate_step f t n r f')
  then show ?thesis using temp_callbacks_world(2) [OF temp_truncate_step(1,2)] u by (auto simp del: split_paired_Ex)
next
  case (temp_read_step f t n off r f')
  then show ?thesis using temp_callbacks_world(3) [OF temp_read_step(1,2)] u by (auto simp del: split_paired_Ex)
next
  case (lock_step f l r f')
  then show ?thesis using lock_callbacks_world(1) [OF lock_step(2)] u by (auto simp del: split_paired_Ex)
next
  case (unlock_step f l r f')
  then show ?thesis using lock_callbacks_world(2) [OF unlock_step(2)] u by (auto simp del: split_paired_Ex)
next
  case (control_step mprintf opcode arg f r f')
  then show ?thesis using control_world u by blast
next
  case (open_step name flags r)
  show ?thesis using open_keeps [OF u open_step] u open_step(1) by (auto simp del: split_paired_Ex)
next
  case (random_step n r)
  show ?thesis using random_keeps [OF u random_step] u random_step(1) by (auto simp del: split_paired_Ex)
qed

lemma client_run_keeps:
  assumes "client_run c w w'" "in_update c b g w a"
  shows "(\<exists>a'. in_update c b g w' a') \<and> current_context w' = current_context w"
  using assms
proof (induction rule: rtranclp_induct)
  case (step w1 w2)
  then show ?case using client_step_keeps [OF step(2)] by metis
qed blast

end
