(* ===== verification/Vfs_Session_Props.thy ===== *)
theory Vfs_Session_Props
  imports Vfs_Sessions
begin

text \<open>
  Properties of sessions over the callbacks: readers beside a writer, total success of the requests
  of an update, opening, the buffers handed to SQLite, path names and locks.
\<close>

section \<open>Updates\<close>

lemma begin_in_update:
  assumes d: "sdb.db_at (at_context c w) v b" and none: "active_overlay (at_context c w) = None" and imp: "\<not> is_importing b"
    and sz: "db_size b \<le> i64_max"
  obtains w' where "begin_update db_memory (at_context c w) = (Ok (db_size b), w')"
    "in_update c b (db_byte v) w' (sdb.file_of v b)" "current_context w' = Some c"
proof -
  obtain w1 v1 ov where u: "begin_update db_memory (at_context c w) = (Ok (db_size b), w1)" "sdb.updating w1 v1 b ov"
    "sdb.same_mem v v1" "ov_content (img_byte b (db_byte v1)) ov = sdb.file_of v b" "ov_write_budget ov = None"
    using sdb.begin_update_ok [OF d none imp] by metis
  have cc: "current_context w1 = Some c"
    using frame_context(1) [OF within_run [OF iso.within_file_ops(1) u(1)]] by simp
  have "in_update c b (db_byte v) w1 (sdb.file_of v b)"
    by (rule in_updateI [of c w1 v1 b ov])
      (use u sz cc at_context_same [OF cc] sdb.same_memD(3) [OF u(3)] in \<open>simp_all add: sdb.file_of_def\<close>)
  then show thesis using that u(1) cc by blast
qed

definition sample_update :: "(db_handle, db_store) vfs_world" where
  "sample_update = snd (begin_update db_memory (at_context 1 sample_db))"

lemma sample_in_update: "\<exists>g. in_update 1 fresh g sample_update (0, \<lambda>_. 0) \<and> current_context sample_update = Some 1"
proof -
  obtain v where v: "sdb.db_at sample_db v fresh" "sdb.file_of v fresh = (0, \<lambda>_. 0)" by (rule sample_at)
  have d: "sdb.db_at (at_context 1 sample_db) v fresh" "active_overlay (at_context 1 sample_db) = None"
    using db_at_context(1) [OF sample_load(4), of v fresh] db_at_context(2) [OF sample_load(4)] v(1) sample_load(3)
    by simp_all
  show ?thesis
    by (rule begin_in_update [OF d])
      (use v(2) in \<open>auto simp: sample_update_def fresh_fields simp del: split_paired_Ex\<close>)
qed

text \<open>C26. During an update without write budget no request of SQLite within its 64-bit file offsets
  fails: a write and a truncate report success and change the file as requested, a read returns the
  bytes of the file as written so far, and the size is reported exactly.\<close>

theorem update_requests_succeed:
  assumes "in_update c b g w a" "writer_handle c f" "off + length bs \<le> i64_max" "n \<le> i64_max" "m \<le> usize_max"
  shows "(\<exists>w'. x_write db_memory bs (int (length bs)) (int off) (f, w) = (Ok SQLITE_OK, (f, w')) \<and>
      in_update c b g w' (afile_write off bs a)) \<and>
    (\<exists>w'. x_truncate db_memory (int n) (f, w) = (Ok SQLITE_OK, (f, w')) \<and> in_update c b g w' (afile_truncate n a)) \<and>
    (\<exists>w'. x_read db_memory (int m) (int off) (f, w) =
      (Ok (read_code (snd (afile_read off m a)), Some (fst (afile_read off m a))), (f, w')) \<and> in_update c b g w' a) \<and>
    x_file_size db_memory (f, w) = (Ok (SQLITE_OK, Some (int (fst a))), (f, w))"
proof -
  have h: "\<not> if_read_only f" "if_kind f = MainFile" "if_context f = c" using assms(2) by (simp_all add: writer_handle_def)
  show ?thesis
    using writer_write [OF assms(1) h assms(3)] writer_truncate [OF assms(1) h assms(4)]
      writer_read [OF assms(1) h assms(5), of off] writer_size [OF assms(1) h] by blast
qed

theorem update_requests_succeed_witness:
  "\<exists>w'. x_write db_memory [7, 8] 2 100 (sample_file, sample_update) = (Ok SQLITE_OK, (sample_file, w'))"
proof -
  obtain g where "in_update 1 fresh g sample_update (0, \<lambda>_. 0)" using sample_in_update by blast
  then show ?thesis
    using update_requests_succeed [of 1 fresh g sample_update "(0, \<lambda>_. 0)" sample_file 100 "[7, 8]" 0 0]
    by (auto simp: writer_handle_def sample_file_def int_max_defs)
qed

section \<open>Readers beside a writer\<close>

lemma reader_in_update:
  assumes u: "in_update c b g w x" and r: "open_reader f w a" "if_context f = c" and u': "in_update c b g w' x'"
  shows "open_reader f w' a"
proof -
  obtain v ov where v: "sdb.db_at (at_context c w) v b" "db_byte v = g"
    using u unfolding in_update_def sdb.updating_def by blast
  obtain v' ov' where v': "sdb.db_at (at_context c w') v' b" "db_byte v' = g"
    using u' unfolding in_update_def sdb.updating_def by blast
  obtain v0 b0 where d: "sdb.db_at (at_context c w) v0 b0" "a = sdb.file_of v0 b0"
    "if_read_snapshot f = None \<or> if_read_snapshot f = Some b0" "poc_ok b0 (db_byte v0) (if_read_page_offsets f)"
    and k: "if_read_only f" "if_kind f = MainFile"
    using r unfolding open_reader_def by blast
  have hv: "active_mem (at_context c w) = Some v0" "active_mem (at_context c w) = Some v"
    "sb_image (db_byte v0) b0" "sb_image (db_byte v) b"
    using d(1) v(1) by (simp_all add: sdb.db_at_def sdb.holds_def)
  then have eq: "v0 = v" "b0 = b" using sb_image_unique by auto
  have "open_reader f w' (sdb.file_of v' b)"
    using k d(3,4) v' r(2) eq v(2) by (intro open_readerI [of f w' v' b]) simp_all
  then show ?thesis using d(2) eq v(2) v'(2) by (simp add: sdb.file_of_def)
qed

text \<open>C27. A reader beside a writer keeps its snapshot: while an update of the same database runs,
  whatever requests SQLite makes on the writing connection, every read through the read-only handle
  still returns the file that was published when the update began.\<close>

theorem reader_beside_writer:
  assumes "in_update c b g w x" "open_reader f w a" "if_context f = c" "client_run c w w'" "n \<le> usize_max"
  shows "\<exists>f' w''. x_read db_memory (int n) (int off) (f, w') =
    (Ok (read_code (snd (afile_read off n a)), Some (fst (afile_read off n a))), (f', w''))"
proof -
  obtain x' where "in_update c b g w' x'" using client_run_keeps [OF assms(4,1)] by blast
  from reader_in_update [OF assms(1-3) this] show ?thesis using x_read_reader [OF _ assms(5), of f w' a off] by blast
qed

lemma new_reader:
  assumes "in_update c b g w x"
  shows "open_reader (install MainFile True c) w (db_size b, img_byte b g)"
proof -
  obtain v where v: "sdb.db_at (at_context c w) v b" "db_byte v = g"
    using assms unfolding in_update_def sdb.updating_def by blast
  have "open_reader (install MainFile True c) w (sdb.file_of v b)"
    by (rule open_readerI) (use v(1) poc_ok_new in simp_all)
  then show ?thesis using v(2) by (simp add: sdb.file_of_def)
qed

theorem reader_beside_writer_witness:
  "\<exists>fw. x_read db_memory 2 0 (sample_reader, snd (snd (x_write db_memory [7, 8] 2 0 (sample_file, sample_update)))) =
    (Ok (SQLITE_IOERR_SHORT_READ, Some [0, 0]), fw)"
proof -
  obtain g where u: "in_update 1 fresh g sample_update (0, \<lambda>_. 0)" using sample_in_update by blast
  let ?w = "snd (snd (x_write db_memory [7, 8] 2 0 (sample_file, sample_update)))"
  have "client_step 1 sample_update ?w"
    by (rule write_step [of 1 sample_file 0 "[7, 8]" _ "fst (x_write db_memory [7, 8] 2 0 (sample_file, sample_update))"
          "fst (snd (x_write db_memory [7, 8] 2 0 (sample_file, sample_update)))"])
      (simp_all add: writer_handle_def sample_file_def int_max_defs)
  then have run: "client_run 1 sample_update ?w" by (rule r_into_rtranclp)
  have r: "open_reader sample_reader sample_update (db_size fresh, img_byte fresh g)"
    using new_reader [OF u] by (simp add: sample_reader_def)
  have "afile_read 0 2 (db_size fresh, img_byte fresh g) = ([0, 0], False)"
    by (simp add: afile_read_def bytes_at_def fresh_fields img_byte_def upt_rec)
  then show ?thesis
    using reader_beside_writer [OF u r _ run, of 2 0] by (auto simp: read_code_def sample_reader_def int_max_defs)
qed

section \<open>Opening\<close>

unbundle bit_operations_syntax

lemma read_only_flag: "oo_access (classify_open_flags flags) = AccessReadOnly \<longleftrightarrow> flags AND SQLITE_OPEN_READONLY \<noteq> 0"
  by (simp add: classify_open_flags_def)

lemma wal_flag: "oo_kind (classify_open_flags flags) = Wal \<longleftrightarrow> flags AND SQLITE_OPEN_WAL \<noteq> 0"
  by (simp add: classify_open_flags_def)

lemma opened_main:
  assumes d: "sdb.db_at w v b" "active_overlay w = None" and c: "active_context w = Some c"
  shows "open_file (install MainFile False c) w (sdb.file_of v b)" "open_reader (install MainFile True c) w (sdb.file_of v b)"
proof -
  have d': "sdb.db_at (at_context c w) v b" "active_overlay (at_context c w) = None"
    using db_at_context(1) [OF c, of v b] db_at_context(2) [OF c] d by simp_all
  show "open_file (install MainFile False c) w (sdb.file_of v b)"
    using blob_reprI(1) [OF d'] by (simp add: open_file_def)
  show "open_reader (install MainFile True c) w (sdb.file_of v b)"
    by (rule open_readerI) (use d'(1) poc_ok_new in simp_all)
qed

lemma refused:
  assumes "active_context w = Some c"
  shows "refuse_open m fl w = (Ok (SQLITE_CANTOPEN, fl, None),
    w\<lparr>last_error := (last_error w)(c \<mapsto> \<lparr>ve_errno = SQLITE_CANTOPEN, ve_message = ascii m\<rparr>)\<rparr>)"
  using assms by (simp add: refuse_open_def record_last_error_def record_last_error_for_def)

text \<open>C28. Opening a file has these outcomes and no other, and never changes the database: the main
  database is refused with an error message while an import runs and otherwise gives a handle on the
  published file, read-only or writable as the flags ask; a write-ahead log is refused; any other
  name gives an empty temporary file.\<close>

theorem open_outcomes:
  assumes d: "sdb.db_at w v b" "active_overlay w = None" "active_context w = Some c"
  shows "\<exists>r w' v'. x_open db_memory name flags w = (r, w') \<and> sdb.db_at w' v' b \<and> sdb.file_of v' b = sdb.file_of v b \<and>
    (if is_main_db_path name then
       if is_importing b then r = Ok (SQLITE_CANTOPEN, Some flags, None) \<and>
         last_error w' c = Some \<lparr>ve_errno = SQLITE_CANTOPEN, ve_message = ascii ''database import is in progress''\<rparr>
       else \<exists>f. r = Ok (SQLITE_OK, Some flags, Some f) \<and>
         (if flags AND SQLITE_OPEN_READONLY \<noteq> 0 then open_reader f w' (sdb.file_of v b) else open_file f w' (sdb.file_of v b))
     else if flags AND SQLITE_OPEN_WAL \<noteq> 0 then r = Ok (SQLITE_CANTOPEN, Some flags, None) \<and>
       last_error w' c = Some \<lparr>ve_errno = SQLITE_CANTOPEN, ve_message = ascii ''WAL files are unsupported''\<rparr>
     else \<exists>f. r = Ok (SQLITE_OK, Some flags, Some f) \<and>
       (flags AND SQLITE_OPEN_READONLY = 0 \<longrightarrow> open_file f w' (0, \<lambda>_. 0)))"
proof -
  have ac: "active_context_id w = (Ok c, w)" using d(3) by (simp add: active_context_id_def)
  show ?thesis
  proof (cases "is_main_db_path name")
    case True
    obtain w1 v1 where l: "sb_load db_memory w = (Ok b, w1)" "sdb.db_at w1 v1 b" "sdb.same_mem v v1"
      "active_context w1 = Some c" "active_overlay w1 = None"
      using sdb.db_at_load [OF d(1)] touches_active d(2,3) by metis
    have a: "sdb.file_of v1 b = sdb.file_of v b" using sdb.file_of_same [OF l(3)] .
    note o = opened_main [OF l(2,5,4), unfolded a]
    have "x_open db_memory name flags w = (if is_importing b then refuse_open ''database import is in progress'' (Some flags) w1
        else (Ok (SQLITE_OK, Some flags, Some (install MainFile (flags AND SQLITE_OPEN_READONLY \<noteq> 0) c)), w1))"
      using True ac l(1) by (simp add: x_open_def Let_def retS_def read_only_flag)
    then show ?thesis
      using True l(2) a o refused [OF l(4)] by (cases "is_importing b") (auto simp del: split_paired_Ex)
  next
    case False
    then have "x_open db_memory name flags w = (if flags AND SQLITE_OPEN_WAL \<noteq> 0
        then refuse_open ''WAL files are unsupported'' (Some flags) w
        else (Ok (SQLITE_OK, Some flags, Some (install (TempFile temp_default) (flags AND SQLITE_OPEN_READONLY \<noteq> 0) c)), w))"
      using ac by (simp add: x_open_def Let_def retS_def read_only_flag wal_flag)
    then show ?thesis
      using False d(1) refused [OF d(3)]
      by (cases "flags AND SQLITE_OPEN_WAL \<noteq> 0")
        (auto simp: open_file_def simp del: split_paired_Ex)
  qed
qed

theorem open_outcomes_witness:
  "\<exists>f w'. x_open db_memory (Some main_path) 1 sample_db = (Ok (SQLITE_OK, Some 1, Some f), w') \<and> open_reader f w' (0, \<lambda>_. 0)"
proof -
  obtain v where v: "sdb.db_at sample_db v fresh" "sdb.file_of v fresh = (0, \<lambda>_. 0)" by (rule sample_at)
  have "(1 :: c_int) AND SQLITE_OPEN_READONLY \<noteq> 0" by (simp add: sqlite_codes)
  then show ?thesis
    using open_outcomes [OF v(1) sample_load(3,4), of "Some main_path" 1] main_path_main v(2)
    by (auto simp del: split_paired_Ex)
qed

section \<open>Buffers and names\<close>

lemma random_bytes_length [simp]: "length (random_bytes n s) = n"
  by (induction n s rule: random_bytes.induct) (simp_all add: Let_def)

text \<open>C29. What the callbacks store through SQLite's buffers stays within them and is terminated: the
  error message and the full path name, with their terminating zero, take at most the announced
  length; the number of bytes reported is the number stored; random numbers fill the buffer
  exactly.\<close>

theorem callback_buffers_in_bounds:
  assumes "len \<le> int c_int_max"
  shows "(0 < len \<longrightarrow> (\<exists>bs. x_get_last_error len False w = (int (length bs), Some (bs @ [0])) \<and> int (length bs) + 1 \<le> len)) \<and>
    (x_full_pathname name len = (SQLITE_CANTOPEN, None) \<or>
      (\<exists>bs. x_full_pathname name len = (SQLITE_OK, Some (bs @ [0])) \<and> int (length bs) + 1 \<le> len)) \<and>
    (\<forall>n out w'. x_randomness db_memory len w = (Ok (n, out), w') \<longrightarrow> int (length out) = max 0 len \<and> n = max 0 len)"
proof (intro conjI impI allI)
  assume "0 < len"
  then show "\<exists>bs. x_get_last_error len False w = (int (length bs), Some (bs @ [0])) \<and> int (length bs) + 1 \<le> len"
    using assms
    by (cases "active_context w"; cases "last_error w (the (active_context w))")
      (auto simp: x_get_last_error_def Let_def c_int_max_def min_def)
next
  show "x_full_pathname name len = (SQLITE_CANTOPEN, None) \<or>
      (\<exists>bs. x_full_pathname name len = (SQLITE_OK, Some (bs @ [0])) \<and> int (length bs) + 1 \<le> len)"
    by (cases "len < 0") (auto simp: x_full_pathname_def Let_def nat_le_iff)
next
  fix n out w'
  assume "x_randomness db_memory len w = (Ok (n, out), w')"
  then show "int (length out) = max 0 len" "n = max 0 len"
    by (auto simp: x_randomness_def retS_def catchS_def split: if_splits prod.splits outcome.splits)
qed

theorem callback_buffers_in_bounds_witness:
  "\<exists>bs. x_get_last_error 5 False sample_db = (int (length bs), Some (bs @ [0])) \<and> int (length bs) + 1 \<le> 5"
  using callback_buffers_in_bounds [of 5 sample_db] by (simp add: c_int_max_def)

lemma main_path_fixed: "normalized_main_path_bytes MAIN_DB_PATH = MAIN_DB_PATH"
  using main_path_main by (simp add: is_main_db_path_def main_path_def)

text \<open>C30. Full path names are canonical: every spelling of the main database, with or without the
  scheme and the query part, gets the one name of the database and no other file gets it; resolving a
  full name again gives the same name; existence and deletion answer alike for a name and its full
  name.\<close>

theorem full_pathname_canonical:
  assumes "x_full_pathname (Some path) len = (SQLITE_OK, Some (full @ [0]))"
  shows "x_full_pathname (Some full) len = (SQLITE_OK, Some (full @ [0])) \<and>
    (is_main_db_path (Some path) \<longleftrightarrow> full = MAIN_DB_PATH) \<and>
    x_access (Some full) = x_access (Some path) \<and> x_delete (Some full) = x_delete (Some path)"
proof -
  have f: "full = (if normalized_main_path_bytes path = MAIN_DB_PATH then MAIN_DB_PATH else path)"
    and l: "0 \<le> len" "length full < nat len"
    using assms by (auto simp: x_full_pathname_def Let_def split: if_splits)
  then show ?thesis
    using main_path_fixed
    by (auto simp: x_full_pathname_def Let_def is_main_db_path_def x_access_def x_delete_def)
qed

theorem full_pathname_canonical_witness:
  "x_full_pathname (Some (ascii ''/main.db'')) 64 = (SQLITE_OK, Some (ascii ''/main.db'' @ [0]))"
proof -
  have "x_full_pathname (Some (ascii ''file:/main.db?vfs=icstable'')) 64 = (SQLITE_OK, Some (ascii ''/main.db'' @ [0]))"
    by (simp add: x_full_pathname_def normalized_main_path_bytes_def strip_scheme_def ascii_def MAIN_DB_PATH_def)
  from full_pathname_canonical [OF this] show ?thesis by blast
qed

section \<open>Locks\<close>

text \<open>Lock and unlock requests of any handles, in the order SQLite makes them.\<close>

datatype lock_event = Lock ic_stable_file c_int | Unlock ic_stable_file c_int

fun lock_call :: "lock_event \<Rightarrow> ('h, 's, 'z) vfs_world_scheme \<Rightarrow> ('h, 's, 'z) vfs_world_scheme" where
  "lock_call (Lock f l) w = snd (snd (x_lock l (f, w)))"
| "lock_call (Unlock f l) w = snd (snd (x_unlock l (f, w)))"

text \<open>What the events mean for the level of one database: those of its main file count, in order; a
  lock only raises the level, an unlock sets it.\<close>

fun lock_effect :: "context_id \<Rightarrow> lock_event \<Rightarrow> c_int \<Rightarrow> c_int" where
  "lock_effect c (Lock f l) k = (if if_context f = c \<and> if_kind f = MainFile then max k l else k)"
| "lock_effect c (Unlock f l) k = (if if_context f = c \<and> if_kind f = MainFile then l else k)"

fun lock_valid :: "lock_event \<Rightarrow> bool" where
  "lock_valid (Lock f l) \<longleftrightarrow> SQLITE_LOCK_NONE \<le> l"
| "lock_valid (Unlock f l) \<longleftrightarrow> SQLITE_LOCK_NONE \<le> l"

lemma lock_call_level:
  "lock_valid e \<Longrightarrow> level_for c (lock_level (lock_call e w)) = lock_effect c e (level_for c (lock_level w))"
  by (cases e) (auto simp: x_lock_def x_unlock_def level_lock_for level_unlock_for lock_level_defs split: file_kind.splits)

text \<open>C31. The lock levels follow the requests on each database alone: after any sequence of lock and
  unlock requests by any handles the level of a database is what its own requests make of it, other
  databases and temporary files have no part in it, and the reserved-lock check and the lock state
  report that level.\<close>

theorem locks_follow_requests:
  assumes "list_all lock_valid es" "if_context f = c" "if_kind f = MainFile"
  shows "let level = fold (lock_effect c) es (level_for c (lock_level w)); w' = fold lock_call es w in
    x_check_reserved_lock (f, w') = (Ok (SQLITE_OK, if SQLITE_LOCK_RESERVED \<le> level then 1 else 0), (f, w')) \<and>
    x_file_control mprintf SQLITE_FCNTL_LOCKSTATE (Some 0) (f, w') = (Ok (SQLITE_OK, IntOut level), (f, w'))"
proof -
  have "level_for c (lock_level (fold lock_call es w)) = fold (lock_effect c) es (level_for c (lock_level w))"
    using assms(1) by (induction es arbitrary: w) (simp_all add: lock_call_level)
  then show ?thesis
    using assms(2,3) by (simp add: Let_def x_check_reserved_lock_def has_reserved_for_def x_file_control_def write_c_int_def)
qed

theorem locks_follow_requests_witness:
  "x_check_reserved_lock (sample_file, fold lock_call [Lock sample_file 2, Lock (install MainFile False 2) 4, Lock sample_file 1] sample_db) =
    (Ok (SQLITE_OK, 1), (sample_file, fold lock_call [Lock sample_file 2, Lock (install MainFile False 2) 4, Lock sample_file 1] sample_db))"
  using locks_follow_requests [of "[Lock sample_file 2, Lock (install MainFile False 2) 4, Lock sample_file 1]" sample_file 1 sample_db]
  by (simp add: sample_file_def Let_def lock_level_defs max_def)

end
