(* ===== verification/Db_Update.thy ===== *)
theory Db_Update
  imports Db_Facade Vfs_Session_Props
begin

text \<open>
  An update of the facade is atomic, whatever SQLite and the caller's closure do, as long as they
  reach the database file through the callbacks of the VFS.
\<close>

type_synonym ('c, 'q) vm_state = "(db_handle, db_store, 'c, 'q) db_state"
type_synonym ('c, 'q) vm_api = "(db_handle, db_store, 'c, 'q) sqlite_api"

section \<open>What is assumed of SQLite and of the caller\<close>

unbundle bit_operations_syntax

abbreviation rw_flags :: c_int where
  "rw_flags \<equiv> SQLITE_OPEN_READWRITE OR SQLITE_OPEN_CREATE OR SQLITE_OPEN_URI OR SQLITE_OPEN_NOMUTEX"

text \<open>\<open>wc\<close> are the connections opened for writing.  Opening one and running SQL on one makes requests
  of a client of the VFS; closing a connection, which holds no transaction then, only gives up its
  locks.\<close>

definition vfs_client :: "('c, 'q) vm_api \<Rightarrow> context_id \<Rightarrow> ('c \<Rightarrow> bool) \<Rightarrow> bool" where
  "vfs_client api c wc \<longleftrightarrow>
    (\<forall>q w rc db m q' w'. current_context w = Some c \<longrightarrow>
       sqlite3_open_v2 api SQLITE_URI rw_flags VFS_NAME (q, w) = ((rc, db, m), (q', w')) \<longrightarrow>
       client_run c w w' \<and> (\<forall>conn. db = Some conn \<longrightarrow> wc conn)) \<and>
    (\<forall>conn sql q w r q' w'. wc conn \<longrightarrow> current_context w = Some c \<longrightarrow>
       sqlite3_exec api conn sql (q, w) = (r, (q', w')) \<longrightarrow> client_run c w w') \<and>
    (\<forall>conn q w r q' w'. current_context w = Some c \<longrightarrow> sqlite3_close api conn (q, w) = (r, (q', w')) \<longrightarrow>
       client_run c w w' \<and> (\<exists>le l. w' = w\<lparr>last_error := le, lock_level := l\<rparr>))"

text \<open>The closure of an update works on its connection and does not panic; the tables of
  connections are private to the facade.\<close>

definition update_closure :: "context_id \<Rightarrow> ('c \<Rightarrow> bool) \<Rightarrow> (db_handle, db_store, 'c, 'q, 't) update_fun \<Rightarrow> bool" where
  "update_closure c wc f \<longleftrightarrow> (\<forall>uc s r uc' s'. wc (uc_connection uc) \<longrightarrow> current_context (db_vfs s) = Some c \<longrightarrow>
     f (uc, s) = (r, (uc', s')) \<longrightarrow> r \<noteq> Panic \<and> client_run c (db_vfs s) (db_vfs s') \<and>
       write_connections s' = write_connections s)"

lemma vfs_clientD:
  assumes "vfs_client api c wc" "current_context w = Some c"
  shows "sqlite3_open_v2 api SQLITE_URI rw_flags VFS_NAME (q, w) = ((rc, db, m), (q', w')) \<Longrightarrow>
      client_run c w w' \<and> (\<forall>conn. db = Some conn \<longrightarrow> wc conn)"
    "wc conn \<Longrightarrow> sqlite3_exec api conn sql (q, w) = (r, (q', w')) \<Longrightarrow> client_run c w w'"
    "sqlite3_close api conn (q, w) = (r', (q', w')) \<Longrightarrow>
      client_run c w w' \<and> (\<exists>le l. w' = w\<lparr>last_error := le, lock_level := l\<rparr>)"
proof -
  note a = assms(1) [unfolded vfs_client_def]
  show "sqlite3_open_v2 api SQLITE_URI rw_flags VFS_NAME (q, w) = ((rc, db, m), (q', w')) \<Longrightarrow>
      client_run c w w' \<and> (\<forall>conn. db = Some conn \<longrightarrow> wc conn)"
    using conjunct1 [OF a] assms(2) by blast
  show "wc conn \<Longrightarrow> sqlite3_exec api conn sql (q, w) = (r, (q', w')) \<Longrightarrow> client_run c w w'"
    using conjunct1 [OF conjunct2 [OF a]] assms(2) by blast
  show "sqlite3_close api conn (q, w) = (r', (q', w')) \<Longrightarrow>
      client_run c w w' \<and> (\<exists>le l. w' = w\<lparr>last_error := le, lock_level := l\<rparr>)"
    using conjunct2 [OF conjunct2 [OF a]] assms(2) by blast
qed

section \<open>The course of an update\<close>

text \<open>\<open>running c b g w0 s\<close>: the update that began in \<open>w0\<close> is running.\<close>

definition running :: "context_id \<Rightarrow> superblock \<Rightarrow> (nat \<Rightarrow> byte) \<Rightarrow> (db_handle, db_store) vfs_world \<Rightarrow> ('c, 'q) vm_state \<Rightarrow> bool" where
  "running c b g w0 s \<longleftrightarrow> current_context (db_vfs s) = Some c \<and> client_run c w0 (db_vfs s) \<and>
     (\<exists>a. in_update c b g (db_vfs s) a)"

lemma running_step:
  assumes "running c b g w0 s" "client_run c (db_vfs s) (db_vfs s')"
  shows "running c b g w0 s'"
proof -
  obtain a where a: "in_update c b g (db_vfs s) a" "current_context (db_vfs s) = Some c" "client_run c w0 (db_vfs s)"
    using assms(1) unfolding running_def by blast
  from client_run_keeps [OF assms(2) a(1)] rtranclp_trans [OF a(3) assms(2)] a(2) show ?thesis
    unfolding running_def by simp
qed

text \<open>A step of the facade inside an update.  \<open>I\<close> is what holds while the update runs: requests of a client of
  the VFS keep it.\<close>

definition client_inv :: "context_id \<Rightarrow> (('c, 'q) vm_state \<Rightarrow> bool) \<Rightarrow> bool" where
  "client_inv c I \<longleftrightarrow> (\<forall>s. I s \<longrightarrow> current_context (db_vfs s) = Some c) \<and>
     (\<forall>s s'. I s \<longrightarrow> client_run c (db_vfs s) (db_vfs s') \<longrightarrow> I s')"

lemma client_invD:
  assumes "client_inv c I" "I s"
  shows "current_context (db_vfs s) = Some c" "client_run c (db_vfs s) (db_vfs s') \<Longrightarrow> I s'" "db_vfs s' = db_vfs s \<Longrightarrow> I s'"
proof -
  show "current_context (db_vfs s) = Some c" "client_run c (db_vfs s) (db_vfs s') \<Longrightarrow> I s'"
    using assms unfolding client_inv_def by blast+
  then show "db_vfs s' = db_vfs s \<Longrightarrow> I s'" by simp
qed

lemma running_inv: "client_inv c (running c b g w0)"
proof -
  have "current_context (db_vfs s) = Some c" if "running c b g w0 s" for s :: "('a, 'b) vm_state" using that by (simp add: running_def)
  then show ?thesis unfolding client_inv_def using running_step by blast
qed

definition keeps :: "(('c, 'q) vm_state \<Rightarrow> bool) \<Rightarrow> ('a \<Rightarrow> bool) \<Rightarrow> (db_handle, db_store, 'c, 'q, 'a) db_stm \<Rightarrow> bool" where
  "keeps I Q m \<longleftrightarrow> (\<forall>s r s'. I s \<longrightarrow> m s = (r, s') \<longrightarrow>
     I s' \<and> write_connections s' = write_connections s \<and> r \<noteq> Panic \<and> (\<forall>x. r = Ok x \<longrightarrow> Q x))"

lemma keepsD:
  assumes "keeps I Q m" "I s" "m s = (r, s')"
  shows "I s'" "write_connections s' = write_connections s" "r \<noteq> Panic" "r = Ok x \<Longrightarrow> Q x"
  using assms unfolding keeps_def by blast+

lemma keeps_intros:
  "Q x \<Longrightarrow> keeps I Q (retS x)"
  "keeps I Q (errS e)"
  "keeps I P m \<Longrightarrow> (\<And>x. P x \<Longrightarrow> keeps I Q (k x)) \<Longrightarrow> keeps I Q (tryS m k)"
  "keeps I P m \<Longrightarrow> (\<And>e. keeps I Q (h e)) \<Longrightarrow>
    (\<And>x. P x \<Longrightarrow> keeps I Q (k x)) \<Longrightarrow> keeps I Q (catchS m h k)"
proof -
  show "Q x \<Longrightarrow> keeps I Q (retS x)" "keeps I Q (errS e)"
    by (auto simp: keeps_def retS_def errS_def)
  show "keeps I Q (tryS m k)"
    if m: "keeps I P m" and k: "\<And>x. P x \<Longrightarrow> keeps I Q (k x)"
    unfolding keeps_def
  proof (intro allI impI)
    fix s r s'
    assume s: "I s" and run: "tryS m k s = (r, s')"
    obtain r1 s1 where 1: "m s = (r1, s1)" by fastforce
    note d = keepsD [OF m s 1]
    show "I s' \<and> write_connections s' = write_connections s \<and> r \<noteq> Panic \<and> (\<forall>x. r = Ok x \<longrightarrow> Q x)"
    proof (cases r1)
      case (Ok x)
      then have "k x s1 = (r, s')" using run 1 by simp
      then show ?thesis using keepsD [OF k [of x] d(1)] d(2,4) Ok by metis
    qed (use run 1 d in auto)
  qed
  show "keeps I Q (catchS m h k)"
    if m: "keeps I P m" and h: "\<And>e. keeps I Q (h e)"
      and k: "\<And>x. P x \<Longrightarrow> keeps I Q (k x)"
    unfolding keeps_def
  proof (intro allI impI)
    fix s r s'
    assume s: "I s" and run: "catchS m h k s = (r, s')"
    obtain r1 s1 where 1: "m s = (r1, s1)" by fastforce
    note d = keepsD [OF m s 1]
    show "I s' \<and> write_connections s' = write_connections s \<and> r \<noteq> Panic \<and> (\<forall>x. r = Ok x \<longrightarrow> Q x)"
    proof (cases r1)
      case (Ok x)
      then have "k x s1 = (r, s')" using run 1 by simp
      then show ?thesis using keepsD [OF k [of x] d(1)] d(2,4) Ok by metis
    next
      case (Err e)
      then have "h e s1 = (r, s')" using run 1 by simp
      then show ?thesis using keepsD [OF h [of e] d(1)] d(2) by metis
    qed (use run 1 d in auto)
  qed
qed

lemma keeps_sqlite_call:
  assumes ci: "client_inv c I" and f: "\<And>q w r q' w'. current_context w = Some c \<Longrightarrow> f (q, w) = (r, (q', w')) \<Longrightarrow> client_run c w w' \<and> Q r"
  shows "keeps I Q (sqlite_call f)"
  unfolding keeps_def
proof (intro allI impI)
  fix s r s'
  assume s: "I s" and run: "sqlite_call f s = (r, s')"
  obtain x q w where 1: "f (sqlite_state s, db_vfs s) = (x, (q, w))" by (metis surj_pair)
  then have e: "r = Ok x" "s' = s\<lparr>sqlite_state := q, db_vfs := w\<rparr>" using run by (simp_all add: sqlite_call_def)
  have "current_context (db_vfs s) = Some c" by (rule client_invD(1) [OF ci s])
  from f [OF this 1] show "I s' \<and> write_connections s' = write_connections s \<and> r \<noteq> Panic \<and> (\<forall>x. r = Ok x \<longrightarrow> Q x)"
    using client_invD(2) [OF ci s, of s'] e by simp
qed

lemma keeps_exec:
  assumes ci: "client_inv c I" and api: "vfs_client api c wc" and w: "wc conn"
  shows "keeps I (\<lambda>_. True) (execute_batch_cstr api conn sql)"
  unfolding execute_batch_cstr_def
proof (rule keeps_intros(3) [where P = "\<lambda>_. True", OF keeps_sqlite_call [OF ci]])
  fix q w r q' w'
  assume "current_context w = Some c" "sqlite3_exec api conn sql (q, w) = (r, (q', w'))"
  then show "client_run c w w' \<and> True" using vfs_clientD(2) [OF api _ assms(3)] by blast
qed (auto intro: keeps_intros(1,2))

lemma keeps_close:
  assumes ci: "client_inv c I" and api: "vfs_client api c wc"
  shows "keeps I (\<lambda>_. True) (close_connection api conn)"
  unfolding close_connection_def by (rule keeps_sqlite_call [OF ci]) (use vfs_clientD(3) [OF api] in auto)

lemma keeps_observer: "client_inv c I \<Longrightarrow> keeps I (\<lambda>_. True) (set_query_observer raw active)"
  by (auto simp: keeps_def set_query_observer_def modifyS_def intro: client_invD(3))

lemma keeps_open:
  assumes ci: "client_inv c I" and api: "vfs_client api c wc"
  shows "keeps I wc (open_read_write_with_page_size api p)"
proof -
  have o: "keeps I (\<lambda>(rc, db, m). \<forall>conn. db = Some conn \<longrightarrow> wc conn)
      (sqlite_call (sqlite3_open_v2 api SQLITE_URI rw_flags VFS_NAME))"
    by (rule keeps_sqlite_call [OF ci]) (use vfs_clientD(1) [OF api] in \<open>auto split: prod.splits\<close>)
  have "keeps I wc (connection_open api rw_flags)"
    unfolding connection_open_def
  proof (rule keeps_intros(3) [OF o])
    fix x :: "c_int \<times> 'a option \<times> byte list option"
    assume x: "case x of (rc, db, m) \<Rightarrow> \<forall>conn. db = Some conn \<longrightarrow> wc conn"
    obtain rc db m where [simp]: "x = (rc, db, m)" by (cases x) auto
    show "keeps I wc (case x of (rc, db, errmsg) \<Rightarrow>
       case db of None \<Rightarrow> errS (Sqlite rc (ascii ''sqlite3_open_v2 returned null''))
       | Some raw \<Rightarrow> if rc \<noteq> SQLITE_OK then tryS (close_connection api raw) (\<lambda>_. errS (sqlite_error errmsg rc))
           else tryS (set_query_observer raw False) (\<lambda>_. retS raw))"
      using x by (cases db) (auto intro: keeps_intros(1,2) keeps_intros(3) [OF keeps_close [OF ci api]]
          keeps_intros(3) [OF keeps_observer [OF ci]])
  qed
  then show ?thesis
    unfolding open_read_write_with_page_size_def
  proof (rule keeps_intros(3))
    fix conn assume w: "wc conn"
    show "keeps I wc (or_close api conn (apply_read_write api conn p))"
      unfolding or_close_def apply_read_write_def
      by (intro keeps_intros(4) [OF keeps_exec [OF ci api w]] keeps_intros(3) [OF keeps_close [OF ci api]]
          keeps_intros(1,2) w)
  qed
qed

section \<open>The end of an update\<close>

definition published :: "context_id \<Rightarrow> superblock \<Rightarrow> afile \<Rightarrow> ('c, 'q) vm_state \<Rightarrow> bool" where
  "published c b a s \<longleftrightarrow> (\<exists>v. sdb.db_at (at_context c (db_vfs s)) v b \<and> sdb.file_of v b = a)"

definition idle :: "context_id \<Rightarrow> ('c, 'q) vm_state \<Rightarrow> bool" where
  "idle c s \<longleftrightarrow> active_overlay (at_context c (db_vfs s)) = None"

lemma published_slots:
  assumes "db_vfs s' = (db_vfs s)\<lparr>last_error := le, lock_level := l\<rparr>"
  shows "published c b a s' \<longleftrightarrow> published c b a s" "idle c s' \<longleftrightarrow> idle c s"
  using assms by (simp_all add: published_def idle_def)

lemma running_published:
  assumes "running c b g w0 s"
  shows "published c b (db_size b, img_byte b g) s"
proof -
  obtain v where "sdb.db_at (at_context c (db_vfs s)) v b" "db_byte v = g"
    using assms unfolding running_def in_update_def sdb.updating_def by blast
  then show ?thesis unfolding published_def by (intro exI [of _ v]) (simp add: sdb.file_of_def)
qed

lemma running_commit:
  assumes r: "running c b g w0 s" and run: "on_store (commit_update db_memory) s = (r, s')"
  shows "current_context (db_vfs s') = Some c \<and> write_connections s' = write_connections s \<and>
    (r = Ok () \<and> (\<exists>b' a. in_update c b g (db_vfs s) a \<and> published c b' a s') \<or>
     (\<exists>e. r = Err e) \<and> published c b (db_size b, img_byte b g) s')"
proof -
  obtain a where a: "in_update c b g (db_vfs s) a" and cc: "current_context (db_vfs s) = Some c"
    using r unfolding running_def by blast
  then obtain v ov where u: "sdb.updating (db_vfs s) v b ov" "db_byte v = g" "ov_content (img_byte b g) ov = a"
    unfolding in_update_def using at_context_same [OF cc] by auto
  obtain x w' where m: "commit_update db_memory (db_vfs s) = (x, w')" by fastforce
  have cc': "current_context w' = Some c" using frame_context(1) [OF within_run [OF iso.within_commit_update m]] cc by simp
  show ?thesis
  proof (cases rule: sdb.commit_update_cases [OF u(1)])
    case (1 w1 v1 b1)
    then have "r = Ok ()" "s' = s\<lparr>db_vfs := w'\<rparr>" "w1 = w'" using run m by (simp_all add: on_store_def)
    then show ?thesis
      using 1 a u cc' at_context_same [OF cc'] by (auto simp: published_def simp del: split_paired_Ex)
  next
    case (2 e w1 v1)
    then have "r = Err (Stable e)" "s' = s\<lparr>db_vfs := w'\<rparr>" "w1 = w'" using run m by (simp_all add: on_store_def)
    then show ?thesis
      using 2 u cc' at_context_same [OF cc'] sdb.same_memD(3) [OF 2(3)]
      by (auto simp: published_def sdb.file_of_def simp del: split_paired_Ex)
  qed
qed

text \<open>The work of an update up to the COMMIT of its transaction, with the publication of the overlay
  and the clean-up left out.\<close>

definition sql_session :: "('c, 'q) vm_api \<Rightarrow> 'c \<Rightarrow> (db_handle, db_store, 'c, 'q, 't) update_fun \<Rightarrow>
    (db_handle, db_store, 'c, 'q, 't) db_stm" where
  "sql_session api conn f = tryS (execute_batch_cstr api conn BEGIN_SQL) (\<lambda>_ s.
     case f (update_connection_new conn, s) of (r, (_, s)) \<Rightarrow>
       tryS (\<lambda>s. (r, s)) (\<lambda>x. tryS (execute_batch_cstr api conn COMMIT_SQL) (\<lambda>_. retS x)) s)"

definition update_work :: "('c, 'q) vm_api \<Rightarrow> context_id \<Rightarrow> (db_handle, db_store, 'c, 'q, 't) update_fun \<Rightarrow>
    (db_handle, db_store, 'c, 'q, 't) db_stm" where
  "update_work api c f = tryS (reject_active_read_connection c) (\<lambda>_. tryS (clear_read_connection api c) (\<lambda>_.
     tryS (on_store (begin_update db_memory)) (\<lambda>size. tryS (write_connection api c size) (\<lambda>conn. sql_session api conn f))))"

text \<open>What an update has done when its transaction has ended; \<open>work\<close> is how its work went.\<close>

definition concluded :: "context_id \<Rightarrow> superblock \<Rightarrow> (nat \<Rightarrow> byte) \<Rightarrow> (db_handle, db_store) vfs_world \<Rightarrow>
    ('t, db_error) outcome \<times> ('c, 'q) vm_state \<Rightarrow> ('t, db_error) outcome \<Rightarrow> ('c, 'q) vm_state \<Rightarrow> bool" where
  "concluded c b g w0 work r s \<longleftrightarrow> (case r of
      Ok x \<Rightarrow> fst work = Ok x \<and> client_run c w0 (db_vfs (snd work)) \<and>
        (\<exists>b' a. in_update c b g (db_vfs (snd work)) a \<and> published c b' a s)
    | Err e \<Rightarrow> published c b (db_size b, img_byte b g) s \<and>
        (fst work = Err e \<or> (\<exists>x. fst work = Ok x) \<and> fst (on_store (commit_update db_memory) (snd work)) = Err e)
    | Panic \<Rightarrow> False)"

text \<open>Rolling back leaves the published file alone.\<close>

lemma rollback_keeps:
  assumes pu: "published c b a s" and cc: "current_context (db_vfs s) = Some c"
  shows "published c b a (s\<lparr>db_vfs := rollback_update (db_vfs s)\<rparr>)" "idle c (s\<lparr>db_vfs := rollback_update (db_vfs s)\<rparr>)"
    "current_context (rollback_update (db_vfs s)) = Some c"
proof -
  show cc': "current_context (rollback_update (db_vfs s)) = Some c"
    using frame_context(1) [OF call_frame [of "db_vfs s" CallRollback]] cc by simp
  obtain v where v: "sdb.db_at (db_vfs s) v b" "sdb.file_of v b = a"
    using pu at_context_same [OF cc] unfolding published_def by auto
  then show "published c b a (s\<lparr>db_vfs := rollback_update (db_vfs s)\<rparr>)"
    using sdb.rollback_update_ok(1) [of "db_vfs s" v b] at_context_same [OF cc'] unfolding published_def
    by (intro exI [of _ v]) simp
  show "idle c (s\<lparr>db_vfs := rollback_update (db_vfs s)\<rparr>)"
    using sdb.rollback_update_ok(2) [OF v(1)] at_context_same [OF cc'] by (simp add: idle_def)
qed

lemma run_immediate_concluded:
  assumes api: "vfs_client api c wc" and f: "update_closure c wc f" and conn: "wc conn"
    and s: "running c b g w0 s" and run: "run_immediate api db_memory conn f s = (r, s')"
  shows "concluded c b g w0 (sql_session api conn f s) r s' \<and> current_context (db_vfs s') = Some c \<and>
    write_connections s' = write_connections s"
proof -
  let ?base = "(db_size b, img_byte b g)"
  note ex = keeps_exec [OF running_inv api conn, of b g w0]
  obtain r1 s1 where 1: "execute_batch_cstr api conn BEGIN_SQL s = (r1, s1)" by fastforce
  note k1 = keepsD [OF ex s 1]
  show ?thesis
  proof (cases r1)
    case (Err e)
    then have "r = Err e" "s' = s1" "fst (sql_session api conn f s) = Err e"
      using run 1 by (simp_all add: run_immediate_def sql_session_def)
    then show ?thesis using running_published [OF k1(1)] k1(1,2) by (simp add: concluded_def running_def)
  next
    case (Ok x)
    obtain r2 uc s2 where 2: "f (update_connection_new conn, s1) = (r2, (uc, s2))" by (metis surj_pair)
    have k2: "r2 \<noteq> Panic" "running c b g w0 s2" "write_connections s2 = write_connections s"
    proof -
      have "wc (uc_connection (update_connection_new conn))" "current_context (db_vfs s1) = Some c"
        using conn k1(1) by (simp_all add: update_connection_new_def running_def)
      then have "r2 \<noteq> Panic \<and> client_run c (db_vfs s1) (db_vfs s2) \<and> write_connections s2 = write_connections s1"
        using f 2 unfolding update_closure_def by blast
      then show "r2 \<noteq> Panic" "running c b g w0 s2" "write_connections s2 = write_connections s"
        using running_step [OF k1(1), of s2] k1(2) by auto
    qed
    show ?thesis
    proof (cases r2)
      case (Ok v)
      obtain r3 s3 where 3: "execute_batch_cstr api conn COMMIT_SQL s2 = (r3, s3)" by fastforce
      note k3 = keepsD [OF ex k2(2) 3]
      show ?thesis
      proof (cases r3)
        case (Err e)
        obtain r4 s4 where 4: "execute_batch_cstr api conn ROLLBACK_SQL s3 = (r4, s4)" by fastforce
        note k4 = keepsD [OF ex k3(1) 4]
        have "r = Err e" "s' = s4" "fst (sql_session api conn f s) = Err e"
          using run 1 2 3 4 \<open>r1 = Ok x\<close> Ok Err by (simp_all add: run_immediate_def sql_session_def ignoring_def)
        then show ?thesis
          using running_published [OF k4(1)] k4(1,2) k3(2) k2(3) by (simp add: concluded_def running_def)
      next
        case (Ok y)
        obtain r4 s4 where 4: "on_store (commit_update db_memory) s3 = (r4, s4)" by fastforce
        have e: "r = (case r4 of Ok _ \<Rightarrow> Ok v | Err e \<Rightarrow> Err e | Panic \<Rightarrow> Panic)" "s' = s4"
          using run 1 2 3 4 \<open>r1 = Ok x\<close> \<open>r2 = Ok v\<close> Ok
          by (simp_all add: run_immediate_def retS_def tryS_def split: outcome.splits)
        have w: "sql_session api conn f s = (Ok v, s3)"
          using 1 2 3 \<open>r1 = Ok x\<close> \<open>r2 = Ok v\<close> Ok by (simp add: sql_session_def retS_def)
        show ?thesis
          using running_commit [OF k3(1) 4] e w 4 k3(1,2) k2(3)
          by (auto simp: concluded_def running_def simp del: split_paired_Ex split: outcome.splits)
      qed (use k3(3) in simp)
    next
      case (Err e)
      obtain r3 s3 where 3: "execute_batch_cstr api conn ROLLBACK_SQL s2 = (r3, s3)" by fastforce
      note k3 = keepsD [OF ex k2(2) 3]
      have "fst (sql_session api conn f s) = Err e"
        unfolding sql_session_def using 1 2 \<open>r1 = Ok x\<close> Err by (simp add: tryS_def)
      moreover have "r = Err e" "s' = s3\<lparr>db_vfs := rollback_update (db_vfs s3)\<rparr>"
        using run 1 2 3 \<open>r1 = Ok x\<close> Err by (simp_all add: run_immediate_def ignoring_def Let_def)
      ultimately show ?thesis using rollback_keeps(1,3) [OF running_published [OF k3(1)]] k3(1,2) k2(3) by (simp add: concluded_def running_def)
    qed (use k2(1) in simp)
  qed (use k1(3) in simp)
qed

lemma close_slots:
  assumes "vfs_client api c wc" "current_context (db_vfs s) = Some c"
  obtains le l q where "close_connection api conn s = (Ok (), s\<lparr>sqlite_state := q, db_vfs := (db_vfs s)\<lparr>last_error := le, lock_level := l\<rparr>\<rparr>)"
proof -
  obtain r q w where c: "sqlite3_close api conn (sqlite_state s, db_vfs s) = (r, (q, w))" by (metis surj_pair)
  with vfs_clientD(3) [OF assms c] that show thesis by (auto simp: close_connection_def sqlite_call_def)
qed

text \<open>The clean-up after a transaction leaves the database alone.\<close>

definition same_db :: "('c, 'q) vm_state \<Rightarrow> ('c, 'q) vm_state \<Rightarrow> bool" where
  "same_db s s' \<longleftrightarrow> (\<exists>le l. db_vfs s' = (db_vfs s)\<lparr>last_error := le, lock_level := l\<rparr>)"

lemma same_dbD:
  assumes "same_db s s'"
  shows "published c b a s' \<longleftrightarrow> published c b a s" "idle c s' \<longleftrightarrow> idle c s" "current_context (db_vfs s') = current_context (db_vfs s)"
proof -
  obtain le l where e: "db_vfs s' = (db_vfs s)\<lparr>last_error := le, lock_level := l\<rparr>" using assms unfolding same_db_def by blast
  show "published c b a s' \<longleftrightarrow> published c b a s" "idle c s' \<longleftrightarrow> idle c s" by (rule published_slots [OF e])+
  show "current_context (db_vfs s') = current_context (db_vfs s)" by (simp add: e)
qed

lemma same_db_same: "db_vfs s' = db_vfs s \<Longrightarrow> same_db s s'"
  unfolding same_db_def by (intro exI [of _ "last_error (db_vfs s)"] exI [of _ "lock_level (db_vfs s)"]) simp

lemma same_db_trans: "same_db s s' \<Longrightarrow> same_db s' s'' \<Longrightarrow> same_db s s''"
  unfolding same_db_def by (elim exE) (simp, blast)

lemma clear_read_ok:
  assumes "vfs_client api c wc" "current_context (db_vfs s) = Some c"
  obtains s' where "clear_read_connection api c s = (Ok (), s')" "same_db s s'" "read_connections s' c = None"
    "write_connections s' = write_connections s" "active_reads s' = active_reads s"
proof (cases "read_connections s c")
  case None
  then show thesis using that [of s] same_db_same [of s s] by (simp add: clear_read_connection_def)
next
  case (Some conn)
  let ?s = "s\<lparr>read_connections := (read_connections s)(c := None)\<rparr>"
  have cc: "current_context (db_vfs ?s) = Some c" using assms(2) by simp
  obtain le l q where cl: "close_connection api conn ?s = (Ok (), ?s\<lparr>sqlite_state := q, db_vfs := (db_vfs ?s)\<lparr>last_error := le, lock_level := l\<rparr>\<rparr>)"
    by (rule close_slots [OF assms(1) cc])
  let ?s' = "?s\<lparr>sqlite_state := q, db_vfs := (db_vfs ?s)\<lparr>last_error := le, lock_level := l\<rparr>\<rparr>"
  have "same_db s ?s'" unfolding same_db_def by (intro exI [of _ le] exI [of _ l]) simp
  moreover have "clear_read_connection api c s = (Ok (), ?s')" using Some cl by (simp add: clear_read_connection_def)
  ultimately show thesis by (intro that [of ?s']) simp_all
qed

lemma release_ok:
  assumes "vfs_client api c wc" "current_context (db_vfs s) = Some c"
  shows "same_db s (release_connection api c conn s)"
    "write_connections (release_connection api c conn s) = write_connections s"
    "read_connections (release_connection api c conn s) = read_connections s"
proof -
  obtain le l q where "close_connection api conn s = (Ok (), s\<lparr>sqlite_state := q, db_vfs := (db_vfs s)\<lparr>last_error := le, lock_level := l\<rparr>\<rparr>)"
    by (rule close_slots [OF assms])
  then show "same_db s (release_connection api c conn s)"
    "write_connections (release_connection api c conn s) = write_connections s"
    "read_connections (release_connection api c conn s) = read_connections s"
    using same_db_same [of s s] by (auto simp: release_connection_def ignoring_def same_db_def)
qed

lemma write_connection_ok:
  assumes ci: "client_inv c I" and api: "vfs_client api c wc" and tab: "\<forall>conn. write_connections s c = Some conn \<longrightarrow> wc conn"
    and s: "I s" and run: "write_connection api c n s = (r, s')"
  shows "I s' \<and> r \<noteq> Panic \<and> (\<forall>conn. r = Ok conn \<longrightarrow> wc conn) \<and> (is_err r \<longrightarrow> write_connections s' c = None)"
proof (cases "write_connections s c")
  case (Some conn)
  then show ?thesis using run s tab by (auto simp: write_connection_def is_err_def)
next
  case None
  let ?open = "if n = 0 then open_read_write api else open_read_write_existing api"
  obtain r1 s1 where 1: "?open s = (r1, s1)" by fastforce
  have "keeps I wc ?open"
    using keeps_open [OF ci api] by (simp add: open_read_write_def open_read_write_existing_def)
  note k = keepsD [OF this s 1]
  show ?thesis
  proof (cases r1)
    case (Ok conn)
    then have "r = Ok conn" "s' = s1\<lparr>write_connections := (write_connections s1)(c \<mapsto> conn)\<rparr>"
      using run 1 None by (auto simp: write_connection_def modifyS_def retS_def split: if_splits)
    then show ?thesis using k Ok client_invD(3) [OF ci k(1), of s'] by (simp add: is_err_def)
  next
    case (Err e)
    then have "r = Err e" "s' = s1" using run 1 None by (auto simp: write_connection_def split: if_splits)
    then show ?thesis using k None by simp
  qed (use k(3) in simp)
qed

section \<open>Running queries\<close>

definition read_depth :: "(context_id \<times> nat) list \<Rightarrow> context_id \<Rightarrow> nat" where
  "read_depth slot c = (case active_read_index slot c of Some i \<Rightarrow> snd (slot ! i) | None \<Rightarrow> 0)"

lemma reject_iff:
  "reject_active_read_connection c s = (if read_depth (active_reads s) c = 0 then Ok () else Err ReadConnectionInUse, s)"
  by (simp add: reject_active_read_connection_def read_depth_def Let_def)

section \<open>Atomicity\<close>

lemma db_size_fits:
  assumes "sdb.db_at w v b"
  shows "db_size b \<le> i64_max"
proof -
  have "db_inv v" "img_placed b (vm_size v * STABLE_PAGE_SIZE)"
    using assms by (simp_all add: sdb.db_at_def sdb.holds_def)
  then show ?thesis using vm_size_bound(2) [of v] by (simp add: img_placed_def int_max_defs)
qed

lemma concluded_mono:
  assumes pub: "\<And>b' a. published c b' a s \<Longrightarrow> published c b' a s'" and p: "concluded c b g w0 work r s"
  shows "concluded c b g w0 work r s'"
proof (cases r)
  case (Ok x)
  then obtain b' a where "in_update c b g (db_vfs (snd work)) a" "published c b' a s"
    using p unfolding concluded_def by auto
  then have "\<exists>b' a. in_update c b g (db_vfs (snd work)) a \<and> published c b' a s'" using pub by blast
  then show ?thesis using p Ok by (simp add: concluded_def)
qed (use p pub in \<open>simp_all add: concluded_def\<close>)

lemma concluded_same: "same_db s s' \<Longrightarrow> concluded c b g w0 work r s \<Longrightarrow> concluded c b g w0 work r s'"
  by (rule concluded_mono) (simp_all add: same_dbD(1))

lemma guard_ok:
  assumes p: "concluded c b g w0 work r s" and cc: "current_context (db_vfs s) = Some c"
  shows "concluded c b g w0 work r (s\<lparr>db_vfs := rollback_update (db_vfs s)\<rparr>)" "idle c (s\<lparr>db_vfs := rollback_update (db_vfs s)\<rparr>)"
    "current_context (rollback_update (db_vfs s)) = Some c"
proof -
  show "concluded c b g w0 work r (s\<lparr>db_vfs := rollback_update (db_vfs s)\<rparr>)"
    by (rule concluded_mono [OF rollback_keeps(1) [OF _ cc] p])
  obtain b' a where "published c b' a s" using p by (auto simp: concluded_def split: outcome.splits)
  then show "idle c (s\<lparr>db_vfs := rollback_update (db_vfs s)\<rparr>)" "current_context (rollback_update (db_vfs s)) = Some c"
    using rollback_keeps(2,3) cc by blast+
qed

text \<open>The part of an update that follows \<open>begin_update\<close>.\<close>

lemma update_body:
  assumes api: "vfs_client api c wc" and f: "update_closure c wc f" and tab: "\<forall>conn. write_connections s c = Some conn \<longrightarrow> wc conn"
    and s: "running c b g w0 s"
    and run: "tryS (write_connection api c n) (\<lambda>connection s.
         let (r, s) = run_immediate api db_memory connection f s;
             s = ignoring (clear_read_connection api c) s;
             s = (if is_err r then forget_write_connection c s else s)
         in (r, release_connection api c connection s)) s = (r, s')"
  shows "concluded c b g w0 (tryS (write_connection api c n) (\<lambda>conn. sql_session api conn f) s) r s' \<and>
    current_context (db_vfs s') = Some c \<and> (is_err r \<longrightarrow> write_connections s' c = None)"
proof -
  obtain r1 s1 where 1: "write_connection api c n s = (r1, s1)" by fastforce
  note k1 = write_connection_ok [OF running_inv api tab s 1]
  show ?thesis
  proof (cases r1)
    case (Ok conn)
    obtain r2 s2 where 2: "run_immediate api db_memory conn f s1 = (r2, s2)" by fastforce
    have k2: "concluded c b g w0 (sql_session api conn f s1) r2 s2" "current_context (db_vfs s2) = Some c"
      using run_immediate_concluded [OF api f _ _ 2, of b g w0] k1 Ok by auto
    obtain s3 where 3: "clear_read_connection api c s2 = (Ok (), s3)" "same_db s2 s3"
      using clear_read_ok [OF api k2(2)] by metis
    let ?s4 = "if is_err r2 then forget_write_connection c s3 else s3"
    have 4: "same_db s2 ?s4" using 3(2) by (simp add: same_db_def forget_write_connection_def)
    have cc4: "current_context (db_vfs ?s4) = Some c" using same_dbD(3) [OF 4] k2(2) by simp
    note 5 = release_ok [OF api cc4, of conn]
    have e: "r = r2" "s' = release_connection api c conn ?s4"
      using run 1 2 3(1) Ok by (auto simp: ignoring_def Let_def)
    have "same_db s2 s'" using same_db_trans [OF 4 5(1)] e(2) by simp
    note k5 = concluded_same [OF this k2(1)] same_dbD(3) [OF this]
    then show ?thesis using k2(2) e 5(2) 1 Ok by (auto simp: forget_write_connection_def)
  next
    case (Err e)
    then have e: "r = Err e" "s' = s1" using run 1 by simp_all
    then show ?thesis
      using k1 1 Err running_published [of c b g w0 s1] by (auto simp: concluded_def running_def is_err_def)
  qed (use k1 in simp)
qed

end
