(* ===== verification/Overlay_Budget.thy ===== *)
theory Overlay_Budget
  imports Vfs_Session_Props
begin

text \<open>
  Overlays with a write budget.  The budget is transparent until it is exceeded: as long as no page was
  refused, every operation does what it does without a budget.  Once a page was refused the overlay
  stays marked, and whatever is done to it afterwards, the published image is untouched.  The dirty
  pages never outnumber the budget.
\<close>

section \<open>Exceeding the budget\<close>

definition exceeded :: "overlay \<Rightarrow> bool" where
  "exceeded ov \<longleftrightarrow> (case ov_write_budget ov of None \<Rightarrow> False | Some wb \<Rightarrow> ws_exceeded (wb_stats wb) \<noteq> None)"

definition limits :: "overlay \<Rightarrow> (nat \<times> nat) option" where
  "limits ov = map_option (\<lambda>wb. (wb_max_pages wb, wb_max_bytes wb)) (ov_write_budget ov)"

definition capped :: "overlay \<Rightarrow> bool" where
  "capped ov \<longleftrightarrow> (case limits ov of None \<Rightarrow> True
     | Some (pages, bytes) \<Rightarrow> length (ov_pages ov) \<le> pages \<and> saturating_mul (length (ov_pages ov)) PS \<le> bytes)"

text \<open>What every operation of an overlay respects; \<open>B\<close> is about the world.\<close>

definition budget_rel :: "('w \<Rightarrow> bool) \<Rightarrow> 'w \<times> overlay \<Rightarrow> 'w \<times> overlay \<Rightarrow> bool" where
  "budget_rel B p q \<longleftrightarrow> (B (fst p) \<longrightarrow> B (fst q)) \<and> (exceeded (snd p) \<longrightarrow> exceeded (snd q)) \<and>
     limits (snd q) = limits (snd p) \<and> (capped (snd p) \<longrightarrow> capped (snd q))"

lemma pre_budget_rel [simp]: "pre (budget_rel B)"
  by (auto simp: pre_def reflp_def transp_def budget_rel_def)

lemma budget_fields:
  assumes "ov_write_budget ov' = ov_write_budget ov"
  shows "exceeded ov' = exceeded ov" "limits ov' = limits ov"
  using assms by (simp_all add: exceeded_def limits_def)

lemma saturating_mul_mono: "m \<le> n \<Longrightarrow> saturating_mul m k \<le> saturating_mul n k"
  by (auto simp: saturating_mul_def intro: min.coboundedI1 mult_le_mono1)

text \<open>A change that adds no page and leaves the budget alone.\<close>

lemma budget_rel_quiet:
  assumes "ov_write_budget ov' = ov_write_budget ov" "length (ov_pages ov') \<le> length (ov_pages ov)"
  shows "budget_rel B (w, ov) (w, ov')"
  using budget_fields [OF assms(1)] assms(2) saturating_mul_mono [OF assms(2), of PS]
  by (auto simp: budget_rel_def capped_def split: option.splits)

lemma within_modify_quiet:
  assumes "\<And>ov. ov_write_budget (f ov) = ov_write_budget ov \<and> length (ov_pages (f ov)) \<le> length (ov_pages ov)"
  shows "within (budget_rel B) (modify_ov f)"
  unfolding within_def modifyS_def using assms by (auto intro!: budget_rel_quiet)

lemma length_update_slot: "length (update_slot p x xs) = length xs"
  by (induction xs) auto

section \<open>Page operations\<close>

text \<open>Reading pages changes neither the dirty pages nor the budget.\<close>

definition page_rel :: "('w \<Rightarrow> bool) \<Rightarrow> 'w \<times> overlay \<Rightarrow> 'w \<times> overlay \<Rightarrow> bool" where
  "page_rel B p q \<longleftrightarrow> (B (fst p) \<longrightarrow> B (fst q)) \<and> ov_pages (snd q) = ov_pages (snd p) \<and>
     ov_write_budget (snd q) = ov_write_budget (snd p)"

lemma pre_page_rel [simp]: "pre (page_rel B)"
  by (auto simp: pre_def reflp_def transp_def page_rel_def)

lemma page_rel_budget: "page_rel B p q \<Longrightarrow> budget_rel B p q"
  using budget_fields [of "snd q" "snd p"] by (auto simp: page_rel_def budget_rel_def capped_def split: option.splits)

lemma within_page_budget: "within (page_rel B) m \<Longrightarrow> within (budget_rel B) m"
  by (simp add: within_def page_rel_budget)

lemma within_lift_page: "within (\<lambda>w w'. B w \<longrightarrow> B w') m \<Longrightarrow> within (page_rel B) (liftS m)"
  by (auto simp: within_def page_rel_def liftS_def Let_def split_beta)

lemma within_take_clean: "within (page_rel B) (take_clean_page p)"
  by (auto simp: within_def page_rel_def take_clean_page_def split: option.splits)

lemma within_slice: "pre R \<Longrightarrow> within R (slice_of_page page i n)"
  unfolding slice_of_page_def by (intro within_intros)

lemma admit_ok:
  assumes "admit_dirty_page (w, ov) = (Ok u, wo)"
  shows "fst wo = w" "ov_pages (snd wo) = ov_pages ov" "limits (snd wo) = limits ov" "exceeded (snd wo) = exceeded ov"
    "limits ov = Some (pages, bytes) \<Longrightarrow> length (ov_pages ov) + 1 \<le> pages \<and> saturating_mul (length (ov_pages ov) + 1) PS \<le> bytes"
  using assms by (auto simp: admit_dirty_page_def limits_def exceeded_def Let_def split: option.splits if_splits)

lemma within_admit: "within (budget_rel B) admit_dirty_page"
  unfolding within_def
proof
  fix wo :: "'a \<times> overlay"
  obtain w ov where [simp]: "wo = (w, ov)" by fastforce
  show "budget_rel B wo (snd (admit_dirty_page wo))"
    by (auto simp: budget_rel_def admit_dirty_page_def exceeded_def limits_def capped_def Let_def split: option.splits)
qed

text \<open>Admitting a page, finding its content and adding it.\<close>

lemma within_add_page:
  fixes m :: "('w \<times> overlay, byte list, stable_memory_error) stm"
  assumes m: "within (page_rel B) m"
  shows "within (budget_rel B) (tryS admit_dirty_page (\<lambda>_. tryS m (\<lambda>page. modify_ov (\<lambda>ov. ov\<lparr>ov_pages := ov_pages ov @ [(p, page)]\<rparr>))))"
  unfolding within_def
proof
  fix wo :: "'w \<times> overlay"
  obtain w ov where wo: "wo = (w, ov)" by fastforce
  let ?add = "\<lambda>page. modify_ov (\<lambda>ov. ov\<lparr>ov_pages := ov_pages ov @ [(p, page)]\<rparr>)"
  obtain r w1 where 1: "admit_dirty_page wo = (r, w1)" by (cases "admit_dirty_page wo")
  note a = within_run [OF within_admit 1, of B]
  show "budget_rel B wo (snd (tryS admit_dirty_page (\<lambda>_. tryS m ?add) wo))"
  proof (cases r)
    case (Ok u)
    note ad = admit_ok [of w ov u w1]
    obtain r2 w2 where 2: "m w1 = (r2, w2)" by (cases "m w1")
    note b = within_run [OF m 2]
    show ?thesis
    proof (cases r2)
      case (Ok page)
      have e: "snd (tryS admit_dirty_page (\<lambda>_. tryS m ?add) wo) = (fst w2, (snd w2)\<lparr>ov_pages := ov_pages (snd w2) @ [(p, page)]\<rparr>)"
        using 1 2 Ok \<open>r = Ok u\<close> by (simp add: modifyS_def split_beta)
      have l: "limits (snd w2) = limits ov" "ov_pages (snd w2) = ov_pages ov" "exceeded (snd w2) = exceeded ov" "B w \<longrightarrow> B (fst w2)"
        using ad b 1 \<open>r = Ok u\<close> wo budget_fields [of "snd w2" "snd w1"] by (auto simp: page_rel_def)
      have f: "limits (x\<lparr>ov_pages := y\<rparr>) = limits x" "exceeded (x\<lparr>ov_pages := y\<rparr>) = exceeded x" for x y
        by (simp_all add: limits_def exceeded_def)
      show ?thesis unfolding e using l ad(5) 1 \<open>r = Ok u\<close> wo
        by (auto simp: budget_rel_def capped_def f split: option.splits)
    qed (use preD(2) [OF pre_budget_rel a page_rel_budget [OF b]] 1 2 Ok in auto)
  qed (use a 1 in auto)
qed

lemma within_edit: "within (budget_rel B) (edit_page p a bs)"
  unfolding within_def
proof
  fix wo :: "'a \<times> overlay"
  obtain w ov where wo: "wo = (w, ov)" by fastforce
  have "budget_rel B (w, ov) (w, ov)" by (rule preD(1)) simp
  moreover have "budget_rel B (w, ov) (w, ov\<lparr>ov_pages := update_slot p x (ov_pages ov)\<rparr>)" for x
    by (rule budget_rel_quiet) (simp_all add: length_update_slot)
  ultimately show "budget_rel B wo (snd (edit_page p a bs wo))"
    by (simp add: wo edit_page_def split: option.split)
qed

lemma within_full_page: "within (budget_rel B) (write_full_page p bs)"
proof -
  have m: "within (page_rel B) (retS bs :: ('a \<times> overlay, _, _) stm)" by (simp add: within_pure)
  have e: "write_full_page p bs = (\<lambda>wo. case dirty_page (snd wo) p of
       Some page \<Rightarrow> if length bs = length page then modify_ov (\<lambda>ov. ov\<lparr>ov_pages := update_slot p bs (ov_pages ov)\<rparr>) wo else (Panic, wo)
     | None \<Rightarrow> tryS admit_dirty_page (\<lambda>_. tryS (retS bs) (\<lambda>bs. modify_ov (\<lambda>ov. ov\<lparr>ov_pages := ov_pages ov @ [(p, bs)]\<rparr>))) wo)"
    by (rule ext) (simp add: write_full_page_def tryS_retS split: option.split)
  show ?thesis unfolding e
    by (intro within_branches(4) within_add_page [OF m] within_branches(2) within_modify_quiet within_pure(1) pre_budget_rel)
      (simp add: length_update_slot)
qed

lemma within_load:
  assumes base: "within (\<lambda>w w'. B w \<longrightarrow> B w') (read_base_page V p)"
  shows "within (budget_rel B) (load_dirty_page V p)"
proof -
  let ?m = "\<lambda>z. if z then retS zero_page else tryS (take_clean_page p) (\<lambda>found.
     case found of Some page \<Rightarrow> retS page | None \<Rightarrow> liftS (read_base_page V p))"
  have m: "within (page_rel B) (\<lambda>wo. ?m (ov_page_is_zero_masked (snd wo) p) wo)"
    by (rule within_at) (intro within_intros within_take_clean within_lift_page base pre_page_rel)
  have e: "load_dirty_page V p = (\<lambda>wo. if dirty_page (snd wo) p \<noteq> None then (Ok (), wo)
     else tryS admit_dirty_page (\<lambda>_. tryS (\<lambda>wo. ?m (ov_page_is_zero_masked (snd wo) p) wo)
       (\<lambda>page. modify_ov (\<lambda>ov. ov\<lparr>ov_pages := ov_pages ov @ [(p, page)]\<rparr>))) wo)"
    by (rule ext) (simp add: load_dirty_page_def tryS_def [abs_def])
  show ?thesis unfolding e by (intro within_branches(2) within_add_page [OF m] within_pure(1) pre_budget_rel)
qed

section \<open>Operations\<close>

lemma quiet_fields:
  "ov_write_budget (record_zero_extent a b ov) = ov_write_budget ov" "ov_pages (record_zero_extent a b ov) = ov_pages ov"
  "ov_write_budget (drop_pages_from k ov) = ov_write_budget ov" "length (ov_pages (drop_pages_from k ov)) \<le> length (ov_pages ov)"
  "ov_write_budget (insert_clean_page p page ov) = ov_write_budget ov" "ov_pages (insert_clean_page p page ov) = ov_pages ov"
  by (simp_all add: record_zero_extent_def drop_pages_from_def insert_clean_page_def Let_def)

lemma within_budget_ops:
  assumes base: "\<And>p. within (\<lambda>w w'. B w \<longrightarrow> B w') (read_base_page V p)"
  shows "within (budget_rel B) (ov_read_at V off n)" "within (budget_rel B) (ov_write_at V off bs)"
    "within (budget_rel B) (ov_truncate V n)"
proof -
  note i = within_intros within_load [OF base] within_edit within_full_page within_lift_page [OF base] within_slice pre_budget_rel
  have q: "within (budget_rel B) (modify_ov (record_newly_active_zero_pages a b))"
    "within (budget_rel B) (modify_ov (record_truncated_zero_pages a b))" "within (budget_rel B) (modify_ov (drop_pages_from k))"
    "within (budget_rel B) (modify_ov (\<lambda>ov. ov\<lparr>ov_size := f ov\<rparr>))" "within (budget_rel B) (modify_ov (insert_clean_page p page))"
    for a b k f p page
    by (rule within_modify_quiet, simp add: record_newly_active_zero_pages_def record_truncated_zero_pages_def quiet_fields)+
  have s: "within (budget_rel B) (ov_read_slice V p i k)" for p i k
    unfolding ov_read_slice_def [abs_def] by (intro i q within_page_budget [OF within_lift_page [OF base]])
  have r: "within (budget_rel B) (tryS (ov_read_range V off k) (\<lambda>bs. retS (bs @ replicate (n - k) 0, k = n)))" for k
    unfolding ov_read_range_def by (intro within_intros s pre_budget_rel)
  show "within (budget_rel B) (ov_read_at V off n)"
    unfolding ov_read_at_def [abs_def] Let_def
    by (intro within_branches within_pure pre_budget_rel within_at [OF r, of "\<lambda>wo. min n (ov_size (snd wo) - off)"])
  have g: "within (budget_rel B) (grow_to V a b)" for a b
    unfolding grow_to_def zero_newly_active_partial_pages_def zero_old_partial_page_def zero_new_partial_page_def Let_def
    by (intro within_intros q within_load [OF base] within_edit pre_budget_rel)
  have w: "within (budget_rel B) (tryS (checked_addS off (length bs)) (\<lambda>e. tryS (grow_to V m e) (\<lambda>_.
       tryS (if length bs = PS \<and> off mod PS = 0 then write_full_page (page_no off) bs
             else ov_write_loop V off bs 0) (\<lambda>_. modify_ov (\<lambda>ov. ov\<lparr>ov_size := max (ov_size ov) e\<rparr>)))))" for m
    by (intro within_intros within_write_loop g q within_load [OF base] within_edit within_full_page pre_budget_rel)
  show "within (budget_rel B) (ov_write_at V off bs)"
    unfolding ov_write_at_def [abs_def]
    by (intro within_branches within_pure pre_budget_rel within_at [OF w, of "\<lambda>wo. ov_size (snd wo)"])
  show "within (budget_rel B) (ov_truncate V n)"
    unfolding ov_truncate_def [abs_def] Let_def
    by (rule within_at [where f = "\<lambda>wo. ov_size (snd wo)"]) (intro within_intros g q within_load [OF base] within_edit pre_budget_rel)
qed

section \<open>Transparency\<close>

definition erase :: "overlay \<Rightarrow> overlay" where
  "erase ov = ov\<lparr>ov_write_budget := None\<rparr>"

lemma erase_fields [simp]:
  "ov_write_budget (erase ov) = None" "ov_size (erase ov) = ov_size ov" "ov_base_size (erase ov) = ov_base_size ov"
  "ov_pages (erase ov) = ov_pages ov" "ov_clean_pages (erase ov) = ov_clean_pages ov" "ov_zero_extents (erase ov) = ov_zero_extents ov"
  "dirty_page (erase ov) p = dirty_page ov p" "ov_page_is_zero_masked (erase ov) p = ov_page_is_zero_masked ov p"
  by (simp_all add: erase_def dirty_page_def ov_page_is_zero_masked_def)

definition transparent :: "('w \<times> overlay, 'a, 'e) stm \<Rightarrow> bool" where
  "transparent m \<longleftrightarrow> (\<forall>w ov r w' ov'. m (w, ov) = (r, (w', ov')) \<longrightarrow> (exceeded ov \<longrightarrow> exceeded ov') \<and>
     (\<not> exceeded ov' \<longrightarrow> m (w, erase ov) = (r, (w', erase ov'))))"

lemma transparentD:
  assumes "transparent m" "m (w, ov) = (r, (w', ov'))"
  shows "exceeded ov \<Longrightarrow> exceeded ov'" "\<not> exceeded ov' \<Longrightarrow> m (w, erase ov) = (r, (w', erase ov'))"
  using assms unfolding transparent_def by blast+

named_theorems transparent_intros

lemma transparent_pure [transparent_intros]:
  "transparent (retS x)" "transparent (errS e)" "transparent panicS" "transparent (ok_orS e v)" "transparent (checked_addS i j)"
  by (auto simp: transparent_def monad_defs ok_orS_def checked_addS_def split: option.splits)

lemma transparent_tryS [transparent_intros]:
  assumes m: "transparent m" and k: "\<And>x. transparent (k x)"
  shows "transparent (tryS m k)"
  unfolding transparent_def
proof (intro allI impI)
  fix w ov r w' ov'
  assume run: "tryS m k (w, ov) = (r, (w', ov'))"
  obtain r1 w1 ov1 where 1: "m (w, ov) = (r1, (w1, ov1))" by (metis prod.exhaust)
  note d = transparentD [OF m 1]
  show "(exceeded ov \<longrightarrow> exceeded ov') \<and> (\<not> exceeded ov' \<longrightarrow> tryS m k (w, erase ov) = (r, (w', erase ov')))"
  proof (cases r1)
    case (Ok x)
    then have 2: "k x (w1, ov1) = (r, (w', ov'))" using run 1 by simp
    note e = transparentD [OF k 2]
    show ?thesis
    proof (intro conjI impI)
      show "exceeded ov \<Longrightarrow> exceeded ov'" using d(1) e(1) by blast
      assume n: "\<not> exceeded ov'"
      then have "m (w, erase ov) = (Ok x, (w1, erase ov1))" using d(2) e(1) Ok by blast
      then show "tryS m k (w, erase ov) = (r, (w', erase ov'))" using e(2) [OF n] by simp
    qed
  qed (use run 1 d in auto)
qed

lemma transparent_branches [transparent_intros]:
  "(c \<Longrightarrow> transparent a) \<Longrightarrow> (\<not> c \<Longrightarrow> transparent b) \<Longrightarrow> transparent (if c then a else b)"
  "transparent a \<Longrightarrow> (\<And>x. transparent (b' x)) \<Longrightarrow> transparent (case v of None \<Rightarrow> a | Some x \<Rightarrow> b' x)"
  by (auto split: option.splits)

text \<open>A step may look at everything but the budget.\<close>

lemma transparent_at:
  assumes "\<And>x. transparent (k x)" "\<And>w ov. f (w, erase ov) = f (w, ov)"
  shows "transparent (\<lambda>wo. k (f wo) wo)"
  using assms(1) assms(2) unfolding transparent_def by simp

lemma transparent_modify:
  assumes "\<And>ov. ov_write_budget (f ov) = ov_write_budget ov" "\<And>ov. f (erase ov) = erase (f ov)"
  shows "transparent (modify_ov f)"
  using budget_fields(1) [OF assms(1)] assms(2) by (auto simp: transparent_def modifyS_def)

lemma transparent_liftS [transparent_intros]: "transparent (liftS m)"
  by (auto simp: transparent_def liftS_def Let_def split_beta)

lemma transparent_admit [transparent_intros]: "transparent admit_dirty_page"
  by (auto simp: transparent_def admit_dirty_page_def exceeded_def erase_def Let_def split: option.splits if_splits)

lemma transparent_take [transparent_intros]: "transparent (take_clean_page p)"
  by (auto simp: transparent_def take_clean_page_def exceeded_def erase_def split: option.splits)

lemma transparent_edit [transparent_intros]: "transparent (edit_page p a bs)"
  by (auto simp: transparent_def edit_page_def exceeded_def erase_def split: option.splits)

lemma transparent_append: "transparent (modify_ov (\<lambda>ov. ov\<lparr>ov_pages := ov_pages ov @ [(p, page)]\<rparr>))"
  "transparent (modify_ov (\<lambda>ov. ov\<lparr>ov_pages := update_slot p bs (ov_pages ov)\<rparr>))"
  "transparent (modify_ov (\<lambda>ov. ov\<lparr>ov_size := n\<rparr>))" "transparent (modify_ov (\<lambda>ov. ov\<lparr>ov_size := max (ov_size ov) n\<rparr>))"
  "transparent (modify_ov (record_newly_active_zero_pages a b))" "transparent (modify_ov (record_truncated_zero_pages a b))"
  "transparent (modify_ov (drop_pages_from k))"
  by (rule transparent_modify; simp add: erase_def record_newly_active_zero_pages_def record_truncated_zero_pages_def
      record_zero_extent_def drop_pages_from_def)+

lemmas transparent_rules = transparent_intros transparent_append

lemma transparent_full: "transparent (write_full_page p bs)"
proof -
  have e: "write_full_page p bs = (\<lambda>wo. (case dirty_page (snd wo) p of
       Some page \<Rightarrow> if length bs = length page then modify_ov (\<lambda>ov. ov\<lparr>ov_pages := update_slot p bs (ov_pages ov)\<rparr>) else panicS
     | None \<Rightarrow> tryS admit_dirty_page (\<lambda>_. modify_ov (\<lambda>ov. ov\<lparr>ov_pages := ov_pages ov @ [(p, bs)]\<rparr>))) wo)"
    by (rule ext) (simp add: write_full_page_def panicS_def split: option.split)
  show ?thesis
    unfolding e by (rule transparent_at [where f = "\<lambda>wo. dirty_page (snd wo) p"]) (intro transparent_rules, simp)
qed

lemma transparent_load: "transparent (load_dirty_page V p)"
proof -
  let ?m = "\<lambda>z. if z then retS zero_page else tryS (take_clean_page p) (\<lambda>found.
     case found of Some page \<Rightarrow> retS page | None \<Rightarrow> liftS (read_base_page V p))"
  have m: "transparent (\<lambda>wo. ?m (ov_page_is_zero_masked (snd wo) p) wo)"
    by (rule transparent_at [where f = "\<lambda>wo. ov_page_is_zero_masked (snd wo) p"]) (intro transparent_rules, simp)
  have e: "load_dirty_page V p = (\<lambda>wo. (if dirty_page (snd wo) p \<noteq> None then retS ()
     else tryS admit_dirty_page (\<lambda>_. tryS (\<lambda>wo. ?m (ov_page_is_zero_masked (snd wo) p) wo)
       (\<lambda>page. modify_ov (\<lambda>ov. ov\<lparr>ov_pages := ov_pages ov @ [(p, page)]\<rparr>)))) wo)"
    by (rule ext) (simp add: load_dirty_page_def tryS_def [abs_def] retS_def)
  show ?thesis
    unfolding e by (rule transparent_at [where f = "\<lambda>wo. dirty_page (snd wo) p \<noteq> None"]) (intro transparent_rules m, simp)
qed

lemma transparent_loop: "transparent (ov_write_loop V off bs k)"
proof (induction V off bs k rule: ov_write_loop.induct)
  case (1 V off bs k)
  show ?case
    unfolding ov_write_loop.simps [of V off bs k] Let_def by (intro transparent_rules transparent_load 1) simp_all
qed

lemma transparent_ops: "transparent (ov_write_at V off bs)" "transparent (ov_truncate V n)"
proof -
  have g: "transparent (grow_to V a b)" for a b
    unfolding grow_to_def zero_newly_active_partial_pages_def zero_old_partial_page_def zero_new_partial_page_def Let_def
    by (intro transparent_rules transparent_load)
  have e: "ov_write_at V off bs = (\<lambda>wo. (if bs = [] then retS () else tryS (checked_addS off (length bs)) (\<lambda>e.
       tryS (grow_to V (ov_size (snd wo)) e) (\<lambda>_.
       tryS (if length bs = PS \<and> off mod PS = 0 then write_full_page (page_no off) bs
             else ov_write_loop V off bs 0) (\<lambda>_.
       modify_ov (\<lambda>ov. ov\<lparr>ov_size := max (ov_size ov) e\<rparr>))))) wo)"
    by (rule ext) (simp add: ov_write_at_def retS_def)
  show "transparent (ov_write_at V off bs)"
    unfolding e by (rule transparent_at [where f = "\<lambda>wo. ov_size (snd wo)"]) (intro transparent_rules g transparent_loop transparent_full, simp)
  show "transparent (ov_truncate V n)"
    unfolding ov_truncate_def [abs_def] Let_def
    by (rule transparent_at [where f = "\<lambda>wo. ov_size (snd wo)"]) (intro transparent_rules g transparent_load, simp)
qed

end
