(* ===== verification/Budget_Session.thy ===== *)
theory Budget_Session
  imports Overlay_Budget
begin

text \<open>
  The requests of SQLite during an update with a write budget.  Until the budget is exceeded the update
  behaves as one without a budget; afterwards the published image is still untouched.
\<close>

section \<open>Operations on the overlay of the active context\<close>

lemma load_steady:
  assumes "sdb.steady w v b u"
  obtains u' where "sb_load db_memory u = (Ok b, u')" "sdb.steady w v b u'"
proof -
  obtain v1 where v1: "sdb.holds u v1 b" "sdb.same_mem v v1" "touches w u" using assms by (auto simp: sdb.steady_def)
  from sdb.load_ok [OF v1(1)] obtain u' v2 where l: "sb_load db_memory u = (Ok b, u')" "sdb.holds u' v2 b" "sdb.same_mem v1 v2" "touches u u'"
    by blast
  have "sdb.steady w v b u'" unfolding sdb.steady_def
    using l sdb.same_mem_trans [OF v1(2) l(3)] touches_trans [OF v1(3) l(4)] by blast
  then show thesis using that l(1) by blast
qed

lemma base_steady:
  assumes d: "sdb.db_at w v b"
  shows "within (\<lambda>u u'. sdb.steady w v b u \<longrightarrow> sdb.steady w v b u') (read_base_page db_memory p)"
  unfolding within_def
proof (intro allI impI)
  fix u
  assume u: "sdb.steady w v b u"
  have "img_placed b (sdb.cap v)" using d unfolding sdb.db_at_def by blast
  note based = sdb.based_steady [OF this, of w, unfolded based_def, rule_format, OF u]
  show "sdb.steady w v b (snd (read_base_page db_memory p u))"
  proof (cases "p * PS \<le> u64_max")
    case True
    then show ?thesis using based [of p] by auto
  next
    case False
    obtain u' where "sb_load db_memory u = (Ok b, u')" "sdb.steady w v b u'" by (rule load_steady [OF u])
    then show ?thesis using False by (simp add: read_base_page_def checked_mul_def errS_def ok_orS_def)
  qed
qed

lemma overlay_run:
  assumes d: "sdb.db_at w v b" and o: "active_overlay w = Some ov"
    and f: "within (budget_rel (sdb.steady w v b)) f" and run: "on_overlay f w = (r, w2)"
  obtains r0 w0 v2 ov2 where "f (w, ov) = (r0, (w0, ov2))" "r = (case r0 of Ok x \<Rightarrow> Ok (Some x) | Err e \<Rightarrow> Err e | Panic \<Rightarrow> Panic)"
    "sdb.db_at w2 v2 b" "sdb.same_mem v v2" "active_overlay w2 = Some ov2" "exceeded ov \<longrightarrow> exceeded ov2"
    "limits ov2 = limits ov" "capped ov \<longrightarrow> capped ov2"
proof -
  obtain r0 w0 ov2 where 0: "f (w, ov) = (r0, (w0, ov2))" by (metis prod.exhaust)
  have "sdb.steady w v b w" using d unfolding sdb.db_at_def by (blast intro: sdb.steady_refl)
  with within_run [OF f 0] have k: "sdb.steady w v b w0" "exceeded ov \<longrightarrow> exceeded ov2" "limits ov2 = limits ov" "capped ov \<longrightarrow> capped ov2"
    by (simp_all add: budget_rel_def)
  from sdb.overlay_step [where f = f, OF d o 0 k(1)] obtain w2' v2 where
    "on_overlay f w = (case r0 of Ok x \<Rightarrow> Ok (Some x) | Err e \<Rightarrow> Err e | Panic \<Rightarrow> Panic, w2')"
    "sdb.db_at w2' v2 b" "sdb.same_mem v v2" "active_overlay w2' = Some ov2" by blast
  then show thesis using that [OF 0] run k(2-) by simp
qed

text \<open>\<open>bounded c b g l w\<close>: an update with the limits \<open>l\<close> runs in context \<open>c\<close> over the image \<open>b\<close>, \<open>g\<close>.\<close>

definition bounded :: "context_id \<Rightarrow> superblock \<Rightarrow> (nat \<Rightarrow> byte) \<Rightarrow> (nat \<times> nat) option \<Rightarrow> (db_handle, db_store, 'z) vfs_world_scheme \<Rightarrow> bool" where
  "bounded c b g l w \<longleftrightarrow> (\<exists>v ov. sdb.db_at (at_context c w) v b \<and> db_byte v = g \<and> active_overlay (at_context c w) = Some ov \<and>
     limits ov = l \<and> capped ov \<and> (\<not> exceeded ov \<longrightarrow> sdb.updating (at_context c w) v b ov \<and> ov_size ov \<le> i64_max))"

lemma ov_inv_erase: "ov_inv n N g (erase ov) = ov_inv n N g ov"
  using ov_cong(1) [of "erase ov" ov] ov_cong(1) [of ov "erase ov"] by auto

text \<open>An operation that fails without overflow has exceeded the budget.\<close>

lemma refused_exceeded:
  assumes u: "sdb.updating w v b ov" and sz: "ov_size ov \<le> i64_max"
  shows "ov_write_at db_memory off bs (w, ov) = (Err e, (w', ov')) \<Longrightarrow> off + length bs \<le> i64_max \<Longrightarrow> exceeded ov'"
    "ov_truncate db_memory n (w, ov) = (Err e, (w', ov')) \<Longrightarrow> n \<le> i64_max \<Longrightarrow> exceeded ov'"
proof -
  note k = sdb.updating_ok [OF u]
  have ok: "ov_ok (sdb.steady w v b) (db_size b) (img_byte b (db_byte v)) (w, erase ov)"
    using k(1) by (simp add: ov_ok_def ov_inv_erase)
  have nf: "m \<le> i64_max \<Longrightarrow> \<not> may_fail (erase ov) m" for m
    using i64_room(1) [OF sz] i64_room(2) [of m] by (simp add: may_fail_def)
  show "exceeded ov'" if run: "ov_write_at db_memory off bs (w, ov) = (Err e, (w', ov'))" and r: "off + length bs \<le> i64_max"
  proof (rule ccontr)
    assume "\<not> exceeded ov'"
    from transparentD(2) [OF transparent_ops(1) run this] show False
      using nf [OF r] by (cases rule: ov_write_at_cases [OF k(2) ok, of off bs]) auto
  qed
  show "exceeded ov'" if run: "ov_truncate db_memory n (w, ov) = (Err e, (w', ov'))" and r: "n \<le> i64_max"
  proof (rule ccontr)
    assume "\<not> exceeded ov'"
    from transparentD(2) [OF transparent_ops(2) run this] show False
      using nf [OF r] by (cases rule: ov_truncate_cases [OF k(2) ok i64_room(2) [OF r]]) auto
  qed
qed

lemma boundedI:
  assumes "sdb.db_at (at_context c w) v b" "db_byte v = g" "active_overlay (at_context c w) = Some ov" "limits ov = l" "capped ov"
    "\<not> exceeded ov \<Longrightarrow> sdb.updating (at_context c w) v b ov \<and> ov_size ov \<le> i64_max"
  shows "bounded c b g l w"
  using assms unfolding bounded_def by blast

lemma updating_overlay: "sdb.updating w v b ov \<Longrightarrow> active_overlay w = Some ov"
  by (simp add: sdb.updating_def)

lemma op_bounded:
  assumes bd: "bounded c b g l w"
    and f: "\<And>v. sdb.db_at (at_context c w) v b \<Longrightarrow> within (budget_rel (sdb.steady (at_context c w) v b)) f"
    and w1: "\<And>x. on_overlay f (at_context c w) \<noteq> (Ok None, x)" "snd (on_overlay f (at_context c w)) = w1" "current_context w1 = Some c"
    and ok: "\<And>v ov. sdb.updating (at_context c w) v b ov \<Longrightarrow> ov_size ov \<le> i64_max \<Longrightarrow>
      (\<exists>v' ov'. sdb.updating w1 v' b ov' \<and> ov_size ov' \<le> i64_max) \<or> (\<forall>r0 w0 ov'. f (at_context c w, ov) = (r0, (w0, ov')) \<longrightarrow> exceeded ov')"
  shows "bounded c b g l w1"
proof -
  obtain v ov where o: "sdb.db_at (at_context c w) v b" "db_byte v = g" "active_overlay (at_context c w) = Some ov"
    "limits ov = l" "capped ov" "\<not> exceeded ov \<longrightarrow> sdb.updating (at_context c w) v b ov \<and> ov_size ov \<le> i64_max"
    using bd unfolding bounded_def by blast
  obtain r' where 2: "on_overlay f (at_context c w) = (r', w1)" using w1(2) by (metis prod.collapse)
  obtain r0 w0 v2 ov2 where k: "f (at_context c w, ov) = (r0, (w0, ov2))"
    "r' = (case r0 of Ok x \<Rightarrow> Ok (Some x) | Err e \<Rightarrow> Err e | Panic \<Rightarrow> Panic)"
    "sdb.db_at w1 v2 b" "sdb.same_mem v v2" "active_overlay w1 = Some ov2" "exceeded ov \<longrightarrow> exceeded ov2"
    "limits ov2 = limits ov" "capped ov \<longrightarrow> capped ov2"
    by (rule overlay_run [OF o(1,3) f [OF o(1)] 2])
  note cc = at_context_same [OF w1(3)]
  have "sdb.updating w1 v2 b ov2 \<and> ov_size ov2 \<le> i64_max" if n: "\<not> exceeded ov2"
  proof -
    have "sdb.updating (at_context c w) v b ov" "ov_size ov \<le> i64_max" using n o(6) k(6) by blast+
    from ok [OF this] obtain v' ov' where u: "sdb.updating w1 v' b ov'" "ov_size ov' \<le> i64_max" using k(1) n by blast
    have "ov' = ov2" using updating_overlay [OF u(1)] k(5) by simp
    moreover have "v' = v2" using u(1) k(3) by (simp add: sdb.updating_def sdb.db_at_def sdb.holds_def)
    ultimately show ?thesis using u by simp
  qed
  then show ?thesis
    by (intro boundedI [of c w1 v2 b g ov2]) (use k(3-8) o(2,4,5) cc sdb.same_memD(3) [OF k(4)] in simp_all)
qed

lemma on_overlay_result:
  fixes f :: "('h, 's, 'z blob_world_ext, 'a) ov_stm" and w :: "('h, 's, 'z) blob_world_scheme"
  assumes "active_overlay w = Some ov" "f (w, ov) = (r0, (w0, ov'))"
  shows "fst (on_overlay f w) = (case r0 of Ok x \<Rightarrow> Ok (Some x) | Err e \<Rightarrow> Err e | Panic \<Rightarrow> Panic)"
proof -
  obtain c i where "active_context w = Some c" "overlay_index (overlays w) c = Some i" "snd (overlays w ! i) = ov"
    by (rule active_overlay_index [OF assms(1)])
  then show ?thesis using assms(2) by (simp add: on_overlay_def active_context_id_def split: outcome.split)
qed

lemma bounded_active:
  assumes "bounded c b g l w"
  shows "on_overlay f (at_context c w) \<noteq> (Ok None, x)"
proof -
  obtain ov where ov: "active_overlay (at_context c w) = Some ov" using assms unfolding bounded_def by blast
  obtain r0 w0 ov' where "f (at_context c w, ov) = (r0, (w0, ov'))" by (metis prod.exhaust)
  from on_overlay_result [where f = f, OF ov this] show ?thesis by (auto split: outcome.splits)
qed

lemma write_bounded:
  assumes bd: "bounded c b g l w" and run: "blob_write_at db_memory off bs (at_context c w) = (r, w1)" and r: "off + length bs \<le> i64_max"
  shows "bounded c b g l w1"
proof (rule op_bounded [where f = "ov_write_at db_memory off bs", OF bd within_budget_ops(2) [OF base_steady] bounded_active [OF bd]])
  show w1: "snd (on_overlay (ov_write_at db_memory off bs) (at_context c w)) = w1"
    using run bounded_active [OF bd, where f = "ov_write_at db_memory off bs"]
    by (auto simp: blob_write_at_def tryS_def retS_def split: prod.splits outcome.splits option.splits)
  show "current_context w1 = Some c" using frame_context(1) [OF within_run [OF iso.within_file_ops(3) run]] by simp
  fix v ov
  assume u: "sdb.updating (at_context c w) v b ov" "ov_size ov \<le> i64_max"
  show "(\<exists>v' ov'. sdb.updating w1 v' b ov' \<and> ov_size ov' \<le> i64_max) \<or>
      (\<forall>r0 w0 ov'. ov_write_at db_memory off bs (at_context c w, ov) = (r0, (w0, ov')) \<longrightarrow> exceeded ov')"
  proof (cases rule: sdb.update_write_cases [OF u(1), of off bs])
    case (1 w' v' ov')
    have "ov_size ov' = fst (afile_write off bs (ov_content (img_byte b (db_byte v)) ov))" using 1(4) ov_content_size by metis
    then have "ov_size ov' \<le> i64_max" using u(2) r by (auto simp: afile_write_def ov_content_def)
    moreover have "w' = w1" using 1(1) run by simp
    ultimately show ?thesis using 1(2) by blast
  next
    case (2 e' w' v' ov')
    have "exceeded ov1" if "ov_write_at db_memory off bs (at_context c w, ov) = (r0, (w0, ov1))" for r0 w0 ov1
    proof -
      have "r0 = Err e'"
        using 2(1) on_overlay_result [where f = "ov_write_at db_memory off bs", OF updating_overlay [OF u(1)] that]
        by (cases "on_overlay (ov_write_at db_memory off bs) (at_context c w)"; cases r0) (auto simp: blob_write_at_def retS_def)
      then show ?thesis using refused_exceeded(1) [OF u, of off bs] that r by blast
    qed
    then show ?thesis by blast
  qed
qed

lemma truncate_bounded:
  assumes bd: "bounded c b g l w" and run: "blob_truncate db_memory n (at_context c w) = (r, w1)" and r: "n \<le> i64_max"
  shows "bounded c b g l w1"
proof (rule op_bounded [where f = "ov_truncate db_memory n", OF bd within_budget_ops(3) [OF base_steady] bounded_active [OF bd]])
  show w1: "snd (on_overlay (ov_truncate db_memory n) (at_context c w)) = w1"
    using run bounded_active [OF bd, where f = "ov_truncate db_memory n"]
    by (auto simp: blob_truncate_def tryS_def retS_def split: prod.splits outcome.splits option.splits)
  show "current_context w1 = Some c" using frame_context(1) [OF within_run [OF iso.within_file_ops(4) run]] by simp
  fix v ov
  assume u: "sdb.updating (at_context c w) v b ov" "ov_size ov \<le> i64_max"
  show "(\<exists>v' ov'. sdb.updating w1 v' b ov' \<and> ov_size ov' \<le> i64_max) \<or>
      (\<forall>r0 w0 ov'. ov_truncate db_memory n (at_context c w, ov) = (r0, (w0, ov')) \<longrightarrow> exceeded ov')"
  proof (cases rule: sdb.update_truncate_cases [OF u(1) i64_room(2) [OF r]])
    case (1 w' v' ov')
    have "ov_size ov' = fst (afile_truncate n (ov_content (img_byte b (db_byte v)) ov))" using 1(4) ov_content_size by metis
    then have "ov_size ov' \<le> i64_max" using r by (simp add: afile_truncate_def)
    moreover have "w' = w1" using 1(1) run by simp
    ultimately show ?thesis using 1(2) by blast
  next
    case (2 e' w' v' ov')
    have "exceeded ov1" if "ov_truncate db_memory n (at_context c w, ov) = (r0, (w0, ov1))" for r0 w0 ov1
    proof -
      have "r0 = Err e'"
        using 2(1) on_overlay_result [where f = "ov_truncate db_memory n", OF updating_overlay [OF u(1)] that]
        by (cases "on_overlay (ov_truncate db_memory n) (at_context c w)"; cases r0) (auto simp: blob_truncate_def retS_def)
      then show ?thesis using refused_exceeded(2) [OF u, of n] that r by blast
    qed
    then show ?thesis by blast
  qed
qed

lemma read_bounded:
  assumes bd: "bounded c b g l w" and run: "blob_read_at db_memory off n (at_context c w) = (r, w1)"
  shows "bounded c b g l w1"
proof (rule op_bounded [where f = "ov_read_at db_memory off n", OF bd within_budget_ops(1) [OF base_steady] bounded_active [OF bd]])
  show w1: "snd (on_overlay (ov_read_at db_memory off n) (at_context c w)) = w1"
    using run bounded_active [OF bd, where f = "ov_read_at db_memory off n"]
    by (auto simp: blob_read_at_def tryS_def retS_def split: prod.splits outcome.splits option.splits)
  show "current_context w1 = Some c" using frame_context(1) [OF within_run [OF iso.within_file_ops(2) run]] by simp
  fix v ov
  assume u: "sdb.updating (at_context c w) v b ov" "ov_size ov \<le> i64_max"
  obtain w' v' ov' where k: "blob_read_at db_memory off n (at_context c w) = (Ok (afile_read off n (ov_content (img_byte b (db_byte v)) ov)), w')"
    "sdb.updating w' v' b ov'" "ov_content (img_byte b (db_byte v')) ov' = ov_content (img_byte b (db_byte v)) ov"
    by (rule sdb.update_read_ok [OF u(1)])
  have "ov_size ov' = ov_size ov" using k(3) ov_content_size by metis
  then show "(\<exists>v' ov'. sdb.updating w1 v' b ov' \<and> ov_size ov' \<le> i64_max) \<or>
      (\<forall>r0 w0 ov'. ov_read_at db_memory off n (at_context c w, ov) = (r0, (w0, ov')) \<longrightarrow> exceeded ov')"
    using k(1,2) run u(2) by (intro disjI1 exI [of _ v'] exI [of _ ov']) simp
qed

section \<open>Requests of SQLite\<close>

lemma bounded_slots [simp]:
  "bounded c b g l (w\<lparr>last_error := le\<rparr>) \<longleftrightarrow> bounded c b g l w"
  "bounded c b g l (w\<lparr>lock_level := x\<rparr>) \<longleftrightarrow> bounded c b g l w"
  "bounded c b g l (w\<lparr>current_context := y\<rparr>) \<longleftrightarrow> bounded c b g l w"
  by (simp_all add: bounded_def)

lemma on_main_bounded:
  assumes bd: "bounded c b g l w" and f: "if_context f = c" and m: "within iso.frame m"
    and k: "\<And>r w1. m (at_context c w) = (r, w1) \<Longrightarrow> bounded c b g l w1" and run: "on_main rc m (f, w) = (r, (f', w'))"
  shows "bounded c b g l w' \<and> current_context w' = current_context w"
proof -
  obtain r1 w1 where 1: "m (at_context (if_context f) w) = (r1, w1)" by fastforce
  from on_main_world(1) [OF m 1, of rc] obtain le where "w' = (w1\<lparr>last_error := le\<rparr>)\<lparr>current_context := current_context w\<rparr>"
    using run by auto
  then show ?thesis using k 1 f by simp
qed

lemma bounded_load:
  assumes bd: "bounded c b g l w" and c: "current_context w = Some c"
  obtains w' where "sb_load db_memory w = (Ok b, w')" "bounded c b g l w'" "current_context w' = Some c"
proof -
  obtain v ov where o: "sdb.db_at w v b" "db_byte v = g" "active_overlay w = Some ov"
    "limits ov = l" "capped ov" "\<not> exceeded ov \<longrightarrow> sdb.updating w v b ov \<and> ov_size ov \<le> i64_max"
    using bd at_context_same [OF c] unfolding bounded_def by auto
  obtain w' v' where k: "sb_load db_memory w = (Ok b, w')" "sdb.db_at w' v' b" "sdb.same_mem v v'" "active_overlay w' = active_overlay w"
    by (rule sdb.db_at_load [OF o(1)])
  have c': "current_context w' = Some c" using load_context [OF k(1)] c by simp
  have "bounded c b g l w'"
    by (rule boundedI [of c w' v' b g ov])
      (use o k(2,4) at_context_same [OF c'] sdb.same_memD(3) [OF k(3)] in \<open>auto simp: sdb.updating_def\<close>)
  then show thesis using that k(1) c' by blast
qed

lemma caught_bounded:
  assumes f: "if_context f = c" and k: "\<And>r w1. m (at_context c w) = (r, w1) \<Longrightarrow> bounded c b g l w1"
    and h: "\<And>x w. snd (h x w) = w" and run: "in_context (catchS (on_world m) (fail_with rc) h) (f, w) = (r, (f', w'))"
  shows "bounded c b g l w' \<and> current_context w' = current_context w"
proof -
  obtain r1 w1 where 1: "m (at_context c w) = (r1, w1)" by fastforce
  have bd: "bounded c b g l w1" by (rule k [OF 1])
  have o: "on_world m (f, at_context c w) = (r1, (f, w1))" using 1 by (simp add: on_world_def)
  obtain r2 f2 w2 where 2: "catchS (on_world m) (fail_with rc) h (f, at_context c w) = (r2, (f2, w2))" by (metis prod.exhaust)
  have "\<exists>le. w2 = w1\<lparr>last_error := le\<rparr>"
  proof (cases r1)
    case (Ok x)
    then have "h x (f, w1) = (r2, (f2, w2))" using o 2 by simp
    then have "w2 = w1" using h [of x "(f, w1)"] by simp
    then show ?thesis by (intro exI [of _ "last_error w1"]) simp
  next
    case (Err e)
    then have "fail_with rc e (f, w1) = (r2, (f2, w2))" using o 2 by simp
    then have "w2 = w1 \<or> (\<exists>le. w2 = w1\<lparr>last_error := le\<rparr>)"
      by (auto simp: fail_with_def record_last_error_def record_last_error_for_def split: option.splits)
    then show ?thesis by (auto intro: exI [of _ "last_error w1"])
  next
    case Panic
    then have "w2 = w1" using o 2 by simp
    then show ?thesis by (intro exI [of _ "last_error w1"]) simp
  qed
  then obtain le where w2: "w2 = w1\<lparr>last_error := le\<rparr>" by blast
  have "w' = w2\<lparr>current_context := current_context w\<rparr>" using run 2 f by (simp add: in_context_def at_context_def)
  then show ?thesis using bd w2 by simp
qed

lemma size_bounded:
  assumes "bounded c b g l w" "blob_file_size db_memory (at_context c w) = (r, w1)"
  shows "bounded c b g l w1"
proof -
  obtain ov where "active_overlay (at_context c w) = Some ov" using assms(1) unfolding bounded_def by blast
  then have "w1 = at_context c w" using assms(2) by (simp add: blob_file_size_def overlay_file_size_def)
  then show ?thesis using assms(1) by (simp add: at_context_def)
qed

lemma open_bounded:
  assumes bd: "bounded c b g l w" and c: "current_context w = Some c" and run: "x_open db_memory name flags w = (r, w')"
  shows "bounded c b g l w' \<and> current_context w' = Some c"
proof -
  have ac: "active_context_id w = (Ok c, w)" using c by (simp add: active_context_id_def active_context_def)
  obtain w1 where l: "sb_load db_memory w = (Ok b, w1)" "bounded c b g l w1" "current_context w1 = Some c"
    by (rule bounded_load [OF bd c])
  have loaded: "bounded c b g l w' \<and> current_context w' = Some c" if "catchS (sb_load db_memory) h k w = (r, w')"
    "\<And>w r w'. k b w = (r, w') \<Longrightarrow> \<exists>le. w' = w\<lparr>last_error := le\<rparr>" for h k
  proof -
    have "k b w1 = (r, w')" using that(1) l(1) by simp
    from that(2) [OF this] l(2,3) show ?thesis by auto
  qed
  show ?thesis
  proof (cases "is_main_db_path name")
    case True
    then show ?thesis
      using run ac refuse_world ret_world by (intro loaded) (auto simp: x_open_def Let_def split: if_splits)
  next
    case False
    then have "\<exists>le. w' = w\<lparr>last_error := le\<rparr>"
      using run ac refuse_world ret_world by (fastforce simp: x_open_def Let_def split: if_splits)
    then show ?thesis using bd c by auto
  qed
qed

lemma client_step_bounded:
  assumes s: "client_step c w w'" and bd: "bounded c b g l w"
  shows "bounded c b g l w' \<and> current_context w' = current_context w"
  using s
proof cases
  case (write_step f off bs r f')
  then have "on_main SQLITE_IOERR_WRITE (blob_write_at db_memory off bs) (f, w) = (r, (f', w'))"
    using main_write_run(1) [of f bs off w] by (simp add: writer_handle_def int_max_defs)
  from on_main_bounded [OF bd _ iso.within_file_ops(3) _ this] show ?thesis
    using write_bounded [OF bd] write_step(1,2) by (simp add: writer_handle_def)
next
  case (truncate_step f n r f')
  then have "on_main SQLITE_IOERR_TRUNCATE (blob_truncate db_memory n) (f, w) = (r, (f', w'))"
    using main_write_run(2) [of f "[]" n w] by (simp add: writer_handle_def int_max_defs)
  from on_main_bounded [OF bd _ iso.within_file_ops(4) _ this] show ?thesis
    using truncate_bounded [OF bd] truncate_step(1,2) by (simp add: writer_handle_def)
next
  case (read_step f n off r f')
  then have "in_context (catchS (on_world (blob_read_at db_memory off n)) (fail_with SQLITE_IOERR_READ)
      (\<lambda>(bs, complete). retS (read_code complete, Some bs))) (f, w) = (r, (f', w'))"
    by (simp add: x_read_def writer_handle_def checked_amount_def checked_offset_def usize_try_from_def)
  from caught_bounded [OF _ read_bounded [OF bd] _ this] show ?thesis
    using read_step(1) by (simp add: writer_handle_def retS_def split_beta)
next
  case (size_step f r f')
  then have "in_context (catchS (on_world (blob_file_size db_memory)) (fail_with SQLITE_IOERR_FSTAT) (\<lambda>n. retS (size_result n))) (f, w) = (r, (f', w'))"
    by (simp add: x_file_size_def writer_handle_def)
  from caught_bounded [OF _ size_bounded [OF bd] _ this] show ?thesis
    using size_step(1) by (simp add: writer_handle_def retS_def)
next
  case (temp_write_step f t bs n off r f')
  then show ?thesis using temp_callbacks_world(1) [OF temp_write_step(1,2)] bd by auto
next
  case (temp_truncate_step f t n r f')
  then show ?thesis using temp_callbacks_world(2) [OF temp_truncate_step(1,2)] bd by auto
next
  case (temp_read_step f t n off r f')
  then show ?thesis using temp_callbacks_world(3) [OF temp_read_step(1,2)] bd by auto
next
  case (lock_step f l r f')
  then show ?thesis using lock_callbacks_world(1) [OF lock_step(2)] bd by auto
next
  case (unlock_step f l r f')
  then show ?thesis using lock_callbacks_world(2) [OF unlock_step(2)] bd by auto
next
  case (control_step mprintf opcode arg f r f')
  then show ?thesis using control_world bd by blast
next
  case (open_step name flags r)
  show ?thesis using open_bounded [OF bd open_step] open_step(1) by simp
next
  case (random_step n r)
  obtain w1 where l: "sb_load db_memory w = (Ok b, w1)" "bounded c b g l w1" "current_context w1 = Some c"
    by (rule bounded_load [OF bd random_step(1)])
  then show ?thesis using random_step bd by (auto simp: x_randomness_def retS_def catchS_def split: if_splits)
qed

lemma client_run_bounded:
  assumes "client_run c w w'" "bounded c b g l w"
  shows "bounded c b g l w' \<and> current_context w' = current_context w"
  using assms
proof (induction rule: rtranclp_induct)
  case (step w1 w2)
  then show ?case using client_step_bounded [OF step(2)] by metis
qed blast

end
