(* ===== verification/Stmt_Frames.thy ===== *)
theory Stmt_Frames
  imports Query_Budget Frames
begin

text \<open>
  What the calls of the statement interface keep, everything built from them keeps: a preorder on the
  states of the facade that each call of SQLite respects is respected by binding, stepping, reading
  rows and by every phase of a measured statement.
\<close>

section \<open>The calls of the interface\<close>

definition statements_within :: "('h, 's, 'c, 'st, 'q, 'z) stmt_api_scheme \<Rightarrow>
    (('h, 's, 'c, 'q) db_state \<Rightarrow> ('h, 's, 'c, 'q) db_state \<Rightarrow> bool) \<Rightarrow> 'c \<Rightarrow> 'st \<Rightarrow> bool" where
  "statements_within sq R conn st \<longleftrightarrow> pre R \<and>
     (\<forall>sql. within R (sqlite_call (sqlite3_prepare_v2 sq conn sql) :: (_, _, db_error) stm)) \<and>
     within R (sqlite_call (sqlite3_stmt_finalize sq st) :: (_, _, db_error) stm) \<and>
     within R (sqlite_call (sqlite3_reset sq st) :: (_, _, db_error) stm) \<and>
     within R (sqlite_call (sqlite3_clear_bindings sq st) :: (_, _, db_error) stm) \<and>
     within R (sqlite_call (sqlite3_step sq st) :: (_, _, db_error) stm) \<and>
     (\<forall>i v d. within R (sqlite_call (sqlite3_bind_text sq st i v d) :: (_, _, db_error) stm)) \<and>
     (\<forall>i v d. within R (sqlite_call (sqlite3_bind_blob sq st i v d) :: (_, _, db_error) stm)) \<and>
     (\<forall>i v. within R (sqlite_call (sqlite3_bind_int64 sq st i v) :: (_, _, db_error) stm)) \<and>
     (\<forall>i v. within R (sqlite_call (sqlite3_bind_double sq st i v) :: (_, _, db_error) stm)) \<and>
     (\<forall>i. within R (sqlite_call (sqlite3_bind_null sq st i) :: (_, _, db_error) stm))"

lemma statements_withinD:
  assumes "statements_within sq R conn st"
  shows "pre R"
    "within R (sqlite_call (sqlite3_prepare_v2 sq conn sql) :: (_, _, db_error) stm)"
    "within R (sqlite_call (sqlite3_stmt_finalize sq st) :: (_, _, db_error) stm)"
    "within R (sqlite_call (sqlite3_reset sq st) :: (_, _, db_error) stm)"
    "within R (sqlite_call (sqlite3_clear_bindings sq st) :: (_, _, db_error) stm)"
    "within R (sqlite_call (sqlite3_step sq st) :: (_, _, db_error) stm)"
    "within R (sqlite_call (sqlite3_bind_text sq st i v d) :: (_, _, db_error) stm)"
    "within R (sqlite_call (sqlite3_bind_blob sq st i bv d) :: (_, _, db_error) stm)"
    "within R (sqlite_call (sqlite3_bind_int64 sq st i iv) :: (_, _, db_error) stm)"
    "within R (sqlite_call (sqlite3_bind_double sq st i dv) :: (_, _, db_error) stm)"
    "within R (sqlite_call (sqlite3_bind_null sq st i) :: (_, _, db_error) stm)"
  using assms unfolding statements_within_def by blast+

section \<open>Composition\<close>

lemma within_catchS:
  assumes "pre R" "within R m" "\<And>e. within R (h e)" "\<And>x. within R (k x)"
  shows "within R (catchS m h k)"
  unfolding within_def
proof
  fix w
  obtain r w1 where m: "m w = (r, w1)" by fastforce
  have "R w w1" using within_run [OF assms(2) m] .
  moreover have "R w1 (snd (h e w1))" "R w1 (snd (k x w1))" for e x using assms(3,4) by (simp_all add: within_def)
  ultimately show "R w (snd (catchS m h k w))"
    using m preD(2) [OF assms(1)] by (cases r) (auto simp: catchS_def)
qed

lemma within_case_sum: "(\<And>x. within R (k x)) \<Longrightarrow> (\<And>e. within R (h e)) \<Longrightarrow> within R p \<Longrightarrow>
    within R (case r of Ok x \<Rightarrow> k x | Err e \<Rightarrow> h e | Panic \<Rightarrow> p)"
  by (cases r) auto

text \<open>A computation whose result is kept and looked at later.\<close>

lemma within_let_run:
  assumes "pre R" "within R m" "\<And>r. within R (k r)"
  shows "within R (\<lambda>w. let (r, w) = m w in k r w)"
  unfolding within_def
proof
  fix w
  obtain r w1 where m: "m w = (r, w1)" by fastforce
  then have "R w w1" "R w1 (snd (k r w1))" using within_run [OF assms(2)] assms(3) by (auto simp: within_def)
  then show "R w (snd (let (r, w) = m w in k r w))" using m preD(2) [OF assms(1)] by simp
qed

lemma within_sqlite_get: "pre R \<Longrightarrow> within R (sqlite_get f)"
  by (simp add: sqlite_get_def within_pure)

lemma within_ignoring: "within R m \<Longrightarrow> R s (ignoring m s)"
  by (simp add: ignoring_def within_def)

lemmas stmt_intros = within_tryS within_catchS within_pure(2-7) within_sqlite_get within_branches(1,3,5)

section \<open>Statements\<close>

lemma within_bind_to:
  assumes "statements_within sq R conn st"
  shows "within R (bind_to sq v st i)"
proof -
  note d = statements_withinD [OF assms]
  have b: "within R (bind_result rc)" for rc unfolding bind_result_def by (intro stmt_intros d(1))
  show ?thesis
    unfolding bind_to_def bind_text_def bind_i64_def bind_f64_def bind_blob_def bind_null_def
    by (cases v) (auto intro!: stmt_intros d b)
qed

lemma within_bind_from:
  assumes "statements_within sq R conn st"
  shows "within R (bind_from sq st i vs)"
  by (induction vs arbitrary: i) (auto intro!: stmt_intros within_bind_to [OF assms] statements_withinD(1) [OF assms])

lemma within_stmt_error: "pre R \<Longrightarrow> within R (stmt_error sq db rc)"
  unfolding stmt_error_def by (intro stmt_intros)

lemma stmt_error_snd [simp]: "snd (stmt_error sq db rc s) = s"
  by (simp add: stmt_error_def sqlite_get_def errS_def)

lemma stmt_error_state: "stmt_error sq db rc s = (r, s') \<Longrightarrow> s' = s \<and> (\<exists>e. r = Err e)"
  by (auto simp: stmt_error_def sqlite_get_def errS_def)

lemma within_reset: "statements_within sq R conn (st_raw st) \<Longrightarrow> within R (reset sq st)"
  unfolding reset_def by (intro stmt_intros within_stmt_error statements_withinD)

lemma within_query:
  assumes "statements_within sq R conn (st_raw st)"
  shows "within R (query sq st vs)"
  unfolding query_def reset_and_bind_def bind_all_with_count_def
  by (intro stmt_intros within_reset [OF assms] within_bind_from [OF assms] statements_withinD(1) [OF assms])

lemma within_prepare:
  assumes "\<And>st. statements_within sq R conn st"
  shows "within R (prepare_statement sq conn sql)"
proof -
  note d = statements_withinD [OF assms]
  show ?thesis
    unfolding prepare_statement_def stmt_of_raw_def
    by (intro stmt_intros within_stmt_error d)
qed

lemma within_drop_statement: "statements_within sq R conn (st_raw st) \<Longrightarrow> within R (drop_statement sq st)"
  unfolding drop_statement_def by (rule statements_withinD(3))

lemma clear_bindings_within: "statements_within sq R conn (st_raw st) \<Longrightarrow> R s (clear_bindings sq st s)"
  unfolding clear_bindings_def by (rule within_ignoring [OF statements_withinD(5)])

lemma next_row_within:
  assumes sq: "statements_within sq R conn (st_raw (rw_statement rows))" and run: "next_row sq (rows, s) = (r, (rows', s'))"
  shows "R s s'" "rw_statement rows' = rw_statement rows"
proof -
  let ?st = "rw_statement rows"
  note p = statements_withinD(1) [OF sq]
  obtain r1 s1 where 1: "step sq ?st s = (r1, s1)" by fastforce
  have r1: "R s s1" using within_run [OF statements_withinD(6) [OF sq]] 1 unfolding step_def by blast
  have c: "R s1 (clear_bindings sq ?st s1)" by (rule clear_bindings_within [OF sq])
  have "R s s' \<and> rw_statement rows' = rw_statement rows"
    using run 1 r1 preD(1) [OF p, of s] preD(2) [OF p r1 c]
    by (cases r1) (auto simp: next_row_def after_step_def clear_static_bindings_def Let_def retS_def
        split: if_splits prod.splits dest!: stmt_error_state)
  then show "R s s'" "rw_statement rows' = rw_statement rows" by blast+
qed

lemma drop_rows_within: "statements_within sq R conn (st_raw (rw_statement rows)) \<Longrightarrow> R s (drop_rows sq (rows, s))"
  using preD(1) [OF statements_withinD(1)] clear_bindings_within
  by (auto simp: drop_rows_def clear_static_bindings_def Let_def)

section \<open>Measured statements\<close>

definition budget_within :: "('h, 's, 'c, 'st, 'q, 'z) budget_api_scheme \<Rightarrow>
    (('h, 's, 'c, 'q) db_state \<Rightarrow> ('h, 's, 'c, 'q) db_state \<Rightarrow> bool) \<Rightarrow> 'c \<Rightarrow> bool" where
  "budget_within sq R conn \<longleftrightarrow> (\<forall>st. statements_within sq R conn st) \<and>
     within R (sqlite_call (performance_counter sq) :: (_, _, db_error) stm) \<and>
     (\<forall>st i k. within R (sqlite_call (sqlite3_stmt_status sq st i k) :: (_, _, db_error) stm))"

lemma budget_withinD:
  assumes "budget_within sq R conn"
  shows "statements_within sq R conn st" "within R (sqlite_call (performance_counter sq) :: (_, _, db_error) stm)"
    "within R (sqlite_call (sqlite3_stmt_status sq st i k) :: (_, _, db_error) stm)" "pre R"
proof -
  show s: "statements_within sq R conn st" for st using assms unfolding budget_within_def by blast
  show "pre R" by (rule statements_withinD(1) [OF s])
qed (use assms in \<open>simp_all add: budget_within_def\<close>)

definition on_env :: "(('h, 's, 'c, 'q) db_state \<Rightarrow> ('h, 's, 'c, 'q) db_state \<Rightarrow> bool) \<Rightarrow>
    ('h, 's, 'c, 'q, 'm) budget_env_scheme \<Rightarrow> ('h, 's, 'c, 'q, 'm) budget_env_scheme \<Rightarrow> bool" where
  "on_env R e e' \<longleftrightarrow> R (be_db e) (be_db e')"

lemma pre_on_env [simp]: "pre R \<Longrightarrow> pre (on_env R)"
  by (auto simp: pre_def on_env_def reflp_def transp_def)

lemma within_on_db: "within R m \<Longrightarrow> within (on_env R) (on_db m)"
  unfolding within_def on_env_def on_db_def by (auto split: prod.splits outcome.splits) (metis snd_conv)+

lemma within_dropping:
  assumes "pre R" "within (on_env R) m" "within R d"
  shows "within (on_env R) (dropping d m)"
  unfolding within_def
proof
  fix e
  obtain r e1 where m: "m e = (r, e1)" by fastforce
  have "R (be_db e) (be_db e1)" "R (be_db e1) (ignoring d (be_db e1))"
    using within_run [OF assms(2) m] within_ignoring [OF assms(3)] by (simp_all add: on_env_def)
  then show "on_env R e (snd (dropping d m e))"
    using m preD(2) [OF assms(1)] by (simp add: dropping_def on_env_def)
qed

lemma within_metric: "pre R \<Longrightarrow> within (on_env R) (metric f)"
  by (simp add: metric_def within_def modifyS_def on_env_def preD)

lemma within_resume: "pre R \<Longrightarrow> within R (resume r)"
  by (simp add: within_def resume_def preD)

lemma within_counter:
  assumes "budget_within sq R conn"
  shows "within R (instruction_counter sq)" "within R (delta sq start)"
  unfolding delta_def instruction_counter_def by (intro stmt_intros budget_withinD [OF assms])+

lemma within_check:
  assumes "budget_within sq R conn"
  shows "within (on_env R) (check sq)"
proof -
  note p = budget_withinD(4) [OF assms]
  have a: "within (on_env R) (check_at sq current)" for current
    by (auto simp: within_def on_env_def check_at_def Let_def preD(1) [OF p])
  have "within (on_env R) (tryS (on_db (instruction_counter sq)) (check_at sq))"
    by (intro within_tryS pre_on_env p within_on_db within_counter(1) [OF assms] a)
  then show ?thesis
    by (auto simp: within_def check_def on_env_def preD(1) [OF p])
qed

lemmas env_intros = within_tryS within_catchS within_pure(2-7) within_branches(1,3) within_on_db within_metric within_resume pre_on_env

lemma within_bind_checked:
  assumes "budget_within sq R conn"
  shows "within (on_env R) (bind_checked sq st i vs)"
  by (induction vs arbitrary: i)
    (auto intro!: env_intros within_check [OF assms] within_bind_to [OF budget_withinD(1) [OF assms]] budget_withinD(4) [OF assms])

lemma within_bind_statement:
  assumes "budget_within sq R conn"
  shows "within (on_env R) (bind_statement sq budget vs st)"
  unfolding bind_statement_def query_with_bind_check_def
  by (intro env_intros within_bind_checked [OF assms] within_query [OF budget_withinD(1) [OF assms]]
      within_reset [OF budget_withinD(1) [OF assms]] budget_withinD(4) [OF assms])

lemma within_metrics_read:
  assumes "budget_within sq R conn"
  shows "within R (metrics_read sq raw b)"
  unfolding metrics_read_def status_counter_def Let_def by (intro stmt_intros budget_withinD [OF assms])

end
