(* ===== verification/Update_Frames.thy ===== *)
theory Update_Frames
  imports Update_Budget Db_Update Budget_Session Stmt_Frames
begin

text \<open>
  The statements of an update with a budget make only requests of a client of the VFS, never panic and
  come to an end.
\<close>

section \<open>Computations that respect a relation and do not panic\<close>

definition works :: "('w \<Rightarrow> 'w \<Rightarrow> bool) \<Rightarrow> ('a \<Rightarrow> bool) \<Rightarrow> ('w, 'a, 'e) stm \<Rightarrow> bool" where
  "works R Q m \<longleftrightarrow> (\<forall>w r w'. m w = (r, w') \<longrightarrow> R w w' \<and> r \<noteq> Panic \<and> (\<forall>x. r = Ok x \<longrightarrow> Q x))"

lemma worksI: "(\<And>w r w'. m w = (r, w') \<Longrightarrow> R w w' \<and> r \<noteq> Panic \<and> (\<forall>x. r = Ok x \<longrightarrow> Q x)) \<Longrightarrow> works R Q m"
  unfolding works_def by blast

lemma worksD:
  assumes "works R Q m" "m w = (r, w')"
  shows "R w w'" "r \<noteq> Panic" "r = Ok x \<Longrightarrow> Q x"
  using assms unfolding works_def by blast+

lemma works_weaken: "works R P m \<Longrightarrow> (\<And>x. P x \<Longrightarrow> Q x) \<Longrightarrow> works R Q m"
  unfolding works_def by blast

lemma works_catchS:
  assumes p: "pre R" and m: "works R P m" and h: "\<And>e. works R Q (h e)" and k: "\<And>x. P x \<Longrightarrow> works R Q (k x)"
  shows "works R Q (catchS m h k)"
proof (rule worksI)
  fix w r w'
  assume run: "catchS m h k w = (r, w')"
  obtain r1 w1 where 1: "m w = (r1, w1)" by (cases "m w")
  note d = worksD [OF m 1]
  show "R w w' \<and> r \<noteq> Panic \<and> (\<forall>x. r = Ok x \<longrightarrow> Q x)"
  proof (cases r1)
    case (Ok x)
    then have "k x w1 = (r, w')" using run 1 by simp
    from worksD [OF k [OF d(3) [OF Ok]] this] show ?thesis using preD(2) [OF p d(1)] by blast
  next
    case (Err e)
    then have "h e w1 = (r, w')" using run 1 by simp
    from worksD [OF h this] show ?thesis using preD(2) [OF p d(1)] by blast
  qed (use d in simp)
qed

lemma works_tryS:
  fixes m :: "('w, 'a, 'e) stm" and k :: "'a \<Rightarrow> ('w, 'b, 'e) stm"
  assumes "pre R" "works R P m" "\<And>x. P x \<Longrightarrow> works R Q (k x)"
  shows "works R Q (tryS m k)"
proof -
  have "works R Q (errS e :: ('w, 'b, 'e) stm)" for e using preD(1) [OF assms(1)] by (auto simp: works_def errS_def)
  moreover have "tryS m k = catchS m errS k" by (rule ext) (simp add: tryS_def catchS_def errS_def split: prod.split outcome.split)
  ultimately show ?thesis using works_catchS [where h = errS and k = k, OF assms(1,2) _ assms(3)] by simp
qed

lemma works_pure:
  assumes "pre R"
  shows "Q x \<Longrightarrow> works R Q (retS x)" "works R Q (errS e)" "(\<And>w. Q (f w)) \<Longrightarrow> works R Q (getS f)"
    "(\<And>x. v = Some x \<Longrightarrow> Q x) \<Longrightarrow> works R Q (ok_orS e v)" "r \<noteq> Panic \<Longrightarrow> (\<And>x. r = Ok x \<Longrightarrow> Q x) \<Longrightarrow> works R Q (resume r)"
  using preD(1) [OF assms] by (auto simp: works_def retS_def errS_def getS_def ok_orS_def resume_def split: option.splits)

lemma works_sqlite_get: "pre R \<Longrightarrow> (\<And>q. Q (f q)) \<Longrightarrow> works R Q (sqlite_get f)"
  unfolding sqlite_get_def by (rule works_pure(3))

lemma works_branches:
  "(b \<Longrightarrow> works R Q m) \<Longrightarrow> (\<not> b \<Longrightarrow> works R Q m') \<Longrightarrow> works R Q (if b then m else m')"
  "(v = None \<Longrightarrow> works R Q m) \<Longrightarrow> (\<And>x. v = Some x \<Longrightarrow> works R Q (k x)) \<Longrightarrow> works R Q (case v of None \<Rightarrow> m | Some x \<Rightarrow> k x)"
  by (cases b; simp) (cases v; simp)

text \<open>A result that is kept while something else is done.\<close>

lemma works_let_run:
  assumes "pre R" "works R P m" "\<And>r. r \<noteq> Panic \<Longrightarrow> (\<And>x. r = Ok x \<Longrightarrow> P x) \<Longrightarrow> works R Q (k r)"
  shows "works R Q (\<lambda>w. let (r, w) = m w in k r w)"
proof (rule worksI)
  fix w r w'
  assume run: "(let (r, w) = m w in k r w) = (r, w')"
  obtain r1 w1 where 1: "m w = (r1, w1)" by (cases "m w")
  then have k: "k r1 w1 = (r, w')" using run by simp
  have "works R Q (k r1)" using assms(3) worksD [OF assms(2) 1] by blast
  from worksD [OF this k] show "R w w' \<and> r \<noteq> Panic \<and> (\<forall>x. r = Ok x \<longrightarrow> Q x)"
    using preD(2) [OF assms(1) worksD(1) [OF assms(2) 1]] by blast
qed

lemmas works_intros = works_tryS works_catchS works_pure works_sqlite_get works_branches

section \<open>What is assumed of SQLite\<close>

text \<open>\<open>tx conn q\<close> tells that a transaction is open on a connection, which is when SQLite reports that it is
  not in autocommit mode.  A quiet call neither reaches the VFS nor begins or ends a transaction; the
  other calls only make requests of a client of the VFS.\<close>

definition quiet :: "('c \<Rightarrow> 'q \<Rightarrow> bool) \<Rightarrow> (db_handle, db_store, 'q, 'r) sqlite_fun \<Rightarrow> bool" where
  "quiet tx f \<longleftrightarrow> (\<forall>q w r q' w'. f (q, w) = (r, (q', w')) \<longrightarrow> w' = w \<and> (\<forall>conn. tx conn q' = tx conn q))"

definition client_call :: "context_id \<Rightarrow> ('r \<Rightarrow> bool) \<Rightarrow> (db_handle, db_store, 'q, 'r) sqlite_fun \<Rightarrow> bool" where
  "client_call c Q f \<longleftrightarrow> (\<forall>q w r q' w'. f (q, w) = (r, (q', w')) \<longrightarrow> (current_context w = Some c \<longrightarrow> client_run c w w') \<and> Q r)"

type_synonym ('c, 'st, 'q) vm_budget_api = "(db_handle, db_store, 'c, 'st, 'q) budget_api"

text \<open>\<open>wc\<close> are the writing connections of the database \<open>c\<close>, \<open>ws\<close> the statements prepared on them.  Preparing,
  stepping, resetting and finalizing a statement may use the file; binding, settings and counters do
  not.\<close>

definition statement_client :: "('c, 'st, 'q) vm_budget_api \<Rightarrow> ('c \<Rightarrow> 'q \<Rightarrow> bool) \<Rightarrow> context_id \<Rightarrow> ('c \<Rightarrow> bool) \<Rightarrow> ('st \<Rightarrow> bool) \<Rightarrow> bool" where
  "statement_client sq tx c wc ws \<longleftrightarrow>
    (\<forall>conn sql. wc conn \<longrightarrow> client_call c (\<lambda>(rc, st, rest). \<forall>raw. st = Some raw \<longrightarrow> ws raw) (sqlite3_prepare_v2 sq conn sql)) \<and>
    (\<forall>st. ws st \<longrightarrow> client_call c (\<lambda>_. True) (sqlite3_stmt_finalize sq st) \<and> client_call c (\<lambda>_. True) (sqlite3_reset sq st) \<and>
       client_call c (\<lambda>_. True) (sqlite3_step sq st) \<and> quiet tx (sqlite3_clear_bindings sq st) \<and>
       (\<forall>i v d. quiet tx (sqlite3_bind_text sq st i v d)) \<and> (\<forall>i v d. quiet tx (sqlite3_bind_blob sq st i v d)) \<and>
       (\<forall>i v. quiet tx (sqlite3_bind_int64 sq st i v)) \<and> (\<forall>i v. quiet tx (sqlite3_bind_double sq st i v)) \<and>
       (\<forall>i. quiet tx (sqlite3_bind_null sq st i)) \<and> (\<forall>i k. quiet tx (sqlite3_stmt_status sq st i k))) \<and>
    quiet tx (performance_counter sq) \<and>
    (\<forall>conn what v. quiet tx (sqlite3_limit sq conn what v)) \<and> (\<forall>conn n h. quiet tx (sqlite3_progress_handler sq conn n h)) \<and>
    (\<forall>conn b. quiet tx (sqlite3_set_authorizer sq conn b))"

text \<open>\<open>COMMIT\<close> ends the transaction, and \<open>ROLLBACK\<close> without a transaction does not use the file.\<close>

definition transactional :: "('c, 'q) vm_api \<Rightarrow> ('c \<Rightarrow> 'q \<Rightarrow> bool) \<Rightarrow> context_id \<Rightarrow> ('c \<Rightarrow> bool) \<Rightarrow> bool" where
  "transactional api tx c wc \<longleftrightarrow>
    (\<forall>conn q w m q' w'. wc conn \<longrightarrow> sqlite3_exec api conn COMMIT_SQL (q, w) = ((SQLITE_OK, m), (q', w')) \<longrightarrow> \<not> tx conn q') \<and>
    (\<forall>conn q w r q' w'. wc conn \<longrightarrow> \<not> tx conn q \<longrightarrow> current_context w = Some c \<longrightarrow>
       sqlite3_exec api conn ROLLBACK_SQL (q, w) = (r, (q', w')) \<longrightarrow> (\<exists>le l. w' = w\<lparr>last_error := le, lock_level := l\<rparr>)) \<and>
    (\<forall>conn conn' q w r q' w'. sqlite3_close api conn (q, w) = (r, (q', w')) \<longrightarrow> \<not> tx conn' q \<longrightarrow> \<not> tx conn' q')"

text \<open>A statement has finitely many rows: \<open>rank\<close> counts those left.\<close>

definition rows_end :: "('c, 'st, 'q) vm_budget_api \<Rightarrow> ('st \<Rightarrow> bool) \<Rightarrow> ('q \<Rightarrow> nat) \<Rightarrow> bool" where
  "rows_end sq ws rank \<longleftrightarrow>
    (\<forall>st q w q' w'. ws st \<longrightarrow> sqlite3_step sq st (q, w) = (SQLITE_ROW, (q', w')) \<longrightarrow> rank q' < rank q) \<and>
    (\<forall>q w r q' w'. performance_counter sq (q, w) = (r, (q', w')) \<longrightarrow> rank q' \<le> rank q)"

lemma statement_clientD:
  assumes "statement_client sq tx c wc ws"
  shows "wc conn \<Longrightarrow> client_call c (\<lambda>(rc, st, rest). \<forall>raw. st = Some raw \<longrightarrow> ws raw) (sqlite3_prepare_v2 sq conn sql)"
    "ws st \<Longrightarrow> client_call c (\<lambda>_. True) (sqlite3_stmt_finalize sq st)" "ws st \<Longrightarrow> client_call c (\<lambda>_. True) (sqlite3_reset sq st)"
    "ws st \<Longrightarrow> client_call c (\<lambda>_. True) (sqlite3_step sq st)" "ws st \<Longrightarrow> quiet tx (sqlite3_clear_bindings sq st)"
    "ws st \<Longrightarrow> quiet tx (sqlite3_bind_text sq st i tv d)" "ws st \<Longrightarrow> quiet tx (sqlite3_bind_blob sq st i bv d)"
    "ws st \<Longrightarrow> quiet tx (sqlite3_bind_int64 sq st i iv)" "ws st \<Longrightarrow> quiet tx (sqlite3_bind_double sq st i dv)"
    "ws st \<Longrightarrow> quiet tx (sqlite3_bind_null sq st i)" "ws st \<Longrightarrow> quiet tx (sqlite3_stmt_status sq st i k)"
    "quiet tx (performance_counter sq)" "quiet tx (sqlite3_limit sq conn what v)" "quiet tx (sqlite3_progress_handler sq conn n h)"
    "quiet tx (sqlite3_set_authorizer sq conn on)"
  using assms unfolding statement_client_def by (simp_all del: split_paired_All)

section \<open>An update with a budget that is running\<close>

definition progressing :: "context_id \<Rightarrow> superblock \<Rightarrow> (nat \<Rightarrow> byte) \<Rightarrow> (nat \<times> nat) option \<Rightarrow> (db_handle, db_store) vfs_world \<Rightarrow>
    ('c, 'q) vm_state \<Rightarrow> bool" where
  "progressing c b g l w0 s \<longleftrightarrow> current_context (db_vfs s) = Some c \<and> client_run c w0 (db_vfs s) \<and> bounded c b g l (db_vfs s)"

definition serving :: "context_id \<Rightarrow> superblock \<Rightarrow> (nat \<Rightarrow> byte) \<Rightarrow> (nat \<times> nat) option \<Rightarrow> (db_handle, db_store) vfs_world \<Rightarrow>
    ('c, 'q) vm_state \<Rightarrow> ('c, 'q) vm_state \<Rightarrow> bool" where
  "serving c b g l w0 s s' \<longleftrightarrow> (progressing c b g l w0 s \<longrightarrow> progressing c b g l w0 s') \<and> write_connections s' = write_connections s"

lemma pre_serving [simp]: "pre (serving c b g l w0)"
  by (auto simp: pre_def reflp_def transp_def serving_def)

text \<open>Steps that leave the VFS, the table of writing connections and the transactions alone.\<close>

definition steady_vfs :: "('c \<Rightarrow> 'q \<Rightarrow> bool) \<Rightarrow> ('c, 'q) vm_state \<Rightarrow> ('c, 'q) vm_state \<Rightarrow> bool" where
  "steady_vfs tx s s' \<longleftrightarrow> db_vfs s' = db_vfs s \<and> write_connections s' = write_connections s \<and>
     (\<forall>conn. tx conn (sqlite_state s') = tx conn (sqlite_state s))"

lemma pre_steady [simp]: "pre (steady_vfs tx)"
  by (auto simp: pre_def reflp_def transp_def steady_vfs_def)

lemma steady_serving: "steady_vfs tx s s' \<Longrightarrow> serving c b g l w0 s s'"
  by (simp add: steady_vfs_def serving_def progressing_def)

lemma works_steady: "works (steady_vfs tx) Q m \<Longrightarrow> works (serving c b g l w0) Q m"
  unfolding works_def using steady_serving by blast

lemma progressing_step:
  assumes "progressing c b g l w0 s" "client_run c (db_vfs s) (db_vfs s')"
  shows "progressing c b g l w0 s'"
  using assms client_run_bounded [OF assms(2), of b g l] rtranclp_trans [of "client_step c" w0 "db_vfs s" "db_vfs s'"]
  unfolding progressing_def by metis

lemma works_quiet: "quiet tx f \<Longrightarrow> works (steady_vfs tx) (\<lambda>_. True) (sqlite_call f)"
  by (auto simp: works_def quiet_def steady_vfs_def sqlite_call_def split: prod.splits)

lemma works_client:
  assumes "client_call c Q f"
  shows "works (serving c b g l w0) Q (sqlite_call f)"
proof (rule worksI)
  fix s r s'
  assume run: "sqlite_call f s = (r, s')"
  obtain x q w where f: "f (sqlite_state s, db_vfs s) = (x, (q, w))" by (metis surj_pair)
  then have e: "r = Ok x" "s' = s\<lparr>sqlite_state := q, db_vfs := w\<rparr>" using run by (simp_all add: sqlite_call_def)
  have a: "current_context (db_vfs s) = Some c \<longrightarrow> client_run c (db_vfs s) w" "Q x"
    using assms f unfolding client_call_def by blast+
  then have "progressing c b g l w0 s'" if "progressing c b g l w0 s"
    using progressing_step [OF that, of s'] that e(2) by (simp add: progressing_def)
  then show "serving c b g l w0 s s' \<and> r \<noteq> Panic \<and> (\<forall>x. r = Ok x \<longrightarrow> Q x)"
    using e a(2) by (simp add: serving_def)
qed

section \<open>Statements\<close>

abbreviation any :: "'a \<Rightarrow> bool" where
  "any \<equiv> \<lambda>_. True"

lemmas works_seq = works_tryS [where P = any]

lemma works_stmt_error: "pre R \<Longrightarrow> works R Q (stmt_error sq db rc)"
  unfolding stmt_error_def by (intro works_seq works_sqlite_get works_pure) auto

lemma works_bind_to:
  assumes sq: "statement_client sq tx c wc ws" and st: "ws st"
  shows "works (steady_vfs tx) any (bind_to sq v st i)"
proof -
  have b: "works (steady_vfs tx) any (bind_result rc)" for rc unfolding bind_result_def by (intro works_branches works_pure) auto
  show ?thesis
    unfolding bind_to_def bind_text_def bind_i64_def bind_f64_def bind_blob_def bind_null_def
    by (cases v) (auto intro!: works_seq works_pure(4) works_quiet b statement_clientD [OF sq] st)
qed

lemma works_bind_from:
  assumes "statement_client sq tx c wc ws" "ws st"
  shows "works (steady_vfs tx) any (bind_from sq st i vs)"
  by (induction vs arbitrary: i) (auto intro!: works_seq works_pure works_bind_to [OF assms])

lemma works_reset:
  assumes "statement_client sq tx c wc ws" "ws (st_raw st)"
  shows "works (serving c b g l w0) any (reset sq st)"
  unfolding reset_def
  by (intro works_seq works_branches works_pure works_stmt_error works_client [OF statement_clientD(3) [OF assms]]) auto

lemma works_query:
  assumes "statement_client sq tx c wc ws" "ws (st_raw st)"
  shows "works (serving c b g l w0) (\<lambda>rows. rw_statement rows = st) (query sq st vs)"
  unfolding query_def reset_and_bind_def bind_all_with_count_def
  by (intro works_seq works_branches works_pure works_reset [OF assms] works_steady [OF works_bind_from [OF assms]])
    (simp_all add: rows_new_def)

lemma works_prepare:
  assumes sq: "statement_client sq tx c wc ws" and conn: "wc conn"
  shows "works (serving c b g l w0) (\<lambda>st. ws (st_raw st)) (prepare_statement sq conn sql)"
  unfolding prepare_statement_def
proof (intro works_branches works_pure works_tryS [OF pre_serving works_client [OF statement_clientD(1) [OF sq conn]]] pre_serving)
  fix x :: "c_int \<times> 'b option \<times> byte list option"
  assume x: "case x of (rc, st, rest) \<Rightarrow> \<forall>raw. st = Some raw \<longrightarrow> ws raw"
  obtain rc st rest where [simp]: "x = (rc, st, rest)" by (metis prod.exhaust)
  have of_raw: "works (serving c b g l w0) (\<lambda>st. ws (st_raw st)) (stmt_of_raw sq conn raw)" if "ws raw" for raw
    unfolding stmt_of_raw_def using that by (intro works_seq works_sqlite_get works_pure) (auto simp: from_cached_raw_def)
  have "works (serving c b g l w0) (\<lambda>st. ws (st_raw st)) (
       if rc \<noteq> SQLITE_OK then stmt_error sq conn rc
       else case st of None \<Rightarrow> errS EmptySql
       | Some raw \<Rightarrow>
           if \<not> tail_is_empty rest
           then tryS (sqlite_call (sqlite3_stmt_finalize sq raw)) (\<lambda>_. errS TrailingSql)
           else stmt_of_raw sq conn raw)"
    using x by (intro works_branches works_stmt_error works_pure of_raw works_seq works_client [OF statement_clientD(2) [OF sq]]) auto
  then show "works (serving c b g l w0) (\<lambda>st. ws (st_raw st)) (case x of (rc, st, rest) \<Rightarrow>
       if rc \<noteq> SQLITE_OK then stmt_error sq conn rc
       else case st of None \<Rightarrow> errS EmptySql
       | Some raw \<Rightarrow>
           if \<not> tail_is_empty rest
           then tryS (sqlite_call (sqlite3_stmt_finalize sq raw)) (\<lambda>_. errS TrailingSql)
           else stmt_of_raw sq conn raw)" by simp
qed

lemma works_drop_statement:
  assumes "statement_client sq tx c wc ws" "ws (st_raw st)"
  shows "works (serving c b g l w0) any (drop_statement sq st)"
  unfolding drop_statement_def by (rule works_client [OF statement_clientD(2) [OF assms]])

lemma works_counter:
  assumes "statement_client sq tx c wc ws"
  shows "works (steady_vfs tx) any (instruction_counter sq)" "works (steady_vfs tx) any (delta sq start)"
  unfolding delta_def instruction_counter_def
  by (intro works_seq works_pure works_quiet statement_clientD(12) [OF assms] pre_steady TrueI)+

lemma works_metrics_read:
  assumes "statement_client sq tx c wc ws" "ws raw"
  shows "works (steady_vfs tx) any (metrics_read sq raw reset_counters)"
  unfolding metrics_read_def status_counter_def Let_def
  by (intro works_seq works_pure works_quiet statement_clientD(11) [OF assms] pre_steady TrueI)

lemma works_authorizer:
  assumes "statement_client sq tx c wc ws"
  shows "works (steady_vfs tx) any (authorizer_enter sq conn)" "works (steady_vfs tx) any (authorizer_drop sq conn)"
  unfolding authorizer_enter_def authorizer_drop_def
  by (intro works_seq works_branches works_stmt_error works_pure works_quiet statement_clientD(15) [OF assms] pre_steady TrueI)+

lemma works_set_observer: "works (steady_vfs tx) any (set_query_observer conn active)"
  by (auto simp: works_def set_query_observer_def modifyS_def steady_vfs_def)

lemma works_observer:
  assumes "statement_client sq tx c wc ws"
  shows "works (steady_vfs tx) any (install_observer sq conn budget state)" "works (steady_vfs tx) any (observer_drop sq conn guard)"
  unfolding install_observer_def observer_drop_def lower_limit_def
  by (intro works_seq works_branches works_pure works_set_observer works_quiet statement_clientD(13,14) [OF assms] pre_steady TrueI)+

section \<open>Rows\<close>

lemma clear_bindings_steady:
  assumes "statement_client sq tx c wc ws" "ws (st_raw st)"
  shows "steady_vfs tx s (clear_bindings sq st s)"
proof -
  have "works (steady_vfs tx) any (sqlite_call (sqlite3_clear_bindings sq (st_raw st)) :: (_, _, db_error) stm)"
    by (rule works_quiet [OF statement_clientD(5) [OF assms]])
  from worksD(1) [OF this prod.collapse [symmetric]] show ?thesis unfolding clear_bindings_def ignoring_def .
qed

lemma drop_rows_steady:
  assumes "statement_client sq tx c wc ws" "ws (st_raw (rw_statement rows))"
  shows "steady_vfs tx s (drop_rows sq (rows, s))"
  using clear_bindings_steady [OF assms] preD(1) [OF pre_steady] by (auto simp: drop_rows_def clear_static_bindings_def Let_def)

lemma next_row_serves:
  assumes sq: "statement_client sq tx c wc ws" and ws: "ws (st_raw (rw_statement rows))" and run: "next_row sq (rows, s) = (r, (rows', s'))"
  shows "serving c b g l w0 s s'" "rw_statement rows' = rw_statement rows" "r \<noteq> Panic"
    "rows_end sq ws rank \<Longrightarrow> r = Ok (Some raw) \<Longrightarrow> rank (sqlite_state s') < rank (sqlite_state s)"
proof -
  let ?st = "rw_statement rows" and ?R = "serving c b g l w0"
  obtain rc q w where f: "sqlite3_step sq (st_raw ?st) (sqlite_state s, db_vfs s) = (rc, (q, w))" by (metis surj_pair)
  let ?s1 = "s\<lparr>sqlite_state := q, db_vfs := w\<rparr>"
  have 1: "step sq ?st s = (Ok rc, ?s1)" using f by (simp add: step_def sqlite_call_def)
  have r1: "?R s ?s1" using worksD(1) [OF works_client [OF statement_clientD(4) [OF sq ws]] 1 [unfolded step_def]] .
  have c: "?R ?s1 (clear_bindings sq ?st ?s1)" by (rule steady_serving [OF clear_bindings_steady [OF sq ws]])
  have "?R s s' \<and> rw_statement rows' = ?st \<and> r \<noteq> Panic \<and> (\<forall>raw. r = Ok (Some raw) \<longrightarrow> rc = SQLITE_ROW \<and> s' = ?s1)"
  proof (cases "rw_done rows")
    case True
    then show ?thesis using run preD(1) [OF pre_serving] by (auto simp: next_row_def)
  next
    case False
    then show ?thesis
      using run 1 r1 preD(2) [OF pre_serving r1 c]
      by (auto simp: next_row_def after_step_def clear_static_bindings_def Let_def retS_def
          split: if_splits prod.splits dest!: stmt_error_state)
  qed
  then have k: "?R s s'" "rw_statement rows' = ?st" "r \<noteq> Panic" "r = Ok (Some raw) \<Longrightarrow> rc = SQLITE_ROW \<and> s' = ?s1" by blast+
  then show "?R s s'" "rw_statement rows' = ?st" "r \<noteq> Panic" by blast+
  assume "rows_end sq ws rank" "r = Ok (Some raw)"
  then have "rank q < rank (sqlite_state s)" using k(4) f ws unfolding rows_end_def by blast
  then show "rank (sqlite_state s') < rank (sqlite_state s)" using k(4) \<open>r = Ok (Some raw)\<close> by simp
qed

section \<open>The environment of an update\<close>

definition env_rel :: "(('c, 'q) vm_state \<Rightarrow> ('c, 'q) vm_state \<Rightarrow> bool) \<Rightarrow> (db_handle, db_store, 'c, 'q) update_env \<Rightarrow>
    (db_handle, db_store, 'c, 'q) update_env \<Rightarrow> bool" where
  "env_rel R e e' \<longleftrightarrow> R (be_db e) (be_db e') \<and> ue_published e' = ue_published e"

lemma pre_env_rel [simp]: "pre R \<Longrightarrow> pre (env_rel R)"
  by (auto simp: pre_def env_rel_def reflp_def transp_def)

lemma works_env_steady: "works (env_rel (steady_vfs tx)) Q m \<Longrightarrow> works (env_rel (serving c b g l w0)) Q m"
  unfolding works_def env_rel_def using steady_serving by blast

lemma works_on_db:
  assumes "works R Q m"
  shows "works (env_rel R) Q (on_db m)"
proof (rule worksI)
  fix e e' :: "(db_handle, db_store, 'a, 'b) update_env" and r
  assume run: "on_db m e = (r, e')"
  obtain r1 s where m: "m (be_db e) = (r1, s)" by (cases "m (be_db e)")
  show "env_rel R e e' \<and> r \<noteq> Panic \<and> (\<forall>x. r = Ok x \<longrightarrow> Q x)"
    using worksD [OF assms m] run m by (cases r1) (auto simp: on_db_def env_rel_def)
qed

lemma works_classified:
  assumes "works R Q m"
  shows "works R Q (classified m)"
proof (rule worksI)
  fix w r w'
  assume run: "classified m w = (r, w')"
  obtain r1 w1 where m: "m w = (r1, w1)" by (cases "m w")
  show "R w w' \<and> r \<noteq> Panic \<and> (\<forall>x. r = Ok x \<longrightarrow> Q x)"
    using worksD [OF assms m] run m by (cases r1) (auto simp: classified_def)
qed

lemma works_udb: "works R Q m \<Longrightarrow> works (env_rel R) Q (udb m)"
  unfolding udb_def by (intro works_classified works_on_db)

lemma works_umetric: "pre R \<Longrightarrow> works (env_rel R) any (umetric f)"
  by (auto simp: umetric_def modifyS_def works_def env_rel_def preD)

lemma works_dropping:
  assumes "pre R" "works (env_rel R) Q m" "works R any d"
  shows "works (env_rel R) Q (dropping d m)"
proof (rule worksI)
  fix e r e'
  assume run: "dropping d m e = (r, e')"
  obtain r1 e1 where m: "m e = (r1, e1)" by (cases "m e")
  have "R (be_db e1) (ignoring d (be_db e1))"
    unfolding ignoring_def by (rule worksD(1) [OF assms(3) prod.collapse [symmetric]])
  then show "env_rel R e e' \<and> r \<noteq> Panic \<and> (\<forall>x. r = Ok x \<longrightarrow> Q x)"
    using worksD [OF assms(2) m] run m preD(2) [OF assms(1)] by (auto simp: dropping_def env_rel_def)
qed

lemma works_check:
  fixes sq :: "('c, 'st, 'q) vm_budget_api"
  assumes "statement_client sq tx c wc ws"
  shows "works (env_rel (steady_vfs tx)) any (check sq)"
proof -
  have a: "works (env_rel (steady_vfs tx)) any (check_at sq current)" for current
    by (auto simp: works_def env_rel_def check_at_def Let_def steady_vfs_def)
  have "works (env_rel (steady_vfs tx)) any (tryS (on_db (instruction_counter sq)) (check_at sq))"
    by (intro works_seq pre_env_rel pre_steady works_on_db works_counter(1) [OF assms] a)
  then show ?thesis by (auto simp: works_def check_def env_rel_def preD(1) [OF pre_steady])
qed

lemma works_ucheck: "statement_client sq tx c wc ws \<Longrightarrow> works (env_rel (steady_vfs tx)) any (ucheck sq)"
  unfolding ucheck_def by (intro works_classified works_check)

lemma works_bind_checked:
  assumes "statement_client sq tx c wc ws" "ws (st_raw st)"
  shows "works (env_rel (steady_vfs tx)) any (bind_checked sq st i vs)"
  by (induction vs arbitrary: i)
    (auto intro!: works_seq works_catchS [where P = any] works_pure works_check [OF assms(1)] works_on_db works_bind_to [OF assms])

lemma works_bind_statement:
  assumes "statement_client sq tx c wc ws" "ws (st_raw st)"
  shows "works (env_rel (serving c b g l w0)) (\<lambda>rows. rw_statement rows = st) (bind_statement sq budget vs st)"
  unfolding bind_statement_def query_with_bind_check_def
  by (intro works_branches works_seq works_on_db works_reset [OF assms] works_query [OF assms] works_pure pre_env_rel pre_serving
      works_env_steady [OF works_bind_checked [OF assms]]) (simp add: rows_new_def)

lemma works_observer_enter:
  assumes "statement_client sq tx c wc ws"
  shows "works (env_rel (steady_vfs tx)) any (observer_enter sq conn budget)"
proof -
  have m: "works (env_rel (steady_vfs tx)) any (modifyS (\<lambda>e. if b then e\<lparr>be_progress := Some conn\<rparr> else e))" for b conn
    by (auto simp: works_def modifyS_def env_rel_def steady_vfs_def)
  have "works (env_rel (steady_vfs tx)) any (tryS (on_db (set_query_observer conn True)) (\<lambda>_.
       tryS (on_db (install_observer sq conn budget (p, q))) (\<lambda>guard.
       tryS (modifyS (\<lambda>e. if og_progress_installed guard then e\<lparr>be_progress := Some conn\<rparr> else e)) (\<lambda>_. retS guard))))" for p q
    by (intro works_seq works_on_db works_set_observer works_observer(1) [OF assms] m works_pure pre_env_rel pre_steady TrueI)
  then show ?thesis by (auto simp: works_def observer_enter_def env_rel_def preD(1) [OF pre_steady])
qed

end
