(* ===== verification/Update_Props.thy ===== *)
theory Update_Props
  imports Update_Frames
begin

text \<open>
  An update with a budget is atomic, keeps to its budget and returns.
\<close>

section \<open>The statement\<close>

lemma ucheck_rank:
  assumes re: "rows_end sq ws rank" and run: "ucheck sq e = (r, e')"
  shows "rank (sqlite_state (be_db e')) \<le> rank (sqlite_state (be_db e))"
proof (cases "be_limit e")
  case None
  then show ?thesis using run by (simp add: ucheck_def classified_def check_def)
next
  case (Some limit)
  obtain n q w where f: "performance_counter sq (sqlite_state (be_db e), db_vfs (be_db e)) = (n, (q, w))" by (metis surj_pair)
  then have "rank q \<le> rank (sqlite_state (be_db e))" using re unfolding rows_end_def by blast
  then show ?thesis
    using run f Some by (auto simp: ucheck_def classified_def check_def on_db_def instruction_counter_def sqlite_call_def check_at_def Let_def
        split: prod.splits outcome.splits if_splits)
qed

text \<open>Draining the rows comes to an end.\<close>

lemma drain_rows_ends:
  assumes sq: "statement_client sq tx c wc ws" and re: "rows_end sq ws rank" and ws: "ws (st_raw (rw_statement rows))"
  shows "\<exists>r rows' e'. drain_rows sq rows e = Some (r, rows', e') \<and> env_rel (serving c b g l w0) e e' \<and> r \<noteq> Panic \<and>
    rw_statement rows' = rw_statement rows"
  using ws
proof (induction "rank (sqlite_state (be_db e))" arbitrary: rows e rule: less_induct)
  case less
  let ?R = "env_rel (serving c b g l w0)"
  note p = pre_env_rel [OF pre_serving, of c b g l w0]
  have ck: "?R e e'" "r \<noteq> Panic" if "ucheck sq e = (r, e')" for e e' and r :: "(unit, update_error) outcome"
    using worksD(1,2) [OF works_env_steady [OF works_ucheck [OF sq]] that] by blast+
  obtain r1 e1 where 1: "ucheck sq e = (r1, e1)" by (cases "ucheck sq e")
  note k1 = ck [OF 1]
  show ?case
  proof (cases r1)
    case (Err x)
    then show ?thesis using 1 k1(1) by (simp add: drain_rows.simps)
  next
    case (Ok x)
    obtain r2 rows2 s2 where 2: "next_row sq (rows, be_db e1) = (r2, (rows2, s2))" by (metis prod.exhaust)
    note k2 = next_row_serves [OF sq less.prems 2]
    obtain r3 e3 where 3: "ucheck sq (e1\<lparr>be_db := s2\<rparr>) = (r3, e3)" by (cases "ucheck sq (e1\<lparr>be_db := s2\<rparr>)")
    note k3 = ck [OF 3]
    have "?R e1 (e1\<lparr>be_db := s2\<rparr>)" using k2(1) [of b g l w0] by (simp add: env_rel_def)
    then have r03: "?R e e3" using preD(2) [OF p k1(1) preD(2) [OF p _ k3(1)]] by blast
    show ?thesis
    proof (cases r3)
      case (Err y)
      then show ?thesis using 1 2 3 \<open>r1 = Ok x\<close> r03 k2(2) by (simp add: drain_rows.simps [of sq rows e])
    next
      case (Ok y)
      show ?thesis
      proof (cases "\<exists>raw. r2 = Ok (Some raw)")
        case True
        then obtain raw where raw: "r2 = Ok (Some raw)" by blast
        have "rank (sqlite_state (be_db e3)) < rank (sqlite_state (be_db e))"
          using ucheck_rank [OF re 1] k2(4) [OF re raw] ucheck_rank [OF re 3] by simp
        from less.hyps [OF this, of rows2] obtain r rows' e' where
          "drain_rows sq rows2 e3 = Some (r, rows', e')" "?R e3 e'" "r \<noteq> Panic" "rw_statement rows' = rw_statement rows2"
          using k2(2) less.prems by auto
        then show ?thesis
          using 1 2 3 \<open>r1 = Ok x\<close> Ok raw k2(2) preD(2) [OF p r03] by (simp add: drain_rows.simps [of sq rows e])
      next
        case False
        then show ?thesis using 1 2 3 \<open>r1 = Ok x\<close> Ok r03 k2(2,3)
          by (cases r2) (auto simp: drain_rows.simps [of sq rows e] split: option.splits)
      qed
    qed (use k3(2) in simp)
  qed (use k1(2) in simp)
qed

lemma works_drain:
  assumes sq: "statement_client sq tx c wc ws" and re: "rows_end sq ws rank" and ws: "ws (st_raw (rw_statement rows))"
  shows "works (env_rel (serving c b g l w0)) any (drain_measured sq rows)"
proof -
  let ?R = "env_rel (serving c b g l w0)"
  note p = pre_env_rel [OF pre_serving, of c b g l w0]
  let ?rest = "\<lambda>before r rows. tryS (udb (delta sq before)) (\<lambda>d. tryS (umetric (\<lambda>m. m\<lparr>um_execute_instructions := d\<rparr>)) (\<lambda>_.
         dropping (\<lambda>s. (Ok (), drop_rows sq (rows, s))) (resume r)))"
  have rest: "works ?R any (?rest before r rows')" if "r \<noteq> Panic" "rw_statement rows' = rw_statement rows"
    for before rows' and r :: "(unit, update_error) outcome"
  proof -
    have "ws (st_raw (rw_statement rows'))" using ws that(2) by simp
    from drop_rows_steady [OF sq this] have "works (steady_vfs tx) any (\<lambda>s. (Ok (), drop_rows sq (rows', s)) :: (unit, db_error) outcome \<times> _)"
      by (auto simp: works_def)
    then show ?thesis
      by (intro works_seq works_umetric works_env_steady [OF works_udb [OF works_counter(2) [OF sq]]] works_dropping works_pure(5)
          works_steady p pre_serving) (use that(1) in simp_all)
  qed
  have "works ?R any (\<lambda>e. case drain_rows sq rows e of None \<Rightarrow> (Panic, e) | Some (r, rows, e) \<Rightarrow> ?rest before r rows e)" for before
  proof (rule worksI)
    fix e r e'
    assume run: "(case drain_rows sq rows e of None \<Rightarrow> (Panic, e) | Some (r, rows, e) \<Rightarrow> ?rest before r rows e) = (r, e')"
    obtain r1 rows1 e1 where d: "drain_rows sq rows e = Some (r1, rows1, e1)" "?R e e1" "r1 \<noteq> Panic" "rw_statement rows1 = rw_statement rows"
      using drain_rows_ends [OF sq re ws] by blast
    then have "?rest before r1 rows1 e1 = (r, e')" using run by simp
    from worksD [OF rest [OF d(3,4)] this] show "?R e e' \<and> r \<noteq> Panic \<and> (\<forall>x. r = Ok x \<longrightarrow> any x)"
      using preD(2) [OF p d(2)] by blast
  qed
  then show ?thesis
    unfolding drain_measured_def by (intro works_seq p works_env_steady [OF works_udb [OF works_counter(1) [OF sq]]])
qed

lemma works_execution:
  assumes sq: "statement_client sq tx c wc ws" and re: "rows_end sq ws rank" and ws: "ws (st_raw st)"
  shows "works (env_rel (serving c b g l w0)) any (update_execution sq budget vs st)"
proof -
  let ?R = "env_rel (serving c b g l w0)"
  have last: "works ?R any (tryS (resume bound) (drain_measured sq))"
    if "bound \<noteq> Panic" "\<And>rows. bound = Ok rows \<Longrightarrow> rw_statement rows = st" for bound :: "(_, update_error) outcome"
    by (rule works_tryS [where P = "\<lambda>rows. rw_statement rows = st"])
      (use that works_drain [OF sq re] ws in \<open>auto intro!: works_pure(5)\<close>)
  show ?thesis
    unfolding update_execution_def
    by (intro works_seq works_let_run [where P = "\<lambda>rows. rw_statement rows = st"] works_classified [OF works_bind_statement [OF sq ws]]
        works_env_steady [OF works_udb [OF works_counter(1) [OF sq]]] works_env_steady [OF works_udb [OF works_counter(2) [OF sq]]]
        works_env_steady [OF works_ucheck [OF sq]] works_umetric pre_env_rel pre_serving last)
qed

lemma works_prepared:
  assumes sq: "statement_client sq tx c wc ws" and re: "rows_end sq ws rank" and ws: "ws (st_raw st)"
  shows "works (env_rel (serving c b g l w0)) any (update_prepared sq budget vs st)"
  unfolding update_prepared_def is_read_only_def
  by (intro works_seq works_branches works_let_run [OF _ works_execution [OF sq re ws]] works_pure works_sqlite_get
      works_env_steady [where tx = tx, OF works_udb] works_metrics_read [OF sq ws] works_env_steady [OF works_ucheck [OF sq]]
      works_umetric pre_env_rel pre_serving pre_steady) auto

lemma works_statement:
  assumes sq: "statement_client sq tx c wc ws" and re: "rows_end sq ws rank" and conn: "wc conn"
  shows "works (env_rel (serving c b g l w0)) any (update_statement sq budget sql vs conn)"
proof -
  let ?R = "env_rel (serving c b g l w0)"
  have ch: "works (steady_vfs tx) any (changes sq conn)" unfolding changes_def by (intro works_sqlite_get pre_steady TrueI)
  have last: "works ?R any (case prepared of
         Ok st \<Rightarrow> tryS (dropping (drop_statement sq st) (update_prepared sq budget vs st)) (\<lambda>_.
           tryS (udb (sqlite_get (schema_changed sq conn))) (\<lambda>schema_change.
           if schema_change then retS 0 else udb (changes sq conn)))
       | Err error \<Rightarrow> tryS (ucheck sq) (\<lambda>_. errS error) | Panic \<Rightarrow> panicS)"
    if "prepared \<noteq> Panic" "\<And>st. prepared = Ok st \<Longrightarrow> ws (st_raw st)" for prepared
  proof (cases prepared)
    case (Ok st)
    then show ?thesis
      using that(2) [OF Ok]
      by (simp, intro works_seq works_branches works_dropping works_prepared [OF sq re] works_drop_statement [OF sq] works_pure
          works_env_steady [where tx = tx, OF works_udb] works_sqlite_get ch pre_env_rel pre_serving pre_steady) auto
  next
    case (Err error)
    then show ?thesis
      by (simp, intro works_seq works_pure works_env_steady [OF works_ucheck [OF sq]] pre_env_rel pre_serving)
  qed (use that in simp)
  show ?thesis
    unfolding update_statement_def
    by (intro last works_seq works_dropping works_branches works_let_run [OF _ works_udb [OF works_prepare [OF sq conn]]] works_pure
        works_env_steady [where tx = tx, OF works_udb] works_authorizer [OF sq] works_steady [OF works_authorizer(2) [OF sq]] works_counter [OF sq]
        works_umetric pre_env_rel pre_serving)
qed

section \<open>The statement and the COMMIT of SQLite\<close>

text \<open>What holds when a computation returns a value.\<close>

definition ends :: "('a \<Rightarrow> 'w \<Rightarrow> bool) \<Rightarrow> ('w, 'a, 'e) stm \<Rightarrow> bool" where
  "ends Q m \<longleftrightarrow> (\<forall>w x w'. m w = (Ok x, w') \<longrightarrow> Q x w')"

lemma ends_tryS: "(\<And>x. ends Q (k x)) \<Longrightarrow> ends Q (tryS m k)"
  by (auto simp: ends_def tryS_def split: prod.splits outcome.splits)

lemma ends_let_run: "(\<And>r. ends Q (k r)) \<Longrightarrow> ends Q (\<lambda>w. let (r, w) = m w in k r w)"
  by (auto simp: ends_def split: prod.splits)

lemma ends_dropping:
  assumes "ends Q m" "\<And>x e. Q x e \<Longrightarrow> Q x (e\<lparr>be_db := ignoring d (be_db e)\<rparr>)"
  shows "ends Q (dropping d m)"
  using assms by (auto simp: ends_def dropping_def split: prod.splits)

definition unexceeded :: "('c \<Rightarrow> 'q \<Rightarrow> bool) \<Rightarrow> 'c \<Rightarrow> nat \<times> nat option \<times> write_stats \<Rightarrow> (db_handle, db_store, 'c, 'q) update_env \<Rightarrow> bool" where
  "unexceeded tx conn x e \<longleftrightarrow> ws_exceeded (overlay_write_stats (db_vfs (be_db e))) = None \<and> \<not> tx conn (sqlite_state (be_db e))"

lemma works_exec:
  assumes "vfs_client api c wc" "wc conn"
  shows "works (serving c b g l w0) any (execute_batch api conn sql)"
proof -
  have "client_call c any (sqlite3_exec api conn sql)"
    unfolding client_call_def using vfs_clientD(2) [OF assms(1) _ assms(2)] by blast
  then have "works (serving c b g l w0) any (execute_batch_cstr api conn sql)"
    unfolding execute_batch_cstr_def by (intro works_seq works_client) (auto intro!: works_branches works_pure)
  then show ?thesis unfolding execute_batch_def by (intro works_branches works_pure) auto
qed

lemma works_observed:
  assumes api: "vfs_client api c wc" and sq: "statement_client sq tx c wc ws" and re: "rows_end sq ws rank" and conn: "wc conn"
  shows "works (env_rel (serving c b g l w0)) any (update_observed api sq budget sql vs conn)"
  unfolding update_observed_def write_stats_of_def
  by (intro works_seq works_statement [OF sq re conn] works_env_steady [OF works_ucheck [OF sq]] works_env_steady [where tx = tx, OF works_udb]
      works_counter [OF sq] works_let_run [OF _ works_udb [OF works_exec [OF api conn]]] works_umetric works_branches works_pure
      pre_env_rel pre_serving) auto

text \<open>When it succeeds, no page was refused and the transaction of SQLite has ended.\<close>

lemma exec_commit_ok:
  assumes tr: "transactional api tx c wc" and conn: "wc conn" and run: "udb (execute_batch api conn COMMIT_SQL) e = (Ok x, e')"
  shows "\<not> tx conn (sqlite_state (be_db e'))"
proof -
  obtain rc m q w where f: "sqlite3_exec api conn COMMIT_SQL (sqlite_state (be_db e), db_vfs (be_db e)) = ((rc, m), (q, w))" by (metis surj_pair)
  have "rc = SQLITE_OK \<and> sqlite_state (be_db e') = q"
    using run f by (auto simp: udb_def classified_def on_db_def execute_batch_def execute_batch_cstr_def sqlite_call_def errS_def retS_def
        split: if_splits)
  then show ?thesis using f tr conn unfolding transactional_def by blast
qed

lemma observed_unexceeded:
  assumes tr: "transactional api tx c wc" and sq: "statement_client sq tx c wc ws" and conn: "wc conn"
  shows "ends (unexceeded tx conn) (update_observed api sq budget sql vs conn)"
proof -
  let ?tail = "\<lambda>n before committed. tryS (udb (delta sq before)) (\<lambda>d. tryS (umetric (\<lambda>m. m\<lparr>um_commit_instructions := d\<rparr>)) (\<lambda>_.
       tryS (ucheck sq) (\<lambda>_. tryS (resume committed) (\<lambda>_.
       tryS write_stats_of (\<lambda>stats. case ws_exceeded stats of
           Some bytes \<Rightarrow> errS (refused bytes) | None \<Rightarrow> retS (n, before, stats))))))"
  have last: "ends (\<lambda>x e. ws_exceeded (overlay_write_stats (db_vfs (be_db e))) = None \<and> committed = Ok ())
      (tryS (resume committed) (\<lambda>_. tryS write_stats_of (\<lambda>stats. case ws_exceeded stats of
           Some bytes \<Rightarrow> errS (refused bytes) | None \<Rightarrow> retS (n, before, stats))))" for committed n before
    by (cases committed) (auto simp: ends_def resume_def write_stats_of_def tryS_def getS_def errS_def retS_def split: option.splits)
  have st: "works (env_rel (steady_vfs tx)) any (?tail n before committed)" if "committed \<noteq> Panic" for n before committed
    unfolding write_stats_of_def
    by (intro works_seq works_ucheck [OF sq] works_udb works_counter [OF sq] works_umetric works_branches works_pure pre_env_rel pre_steady)
      (use that in auto)
  have "ends (unexceeded tx conn) (\<lambda>e. let (committed, e) = udb (execute_batch api conn COMMIT_SQL) e in ?tail n before committed e)" for n before
    unfolding ends_def
  proof (intro allI impI)
    fix e x e'
    assume run: "(let (committed, e) = udb (execute_batch api conn COMMIT_SQL) e in ?tail n before committed e) = (Ok x, e')"
    obtain committed e1 where 1: "udb (execute_batch api conn COMMIT_SQL) e = (committed, e1)" by fastforce
    have 2: "?tail n before committed e1 = (Ok x, e')" using run 1 by simp
    have "ends (\<lambda>x e. ws_exceeded (overlay_write_stats (db_vfs (be_db e))) = None \<and> committed = Ok ()) (?tail n before committed)"
      by (intro last ends_tryS)
    then have k: "ws_exceeded (overlay_write_stats (db_vfs (be_db e'))) = None" "committed = Ok ()" using 2 unfolding ends_def by blast+
    have "\<not> tx conn (sqlite_state (be_db e1))" by (rule exec_commit_ok [OF tr conn 1 [unfolded k(2)]])
    moreover have "env_rel (steady_vfs tx) e1 e'" using worksD(1) [OF st 2] k(2) by simp
    ultimately show "unexceeded tx conn x e'" using k(1) by (simp add: unexceeded_def env_rel_def steady_vfs_def)
  qed
  then show ?thesis unfolding update_observed_def by (intro ends_tryS)
qed

section \<open>Publishing\<close>

definition in_budget :: "context_id \<Rightarrow> superblock \<Rightarrow> (nat \<Rightarrow> byte) \<Rightarrow> (nat \<times> nat) option \<Rightarrow> (db_handle, db_store, 'z) vfs_world_scheme \<Rightarrow> afile \<Rightarrow> bool" where
  "in_budget c b g l w a \<longleftrightarrow> (\<exists>v ov. sdb.updating (at_context c w) v b ov \<and> db_byte v = g \<and> ov_content (img_byte b g) ov = a \<and>
     limits ov = l \<and> capped ov \<and> \<not> exceeded ov)"

text \<open>The work of a transaction up to the COMMIT of SQLite and the last look at the budget; what may make
  the update refuse to publish its work: the instructions spent, or the memory.\<close>

definition update_attempt :: "('c, 'q) vm_api \<Rightarrow> (db_handle, db_store, 'c, 'st, 'q, 'z) budget_api_scheme \<Rightarrow> query_budget \<Rightarrow>
    byte list \<Rightarrow> sql_value list \<Rightarrow> 'c \<Rightarrow> (db_handle, db_store, 'c, 'q, nat \<times> nat option \<times> write_stats) update_stm" where
  "update_attempt api sq budget sql vs conn = tryS (ucheck sq) (\<lambda>_. tryS (udb (execute_batch api conn BEGIN_SQL)) (\<lambda>_.
     tryS (classified (observer_enter sq conn budget)) (\<lambda>guard.
     dropping (observer_drop sq conn guard) (update_observed api sq budget sql vs conn))))"

definition refusal :: "(db_handle, db_store, 'c, 'st, 'q, 'z) budget_api_scheme \<Rightarrow> (db_handle, db_store, 'c, 'q) update_env \<Rightarrow>
    update_error \<Rightarrow> bool" where
  "refusal sq e x \<longleftrightarrow> fst (ucheck sq e) = Err x \<or>
     (\<exists>y. x = UpdateDatabase y \<and> fst (on_store (commit_update db_memory) (be_db (snd (ucheck sq e)))) = Err y)"

lemma transaction_attempt:
  "update_transaction api sq db_memory budget sql vs conn = tryS (update_attempt api sq budget sql vs conn)
     (\<lambda>(n, before, stats). tryS (update_publish sq db_memory before stats) (\<lambda>_. retS n))"
  by (simp add: update_transaction_def update_attempt_def tryS_assoc [abs_def])

text \<open>What an update with a budget has done when its transaction has ended; \<open>work\<close> is how its work went.\<close>

type_synonym ('c, 'q) update_work = "(nat \<times> nat option \<times> write_stats, update_error) outcome \<times> (db_handle, db_store, 'c, 'q) update_env"

definition settled :: "context_id \<Rightarrow> superblock \<Rightarrow> (nat \<Rightarrow> byte) \<Rightarrow> (nat \<times> nat) option \<Rightarrow> (db_handle, db_store) vfs_world \<Rightarrow>
    (db_handle, db_store, 'c, 'st, 'q, 'z) budget_api_scheme \<Rightarrow> ('c, 'q) update_work \<Rightarrow> (nat, update_error) outcome \<Rightarrow> ('c, 'q) vm_state \<Rightarrow> bool" where
  "settled c b g l w0 sq work r s \<longleftrightarrow> (case r of
      Ok n \<Rightarrow> (\<exists>before stats. fst work = Ok (n, before, stats)) \<and> client_run c w0 (db_vfs (be_db (snd work))) \<and>
        (\<exists>b' a. in_budget c b g l (db_vfs (be_db (snd work))) a \<and> published c b' a s)
    | Err x \<Rightarrow> published c b (db_size b, img_byte b g) s \<and> ((\<exists>y. fst work = Ok y) \<longrightarrow> refusal sq (snd work) x)
    | Panic \<Rightarrow> False)"

lemma settled_mono:
  assumes pub: "\<And>b' a. published c b' a s \<Longrightarrow> published c b' a s'" and p: "settled c b g l w0 sq work r s"
  shows "settled c b g l w0 sq work r s'"
proof (cases r)
  case (Ok x)
  then obtain b' a where "in_budget c b g l (db_vfs (be_db (snd work))) a" "published c b' a s"
    using p unfolding settled_def by auto
  then have "\<exists>b' a. in_budget c b g l (db_vfs (be_db (snd work))) a \<and> published c b' a s'" using pub by blast
  then show ?thesis using p Ok by (simp add: settled_def)
qed (use p pub in \<open>simp_all add: settled_def\<close>)

lemma published_vfs: "db_vfs s' = db_vfs s \<Longrightarrow> published c b a s' = published c b a s"
  by (simp add: published_def)

lemma progressing_published:
  assumes "progressing c b g l w0 s"
  shows "published c b (db_size b, img_byte b g) s"
proof -
  obtain v where "sdb.db_at (at_context c (db_vfs s)) v b" "db_byte v = g"
    using assms unfolding progressing_def bounded_def by blast
  then show ?thesis unfolding published_def by (intro exI [of _ v]) (simp add: sdb.file_of_def)
qed

text \<open>The commit of an update whose budget was not exceeded.\<close>

lemma progressing_commit:
  assumes p: "progressing c b g l w0 s" and n: "ws_exceeded (overlay_write_stats (db_vfs s)) = None"
    and run: "on_store (commit_update db_memory) s = (r, s')"
  shows "current_context (db_vfs s') = Some c \<and> write_connections s' = write_connections s \<and> active_overlay (db_vfs s') = None \<and>
    (r = Ok () \<and> (\<exists>b' a. in_budget c b g l (db_vfs s) a \<and> published c b' a s') \<or>
     (\<exists>x. r = Err x) \<and> published c b (db_size b, img_byte b g) s')"
proof -
  have cc: "current_context (db_vfs s) = Some c" using p by (simp add: progressing_def)
  obtain v ov where o: "db_byte v = g" "active_overlay (db_vfs s) = Some ov" "limits ov = l" "capped ov"
    "\<not> exceeded ov \<longrightarrow> sdb.updating (db_vfs s) v b ov"
    using p at_context_same [OF cc] unfolding progressing_def bounded_def by auto
  have ne: "\<not> exceeded ov" using n o(2) by (simp add: overlay_write_stats_def exceeded_def split: option.splits)
  then have u: "sdb.updating (db_vfs s) v b ov" using o(5) by blast
  have ib: "in_budget c b g l (db_vfs s) (ov_content (img_byte b g) ov)"
    unfolding in_budget_def using u o ne at_context_same [OF cc] by (intro exI [of _ v] exI [of _ ov]) simp
  obtain x w' where m: "commit_update db_memory (db_vfs s) = (x, w')" by fastforce
  have cc': "current_context w' = Some c" using frame_context(1) [OF within_run [OF iso.within_commit_update m]] cc by simp
  show ?thesis
  proof (cases rule: sdb.commit_update_cases [OF u])
    case (1 w1 v1 b1)
    then have e: "r = Ok ()" "s' = s\<lparr>db_vfs := w'\<rparr>" "w1 = w'" using run m by (simp_all add: on_store_def)
    have "published c b1 (ov_content (img_byte b g) ov) s'"
      unfolding published_def using 1 e o(1) at_context_same [OF cc'] by (intro exI [of _ v1]) simp
    then show ?thesis using ib 1(3) e cc' by (auto simp del: split_paired_Ex)
  next
    case (2 e w1 v1)
    then have e: "r = Err (Stable e)" "s' = s\<lparr>db_vfs := w'\<rparr>" "w1 = w'" using run m by (simp_all add: on_store_def)
    then show ?thesis
      using 2 o(1) cc' at_context_same [OF cc'] sdb.same_memD(3) [OF 2(3)]
      by (auto simp: published_def sdb.file_of_def simp del: split_paired_Ex)
  qed
qed

text \<open>A state in which the statement has run.  After an error the update is still running, or SQLite has no
  transaction any more.\<close>

definition closing :: "('c \<Rightarrow> 'q \<Rightarrow> bool) \<Rightarrow> 'c \<Rightarrow> context_id \<Rightarrow> superblock \<Rightarrow> (nat \<Rightarrow> byte) \<Rightarrow> (nat \<times> nat) option \<Rightarrow> (db_handle, db_store) vfs_world \<Rightarrow>
    (db_handle, db_store, 'c, 'st, 'q, 'z) budget_api_scheme \<Rightarrow> ('c, 'q) update_work \<Rightarrow> (nat, update_error) outcome \<Rightarrow>
    (db_handle, db_store, 'c, 'q) update_env \<Rightarrow> bool" where
  "closing tx conn c b g l w0 sq work r e \<longleftrightarrow> settled c b g l w0 sq work r (be_db e) \<and> current_context (db_vfs (be_db e)) = Some c \<and>
     (ue_published e \<longleftrightarrow> \<not> is_err r) \<and> (is_err r \<longrightarrow> progressing c b g l w0 (be_db e) \<or> \<not> tx conn (sqlite_state (be_db e))) \<and>
     ((\<exists>y. fst work = Ok y) \<longrightarrow> ws_exceeded (overlay_write_stats (db_vfs (be_db e))) = None)"

lemma closing_err:
  assumes "progressing c b g l w0 (be_db e)" "\<not> ue_published e"
    and "(\<exists>y. fst work = Ok y) \<Longrightarrow> refusal sq (snd work) x \<and> ws_exceeded (overlay_write_stats (db_vfs (be_db e))) = None"
  shows "closing tx conn c b g l w0 sq work (Err x) e"
  using assms progressing_published [OF assms(1)] by (simp add: closing_def settled_def is_err_def progressing_def)

lemma no_overlay_stats: "active_overlay w = None \<Longrightarrow> ws_exceeded (overlay_write_stats w) = None"
  by (simp add: overlay_write_stats_def write_stats_default_def)

lemma steady_progressing: "steady_vfs tx s s' \<Longrightarrow> progressing c b g l w0 s \<Longrightarrow> progressing c b g l w0 s'"
  by (simp add: steady_vfs_def progressing_def)

lemma publish_tail:
  assumes sq: "statement_client sq tx c wc ws"
  obtains n s where "tryS (modifyS (\<lambda>e. e\<lparr>ue_published := True\<rparr>)) (\<lambda>_.
     tryS (umetric (\<lambda>m. m\<lparr>committed_bytes := bytes\<rparr>)) (\<lambda>_.
     tryS (udb (delta sq before)) (\<lambda>d. umetric (\<lambda>m. m\<lparr>um_commit_instructions := d\<rparr>)))) e = (Ok (), n)"
    "ue_published n" "steady_vfs tx (be_db e) (be_db n)"
proof -
  obtain n q w where f: "performance_counter sq (sqlite_state (be_db e), db_vfs (be_db e)) = (n, (q, w))" by (metis surj_pair)
  have "w = db_vfs (be_db e)" "\<forall>conn. tx conn q = tx conn (sqlite_state (be_db e))"
    using statement_clientD(12) [OF sq] f unfolding quiet_def by blast+
  with f that show thesis
    by (auto simp: modifyS_def umetric_def udb_def classified_def on_db_def delta_def instruction_counter_def sqlite_call_def retS_def steady_vfs_def)
qed

lemma publish_closing:
  assumes sq: "statement_client sq tx c wc ws" and p: "progressing c b g l w0 (be_db e)" and np: "\<not> ue_published e"
    and nt: "\<not> tx conn (sqlite_state (be_db e))" and n: "ws_exceeded (overlay_write_stats (db_vfs (be_db e))) = None"
    and run: "tryS (update_publish sq db_memory before stats) (\<lambda>_. retS k) e = (r, e')"
  shows "closing tx conn c b g l w0 sq (Ok (k, before, stats), e) r e'"
proof -
  obtain r1 e1 where 1: "ucheck sq e = (r1, e1)" by (cases "ucheck sq e")
  have k1: "steady_vfs tx (be_db e) (be_db e1)" "ue_published e1 = ue_published e" "r1 \<noteq> Panic"
    using worksD [OF works_ucheck [OF sq] 1] by (simp_all add: env_rel_def)
  note p1 = steady_progressing [OF k1(1) p]
  have n1: "ws_exceeded (overlay_write_stats (db_vfs (be_db e1))) = None" using n k1(1) by (simp add: steady_vfs_def)
  show ?thesis
  proof (cases r1)
    case (Err x)
    then have "r = Err x" "e' = e1" using run 1 by (simp_all add: update_publish_def)
    moreover have "refusal sq e x" using 1 Err by (simp add: refusal_def)
    ultimately show ?thesis using closing_err [OF p1, of "(Ok (k, before, stats), e)"] k1(2) np n1 by simp
  next
    case (Ok x)
    let ?m = "\<lambda>m. m\<lparr>peak_dirty_pages := ws_dirty_pages stats, overlay_peak_bytes := ws_peak_bytes stats\<rparr>"
    let ?e2 = "e1\<lparr>ue_metrics := ?m (ue_metrics e1)\<rparr>"
    obtain r3 s3 where 3: "on_store (commit_update db_memory) (be_db e1) = (r3, s3)" by fastforce
    note k3 = progressing_commit [OF p1 n1 3]
    have s3: "sqlite_state s3 = sqlite_state (be_db e1)" using 3 by (auto simp: on_store_def split: prod.splits outcome.splits)
    have x3: "ws_exceeded (overlay_write_stats (db_vfs s3)) = None" using k3 no_overlay_stats by blast
    show ?thesis
    proof (cases r3)
      case (Err y)
      then have "r = Err (UpdateDatabase y)" "e' = ?e2\<lparr>be_db := s3\<rparr>"
        using run 1 3 \<open>r1 = Ok x\<close>
        by (simp_all add: update_publish_def getS_def umetric_def modifyS_def udb_def classified_def on_db_def)
      then show ?thesis
        using k3 Err k1(1,2) np nt s3 x3 1 3 by (simp add: closing_def settled_def is_err_def steady_vfs_def refusal_def)
    next
      case (Ok y)
      obtain e4 where 4: "tryS (modifyS (\<lambda>e. e\<lparr>ue_published := True\<rparr>)) (\<lambda>_.
         tryS (umetric (\<lambda>m. m\<lparr>committed_bytes := overlay_dirty_bytes e1\<rparr>)) (\<lambda>_.
         tryS (udb (delta sq before)) (\<lambda>d. umetric (\<lambda>m. m\<lparr>um_commit_instructions := d\<rparr>)))) (?e2\<lparr>be_db := s3\<rparr>) = (Ok (), e4)"
        "ue_published e4" "steady_vfs tx s3 (be_db e4)"
        using publish_tail [OF sq, of "overlay_dirty_bytes e1" before "?e2\<lparr>be_db := s3\<rparr>"] by auto
      then have "update_publish sq db_memory before stats e = (Ok (), e4)"
        using 1 3 \<open>r1 = Ok x\<close> Ok
        by (simp add: update_publish_def getS_def umetric_def modifyS_def udb_def classified_def on_db_def)
      then have e: "r = Ok k" "e' = e4" using run by (simp_all add: retS_def)
      have v: "db_vfs (be_db e4) = db_vfs s3" "db_vfs (be_db e1) = db_vfs (be_db e)" using 4(3) k1(1) by (simp_all add: steady_vfs_def)
      have "client_run c w0 (db_vfs (be_db e))" using p by (simp add: progressing_def)
      moreover obtain b' a where "in_budget c b g l (db_vfs (be_db e)) a" "published c b' a (be_db e4)"
        using k3 Ok v published_vfs [of "be_db e4" s3] by auto
      ultimately have "settled c b g l w0 sq (Ok (k, before, stats), e) r (be_db e4)"
        using e(1) by (auto simp: settled_def simp del: split_paired_Ex)
      then show ?thesis using k3 4 e x3 v by (simp add: closing_def is_err_def)
    qed (use k3 in simp)
  qed (use k1(3) in simp)
qed

section \<open>The transaction\<close>

lemma env_progressing:
  assumes "env_rel (serving c b g l w0) e e'" "progressing c b g l w0 (be_db e)"
  shows "progressing c b g l w0 (be_db e')" "ue_published e' = ue_published e"
  using assms by (simp_all add: env_rel_def serving_def)

lemma works_attempt:
  assumes "vfs_client api c wc" "statement_client sq tx c wc ws" "rows_end sq ws rank" "wc conn"
  shows "works (env_rel (serving c b g l w0)) any (update_attempt api sq budget sql vs conn)"
  unfolding update_attempt_def
  by (intro works_seq works_env_steady [OF works_ucheck [OF assms(2)]] works_udb works_exec [OF assms(1,4)]
      works_env_steady [OF works_classified [OF works_observer_enter [OF assms(2)]]] works_dropping works_observed [OF assms]
      works_steady [OF works_observer(2) [OF assms(2)]] pre_serving pre_env_rel)

lemma attempt_unexceeded:
  assumes tr: "transactional api tx c wc" and sq: "statement_client sq tx c wc ws" and conn: "wc conn"
  shows "ends (unexceeded tx conn) (update_attempt api sq budget sql vs conn)"
proof -
  have "ends (unexceeded tx conn) (dropping (observer_drop sq conn guard) (update_observed api sq budget sql vs conn))" for guard
  proof (rule ends_dropping [OF observed_unexceeded [OF tr sq conn]])
    fix x and e :: "(db_handle, db_store, 'a, 'b) update_env"
    have "steady_vfs tx (be_db e) (ignoring (observer_drop sq conn guard) (be_db e))"
      unfolding ignoring_def by (rule worksD(1) [OF works_observer(2) [OF sq] prod.collapse [symmetric]])
    then show "unexceeded tx conn x (e\<lparr>be_db := ignoring (observer_drop sq conn guard) (be_db e)\<rparr>)" if "unexceeded tx conn x e"
      using that by (auto simp: unexceeded_def steady_vfs_def)
  qed
  then show ?thesis unfolding update_attempt_def by (intro ends_tryS)
qed

lemma transaction_closing:
  assumes tr: "transactional api tx c wc" and api: "vfs_client api c wc" and sq: "statement_client sq tx c wc ws" and re: "rows_end sq ws rank"
    and conn: "wc conn" and p: "progressing c b g l w0 (be_db e)" "\<not> ue_published e"
    and run: "update_transaction api sq db_memory budget sql vs conn e = (r, e')"
  shows "closing tx conn c b g l w0 sq (update_attempt api sq budget sql vs conn e) r e'"
proof -
  obtain r1 e1 where 1: "update_attempt api sq budget sql vs conn e = (r1, e1)" by fastforce
  note w1 = works_attempt [OF api sq re conn, of b g l w0 budget sql vs]
  note k1 = env_progressing [OF worksD(1) [OF w1 1] p(1)]
  note run' = run [unfolded transaction_attempt]
  show ?thesis
  proof (cases r1)
    case (Ok x)
    obtain n before stats where x: "x = (n, before, stats)" by (metis prod.exhaust)
    have "unexceeded tx conn x e1"
      using attempt_unexceeded [OF tr sq conn, of budget sql vs] 1 Ok unfolding ends_def by blast
    moreover have "tryS (update_publish sq db_memory before stats) (\<lambda>_. retS n) e1 = (r, e')" using run' 1 Ok x by simp
    ultimately have "closing tx conn c b g l w0 sq (Ok (n, before, stats), e1) r e'"
      using publish_closing [OF sq k1(1)] k1(2) p(2) by (simp add: unexceeded_def)
    then show ?thesis using 1 Ok x by simp
  next
    case (Err x)
    then have "r = Err x" "e' = e1" using run' 1 by simp_all
    then show ?thesis using closing_err [OF k1(1), of "(Err x, e1)"] k1(2) p(2) 1 Err by simp
  qed (use worksD(2) [OF w1 1] in simp)
qed

lemma settled_closing:
  assumes m: "m e = (r, e1)" "closing tx conn c b g l w0 sq work r e1" and run: "update_settled m e = (r', e')"
  shows "closing tx conn c b g l w0 sq work r' e'"
proof -
  let ?stats = "overlay_write_stats (db_vfs (be_db e1))"
  have np: "r \<noteq> Panic" using m(2) by (auto simp: closing_def settled_def)
  have "be_db e' = be_db e1 \<and> ue_published e' = ue_published e1 \<and>
      r' = (case ws_exceeded ?stats of Some bytes \<Rightarrow> Err (refused bytes) | None \<Rightarrow> r)"
    using run m(1) np by (auto simp: update_settled_def write_stats_of_def getS_def umetric_def modifyS_def errS_def resume_def split: option.splits)
  moreover have "\<exists>y. fst work = Ok y" if "\<not> is_err r"
    using m(2) that np by (cases r) (auto simp: closing_def settled_def is_err_def)
  ultimately show ?thesis
    using m(2) by (cases r; cases "ws_exceeded ?stats") (auto simp: closing_def settled_def is_err_def)
qed

end
