(* ===== verification/Db_Queries.thy ===== *)
theory Db_Queries
  imports Db_Facade
begin

text \<open>
  How a query runs: on the connection of the table or on one that is opened, with the query counted while
  its closure runs.
\<close>

text \<open>The state of an operation with its context set.\<close>

abbreviation at_database :: "context_id \<Rightarrow> ('h, 's, 'c, 'q) db_state \<Rightarrow> ('h, 's, 'c, 'q) db_state" where
  "at_database c s \<equiv> s\<lparr>db_vfs := (db_vfs s)\<lparr>current_context := Some c\<rparr>\<rparr>"

text \<open>What opening a connection leaves alone: the table of running queries.\<close>

definition keeps_reads :: "('h, 's, 'c, 'q, 'a) db_stm \<Rightarrow> bool" where
  "keeps_reads m \<longleftrightarrow> (\<forall>s. active_reads (snd (m s)) = active_reads s \<and> fst (m s) \<noteq> Panic)"

lemma keeps_reads_intros:
  "keeps_reads (sqlite_call f)" "keeps_reads (retS x)" "keeps_reads (errS e)" "keeps_reads (set_query_observer raw b)"
  "(\<And>s. active_reads (h s) = active_reads s) \<Longrightarrow> keeps_reads (modifyS h)"
  "keeps_reads m \<Longrightarrow> (\<And>x. keeps_reads (k x)) \<Longrightarrow> keeps_reads (tryS m k)"
  "keeps_reads m \<Longrightarrow> (\<And>e. keeps_reads (h' e)) \<Longrightarrow> (\<And>x. keeps_reads (k x)) \<Longrightarrow> keeps_reads (catchS m h' k)"
  unfolding keeps_reads_def
  by (auto simp: set_query_observer_def modifyS_def sqlite_call_def tryS_def catchS_def retS_def errS_def
      split: prod.splits outcome.splits) (metis fst_conv snd_conv)+

lemma keeps_reads_open: "keeps_reads (open_read_only api)"
  unfolding open_read_only_def connection_open_def or_close_def close_connection_def apply_read_only_def execute_batch_cstr_def
  by (intro keeps_reads_intros) (auto intro!: keeps_reads_intros split: prod.splits option.splits)

text \<open>The connection of a query is the one in the table, or one that is opened; how a query ends after
  its closure has returned.\<close>

definition query_connection :: "('h, 's, 'c, 'q) sqlite_api \<Rightarrow> context_id \<Rightarrow> ('h, 's, 'c, 'q, 'c) db_stm" where
  "query_connection api c s = (case read_connections s c of Some conn \<Rightarrow> (Ok conn, s) | None \<Rightarrow> open_read_only api s)"

definition query_end :: "context_id \<Rightarrow> context_id option \<Rightarrow> ('t, db_error) outcome \<times> ('h, 's, 'c, 'q) db_state \<Rightarrow>
    ('t, db_error) outcome \<times> ('h, 's, 'c, 'q) db_state" where
  "query_end c previous x = (fst x, (snd x)\<lparr>active_reads := guard_drop c (active_reads (snd x)),
     db_vfs := (db_vfs (snd x))\<lparr>current_context := previous\<rparr>\<rparr>)"

lemma db_query_runs:
  assumes conn: "query_connection api c (at_database c s) = (rc, s0)"
  shows "case rc of
      Ok conn \<Rightarrow> \<exists>s1. active_reads s1 = guard_enter c (active_reads s) \<and>
        (\<forall>f :: _ \<Rightarrow> (_, _, _, _, 't) db_stm. db_query api c f s = query_end c (current_context (db_vfs s)) (f conn s1))
    | Err e \<Rightarrow> \<exists>s1. active_reads s1 = active_reads s \<and> (\<forall>f :: _ \<Rightarrow> (_, _, _, _, 't) db_stm. db_query api c f s = (Err e, s1))
    | Panic \<Rightarrow> False"
proof (cases "read_connections s c")
  case (Some conn)
  let ?s1 = "(at_database c s)\<lparr>active_reads := guard_enter c (active_reads s)\<rparr>"
  have "rc = Ok conn" using Some conn by (simp add: query_connection_def)
  moreover have "db_query api c f s = query_end c (current_context (db_vfs s)) (f conn ?s1)" for f :: "_ \<Rightarrow> (_, _, _, _, 't) db_stm"
    using Some by (simp add: db_query_def db_with_context_def with_read_connection_def query_end_def tryS_def 
        split: prod.splits)
  ultimately show ?thesis by (auto intro!: exI [of _ ?s1])
next
  case None
  then have o: "open_read_only api (at_database c s) = (rc, s0)" using conn by (simp add: query_connection_def)
  have k: "active_reads s0 = active_reads s" "rc \<noteq> Panic"
    using keeps_reads_open [of api, unfolded keeps_reads_def, rule_format, of "at_database c s"] o by simp_all
  show ?thesis
  proof (cases rc)
    case (Ok conn)
    let ?s1 = "s0\<lparr>read_connections := (read_connections s0)(c \<mapsto> conn), active_reads := guard_enter c (active_reads s)\<rparr>"
    have "db_query api c f s = query_end c (current_context (db_vfs s)) (f conn ?s1)" for f :: "_ \<Rightarrow> (_, _, _, _, 't) db_stm"
      using None o k(1) Ok by (simp add: db_query_def db_with_context_def with_read_connection_def query_end_def tryS_def 
          modifyS_def retS_def split: prod.splits)
    then show ?thesis using Ok by (auto intro!: exI [of _ ?s1])
  next
    case (Err e)
    let ?s1 = "s0\<lparr>db_vfs := (db_vfs s0)\<lparr>current_context := current_context (db_vfs s)\<rparr>\<rparr>"
    have "db_query api c f s = (Err e, ?s1)" for f :: "_ \<Rightarrow> (_, _, _, _, 't) db_stm"
      using None o Err by (simp add: db_query_def db_with_context_def with_read_connection_def tryS_def )
    then show ?thesis using Err k(1) by (auto intro!: exI [of _ ?s1])
  qed (use k(2) in simp)
qed

lemma db_query_outcomes:
  fixes f :: "_ \<Rightarrow> (_, _, _, _, 't) db_stm"
  obtains (closed) e s1 where "db_query api c f s = (Err e, s1)"
  | (ran) conn s1 where "db_query api c f s = query_end c (current_context (db_vfs s)) (f conn s1)"
proof -
  obtain rc s0 where rc: "query_connection api c (at_database c s) = (rc, s0)" by fastforce
  note q = db_query_runs [where 't = 't, OF rc]
  show thesis
  proof (cases rc)
    case (Ok conn)
    then obtain s1 where "db_query api c f s = query_end c (current_context (db_vfs s)) (f conn s1)" using q by auto
    then show thesis by (rule ran)
  next
    case (Err e)
    then obtain s1 where "db_query api c f s = (Err e, s1)" using q by auto
    then show thesis by (rule closed)
  qed (use q in simp)
qed

end
