(* ===== verification/Query_Props.thy ===== *)
theory Query_Props
  imports Stmt_Frames Db_Queries
begin

text \<open>
  Measured queries keep to their budget and leave the connection as they found it.
\<close>

section \<open>The loop over the rows\<close>

text \<open>One round: the loop ends, at most one row later, or goes on with one row more.\<close>

lemma scan_rows_round:
  assumes sq: "budget_within sq R conn" and f: "\<And>raw. within R (f raw)"
    and within_limits: "n \<le> max_rows budget" "bytes \<le> max_result_bytes budget"
  obtains (stop) r rows' n' bytes' e' where "scan_rows sq budget f rows out n bytes e = (r, rows', n', bytes', e')" "on_env R e e'"
      "rw_statement rows' = rw_statement rows" "n' \<le> max_rows budget" "bytes' \<le> max_result_bytes budget"
      "\<forall>xs. r = Ok xs \<longrightarrow> xs = out \<and> n' = n \<and> bytes' = bytes"
  | (more) rows' v b' e' where "scan_rows sq budget f rows out n bytes e = scan_rows sq budget f rows' (out @ [v]) (n + 1) b' e'"
      "on_env R e e'" "rw_statement rows' = rw_statement rows" "n < max_rows budget" "b' \<le> max_result_bytes budget"
      "\<exists>raw s s'. f raw s = (Ok v, s') \<and> b' = bytes + payload_bytes sq raw (sqlite_state s)"
proof -
  note p = budget_withinD(4) [OF sq] and ck = within_run [OF within_check [OF sq]]
  have tr: "on_env R a c" if "on_env R a b" "on_env R b c" for a b c
    using preD(2) [OF pre_on_env [OF p]] that by blast
  obtain r1 e1 where c1: "check sq e = (r1, e1)" by fastforce
  obtain stepped rows2 s2 where nx: "next_row sq (rows, be_db e1) = (stepped, (rows2, s2))" by (metis surj_pair)
  obtain r2 e2 where c2: "check sq (e1\<lparr>be_db := s2\<rparr>) = (r2, e2)" by fastforce
  note nr = next_row_within [OF budget_withinD(1) [OF sq] nx]
  have e1: "on_env R e e1" using ck c1 by blast
  have s2: "on_env R e (e1\<lparr>be_db := s2\<rparr>)" using e1 nr(1) preD(2) [OF p] by (auto simp: on_env_def)
  have e2: "on_env R e e2" using tr [OF s2] ck c2 by blast
  obtain r rows' n' bytes' e' where q: "scan_rows sq budget f rows out n bytes e = (r, rows', n', bytes', e')"
    by (metis surj_pair)
  note q' = q [unfolded scan_rows.simps [of sq budget f rows out n bytes e] c1 nx c2 prod.case Let_def]
  show thesis
  proof (cases "\<exists>raw. r1 = Ok () \<and> stepped = Ok (Some raw) \<and> r2 = Ok () \<and> n < max_rows budget \<and>
      payload_bytes sq raw (sqlite_state (be_db e2)) \<le> max_result_bytes budget - bytes")
    case True
    then obtain raw where raw: "r1 = Ok ()" "stepped = Ok (Some raw)" "r2 = Ok ()" "n < max_rows budget"
      "payload_bytes sq raw (sqlite_state (be_db e2)) \<le> max_result_bytes budget - bytes" by blast
    let ?b = "bytes + payload_bytes sq raw (sqlite_state (be_db e2))"
    obtain mapped s3 where m: "f raw (be_db e2) = (mapped, s3)" by fastforce
    obtain r3 e3 where c3: "check sq (e2\<lparr>be_db := s3\<rparr>) = (r3, e3)" by fastforce
    have s3: "on_env R e (e2\<lparr>be_db := s3\<rparr>)"
      using e2 within_run [OF f m] preD(2) [OF p] by (auto simp: on_env_def)
    have e3: "on_env R e e3" using tr [OF s3] ck c3 by blast
    have b: "?b \<le> max_result_bytes budget" using raw(5) within_limits by linarith
    show thesis
    proof (cases "\<exists>v. mapped = Ok v \<and> r3 = Ok ()")
      case True
      then obtain v where v: "mapped = Ok v" "r3 = Ok ()" by blast
      have "scan_rows sq budget f rows out n bytes e = scan_rows sq budget f rows2 (out @ [v]) (n + 1) ?b e3"
        unfolding scan_rows.simps [of sq budget f rows out n bytes e] using c1 nx c2 m c3 raw v by (simp add: Let_def)
      moreover have "\<exists>raw s s'. f raw s = (Ok v, s') \<and> ?b = bytes + payload_bytes sq raw (sqlite_state s)"
        using m v(1) by blast
      ultimately show thesis using more e3 nr(2) raw(4) b by blast
    next
      case False
      have "on_env R e e' \<and> rw_statement rows' = rw_statement rows \<and> n' \<le> max_rows budget \<and>
          bytes' \<le> max_result_bytes budget \<and> (\<forall>xs. r \<noteq> Ok xs)"
        using q' m c3 raw nr(2) b s3 e3 False by (cases mapped; cases r3) (auto simp: Let_def)
      then show thesis using stop [OF q] by blast
    qed
  next
    case False
    have "on_env R e e' \<and> rw_statement rows' = rw_statement rows \<and> n' \<le> max_rows budget \<and>
          bytes' \<le> max_result_bytes budget \<and> (\<forall>xs. r = Ok xs \<longrightarrow> xs = out \<and> n' = n \<and> bytes' = bytes)"
      using q' s2 e1 e2 False within_limits nr(2) by (auto split: outcome.splits option.splits if_splits)
    then show thesis using stop [OF q] by blast
  qed
qed

lemma scan_rows_ok:
  assumes sq: "budget_within sq R conn" and f: "\<And>raw. within R (f raw)"
    and run: "scan_rows sq budget f rows out n bytes e = (r, rows', n', bytes', e')"
    and n: "n \<le> max_rows budget" "bytes \<le> max_result_bytes budget" "length out = n"
  shows "on_env R e e' \<and> rw_statement rows' = rw_statement rows \<and> n' \<le> max_rows budget \<and>
    bytes' \<le> max_result_bytes budget \<and> (\<forall>xs. r = Ok xs \<longrightarrow> length xs = n')"
  using run n
proof (induction "max_rows budget - n" arbitrary: rows out n bytes e rule: less_induct)
  case less
  have tr: "on_env R a c" if "on_env R a b" "on_env R b c" for a b c
    using preD(2) [OF pre_on_env [OF budget_withinD(4) [OF sq]]] that by blast
  show ?case
  proof (cases rule: scan_rows_round [where f = f and rows = rows and out = out and e = e, OF sq f less.prems(2,3)])
    case (1 r0 rows0 n0 b0 e0)
    then show ?thesis using less.prems(1,4) by auto
  next
    case more: (2 rows1 v b1 e1)
    have "on_env R e1 e' \<and> rw_statement rows' = rw_statement rows1 \<and> n' \<le> max_rows budget \<and>
        bytes' \<le> max_result_bytes budget \<and> (\<forall>xs. r = Ok xs \<longrightarrow> length xs = n')"
      by (rule less.hyps [of "n + 1" rows1 "out @ [v]" b1 e1]) (use more less.prems in auto)
    then show ?thesis using tr more(2,3) by metis
  qed
qed

section \<open>The payload of a row\<close>

text \<open>What the values of a row take: eight bytes for a number, its length for a text or a blob.\<close>

definition value_bytes :: "c_int \<Rightarrow> int \<Rightarrow> nat" where
  "value_bytes code len = (if code = SQLITE_INTEGER \<or> code = SQLITE_FLOAT then 8
     else if code = SQLITE_TEXT \<or> code = SQLITE_BLOB then nat len else 0)"

definition row_bytes :: "('h, 's, 'c, 'st, 'q, 'z) stmt_api_scheme \<Rightarrow> 'st \<Rightarrow> 'q \<Rightarrow> nat" where
  "row_bytes sq st q = (\<Sum>i < nat (sqlite3_column_count sq st q).
     value_bytes (sqlite3_column_type sq st (int i) q) (sqlite3_column_bytes sq st (int i) q))"

lemma payload_is_row_bytes: "payload_bytes sq st q = min u64_max (row_bytes sq st q)"
proof -
  have v: "column_payload sq st q i = value_bytes (sqlite3_column_type sq st i q) (sqlite3_column_bytes sq st i q)" for i
    by (simp add: column_payload_def value_bytes_def Let_def max_def)
  have "fold (\<lambda>i total. saturating_add total (column_payload sq st q (int i))) [0..<n] 0 =
      min u64_max (\<Sum>i < n. value_bytes (sqlite3_column_type sq st (int i) q) (sqlite3_column_bytes sq st (int i) q))" for n
    by (induction n) (auto simp: v saturating_add_def)
  then show ?thesis by (simp add: payload_bytes_def row_bytes_def)
qed

text \<open>\<open>nb\<close> tells from a mapped value how many bytes of payload its row had.\<close>

definition sizes :: "('h, 's, 'c, 'st, 'q, 'z) stmt_api_scheme \<Rightarrow> ('st \<Rightarrow> ('h, 's, 'c, 'q, 't) db_stm) \<Rightarrow> ('t \<Rightarrow> nat) \<Rightarrow> bool" where
  "sizes sq f nb \<longleftrightarrow> (\<forall>raw s v s'. f raw s = (Ok v, s') \<longrightarrow> nb v = min u64_max (row_bytes sq raw (sqlite_state s)))"

lemma scan_rows_bytes:
  assumes sz: "sizes sq f nb" and run: "scan_rows sq budget f rows out n bytes e = (Ok xs, rows', n', bytes', e')"
    and n: "n \<le> max_rows budget" "bytes \<le> max_result_bytes budget" "sum_list (map nb out) = bytes"
  shows "sum_list (map nb xs) = bytes'"
  using run n
proof (induction "max_rows budget - n" arbitrary: rows out n bytes e rule: less_induct)
  case less
  have b: "budget_within sq (\<lambda>_ _. True) undefined" "\<And>raw. within (\<lambda>_ _. True) (f raw)"
    by (simp_all add: budget_within_def statements_within_def within_def pre_def reflp_def transp_def)
  show ?case
  proof (cases rule: scan_rows_round [where f = f and rows = rows and out = out and e = e, OF b less.prems(2,3)])
    case (1 r0 rows0 n0 b0 e0)
    then show ?thesis using less.prems(1,4) by auto
  next
    case more: (2 rows1 v b1 e1)
    have "b1 = bytes + nb v" using more(6) sz unfolding sizes_def payload_is_row_bytes by metis
    then show ?thesis
      by (intro less.hyps [of "n + 1" rows1 "out @ [v]" b1 e1]) (use more less.prems in auto)
  qed
qed

section \<open>The metrics\<close>

definition measured :: "query_budget \<Rightarrow> query_metrics \<Rightarrow> bool" where
  "measured budget m \<longleftrightarrow> result_rows m \<le> max_rows budget \<and> result_bytes m \<le> max_result_bytes budget"

definition same_counts :: "('h, 's, 'c, 'q) query_env \<Rightarrow> ('h, 's, 'c, 'q) query_env \<Rightarrow> bool" where
  "same_counts e e' \<longleftrightarrow> result_rows (be_metrics e') = result_rows (be_metrics e) \<and>
     result_bytes (be_metrics e') = result_bytes (be_metrics e)"

text \<open>The rows of a result and their payload are what the metrics count.\<close>

definition delivered :: "('t \<Rightarrow> nat) \<Rightarrow> 't list \<Rightarrow> query_metrics \<Rightarrow> bool" where
  "delivered nb xs m \<longleftrightarrow> length xs = result_rows m \<and> sum_list (map nb xs) = result_bytes m"

definition counts :: "query_budget \<Rightarrow> ('t \<Rightarrow> nat) \<Rightarrow> ('h, 's, 'c, 'q, 't list) query_stm \<Rightarrow> bool" where
  "counts budget nb m \<longleftrightarrow> (\<forall>e r e'. measured budget (be_metrics e) \<longrightarrow> m e = (r, e') \<longrightarrow> measured budget (be_metrics e') \<and>
     (\<forall>xs. r = Ok xs \<longrightarrow> delivered nb xs (be_metrics e')))"

lemma pre_same_counts [simp]: "pre same_counts"
  by (auto simp: pre_def reflp_def transp_def same_counts_def)

lemma same_counts_on_db: "within same_counts (on_db m)"
  by (auto simp: within_def same_counts_def on_db_def split: prod.splits outcome.splits)

lemma same_counts_metric:
  "within same_counts (metric (\<lambda>m. m\<lparr>qm_prepare_instructions := d\<rparr>))"
  "within same_counts (metric (\<lambda>m. m\<lparr>qm_bind_instructions := d\<rparr>))"
  "within same_counts (metric (\<lambda>m. m\<lparr>qm_execute_instructions := d\<rparr>))"
  "within same_counts (metric (\<lambda>m. m\<lparr>qm_statement := sm\<rparr>))"
  "within same_counts (metric (\<lambda>m. m\<lparr>qm_instructions := d\<rparr>))"
  "within same_counts (resume r)"
  by (simp_all add: within_def same_counts_def metric_def modifyS_def resume_def)

lemma same_counts_check: "within same_counts (check sq)"
proof -
  have "within same_counts (check_at sq now)" for now
    by (simp add: within_def same_counts_def check_at_def Let_def)
  then have "within same_counts (tryS (on_db (instruction_counter sq)) (check_at sq))"
    by (intro within_tryS pre_same_counts same_counts_on_db)
  then show ?thesis
    by (simp add: within_def check_def same_counts_def)
qed

lemma same_counts_bind: "within same_counts (bind_statement sq budget vs st)"
proof -
  have "within same_counts (bind_checked sq st i vs)" for i
    by (induction vs arbitrary: i)
      (auto intro!: within_tryS within_catchS within_pure(2-7) same_counts_on_db same_counts_check)
  then show ?thesis
    unfolding bind_statement_def query_with_bind_check_def
    by (intro within_tryS within_pure(2-7) within_branches(1) pre_same_counts same_counts_on_db)
qed

lemma same_counts_enter: "within same_counts (observer_enter sq conn budget)"
proof -
  have "within same_counts (tryS (on_db m) (\<lambda>_. tryS (on_db m') (\<lambda>guard.
       tryS (modifyS (\<lambda>e. if og_progress_installed guard then e\<lparr>be_progress := Some conn\<rparr> else e)) (\<lambda>_. retS guard))))"
    for m :: "('h, 's, 'c, 'q, unit) db_stm" and m'
    by (intro within_tryS within_pure(2) pre_same_counts same_counts_on_db within_modify) (simp add: same_counts_def)
  from this [THEN withinD] show ?thesis
    unfolding within_def observer_enter_def using preD(1) [OF pre_same_counts] by auto
qed

lemma counts_tryS:
  assumes "within same_counts m" "\<And>x. counts budget nb (k x)"
  shows "counts budget nb (tryS m k)"
  unfolding counts_def
proof (intro allI impI)
  fix e r e'
  assume e: "measured budget (be_metrics e)" and run: "tryS m k e = (r, e')"
  obtain r1 e1 where 1: "m e = (r1, e1)" by fastforce
  have "measured budget (be_metrics e1)" using within_run [OF assms(1) 1] e by (simp add: measured_def same_counts_def)
  then show "measured budget (be_metrics e') \<and> (\<forall>xs. r = Ok xs \<longrightarrow> delivered nb xs (be_metrics e'))"
    using run 1 assms(2) by (cases r1) (auto simp: counts_def)
qed

lemma countsD:
  assumes "counts budget nb m" "measured budget (be_metrics e)" "m e = (r, e')"
  shows "measured budget (be_metrics e')" "\<forall>xs. r = Ok xs \<longrightarrow> delivered nb xs (be_metrics e')"
  using assms unfolding counts_def by blast+

lemma counts_let_run:
  assumes "within same_counts m" "\<And>x. counts budget nb (k x)"
  shows "counts budget nb (\<lambda>e. let (r, e) = m e in k r e)"
  unfolding counts_def
proof (intro allI impI)
  fix e r e'
  assume e: "measured budget (be_metrics e)" and run: "(let (r, e) = m e in k r e) = (r, e')"
  obtain r1 e1 where 1: "m e = (r1, e1)" by fastforce
  have "measured budget (be_metrics e1)" using within_run [OF assms(1) 1] e by (simp add: measured_def same_counts_def)
  then show "measured budget (be_metrics e') \<and> (\<forall>xs. r = Ok xs \<longrightarrow> delivered nb xs (be_metrics e'))"
    using run 1 assms(2) [of r1] by (auto simp: counts_def)
qed

lemma counts_simple:
  "counts budget nb (errS err)" "counts budget nb panicS"
  "counts budget nb m \<Longrightarrow> counts budget nb (dropping d m)"
  "counts budget nb a \<Longrightarrow> counts budget nb b \<Longrightarrow> counts budget nb (if c then a else b)"
proof -
  show "counts budget nb (dropping d m)" if m: "counts budget nb m"
    unfolding counts_def
  proof (intro allI impI)
    fix e r e'
    assume "measured budget (be_metrics e)" "dropping d m e = (r, e')"
    moreover obtain r1 e1 where "m e = (r1, e1)" by fastforce
    ultimately show "measured budget (be_metrics e') \<and> (\<forall>xs. r = Ok xs \<longrightarrow> delivered nb xs (be_metrics e'))"
      using m by (auto simp: counts_def dropping_def)
  qed
  show "counts budget nb (errS err)" "counts budget nb panicS" by (auto simp: counts_def errS_def panicS_def)
  show "counts budget nb a \<Longrightarrow> counts budget nb b \<Longrightarrow> counts budget nb (if c then a else b)" by (cases c) simp_all
qed

text \<open>A result that is kept while steps are done that do not touch the counts.\<close>

lemma counts_keep:
  assumes m: "counts budget nb m" and k: "within same_counts k"
  shows "counts budget nb (\<lambda>e. let (r, e) = m e in tryS k (\<lambda>_. resume r) e)"
  unfolding counts_def
proof (intro allI impI)
  fix e r e'
  assume e: "measured budget (be_metrics e)" and run: "(let (r, e) = m e in tryS k (\<lambda>_. resume r) e) = (r, e')"
  obtain r1 e1 where 1: "m e = (r1, e1)" by fastforce
  obtain r2 e2 where 2: "k e1 = (r2, e2)" by fastforce
  have "measured budget (be_metrics e1) \<and> (\<forall>xs. r1 = Ok xs \<longrightarrow> delivered nb xs (be_metrics e1))"
    using m e 1 by (simp add: counts_def)
  then show "measured budget (be_metrics e') \<and> (\<forall>xs. r = Ok xs \<longrightarrow> delivered nb xs (be_metrics e'))"
    using run 1 2 within_run [OF k 2] by (cases r2) (auto simp: resume_def measured_def same_counts_def delivered_def)
qed

lemma budget_within_True: "budget_within sq (\<lambda>_ _. True) conn"
  by (simp add: budget_within_def statements_within_def within_def pre_def reflp_def transp_def)

lemma same_counts_dropping: "within same_counts m \<Longrightarrow> within same_counts (dropping d m)"
  by (simp add: within_def dropping_def same_counts_def split_beta)

lemma resume_last:
  assumes "tryS m (\<lambda>x. tryS (k x) (\<lambda>_. dropping d (resume r))) e = (r', e')"
  shows "r' = Ok xs \<Longrightarrow> r = Ok xs"
  using assms by (auto simp: tryS_def dropping_def resume_def split: prod.splits outcome.splits)

lemma counts_scan:
  assumes sz: "sizes sq f nb"
  shows "counts budget nb (scan_measured sq budget f rows)"
proof -
  have "counts budget nb (\<lambda>e. let (r, rows, n, bytes, e) = scan_rows sq budget f rows [] 0 0 e in
     tryS (metric (\<lambda>m. m\<lparr>result_rows := n, result_bytes := bytes\<rparr>)) (\<lambda>_.
     tryS (on_db (delta sq start)) (\<lambda>d. tryS (metric (\<lambda>m. m\<lparr>qm_execute_instructions := d\<rparr>)) (\<lambda>_.
     dropping (\<lambda>s. (Ok (), drop_rows sq (rows, s))) (resume r)))) e)" for start
    unfolding counts_def
  proof (intro allI impI)
    fix e r e'
    assume run: "(let (r, rows, n, bytes, e) = scan_rows sq budget f rows [] 0 0 e in
     tryS (metric (\<lambda>m. m\<lparr>result_rows := n, result_bytes := bytes\<rparr>)) (\<lambda>_.
     tryS (on_db (delta sq start)) (\<lambda>d. tryS (metric (\<lambda>m. m\<lparr>qm_execute_instructions := d\<rparr>)) (\<lambda>_.
     dropping (\<lambda>s. (Ok (), drop_rows sq (rows, s))) (resume r)))) e) = (r, e')"
    obtain r1 rows1 n b e1 where 1: "scan_rows sq budget f rows [] 0 0 e = (r1, rows1, n, b, e1)" by (metis surj_pair)
    let ?e = "e1\<lparr>be_metrics := (be_metrics e1)\<lparr>result_rows := n, result_bytes := b\<rparr>\<rparr>"
    let ?tail = "tryS (on_db (delta sq start)) (\<lambda>d. tryS (metric (\<lambda>m. m\<lparr>qm_execute_instructions := d\<rparr>)) (\<lambda>_.
     dropping (\<lambda>s. (Ok (), drop_rows sq (rows1, s))) (resume r1)))"
    have l: "?tail ?e = (r, e')" using run 1 by (simp add: metric_def)
    have "within same_counts ?tail"
      by (intro within_tryS pre_same_counts same_counts_on_db same_counts_metric same_counts_dropping)
    from within_run [OF this l] have "same_counts ?e e'" .
    moreover have "n \<le> max_rows budget \<and> b \<le> max_result_bytes budget \<and> (\<forall>xs. r1 = Ok xs \<longrightarrow> length xs = n \<and> sum_list (map nb xs) = b)"
      using scan_rows_ok [OF budget_within_True _ 1] scan_rows_bytes [OF sz, of budget rows "[]" 0 0 e _ rows1 n b e1] 1
      by (auto simp: within_def)
    ultimately show "measured budget (be_metrics e') \<and> (\<forall>xs. r = Ok xs \<longrightarrow> delivered nb xs (be_metrics e'))"
      using resume_last [OF l] by (auto simp: same_counts_def measured_def delivered_def)
  qed
  then show ?thesis
    unfolding scan_measured_def by (intro counts_tryS same_counts_on_db)
qed

lemma counts_prepared:
  assumes "sizes sq f nb"
  shows "counts budget nb (query_prepared sq budget vs f st)"
proof -
  have "counts budget nb (query_statement sq budget vs f st)"
    unfolding query_statement_def
    by (intro counts_tryS counts_let_run same_counts_on_db same_counts_bind same_counts_metric same_counts_check counts_scan [OF assms])
  then have "counts budget nb (\<lambda>e. let (r, e) = query_statement sq budget vs f st e in
       tryS (tryS (on_db (metrics_read sq (st_raw st) False)) (\<lambda>m. metric (\<lambda>qm. qm\<lparr>qm_statement := m\<rparr>))) (\<lambda>_. resume r) e)"
    by (rule counts_keep) (intro within_tryS pre_same_counts same_counts_on_db same_counts_metric)
  then show ?thesis
    unfolding query_prepared_def
    by (intro counts_tryS same_counts_check same_counts_on_db counts_simple) (simp add: tryS_assoc [abs_def])
qed

lemma counts_body:
  assumes "sizes sq f nb"
  shows "counts budget nb (query_body sq budget sql vs f conn)"
proof -
  have "counts budget nb (case prepared of
         Ok st \<Rightarrow> dropping (drop_statement sq st) (query_prepared sq budget vs f st)
       | Err error \<Rightarrow> tryS (check sq) (\<lambda>_. errS error)
       | Panic \<Rightarrow> panicS)" for prepared
    by (cases prepared) (simp_all add: counts_simple counts_prepared [OF assms] counts_tryS same_counts_check)
  then show ?thesis
    unfolding query_body_def
    by (intro counts_tryS counts_let_run counts_simple(1,3,4) same_counts_check same_counts_enter same_counts_on_db same_counts_metric)
qed

section \<open>The observer of a connection\<close>

text \<open>The flags of the connections and the limits SQLite has for them are the same.\<close>

definition same_observation :: "('c \<Rightarrow> c_int \<Rightarrow> 'q \<Rightarrow> c_int) \<Rightarrow> ('h, 's, 'c, 'q) db_state \<Rightarrow> ('h, 's, 'c, 'q) db_state \<Rightarrow> bool" where
  "same_observation lim s s' \<longleftrightarrow> query_observer_active s' = query_observer_active s \<and>
     (\<forall>conn what. lim conn what (sqlite_state s') = lim conn what (sqlite_state s))"

text \<open>\<open>sqlite3_limit\<close> as documented: it returns the limit it finds; a negative value changes nothing, any
  other value becomes the limit unless it is above the hard bound, which is taken then.  No other
  call changes a limit.\<close>

definition sqlite_limits :: "('h, 's, 'c, 'st, 'q, 'z) budget_api_scheme \<Rightarrow> ('c \<Rightarrow> c_int \<Rightarrow> 'q \<Rightarrow> c_int) \<Rightarrow> (c_int \<Rightarrow> c_int) \<Rightarrow> bool" where
  "sqlite_limits sq lim hard \<longleftrightarrow>
    (\<forall>conn. budget_within sq (same_observation lim) conn) \<and>
    (\<forall>conn n h. within (same_observation lim) (sqlite_call (sqlite3_progress_handler sq conn n h) :: (_, _, db_error) stm)) \<and>
    (\<forall>conn what q. 0 \<le> lim conn what q \<and> lim conn what q \<le> hard what) \<and>
    (\<forall>conn what v q w r q' w'. sqlite3_limit sq conn what v (q, w) = (r, (q', w')) \<longrightarrow> r = lim conn what q \<and>
       (\<forall>c k. lim c k q' = (if c = conn \<and> k = what \<and> 0 \<le> v then min v (hard k) else lim c k q)))"

lemma pre_same_observation [simp]: "pre (same_observation lim)"
  by (auto simp: pre_def reflp_def transp_def same_observation_def)

lemma limit_call:
  fixes sq :: "('h, 's, 'c, 'st, 'q, 'z) budget_api_scheme" and s :: "('h, 's, 'c, 'q) db_state"
  assumes "sqlite_limits sq lim hard"
  obtains s' where "(sqlite_call (sqlite3_limit sq conn what v) :: (_, _, db_error) stm) s = (Ok (lim conn what (sqlite_state s)), s')"
    "query_observer_active s' = query_observer_active s"
    "\<forall>c k. lim c k (sqlite_state s') = (if c = conn \<and> k = what \<and> 0 \<le> v then min v (hard k) else lim c k (sqlite_state s))"
proof -
  obtain r q' w' where f: "sqlite3_limit sq conn what v (sqlite_state s, db_vfs s) = (r, (q', w'))" by (metis surj_pair)
  have l: "r = lim conn what (sqlite_state s)"
    "\<forall>c k. lim c k q' = (if c = conn \<and> k = what \<and> 0 \<le> v then min v (hard k) else lim c k (sqlite_state s))"
    using assms f unfolding sqlite_limits_def by blast+
  show thesis by (rule that [of "s\<lparr>sqlite_state := q', db_vfs := w'\<rparr>"]) (use f l in \<open>simp_all add: sqlite_call_def\<close>)
qed

text \<open>What is different while an observer is installed: the limits of its connection.\<close>

definition other_limits :: "('c \<Rightarrow> c_int \<Rightarrow> 'q \<Rightarrow> c_int) \<Rightarrow> 'c \<Rightarrow> ('h, 's, 'c, 'q) db_state \<Rightarrow> ('h, 's, 'c, 'q) db_state \<Rightarrow> bool" where
  "other_limits lim conn s s' \<longleftrightarrow> query_observer_active s' = query_observer_active s \<and>
     (\<forall>c k. c \<noteq> conn \<or> k \<noteq> SQLITE_LIMIT_SQL_LENGTH \<and> k \<noteq> SQLITE_LIMIT_LENGTH \<longrightarrow>
        lim c k (sqlite_state s') = lim c k (sqlite_state s))"

lemma pre_other_limits [simp]: "pre (other_limits lim conn)"
  by (auto simp: pre_def reflp_def transp_def other_limits_def)

lemma same_other: "same_observation lim s s' \<Longrightarrow> other_limits lim conn s s'"
  by (simp add: same_observation_def other_limits_def)

lemma within_other_limit:
  assumes "sqlite_limits sq lim hard" "what = SQLITE_LIMIT_SQL_LENGTH \<or> what = SQLITE_LIMIT_LENGTH"
  shows "within (other_limits lim conn) (sqlite_call (sqlite3_limit sq conn what v) :: (_, _, db_error) stm)"
  unfolding within_def
proof
  fix s :: "('a, 'b, 'c, 'e) db_state"
  obtain s' where "(sqlite_call (sqlite3_limit sq conn what v) :: (_, _, db_error) stm) s = (Ok (lim conn what (sqlite_state s)), s')"
    "query_observer_active s' = query_observer_active s"
    "\<forall>c k. lim c k (sqlite_state s') = (if c = conn \<and> k = what \<and> 0 \<le> v then min v (hard k) else lim c k (sqlite_state s))"
    by (rule limit_call [OF assms(1)])
  then show "other_limits lim conn s (snd ((sqlite_call (sqlite3_limit sq conn what v) :: (_, _, db_error) stm) s))"
    using assms(2) by (auto simp: other_limits_def)
qed

lemma within_other_progress:
  assumes "sqlite_limits sq lim hard"
  shows "within (other_limits lim conn) (sqlite_call (sqlite3_progress_handler sq conn n h) :: (_, _, db_error) stm)"
proof -
  have "within (same_observation lim) (sqlite_call (sqlite3_progress_handler sq conn n h) :: (_, _, db_error) stm)"
    using assms unfolding sqlite_limits_def by blast
  then show ?thesis unfolding within_def by (simp add: same_other)
qed

lemma install_observer_ok:
  fixes sq :: "('h, 's, 'c, 'st, 'q, 'z) budget_api_scheme" and s :: "('h, 's, 'c, 'q) db_state"
  assumes sq: "sqlite_limits sq lim hard"
  obtains guard s' where "install_observer sq conn budget st s = (Ok guard, s')" "other_limits lim conn s s'"
    "og_sql_limit guard = lim conn SQLITE_LIMIT_SQL_LENGTH (sqlite_state s)"
    "og_value_limit guard = lim conn SQLITE_LIMIT_LENGTH (sqlite_state s)"
    "og_progress_installed guard = (max_instructions budget \<noteq> None)"
proof -
  let ?k = "\<lambda>a b. tryS (lower_limit sq conn SQLITE_LIMIT_SQL_LENGTH a (max_sql_bytes budget)) (\<lambda>_.
     tryS (lower_limit sq conn SQLITE_LIMIT_LENGTH b (max_value_bytes budget)) (\<lambda>_.
     tryS (if max_instructions budget = None then retS ()
       else sqlite_call (sqlite3_progress_handler sq conn (int (progress_interval budget)) (Some st))) (\<lambda>_.
     retS \<lparr>og_sql_limit = a, og_value_limit = b, og_progress_installed = (max_instructions budget \<noteq> None)\<rparr>)))"
  have w: "within (other_limits lim conn) (?k a b)" for a b
    unfolding lower_limit_def
    by (intro stmt_intros pre_other_limits within_other_limit [OF sq] within_other_progress [OF sq]) simp_all
  have ok: "\<exists>s'. ?k a b s = (Ok \<lparr>og_sql_limit = a, og_value_limit = b, og_progress_installed = (max_instructions budget \<noteq> None)\<rparr>, s')"
    for a b s
    by (auto simp: lower_limit_def tryS_def retS_def sqlite_call_def Let_def split: option.splits prod.splits)
  obtain s1 where 1: "(sqlite_call (sqlite3_limit sq conn SQLITE_LIMIT_SQL_LENGTH (- 1)) :: (_, _, db_error) stm) s =
      (Ok (lim conn SQLITE_LIMIT_SQL_LENGTH (sqlite_state s)), s1)" "query_observer_active s1 = query_observer_active s"
      "\<forall>c k. lim c k (sqlite_state s1) = (if c = conn \<and> k = SQLITE_LIMIT_SQL_LENGTH \<and> 0 \<le> (- 1 :: int) then min (- 1) (hard k) else lim c k (sqlite_state s))"
    by (rule limit_call [OF sq])
  obtain s2 where 2: "(sqlite_call (sqlite3_limit sq conn SQLITE_LIMIT_LENGTH (- 1)) :: (_, _, db_error) stm) s1 =
      (Ok (lim conn SQLITE_LIMIT_LENGTH (sqlite_state s1)), s2)" "query_observer_active s2 = query_observer_active s1"
      "\<forall>c k. lim c k (sqlite_state s2) = (if c = conn \<and> k = SQLITE_LIMIT_LENGTH \<and> 0 \<le> (- 1 :: int) then min (- 1) (hard k) else lim c k (sqlite_state s1))"
    by (rule limit_call [OF sq])
  obtain s3 where 3: "?k (lim conn SQLITE_LIMIT_SQL_LENGTH (sqlite_state s)) (lim conn SQLITE_LIMIT_LENGTH (sqlite_state s)) s2 =
      (Ok \<lparr>og_sql_limit = lim conn SQLITE_LIMIT_SQL_LENGTH (sqlite_state s), og_value_limit = lim conn SQLITE_LIMIT_LENGTH (sqlite_state s),
        og_progress_installed = (max_instructions budget \<noteq> None)\<rparr>, s3)" using ok by blast
  have "other_limits lim conn s s2" using 1(2,3) 2(2,3) by (simp add: other_limits_def)
  from preD(2) [OF pre_other_limits this within_run [OF w 3]] have "other_limits lim conn s s3" .
  moreover have "install_observer sq conn budget st s = (Ok \<lparr>og_sql_limit = lim conn SQLITE_LIMIT_SQL_LENGTH (sqlite_state s),
      og_value_limit = lim conn SQLITE_LIMIT_LENGTH (sqlite_state s), og_progress_installed = (max_instructions budget \<noteq> None)\<rparr>, s3)"
    using 1(1,3) 2(1) 3 by (simp add: install_observer_def)
  ultimately show thesis using that by fastforce
qed

lemma observer_drop_ok:
  fixes sq :: "('h, 's, 'c, 'st, 'q, 'z) budget_api_scheme" and s :: "('h, 's, 'c, 'q) db_state"
  assumes sq: "sqlite_limits sq lim hard"
    and g: "0 \<le> og_sql_limit guard" "og_sql_limit guard \<le> hard SQLITE_LIMIT_SQL_LENGTH"
      "0 \<le> og_value_limit guard" "og_value_limit guard \<le> hard SQLITE_LIMIT_LENGTH"
  shows "let s' = ignoring (observer_drop sq conn guard) s in
    query_observer_active s' = (query_observer_active s)(conn := False) \<and>
    (\<forall>c k. lim c k (sqlite_state s') = (if c = conn \<and> k = SQLITE_LIMIT_SQL_LENGTH then og_sql_limit guard
       else if c = conn \<and> k = SQLITE_LIMIT_LENGTH then og_value_limit guard else lim c k (sqlite_state s)))"
proof -
  let ?p = "if og_progress_installed guard then sqlite_call (sqlite3_progress_handler sq conn 0 None) else retS ()"
  obtain s1 where 1: "(?p :: (_, _, db_error) stm) s = (Ok (), s1)"
    by (cases "og_progress_installed guard") (fastforce simp: sqlite_call_def retS_def split: prod.splits)+
  have "within (same_observation lim) (?p :: (_, _, db_error) stm)"
    using sq by (auto simp: sqlite_limits_def intro: within_pure(2))
  from within_run [OF this 1] have o1: "same_observation lim s s1" .
  obtain s2 where 2: "(sqlite_call (sqlite3_limit sq conn SQLITE_LIMIT_SQL_LENGTH (og_sql_limit guard)) :: (_, _, db_error) stm) s1 =
      (Ok (lim conn SQLITE_LIMIT_SQL_LENGTH (sqlite_state s1)), s2)" "query_observer_active s2 = query_observer_active s1"
      "\<forall>c k. lim c k (sqlite_state s2) = (if c = conn \<and> k = SQLITE_LIMIT_SQL_LENGTH \<and> 0 \<le> og_sql_limit guard then min (og_sql_limit guard) (hard k) else lim c k (sqlite_state s1))"
    by (rule limit_call [OF sq])
  obtain s3 where 3: "(sqlite_call (sqlite3_limit sq conn SQLITE_LIMIT_LENGTH (og_value_limit guard)) :: (_, _, db_error) stm) s2 =
      (Ok (lim conn SQLITE_LIMIT_LENGTH (sqlite_state s2)), s3)" "query_observer_active s3 = query_observer_active s2"
      "\<forall>c k. lim c k (sqlite_state s3) = (if c = conn \<and> k = SQLITE_LIMIT_LENGTH \<and> 0 \<le> og_value_limit guard then min (og_value_limit guard) (hard k) else lim c k (sqlite_state s2))"
    by (rule limit_call [OF sq])
  have e: "ignoring (observer_drop sq conn guard) s = s3\<lparr>query_observer_active := (query_observer_active s3)(conn := False)\<rparr>"
    using 1 2(1) 3(1) by (simp add: ignoring_def observer_drop_def set_query_observer_def modifyS_def)
  show ?thesis
    using e o1 2(2,3) 3(2,3) g by (simp add: Let_def same_observation_def sqlite_codes)
qed

section \<open>The run\<close>

lemma within_scan:
  assumes sq: "budget_within sq R conn" and f: "\<And>raw. within R (f raw)"
  shows "within (on_env R) (scan_measured sq budget f rows)"
proof -
  note p = budget_withinD(4) [OF sq]
  have "within (on_env R) (\<lambda>e. let (r, rows, n, bytes, e) = scan_rows sq budget f rows [] 0 0 e in
     tryS (metric (\<lambda>m. m\<lparr>result_rows := n, result_bytes := bytes\<rparr>)) (\<lambda>_.
     tryS (on_db (delta sq start)) (\<lambda>d. tryS (metric (\<lambda>m. m\<lparr>qm_execute_instructions := d\<rparr>)) (\<lambda>_.
     dropping (\<lambda>s. (Ok (), drop_rows sq (rows, s))) (resume r)))) e)" for start
    unfolding within_def
  proof
    fix e :: "('a, 'b, 'c, 'e) query_env"
    obtain r1 rows1 n b e1 where 1: "scan_rows sq budget f rows [] 0 0 e = (r1, rows1, n, b, e1)" by (metis surj_pair)
    let ?tail = "tryS (metric (\<lambda>m. m\<lparr>result_rows := n, result_bytes := b\<rparr>)) (\<lambda>_.
     tryS (on_db (delta sq start)) (\<lambda>d. tryS (metric (\<lambda>m. m\<lparr>qm_execute_instructions := d\<rparr>)) (\<lambda>_.
     dropping (\<lambda>s. (Ok (), drop_rows sq (rows1, s))) (resume r1))))"
    have "within R (\<lambda>s. (Ok (), drop_rows sq (rows1, s)) :: (unit, db_error) outcome \<times> _)"
      unfolding within_def using drop_rows_within [OF budget_withinD(1) [OF sq]] by simp
    then have "within (on_env R) ?tail"
      by (intro env_intros within_dropping p within_counter(2) [OF sq])
    moreover have "on_env R e e1" using scan_rows_ok [OF sq f 1] by simp
    ultimately show "on_env R e (snd (let (r, rows, n, bytes, e) = scan_rows sq budget f rows [] 0 0 e in
     tryS (metric (\<lambda>m. m\<lparr>result_rows := n, result_bytes := bytes\<rparr>)) (\<lambda>_.
     tryS (on_db (delta sq start)) (\<lambda>d. tryS (metric (\<lambda>m. m\<lparr>qm_execute_instructions := d\<rparr>)) (\<lambda>_.
     dropping (\<lambda>s. (Ok (), drop_rows sq (rows, s))) (resume r)))) e))"
      using 1 preD(2) [OF pre_on_env [OF p]] by (auto simp: within_def)
  qed
  then show ?thesis
    unfolding scan_measured_def by (intro env_intros p within_counter(1) [OF sq])
qed

lemma within_query_prepared:
  assumes sq: "budget_within sq R conn" and f: "\<And>raw. within R (f raw)"
  shows "within (on_env R) (query_prepared sq budget vs f st)"
proof -
  note p = budget_withinD(4) [OF sq]
  have ro: "within R (is_read_only sq st)" unfolding is_read_only_def by (rule within_sqlite_get [OF p])
  show ?thesis
    unfolding query_prepared_def query_statement_def
    by (intro env_intros within_let_run p ro within_check [OF sq] within_counter [OF sq] within_bind_statement [OF sq]
        within_scan [OF sq f] within_metrics_read [OF sq])
qed

lemma observed_bracket:
  assumes sq: "sqlite_limits sq lim hard" and m: "within (on_env (same_observation lim)) m"
  shows "within (on_env (same_observation lim)) (tryS (observer_enter sq conn budget) (\<lambda>guard. dropping (observer_drop sq conn guard) m))"
  unfolding within_def
proof
  fix e
  let ?run = "tryS (observer_enter sq conn budget) (\<lambda>guard. dropping (observer_drop sq conn guard) m) e"
  show "on_env (same_observation lim) e (snd ?run)"
  proof (cases "query_observer_active (be_db e) conn")
    case True
    then show ?thesis by (simp add: observer_enter_def on_env_def preD)
  next
    case False
    let ?s = "be_db e" let ?active = "?s\<lparr>query_observer_active := (query_observer_active ?s)(conn := True)\<rparr>"
    obtain guard s1 where g: "install_observer sq conn budget (be_start e, be_limit e) ?active = (Ok guard, s1)" "other_limits lim conn ?active s1"
      "og_sql_limit guard = lim conn SQLITE_LIMIT_SQL_LENGTH (sqlite_state ?active)"
      "og_value_limit guard = lim conn SQLITE_LIMIT_LENGTH (sqlite_state ?active)"
      "og_progress_installed guard = (max_instructions budget \<noteq> None)"
      by (rule install_observer_ok [OF sq])
    obtain e1 where e1: "observer_enter sq conn budget e = (Ok guard, e1)" "be_db e1 = s1"
      using False g(1) by (simp add: observer_enter_def on_db_def set_query_observer_def modifyS_def tryS_def retS_def)
    obtain r e2 where m2: "m e1 = (r, e2)" by fastforce
    have o: "same_observation lim s1 (be_db e2)" using within_run [OF m m2] e1(2) by (simp add: on_env_def)
    have b: "0 \<le> lim c k q" "lim c k q \<le> hard k" for c k q using sq unfolding sqlite_limits_def by blast+
    have d: "be_db (snd ?run) = ignoring (observer_drop sq conn guard) (be_db e2)"
      using e1(1) m2 by (simp add: dropping_def)
    have f: "(query_observer_active ?s)(conn := False) = query_observer_active ?s" using False by (auto simp: fun_eq_iff)
    show ?thesis
      unfolding on_env_def same_observation_def d
      using observer_drop_ok [OF sq, of guard conn "be_db e2"] g(2-4) o b f
      by (auto simp: Let_def other_limits_def same_observation_def)
  qed
qed

lemma query_body_within:
  assumes sq: "sqlite_limits sq lim hard" and f: "\<And>raw. within (same_observation lim) (f raw)"
  shows "within (on_env (same_observation lim)) (query_body sq budget sql vs f conn)"
proof -
  have bw: "budget_within sq (same_observation lim) conn" using sq unfolding sqlite_limits_def by blast
  note p = budget_withinD(4) [OF bw]
  have c: "within (on_env (same_observation lim)) (case prepared of
         Ok st \<Rightarrow> dropping (drop_statement sq st) (query_prepared sq budget vs f st)
       | Err error \<Rightarrow> tryS (check sq) (\<lambda>_. errS error)
       | Panic \<Rightarrow> panicS)" for prepared
    by (cases prepared) (auto intro!: env_intros within_dropping p within_check [OF bw] within_query_prepared [OF bw f]
        within_drop_statement [OF budget_withinD(1) [OF bw]])
  show ?thesis
    unfolding query_body_def
    by (intro within_tryS [OF pre_on_env [OF p] within_check [OF bw]] observed_bracket [OF sq] env_intros within_let_run p c
        within_check [OF bw] within_counter [OF bw] within_prepare [OF budget_withinD(1) [OF bw]])
qed

text \<open>The last steps of a run, then its result.\<close>

definition finish_steps :: "('h, 's, 'c, 'st, 'q, 'z) budget_api_scheme \<Rightarrow> nat option \<Rightarrow> ('h, 's, 'c, 'q, unit) query_stm" where
  "finish_steps sq start = tryS (on_db (delta sq start)) (\<lambda>d. tryS (metric (\<lambda>m. m\<lparr>qm_instructions := d\<rparr>)) (\<lambda>_. check sq))"

lemma query_finish_steps:
  "query_finish sq start r e = (case tryS (finish_steps sq start) (\<lambda>_. resume r) e of
     (r', e') \<Rightarrow> (\<lparr>qr_result = r', qr_metrics = be_metrics e'\<rparr>, be_db e'))"
  by (simp add: query_finish_def finish_steps_def tryS_assoc [abs_def])

lemma query_finish_ok:
  assumes e: "measured budget (be_metrics e)" "\<forall>xs. r = Ok xs \<longrightarrow> delivered nb xs (be_metrics e)"
    and run: "query_finish sq start r e = (report, s')"
  shows "measured budget (qr_metrics report) \<and> (\<forall>xs. qr_result report = Ok xs \<longrightarrow> delivered nb xs (qr_metrics report))"
proof -
  obtain r1 e1 where 1: "finish_steps sq start e = (r1, e1)" by fastforce
  have "within same_counts (finish_steps sq start)"
    unfolding finish_steps_def
    by (intro within_tryS pre_same_counts same_counts_on_db same_counts_metric same_counts_check)
  from within_run [OF this 1] have c: "same_counts e e1" .
  show ?thesis
    using 1 c e run by (cases r1) (auto simp: query_finish_steps resume_def measured_def same_counts_def delivered_def)
qed

lemma query_finish_state:
  assumes sq: "budget_within sq R conn" and run: "query_finish sq start r e = (report, s')"
  shows "R (be_db e) s'"
proof -
  obtain r1 e1 where 1: "finish_steps sq start e = (r1, e1)" by fastforce
  have "within (on_env R) (finish_steps sq start)"
    unfolding finish_steps_def
    by (intro env_intros within_check [OF sq] within_counter [OF sq] budget_withinD(4) [OF sq])
  from within_run [OF this 1] have "R (be_db e) (be_db e1)" by (simp add: on_env_def)
  then show ?thesis using 1 run by (cases r1) (auto simp: query_finish_steps resume_def)
qed

lemma validate_state:
  assumes "budget_within sq R conn" "validate sq budget s = (r, s')"
  shows "R s s'"
proof -
  have "within R (validate sq budget)"
    unfolding validate_def by (intro stmt_intros within_counter [OF assms(1)] budget_withinD(4) [OF assms(1)])
  from within_run [OF this assms(2)] show ?thesis .
qed

lemma budget_within_reads: "budget_within sq (\<lambda>s s'. read_connections s' = read_connections s) conn"
  by (simp add: budget_within_def statements_within_def within_def pre_def reflp_def transp_def sqlite_call_def split_beta)

text \<open>A query on an open connection.\<close>

lemma db_query_open:
  assumes "read_connections s c = Some conn"
  obtains s1 s2 where "db_query api c f s = (fst (f conn s1), s2)" "sqlite_state s1 = sqlite_state s"
    "query_observer_active s1 = query_observer_active s" "sqlite_state s2 = sqlite_state (snd (f conn s1))"
    "query_observer_active s2 = query_observer_active (snd (f conn s1))"
proof -
  let ?s1 = "s\<lparr>db_vfs := (db_vfs s)\<lparr>current_context := Some c\<rparr>, active_reads := guard_enter c (active_reads s)\<rparr>"
  obtain r s' where f: "f conn ?s1 = (r, s')" by fastforce
  show thesis
    by (rule that [of ?s1 "snd (db_query api c f s)"])
      (use assms f in \<open>simp_all add: db_query_def db_with_context_def with_read_connection_def tryS_def Let_def\<close>)
qed

end
