(* ===== verification/Sample_Sqlite.thy ===== *)
theory Sample_Sqlite
  imports Query_Props Sample_Db
begin

text \<open>
  A small instance of the statement interface: every statement delivers rows of one integer column, the
  limits of the connection are kept, and so are the parameters bound without a copy.  It shows that the assumptions about SQLite hold
  of a concrete library.
\<close>

record mini =
  mini_rows :: nat
  mini_sql_limit :: int
  mini_value_limit :: int
  mini_borrowed :: "c_int set"

definition mini_hard :: "c_int \<Rightarrow> int" where
  "mini_hard what = (if what = SQLITE_LIMIT_SQL_LENGTH \<or> what = SQLITE_LIMIT_LENGTH then 1000000000 else 0)"

definition mini_clamp :: "int \<Rightarrow> int" where
  "mini_clamp i = max 0 (min i 1000000000)"

definition mini_lim :: "unit \<Rightarrow> c_int \<Rightarrow> mini \<Rightarrow> int" where
  "mini_lim conn what q = (if what = SQLITE_LIMIT_SQL_LENGTH then mini_clamp (mini_sql_limit q)
     else if what = SQLITE_LIMIT_LENGTH then mini_clamp (mini_value_limit q) else 0)"

definition mini_set_limit :: "c_int \<Rightarrow> int \<Rightarrow> mini \<Rightarrow> mini" where
  "mini_set_limit what v q = (if v < 0 then q else if what = SQLITE_LIMIT_SQL_LENGTH then q\<lparr>mini_sql_limit := v\<rparr>
     else if what = SQLITE_LIMIT_LENGTH then q\<lparr>mini_value_limit := v\<rparr> else q)"

definition mini_call :: "'r \<Rightarrow> (mini \<Rightarrow> mini) \<Rightarrow> mini \<times> 'w \<Rightarrow> 'r \<times> (mini \<times> 'w)" where
  "mini_call r f qw = (r, (f (fst qw), snd qw))"

definition mini_bind :: "c_int \<Rightarrow> destructor \<Rightarrow> mini \<Rightarrow> mini" where
  "mini_bind i d q = (if d = Static then q\<lparr>mini_borrowed := insert i (mini_borrowed q)\<rparr>
     else q\<lparr>mini_borrowed := mini_borrowed q - {i}\<rparr>)"

definition mini_api :: "(db_handle, db_store, unit, unit, mini) budget_api" where
  "mini_api = \<lparr>sqlite3_prepare_v2 = (\<lambda>_ _. mini_call (SQLITE_OK, Some (), None) id),
     sqlite3_stmt_finalize = (\<lambda>_. mini_call () id), sqlite3_reset = (\<lambda>_. mini_call SQLITE_OK id),
     sqlite3_clear_bindings = (\<lambda>_. mini_call SQLITE_OK (\<lambda>q. q\<lparr>mini_borrowed := {}\<rparr>)),
     sqlite3_step = (\<lambda>_ qw. if 0 < mini_rows (fst qw) then mini_call SQLITE_ROW (\<lambda>q. q\<lparr>mini_rows := mini_rows q - 1\<rparr>) qw
        else mini_call SQLITE_DONE id qw),
     sqlite3_bind_text = (\<lambda>_ i _ d. mini_call SQLITE_OK (mini_bind i d)), sqlite3_bind_blob = (\<lambda>_ i _ d. mini_call SQLITE_OK (mini_bind i d)),
     sqlite3_bind_int64 = (\<lambda>_ _ _. mini_call SQLITE_OK id), sqlite3_bind_double = (\<lambda>_ _ _. mini_call SQLITE_OK id),
     sqlite3_bind_null = (\<lambda>_ _. mini_call SQLITE_OK id), sqlite3_bind_parameter_count = (\<lambda>_ _. 0),
     sqlite3_bind_parameter_name = (\<lambda>_ _ _. None), sqlite3_bind_parameter_index = (\<lambda>_ _ _. 0),
     sqlite3_column_count = (\<lambda>_ _. 1), sqlite3_column_type = (\<lambda>_ _ _. SQLITE_INTEGER),
     sqlite3_column_text = (\<lambda>_ _ _. None), sqlite3_column_blob = (\<lambda>_ _ _. None), sqlite3_column_bytes = (\<lambda>_ _ _. 0),
     sqlite3_column_int64 = (\<lambda>_ _ q. int (mini_rows q)), sqlite3_column_double = (\<lambda>_ _ _. 0),
     sqlite3_stmt_readonly = (\<lambda>_ _. 1), sqlite3_errmsg = (\<lambda>_ _. None), sqlite3_changes64 = (\<lambda>_ _. 0),
     performance_counter = mini_call None id,
     sqlite3_limit = (\<lambda>conn what v qw. mini_call (mini_lim conn what (fst qw)) (mini_set_limit what v) qw),
     sqlite3_progress_handler = (\<lambda>_ _ _. mini_call () id), progress_exceeded = (\<lambda>_ _. False),
     sqlite3_stmt_status = (\<lambda>_ _ _. mini_call 0 id), sqlite3_set_authorizer = (\<lambda>_ _. mini_call SQLITE_OK id),
     schema_changed = (\<lambda>_ _. False)\<rparr>"

lemma mini_fields [simp]:
  "sqlite3_prepare_v2 mini_api a sql qw = ((SQLITE_OK, Some (), None), qw)"
  "sqlite3_stmt_finalize mini_api a qw = ((), qw)"
  "sqlite3_reset mini_api a qw = (SQLITE_OK, qw)"
  "sqlite3_clear_bindings mini_api a qw = (SQLITE_OK, ((fst qw)\<lparr>mini_borrowed := {}\<rparr>, snd qw))"
  "sqlite3_bind_text mini_api a i text d qw = (SQLITE_OK, (mini_bind i d (fst qw), snd qw))"
  "sqlite3_bind_blob mini_api a i bv d qw = (SQLITE_OK, (mini_bind i d (fst qw), snd qw))"
  "sqlite3_step mini_api a qw = (if 0 < mini_rows (fst qw) then (SQLITE_ROW, ((fst qw)\<lparr>mini_rows := mini_rows (fst qw) - 1\<rparr>, snd qw)) else (SQLITE_DONE, qw))"
  "performance_counter mini_api  qw = (None, qw)"
  "sqlite3_limit mini_api a k v qw = (mini_lim a k (fst qw), (mini_set_limit k v (fst qw), snd qw))"
  "sqlite3_progress_handler mini_api a n h qw = ((), qw)"
  "sqlite3_stmt_status mini_api a b c qw = (0, qw)"
  "sqlite3_set_authorizer mini_api a on qw = (SQLITE_OK, qw)"
  "sqlite3_bind_parameter_count mini_api a q = 0"
  "sqlite3_column_count mini_api a q = 1"
  "sqlite3_column_type mini_api a i q = SQLITE_INTEGER"
  "sqlite3_column_int64 mini_api a i q = int (mini_rows q)"
  "sqlite3_stmt_readonly mini_api a q = 1"
  "progress_exceeded mini_api a q = False"
  by (simp_all add: mini_api_def mini_call_def)

lemma mini_limits: "sqlite_limits mini_api mini_lim mini_hard"
proof -
  have "0 \<le> mini_lim conn what q \<and> mini_lim conn what q \<le> mini_hard what" for conn what q
    by (simp add: mini_lim_def mini_clamp_def mini_hard_def)
  moreover have "r = mini_lim conn what q \<and> (\<forall>c k. mini_lim c k q' =
      (if c = conn \<and> k = what \<and> 0 \<le> v then min v (mini_hard k) else mini_lim c k q))"
    if "sqlite3_limit mini_api conn what v (q, w) = (r, (q', w'))" for conn what v q w r q' w'
    using that
    by (auto simp: mini_api_def mini_call_def mini_lim_def mini_set_limit_def mini_clamp_def mini_hard_def sqlite_codes)
  ultimately show ?thesis
    by (simp add: sqlite_limits_def budget_within_def statements_within_def within_def same_observation_def sqlite_call_def
        mini_api_def mini_call_def mini_lim_def mini_bind_def)
qed


definition mini_state :: "(db_handle, db_store, unit, mini) db_state" where
  "mini_state = \<lparr>db_vfs = sample_world, read_connections = (\<lambda>_. Some ()), write_connections = Map.empty, active_reads = [],
     query_observer_active = (\<lambda>_. False), sqlite_state = \<lparr>mini_rows = 3, mini_sql_limit = 500, mini_value_limit = 700, mini_borrowed = {}\<rparr>\<rparr>"

definition mini_sqlite :: "(db_handle, db_store, unit, mini) sqlite_api" where
  "mini_sqlite = \<lparr>sqlite3_open_v2 = (\<lambda>_ _ _. mini_call (SQLITE_OK, Some (), None) id),
     sqlite3_exec = (\<lambda>_ _. mini_call (SQLITE_OK, None) id), sqlite3_close = (\<lambda>_. mini_call () id),
     sqlite3_vfs_register = mini_call SQLITE_OK id\<rparr>"

text \<open>A budget of two rows on a statement with three.\<close>

definition two_rows :: query_budget where
  "two_rows = default_budget\<lparr>max_rows := 2\<rparr>"

definition three_rows :: query_budget where
  "three_rows = default_budget\<lparr>max_rows := 3, max_result_bytes := 24\<rparr>"

lemmas mini_run_defs = query_run_def validate_def two_rows_def default_budget_def i32_max_def limit_ok_def instruction_counter_def
      sqlite_call_def mini_state_def db_query_def db_with_context_def with_read_connection_def
      query_body_def query_env_new_def check_def observer_enter_def set_query_observer_def install_observer_def lower_limit_def
      dropping_def too_long_def on_db_def prepare_statement_def stmt_of_raw_def sqlite_get_def tail_is_empty_def from_cached_raw_def usize_of_c_int_def delta_def metric_def
      query_prepared_def is_read_only_def query_statement_def bind_statement_def query_def reset_and_bind_def reset_def
      rows_new_def resume_def scan_measured_def scan_rows.simps next_row_def after_step_def step_def payload_bytes_def column_payload_def
      row_get_def check_index_def row_columns_def read_i64_def typed_column_def column_type_def c_int_try_from_def c_int_max_def require_type_def
      saturating_add_def u64_max_def sqlite_codes tryS_def retS_def errS_def getS_def modifyS_def ok_orS_def Let_def ignoring_def
      query_finish_def metrics_read_def status_counter_def drop_statement_def observer_drop_def drop_rows_def clear_static_bindings_def mini_set_limit_def
      mini_lim_def mini_clamp_def

lemma mini_run: "qr_result (fst (query_run mini_sqlite mini_api 1 [65] [] two_rows (\<lambda>raw. row_get mini_api (read_i64 mini_api) raw 0) mini_state)) =
    Err (BudgetExceeded Rows)"
  by (simp add: mini_run_defs)

lemma mini_run3: "qr_result (fst (query_run mini_sqlite mini_api 1 [65] [] three_rows (\<lambda>raw. row_get mini_api (read_i64 mini_api) raw 0) mini_state)) =
    Ok [2, 1, 0]"
  by (simp add: mini_run_defs three_rows_def)

end
