(* ===== verification/Update_Room.thy ===== *)
theory Update_Room
  imports Import_Room Vfs_Session_Props
begin

text \<open>
  When a commit cannot fail: with room for the dirty pages and extents within their limit, the overlay of
  an update is published.  The first update of the sample database is an example.
\<close>

section \<open>Commits with room\<close>

lemma required_end_fits:
  assumes "\<forall>(p, page) \<in> set ps. db_base_offset b + p * PS + PS \<le> m" "re \<le> m" "m \<le> u64_max"
  shows "\<exists>re'. required_end_loop b final ps re w = (Ok re', w) \<and> re' \<le> m"
  using assms
proof (induction ps arbitrary: re)
  case Nil
  then show ?case by (simp add: retS_def)
next
  case (Cons x rest)
  obtain p page where x: "x = (p, page)" by (cases x)
  have m: "db_base_offset b + p * PS + PS \<le> m" using Cons.prems(1) x by simp
  then have "page_physical_offset b p w = (Ok (db_base_offset b + p * PS), w)"
    using Cons.prems(3) by (simp add: page_physical_offset_cases)
  then show ?case
    using Cons.IH [of re] Cons.IH [of "max re (db_base_offset b + p * PS + PS)"] Cons.prems m x by (simp add: checked_addS_Some)
qed

context room_mem
begin

lemma commit_in_place_room:
  assumes ok: "holds w v b" "img_placed b (cap v)" "ov_inv (ov_size ov) (db_size b) (img_byte b (byte_of v)) ov"
    and es: "zero_extents_after_commit b ov (pc (ov_size ov)) = Inr es"
    and pages: "\<forall>(p, page) \<in> set (ov_pages ov). db_base_offset b + p * PS + PS \<le> n * STABLE_PAGE_SIZE"
    and size: "db_base_offset b + ov_size ov \<le> n * STABLE_PAGE_SIZE" and r: "room v n" "n * STABLE_PAGE_SIZE \<le> u64_max"
  shows "fst (commit_overlay_in_place V b ov adv w) = Ok ()"
proof -
  note w = holdsD(1,2) [OF ok(1)]
  obtain re where re: "required_end_loop b (pc (ov_size ov)) (ov_pages ov) (db_base_offset b + ov_size ov) w = (Ok re, w)"
    "re \<le> n * STABLE_PAGE_SIZE"
    using required_end_fits [OF pages size r(2), of "pc (ov_size ov)" w] by blast
  have lo: "db_base_offset b + ov_size ov \<le> re"
    "\<And>p page. (p, page) \<in> set (ov_pages ov) \<Longrightarrow> p < pc (ov_size ov) \<Longrightarrow> db_base_offset b + p * PS + PS \<le> re"
    by (cases rule: required_end_cases [of b "pc (ov_size ov)" "ov_pages ov" "db_base_offset b + ov_size ov" w]; use re(1) in simp)+
  obtain u where "ensure_memory_capacity V re v = (Ok (), u)" by (rule ensure_room [OF w(2) r(1) re(2)])
  then have c: "fst (ensure_capacity V re w) = Ok ()"
    using with_memory_run [OF w(1), of "ensure_memory_capacity V re"] by (simp add: ensure_capacity_def)
  show ?thesis
  proof (cases rule: ensure_capacity_cases [OF w, of re])
    case (1 v1)
    have fits: "\<forall>(p, page) \<in> set (ov_pages ov). db_base_offset b + p * PS + PS \<le> cap v1"
      using lo(2) 1(3) ov_invD(3) [OF ok(3)] ov_invD(4) [OF ok(3)] by (fastforce simp: dirty_page_def)
    have "db_base_offset b + ov_size ov \<le> u64_max" using size r(2) by linarith
    then have "commit_overlay_in_place V b ov adv w = tryS (write_pages_loop V b (pc (ov_size ov)) (ov_pages ov)) (\<lambda>_.
        or_panic (store_commit_db_image V adv (db_base_offset b) (ov_size ov) es)) (put_mem v1 w)"
      using es re(1) 1(1) by (simp add: commit_overlay_in_place_def Let_def checked_addS_Some)
    then show ?thesis
      using commit_write_ok [OF ok es 1(2) le_trans [OF lo(1) 1(3)] fits, of adv] by (metis fst_conv)
  qed (use c in simp)
qed

lemma commit_update_room:
  assumes u: "updating w v b ov" and es: "zero_extents_after_commit b ov (pc (ov_size ov)) = Inr es"
    and pages: "\<forall>(p, page) \<in> set (ov_pages ov). db_base_offset b + p * PS + PS \<le> n * STABLE_PAGE_SIZE"
    and size: "db_base_offset b + ov_size ov \<le> n * STABLE_PAGE_SIZE" and r: "room v n" "n * STABLE_PAGE_SIZE \<le> u64_max"
  shows "fst (commit_update V w) = Ok ()"
proof -
  have d: "db_at w v b" "active_overlay w = Some ov" and inv: "ov_inv (ov_size ov) (db_size b) (img_byte b (byte_of v)) ov"
    using u by (simp_all add: updating_def)
  obtain w1 where t: "overlay_take w = (Some ov, w1)" "db_at w1 v b" using overlay_take_ok [OF d] by blast
  obtain w2 v2 where l: "sb_load V w1 = (Ok b, w2)" "db_at w2 v2 b" "same_mem v v2" "touches w1 w2"
    using db_at_load [OF t(2)] by blast
  have h: "holds w2 v2 b" "img_placed b (cap v2)" "active_mem w1 = Some v" "inv v"
    using l(2) t(2) holdsD(1,2) [of w1 v b] by (simp_all add: db_at_def)
  have "room v2 n"
    using frame_room [OF rf.quiet_frame [OF within_run [OF rf.within_superblock(3) l(1)]] h(3,4) holdsD(1) [OF h(1)] r(1)] .
  moreover have "ov_inv (ov_size ov) (db_size b) (img_byte b (byte_of v2)) ov" using inv same_memD(3) [OF l(3)] by simp
  ultimately have "fst (commit_overlay V ov True w1) = Ok ()"
    using commit_in_place_room [OF h(1,2) _ es pages size _ r(2)] l(1) by (simp add: commit_overlay_def)
  then show ?thesis using t(1) by (simp add: commit_update_def)
qed

end

section \<open>The first update of the sample database\<close>

text \<open>The overlay with which the update begins, and the one after two bytes were written at the start of
  the empty database.  \<open>admits wb wb'\<close>: the budget takes a first page.\<close>

definition begun :: "write_budget option \<Rightarrow> overlay" where
  "begun wb = (overlay_new 0)\<lparr>ov_write_budget := wb\<rparr>"

definition admits :: "write_budget option \<Rightarrow> write_budget option \<Rightarrow> bool" where
  "admits wb wb' \<longleftrightarrow> (case wb of None \<Rightarrow> wb' = None
     | Some b \<Rightarrow> ws_exceeded (wb_stats b) = None \<and> 1 \<le> wb_max_pages b \<and> PS \<le> wb_max_bytes b \<and>
         wb' = Some (b\<lparr>wb_stats := (wb_stats b)\<lparr>ws_dirty_pages := max (ws_dirty_pages (wb_stats b)) 1,
           ws_peak_bytes := max (ws_peak_bytes (wb_stats b)) PS\<rparr>\<rparr>))"

definition written :: "write_budget option \<Rightarrow> overlay" where
  "written wb = (overlay_new 0)\<lparr>ov_write_budget := wb, ov_size := 2, ov_pages := [(0, 7 # 8 # replicate (PS - 2) 0)],
     ov_zero_extents := [\<lparr>start_page = 0, end_page = 1\<rparr>]\<rparr>"

lemma pc_small: "pc 0 = 0" "pc 2 = 1" "page_no 0 = 0" "page_no 2 = 0"
  by (simp_all add: page_count_for_size_def div_ceil_def config_defs page_no_def)

lemma write_written:
  assumes "admits wb wb'"
  shows "ov_write_at V 0 [7, 8] (w, begun wb) = (Ok (), (w, written wb'))"
proof -
  have "drop 2 (replicate PS 0) = (replicate (PS - 2) 0 :: byte list)" "2 \<le> PS" by (simp_all add: config_defs)
  then have sp: "splice 0 [7, 8] zero_page = Some (7 # 8 # replicate (PS - 2) 0)"
    by (simp add: splice_def zero_page_def)
  let ?ov = "\<lambda>wb. (begun wb)\<lparr>ov_zero_extents := [\<lparr>start_page = 0, end_page = 1\<rparr>]\<rparr>"
  have 1: "grow_to V 0 2 (w, begun wb) = (Ok (), (w, ?ov wb))"
    by (simp add: grow_to_def modifyS_def record_newly_active_zero_pages_def record_zero_extent_def pc_small overlay_new_def begun_def
        zero_newly_active_partial_pages_def zero_old_partial_page_def zero_new_partial_page_def retS_def)
  have a: "admit_dirty_page (w, ?ov wb) = (Ok (), (w, ?ov wb'))"
    using assms by (auto simp: admit_dirty_page_def admits_def begun_def overlay_new_def saturating_mul_def u64_max_def config_defs Let_def
        split: option.splits)
  have 2: "load_dirty_page V 0 (w, ?ov wb) = (Ok (), (w, (?ov wb')\<lparr>ov_pages := [(0, zero_page)]\<rparr>))"
    using a by (simp add: load_dirty_page_def dirty_page_def overlay_new_def begun_def ov_page_is_zero_masked_def
        page_in_extent_def modifyS_def retS_def)
  have 3: "edit_page 0 0 [7, 8] (w, (?ov wb')\<lparr>ov_pages := [(0, zero_page)]\<rparr>) = (Ok (), (w, (written wb')\<lparr>ov_size := 0\<rparr>))"
    using sp by (simp add: edit_page_def written_def begun_def overlay_new_def)
  have m: "min PS 2 = 2" "slice [7, 8] 0 (Suc (Suc 0)) = [7, 8 :: byte]" by (simp_all add: config_defs slice_def)
  have "ov_write_loop V 0 [7, 8] 0 (w, ?ov wb) = (Ok (), (w, (written wb')\<lparr>ov_size := 0\<rparr>))"
    using 2 3 m pc_small
    by (simp add: ov_write_loop.simps [of V 0 "[7, 8]" 0] ov_write_loop.simps [of V 0 "[7, 8]" "Suc (Suc 0)"] checked_addS_def checked_add_def retS_def Let_def)
  then show ?thesis
    using 1 by (simp add: ov_write_at_def checked_addS_def checked_add_def u64_max_def retS_def overlay_new_def begun_def modifyS_def written_def
        config_defs numeral_2_eq_2)
qed

lemma written_content: "ov_content g (written wb) = (2, \<lambda>i. if i = 0 then 7 else if i = 1 then 8 else 0)"
proof -
  have "ov_view 2 g (written wb) i = (if i = 0 then 7 else if i = 1 then 8 else 0)" for i
  proof (cases "i < 2")
    case True
    then have "i = 0 \<or> i = 1" "i div PS = 0" "i mod PS = i" by (auto simp: config_defs)
    then show ?thesis by (auto simp: ov_view_def dirty_page_def written_def)
  qed (simp add: ov_view_def)
  then show ?thesis by (simp add: ov_content_def fun_eq_iff) (simp add: written_def)
qed

lemma written_extents: "zero_extents_after_commit fresh (written wb) (pc (ov_size (written wb))) = Inr []"
  by (simp add: zero_extents_after_commit_def written_def overlay_new_def pc_small size_change_extents_def fresh_def
      add_zero_extent_without_limit_def normalize_zero_extents_without_limit_def enforce_temporary_zero_extent_limit_def
      subtract_zero_extent_without_limit_def cut_extent_def saturating_add_def u64_max_def enforce_zero_extent_limit_def
      MAX_ZERO_EXTENTS_def usize_max_def Let_def)

lemma sample_can_hold: "sdb.db_at sample_db v fresh \<Longrightarrow> can_hold v 10"
  using sample_room [of v 700000] sample_size [of v] can_hold_mono [of v _ 10] sdb.holdsD(2) [of sample_db v fresh]
  by (simp add: sdb.db_at_def div_ceil_def config_defs)

lemma sample_begin:
  obtains w v where "begin_update db_memory (at_context 1 sample_db) = (Ok 0, w)" "sdb.updating w v fresh (begun None)" "can_hold v 10"
proof -
  obtain v where v: "sdb.db_at sample_db v fresh" using sample_load(2) by blast
  have d: "sdb.db_at (at_context 1 sample_db) v fresh" "active_overlay (at_context 1 sample_db) = None"
    using db_at_context(1) [OF sample_load(4), of v fresh] db_at_context(2) [OF sample_load(4)] v(1) sample_load(3)
    by simp_all
  obtain w' v' where l: "sb_load db_memory (at_context 1 sample_db) = (Ok fresh, w')" "sdb.db_at w' v' fresh" "touches (at_context 1 sample_db) w'"
    "active_overlay w' = None"
    using sdb.db_at_load [OF d(1)] d(2) by metis
  have c: "active_context w' = Some 1" "overlays w' = overlays (at_context 1 sample_db)"
    using touches_overlays [OF l(3)] touches_active [OF l(3)] sample_load(4) by simp_all
  let ?w = "w'\<lparr>overlays := overlays w' @ [(1, overlay_new 0)]\<rparr>"
  have ix: "overlay_index (overlays w') 1 = None" using l(4) c(1) by (simp add: active_overlay_def)
  have "begin_update db_memory (at_context 1 sample_db) = (Ok 0, ?w)"
    using l(1) c(1) ix by (simp add: begin_update_def overlay_begin_def active_context_id_def retS_def fresh_def Let_def is_importing_def)
  moreover have "sdb.updating ?w v' fresh (begun None)"
    using l(2) c(1) ix ov_inv_new [of 0]
    by (simp add: sdb.updating_def sdb.db_at_def active_overlay_map overlay_index_None map_of_eq_None_iff [THEN iffD2] overlay_new_def map_add_def begun_def)
  moreover have "can_hold v' 10"
    using srm.frame_room [OF srm.rf.quiet_frame [OF within_run [OF srm.rf.within_superblock(3) l(1)]]] d(1) l(2) sample_can_hold [OF v]
      sdb.holdsD(1,2) by (metis sdb.db_at_def)
  ultimately show thesis by (rule that)
qed

text \<open>Writing the two bytes and publishing the overlay succeeds.\<close>

lemma sample_write:
  assumes u: "sdb.updating w v fresh (begun wb)" and r: "can_hold v 10" and a: "admits wb wb'"
  obtains w' v' where "blob_write_at db_memory 0 [7, 8] w = (Ok (), w')" "sdb.updating w' v' fresh (written wb')"
    "fst (commit_update db_memory w') = Ok ()"
proof -
  have d: "sdb.db_at w v fresh" "active_overlay w = Some (begun wb)" using u by (simp_all add: sdb.updating_def)
  have s: "sdb.steady w v fresh w" by (rule sdb.steady_refl) (use d(1) in \<open>simp add: sdb.db_at_def\<close>)
  obtain w2 v2 where o: "on_overlay (ov_write_at db_memory 0 [7, 8]) w = (Ok (Some ()), w2)" "sdb.db_at w2 v2 fresh" "sdb.same_mem v v2"
    "active_overlay w2 = Some (written wb')"
    using sdb.overlay_step [where f = "ov_write_at db_memory 0 [7, 8]", OF d write_written [OF a] s] by auto
  then have run: "blob_write_at db_memory 0 [7, 8] w = (Ok (), w2)" by (simp add: blob_write_at_def retS_def)
  obtain w3 v3 ov where "blob_write_at db_memory 0 [7, 8] w = (Ok (), w3)" "sdb.updating w3 v3 fresh ov"
    by (cases rule: sdb.update_write_cases [OF u, of 0 "[7, 8]"]) (use run in auto)
  then have u2: "sdb.updating w2 v3 fresh (written wb')" using run o(4) by (auto simp: sdb.updating_def)
  have "can_hold v3 10"
    using srm.frame_room [OF within_run [OF srm.rf.within_file_ops(3) run] _ _ _ r] d(1) u2 sdb.holdsD(1,2)
    by (metis sdb.db_at_def sdb.updating_def)
  then have "fst (commit_update db_memory w2) = Ok ()"
    by (intro srm.commit_update_room [OF u2 written_extents, of 10])
      (simp_all add: written_def overlay_new_def config_defs u64_max_def)
  then show thesis using that run u2 by blast
qed

text \<open>The same write through the callback of the VFS.\<close>

lemma sample_x_write:
  assumes run: "blob_write_at db_memory 0 [7, 8] w = (Ok (), w')" and cc: "current_context w = Some 1"
  shows "x_write db_memory [7, 8] 2 0 (sample_file, w) = (Ok SQLITE_OK, (sample_file, w'))" "current_context w' = Some 1"
proof -
  show cc': "current_context w' = Some 1" using frame_context(1) [OF within_run [OF iso.within_file_ops(3) run]] cc by simp
  have same: "w\<lparr>current_context := Some (Suc 0)\<rparr> = w" "w'\<lparr>current_context := Some (Suc 0)\<rparr> = w'" using cc cc' by simp_all
  show "x_write db_memory [7, 8] 2 0 (sample_file, w) = (Ok SQLITE_OK, (sample_file, w'))"
    using run cc cc'
    by (simp add: same x_write_def sample_file_def checked_amount_def checked_offset_def on_main_def in_context_def on_world_def at_context_def
        retS_def int_max_defs usize_try_from_def usize_max_def install_def file_new_def catchS_def Let_def)
qed

end
