(* ===== verification/Db_Props.thy ===== *)
theory Db_Props
  imports Db_Update Db_Queries Update_Room
begin

text \<open>
  Further properties of the facade: an update on an example, queries and updates exclude each other
  on one database, and a database that fails to initialize is unregistered.
\<close>

section \<open>An example client\<close>

text \<open>A connection whose statements succeed without touching the file.\<close>

definition idle_api :: "(unit, unit) vm_api" where
  "idle_api = \<lparr>sqlite3_open_v2 = (\<lambda>_ _ _ qw. ((SQLITE_OK, Some (), None), qw)),
     sqlite3_exec = (\<lambda>_ _ qw. ((SQLITE_OK, None), qw)), sqlite3_close = (\<lambda>_ qw. ((), qw)),
     sqlite3_vfs_register = (\<lambda>qw. (SQLITE_OK, qw))\<rparr>"

lemma idle_api_client: "vfs_client idle_api c (\<lambda>_. True)"
proof -
  have "\<exists>le l. w = w\<lparr>last_error := le, lock_level := l\<rparr>" for w :: "(db_handle, db_store) vfs_world"
    by (rule exI [of _ "last_error w"], rule exI [of _ "lock_level w"]) simp
  then show ?thesis by (simp add: vfs_client_def idle_api_def)
qed

text \<open>A closure that writes two bytes into the database and then fails.\<close>

definition failing_closure :: "(db_handle, db_store, unit, unit, unit) update_fun" where
  "failing_closure us = (Err NotFound, (fst us, (snd us)\<lparr>db_vfs :=
     snd (snd (x_write db_memory [7, 8] 2 0 (sample_file, db_vfs (snd us))))\<rparr>))"

lemma failing_closure_ok: "update_closure 1 (\<lambda>_. True) failing_closure"
proof -
  have "client_step 1 w (snd (snd (x_write db_memory [7, 8] 2 0 (sample_file, w))))"
    for w :: "(db_handle, db_store) vfs_world"
    by (rule write_step [of 1 sample_file 0 "[7, 8]" w "fst (x_write db_memory [7, 8] 2 0 (sample_file, w))"
          "fst (snd (x_write db_memory [7, 8] 2 0 (sample_file, w)))"])
      (simp_all add: writer_handle_def sample_file_def int_max_defs)
  then show ?thesis by (auto simp: update_closure_def failing_closure_def intro: r_into_rtranclp)
qed

text \<open>The same write, and then success.\<close>

definition writing_closure :: "(db_handle, db_store, unit, unit, unit) update_fun" where
  "writing_closure us = (Ok (), snd (failing_closure us))"

lemma writing_closure_ok: "update_closure 1 (\<lambda>_. True) writing_closure"
  using failing_closure_ok by (auto simp: update_closure_def writing_closure_def failing_closure_def)

definition sample_state :: "(unit, unit) vm_state" where
  "sample_state = \<lparr>db_vfs = sample_db, read_connections = Map.empty, write_connections = Map.empty,
     active_reads = [], query_observer_active = (\<lambda>_. False), sqlite_state = ()\<rparr>"

section \<open>Updates are atomic\<close>

lemma db_update_concludes:
  assumes api: "vfs_client api c wc" and f: "update_closure c wc f"
    and tab: "\<forall>conn. write_connections s c = Some conn \<longrightarrow> wc conn" and rd: "read_depth (active_reads s) c = 0"
    and d: "sdb.db_at (at_context c (db_vfs s)) v b" "idle c s" "\<not> is_importing b"
    and run: "db_update api db_memory c f s = (r, s')"
  obtains w0 where "in_update c b (db_byte v) w0 (sdb.file_of v b)"
    "concluded c b (db_byte v) w0 (update_work api c f (at_database c s)) r s'" "idle c s'"
    "current_context (db_vfs s') = current_context (db_vfs s)" "is_err r \<longrightarrow> write_connections s' c = None"
proof -
  let ?s0 = "at_database c s" and ?g = "db_byte v"
  have cc0: "current_context (db_vfs ?s0) = Some c" by simp
  obtain s1 where 1: "clear_read_connection api c ?s0 = (Ok (), s1)" "same_db ?s0 s1" "write_connections s1 = write_connections s"
    using clear_read_ok [OF api cc0] by auto
  obtain le l where w1: "db_vfs s1 = (at_context c (db_vfs s))\<lparr>last_error := le, lock_level := l\<rparr>"
    using 1(2) by (auto simp: same_db_def at_context_def)
  have cc1: "at_context c (db_vfs s1) = db_vfs s1" using w1 by (intro at_context_same) simp
  obtain w2 where 2: "begin_update db_memory (db_vfs s1) = (Ok (db_size b), w2)" "in_update c b ?g w2 (sdb.file_of v b)"
    "current_context w2 = Some c"
  proof (rule begin_in_update [of c "db_vfs s1" v b])
    show "sdb.db_at (at_context c (db_vfs s1)) v b" "active_overlay (at_context c (db_vfs s1)) = None"
      using d(1,2) cc1 w1 by (simp_all add: idle_def)
    show "\<not> is_importing b" "db_size b \<le> i64_max" using d(3) db_size_fits [OF d(1)] by simp_all
  qed (use cc1 in auto)
  let ?s2 = "s1\<lparr>db_vfs := w2\<rparr>"
  have s2: "running c b ?g w2 ?s2" unfolding running_def using 2(2,3) by (auto simp del: split_paired_Ex)
  let ?body = "tryS (write_connection api c (db_size b)) (\<lambda>connection s.
         let (r, s) = run_immediate api db_memory connection f s;
             s = ignoring (clear_read_connection api c) s;
             s = (if is_err r then forget_write_connection c s else s)
         in (r, release_connection api c connection s))"
  obtain r3 s3 where 3: "?body ?s2 = (r3, s3)" by fastforce
  have tab2: "\<forall>conn. write_connections ?s2 c = Some conn \<longrightarrow> wc conn" using tab 1(3) by simp
  let ?work = "update_work api c f ?s0"
  have w: "?work = tryS (write_connection api c (db_size b)) (\<lambda>conn. sql_session api conn f) ?s2"
    using rd 1(1) 2(1) by (simp add: update_work_def reject_iff on_store_def)
  note k3 = update_body [OF api f tab2 s2 3, folded w]
  let ?s4 = "s3\<lparr>db_vfs := rollback_update (db_vfs s3)\<rparr>"
  have k4: "concluded c b ?g w2 ?work r3 ?s4" "idle c ?s4" using guard_ok [of c b ?g w2 ?work r3 s3] k3 by blast+
  have e: "r = r3" "s' = ?s4\<lparr>db_vfs := (db_vfs ?s4)\<lparr>current_context := current_context (db_vfs s)\<rparr>\<rparr>"
    using run rd 1(1) 2(1) 3
    by (simp_all add: db_update_def db_with_context_def reject_iff on_store_def overlay_guard_def at_context_def Let_def)
  have pu: "published c b' a s' \<longleftrightarrow> published c b' a ?s4" for b' a by (simp add: e published_def)
  have id: "idle c s'" "current_context (db_vfs s') = current_context (db_vfs s)" using k4(2) by (simp_all add: e idle_def)
  have con: "concluded c b ?g w2 ?work r s'" using concluded_mono [OF _ k4(1), of s'] pu e(1) by simp
  have err: "is_err r \<longrightarrow> write_connections s' c = None" using k3 e by simp
  show thesis by (rule that [OF 2(2) con id err])
qed

text \<open>C1. An update of the facade is atomic.  Its work is what the code does up to the COMMIT of the
  transaction: the read connection is dropped, an overlay is begun, the connection is opened, and BEGIN,
  the closure and COMMIT are run.  The update returns a value only when its work returned that value, and
  then the published file is exactly the file the writing connection sees in the state its work ended in,
  which it reached from the old file through requests of a client of the VFS.  When the update returns an
  error, its work returned that error, or the work succeeded and publishing its overlay gave the error;
  the published file and the superblock are then the old ones and no write connection is kept.  In both
  cases no overlay is left and the context is restored; the update never panics.\<close>

theorem db_update_atomic:
  assumes api: "vfs_client api c wc" and f: "update_closure c wc f"
    and tab: "\<forall>conn. write_connections s c = Some conn \<longrightarrow> wc conn" and rd: "read_depth (active_reads s) c = 0"
    and d: "sdb.db_at (at_context c (db_vfs s)) v b" "idle c s" "\<not> is_importing b"
    and work: "update_work api c f (at_database c s) = (rw, s1)"
    and run: "db_update api db_memory c f s = (r, s')"
  shows "(case r of
      Ok x \<Rightarrow> rw = Ok x \<and> (\<exists>w0. in_update c b (db_byte v) w0 (sdb.file_of v b) \<and> client_run c w0 (db_vfs s1)) \<and>
        (\<exists>b' a. in_update c b (db_byte v) (db_vfs s1) a \<and> published c b' a s')
    | Err e \<Rightarrow> (rw = Err e \<or> (\<exists>x. rw = Ok x) \<and> fst (on_store (commit_update db_memory) s1) = Err e) \<and>
        published c b (sdb.file_of v b) s' \<and> write_connections s' c = None
    | Panic \<Rightarrow> False) \<and>
    idle c s' \<and> current_context (db_vfs s') = current_context (db_vfs s)"
proof -
  obtain w0 where k: "in_update c b (db_byte v) w0 (sdb.file_of v b)"
    "concluded c b (db_byte v) w0 (rw, s1) r s'" "idle c s'"
    "current_context (db_vfs s') = current_context (db_vfs s)" "is_err r \<longrightarrow> write_connections s' c = None"
    by (rule db_update_concludes [OF api f tab rd d run, unfolded work])
  show ?thesis
  proof (cases r)
    case (Ok x)
    then show ?thesis using k unfolding concluded_def by (auto simp del: split_paired_Ex)
  next
    case (Err x)
    then show ?thesis using k by (simp add: concluded_def is_err_def sdb.file_of_def)
  next
    case Panic
    then show ?thesis using k(2) by (simp add: concluded_def)
  qed
qed

lemma failing_update: "fst (db_update idle_api db_memory 1 failing_closure sample_state) \<noteq> Ok x"
  by (simp add: db_update_def db_with_context_def reject_active_read_connection_def clear_read_connection_def
      overlay_guard_def write_connection_def open_read_write_def open_read_write_existing_def run_immediate_def
      open_read_write_with_page_size_def connection_open_def set_query_observer_def or_close_def apply_read_write_def execute_batch_cstr_def
      sqlite_call_def idle_api_def failing_closure_def sample_state_def ignoring_def is_err_def tryS_def catchS_def retS_def
      modifyS_def on_store_def Let_def split: outcome.splits prod.splits)

lemma writing_work:
  obtains s1 v where "update_work idle_api 1 writing_closure (at_database 1 sample_state) = (Ok (), s1)"
    "sdb.updating (at_context 1 (db_vfs s1)) v fresh (written None)" "fst (on_store (commit_update db_memory) s1) = Ok ()"
proof -
  obtain w v where b: "begin_update db_memory (at_context 1 sample_db) = (Ok 0, w)" "sdb.updating w v fresh (begun None)" "can_hold v 10"
    by (rule sample_begin)
  have cc: "current_context w = Some 1" using frame_context(1) [OF within_run [OF iso.within_file_ops(1) b(1)]] by simp
  obtain w' v' where k: "blob_write_at db_memory 0 [7, 8] w = (Ok (), w')" "sdb.updating w' v' fresh (written None)"
    "fst (commit_update db_memory w') = Ok ()"
    by (rule sample_write [OF b(2,3), of None]) (simp add: admits_def)
  have x: "x_write db_memory [7, 8] 2 0 (sample_file, w) = (Ok SQLITE_OK, (sample_file, w'))" and cc': "current_context w' = Some 1"
    using sample_x_write [OF k(1) cc] by simp_all
  have "update_work idle_api 1 writing_closure (at_database 1 sample_state) = (Ok (), sample_state\<lparr>db_vfs := w',
      write_connections := [1 \<mapsto> ()]\<rparr>)"
    using b(1) x
    by (simp add: update_work_def sql_session_def reject_active_read_connection_def clear_read_connection_def read_depth_def
      write_connection_def open_read_write_def open_read_write_existing_def
      open_read_write_with_page_size_def connection_open_def set_query_observer_def or_close_def apply_read_write_def execute_batch_cstr_def
      sqlite_call_def idle_api_def writing_closure_def failing_closure_def sample_state_def tryS_def catchS_def retS_def at_context_def
      modifyS_def on_store_def Let_def fun_upd_idem)
  moreover have "sdb.updating (at_context 1 (db_vfs (sample_state\<lparr>db_vfs := w', write_connections := [1 \<mapsto> ()]\<rparr>))) v' fresh (written None)"
    "fst (on_store (commit_update db_memory) (sample_state\<lparr>db_vfs := w', write_connections := [1 \<mapsto> ()]\<rparr>)) = Ok ()"
    using k(2,3) at_context_same [OF cc'] by (auto simp: on_store_def split: prod.splits outcome.splits)
  ultimately show thesis by (rule that)
qed

text \<open>An update that succeeds, and one that fails after it has written.\<close>

theorem db_update_atomic_witness:
  "(\<exists>b s'. db_update idle_api db_memory 1 writing_closure sample_state = (Ok (), s') \<and>
     published 1 b (2, \<lambda>i. if i = 0 then 7 else if i = 1 then 8 else 0) s') \<and>
   published 1 fresh (0, \<lambda>_. 0) (snd (db_update idle_api db_memory 1 failing_closure sample_state))"
proof -
  obtain v where v: "sdb.db_at sample_db v fresh" "sdb.file_of v fresh = (0, \<lambda>_. 0)" by (rule sample_at)
  have d: "sdb.db_at (at_context 1 (db_vfs sample_state)) v fresh" "idle 1 sample_state"
    using db_at_context(1) [OF sample_load(4), of v fresh] db_at_context(2) [OF sample_load(4)] v(1) sample_load(3)
    by (simp_all add: sample_state_def idle_def)
  have t: "\<forall>conn. write_connections sample_state 1 = Some conn \<longrightarrow> True" "read_depth (active_reads sample_state) 1 = 0"
    by (simp_all add: sample_state_def read_depth_def)
  obtain r s' where run: "db_update idle_api db_memory 1 failing_closure sample_state = (r, s')" by fastforce
  obtain rw s1 where work: "update_work idle_api 1 failing_closure (at_database 1 sample_state) = (rw, s1)" by fastforce
  from db_update_atomic [OF idle_api_client failing_closure_ok t d _ work run]
  have "published 1 fresh (0, \<lambda>_. 0) s'" using run v(2) failing_update by (cases r) simp_all
  moreover obtain s2 v2 where w2: "update_work idle_api 1 writing_closure (at_database 1 sample_state) = (Ok (), s2)"
    "sdb.updating (at_context 1 (db_vfs s2)) v2 fresh (written None)" "fst (on_store (commit_update db_memory) s2) = Ok ()"
    by (rule writing_work)
  obtain r3 s3 where 3: "db_update idle_api db_memory 1 writing_closure sample_state = (r3, s3)" by fastforce
  note k = db_update_atomic [OF idle_api_client writing_closure_ok t d _ w2(1) 3]
  have r3: "r3 = Ok ()" using k w2(3) by (cases r3) auto
  then obtain b a where "in_update 1 fresh (db_byte v) (db_vfs s2) a" "published 1 b a s3" using k by auto
  moreover from this(1) have "a = (2, \<lambda>i. if i = 0 then 7 else if i = 1 then 8 else 0)"
    using written_content w2(2) by (auto simp: in_update_def sdb.updating_def)
  ultimately show ?thesis using run 3 r3 by auto
qed

section \<open>Queries exclude updates\<close>

lemma active_read_index_eq: "active_read_index slot c = overlay_index slot c"
proof (cases "active_read_index slot c")
  case None
  then have "c \<notin> fst ` set slot" by (induction slot c rule: active_read_index.induct) (auto split: if_splits)
  then show ?thesis using None overlay_index_None [of slot c] by simp
next
  case (Some i)
  then have "i < length slot \<and> fst (slot ! i) = c \<and> (\<forall>j < i. fst (slot ! j) \<noteq> c)"
  proof (induction slot c arbitrary: i rule: active_read_index.induct)
    case (2 d n slot c)
    then show ?case by (auto simp: nth_Cons split: if_splits nat.splits)
  qed simp
  then show ?thesis using Some overlay_index_Some [of slot c i] by simp
qed

lemma read_depth_map: "read_depth slot c = (case map_of slot c of Some n \<Rightarrow> n | None \<Rightarrow> 0)"
proof (cases "overlay_index slot c")
  case None
  then have "map_of slot c = None" using overlay_index_None [of slot c] by (simp add: map_of_eq_None_iff)
  then show ?thesis using None by (simp add: read_depth_def active_read_index_eq)
next
  case (Some i)
  then show ?thesis using overlay_index_lookup [OF Some] by (simp add: read_depth_def active_read_index_eq)
qed

text \<open>The table has one entry for each database with running queries.\<close>

definition reads_ok :: "(context_id \<times> nat) list \<Rightarrow> bool" where
  "reads_ok slot \<longleftrightarrow> distinct (map fst slot) \<and> (\<forall>(c, n) \<in> set slot. 0 < n)"

lemma guard_enter_ok:
  assumes "reads_ok slot"
  shows "reads_ok (guard_enter c slot)" "map_of (guard_enter c slot) = (map_of slot)(c \<mapsto> read_depth slot c + 1)"
proof -
  have "reads_ok (guard_enter c slot) \<and> map_of (guard_enter c slot) = (map_of slot)(c \<mapsto> read_depth slot c + 1)"
  proof (cases "overlay_index slot c")
    case None
    then have n: "c \<notin> fst ` set slot" "read_depth slot c = 0"
      using overlay_index_None [of slot c] by (simp_all add: read_depth_def active_read_index_eq)
    have e: "guard_enter c slot = slot @ [(c, 1)]" using None by (simp add: guard_enter_def active_read_index_eq)
    have "map_of slot c = None" using n(1) by (simp add: map_of_eq_None_iff)
    then have "map_of (guard_enter c slot) = (map_of slot)(c \<mapsto> read_depth slot c + 1)"
      by (auto simp: e n(2) fun_eq_iff map_add_def split: option.splits)
    then show ?thesis using assms n(1) e by (auto simp: reads_ok_def)
  next
    case (Some i)
    then have ne: "slot \<noteq> []" by (auto simp: overlay_index_Some)
    have d: "read_depth slot c = snd (slot ! i)" using Some by (simp add: read_depth_def active_read_index_eq)
    have e: "guard_enter c slot = slot[i := (c, snd (slot ! i) + 1)]"
      using ne Some by (simp add: guard_enter_def active_read_index_eq)
    note u = update_at_index [OF Some, of "snd (slot ! i) + 1"]
    have "map_of (guard_enter c slot) = (map_of slot)(c \<mapsto> read_depth slot c + 1)"
      unfolding e d using u(1) by (auto simp: fun_eq_iff)
    moreover have "\<forall>(d, n) \<in> set (guard_enter c slot). 0 < n"
      unfolding e using assms set_update_subset_insert [of slot i "(c, snd (slot ! i) + 1)"]
      by (fastforce simp: reads_ok_def)
    ultimately show ?thesis using assms u(2) e by (simp add: reads_ok_def)
  qed
  then show "reads_ok (guard_enter c slot)" "map_of (guard_enter c slot) = (map_of slot)(c \<mapsto> read_depth slot c + 1)"
    by blast+
qed

lemma guard_drop_ok:
  assumes ok: "reads_ok slot" and m: "map_of slot c = Some n"
  shows "reads_ok (guard_drop c slot)" "map_of (guard_drop c slot) = (map_of slot)(c := if n = 1 then None else Some (n - 1))"
proof -
  have pos: "0 < n" using ok map_of_SomeD [OF m] by (auto simp: reads_ok_def)
  obtain i where i: "overlay_index slot c = Some i"
    using m overlay_index_None [of slot c] by (cases "overlay_index slot c") (auto simp: map_of_eq_None_iff [symmetric])
  have n: "snd (slot ! i) = n" using overlay_index_lookup [OF i] m by simp
  have "reads_ok (guard_drop c slot) \<and> map_of (guard_drop c slot) = (map_of slot)(c := if n = 1 then None else Some (n - 1))"
  proof (cases "length slot = 1 \<and> fst (slot ! 0) = c")
    case True
    then have s: "slot = [(c, n)]" using m by (cases slot) auto
    then show ?thesis using pos by (auto simp: guard_drop_def reads_ok_def Let_def)
  next
    case False
    have e: "guard_drop c slot = (if n = 1 then swap_remove i slot else slot[i := (c, n - 1)])"
      using False i n pos by (auto simp: guard_drop_def active_read_index_eq Let_def)
    have d: "distinct (map fst slot)" using ok by (simp add: reads_ok_def)
    show ?thesis
    proof (cases "n = 1")
      case True
      have "i < length slot" using i by (simp add: overlay_index_Some)
      then have "set (swap_remove i slot) \<subseteq> set slot"
        using set_swap_remove(1) [of i slot] d distinct_map by auto
      then show ?thesis
        using remove_at_index [OF i d] ok True e by (auto simp: reads_ok_def fun_eq_iff)
    next
      case n1: False
      have "\<forall>(d, k) \<in> set (slot[i := (c, n - 1)]). 0 < k"
        using ok pos n1 set_update_subset_insert [of slot i "(c, n - 1)"] by (fastforce simp: reads_ok_def)
      then show ?thesis
        using update_at_index [OF i, of "n - 1"] ok e n1 by (auto simp: reads_ok_def fun_eq_iff)
    qed
  qed
  then show "reads_ok (guard_drop c slot)" "map_of (guard_drop c slot) = (map_of slot)(c := if n = 1 then None else Some (n - 1))"
    by blast+
qed

lemma enter_drop:
  assumes "reads_ok slot"
  shows "reads_ok (guard_drop c (guard_enter c slot))" "read_depth (guard_drop c (guard_enter c slot)) d = read_depth slot d"
proof -
  note e = guard_enter_ok [OF assms, of c]
  have m: "map_of (guard_enter c slot) c = Some (read_depth slot c + 1)" using e(2) by simp
  note g = guard_drop_ok [OF e(1) m]
  show "reads_ok (guard_drop c (guard_enter c slot))" by (rule g(1))
  have "map_of slot c = None \<or> map_of slot c = Some (read_depth slot c)" by (auto simp: read_depth_map split: option.splits)
  then show "read_depth (guard_drop c (guard_enter c slot)) d = read_depth slot d"
    using g(2) e(2) by (auto simp: read_depth_map)
qed

definition updates_refused :: "('c, 'q) vm_api \<Rightarrow> context_id \<Rightarrow> (db_handle, db_store, 'c, 'q, 't) update_fun \<Rightarrow> nat \<Rightarrow>
    ('c, 'q) vm_state \<Rightarrow> bool" where
  "updates_refused api c g n s \<longleftrightarrow>
     db_update api db_memory c g s = (Err ReadConnectionInUse, s) \<and>
     db_refresh_checksum api db_memory c s = (Err ReadConnectionInUse, s) \<and>
     db_refresh_checksum_chunk api db_memory c n s = (Err ReadConnectionInUse, s)"

lemma refused_in_query: "0 < read_depth (active_reads s) c \<Longrightarrow> updates_refused api c g n s"
  by (simp add: updates_refused_def db_update_def db_refresh_checksum_def db_refresh_checksum_chunk_def db_with_context_def reject_iff)

lemma guard_enter_depth:
  assumes "reads_ok slot"
  shows "read_depth (guard_enter c slot) d = (if d = c then read_depth slot c + 1 else read_depth slot d)"
  using guard_enter_ok(2) [OF assms, of c] by (simp add: read_depth_map)

text \<open>C34. Queries and updates of one database exclude each other.  When the connection of a query can be
  had, every closure given to the query is run in a state in which the query is counted, and the query
  returns what the closure returned there.  In this state, and in every later one with the same table of
  running queries, an update and a checksum refresh of the database are refused with
  \<open>ReadConnectionInUse\<close> and change nothing, while the counts of the other databases are what they were.
  When the connection cannot be opened the query returns the error and the closure is not run.  The count
  of running queries returns to what it was when the query ends, with nested queries and with failing
  ones.\<close>

theorem queries_exclude_updates:
  assumes ok: "reads_ok (active_reads s)" and conn: "query_connection api c (at_database c s) = (rc, s0)"
    and f: "\<forall>conn s. active_reads (snd (f conn s)) = active_reads s"
  shows "(case rc of
      Ok conn \<Rightarrow> \<exists>s1.
        (\<forall>f :: _ \<Rightarrow> (_, _, _, _, 't) db_stm. db_query api c f s = query_end c (current_context (db_vfs s)) (f conn s1)) \<and>
        (\<forall>s2 (g :: (_, _, _, _, 'u) update_fun) n. active_reads s2 = active_reads s1 \<longrightarrow> updates_refused api c g n s2) \<and>
        (\<forall>d. read_depth (active_reads s1) d = (if d = c then read_depth (active_reads s) c + 1 else read_depth (active_reads s) d))
    | Err e \<Rightarrow> \<exists>s1. \<forall>f :: _ \<Rightarrow> (_, _, _, _, 't) db_stm. db_query api c f s = (Err e, s1)
    | Panic \<Rightarrow> False) \<and>
    reads_ok (active_reads (snd (db_query api c f s))) \<and>
    (\<forall>d. read_depth (active_reads (snd (db_query api c f s))) d = read_depth (active_reads s) d)"
proof (cases rc)
  case (Ok conn)
  then obtain s1 where s1: "active_reads s1 = guard_enter c (active_reads s)"
    "\<forall>f :: _ \<Rightarrow> (_, _, _, _, 't) db_stm. db_query api c f s = query_end c (current_context (db_vfs s)) (f conn s1)"
    using db_query_runs [where 't = 't, OF assms(2)] by auto
  obtain s2 where s2: "active_reads s2 = guard_enter c (active_reads s)"
    "db_query api c f s = query_end c (current_context (db_vfs s)) (f conn s2)"
    using db_query_runs [OF assms(2)] Ok by auto
  note en = guard_enter_depth [OF ok, of c]
  have "active_reads (snd (db_query api c f s)) = guard_drop c (guard_enter c (active_reads s))"
    using s2 f by (simp add: query_end_def)
  then have "reads_ok (active_reads (snd (db_query api c f s)))"
    "\<forall>d. read_depth (active_reads (snd (db_query api c f s))) d = read_depth (active_reads s) d"
    using enter_drop [OF ok, of c] by simp_all
  moreover have "\<forall>s2 (g :: (_, _, _, _, 'u) update_fun) n. active_reads s2 = active_reads s1 \<longrightarrow> updates_refused api c g n s2"
    using s1(1) en by (auto intro!: refused_in_query)
  moreover have "\<forall>d. read_depth (active_reads s1) d = (if d = c then read_depth (active_reads s) c + 1 else read_depth (active_reads s) d)"
    using s1(1) en by simp
  ultimately show ?thesis unfolding Ok outcome.case using s1(2) by blast
next
  case (Err e)
  then obtain s1 where s1: "\<forall>f :: _ \<Rightarrow> (_, _, _, _, 't) db_stm. db_query api c f s = (Err e, s1)"
    using db_query_runs [where 't = 't, OF conn] by auto
  obtain s2 where "db_query api c f s = (Err e, s2)" "active_reads s2 = active_reads s"
    using db_query_runs [OF conn] Err by auto
  then show ?thesis using Err s1 ok by auto
qed (use db_query_runs [OF conn] in simp)

text \<open>A query on the connection of the table: the update its closure attempts is refused.\<close>

definition updating_closure :: "unit \<Rightarrow> (db_handle, db_store, unit, unit, unit) db_stm" where
  "updating_closure conn s = db_update idle_api db_memory 1 failing_closure s"

theorem queries_exclude_updates_witness:
  "fst (db_query idle_api 1 updating_closure (sample_state\<lparr>read_connections := [1 \<mapsto> ()]\<rparr>)) = Err ReadConnectionInUse"
proof -
  let ?s = "sample_state\<lparr>read_connections := [1 \<mapsto> ()]\<rparr>"
  have r: "reads_ok (active_reads ?s)" "\<forall>conn s. active_reads (snd ((\<lambda>conn. retS ()) conn s)) = active_reads s"
    by (simp_all add: sample_state_def reads_ok_def retS_def)
  have c: "query_connection idle_api 1 (at_database 1 ?s) = (Ok (), at_database 1 ?s)" by (simp add: query_connection_def)
  from queries_exclude_updates [where 't = unit and 'u = unit, OF r(1) c r(2)] obtain s1 where
    "\<forall>f :: unit \<Rightarrow> (_, _, _, _, unit) db_stm. db_query idle_api 1 f ?s = query_end 1 (current_context (db_vfs ?s)) (f () s1)"
    "\<forall>s2 (g :: (_, _, _, _, unit) update_fun) n. active_reads s2 = active_reads s1 \<longrightarrow> updates_refused idle_api 1 g n s2"
    unfolding outcome.case by blast
  then have "db_query idle_api 1 updating_closure ?s = query_end 1 (current_context (db_vfs ?s)) (updating_closure () s1)"
    "updates_refused idle_api 1 failing_closure 0 s1"
    by blast+
  then show ?thesis by (simp add: query_end_def updating_closure_def updates_refused_def)
qed

section \<open>Initialization\<close>

definition same_tables :: "('c, 'q) vm_state \<Rightarrow> ('c, 'q) vm_state \<Rightarrow> bool" where
  "same_tables s s' \<longleftrightarrow> read_connections s' = read_connections s \<and> write_connections s' = write_connections s"

lemma on_store_run:
  assumes "within R m" "on_store m s = (r, s')"
  shows "R (db_vfs s) (db_vfs s')" "same_tables s s'"
  using assms(2) within_run [OF assms(1), of "db_vfs s"]
  by (auto simp: on_store_def same_tables_def split: prod.splits outcome.splits)

lemma initialize_world:
  assumes reg: "\<forall>q w. snd (snd (sqlite3_vfs_register api (q, w))) = w"
    and run: "initialize api db_memory c s = (r, s')"
  shows "\<exists>w. iso.quiet (at_context c (db_vfs s)) w \<and> db_vfs s' = w\<lparr>current_context := current_context (db_vfs s)\<rparr>"
    "same_tables s s'"
proof -
  obtain rc q where 0: "sqlite3_vfs_register api (sqlite_state s, at_context c (db_vfs s)) = (rc, (q, at_context c (db_vfs s)))"
    using reg by (metis snd_conv surj_pair)
  let ?s1 = "s\<lparr>sqlite_state := q, db_vfs := at_context c (db_vfs s)\<rparr>"
  obtain r2 s2 where 2: "on_store (sb_load db_memory) ?s1 = (r2, s2)" by fastforce
  obtain r3 s3 where 3: "on_store (ensure_current_layout db_memory) s2 = (r3, s3)" by fastforce
  have k2: "iso.quiet (at_context c (db_vfs s)) (db_vfs s2)" "same_tables s s2"
    using on_store_run [OF iso.within_superblock(3) 2] by (simp_all add: same_tables_def)
  have k3: "iso.quiet (at_context c (db_vfs s)) (db_vfs s3)" "same_tables s s3"
    using on_store_run [OF iso.within_commit(2) 3] preD(2) [OF iso.pre_quiet k2(1)] k2(2) by (simp_all add: same_tables_def)
  obtain s4 where s4: "s4 = s2 \<or> s4 = s3" "s' = s4\<lparr>db_vfs := (db_vfs s4)\<lparr>current_context := current_context (db_vfs s)\<rparr>\<rparr>"
    using run 0 2 3
    by (cases r2) (auto simp: initialize_def db_with_context_def sqlite_call_def at_context_def tryS_def Let_def)
  then show "\<exists>w. iso.quiet (at_context c (db_vfs s)) w \<and> db_vfs s' = w\<lparr>current_context := current_context (db_vfs s)\<rparr>"
    "same_tables s s'" using k2 k3 by (auto simp: same_tables_def)
qed

text \<open>The registrations: which memory each database has, the default database and the current one.\<close>

definition same_registration :: "(db_handle, db_store) vfs_world \<Rightarrow> (db_handle, db_store) vfs_world \<Rightarrow> bool" where
  "same_registration w w' \<longleftrightarrow> registered_memory w' = registered_memory w \<and> default_context w' = default_context w \<and>
     current_context w' = current_context w \<and> map_of (db_memory_slots w') = map_of (db_memory_slots w)"

lemma failed_finish:
  assumes reg: "\<forall>q w. snd (snd (sqlite3_vfs_register api (q, w))) = w"
    and new: "read_connections s c = None" "write_connections s c = None"
    and w: "c \<notin> fst ` set (registered_memory w0)" "map_of (db_memory_slots w0) c = None" "default_context w0 \<noteq> Some c"
      "current_context w0 \<noteq> Some c"
    and s: "registered_memory (db_vfs s) = registered_memory w0 @ [(c, i)]" "db_memory_slots (db_vfs s) = db_memory_slots w0 @ [(c, h)]"
      "current_context (db_vfs s) = current_context w0" "default_context (db_vfs s) = default_context w0 \<or>
        default_context (db_vfs s) = Some c \<and> default_context w0 = None"
    and run: "finish_init api db_memory c s = (Err e, s')"
  shows "same_registration w0 (db_vfs s')"
proof -
  have c: "clear_connections api c s = (Ok (), s)" if "read_connections s c = None" "write_connections s c = None"
    for s
    using that by (simp add: clear_connections_def clear_read_connection_def clear_write_connection_def)
  obtain r1 s1 where 1: "initialize api db_memory c s = (r1, s1)" by fastforce
  note k = initialize_world [OF reg 1]
  obtain w1 where w1: "iso.quiet (at_context c (db_vfs s)) w1" "db_vfs s1 = w1\<lparr>current_context := current_context (db_vfs s)\<rparr>"
    using k(1) by blast
  have t1: "clear_connections api c s1 = (Ok (), s1)" using c [of s1] k(2) new by (simp add: same_tables_def)
  have e: "s' = s1\<lparr>db_vfs := clear_failed_initialization c (db_vfs s1)\<rparr>"
    using run c [OF new] 1 t1 by (cases r1) (auto simp: finish_init_def tryS_def catchS_def retS_def)
  have g: "registered_memory w1 = registered_memory (db_vfs s)" "default_context w1 = default_context (db_vfs s)"
    using w1(1) by (simp_all add: iso.quiet_def iso.same_globals_def at_context_def)
  have o: "map_of (db_memory_slots w1) d = map_of (db_memory_slots (db_vfs s)) d" if "d \<noteq> c" for d
    using w1(1) that by (simp add: iso.quiet_def iso.same_others_def)
  have f: "filter (\<lambda>(d, _). d \<noteq> c) (registered_memory w0 @ [(c, i)]) = registered_memory w0"
    using w(1) by (force simp: filter_id_conv)
  have mf: "map_of (filter (\<lambda>(d, _). d \<noteq> c) xs) d = (if d = c then None else map_of xs d)" for xs :: "(context_id \<times> db_handle) list" and d
    by (induction xs) auto
  have "map_of (filter (\<lambda>(d, _). d \<noteq> c) (db_memory_slots w1)) = map_of (db_memory_slots w0)"
    using o w(2) s(2) by (auto simp: fun_eq_iff mf map_add_def split: option.splits)
  then show ?thesis
    using e w1(2) g f s w
    by (auto simp: same_registration_def clear_failed_initialization_def clear_superblock_cache_def)
qed

text \<open>C35. A database that cannot be initialized leaves no trace in the registrations: when
  \<open>Db::init\<close> or \<open>DbHandle::init\<close> returns an error, the memories registered, the default database, the
  current context and the handles of all databases are as before, so the memory can be used again.\<close>

theorem failed_init_unregisters:
  assumes reg: "\<forall>q w. snd (snd (sqlite3_vfs_register api (q, w))) = w"
    and new: "\<forall>c \<ge> next_context_id (db_vfs s). read_connections s c = None \<and> write_connections s c = None \<and>
      c \<notin> fst ` set (registered_memory (db_vfs s)) \<and> c \<notin> fst ` set (db_memory_slots (db_vfs s)) \<and>
      default_context (db_vfs s) \<noteq> Some c \<and> current_context (db_vfs s) \<noteq> Some c"
    and run: "db_init api db_memory identity h s = (Err e, s') \<or> handle_init api db_memory identity h s = (Err e, s')"
  shows "same_registration (db_vfs s) (db_vfs s')"
proof -
  let ?w = "db_vfs s" and ?c = "next_context_id (db_vfs s)"
  let ?w1 = "?w\<lparr>next_context_id := ?c + 1, db_memory_slots := db_memory_slots ?w @ [(?c, h)],
      registered_memory := registered_memory ?w @ [(?c, identity (h, mem_store ?w))]\<rparr>"
  have n: "read_connections s ?c = None" "write_connections s ?c = None" "?c \<notin> fst ` set (registered_memory ?w)"
    "map_of (db_memory_slots ?w) ?c = None" "default_context ?w \<noteq> Some ?c" "current_context ?w \<noteq> Some ?c"
    using new by (auto simp: map_of_eq_None_iff)
  have i: "init_context identity h ?w = (Ok ?c, ?w1) \<or> init_context identity h ?w = (Panic, ?w) \<or>
      (\<exists>err. init_context identity h ?w = (Err err, ?w))"
    by (auto simp: init_context_def reject_registered_memory_def tryS_def Let_def checked_add_def split: option.splits)
  have fin: "same_registration ?w (db_vfs s')" if "finish_init api db_memory ?c (s\<lparr>db_vfs := w2\<rparr>) = (Err e, s')"
    "w2 = ?w1 \<or> default_context ?w = None \<and> w2 = ?w1\<lparr>default_context := Some ?c\<rparr>" for w2
    by (rule failed_finish [OF reg _ _ n(3-6) _ _ _ _ that(1)]) (use n that(2) in auto)
  from run show ?thesis
  proof
    assume "handle_init api db_memory identity h s = (Err e, s')"
    then show ?thesis
      using i fin [of ?w1]
      by (auto simp: handle_init_def on_store_def tryS_def retS_def same_registration_def split: prod.splits outcome.splits)
  next
    assume "db_init api db_memory identity h s = (Err e, s')"
    then show ?thesis
      using i fin [of "?w1\<lparr>default_context := Some ?c\<rparr>"]
      by (auto simp: db_init_def memory_init_def tryS_def modifyS_def retS_def same_registration_def
          split: prod.splits outcome.splits if_splits)
  qed
qed

text \<open>A second handle on the memory of the sample database is refused.\<close>

theorem failed_init_unregisters_witness:
  "handle_init idle_api db_memory (vm_identity vec_identity) (manager_get 3) (sample_state\<lparr>db_vfs := sample_world\<rparr>) =
     (Err (Stable MemoryAlreadyRegistered), sample_state\<lparr>db_vfs := sample_world\<rparr>) \<and>
   same_registration sample_world (db_vfs (snd (handle_init idle_api db_memory (vm_identity vec_identity) (manager_get 3)
     (sample_state\<lparr>db_vfs := sample_world\<rparr>))))"
proof -
  let ?s = "sample_state\<lparr>db_vfs := sample_world\<rparr>"
  have run: "handle_init idle_api db_memory (vm_identity vec_identity) (manager_get 3) ?s = (Err (Stable MemoryAlreadyRegistered), ?s)"
    by (simp add: handle_init_def on_store_def tryS_def init_context_def reject_registered_memory_def sample_world_def
        memory_init_def empty_world_def modifyS_def retS_def checked_add_def u64_max_def Let_def)
  have "same_registration (db_vfs ?s) (db_vfs ?s)"
    by (rule failed_init_unregisters [of idle_api ?s "vm_identity vec_identity" "manager_get 3", OF _ _ disjI2 [OF run]])
      (auto simp: idle_api_def sample_state_def sample_world_def init_context_def reject_registered_memory_def
        memory_init_def empty_world_def tryS_def modifyS_def retS_def checked_add_def u64_max_def Let_def)
  then show ?thesis using run by simp
qed

end
