(* ===== verification/Budgeted_Update.thy ===== *)
theory Budgeted_Update
  imports Update_Props Sample_Sqlite Db_Props
begin

text \<open>
  The whole of an update with a budget: beginning, running, cleaning up and reporting.
\<close>

section \<open>Beginning\<close>

lemma progressing_inv: "client_inv c (progressing c b g l w0)"
proof -
  have "current_context (db_vfs s) = Some c" if "progressing c b g l w0 s" for s :: "('a, 'b) vm_state" using that by (simp add: progressing_def)
  then show ?thesis unfolding client_inv_def using progressing_step by blast
qed

lemma begin_no_pages:
  assumes run: "begin_update V w = (Ok n, w')" and ov: "active_overlay w' = Some ov"
  shows "ov_pages ov = []"
proof -
  obtain block w1 where 1: "sb_load V w = (Ok block, w1)" "overlay_begin (db_size block) w1 = (Ok (), w')"
    using run by (auto simp: begin_update_def tryS_def retS_def errS_def split: prod.splits outcome.splits if_splits)
  obtain c where c: "active_context w1 = Some c" "overlay_index (overlays w1) c = None" "w' = w1\<lparr>overlays := overlays w1 @ [(c, overlay_new (db_size block))]\<rparr>"
    using 1(2) by (auto simp: overlay_begin_def active_context_id_def tryS_def split: option.splits if_splits)
  have "c \<notin> fst ` set (overlays w1)" using c(2) by (simp add: overlay_index_None)
  then have "ov = overlay_new (db_size block)"
    using ov c by (simp add: active_overlay_map map_of_eq_None_iff [THEN iffD2] map_add_def)
  then show ?thesis by (simp add: overlay_new_def)
qed

lemma set_budget_step:
  fixes w :: "(db_handle, db_store) vfs_world"
  assumes "active_overlay w = Some ov"
  shows "overlay_set_write_budget p n w = (Ok (), snd (on_overlay (modify_ov (\<lambda>ov. ov\<lparr>ov_write_budget :=
      Some \<lparr>wb_max_pages = p, wb_max_bytes = n, wb_stats = write_stats_default\<rparr>\<rparr>)) w))"
    "current_context (snd (overlay_set_write_budget p n w)) = current_context w"
proof -
  obtain c i where "active_context w = Some c" "overlay_index (overlays w) c = Some i" "snd (overlays w ! i) = ov"
    by (rule active_overlay_index [OF assms])
  then show "overlay_set_write_budget p n w = (Ok (), snd (on_overlay (modify_ov (\<lambda>ov. ov\<lparr>ov_write_budget :=
      Some \<lparr>wb_max_pages = p, wb_max_bytes = n, wb_stats = write_stats_default\<rparr>\<rparr>)) w))"
    "current_context (snd (overlay_set_write_budget p n w)) = current_context w"
    using overlay_index_Some [of "overlays w" c i]
    by (simp_all add: overlay_set_write_budget_def on_overlay_def active_context_id_def modifyS_def)
qed

lemma begin_budget:
  fixes w :: "(db_handle, db_store) vfs_world"
  assumes d: "sdb.db_at w v b" and none: "active_overlay w = None" and imp: "\<not> is_importing b" and cc: "current_context w = Some c"
  obtains w1 w2 where "begin_update db_memory w = (Ok (db_size b), w1)" "overlay_set_write_budget p n w1 = (Ok (), w2)"
    "current_context w2 = Some c" "bounded c b (db_byte v) (Some (p, n)) w2" "in_budget c b (db_byte v) (Some (p, n)) w2 (sdb.file_of v b)"
proof -
  let ?f = "modify_ov (\<lambda>ov. ov\<lparr>ov_write_budget := Some \<lparr>wb_max_pages = p, wb_max_bytes = n, wb_stats = write_stats_default\<rparr>\<rparr>)"
  obtain w1 v1 ov where u: "begin_update db_memory w = (Ok (db_size b), w1)" "sdb.updating w1 v1 b ov"
    "sdb.same_mem v v1" "ov_content (img_byte b (db_byte v1)) ov = sdb.file_of v b"
    using sdb.begin_update_ok [OF d none imp] by metis
  let ?ov = "ov\<lparr>ov_write_budget := Some \<lparr>wb_max_pages = p, wb_max_bytes = n, wb_stats = write_stats_default\<rparr>\<rparr>"
  note o = updating_overlay [OF u(2)]
  have d1: "sdb.db_at w1 v1 b" using u(2) by (simp add: sdb.updating_def)
  then have st: "sdb.steady w1 v1 b w1" unfolding sdb.db_at_def by (blast intro: sdb.steady_refl)
  have "?f (w1, ov) = (Ok (), (w1, ?ov))" by (simp add: modifyS_def)
  from sdb.overlay_step [where f = ?f, OF d1 o this st] obtain w2 v2 where
    2: "on_overlay ?f w1 = (Ok (Some ()), w2)" "sdb.db_at w2 v2 b" "sdb.same_mem v1 v2" "active_overlay w2 = Some ?ov" by auto
  have set: "overlay_set_write_budget p n w1 = (Ok (), w2)" using set_budget_step(1) [OF o, of p n] 2(1) by simp
  have "current_context w1 = Some c" using frame_context(1) [OF within_run [OF iso.within_file_ops(1) u(1)]] cc by simp
  then have cc2: "current_context w2 = Some c" using set_budget_step(2) [OF o, of p n] set by simp
  note g = sdb.same_memD(3) [OF u(3)] sdb.same_memD(3) [OF 2(3)]
  note v = ov_cong [of ?ov ov, simplified]
  have up: "sdb.updating w2 v2 b ?ov" using 2(2,4) u(2) v(1) g by (simp add: sdb.updating_def)
  have co: "ov_content (img_byte b (db_byte v)) ?ov = sdb.file_of v b" using u(4) v(2) g(1) by (simp add: ov_content_def)
  have "ov_size ov = db_size b" using arg_cong [OF u(4), of fst] by (simp add: ov_content_def sdb.file_of_def)
  then have sz: "ov_size ?ov \<le> i64_max" using db_size_fits [OF d] by simp
  have cap: "limits ?ov = Some (p, n)" "capped ?ov" "\<not> exceeded ?ov"
    using begin_no_pages [OF u(1) o] by (simp_all add: limits_def capped_def exceeded_def saturating_mul_def write_stats_default_def)
  show thesis
  proof (rule that [OF u(1) set cc2])
    show "bounded c b (db_byte v) (Some (p, n)) w2"
      by (rule boundedI [of c w2 v2 b _ ?ov]) (use 2 up g cap sz at_context_same [OF cc2] in simp_all)
    show "in_budget c b (db_byte v) (Some (p, n)) w2 (sdb.file_of v b)"
      unfolding in_budget_def by (intro exI [of _ v2] exI [of _ ?ov]) (use up g co cap at_context_same [OF cc2] in simp)
  qed
qed

section \<open>Cleaning up\<close>

lemma settled_same: "same_db s s' \<Longrightarrow> settled c b g l w0 sq work r s \<Longrightarrow> settled c b g l w0 sq work r s'"
  by (rule settled_mono) (simp_all add: same_dbD(1))

lemma bounded_published:
  assumes "bounded c b g l (db_vfs s)"
  shows "published c b (db_size b, img_byte b g) s"
proof -
  obtain v where "sdb.db_at (at_context c (db_vfs s)) v b" "db_byte v = g" using assms unfolding bounded_def by blast
  then show ?thesis unfolding published_def by (intro exI [of _ v]) (simp add: sdb.file_of_def)
qed

lemma clear_read_tx:
  assumes "transactional api tx c wc" "\<not> tx conn (sqlite_state s)" "clear_read_connection api c s = (r, s')"
  shows "\<not> tx conn (sqlite_state s')"
proof (cases "read_connections s c")
  case None
  then show ?thesis using assms by (auto simp: clear_read_connection_def)
next
  case (Some rc)
  obtain x q w where "sqlite3_close api rc (sqlite_state s, db_vfs s) = (x, (q, w))" by (metis surj_pair)
  moreover from this have "\<not> tx conn q" using assms(1,2) unfolding transactional_def by blast
  ultimately show ?thesis
    using assms(3) Some by (auto simp: clear_read_connection_def close_connection_def sqlite_call_def)
qed

text \<open>The \<open>ROLLBACK\<close> of the guard leaves the published file alone, whether the update still runs or SQLite has
  no transaction any more.\<close>

lemma rollback_exec:
  assumes tr: "transactional api tx c wc" and api: "vfs_client api c wc" and conn: "wc conn"
    and cc: "current_context (db_vfs s) = Some c" and pu: "published c b (db_size b, img_byte b g) s"
    and st: "bounded c b g l (db_vfs s) \<or> \<not> tx conn (sqlite_state s)"
  shows "published c b (db_size b, img_byte b g) (ignoring (execute_batch api conn ROLLBACK_SQL) s) \<and>
    current_context (db_vfs (ignoring (execute_batch api conn ROLLBACK_SQL) s)) = Some c"
proof -
  obtain x q w where f: "sqlite3_exec api conn ROLLBACK_SQL (sqlite_state s, db_vfs s) = (x, (q, w))" by (metis surj_pair)
  have "0 \<notin> set ROLLBACK_SQL" by (simp add: ROLLBACK_SQL_def ascii_def)
  then have v: "db_vfs (ignoring (execute_batch api conn ROLLBACK_SQL) s) = w"
    using f by (auto simp: ignoring_def execute_batch_def execute_batch_cstr_def sqlite_call_def tryS_def errS_def retS_def split: prod.splits)
  show ?thesis
  proof (cases "bounded c b g l (db_vfs s)")
    case True
    have "client_run c (db_vfs s) w" by (rule vfs_clientD(2) [OF api cc conn f])
    from client_run_bounded [OF this True] show ?thesis using v cc bounded_published [of c b g l] by metis
  next
    case False
    then obtain le k where "w = (db_vfs s)\<lparr>last_error := le, lock_level := k\<rparr>"
      using st f tr conn cc unfolding transactional_def by blast
    then have "same_db s (ignoring (execute_batch api conn ROLLBACK_SQL) s)" using v unfolding same_db_def by blast
    from same_dbD(1,3) [OF this] show ?thesis using pu cc by metis
  qed
qed

lemma guard_drop_settles:
  assumes tr: "transactional api tx c wc" and api: "vfs_client api c wc" and conn: "wc conn" and cl: "closing tx conn c b g l w0 sq work r e"
    and s': "s' = write_guard_drop api c conn (ue_published e) (be_db e)"
  shows "settled c b g l w0 sq work r s' \<and> current_context (db_vfs s') = Some c \<and> (is_err r \<longrightarrow> write_connections s' c = None)"
proof -
  let ?s = "be_db e"
  have cc: "current_context (db_vfs ?s) = Some c" and se: "settled c b g l w0 sq work r ?s" using cl by (simp_all add: closing_def)
  obtain s1 where 1: "clear_read_connection api c ?s = (Ok (), s1)" "same_db ?s s1"
    using clear_read_ok [OF api cc] by metis
  have k1: "settled c b g l w0 sq work r s1" "current_context (db_vfs s1) = Some c"
    using settled_same [OF 1(2) se] same_dbD(3) [OF 1(2)] cc by simp_all
  show ?thesis
  proof (cases "is_err r")
    case False
    then have "s' = s1" using s' cl 1(1) by (simp add: closing_def write_guard_drop_def ignoring_def Let_def)
    then show ?thesis using k1 False by simp
  next
    case True
    then have "settled c b g l w0 sq work r s2 \<longleftrightarrow> published c b (db_size b, img_byte b g) s2" for s2 :: "('a, 'b) vm_state"
      using se by (cases r) (simp_all add: is_err_def settled_def)
    note err = this
    let ?s2 = "ignoring (execute_batch api conn ROLLBACK_SQL) s1"
    have e: "s' = forget_write_connection c ?s2" using s' cl 1(1) True by (simp add: closing_def write_guard_drop_def ignoring_def Let_def)
    have "bounded c b g l (db_vfs s1) \<or> \<not> tx conn (sqlite_state s1)"
    proof (cases "progressing c b g l w0 ?s")
      case True
      then show ?thesis using 1(2) by (auto simp: progressing_def same_db_def)
    next
      case False
      then show ?thesis using cl True clear_read_tx [OF tr _ 1(1)] by (simp add: closing_def)
    qed
    from rollback_exec [OF tr api conn k1(2) _ this] k1(1) err
    have "published c b (db_size b, img_byte b g) ?s2" "current_context (db_vfs ?s2) = Some c" by blast+
    then show ?thesis
      using e err published_vfs [of s' ?s2] by (simp add: forget_write_connection_def)
  qed
qed

text \<open>The result of the closure, with the errors of the facade among those of the update.\<close>

definition flat :: "((nat, update_error) outcome \<times> update_metrics, db_error) outcome \<Rightarrow> (nat, update_error) outcome" where
  "flat r = (case r of Ok rm \<Rightarrow> fst rm | Err e \<Rightarrow> Err (UpdateDatabase e) | Panic \<Rightarrow> Panic)"

text \<open>How the work of an update went: the connection is opened and the transaction runs up to its COMMIT.\<close>

definition opened :: "nat option \<Rightarrow> query_budget \<Rightarrow> ('a, db_error) outcome \<times> ('c, 'q) vm_state \<Rightarrow>
    ('a \<Rightarrow> (db_handle, db_store, 'c, 'q) update_env \<Rightarrow> ('c, 'q) update_work) \<Rightarrow> ('c, 'q) update_work" where
  "opened start qb x k = (let e = update_env_new start qb (snd x) in
     case fst x of Ok conn \<Rightarrow> k conn e | Err err \<Rightarrow> (Err (UpdateDatabase err), e) | Panic \<Rightarrow> (Panic, e))"

lemma budget_body:
  assumes tr: "transactional api tx c wc" and api: "vfs_client api c wc" and sq: "statement_client sq tx c wc ws" and re: "rows_end sq ws rank"
    and tab: "\<forall>conn. write_connections s c = Some conn \<longrightarrow> wc conn" and s: "progressing c b g l w0 s"
    and run: "tryS (write_connection api c n) (\<lambda>conn s.
         let (r, e) = update_settled (update_transaction api sq db_memory qb sql vs conn) (update_env_new start qb s);
             s = write_guard_drop api c conn (ue_published e) (be_db e)
         in (if r = Panic then Panic else Ok (r, ue_metrics e), release_connection api c conn s)) s = (r, s')"
  shows "settled c b g l w0 sq (opened start qb (write_connection api c n s) (update_attempt api sq qb sql vs)) (flat r) s' \<and> r \<noteq> Panic \<and> current_context (db_vfs s') = Some c \<and> (is_err (flat r) \<longrightarrow> write_connections s' c = None)"
proof -
  obtain r1 s1 where 1: "write_connection api c n s = (r1, s1)" by fastforce
  note k1 = write_connection_ok [OF progressing_inv api tab s 1]
  show ?thesis
  proof (cases r1)
    case (Ok conn)
    then have conn: "wc conn" using k1 by blast
    let ?m = "update_transaction api sq db_memory qb sql vs conn" and ?e = "update_env_new start qb s1"
    obtain r2 e2 where 2: "?m ?e = (r2, e2)" by fastforce
    obtain r3 e3 where 3: "update_settled ?m ?e = (r3, e3)" by fastforce
    have "progressing c b g l w0 (be_db ?e)" "\<not> ue_published ?e" using k1 by (simp_all add: update_env_new_def)
    then have "closing tx conn c b g l w0 sq (update_attempt api sq qb sql vs conn ?e) r2 e2"
      by (rule transaction_closing [OF tr api sq re conn _ _ 2])
    note cl = settled_closing [where m = ?m, OF 2 this 3]
    define s4 where "s4 = write_guard_drop api c conn (ue_published e3) (be_db e3)"
    note k4 = guard_drop_settles [OF tr api conn cl s4_def]
    have np: "r3 \<noteq> Panic" using k4 by (auto simp: settled_def)
    have e: "r = Ok (r3, ue_metrics e3)" "s' = release_connection api c conn s4"
      using run 1 3 Ok np by (auto simp: s4_def Let_def)
    note k5 = release_ok [OF api, of s4 conn]
    show ?thesis
      using k4 k5 e settled_same [OF k5(1) conjunct1 [OF k4]] same_dbD(3) [OF k5(1)] 1 Ok by (auto simp: flat_def opened_def)
  next
    case (Err x)
    then have e: "r = Err x" "s' = s1" using run 1 by simp_all
    then show ?thesis
      using k1 1 Err progressing_published [of c b g l w0 s1]
      by (auto simp: flat_def settled_def progressing_def is_err_def opened_def)
  qed (use k1 in simp)
qed

section \<open>The whole update\<close>

lemma counter_run:
  assumes "statement_client sq tx c wc ws"
  obtains n q where "instruction_counter sq s = (Ok n, s\<lparr>sqlite_state := q\<rparr>)"
proof -
  obtain n q w where f: "performance_counter sq (sqlite_state s, db_vfs s) = (n, (q, w))" by (metis surj_pair)
  moreover have "w = db_vfs s" using statement_clientD(12) [OF assms] f unfolding quiet_def by blast
  ultimately show thesis using that by (simp add: instruction_counter_def sqlite_call_def)
qed

lemma delta_run:
  assumes "statement_client sq tx c wc ws"
  obtains n q where "delta sq start s = (Ok n, s\<lparr>sqlite_state := q\<rparr>)"
proof -
  obtain n q where "instruction_counter sq s = (Ok n, s\<lparr>sqlite_state := q\<rparr>)" by (rule counter_run [OF assms])
  then show thesis using that by (simp add: delta_def retS_def)
qed

definition budget_error :: "update_error \<Rightarrow> bool" where
  "budget_error e \<longleftrightarrow> e = UpdateCounterUnavailable \<or> (\<exists>reason. e = InvalidBudget reason)"

lemma validate_run:
  assumes "statement_client sq tx c wc ws"
  obtains x q where "validate sq budget s = (Ok x, s\<lparr>sqlite_state := q\<rparr>)" "\<forall>e. x = Some e \<longrightarrow> budget_error (classify e)"
proof -
  obtain n q where n: "instruction_counter sq s = (Ok n, s\<lparr>sqlite_state := q\<rparr>)" by (rule counter_run [OF assms])
  have "\<exists>x. (validate sq budget s = (Ok x, s) \<or> validate sq budget s = (Ok x, s\<lparr>sqlite_state := q\<rparr>)) \<and>
      (\<forall>e. x = Some e \<longrightarrow> budget_error (classify e))"
    using n by (auto simp: validate_def budget_error_def retS_def)
  then show thesis using that [of _ "sqlite_state s"] that by auto
qed

lemma in_budget_pages:
  assumes "in_budget c b g (Some (p, n)) w a"
  shows "dirty_page_count (at_context c w) \<le> p" "saturating_mul (dirty_page_count (at_context c w)) PS \<le> n"
  using assms by (auto simp: in_budget_def capped_def dirty_page_count_def sdb.updating_def)

lemma settled_unchanged:
  assumes "sdb.db_at (at_context c (db_vfs s)) v b"
  shows "published c b (sdb.file_of v b) s"
  using assms unfolding published_def by blast

definition budget_opening :: "('c, 'q) vm_api \<Rightarrow> context_id \<Rightarrow> update_budget \<Rightarrow> (db_handle, db_store, 'c, 'q, 'c) db_stm" where
  "budget_opening api c budget = tryS (reject_active_read_connection c) (\<lambda>_. tryS (clear_read_connection api c) (\<lambda>_.
     tryS (on_store (begin_update db_memory)) (\<lambda>size.
     tryS (on_store (overlay_set_write_budget (max_dirty_pages budget) (max_changed_bytes budget))) (\<lambda>_. write_connection api c size))))"

lemma closure_settles:
  assumes tr: "transactional api tx c wc" and api: "vfs_client api c wc" and sq: "statement_client sq tx c wc ws" and re: "rows_end sq ws rank"
    and tab: "\<forall>conn. write_connections s c = Some conn \<longrightarrow> wc conn" and rd: "read_depth (active_reads s) c = 0"
    and d: "sdb.db_at (at_context c (db_vfs s)) v b" "idle c s" "\<not> is_importing b"
    and run: "db_with_context c (update_closure_run api sq db_memory c budget qb start sql vs) s = (r, s')"
  obtains w0 where "in_budget c b (db_byte v) (Some (max_dirty_pages budget, max_changed_bytes budget)) w0 (sdb.file_of v b)"
    "settled c b (db_byte v) (Some (max_dirty_pages budget, max_changed_bytes budget)) w0 sq
       (opened start qb (budget_opening api c budget (at_database c s)) (update_attempt api sq qb sql vs)) (flat r) s'"
    "r \<noteq> Panic" "idle c s'" "current_context (db_vfs s') = current_context (db_vfs s)" "is_err (flat r) \<longrightarrow> write_connections s' c = None"
proof -
  let ?l = "Some (max_dirty_pages budget, max_changed_bytes budget)" and ?g = "db_byte v"
  let ?s0 = "at_database c s"
  obtain s1 where 1: "clear_read_connection api c ?s0 = (Ok (), s1)" "same_db ?s0 s1" "write_connections s1 = write_connections s"
    using clear_read_ok [OF api, of ?s0] by auto
  obtain le lk where w1: "db_vfs s1 = (at_context c (db_vfs s))\<lparr>last_error := le, lock_level := lk\<rparr>"
    using 1(2) by (auto simp: same_db_def at_context_def)
  have d1: "sdb.db_at (db_vfs s1) v b" "active_overlay (db_vfs s1) = None" "current_context (db_vfs s1) = Some c"
    using d(1,2) w1 by (simp_all add: idle_def)
  obtain w2 w3 where 2: "begin_update db_memory (db_vfs s1) = (Ok (db_size b), w2)"
    "overlay_set_write_budget (max_dirty_pages budget) (max_changed_bytes budget) w2 = (Ok (), w3)"
    "current_context w3 = Some c" "bounded c b ?g ?l w3" "in_budget c b ?g ?l w3 (sdb.file_of v b)"
    by (rule begin_budget [OF d1(1,2) d(3) d1(3)])
  let ?s3 = "s1\<lparr>db_vfs := w3\<rparr>"
  have p3: "progressing c b ?g ?l w3 ?s3" using 2(3,4) by (simp add: progressing_def)
  let ?body = "tryS (write_connection api c (db_size b)) (\<lambda>conn s.
         let (r, e) = update_settled (update_transaction api sq db_memory qb sql vs conn) (update_env_new start qb s);
             s = write_guard_drop api c conn (ue_published e) (be_db e)
         in (if r = Panic then Panic else Ok (r, ue_metrics e), release_connection api c conn s))"
  obtain r4 s4 where 4: "?body ?s3 = (r4, s4)" by fastforce
  have "\<forall>conn. write_connections ?s3 c = Some conn \<longrightarrow> wc conn" using tab 1(3) by simp
  note k4 = budget_body [OF tr api sq re this p3 4]
  have op: "budget_opening api c budget ?s0 = write_connection api c (db_size b) ?s3"
    using rd 1(1) 2(1,2) by (simp add: budget_opening_def reject_iff on_store_def)
  let ?s5 = "s4\<lparr>db_vfs := rollback_update (db_vfs s4)\<rparr>"
  have e: "r = r4" "s' = ?s5\<lparr>db_vfs := (db_vfs ?s5)\<lparr>current_context := current_context (db_vfs s)\<rparr>\<rparr>"
    using run rd 1(1) 2(1,2) 4
    by (simp_all add: db_with_context_def update_closure_run_def reject_iff on_store_def overlay_guard_def at_context_def Let_def)
  have pu: "published c b' a s'" if "published c b' a s4" for b' a
    using rollback_keeps(1) [OF that] k4 e by (simp add: published_def)
  obtain b' a where "published c b' a s4" using k4 by (auto simp: settled_def split: outcome.splits)
  from rollback_keeps(2) [OF this] have "idle c s'" using k4 e by (simp add: idle_def)
  moreover have "settled c b ?g ?l w3 sq (opened start qb (budget_opening api c budget ?s0) (update_attempt api sq qb sql vs)) (flat r4) s'"
    unfolding op using settled_mono [OF pu conjunct1 [OF k4]] .
  ultimately show thesis using that [OF 2(5)] k4 e by simp
qed

text \<open>The query budget a statement of the update runs under, and the work of the whole update: everything
  the code does before it publishes.\<close>

definition execution_budget :: "update_budget \<Rightarrow> query_budget" where
  "execution_budget budget = default_budget\<lparr>
     max_instructions := map_option (\<lambda>limit. limit - commit_reserve_instructions budget) (ub_max_instructions budget),
     max_sql_bytes := ub_max_sql_bytes budget, max_value_bytes := ub_max_value_bytes budget,
     progress_interval := ub_progress_interval budget\<rparr>"

definition budget_work :: "('c, 'q) vm_api \<Rightarrow> (db_handle, db_store, 'c, 'st, 'q, 'z) budget_api_scheme \<Rightarrow> context_id \<Rightarrow> byte list \<Rightarrow>
    sql_value list \<Rightarrow> update_budget \<Rightarrow> ('c, 'q) vm_state \<Rightarrow> ('c, 'q) update_work" where
  "budget_work api sq c sql vs budget s =
    (let qb = execution_budget budget; s = snd (validate sq qb s); (counter, s) = instruction_counter sq s;
         start = (case counter of Ok n \<Rightarrow> n | _ \<Rightarrow> None) in
     opened start qb (budget_opening api c budget (at_database c s)) (update_attempt api sq qb sql vs))"

text \<open>A budget is accepted when it leaves instructions beside a positive reserve for the commit and its
  other limits are valid.\<close>

definition reserve_refused :: "update_budget \<Rightarrow> bool" where
  "reserve_refused budget \<longleftrightarrow> (case ub_max_instructions budget of
     Some limit \<Rightarrow> commit_reserve_instructions budget = 0 \<or> limit \<le> commit_reserve_instructions budget | None \<Rightarrow> False)"

definition budget_accepted :: "(db_handle, db_store, 'c, 'st, 'q, 'z) budget_api_scheme \<Rightarrow> update_budget \<Rightarrow> ('c, 'q) vm_state \<Rightarrow> bool" where
  "budget_accepted sq budget s \<longleftrightarrow> \<not> reserve_refused budget \<and> fst (validate sq (execution_budget budget) s) = Ok None"

text \<open>The run of an update whose budget is accepted.\<close>

lemma update_run_settles:
  assumes tr: "transactional api tx c wc" and api: "vfs_client api c wc" and sq: "statement_client sq tx c wc ws" and re: "rows_end sq ws rank"
    and tab: "\<forall>conn. write_connections s c = Some conn \<longrightarrow> wc conn" and rd: "read_depth (active_reads s) c = 0"
    and d: "sdb.db_at (at_context c (db_vfs s)) v b" "idle c s" "\<not> is_importing b"
    and ok: "\<not> reserve_refused budget" and val: "validate sq (execution_budget budget) s = (Ok None, s\<lparr>sqlite_state := q1\<rparr>)"
    and run: "update_run api sq db_memory c sql vs budget s = (rep, s')"
  obtains w0 where "in_budget c b (db_byte v) (Some (max_dirty_pages budget, max_changed_bytes budget)) w0 (sdb.file_of v b)"
    "settled c b (db_byte v) (Some (max_dirty_pages budget, max_changed_bytes budget)) w0 sq (budget_work api sq c sql vs budget s) (ur_result rep) s'"
    "idle c s'" "current_context (db_vfs s') = current_context (db_vfs s)" "is_err (ur_result rep) \<longrightarrow> write_connections s' c = None"
proof -
  let ?qb = "execution_budget budget" and ?l = "Some (max_dirty_pages budget, max_changed_bytes budget)" and ?g = "db_byte v"
  let ?work = "budget_work api sq c sql vs budget s"
  obtain start q2 where 2: "instruction_counter sq (s\<lparr>sqlite_state := q1\<rparr>) = (Ok start, s\<lparr>sqlite_state := q2\<rparr>)"
    using counter_run [OF sq, of "s\<lparr>sqlite_state := q1\<rparr>"] by auto
  let ?s2 = "s\<lparr>sqlite_state := q2\<rparr>"
  obtain r s3 where 3: "db_with_context c (update_closure_run api sq db_memory c budget ?qb start sql vs) ?s2 = (r, s3)" by fastforce
  have w: "?work = opened start ?qb (budget_opening api c budget (at_database c ?s2)) (update_attempt api sq ?qb sql vs)"
    using val 2 by (simp add: budget_work_def Let_def)
  obtain w0 where k: "in_budget c b ?g ?l w0 (sdb.file_of v b)" "settled c b ?g ?l w0 sq ?work (flat r) s3" "r \<noteq> Panic" "idle c s3"
    "current_context (db_vfs s3) = current_context (db_vfs ?s2)" "is_err (flat r) \<longrightarrow> write_connections s3 c = None"
    unfolding w by (rule closure_settles [OF tr api sq re _ _ _ _ d(3) 3, of v]) (use tab rd d(1,2) in \<open>simp_all add: idle_def\<close>)
  obtain used q4 where 4: "delta sq start s3 = (Ok used, s3\<lparr>sqlite_state := q4\<rparr>)" by (rule delta_run [OF sq])
  have e: "ur_result rep = flat r" "s' = s3\<lparr>sqlite_state := q4\<rparr>"
    using run ok val 2 3 4 k(3)
    by (cases r; auto simp: update_run_def reserve_refused_def execution_budget_def Let_def flat_def split: prod.splits)+
  show thesis
    by (rule that [OF k(1)]) (use settled_mono [of c s3 s'] published_vfs [of s' s3] k e in \<open>simp_all add: idle_def\<close>)
qed

text \<open>C2. An update with a budget is atomic and keeps to its budget.  Its work is what the code does before it
  publishes: an overlay with the budget is begun, the connection is opened, and BEGIN, the statement and
  COMMIT are run.  When the update succeeds, its work succeeded with the same count of changed rows, and the
  published file is exactly the file the writing connection sees in the state its work ended in, which it
  reached from the old file through requests of a client of the VFS; no page was refused by the budget, and
  the dirty pages published are within the limits on pages and bytes.  When it returns an error, the
  published file and the superblock are the old ones.  With a budget that is accepted, the writing
  connection is given up then and successful work was refused only because the instructions were spent or
  the memory could not take the commit; a budget that is not accepted gives its own errors.  In all cases no overlay is left, the context is restored, and
  the update returns: it neither panics nor runs forever.\<close>

theorem budgeted_update_atomic:
  assumes tr: "transactional api tx c wc" and api: "vfs_client api c wc" and sq: "statement_client sq tx c wc ws" and re: "rows_end sq ws rank"
    and tab: "\<forall>conn. write_connections s c = Some conn \<longrightarrow> wc conn" and rd: "read_depth (active_reads s) c = 0"
    and d: "sdb.db_at (at_context c (db_vfs s)) v b" "idle c s" "\<not> is_importing b"
    and work: "budget_work api sq c sql vs budget s = (rw, e1)"
    and run: "update_run api sq db_memory c sql vs budget s = (rep, s')"
  shows "(case ur_result rep of
      Ok n \<Rightarrow> (\<exists>before stats. rw = Ok (n, before, stats)) \<and>
        (\<exists>w0. in_budget c b (db_byte v) (Some (max_dirty_pages budget, max_changed_bytes budget)) w0 (sdb.file_of v b) \<and>
          client_run c w0 (db_vfs (be_db e1))) \<and>
        (\<exists>b' a. in_budget c b (db_byte v) (Some (max_dirty_pages budget, max_changed_bytes budget)) (db_vfs (be_db e1)) a \<and>
          published c b' a s') \<and>
        dirty_page_count (at_context c (db_vfs (be_db e1))) \<le> max_dirty_pages budget \<and>
        saturating_mul (dirty_page_count (at_context c (db_vfs (be_db e1)))) PS \<le> max_changed_bytes budget
    | Err error \<Rightarrow> published c b (sdb.file_of v b) s' \<and>
        (if budget_accepted sq budget s then write_connections s' c = None \<and> ((\<exists>x. rw = Ok x) \<longrightarrow> refusal sq e1 error)
         else budget_error error)
    | Panic \<Rightarrow> False) \<and>
    idle c s' \<and> current_context (db_vfs s') = current_context (db_vfs s)"
proof (cases "reserve_refused budget")
  case True
  then have "ur_result rep = Err (InvalidBudget ''commit reserve must be positive and smaller than max_instructions'')" "s' = s"
    using run by (auto simp: update_run_def reserve_refused_def Let_def update_report_failed_def)
  then show ?thesis using settled_unchanged [OF d(1)] d(2) True by (simp add: budget_error_def budget_accepted_def)
next
  case False
  obtain x q1 where 1: "validate sq (execution_budget budget) s = (Ok x, s\<lparr>sqlite_state := q1\<rparr>)" "\<forall>e. x = Some e \<longrightarrow> budget_error (classify e)"
    by (rule validate_run [OF sq])
  show ?thesis
  proof (cases x)
    case (Some e)
    then have "ur_result rep = Err (classify e)" "s' = s\<lparr>sqlite_state := q1\<rparr>"
      using run False 1 by (auto simp: update_run_def reserve_refused_def execution_budget_def Let_def update_report_failed_def)
    then show ?thesis using settled_unchanged [of c s' v b] d(1,2) 1 Some by (simp add: idle_def budget_accepted_def)
  next
    case None
    let ?l = "Some (max_dirty_pages budget, max_changed_bytes budget)" and ?g = "db_byte v"
    obtain w0 where k: "in_budget c b ?g ?l w0 (sdb.file_of v b)" "settled c b ?g ?l w0 sq (rw, e1) (ur_result rep) s'" "idle c s'"
      "current_context (db_vfs s') = current_context (db_vfs s)" "is_err (ur_result rep) \<longrightarrow> write_connections s' c = None"
      by (rule update_run_settles [OF tr api sq re tab rd d False 1(1) [unfolded None] run, unfolded work])
    show ?thesis
    proof (cases "ur_result rep")
      case (Ok n)
      then obtain b' a where w: "client_run c w0 (db_vfs (be_db e1))" "in_budget c b ?g ?l (db_vfs (be_db e1)) a" "published c b' a s'"
        "\<exists>before stats. rw = Ok (n, before, stats)"
        using k(2) unfolding settled_def by auto
      show ?thesis
        using k(1) w in_budget_pages [OF w(2)] k(3,4) Ok by (auto simp del: split_paired_Ex)
    qed (use k False 1(1) None in \<open>auto simp: settled_def is_err_def sdb.file_of_def budget_accepted_def\<close>)
  qed
qed

section \<open>A statement that fails\<close>

text \<open>SQLite writes two bytes into the database before it finds that a constraint is violated.\<close>

definition refusing_api :: "(unit, unit, mini) vm_budget_api" where
  "refusing_api = mini_api\<lparr>sqlite3_stmt_readonly := (\<lambda>_ _. 0),
     sqlite3_step := (\<lambda>_ qw. (19, (fst qw, snd (snd (x_write db_memory [7, 8] 2 0 (sample_file, snd qw))))))\<rparr>"

lemma sample_client_write: "client_run 1 w (snd (snd (x_write db_memory [7, 8] 2 0 (sample_file, w))))" for w :: "(db_handle, db_store) vfs_world"
  by (rule r_into_rtranclp, rule write_step [of 1 sample_file 0 "[7, 8]" w "fst (x_write db_memory [7, 8] 2 0 (sample_file, w))"
        "fst (snd (x_write db_memory [7, 8] 2 0 (sample_file, w)))"])
    (simp_all add: writer_handle_def sample_file_def int_max_defs)

lemma refusing_client: "statement_client refusing_api (\<lambda>_ _. False) 1 any any" "rows_end refusing_api any mini_rows"
proof -
  show "statement_client refusing_api (\<lambda>_ _. False) 1 any any"
    using sample_client_write by (simp add: statement_client_def client_call_def quiet_def refusing_api_def mini_api_def mini_call_def)
  show "rows_end refusing_api any mini_rows"
    by (simp add: rows_end_def refusing_api_def mini_api_def mini_call_def sqlite_codes)
qed

lemma mini_client: "vfs_client mini_sqlite c any" "transactional mini_sqlite (\<lambda>_ _. False) c any"
proof -
  have "\<exists>le l. w = w\<lparr>last_error := le, lock_level := l\<rparr>" for w :: "(db_handle, db_store) vfs_world"
    by (rule exI [of _ "last_error w"], rule exI [of _ "lock_level w"]) simp
  then show "vfs_client mini_sqlite c any" "transactional mini_sqlite (\<lambda>_ _. False) c any"
    by (simp_all add: vfs_client_def transactional_def mini_sqlite_def mini_call_def)
qed

definition mini_update_state :: "(unit, mini) vm_state" where
  "mini_update_state = mini_state\<lparr>db_vfs := sample_db, read_connections := Map.empty\<rparr>"

lemma refusing_transaction:
  assumes "max_instructions qb = None"
  shows "fst (update_transaction mini_sqlite refusing_api db_memory qb [65] [] () (update_env_new start qb s)) \<noteq> Ok n"
  using assms
  by (simp add: update_transaction_def ucheck_def classified_def check_def update_env_new_def udb_def on_db_def execute_batch_def
      execute_batch_cstr_def sqlite_call_def mini_sqlite_def mini_call_def refusing_api_def observer_enter_def set_query_observer_def
      install_observer_def lower_limit_def dropping_def update_observed_def update_statement_def authorizer_enter_def
      instruction_counter_def prepare_statement_def stmt_of_raw_def sqlite_get_def tail_is_empty_def from_cached_raw_def usize_of_c_int_def
      delta_def umetric_def update_prepared_def is_read_only_def update_execution_def bind_statement_def query_def reset_and_bind_def
      reset_def rows_new_def resume_def drain_measured_def drain_rows.simps next_row_def after_step_def step_def stmt_error_def too_long_def
      metrics_read_def status_counter_def sqlite_codes tryS_def retS_def errS_def getS_def modifyS_def Let_def split: option.splits)

lemma refusing_settled:
  assumes "max_instructions qb = None"
  shows "fst (update_settled (update_transaction mini_sqlite refusing_api db_memory qb [65] [] ()) (update_env_new start qb s)) \<noteq> Ok n"
proof -
  let ?m = "update_transaction mini_sqlite refusing_api db_memory qb [65] [] ()"
  obtain r e where "?m (update_env_new start qb s) = (r, e)" by fastforce
  then show ?thesis
    using refusing_transaction [OF assms, of start s n]
    by (auto simp: update_settled_def write_stats_of_def getS_def umetric_def modifyS_def panicS_def errS_def resume_def split: option.splits)
qed

lemma refusing_run: "ur_result (fst (update_run mini_sqlite refusing_api db_memory 1 [65] [] default_update_budget s)) \<noteq> Ok n"
proof -
  let ?qb = "default_budget\<lparr>max_instructions := None, max_sql_bytes := Some 1048576, max_value_bytes := Some 1048576, progress_interval := 1000\<rparr>"
  have "fst (update_closure_run mini_sqlite refusing_api db_memory 1 default_update_budget ?qb start [65] [] s) \<noteq> Ok (Ok n, m)" for start s m
    using refusing_settled [of ?qb start]
    by (auto simp: update_closure_run_def overlay_guard_def tryS_def Let_def split: prod.splits outcome.splits if_splits) (metis fst_conv)+
  then show ?thesis
    by (auto simp: update_run_def default_update_budget_def validate_def limit_ok_def i32_max_def update_report_failed_def db_with_context_def Let_def
        retS_def split: prod.splits outcome.splits option.splits) (metis fst_conv)+
qed

section \<open>A statement that succeeds\<close>

text \<open>SQLite writes two bytes into the database and is done.\<close>

definition writing_api :: "(unit, unit, mini) vm_budget_api" where
  "writing_api = mini_api\<lparr>sqlite3_stmt_readonly := (\<lambda>_ _. 0),
     sqlite3_step := (\<lambda>_ qw. (SQLITE_DONE, (fst qw, snd (snd (x_write db_memory [7, 8] 2 0 (sample_file, snd qw))))))\<rparr>"

lemma writing_client: "statement_client writing_api (\<lambda>_ _. False) 1 any any" "rows_end writing_api any mini_rows"
proof -
  show "statement_client writing_api (\<lambda>_ _. False) 1 any any"
    using sample_client_write by (simp add: statement_client_def client_call_def quiet_def writing_api_def mini_api_def mini_call_def)
  show "rows_end writing_api any mini_rows"
    by (simp add: rows_end_def writing_api_def mini_api_def mini_call_def sqlite_codes)
qed

lemma sql_texts: "0 \<notin> set BEGIN_SQL" "0 \<notin> set COMMIT_SQL"
  by (simp_all add: BEGIN_SQL_def COMMIT_SQL_def ascii_def)

lemma writing_attempt:
  assumes "x_write db_memory [7, 8] 2 0 (sample_file, db_vfs s) = (Ok SQLITE_OK, (sample_file, w'))"
    and "ws_exceeded (overlay_write_stats w') = None" and "\<not> query_observer_active s ()"
    and "max_instructions qb = None" "max_sql_bytes qb = Some 1048576"
  shows "case update_attempt mini_sqlite writing_api qb [65] [] () (update_env_new start qb s) of
    (Ok x, e) \<Rightarrow> db_vfs (be_db e) = w' \<and> be_limit e = None | _ \<Rightarrow> False"
  using assms
  by (simp add: update_attempt_def ucheck_def classified_def check_def update_env_new_def udb_def on_db_def execute_batch_def
      execute_batch_cstr_def sqlite_call_def mini_sqlite_def mini_call_def writing_api_def observer_enter_def observer_drop_def set_query_observer_def
      install_observer_def lower_limit_def dropping_def update_observed_def update_statement_def authorizer_enter_def authorizer_drop_def
      instruction_counter_def prepare_statement_def stmt_of_raw_def sqlite_get_def tail_is_empty_def from_cached_raw_def usize_of_c_int_def
      delta_def umetric_def update_prepared_def is_read_only_def update_execution_def bind_statement_def query_def reset_and_bind_def
      reset_def rows_new_def resume_def drain_measured_def drain_rows.simps next_row_def after_step_def step_def stmt_error_def too_long_def
      metrics_read_def status_counter_def write_stats_of_def changes_def drop_rows_def drop_statement_def clear_static_bindings_def ignoring_def
      sql_texts sqlite_codes tryS_def retS_def errS_def getS_def modifyS_def Let_def split: option.splits)

abbreviation sample_budget :: "write_stats \<Rightarrow> write_budget option" where
  "sample_budget st \<equiv> Some \<lparr>wb_max_pages = 64, wb_max_bytes = 1048576, wb_stats = st\<rparr>"

lemma sample_set_budget:
  fixes w :: "(db_handle, db_store) vfs_world"
  assumes u: "sdb.updating w v fresh (begun None)" and cc: "current_context w = Some 1"
  obtains w' where "overlay_set_write_budget 64 1048576 w = (Ok (), w')" "sdb.updating w' v fresh (begun (sample_budget write_stats_default))"
    "current_context w' = Some 1"
proof -
  let ?f = "modify_ov (\<lambda>ov. ov\<lparr>ov_write_budget := sample_budget write_stats_default\<rparr>)"
  note o = updating_overlay [OF u]
  have d: "sdb.db_at w v fresh" using u by (simp add: sdb.updating_def)
  then have st: "sdb.steady w v fresh w" unfolding sdb.db_at_def by (blast intro: sdb.steady_refl)
  have "?f (w, begun None) = (Ok (), (w, begun (sample_budget write_stats_default)))" by (simp add: modifyS_def begun_def)
  from sdb.overlay_step [where f = ?f, OF d o this st] obtain w' v' where
    2: "on_overlay ?f w = (Ok (Some ()), w')" "sdb.db_at w' v' fresh" "sdb.same_mem v v'"
      "active_overlay w' = Some (begun (sample_budget write_stats_default))"
    by auto
  have set: "overlay_set_write_budget 64 1048576 w = (Ok (), w')" using set_budget_step(1) [OF o, of 64 1048576] 2(1) by simp
  then have "active_mem w' = active_mem w"
    by (auto simp: overlay_set_write_budget_def active_mem_def active_context_def split: option.splits)
  then have "v' = v" using d 2(2) sdb.holdsD(1) unfolding sdb.db_at_def by (metis option.inject)
  then have "sdb.updating w' v fresh (begun (sample_budget write_stats_default))"
    using u 2(2,4) ov_cong [of "begun (sample_budget write_stats_default)" "begun None"]
    by (simp add: sdb.updating_def begun_def overlay_new_def)
  moreover have "current_context w' = Some 1" using set_budget_step(2) [OF o, of 64 1048576] set cc by simp
  ultimately show thesis using that set by blast
qed

lemma writing_accepted: "budget_accepted writing_api default_update_budget s"
  by (simp add: budget_accepted_def reserve_refused_def default_update_budget_def execution_budget_def default_budget_def validate_def
      limit_ok_def i32_max_def retS_def)

lemma writing_budget_work:
  obtains x e1 v wb where "budget_work mini_sqlite writing_api 1 [65] [] default_update_budget mini_update_state = (Ok x, e1)"
    "sdb.updating (at_context 1 (db_vfs (be_db e1))) v fresh (written wb)" "\<forall>err. \<not> refusal writing_api e1 err"
proof -
  obtain w v where b: "begin_update db_memory (at_context 1 sample_db) = (Ok 0, w)" "sdb.updating w v fresh (begun None)" "can_hold v 10"
    by (rule sample_begin)
  have cc: "current_context w = Some 1" using frame_context(1) [OF within_run [OF iso.within_file_ops(1) b(1)]] by simp
  obtain w1 where 1: "overlay_set_write_budget 64 1048576 w = (Ok (), w1)" "sdb.updating w1 v fresh (begun (sample_budget write_stats_default))"
    "current_context w1 = Some 1"
    by (rule sample_set_budget [OF b(2) cc])
  define st where "st = write_stats_default\<lparr>ws_dirty_pages := 1, ws_peak_bytes := PS\<rparr>"
  have "admits (sample_budget write_stats_default) (sample_budget st)"
    by (simp add: admits_def write_stats_default_def st_def config_defs)
  then obtain w2 v2 where 2: "blob_write_at db_memory 0 [7, 8] w1 = (Ok (), w2)" "sdb.updating w2 v2 fresh (written (sample_budget st))"
    "fst (commit_update db_memory w2) = Ok ()"
    by (rule sample_write [OF 1(2) b(3)])
  note x = sample_x_write [OF 2(1) 1(3)]
  let ?qb = "execution_budget default_update_budget"
  let ?s = "mini_update_state\<lparr>db_vfs := w1, write_connections := [1 \<mapsto> ()]\<rparr>"
  have e: "ws_exceeded (overlay_write_stats w2) = None"
    using updating_overlay [OF 2(2)] by (simp add: overlay_write_stats_def written_def st_def write_stats_default_def)
  have q: "max_instructions ?qb = None" "max_sql_bytes ?qb = Some 1048576"
    by (simp_all add: execution_budget_def default_update_budget_def default_budget_def)
  have "budget_work mini_sqlite writing_api 1 [65] [] default_update_budget mini_update_state =
      update_attempt mini_sqlite writing_api ?qb [65] [] () (update_env_new None ?qb ?s)"
    using b(1) 1(1)
    by (simp add: budget_work_def execution_budget_def default_update_budget_def default_budget_def validate_def limit_ok_def i32_max_def
      instruction_counter_def writing_api_def mini_update_state_def mini_state_def opened_def budget_opening_def
      reject_active_read_connection_def clear_read_connection_def read_depth_def
      write_connection_def open_read_write_def open_read_write_existing_def mini_sqlite_def mini_call_def
      open_read_write_with_page_size_def connection_open_def set_query_observer_def or_close_def apply_read_write_def execute_batch_cstr_def
      sqlite_call_def tryS_def catchS_def retS_def at_context_def
      modifyS_def on_store_def Let_def fun_upd_idem)
  moreover obtain y e1 where w: "update_attempt mini_sqlite writing_api ?qb [65] [] () (update_env_new None ?qb ?s) = (Ok y, e1)"
    "db_vfs (be_db e1) = w2" "be_limit e1 = None"
    using writing_attempt [of ?s w2 ?qb None] x(1) e q
    by (auto simp: mini_update_state_def mini_state_def split: prod.splits outcome.splits)
  moreover have "\<forall>err. \<not> refusal writing_api e1 err"
    using 2(3) w(2,3) by (auto simp: refusal_def ucheck_def classified_def check_def retS_def on_store_def split: prod.splits outcome.splits)
  ultimately show thesis using that 2(2) at_context_same [OF x(2)] by simp
qed

text \<open>An update that succeeds, and one whose statement fails after it has written.\<close>

theorem budgeted_update_atomic_witness:
  "(\<exists>n b s' rep. update_run mini_sqlite writing_api db_memory 1 [65] [] default_update_budget mini_update_state = (rep, s') \<and>
     ur_result rep = Ok n \<and> published 1 b (2, \<lambda>i. if i = 0 then 7 else if i = 1 then 8 else 0) s') \<and>
   published 1 fresh (0, \<lambda>_. 0) (snd (update_run mini_sqlite refusing_api db_memory 1 [65] [] default_update_budget mini_update_state))"
proof -
  obtain v where v: "sdb.db_at sample_db v fresh" "sdb.file_of v fresh = (0, \<lambda>_. 0)" by (rule sample_at)
  have d: "sdb.db_at (at_context 1 (db_vfs mini_update_state)) v fresh" "idle 1 mini_update_state"
    using db_at_context(1) [OF sample_load(4), of v fresh] db_at_context(2) [OF sample_load(4)] v(1) sample_load(3)
    by (simp_all add: mini_update_state_def idle_def)
  have t: "\<forall>conn. write_connections mini_update_state 1 = Some conn \<longrightarrow> True" "read_depth (active_reads mini_update_state) 1 = 0"
    by (simp_all add: mini_update_state_def mini_state_def read_depth_def)
  obtain rep s' where run: "update_run mini_sqlite refusing_api db_memory 1 [65] [] default_update_budget mini_update_state = (rep, s')" by fastforce
  obtain rw e1 where work: "budget_work mini_sqlite refusing_api 1 [65] [] default_update_budget mini_update_state = (rw, e1)" by fastforce
  have "\<forall>n. ur_result rep \<noteq> Ok n" using refusing_run [of mini_update_state] run by simp
  with budgeted_update_atomic [OF mini_client(2,1) refusing_client t d _ work run]
  have "published 1 fresh (0, \<lambda>_. 0) s'" using v(2) by (cases "ur_result rep") simp_all
  moreover obtain x e2 v2 wb where w2: "budget_work mini_sqlite writing_api 1 [65] [] default_update_budget mini_update_state = (Ok x, e2)"
    "sdb.updating (at_context 1 (db_vfs (be_db e2))) v2 fresh (written wb)" "\<forall>err. \<not> refusal writing_api e2 err"
    by (rule writing_budget_work)
  obtain rep3 s3 where 3: "update_run mini_sqlite writing_api db_memory 1 [65] [] default_update_budget mini_update_state = (rep3, s3)" by fastforce
  note k = budgeted_update_atomic [OF mini_client(2,1) writing_client t d _ w2(1) 3]
  obtain n where n: "ur_result rep3 = Ok n" using k w2(3) writing_accepted by (cases "ur_result rep3") (auto simp del: split_paired_Ex)
  then obtain b a where "in_budget 1 fresh (db_byte v) (Some (max_dirty_pages default_update_budget, max_changed_bytes default_update_budget))
      (db_vfs (be_db e2)) a" "published 1 b a s3"
    using k by auto
  moreover from this(1) have "a = (2, \<lambda>i. if i = 0 then 7 else if i = 1 then 8 else 0)"
    using written_content w2(2) by (auto simp: in_budget_def sdb.updating_def)
  ultimately show ?thesis using run 3 n by auto
qed

end
