(* ===== verification/Budget_Props.thy ===== *)
theory Budget_Props
  imports Sample_Sqlite
begin

text \<open>
  Measured statements: what a caller of \<open>query_with_budget\<close> can rely on.
\<close>

section \<open>Queries\<close>






end
