(* ===== verification/Borrowed.thy ===== *)
theory Borrowed
  imports Sample_Sqlite
begin

text \<open>
  Borrowed values.  Several operations of a statement hand texts and blobs to SQLite without copying them
  (\<open>SQLITE_STATIC\<close>); the memory belongs to the caller, so the bindings have to be gone when the
  operation returns or when the rows it returned are dropped.
\<close>

section \<open>What SQLite borrows\<close>

text \<open>\<open>borrowed st q\<close> are the parameters of a statement that point to memory of the caller.  Only a
  static binding adds one, and clearing the bindings removes them all.\<close>

definition borrows_no_more :: "('st \<Rightarrow> 'q \<Rightarrow> c_int set) \<Rightarrow> ('h, 's, 'c, 'q) db_state \<Rightarrow> ('h, 's, 'c, 'q) db_state \<Rightarrow> bool" where
  "borrows_no_more borrowed s s' \<longleftrightarrow> (\<forall>st. borrowed st (sqlite_state s') \<subseteq> borrowed st (sqlite_state s))"

definition no_new_borrow :: "('st \<Rightarrow> 'q \<Rightarrow> c_int set) \<Rightarrow> ('h, 's, 'q, 'r) sqlite_fun \<Rightarrow> bool" where
  "no_new_borrow borrowed f \<longleftrightarrow> (\<forall>q w st. borrowed st (fst (snd (f (q, w)))) \<subseteq> borrowed st q)"

definition sqlite_borrows :: "('h, 's, 'c, 'st, 'q, 'z) stmt_api_scheme \<Rightarrow> ('st \<Rightarrow> 'q \<Rightarrow> c_int set) \<Rightarrow> bool" where
  "sqlite_borrows sq borrowed \<longleftrightarrow>
    (\<forall>st. no_new_borrow borrowed (sqlite3_reset sq st) \<and> no_new_borrow borrowed (sqlite3_step sq st)) \<and>
    (\<forall>st i v. no_new_borrow borrowed (sqlite3_bind_text sq st i v Transient)) \<and>
    (\<forall>st i v. no_new_borrow borrowed (sqlite3_bind_blob sq st i v Transient)) \<and>
    (\<forall>st i v. no_new_borrow borrowed (sqlite3_bind_int64 sq st i v)) \<and>
    (\<forall>st i v. no_new_borrow borrowed (sqlite3_bind_double sq st i v)) \<and>
    (\<forall>st i. no_new_borrow borrowed (sqlite3_bind_null sq st i)) \<and>
    (\<forall>st q w. borrowed st (fst (snd (sqlite3_clear_bindings sq st (q, w)))) = {})"

lemma within_no_new_borrow: "no_new_borrow borrowed f \<Longrightarrow> within (borrows_no_more borrowed) (sqlite_call f)"
  by (simp add: no_new_borrow_def within_def borrows_no_more_def sqlite_call_def split_beta Let_def)

definition unborrowed :: "('st \<Rightarrow> 'q \<Rightarrow> c_int set) \<Rightarrow> ('c, 'st) statement \<Rightarrow> ('h, 's, 'c, 'q) db_state \<Rightarrow> bool" where
  "unborrowed borrowed st s \<longleftrightarrow> borrowed (st_raw st) (sqlite_state s) = {}"

lemma pre_borrows [simp]: "pre (borrows_no_more borrowed)"
  by (auto simp: pre_def reflp_def transp_def borrows_no_more_def)

lemma borrowsD:
  assumes "sqlite_borrows sq borrowed"
  shows "within (borrows_no_more borrowed) (sqlite_call (sqlite3_reset sq st))"
    "within (borrows_no_more borrowed) (sqlite_call (sqlite3_step sq st))"
    "within (borrows_no_more borrowed) (sqlite_call (sqlite3_bind_text sq st i v Transient))"
    "within (borrows_no_more borrowed) (sqlite_call (sqlite3_bind_blob sq st i bv Transient))"
    "within (borrows_no_more borrowed) (sqlite_call (sqlite3_bind_int64 sq st i iv))"
    "within (borrows_no_more borrowed) (sqlite_call (sqlite3_bind_double sq st i dv))"
    "within (borrows_no_more borrowed) (sqlite_call (sqlite3_bind_null sq st i))"
    "borrowed st (fst (snd (sqlite3_clear_bindings sq st (q, w)))) = {}"
  using assms unfolding sqlite_borrows_def by (simp_all add: within_no_new_borrow)

lemma unborrowed_step: "unborrowed borrowed st s \<Longrightarrow> borrows_no_more borrowed s s' \<Longrightarrow> unborrowed borrowed st s'"
  by (auto simp: unborrowed_def borrows_no_more_def)

lemma unborrowed_run:
  assumes "within (borrows_no_more borrowed) m" "unborrowed borrowed st s" "m s = (r, s')"
  shows "unborrowed borrowed st s'"
  using unborrowed_step [OF assms(2) within_run [OF assms(1,3)]] .

lemma clear_unborrowed: "sqlite_borrows sq borrowed \<Longrightarrow> unborrowed borrowed st (clear_bindings sq st s)"
  using borrowsD(8) [of sq borrowed "st_raw st" "sqlite_state s" "db_vfs s"]
  by (simp add: clear_bindings_def ignoring_def sqlite_call_def unborrowed_def split_beta)

lemma clearing_unborrowed: "sqlite_borrows sq borrowed \<Longrightarrow> unborrowed borrowed st (snd (clearing sq st m s))"
  by (simp add: clearing_def split_beta clear_unborrowed)

section \<open>Copied values\<close>

lemma within_borrows:
  assumes "sqlite_borrows sq borrowed"
  shows "within (borrows_no_more borrowed) (bind_to sq v raw i)" "within (borrows_no_more borrowed) (reset sq st)"
    "within (borrows_no_more borrowed) (step sq st)"
proof -
  note d = borrowsD [OF assms]
  have b: "within (borrows_no_more borrowed) (bind_result rc)" for rc
    unfolding bind_result_def by (intro stmt_intros pre_borrows)
  show "within (borrows_no_more borrowed) (bind_to sq v raw i)"
    unfolding bind_to_def bind_text_def bind_i64_def bind_f64_def bind_blob_def bind_null_def
    by (cases v) (auto intro!: stmt_intros d b)
  show "within (borrows_no_more borrowed) (reset sq st)"
    unfolding reset_def by (intro stmt_intros pre_borrows d within_stmt_error)
  show "within (borrows_no_more borrowed) (step sq st)" unfolding step_def by (rule d)
qed

lemma within_borrows_query:
  assumes "sqlite_borrows sq borrowed"
  shows "within (borrows_no_more borrowed) (query sq st vs)" "within (borrows_no_more borrowed) (query_named sq st nvs)"
    "within (borrows_no_more borrowed) (execute sq st vs)" "within (borrows_no_more borrowed) (execute_named sq st nvs)"
proof -
  note d = within_borrows [OF assms]
  have f: "within (borrows_no_more borrowed) (bind_from sq raw i vs)" for raw i
    by (induction vs arbitrary: i) (auto intro!: stmt_intros d)
  have nf: "within (borrows_no_more borrowed) (names_from sq raw is)" for raw "is"
    by (induction "is") (auto intro!: stmt_intros split: option.split)
  have nb: "within (borrows_no_more borrowed) (bind_named sq raw expected nvs)" for raw expected
    by (induction nvs) (auto intro!: stmt_intros d)
  have b: "within (borrows_no_more borrowed) (reset_and_bind sq st vs)"
    unfolding reset_and_bind_def bind_all_with_count_def by (intro stmt_intros pre_borrows d f)
  have n: "within (borrows_no_more borrowed) (reset_and_bind_named sq st nvs)"
    unfolding reset_and_bind_named_def bind_named_all_def named_parameters_def parameter_count_def
    by (intro stmt_intros pre_borrows d nf nb)
  have s: "within (borrows_no_more borrowed) (step_done sq st)"
    unfolding step_done_def by (intro stmt_intros pre_borrows d within_stmt_error)
  show "within (borrows_no_more borrowed) (query sq st vs)" "within (borrows_no_more borrowed) (query_named sq st nvs)"
    "within (borrows_no_more borrowed) (execute sq st vs)" "within (borrows_no_more borrowed) (execute_named sq st nvs)"
    unfolding query_def query_named_def execute_def execute_named_def by (intro stmt_intros pre_borrows b n s)+
qed

section \<open>Rows over borrowed texts\<close>

lemma text_iter_refused:
  assumes sq: "sqlite_borrows sq borrowed" and s: "unborrowed borrowed st s"
    and run: "reset_and_bind_text_iter sq st vs s = (Err e, s')"
  shows "unborrowed borrowed st s'"
proof -
  have b: "unborrowed borrowed st s2" if "bind_texts_from sq st i vs s1 = (Err e, s2)" for i s1 s2
    using that
  proof (induction vs arbitrary: i s1)
    case (Cons v vs)
    obtain r s3 where 3: "bind_text_static sq (st_raw st) (int i) v s1 = (r, s3)" by fastforce
    then show ?case
      using Cons clear_unborrowed [OF sq] by (cases r) (auto simp: catchS_def)
  qed (simp add: retS_def)
  obtain r s1 where 1: "reset sq st s = (r, s1)" by fastforce
  have u: "unborrowed borrowed st s1" by (rule unborrowed_run [OF within_borrows(2) [OF sq] s 1])
  show ?thesis
    using run 1 u s b by (cases r) (auto simp: reset_and_bind_text_iter_def errS_def split: if_splits)
qed

text \<open>The requests a caller can make of rows before it drops them.\<close>

datatype rows_request = NextRow | NextTextLen

definition rows_request :: "('h, 's, 'c, 'st, 'q, 'z) stmt_api_scheme \<Rightarrow> rows_request \<Rightarrow>
    ('c, 'st) rows \<times> ('h, 's, 'c, 'q) db_state \<Rightarrow> ('c, 'st) rows \<times> ('h, 's, 'c, 'q) db_state" where
  "rows_request sq x rs = (case x of NextRow \<Rightarrow> snd (next_row sq rs) | NextTextLen \<Rightarrow> snd (next_text_len_zero sq rs))"

definition rows_safe :: "('st \<Rightarrow> 'q \<Rightarrow> c_int set) \<Rightarrow> ('c, 'st) statement \<Rightarrow> ('c, 'st) rows \<times> ('h, 's, 'c, 'q) db_state \<Rightarrow> bool" where
  "rows_safe borrowed st rs \<longleftrightarrow> rw_statement (fst rs) = st \<and>
     (rw_clear_bindings_on_drop (fst rs) \<or> unborrowed borrowed st (snd rs))"

lemma clear_static_safe:
  assumes "sqlite_borrows sq borrowed" "rows_safe borrowed st rs"
  shows "rows_safe borrowed st (clear_static_bindings sq rs)" "unborrowed borrowed st (snd (clear_static_bindings sq rs))"
  using assms clear_unborrowed [OF assms(1), of st]
  by (auto simp: rows_safe_def clear_static_bindings_def split_beta Let_def)

lemma after_step_safe:
  assumes sq: "sqlite_borrows sq borrowed" and rs: "rows_safe borrowed st rs" and read: "\<And>s. snd (read s) = s"
  shows "rows_safe borrowed st (snd (after_step sq read rs))"
proof -
  obtain rows s where [simp]: "rs = (rows, s)" by fastforce
  have st: "rw_statement rows = st" using rs by (simp add: rows_safe_def)
  obtain r1 s1 where 1: "step sq st s = (r1, s1)" by fastforce
  have s1: "rows_safe borrowed st (rows, s1)"
    using rs unborrowed_step [OF _ within_run [OF within_borrows(3) [OF sq] 1]] by (auto simp: rows_safe_def)
  then have "rows_safe borrowed st (rows\<lparr>rw_done := True\<rparr>, s1)" by (simp add: rows_safe_def)
  note d = clear_static_safe(1) [OF sq this]
  have rd: "snd (tryS read (\<lambda>v. retS (Some v)) s1) = s1"
    using read [of s1] by (cases "read s1"; cases "fst (read s1)") (auto simp: tryS_def retS_def)
  show ?thesis
    using st 1 s1 d rd by (cases r1) (simp_all add: after_step_def Let_def split_beta)
qed

lemma request_safe:
  assumes "sqlite_borrows sq borrowed" "rows_safe borrowed st rs"
  shows "rows_safe borrowed st (rows_request sq x rs)"
  using after_step_safe [OF assms, of "retS (st_raw (rw_statement (fst rs)))"]
    after_step_safe [OF assms, of "read_string_column_zero_len sq (st_raw (rw_statement (fst rs)))"] assms(2)
  by (cases x) (auto simp: rows_request_def next_row_def next_text_len_zero_def retS_def read_string_column_zero_len_def sqlite_get_def getS_def)

lemma requests_safe:
  "sqlite_borrows sq borrowed \<Longrightarrow> rows_safe borrowed st rs \<Longrightarrow> rows_safe borrowed st (fold (rows_request sq) xs rs)"
  by (induction xs arbitrary: rs) (auto simp: request_safe)

text \<open>C38. Memory of the caller is never left bound.  The operations that hand a text or a blob to SQLite
  without copying it have no such binding left when they return, with a result, with an error of SQLite
  or with a refused argument; rows over borrowed texts have none left when they are dropped, however many
  rows were requested before; operations with copied values never leave one.\<close>

theorem borrowed_values_released:
  assumes sq: "sqlite_borrows sq borrowed" and s: "unborrowed borrowed st s"
  shows "unborrowed borrowed st (snd (execute_text_text sq st a b s)) \<and> unborrowed borrowed st (snd (execute_i64_text sq st i b s)) \<and>
    unborrowed borrowed st (snd (execute_i64_blob sq st i b s)) \<and> unborrowed borrowed st (snd (execute_i64_i64_text sq st i j b s)) \<and>
    unborrowed borrowed st (snd (query_optional_string_text_borrowed sq st b s)) \<and>
    unborrowed borrowed st (snd (query_optional_string_text_len_borrowed sq st b s)) \<and>
    (\<forall>r s'. query_text_iter_text_len_sum sq st vs s = Some (r, s') \<longrightarrow> unborrowed borrowed st s') \<and>
    (case query_text_iter sq st vs s of
       (Ok rows, s') \<Rightarrow> \<forall>xs. unborrowed borrowed st (drop_rows sq (fold (rows_request sq) xs (rows, s')))
     | (Err _, s') \<Rightarrow> unborrowed borrowed st s' | (Panic, _) \<Rightarrow> False) \<and>
    unborrowed borrowed st (snd (execute sq st values s)) \<and> unborrowed borrowed st (snd (execute_named sq st named s)) \<and>
    unborrowed borrowed st (snd (query sq st values s)) \<and> unborrowed borrowed st (snd (query_named sq st named s))"
proof (intro conjI)
  show "\<forall>r s'. query_text_iter_text_len_sum sq st vs s = Some (r, s') \<longrightarrow> unborrowed borrowed st s'"
    using clear_unborrowed [OF sq] by (auto simp: query_text_iter_text_len_sum_def)
  obtain r s1 where 1: "reset_and_bind_text_iter sq st vs s = (r, s1)" by fastforce
  have "bind_texts_from sq st k us t \<noteq> (Panic, t')" for k us t t'
    by (induction us arbitrary: k t)
      (auto simp: catchS_def retS_def errS_def bind_text_static_def bind_result_def tryS_def ok_orS_def sqlite_call_def
        split: prod.splits outcome.splits option.splits if_splits)
  then have np: "r \<noteq> Panic"
    using 1 by (auto simp: reset_and_bind_text_iter_def reset_def stmt_error_def sqlite_get_def getS_def tryS_def errS_def retS_def
        sqlite_call_def split: prod.splits if_splits outcome.splits)
  show "case query_text_iter sq st vs s of
       (Ok rows, s') \<Rightarrow> \<forall>xs. unborrowed borrowed st (drop_rows sq (fold (rows_request sq) xs (rows, s')))
     | (Err _, s') \<Rightarrow> unborrowed borrowed st s' | (Panic, _) \<Rightarrow> False"
  proof (cases r)
    case (Ok u)
    have "rows_safe borrowed st (rows_new st True, s1)" by (simp add: rows_safe_def rows_new_def)
    from clear_static_safe(2) [OF sq requests_safe [OF sq this]] show ?thesis
      using 1 Ok by (simp add: query_text_iter_def retS_def drop_rows_def)
  next
    case (Err e)
    then show ?thesis using text_iter_refused [OF sq s] 1 by (simp add: query_text_iter_def)
  qed (use np in simp)
  note w = within_borrows_query [OF sq, THEN withinD, THEN unborrowed_step [OF s]]
  show "unborrowed borrowed st (snd (execute sq st values s))" "unborrowed borrowed st (snd (execute_named sq st named s))"
    "unborrowed borrowed st (snd (query sq st values s))" "unborrowed borrowed st (snd (query_named sq st named s))"
    by (rule w)+
qed (simp_all add: execute_text_text_def execute_i64_text_def execute_i64_blob_def execute_i64_i64_text_def
    query_optional_string_text_borrowed_def query_optional_string_text_len_borrowed_def clearing_unborrowed [OF sq])

lemma mini_borrows: "sqlite_borrows mini_api (\<lambda>_. mini_borrowed)"
  by (auto simp: sqlite_borrows_def no_new_borrow_def mini_bind_def mini_api_def mini_call_def split: if_splits)

theorem borrowed_values_released_witness:
  "let st = \<lparr>st_db = (), st_raw = (), st_parameter_count = 2\<rparr> in
     mini_borrowed (sqlite_state (snd (reset_and_bind_two_text_borrowed mini_api st [65] [66] mini_state))) = {1, 2} \<and>
     mini_borrowed (sqlite_state (snd (execute_text_text mini_api st [65] [66] mini_state))) = {}"
proof -
  let ?st = "\<lparr>st_db = (), st_raw = (), st_parameter_count = 2\<rparr> :: (unit, unit) statement"
  have "mini_borrowed (sqlite_state (snd (reset_and_bind_two_text_borrowed mini_api ?st [65] [66] mini_state))) = {1, 2}"
    by (simp add: reset_and_bind_two_text_borrowed_def expecting_def reset_def bind_text_static_def bind_result_def sqlite_call_def
        tryS_def retS_def ok_orS_def c_int_try_from_def c_int_max_def mini_bind_def mini_state_def insert_commute)
  moreover have "unborrowed (\<lambda>_. mini_borrowed) ?st mini_state"
    by (simp add: unborrowed_def mini_state_def)
  from borrowed_values_released [OF mini_borrows this, of "[65]" "[66]"]
  have "mini_borrowed (sqlite_state (snd (execute_text_text mini_api ?st [65] [66] mini_state))) = {}"
    by (simp add: unborrowed_def)
  ultimately show ?thesis by simp
qed

end
