(* ===== verification/Migrate.thy ===== *)
theory Migrate
  imports Sql_Statement
begin

text \<open>
  Schema migrations (\<open>src/src/db/migrate.rs\<close> and \<open>migrate\<close>, \<open>adopt_migration_checksums\<close> of
  \<open>src/src/db/mod.rs\<close>).  The SHA-256 digest is a parameter.
\<close>

section \<open>Versions\<close>

record migration =
  mig_version :: nat
  mig_sql :: "byte list"

definition sqlite_version :: "nat \<Rightarrow> ('h, 's, 'c, 'q, int) db_stm" where
  "sqlite_version version = (if version \<le> i64_max then retS (int version) else errS (MigrationVersionOutOfRange version))"

fun validate_from :: "nat list \<Rightarrow> nat option \<Rightarrow> migration list \<Rightarrow> ('h, 's, 'c, 'q, unit) db_stm" where
  "validate_from seen previous [] = retS ()"
| "validate_from seen previous (m # ms) =
    (if mig_version m \<in> set seen then errS (DuplicateMigrationVersion (mig_version m))
     else if (case previous of Some p \<Rightarrow> mig_version m < p | None \<Rightarrow> False)
     then errS (MigrationVersionOutOfOrder (the previous) (mig_version m))
     else tryS (sqlite_version (mig_version m)) (\<lambda>_. validate_from (mig_version m # seen) (Some (mig_version m)) ms))"

definition validate_versions :: "migration list \<Rightarrow> ('h, 's, 'c, 'q, unit) db_stm" where
  "validate_versions ms = validate_from [] None ms"

section \<open>The history tables\<close>

definition HISTORY_SQL :: "byte list" where
  "HISTORY_SQL = ascii (''CREATE TABLE IF NOT EXISTS __ic_sqlite_migrations ('' @ [CHR 0x0A] @ replicate 12 (CHR '' '') @
     ''version INTEGER PRIMARY KEY NOT NULL'' @ [CHR 0x0A] @ replicate 8 (CHR '' '') @ '');'' @ [CHR 0x0A] @ replicate 8 (CHR '' '') @
     ''CREATE TABLE IF NOT EXISTS __ic_sqlite_migration_checksums ('' @ [CHR 0x0A] @ replicate 12 (CHR '' '') @
     ''version INTEGER PRIMARY KEY NOT NULL,'' @ [CHR 0x0A] @ replicate 12 (CHR '' '') @
     ''checksum BLOB NOT NULL CHECK(typeof(checksum) = '' @ [CHR 0x27] @ ''blob'' @ [CHR 0x27] @ '' AND length(checksum) = 32)'' @
     [CHR 0x0A] @ replicate 8 (CHR '' '') @ '')'')"

definition APPLIED_SQL :: "byte list" where
  "APPLIED_SQL = ascii ''SELECT EXISTS(SELECT 1 FROM __ic_sqlite_migrations WHERE version = ?1)''"

definition CHECKSUM_SQL :: "byte list" where
  "CHECKSUM_SQL = ascii ''SELECT checksum FROM __ic_sqlite_migration_checksums WHERE version = ?1''"

definition INSERT_VERSION_SQL :: "byte list" where
  "INSERT_VERSION_SQL = ascii ''INSERT INTO __ic_sqlite_migrations(version) VALUES (?1)''"

definition INSERT_CHECKSUM_SQL :: "byte list" where
  "INSERT_CHECKSUM_SQL = ascii ''INSERT INTO __ic_sqlite_migration_checksums(version, checksum) VALUES (?1, ?2)''"

definition ensure_history :: "('h, 's, 'c, 'q) sqlite_api \<Rightarrow> 'c \<Rightarrow> ('h, 's, 'c, 'q, unit) db_stm" where
  "ensure_history api conn = execute_batch api conn HISTORY_SQL"

definition is_applied :: "('h, 's, 'c, 'st, 'q, 'z) stmt_api_scheme \<Rightarrow> 'c \<Rightarrow> int \<Rightarrow> ('h, 's, 'c, 'q, bool) db_stm" where
  "is_applied sq conn version = tryS (conn_query_scalar sq (read_i64 sq) conn APPLIED_SQL [Integer version]) (\<lambda>v. retS (v \<noteq> 0))"

definition stored_checksum :: "('h, 's, 'c, 'st, 'q, 'z) stmt_api_scheme \<Rightarrow> 'c \<Rightarrow> int \<Rightarrow> ('h, 's, 'c, 'q, byte list option) db_stm" where
  "stored_checksum sq conn version = conn_query_optional sq conn CHECKSUM_SQL [Integer version] (\<lambda>raw. row_get sq (read_blob sq) raw 0)"

definition history_error :: "byte list \<Rightarrow> db_error" where
  "history_error message = Sqlite SQLITE_CONSTRAINT message"

definition verify_migration :: "('h, 's, 'c, 'st, 'q, 'z) stmt_api_scheme \<Rightarrow> (byte list \<Rightarrow> byte list) \<Rightarrow> 'c \<Rightarrow> migration \<Rightarrow>
    ('h, 's, 'c, 'q, unit) db_stm" where
  "verify_migration sq sha256 conn m = tryS (sqlite_version (mig_version m)) (\<lambda>version.
     tryS (stored_checksum sq conn version) (\<lambda>stored. case stored of None \<Rightarrow> retS ()
     | Some stored_sum \<Rightarrow> if stored_sum \<noteq> sha256 (mig_sql m)
         then errS (history_error (ascii (''migration checksum mismatch for version '' @ show_nat (mig_version m)))) else retS ()))"

definition record_checksum :: "('h, 's, 'c, 'st, 'q, 'z) stmt_api_scheme \<Rightarrow> 'c \<Rightarrow> int \<Rightarrow> byte list \<Rightarrow> ('h, 's, 'c, 'q, unit) db_stm" where
  "record_checksum sq conn version digest = conn_execute sq conn INSERT_CHECKSUM_SQL [Integer version, Blob digest]"

section \<open>Applying and adopting\<close>

fun verify_all :: "('h, 's, 'c, 'st, 'q, 'z) stmt_api_scheme \<Rightarrow> (byte list \<Rightarrow> byte list) \<Rightarrow> 'c \<Rightarrow> migration list \<Rightarrow>
    ('h, 's, 'c, 'q, unit) db_stm" where
  "verify_all sq sha256 conn [] = retS ()"
| "verify_all sq sha256 conn (m # ms) = tryS (verify_migration sq sha256 conn m) (\<lambda>_. verify_all sq sha256 conn ms)"

fun apply_all :: "('h, 's, 'c, 'q) sqlite_api \<Rightarrow> ('h, 's, 'c, 'st, 'q, 'z) stmt_api_scheme \<Rightarrow> (byte list \<Rightarrow> byte list) \<Rightarrow> 'c \<Rightarrow>
    migration list \<Rightarrow> ('h, 's, 'c, 'q, unit) db_stm" where
  "apply_all api sq sha256 conn [] = retS ()"
| "apply_all api sq sha256 conn (m # ms) = tryS (sqlite_version (mig_version m)) (\<lambda>version.
     tryS (is_applied sq conn version) (\<lambda>applied.
       if applied then apply_all api sq sha256 conn ms
       else tryS (execute_batch api conn (mig_sql m)) (\<lambda>_.
         tryS (conn_execute sq conn INSERT_VERSION_SQL [Integer version]) (\<lambda>_.
         tryS (record_checksum sq conn version (sha256 (mig_sql m))) (\<lambda>_. apply_all api sq sha256 conn ms)))))"

definition migrate_apply :: "('h, 's, 'c, 'q) sqlite_api \<Rightarrow> ('h, 's, 'c, 'st, 'q, 'z) stmt_api_scheme \<Rightarrow> (byte list \<Rightarrow> byte list) \<Rightarrow> 'c \<Rightarrow>
    migration list \<Rightarrow> ('h, 's, 'c, 'q, unit) db_stm" where
  "migrate_apply api sq sha256 conn ms = tryS (validate_versions ms) (\<lambda>_. tryS (ensure_history api conn) (\<lambda>_.
     tryS (verify_all sq sha256 conn ms) (\<lambda>_. apply_all api sq sha256 conn ms)))"

fun check_adoptable :: "('h, 's, 'c, 'st, 'q, 'z) stmt_api_scheme \<Rightarrow> (byte list \<Rightarrow> byte list) \<Rightarrow> 'c \<Rightarrow> migration list \<Rightarrow>
    ('h, 's, 'c, 'q, unit) db_stm" where
  "check_adoptable sq sha256 conn [] = retS ()"
| "check_adoptable sq sha256 conn (m # ms) = tryS (sqlite_version (mig_version m)) (\<lambda>version.
     tryS (is_applied sq conn version) (\<lambda>applied.
       if \<not> applied then errS (history_error (ascii (''cannot adopt checksum for unapplied migration version '' @ show_nat (mig_version m))))
       else tryS (verify_migration sq sha256 conn m) (\<lambda>_. check_adoptable sq sha256 conn ms)))"

fun adopt_all :: "('h, 's, 'c, 'st, 'q, 'z) stmt_api_scheme \<Rightarrow> (byte list \<Rightarrow> byte list) \<Rightarrow> 'c \<Rightarrow> migration list \<Rightarrow>
    ('h, 's, 'c, 'q, unit) db_stm" where
  "adopt_all sq sha256 conn [] = retS ()"
| "adopt_all sq sha256 conn (m # ms) = tryS (sqlite_version (mig_version m)) (\<lambda>version.
     tryS (stored_checksum sq conn version) (\<lambda>stored.
       tryS (if stored = None then record_checksum sq conn version (sha256 (mig_sql m)) else retS ()) (\<lambda>_.
       adopt_all sq sha256 conn ms)))"

definition adopt_checksums :: "('h, 's, 'c, 'q) sqlite_api \<Rightarrow> ('h, 's, 'c, 'st, 'q, 'z) stmt_api_scheme \<Rightarrow> (byte list \<Rightarrow> byte list) \<Rightarrow> 'c \<Rightarrow>
    migration list \<Rightarrow> ('h, 's, 'c, 'q, unit) db_stm" where
  "adopt_checksums api sq sha256 conn ms = tryS (validate_versions ms) (\<lambda>_. tryS (ensure_history api conn) (\<lambda>_.
     tryS (check_adoptable sq sha256 conn ms) (\<lambda>_. adopt_all sq sha256 conn ms)))"

section \<open>The facade\<close>

definition target_version :: "migration list \<Rightarrow> nat" where
  "target_version ms = (if ms = [] then 0 else Max (set (map mig_version ms)))"

definition db_migrate :: "('h, 's, 'c, 'q) sqlite_api \<Rightarrow> ('h, 's, 'c, 'st, 'q, 'z) stmt_api_scheme \<Rightarrow> (byte list \<Rightarrow> byte list) \<Rightarrow>
    ('h \<times> 's) memory_ops \<Rightarrow> context_id \<Rightarrow> migration list \<Rightarrow> ('h, 's, 'c, 'q, unit) db_stm" where
  "db_migrate api sq sha256 V context ms =
     tryS (db_update api V context (on_connection (\<lambda>conn. migrate_apply api sq sha256 conn ms))) (\<lambda>_.
     db_with_context context (tryS (on_store (sb_load V)) (\<lambda>block.
       if schema_version block < target_version ms
       then tryS (clear_read_connection api context) (\<lambda>_. on_store (sb_store V (block\<lparr>schema_version := target_version ms\<rparr>)))
       else retS ())))"

definition db_adopt_migration_checksums :: "('h, 's, 'c, 'q) sqlite_api \<Rightarrow> ('h, 's, 'c, 'st, 'q, 'z) stmt_api_scheme \<Rightarrow> (byte list \<Rightarrow> byte list) \<Rightarrow>
    ('h \<times> 's) memory_ops \<Rightarrow> context_id \<Rightarrow> migration list \<Rightarrow> ('h, 's, 'c, 'q, unit) db_stm" where
  "db_adopt_migration_checksums api sq sha256 V context ms =
     db_update api V context (on_connection (\<lambda>conn. adopt_checksums api sq sha256 conn ms))"

definition integrity_check :: "('h, 's, 'c, 'q) sqlite_api \<Rightarrow> ('h, 's, 'c, 'st, 'q, 'z) stmt_api_scheme \<Rightarrow> context_id \<Rightarrow>
    ('h, 's, 'c, 'q, byte list) db_stm" where
  "integrity_check api sq context = db_query api context (\<lambda>conn. conn_query_scalar sq (read_string sq) conn (ascii ''PRAGMA integrity_check'') [])"

end
