(* ===== verification/Migrate_Props.thy ===== *)
theory Migrate_Props
  imports Migrate Sample_Sqlite
begin

text \<open>
  Migrations run once, in order, and never after a mismatch.

  The history tables are an abstract value: the versions in the one table, the checksums in the other, and
  the migration batches that have run.  What the SQL statements of the runner do to them is assumed of
  SQLite; any of them may fail and then changes nothing.
\<close>

section \<open>The history\<close>

record history =
  applied :: "int set"
  checksums :: "int \<rightharpoonup> byte list"
  batches :: "byte list list"

definition sql_step :: "('q \<Rightarrow> history) \<Rightarrow> ('h, 's, 'c, 'q, 'a) db_stm \<Rightarrow> ('a \<Rightarrow> history \<Rightarrow> history \<Rightarrow> bool) \<Rightarrow> bool" where
  "sql_step hist m P \<longleftrightarrow> (\<forall>s r s'. m s = (r, s') \<longrightarrow>
     (case r of Ok x \<Rightarrow> P x (hist (sqlite_state s)) (hist (sqlite_state s'))
      | Err _ \<Rightarrow> hist (sqlite_state s') = hist (sqlite_state s) | Panic \<Rightarrow> False))"

text \<open>The meaning of the SQL of the runner.  The batches of the migrations do not touch the history
  tables.\<close>

definition history_tables :: "('h, 's, 'c, 'q) sqlite_api \<Rightarrow> ('h, 's, 'c, 'st, 'q, 'z) stmt_api_scheme \<Rightarrow> 'c \<Rightarrow> ('q \<Rightarrow> history) \<Rightarrow>
    byte list set \<Rightarrow> bool" where
  "history_tables api sq conn hist sqls \<longleftrightarrow>
    sql_step hist (execute_batch api conn HISTORY_SQL) (\<lambda>_ h h'. h' = h) \<and>
    (\<forall>v. sql_step hist (conn_query_scalar sq (read_i64 sq) conn APPLIED_SQL [Integer v])
       (\<lambda>x h h'. h' = h \<and> x = (if v \<in> applied h then 1 else 0))) \<and>
    (\<forall>v. sql_step hist (conn_query_optional sq conn CHECKSUM_SQL [Integer v] (\<lambda>raw. row_get sq (read_blob sq) raw 0))
       (\<lambda>x h h'. h' = h \<and> x = checksums h v)) \<and>
    (\<forall>v. sql_step hist (conn_execute sq conn INSERT_VERSION_SQL [Integer v])
       (\<lambda>_ h h'. v \<notin> applied h \<and> h' = h\<lparr>applied := insert v (applied h)\<rparr>)) \<and>
    (\<forall>v c. sql_step hist (conn_execute sq conn INSERT_CHECKSUM_SQL [Integer v, Blob c])
       (\<lambda>_ h h'. checksums h v = None \<and> h' = h\<lparr>checksums := (checksums h)(v \<mapsto> c)\<rparr>)) \<and>
    (\<forall>sql \<in> sqls. sql_step hist (execute_batch api conn sql) (\<lambda>_ h h'. h' = h\<lparr>batches := batches h @ [sql]\<rparr>))"

lemma sql_stepD:
  assumes "sql_step hist m P" "m s = (r, s')"
  shows "r \<noteq> Panic" "r = Ok x \<Longrightarrow> P x (hist (sqlite_state s)) (hist (sqlite_state s'))"
    "r = Err e \<Longrightarrow> hist (sqlite_state s') = hist (sqlite_state s)"
  using assms unfolding sql_step_def by (cases r; fastforce)+

text \<open>Composition: the second step may rely on what the first did; when it fails, what the first did
  remains.\<close>

lemma sql_step_read:
  assumes "sql_step hist m (\<lambda>x h h'. h' = h \<and> P x h)" "\<And>x. sql_step hist (k x) (\<lambda>y h h'. P x h \<longrightarrow> Q y h h')"
  shows "sql_step hist (tryS m k) Q"
  unfolding sql_step_def
proof (intro allI impI)
  fix s r s'
  assume run: "tryS m k s = (r, s')"
  obtain r1 s1 where 1: "m s = (r1, s1)" by fastforce
  note d = sql_stepD [OF assms(1) 1]
  show "case r of Ok y \<Rightarrow> Q y (hist (sqlite_state s)) (hist (sqlite_state s'))
      | Err _ \<Rightarrow> hist (sqlite_state s') = hist (sqlite_state s) | Panic \<Rightarrow> False"
  proof (cases r1)
    case (Ok x)
    then have 2: "k x s1 = (r, s')" using run 1 by simp
    show ?thesis using sql_stepD [OF assms(2) 2] d(2) [OF Ok] by (cases r) auto
  qed (use run 1 d in auto)
qed

lemma sql_step_mono: "sql_step hist m P \<Longrightarrow> (\<And>x h h'. P x h h' \<Longrightarrow> Q x h h') \<Longrightarrow> sql_step hist m Q"
  unfolding sql_step_def by (fastforce split: outcome.splits)

lemma historyD:
  assumes "history_tables api sq conn hist sqls"
  shows "sql_step hist (ensure_history api conn) (\<lambda>_ h h'. h' = h)"
    "sql_step hist (is_applied sq conn v) (\<lambda>x h h'. h' = h \<and> x = (v \<in> applied h))"
    "sql_step hist (stored_checksum sq conn v) (\<lambda>x h h'. h' = h \<and> x = checksums h v)"
    "sql_step hist (conn_execute sq conn INSERT_VERSION_SQL [Integer v]) (\<lambda>_ h h'. v \<notin> applied h \<and> h' = h\<lparr>applied := insert v (applied h)\<rparr>)"
    "sql_step hist (record_checksum sq conn v c) (\<lambda>_ h h'. checksums h v = None \<and> h' = h\<lparr>checksums := (checksums h)(v \<mapsto> c)\<rparr>)"
    "sql \<in> sqls \<Longrightarrow> sql_step hist (execute_batch api conn sql) (\<lambda>_ h h'. h' = h\<lparr>batches := batches h @ [sql]\<rparr>)"
proof -
  have "sql_step hist (conn_query_scalar sq (read_i64 sq) conn APPLIED_SQL [Integer v])
       (\<lambda>x h h'. h' = h \<and> x = (if v \<in> applied h then 1 else 0))"
    using assms unfolding history_tables_def by blast
  then show "sql_step hist (is_applied sq conn v) (\<lambda>x h h'. h' = h \<and> x = (v \<in> applied h))"
    unfolding is_applied_def by (rule sql_step_read) (auto simp: sql_step_def retS_def)
qed (use assms in \<open>simp_all add: history_tables_def ensure_history_def stored_checksum_def record_checksum_def\<close>)

section \<open>Versions\<close>

definition versions_ok :: "migration list \<Rightarrow> bool" where
  "versions_ok ms \<longleftrightarrow> sorted_wrt (<) (map mig_version ms) \<and> (\<forall>m \<in> set ms. mig_version m \<le> i64_max)"

lemma validate_from_ok:
  assumes "p \<in> set seen" "\<forall>x \<in> set seen. x \<le> p"
  shows "if sorted_wrt (<) (p # map mig_version ms) \<and> (\<forall>m \<in> set ms. mig_version m \<le> i64_max)
    then validate_from seen (Some p) ms s = (Ok (), s) else \<exists>e. validate_from seen (Some p) ms s = (Err e, s)"
  using assms
proof (induction ms arbitrary: seen p)
  case (Cons m ms)
  show ?case
  proof (cases "p < mig_version m \<and> mig_version m \<le> i64_max")
    case True
    then have n: "mig_version m \<notin> set seen" "\<forall>x \<in> set (mig_version m # seen). x \<le> mig_version m"
      using Cons.prems(2) by fastforce+
    have e: "validate_from seen (Some p) (m # ms) s = validate_from (mig_version m # seen) (Some (mig_version m)) ms s"
      using True n(1) by (simp add: sqlite_version_def)
    have c: "sorted_wrt (<) (p # map mig_version (m # ms)) \<and> (\<forall>m \<in> set (m # ms). mig_version m \<le> i64_max) \<longleftrightarrow>
        sorted_wrt (<) (mig_version m # map mig_version ms) \<and> (\<forall>m \<in> set ms. mig_version m \<le> i64_max)"
      using True by auto
    show ?thesis unfolding c e using Cons.IH [OF _ n(2)] by simp
  next
    case False
    then show ?thesis
      using Cons.prems by (auto simp: sqlite_version_def errS_def)
  qed
qed (simp add: retS_def)

lemma validate_versions_ok:
  "if versions_ok ms then validate_versions ms s = (Ok (), s) else \<exists>e. validate_versions ms s = (Err e, s)"
proof (cases ms)
  case (Cons m ms')
  then show ?thesis
    using validate_from_ok [of "mig_version m" "[mig_version m]" ms' s]
    by (auto simp: validate_versions_def versions_ok_def sqlite_version_def errS_def)
qed (simp add: validate_versions_def versions_ok_def retS_def)

section \<open>Applying\<close>

definition matches :: "(byte list \<Rightarrow> byte list) \<Rightarrow> history \<Rightarrow> migration \<Rightarrow> bool" where
  "matches sha256 h m \<longleftrightarrow> (case checksums h (int (mig_version m)) of None \<Rightarrow> True | Some c \<Rightarrow> c = sha256 (mig_sql m))"

definition pending :: "history \<Rightarrow> migration list \<Rightarrow> migration list" where
  "pending h ms = filter (\<lambda>m. int (mig_version m) \<notin> applied h) ms"

text \<open>The history after the pending migrations of a list.\<close>

definition migrated :: "(byte list \<Rightarrow> byte list) \<Rightarrow> migration list \<Rightarrow> history \<Rightarrow> history" where
  "migrated sha256 ms h = \<lparr>applied = applied h \<union> int ` mig_version ` set ms,
     checksums = checksums h ++ map_of (map (\<lambda>m. (int (mig_version m), sha256 (mig_sql m))) (pending h ms)),
     batches = batches h @ map mig_sql (pending h ms)\<rparr>"

lemma verify_step:
  assumes "history_tables api sq conn hist sqls" "mig_version m \<le> i64_max"
  shows "sql_step hist (verify_migration sq sha256 conn m) (\<lambda>_ h h'. h' = h \<and> matches sha256 h m)"
proof -
  have "sql_step hist (tryS (stored_checksum sq conn (int (mig_version m))) (\<lambda>stored. case stored of None \<Rightarrow> retS ()
     | Some stored_sum \<Rightarrow> if stored_sum \<noteq> sha256 (mig_sql m)
         then errS (history_error (ascii (''migration checksum mismatch for version '' @ show_nat (mig_version m)))) else retS ()))
     (\<lambda>_ h h'. h' = h \<and> matches sha256 h m)"
    by (rule sql_step_read [OF historyD(3) [OF assms(1)]])
      (auto simp: sql_step_def retS_def errS_def matches_def split: option.splits if_splits)
  then show ?thesis using assms(2) by (simp add: verify_migration_def sqlite_version_def)
qed

lemma verify_all_step:
  assumes h: "history_tables api sq conn hist sqls" and "\<forall>m \<in> set ms. mig_version m \<le> i64_max"
  shows "sql_step hist (verify_all sq sha256 conn ms) (\<lambda>_ h h'. h' = h \<and> (\<forall>m \<in> set ms. matches sha256 h m))"
  using assms(2)
proof (induction ms)
  case (Cons m ms)
  have "sql_step hist (verify_migration sq sha256 conn m) (\<lambda>x h h'. h' = h \<and> matches sha256 h m)"
    using verify_step [OF h, of m] Cons.prems by simp
  then show ?case
    using Cons by (auto intro!: sql_step_read intro: sql_step_mono)
qed (simp add: sql_step_def retS_def)

text \<open>One pending migration.\<close>

definition migrate_one :: "(byte list \<Rightarrow> byte list) \<Rightarrow> migration \<Rightarrow> history \<Rightarrow> history" where
  "migrate_one sha256 m h = h\<lparr>applied := insert (int (mig_version m)) (applied h),
     checksums := (checksums h)(int (mig_version m) \<mapsto> sha256 (mig_sql m)), batches := batches h @ [mig_sql m]\<rparr>"

lemma migrated_Cons:
  assumes "mig_version m \<notin> mig_version ` set ms"
  shows "migrated sha256 (m # ms) h =
    (if int (mig_version m) \<in> applied h then migrated sha256 ms h else migrated sha256 ms (migrate_one sha256 m h))"
proof -
  have p: "pending (migrate_one sha256 m h) ms = pending h ms"
    using assms by (auto simp: pending_def migrate_one_def intro!: filter_cong intro: rev_image_eqI)
  let ?sums = "map_of (map (\<lambda>m. (int (mig_version m), sha256 (mig_sql m))) (pending h ms))"
  have k: "int (mig_version m) \<notin> dom ?sums"
    using assms by (auto simp: pending_def dom_map_of_conv_image_fst intro: rev_image_eqI)
  have c: "pending h (m # ms) = (if int (mig_version m) \<in> applied h then [] else [m]) @ pending h ms"
    by (simp add: pending_def)
  show ?thesis
    unfolding migrated_def p c by (simp add: migrate_one_def map_add_upd_left [OF k] insert_absorb)
qed

lemma apply_all_step:
  assumes h: "history_tables api sq conn hist sqls"
    and "mig_sql ` set ms \<subseteq> sqls" "distinct (map mig_version ms)" "\<forall>m \<in> set ms. mig_version m \<le> i64_max"
    and "apply_all api sq sha256 conn ms s = (r, s')"
  shows "r \<noteq> Panic \<and> (r = Ok () \<longrightarrow> hist (sqlite_state s') = migrated sha256 ms (hist (sqlite_state s)))"
  using assms(2-)
proof (induction ms arbitrary: s)
  case Nil
  then show ?case by (auto simp: retS_def migrated_def pending_def)
next
  case (Cons m ms)
  let ?v = "int (mig_version m)"
  have v: "mig_version m \<le> i64_max" "mig_version m \<notin> mig_version ` set ms" using Cons.prems by auto
  note d = historyD [OF h]
  have ih: "apply_all api sq sha256 conn ms t = (r, s') \<Longrightarrow>
      r \<noteq> Panic \<and> (r = Ok () \<longrightarrow> hist (sqlite_state s') = migrated sha256 ms (hist (sqlite_state t)))" for t
    using Cons.IH [of t] Cons.prems(1-3) by auto
  obtain r1 s1 where 1: "is_applied sq conn ?v s = (r1, s1)" by fastforce
  obtain r2 s2 where 2: "execute_batch api conn (mig_sql m) s1 = (r2, s2)" by fastforce
  obtain r3 s3 where 3: "conn_execute sq conn INSERT_VERSION_SQL [Integer ?v] s2 = (r3, s3)" by fastforce
  obtain r4 s4 where 4: "record_checksum sq conn ?v (sha256 (mig_sql m)) s3 = (r4, s4)" by fastforce
  have sql: "mig_sql m \<in> sqls" using Cons.prems(1) by simp
  note d1 = sql_stepD [OF d(2) 1] and d2 = sql_stepD [OF d(6) [OF sql] 2] and d3 = sql_stepD [OF d(4) 3] and d4 = sql_stepD [OF d(5) 4]
  note run = Cons.prems(4) [simplified, unfolded sqlite_version_def, simplified v if_True tryS_retS]
  show ?case
  proof (cases r1)
    case (Ok b)
    note b = d1(2) [OF Ok]
    show ?thesis
    proof (cases b)
      case True
      then have "apply_all api sq sha256 conn ms s1 = (r, s')" using run 1 Ok by simp
      then show ?thesis using ih [of s1] b True migrated_Cons [OF v(2)] by auto
    next
      case False
      then have r: "tryS (execute_batch api conn (mig_sql m)) (\<lambda>_. tryS (conn_execute sq conn INSERT_VERSION_SQL [Integer ?v]) (\<lambda>_.
          tryS (record_checksum sq conn ?v (sha256 (mig_sql m))) (\<lambda>_. apply_all api sq sha256 conn ms))) s1 = (r, s')"
        using run 1 Ok by simp
      show ?thesis
      proof (cases "r2 = Ok () \<and> r3 = Ok () \<and> r4 = Ok ()")
        case True
        then have "hist (sqlite_state s4) = migrate_one sha256 m (hist (sqlite_state s))"
          using b d2(2) d3(2) d4(2) by (simp add: migrate_one_def)
        moreover have "apply_all api sq sha256 conn ms s4 = (r, s')" using r 2 3 4 True by simp
        ultimately show ?thesis using ih [of s4] b False migrated_Cons [OF v(2)] by auto
      next
        case f: False
        then show ?thesis using r 2 3 4 d2(1) d3(1) d4(1) by (cases r2; cases r3; cases r4) auto
      qed
    qed
  qed (use run 1 d1 in auto)
qed

text \<open>Nothing runs when every version is in the history.\<close>

lemma apply_all_done:
  assumes h: "history_tables api sq conn hist sqls" and "\<forall>m \<in> set ms. mig_version m \<le> i64_max"
    and "int ` mig_version ` set ms \<subseteq> applied (hist (sqlite_state s))" "apply_all api sq sha256 conn ms s = (r, s')"
  shows "hist (sqlite_state s') = hist (sqlite_state s)"
  using assms(2-)
proof (induction ms arbitrary: s)
  case (Cons m ms)
  obtain r1 s1 where 1: "is_applied sq conn (int (mig_version m)) s = (r1, s1)" by fastforce
  note d = sql_stepD [OF historyD(2) [OF h] 1]
  have v: "mig_version m \<le> i64_max" using Cons.prems(1) by simp
  note run = Cons.prems(3) [simplified, unfolded sqlite_version_def, simplified v if_True tryS_retS]
  show ?case
  proof (cases r1)
    case (Ok b)
    note b = d(2) [OF Ok]
    then have "b" using Cons.prems(2) by simp
    then have "apply_all api sq sha256 conn ms s1 = (r, s')" using run 1 Ok by simp
    from Cons.IH [OF _ _ this] show ?thesis using Cons.prems(1,2) b by simp
  qed (use run 1 d in auto)
qed (simp add: retS_def)

text \<open>The four stages of a run.\<close>

lemma migrate_stages:
  assumes h: "history_tables api sq conn hist sqls" and run: "migrate_apply api sq sha256 conn ms s = (r, s')" and v: "versions_ok ms"
  obtains (refused) "r \<noteq> Ok ()" "r \<noteq> Panic" "hist (sqlite_state s') = hist (sqlite_state s)"
  | (applied) t where "hist (sqlite_state t) = hist (sqlite_state s)" "\<forall>m \<in> set ms. matches sha256 (hist (sqlite_state s)) m"
      "apply_all api sq sha256 conn ms t = (r, s')"
proof -
  obtain r1 s1 where 1: "ensure_history api conn s = (r1, s1)" by fastforce
  note d1 = sql_stepD [OF historyD(1) [OF h] 1]
  obtain r2 s2 where 2: "verify_all sq sha256 conn ms s1 = (r2, s2)" by fastforce
  have "\<forall>m \<in> set ms. mig_version m \<le> i64_max" using v by (simp add: versions_ok_def)
  note d2 = sql_stepD [OF verify_all_step [OF h this] 2]
  have val: "validate_versions ms s = (Ok (), s)" using validate_versions_ok [of ms s] v by simp
  show thesis
  proof (cases "r1 = Ok () \<and> r2 = Ok ()")
    case True
    then show thesis using run val 1 2 d1(2) d2(2) by (intro applied [of s2]) (simp_all add: migrate_apply_def)
  next
    case False
    then show thesis using run val 1 2 d1 d2 by (intro refused; cases r1; cases r2) (auto simp: migrate_apply_def)
  qed
qed

text \<open>C39. Migrations run once, in order, and never after a mismatch.  A list of migrations whose versions
  are not ascending, are repeated or do not fit SQLite's integers is refused before anything is done.  A
  recorded checksum that differs from that of the migration refuses the run, and then no batch has run.
  A run that succeeds has run exactly the batches of the versions that were not recorded, in the order
  of the list, and recorded their versions and checksums; running the same list again runs nothing.\<close>

theorem migrations_run_once:
  assumes h: "history_tables api sq conn hist (mig_sql ` set ms)" and run: "migrate_apply api sq sha256 conn ms s = (r, s')"
  shows "r \<noteq> Panic \<and> (\<not> versions_ok ms \<longrightarrow> r \<noteq> Ok () \<and> s' = s) \<and>
    (\<not> (\<forall>m \<in> set ms. matches sha256 (hist (sqlite_state s)) m) \<longrightarrow> r \<noteq> Ok () \<and> hist (sqlite_state s') = hist (sqlite_state s)) \<and>
    (r = Ok () \<longrightarrow> hist (sqlite_state s') = migrated sha256 ms (hist (sqlite_state s)) \<and>
       (\<forall>r2 s2. migrate_apply api sq sha256 conn ms s' = (r2, s2) \<longrightarrow> hist (sqlite_state s2) = hist (sqlite_state s')))"
proof (cases "versions_ok ms")
  case True
  then have d: "distinct (map mig_version ms)" and b: "\<forall>m \<in> set ms. mig_version m \<le> i64_max"
    by (auto simp: versions_ok_def strict_sorted_iff)
  have again: "hist (sqlite_state s2) = hist (sqlite_state s')"
    if "hist (sqlite_state s') = migrated sha256 ms (hist (sqlite_state s))" "migrate_apply api sq sha256 conn ms s' = (r2, s2)" for r2 s2
  proof (rule migrate_stages [OF h that(2) True])
    fix t
    assume a: "hist (sqlite_state t) = hist (sqlite_state s')" "apply_all api sq sha256 conn ms t = (r2, s2)"
    then show ?thesis using apply_all_done [OF h b _ a(2)] that(1) by (simp add: migrated_def)
  qed
  show ?thesis
  proof (rule migrate_stages [OF h run True])
    fix t
    assume t: "hist (sqlite_state t) = hist (sqlite_state s)" "\<forall>m \<in> set ms. matches sha256 (hist (sqlite_state s)) m"
      and run: "apply_all api sq sha256 conn ms t = (r, s')"
    have a: "r \<noteq> Panic \<and> (r = Ok () \<longrightarrow> hist (sqlite_state s') = migrated sha256 ms (hist (sqlite_state s)))"
      using apply_all_step [OF h order_refl d b run] unfolding t(1) .
    have c: "r = Ok () \<Longrightarrow> hist (sqlite_state s') = migrated sha256 ms (hist (sqlite_state s)) \<and>
        (\<forall>r2 s2. migrate_apply api sq sha256 conn ms s' = (r2, s2) \<longrightarrow> hist (sqlite_state s2) = hist (sqlite_state s'))"
      using a again by blast
    show ?thesis using a c True t(2) by (intro conjI impI) simp_all
  qed (use True in simp)
next
  case False
  then obtain e where "validate_versions ms s = (Err e, s)" using validate_versions_ok [of ms s] by auto
  then show ?thesis using run False by (auto simp: migrate_apply_def)
qed

section \<open>Adopting checksums\<close>

lemma check_adoptable_step:
  assumes h: "history_tables api sq conn hist sqls" and "\<forall>m \<in> set ms. mig_version m \<le> i64_max"
  shows "sql_step hist (check_adoptable sq sha256 conn ms)
    (\<lambda>_ h h'. h' = h \<and> (\<forall>m \<in> set ms. int (mig_version m) \<in> applied h \<and> matches sha256 h m))"
  using assms(2)
proof (induction ms)
  case (Cons m ms)
  have v: "mig_version m \<le> i64_max" using Cons.prems by simp
  have "sql_step hist (tryS (verify_migration sq sha256 conn m) (\<lambda>_. check_adoptable sq sha256 conn ms))
      (\<lambda>_ h h'. h' = h \<and> (\<forall>m' \<in> set ms. int (mig_version m') \<in> applied h \<and> matches sha256 h m') \<and> matches sha256 h m)"
    using Cons by (auto intro!: sql_step_read [OF verify_step [OF h v]] intro: sql_step_mono)
  then have "sql_step hist (if \<not> b then errS e else tryS (verify_migration sq sha256 conn m) (\<lambda>_. check_adoptable sq sha256 conn ms))
      (\<lambda>_ h h'. b = (int (mig_version m) \<in> applied h) \<longrightarrow> h' = h \<and> (\<forall>m' \<in> set (m # ms). int (mig_version m') \<in> applied h \<and> matches sha256 h m'))" for b e
    by (auto simp: sql_step_def errS_def split: outcome.splits)
  from sql_step_read [OF historyD(2) [OF h] this] show ?case
    using v by (simp add: sqlite_version_def)
qed (simp add: sql_step_def retS_def)

definition adopted :: "(byte list \<Rightarrow> byte list) \<Rightarrow> migration list \<Rightarrow> history \<Rightarrow> history" where
  "adopted sha256 ms h = h\<lparr>checksums := map_of (map (\<lambda>m. (int (mig_version m), sha256 (mig_sql m))) ms) ++ checksums h\<rparr>"

lemma adopted_Cons:
  assumes "mig_version m \<notin> mig_version ` set ms"
  shows "adopted sha256 (m # ms) h = adopted sha256 ms (if checksums h (int (mig_version m)) = None
    then h\<lparr>checksums := (checksums h)(int (mig_version m) \<mapsto> sha256 (mig_sql m))\<rparr> else h)"
proof -
  let ?v = "int (mig_version m)" and ?sums = "map_of (map (\<lambda>m. (int (mig_version m), sha256 (mig_sql m))) ms)"
  have "map_of (map (\<lambda>m. (int (mig_version m), sha256 (mig_sql m))) (m # ms)) ++ checksums h =
      (if ?v \<in> dom (checksums h) then ?sums ++ checksums h else (?sums ++ checksums h)(?v \<mapsto> sha256 (mig_sql m)))"
    by (auto simp: fun_eq_iff map_add_def split: option.splits)
  then show ?thesis by (auto simp: adopted_def)
qed

lemma adopt_one_step:
  assumes "history_tables api sq conn hist sqls"
  shows "sql_step hist (if stored = None then record_checksum sq conn v c else retS ())
    (\<lambda>_ h h'. stored = checksums h v \<longrightarrow> h' = (if checksums h v = None then h\<lparr>checksums := (checksums h)(v \<mapsto> c)\<rparr> else h))"
proof (cases "stored = None")
  case True
  then show ?thesis by (auto intro: sql_step_mono [OF historyD(5) [OF assms, of v c]])
qed (auto simp: sql_step_def retS_def)

lemma adopt_all_step:
  assumes h: "history_tables api sq conn hist sqls"
    and "distinct (map mig_version ms)" "\<forall>m \<in> set ms. mig_version m \<le> i64_max" "adopt_all sq sha256 conn ms s = (r, s')"
  shows "r \<noteq> Panic \<and> applied (hist (sqlite_state s')) = applied (hist (sqlite_state s)) \<and> batches (hist (sqlite_state s')) = batches (hist (sqlite_state s)) \<and>
    checksums (hist (sqlite_state s)) \<subseteq>\<^sub>m checksums (hist (sqlite_state s')) \<and>
    (r = Ok () \<longrightarrow> hist (sqlite_state s') = adopted sha256 ms (hist (sqlite_state s)))"
  using assms(2-)
proof (induction ms arbitrary: s)
  case Nil
  then show ?case by (auto simp: retS_def adopted_def)
next
  case (Cons m ms)
  let ?v = "int (mig_version m)" and ?h = "hist (sqlite_state s)"
  have v: "mig_version m \<le> i64_max" "mig_version m \<notin> mig_version ` set ms" using Cons.prems by auto
  obtain r1 s1 where 1: "stored_checksum sq conn ?v s = (r1, s1)" by fastforce
  note d1 = sql_stepD [OF historyD(3) [OF h] 1]
  note run = Cons.prems(3) [simplified, unfolded sqlite_version_def, simplified v if_True tryS_retS]
  show ?case
  proof (cases r1)
    case (Ok stored)
    note b = d1(2) [OF Ok]
    obtain r2 s2 where 2: "(if stored = None then record_checksum sq conn ?v (sha256 (mig_sql m)) else retS ()) s1 = (r2, s2)" by fastforce
    note d2 = sql_stepD [OF adopt_one_step [OF h] 2]
    have r2: "r2 \<noteq> Panic" "r2 = Ok () \<Longrightarrow> hist (sqlite_state s2) = (if checksums ?h ?v = None
        then ?h\<lparr>checksums := (checksums ?h)(?v \<mapsto> sha256 (mig_sql m))\<rparr> else ?h)"
      "r2 = Err e \<Longrightarrow> hist (sqlite_state s2) = ?h" for e
      using b d2(1) d2(2) [of "()"] d2(3) [of e] by simp_all
    show ?thesis
    proof (cases r2)
      case Ok2: (Ok u)
      then have a: "adopt_all sq sha256 conn ms s2 = (r, s')" using run 1 2 Ok by simp
      note ih = Cons.IH [OF _ _ a]
      have sub: "checksums ?h \<subseteq>\<^sub>m checksums (hist (sqlite_state s2))" "applied (hist (sqlite_state s2)) = applied ?h"
        "batches (hist (sqlite_state s2)) = batches ?h"
        using r2(2) Ok2 by (auto simp: map_le_def)
      have "adopted sha256 ms (hist (sqlite_state s2)) = adopted sha256 (m # ms) ?h"
        using r2(2) Ok2 by (simp add: adopted_Cons [OF v(2)])
      then show ?thesis using ih sub Cons.prems(1,2) by (auto intro: map_le_trans)
    next
      case (Err e)
      then have "(r, s') = (Err e, s2)" using run 1 2 Ok by simp
      then show ?thesis using r2(3) Err by simp
    qed (use r2 in simp)
  next
    case (Err e)
    then have "(r, s') = (Err e, s1)" using run 1 by simp
    then show ?thesis using d1(3) Err by simp
  qed (use d1 in simp)
qed

text \<open>C40. Adopting checksums only fills gaps.  It never runs a batch and never changes the recorded versions
  or a recorded checksum, whether it succeeds or fails.  It is refused when the versions are not valid,
  when a migration of the list has not been applied, or when a recorded checksum differs, and then nothing
  is recorded.  When it succeeds every migration of the list has a checksum.\<close>

theorem adoption_fills_gaps:
  assumes h: "history_tables api sq conn hist sqls" and run: "adopt_checksums api sq sha256 conn ms s = (r, s')"
  shows "r \<noteq> Panic \<and> applied (hist (sqlite_state s')) = applied (hist (sqlite_state s)) \<and>
    batches (hist (sqlite_state s')) = batches (hist (sqlite_state s)) \<and>
    checksums (hist (sqlite_state s)) \<subseteq>\<^sub>m checksums (hist (sqlite_state s')) \<and>
    (\<not> (versions_ok ms \<and> (\<forall>m \<in> set ms. int (mig_version m) \<in> applied (hist (sqlite_state s)) \<and> matches sha256 (hist (sqlite_state s)) m)) \<longrightarrow>
       r \<noteq> Ok () \<and> hist (sqlite_state s') = hist (sqlite_state s)) \<and>
    (r = Ok () \<longrightarrow> hist (sqlite_state s') = adopted sha256 ms (hist (sqlite_state s)))"
proof (cases "versions_ok ms")
  case True
  then have d: "distinct (map mig_version ms)" and b: "\<forall>m \<in> set ms. mig_version m \<le> i64_max"
    by (auto simp: versions_ok_def strict_sorted_iff)
  have val: "validate_versions ms s = (Ok (), s)" using validate_versions_ok [of ms s] True by simp
  obtain r1 s1 where 1: "ensure_history api conn s = (r1, s1)" by fastforce
  obtain r2 s2 where 2: "check_adoptable sq sha256 conn ms s1 = (r2, s2)" by fastforce
  note d1 = sql_stepD [OF historyD(1) [OF h] 1] and d2 = sql_stepD [OF check_adoptable_step [OF h b] 2]
  show ?thesis
  proof (cases "r1 = Ok () \<and> r2 = Ok ()")
    case ok: True
    then have eq: "hist (sqlite_state s2) = hist (sqlite_state s)"
      and m: "\<forall>m \<in> set ms. int (mig_version m) \<in> applied (hist (sqlite_state s)) \<and> matches sha256 (hist (sqlite_state s)) m"
      using d1(2) [of "()"] d2(2) [of "()"] by simp_all
    have "adopt_all sq sha256 conn ms s2 = (r, s')" using run val 1 2 ok by (simp add: adopt_checksums_def)
    from adopt_all_step [OF h d b this] show ?thesis using True m unfolding eq by simp
  next
    case False
    then have "(r \<noteq> Ok () \<and> r \<noteq> Panic) \<and> hist (sqlite_state s') = hist (sqlite_state s)"
      using run val 1 2 d1 d2 by (cases r1; cases r2) (auto simp: adopt_checksums_def)
    then show ?thesis by simp
  qed
next
  case False
  then obtain e where "validate_versions ms s = (Err e, s)" using validate_versions_ok [of ms s] by auto
  then have "(r, s') = (Err e, s)" using run by (simp add: adopt_checksums_def)
  then show ?thesis using False by simp
qed

section \<open>A small history\<close>

text \<open>An engine that keeps the two tables and the batches, and knows the SQL of the runner.  The statement
  handles are the texts.\<close>

record ledger =
  led_history :: history
  led_version :: int
  led_sum :: "byte list"

definition led_call :: "'r \<Rightarrow> (ledger \<Rightarrow> ledger) \<Rightarrow> ledger \<times> 'w \<Rightarrow> 'r \<times> (ledger \<times> 'w)" where
  "led_call r f qw = (r, (f (fst qw), snd qw))"

definition led_insert :: "byte list \<Rightarrow> ledger \<times> 'w \<Rightarrow> c_int \<times> (ledger \<times> 'w)" where
  "led_insert sql qw = (let q = fst qw; h = led_history q; v = led_version q in
     if sql = INSERT_VERSION_SQL then
       if v \<in> applied h then (SQLITE_CONSTRAINT, qw)
       else (SQLITE_DONE, (q\<lparr>led_history := h\<lparr>applied := insert v (applied h)\<rparr>\<rparr>, snd qw))
     else if sql = INSERT_CHECKSUM_SQL then
       if checksums h v \<noteq> None then (SQLITE_CONSTRAINT, qw)
       else (SQLITE_DONE, (q\<lparr>led_history := h\<lparr>checksums := (checksums h)(v \<mapsto> led_sum q)\<rparr>\<rparr>, snd qw))
     else (SQLITE_CONSTRAINT, qw))"

definition led_step :: "byte list \<Rightarrow> ledger \<times> 'w \<Rightarrow> c_int \<times> (ledger \<times> 'w)" where
  "led_step sql qw = (let q = fst qw in
     if sql = APPLIED_SQL then (SQLITE_ROW, qw)
     else if sql = CHECKSUM_SQL then (if checksums (led_history q) (led_version q) = None then SQLITE_DONE else SQLITE_ROW, qw)
     else led_insert sql qw)"

definition led_api :: "(db_handle, db_store, unit, byte list, ledger) stmt_api" where
  "led_api = \<lparr>sqlite3_prepare_v2 = (\<lambda>_ sql. led_call (SQLITE_OK, Some sql, None) id),
     sqlite3_stmt_finalize = (\<lambda>_. led_call () id), sqlite3_reset = (\<lambda>_. led_call SQLITE_OK id),
     sqlite3_clear_bindings = (\<lambda>_. led_call SQLITE_OK id), sqlite3_step = led_step,
     sqlite3_bind_text = (\<lambda>_ _ _ _. led_call SQLITE_OK id),
     sqlite3_bind_blob = (\<lambda>_ _ b _. led_call SQLITE_OK (\<lambda>q. q\<lparr>led_sum := the b\<rparr>)),
     sqlite3_bind_int64 = (\<lambda>_ _ v. led_call SQLITE_OK (\<lambda>q. q\<lparr>led_version := v\<rparr>)), sqlite3_bind_double = (\<lambda>_ _ _. led_call SQLITE_OK id),
     sqlite3_bind_null = (\<lambda>_ _. led_call SQLITE_OK id),
     sqlite3_bind_parameter_count = (\<lambda>sql _. if sql = INSERT_CHECKSUM_SQL then 2 else 1),
     sqlite3_bind_parameter_name = (\<lambda>_ _ _. None), sqlite3_bind_parameter_index = (\<lambda>_ _ _. 0),
     sqlite3_column_count = (\<lambda>_ _. 1), sqlite3_column_type = (\<lambda>sql _ _. if sql = APPLIED_SQL then SQLITE_INTEGER else SQLITE_BLOB),
     sqlite3_column_text = (\<lambda>_ _ _. None), sqlite3_column_blob = (\<lambda>_ _ q. checksums (led_history q) (led_version q)),
     sqlite3_column_bytes = (\<lambda>_ _ q. int (length (the (checksums (led_history q) (led_version q))))),
     sqlite3_column_int64 = (\<lambda>_ _ q. if led_version q \<in> applied (led_history q) then 1 else 0), sqlite3_column_double = (\<lambda>_ _ _. 0),
     sqlite3_stmt_readonly = (\<lambda>_ _. 1), sqlite3_errmsg = (\<lambda>_ _. None), sqlite3_changes64 = (\<lambda>_ _. 0)\<rparr>"

definition led_sqlite :: "(db_handle, db_store, unit, ledger) sqlite_api" where
  "led_sqlite = \<lparr>sqlite3_open_v2 = (\<lambda>_ _ _. led_call (SQLITE_OK, Some (), None) id),
     sqlite3_exec = (\<lambda>_ sql. led_call (SQLITE_OK, None) (\<lambda>q. if sql = HISTORY_SQL then q
        else q\<lparr>led_history := (led_history q)\<lparr>batches := batches (led_history q) @ [sql]\<rparr>\<rparr>)),
     sqlite3_close = (\<lambda>_. led_call () id), sqlite3_vfs_register = led_call SQLITE_OK id\<rparr>"

lemma led_fields [simp]:
  "sqlite3_prepare_v2 led_api a sql qw = ((SQLITE_OK, Some sql, None), qw)"
  "sqlite3_stmt_finalize led_api a' qw = ((), qw)"
  "sqlite3_reset led_api a' qw = (SQLITE_OK, qw)"
  "sqlite3_bind_blob led_api a' i (Some b) d qw = (SQLITE_OK, ((fst qw)\<lparr>led_sum := b\<rparr>, snd qw))"
  "sqlite3_bind_int64 led_api a' i v qw = (SQLITE_OK, ((fst qw)\<lparr>led_version := v\<rparr>, snd qw))"
  "sqlite3_step led_api a' = led_step a'"
  "sqlite3_bind_parameter_count led_api a' q = (if a' = INSERT_CHECKSUM_SQL then 2 else 1)"
  "sqlite3_column_count led_api a' q = 1"
  "sqlite3_column_type led_api a' i q = (if a' = APPLIED_SQL then SQLITE_INTEGER else SQLITE_BLOB)"
  "sqlite3_column_int64 led_api a' i q = (if led_version q \<in> applied (led_history q) then 1 else 0)"
  "sqlite3_column_blob led_api a' i q = checksums (led_history q) (led_version q)"
  "sqlite3_column_bytes led_api a' i q = int (length (the (checksums (led_history q) (led_version q))))"
  "sqlite3_errmsg led_api a q = None"
  by (simp_all add: led_api_def led_call_def)

lemma led_sql [simp]:
  "APPLIED_SQL \<noteq> CHECKSUM_SQL" "INSERT_VERSION_SQL \<noteq> APPLIED_SQL" "INSERT_VERSION_SQL \<noteq> CHECKSUM_SQL"
  "INSERT_CHECKSUM_SQL \<noteq> APPLIED_SQL" "INSERT_CHECKSUM_SQL \<noteq> CHECKSUM_SQL" "INSERT_CHECKSUM_SQL \<noteq> INSERT_VERSION_SQL"
  "0 \<notin> set APPLIED_SQL" "0 \<notin> set CHECKSUM_SQL" "0 \<notin> set INSERT_VERSION_SQL" "0 \<notin> set INSERT_CHECKSUM_SQL" "0 \<notin> set HISTORY_SQL"
  by code_simp+

lemmas led_sql_sym [simp] = led_sql(1-6) [THEN not_sym]

lemmas led_run = sql_step_def conn_query_scalar_def conn_query_one_def conn_query_optional_def conn_execute_def with_statement_def
  prepare_statement_def stmt_of_raw_def sqlite_get_def tail_is_empty_def from_cached_raw_def usize_of_c_int_def
  query_one_def query_optional_def query_def execute_def reset_and_bind_def reset_def bind_all_with_count_def bind_to_def bind_i64_def bind_blob_def
  bind_result_def rows_new_def first_row_def next_row_def after_step_def step_def step_done_def stmt_error_def not_found_def drop_rows_def clear_static_bindings_def
  drop_statement_def row_get_def check_index_def row_columns_def read_i64_def read_blob_def typed_column_def column_type_def
  c_int_try_from_def c_int_max_def require_type_def sqlite_call_def ignoring_def led_step_def Let_def
  tryS_def retS_def errS_def getS_def modifyS_def ok_orS_def

lemma led_applied: "sql_step led_history (conn_query_scalar led_api (read_i64 led_api) () APPLIED_SQL [Integer v])
    (\<lambda>x h h'. h' = h \<and> x = (if v \<in> applied h then 1 else 0))"
  by (simp add: led_run sqlite_codes)

lemma led_checksum: "sql_step led_history (conn_query_optional led_api () CHECKSUM_SQL [Integer v] (\<lambda>raw. row_get led_api (read_blob led_api) raw 0))
    (\<lambda>x h h'. h' = h \<and> x = checksums h v)"
  by (auto simp add: led_run sqlite_codes)

lemma led_insert_version: "sql_step led_history (conn_execute led_api () INSERT_VERSION_SQL [Integer v])
    (\<lambda>_ h h'. v \<notin> applied h \<and> h' = h\<lparr>applied := insert v (applied h)\<rparr>)"
  by (simp add: led_run led_insert_def sqlite_codes)

lemma led_insert_checksum: "sql_step led_history (conn_execute led_api () INSERT_CHECKSUM_SQL [Integer v, Blob c])
    (\<lambda>_ h h'. checksums h v = None \<and> h' = h\<lparr>checksums := (checksums h)(v \<mapsto> c)\<rparr>)"
  by (simp add: led_run led_insert_def sqlite_codes)

lemma led_batch: "sql_step led_history (execute_batch led_sqlite () HISTORY_SQL) (\<lambda>_ h h'. h' = h)"
    "sql \<noteq> HISTORY_SQL \<Longrightarrow> sql_step led_history (execute_batch led_sqlite () sql) (\<lambda>_ h h'. h' = h\<lparr>batches := batches h @ [sql]\<rparr>)"
  by (simp_all add: led_run execute_batch_def execute_batch_cstr_def led_sqlite_def led_call_def)

lemma led_tables: "HISTORY_SQL \<notin> sqls \<Longrightarrow> history_tables led_sqlite led_api () led_history sqls"
  unfolding history_tables_def
  by (intro conjI allI ballI led_batch led_applied led_checksum led_insert_version led_insert_checksum) auto

lemma led_calls [simp]:
  "ensure_history led_sqlite () s = (Ok (), s)"
  "is_applied led_api () v s = (Ok (v \<in> applied (led_history (sqlite_state s))), s\<lparr>sqlite_state := (sqlite_state s)\<lparr>led_version := v\<rparr>\<rparr>)"
  "stored_checksum led_api () v s = (Ok (checksums (led_history (sqlite_state s)) v), s\<lparr>sqlite_state := (sqlite_state s)\<lparr>led_version := v\<rparr>\<rparr>)"
  by (auto simp: ensure_history_def execute_batch_def execute_batch_cstr_def led_sqlite_def led_call_def is_applied_def stored_checksum_def
      led_run sqlite_codes)

lemma led_writes [simp]:
  "execute_batch led_sqlite () [b] s = (if b = 0 then (Err InteriorNul, s) else (Ok (), s\<lparr>sqlite_state := (sqlite_state s)
     \<lparr>led_history := (led_history (sqlite_state s))\<lparr>batches := batches (led_history (sqlite_state s)) @ [[b]]\<rparr>\<rparr>\<rparr>))"
  "v \<notin> applied (led_history (sqlite_state s)) \<Longrightarrow> conn_execute led_api () INSERT_VERSION_SQL [Integer v] s = (Ok (), s\<lparr>sqlite_state := (sqlite_state s)
     \<lparr>led_version := v, led_history := (led_history (sqlite_state s))\<lparr>applied := insert v (applied (led_history (sqlite_state s)))\<rparr>\<rparr>\<rparr>)"
  "checksums (led_history (sqlite_state s)) v = None \<Longrightarrow> record_checksum led_api () v [b] s = (Ok (), s\<lparr>sqlite_state := (sqlite_state s)
     \<lparr>led_version := v, led_sum := [b], led_history := (led_history (sqlite_state s))\<lparr>checksums := (checksums (led_history (sqlite_state s)))(v \<mapsto> [b])\<rparr>\<rparr>\<rparr>)"
  by (simp_all add: execute_batch_def execute_batch_cstr_def led_sqlite_def led_call_def record_checksum_def led_run led_insert_def sqlite_codes HISTORY_SQL_def ascii_def)

definition led_migrations :: "migration list" where
  "led_migrations = [\<lparr>mig_version = 1, mig_sql = [65]\<rparr>, \<lparr>mig_version = 2, mig_sql = [66]\<rparr>]"

definition led_state :: "(int \<rightharpoonup> byte list) \<Rightarrow> (db_handle, db_store, unit, ledger) db_state" where
  "led_state sums = \<lparr>db_vfs = sample_world, read_connections = Map.empty, write_connections = Map.empty, active_reads = [],
     query_observer_active = (\<lambda>_. False), sqlite_state = \<lparr>led_history = \<lparr>applied = {1}, checksums = sums, batches = [[65]]\<rparr>,
       led_version = 0, led_sum = []\<rparr>\<rparr>"

lemma led_migrations_tables: "history_tables led_sqlite led_api () led_history (mig_sql ` set led_migrations)"
proof -
  have "HISTORY_SQL \<noteq> [65]" "HISTORY_SQL \<noteq> [66]" by (simp_all add: HISTORY_SQL_def ascii_def)
  then show ?thesis by (intro led_tables) (auto simp: led_migrations_def)
qed

theorem migrations_run_once_witness:
  "fst (migrate_apply led_sqlite led_api id () led_migrations (led_state [1 \<mapsto> [65]])) = Ok () \<and>
   batches (led_history (sqlite_state (snd (migrate_apply led_sqlite led_api id () led_migrations (led_state [1 \<mapsto> [65]]))))) = [[65], [66]]"
proof -
  let ?run = "migrate_apply led_sqlite led_api id () led_migrations (led_state [1 \<mapsto> [65]])"
  have "fst ?run = Ok ()"
    by (simp add: migrate_apply_def led_migrations_def led_state_def verify_migration_def validate_versions_def sqlite_version_def
        i64_max_def tryS_def retS_def)
  moreover have "led_history (sqlite_state (led_state [1 \<mapsto> [65]])) = \<lparr>applied = {1}, checksums = [1 \<mapsto> [65]], batches = [[65]]\<rparr>"
    by (simp add: led_state_def)
  ultimately have "fst ?run = Ok () \<and> led_history (sqlite_state (snd ?run)) = migrated id led_migrations \<lparr>applied = {1}, checksums = [1 \<mapsto> [65]], batches = [[65]]\<rparr>"
    using migrations_run_once [OF led_migrations_tables prod.collapse [symmetric], of id "led_state [1 \<mapsto> [65]]"] by simp
  then show ?thesis by (simp add: migrated_def pending_def led_migrations_def)
qed

theorem adoption_fills_gaps_witness:
  "let run = adopt_checksums led_sqlite led_api id () (take 1 led_migrations) (led_state Map.empty) in
     fst run = Ok () \<and> led_history (sqlite_state (snd run)) = \<lparr>applied = {1}, checksums = [1 \<mapsto> [65]], batches = [[65]]\<rparr>"
proof -
  let ?run = "adopt_checksums led_sqlite led_api id () (take 1 led_migrations) (led_state Map.empty)"
  have "fst ?run = Ok ()"
    by (simp add: adopt_checksums_def led_migrations_def led_state_def verify_migration_def validate_versions_def sqlite_version_def
        i64_max_def tryS_def retS_def)
  moreover have "led_history (sqlite_state (led_state Map.empty)) = \<lparr>applied = {1}, checksums = Map.empty, batches = [[65]]\<rparr>"
    by (simp add: led_state_def)
  ultimately have "fst ?run = Ok () \<and> led_history (sqlite_state (snd ?run)) =
      adopted id (take 1 led_migrations) \<lparr>applied = {1}, checksums = Map.empty, batches = [[65]]\<rparr>"
    using adoption_fills_gaps [OF led_migrations_tables prod.collapse [symmetric], of id "take 1 led_migrations" "led_state Map.empty"] by simp
  then show ?thesis by (simp add: adopted_def led_migrations_def Let_def)
qed

end
