(* ===== verification/Libc.thy ===== *)
theory Libc
  imports Vfs_State
begin

text \<open>
  The C string functions of \<open>src/src/sqlite_vfs/libc.rs\<close>, which the bundled SQLite calls on
  \<open>wasm32\<close>.  The linear memory of a WebAssembly instance is a list of bytes and a load outside it
  traps, so a function returns \<open>None\<close> when it runs off the end of memory and every loop ends.  A
  pointer is an index, \<open>0\<close> is the null pointer.
\<close>

type_synonym wasm_mem = "byte list"

definition load :: "wasm_mem \<Rightarrow> nat \<Rightarrow> byte option" where
  "load mem p = (if p < length mem then Some (mem ! p) else None)"

definition low_byte :: "c_int \<Rightarrow> byte" where
  "low_byte v = word_of_int v"

section \<open>Comparison\<close>

function compare_from :: "wasm_mem \<Rightarrow> nat \<Rightarrow> nat \<Rightarrow> nat option \<Rightarrow> nat \<Rightarrow> c_int option" where
  "compare_from mem left right limit index =
    (if (case limit of Some n \<Rightarrow> n \<le> index | None \<Rightarrow> False) then Some 0
     else case load mem (left + index) of None \<Rightarrow> None
     | Some l \<Rightarrow> (case load mem (right + index) of None \<Rightarrow> None
       | Some r \<Rightarrow>
           if l \<noteq> r \<or> l = 0 \<or> r = 0 then Some (int (unat l) - int (unat r))
           else compare_from mem left right limit (Suc index)))"
  by pat_completeness auto
termination
  by (relation "measure (\<lambda>(mem, left, _, _, index). length mem - (left + index))") (auto simp: load_def split: if_splits)

definition compare :: "wasm_mem \<Rightarrow> nat \<Rightarrow> nat \<Rightarrow> nat option \<Rightarrow> c_int option" where
  "compare mem left right limit =
    (if left = 0 \<or> right = 0
     then Some (if left = 0 \<and> right = 0 then 0 else if left = 0 then - 1 else 1)
     else compare_from mem left right limit 0)"

definition strcmp :: "wasm_mem \<Rightarrow> nat \<Rightarrow> nat \<Rightarrow> c_int option" where
  "strcmp mem left right = compare mem left right None"

definition strncmp :: "wasm_mem \<Rightarrow> nat \<Rightarrow> nat \<Rightarrow> nat \<Rightarrow> c_int option" where
  "strncmp mem left right n = compare mem left right (Some n)"

section \<open>Searching\<close>

text \<open>The result is the pointer returned, \<open>0\<close> when there is no match.\<close>

function find_from :: "wasm_mem \<Rightarrow> byte \<Rightarrow> bool \<Rightarrow> nat \<Rightarrow> nat option" where
  "find_from mem target include_nul cursor = (case load mem cursor of None \<Rightarrow> None
    | Some byte \<Rightarrow>
        if byte = target \<and> (include_nul \<or> byte \<noteq> 0) then Some cursor
        else if byte = 0 then Some 0
        else find_from mem target include_nul (Suc cursor))"
  by pat_completeness auto
termination
  by (relation "measure (\<lambda>(mem, _, _, cursor). length mem - cursor)") (auto simp: load_def split: if_splits)

definition find_forward :: "wasm_mem \<Rightarrow> nat \<Rightarrow> c_int \<Rightarrow> bool \<Rightarrow> nat option" where
  "find_forward mem input needle include_nul =
    (if input = 0 then Some 0 else find_from mem (low_byte needle) include_nul input)"

definition strchr :: "wasm_mem \<Rightarrow> nat \<Rightarrow> c_int \<Rightarrow> nat option" where
  "strchr mem input needle = find_forward mem input needle True"

function find_last :: "wasm_mem \<Rightarrow> byte \<Rightarrow> nat \<Rightarrow> nat \<Rightarrow> nat option" where
  "find_last mem target found cursor = (case load mem cursor of None \<Rightarrow> None
    | Some byte \<Rightarrow>
        let found' = (if byte = target then cursor else found) in
        if byte = 0 then Some found' else find_last mem target found' (Suc cursor))"
  by pat_completeness auto
termination
  by (relation "measure (\<lambda>(mem, _, _, cursor). length mem - cursor)") (auto simp: load_def split: if_splits)

definition strrchr :: "wasm_mem \<Rightarrow> nat \<Rightarrow> c_int \<Rightarrow> nat option" where
  "strrchr mem input needle = (if input = 0 then Some 0 else find_last mem (low_byte needle) 0 input)"

fun memchr_from :: "wasm_mem \<Rightarrow> byte \<Rightarrow> nat \<Rightarrow> nat \<Rightarrow> nat option" where
  "memchr_from mem target cursor 0 = Some 0"
| "memchr_from mem target cursor (Suc n) = (case load mem cursor of None \<Rightarrow> None
    | Some byte \<Rightarrow> if byte = target then Some cursor else memchr_from mem target (Suc cursor) n)"

definition memchr :: "wasm_mem \<Rightarrow> nat \<Rightarrow> c_int \<Rightarrow> nat \<Rightarrow> nat option" where
  "memchr mem input needle len = (if input = 0 then Some 0 else memchr_from mem (low_byte needle) input len)"

section \<open>Spans\<close>

function contains_byte :: "wasm_mem \<Rightarrow> nat \<Rightarrow> byte \<Rightarrow> bool option" where
  "contains_byte mem cursor needle = (case load mem cursor of None \<Rightarrow> None
    | Some byte \<Rightarrow>
        if byte = 0 then Some False
        else if byte = needle then Some True
        else contains_byte mem (Suc cursor) needle)"
  by pat_completeness auto
termination
  by (relation "measure (\<lambda>(mem, cursor, _). length mem - cursor)") (auto simp: load_def split: if_splits)

function span_from :: "wasm_mem \<Rightarrow> nat \<Rightarrow> nat \<Rightarrow> bool \<Rightarrow> nat \<Rightarrow> nat option" where
  "span_from mem cursor chars accept_match len = (case load mem cursor of None \<Rightarrow> None
    | Some byte \<Rightarrow>
        if byte = 0 then Some len
        else case contains_byte mem chars byte of None \<Rightarrow> None
        | Some contains \<Rightarrow>
            if contains \<noteq> accept_match then Some len
            else span_from mem (Suc cursor) chars accept_match (Suc len))"
  by pat_completeness auto
termination
  by (relation "measure (\<lambda>(mem, cursor, _, _, _). length mem - cursor)") (auto simp: load_def split: if_splits)

definition span :: "wasm_mem \<Rightarrow> nat \<Rightarrow> nat \<Rightarrow> bool \<Rightarrow> nat option" where
  "span mem input chars accept_match =
    (if input = 0 \<or> chars = 0 then Some 0 else span_from mem input chars accept_match 0)"

definition strspn :: "wasm_mem \<Rightarrow> nat \<Rightarrow> nat \<Rightarrow> nat option" where
  "strspn mem input accept = span mem input accept True"

definition strcspn :: "wasm_mem \<Rightarrow> nat \<Rightarrow> nat \<Rightarrow> nat option" where
  "strcspn mem input reject = span mem input reject False"

declare compare_from.simps [simp del] find_from.simps [simp del] find_last.simps [simp del]
  contains_byte.simps [simp del] span_from.simps [simp del]

section \<open>Strings in memory\<close>

text \<open>\<open>cstr mem p s\<close>: the zero-terminated string at \<open>p\<close> is \<open>s\<close>.\<close>

fun cstr :: "wasm_mem \<Rightarrow> nat \<Rightarrow> byte list \<Rightarrow> bool" where
  "cstr mem p [] \<longleftrightarrow> load mem p = Some 0"
| "cstr mem p (x # s) \<longleftrightarrow> x \<noteq> 0 \<and> load mem p = Some x \<and> cstr mem (Suc p) s"

lemma cstr_load: "cstr mem p s \<Longrightarrow> i \<le> length s \<Longrightarrow> load mem (p + i) = Some ((s @ [0]) ! i)"
proof (induction mem p s arbitrary: i rule: cstr.induct)
  case (2 mem p x s)
  then show ?case by (cases i) auto
qed simp

lemma cstr_nonzero: "cstr mem p s \<Longrightarrow> x \<in> set s \<Longrightarrow> x \<noteq> 0"
  by (induction mem p s rule: cstr.induct) auto

text \<open>The order of strings: by their first difference, bytes unsigned, a prefix first.\<close>

fun string_diff :: "byte list \<Rightarrow> byte list \<Rightarrow> c_int" where
  "string_diff (x # s) (y # t) = (if x = y then string_diff s t else int (unat x) - int (unat y))"
| "string_diff [] [] = 0"
| "string_diff [] (y # t) = - int (unat y)"
| "string_diff (x # s) [] = int (unat x)"

lemma compare_from_spec:
  assumes "cstr mem (l + i) s" "cstr mem (r + i) t"
  shows "compare_from mem l r None i = Some (string_diff s t)"
    "i \<le> n \<Longrightarrow> compare_from mem l r (Some n) i = Some (string_diff (take (n - i) s) (take (n - i) t))"
proof -
  have "compare_from mem l r None i = Some (string_diff s t) \<and>
    (i \<le> n \<longrightarrow> compare_from mem l r (Some n) i = Some (string_diff (take (n - i) s) (take (n - i) t)))"
    using assms
  proof (induction s t arbitrary: i rule: string_diff.induct)
    case (1 x s y t)
    then show ?case
      using compare_from.simps [of mem l r _ i]
      by (cases "n \<le> i") (auto simp: take_Cons' Suc_diff_le split: if_splits)
  next
    case 2
    then show ?case using compare_from.simps [of mem l r _ i] by auto
  next
    case (3 y t)
    then show ?case using compare_from.simps [of mem l r _ i] by (cases "n \<le> i") (auto simp: take_Cons')
  next
    case (4 x s)
    then show ?case using compare_from.simps [of mem l r _ i] by (cases "n \<le> i") (auto simp: take_Cons')
  qed
  then show "compare_from mem l r None i = Some (string_diff s t)"
    "i \<le> n \<Longrightarrow> compare_from mem l r (Some n) i = Some (string_diff (take (n - i) s) (take (n - i) t))" by blast+
qed

lemma string_diff_0: "0 \<notin> set s \<Longrightarrow> 0 \<notin> set t \<Longrightarrow> string_diff s t = 0 \<longleftrightarrow> s = t"
  by (induction s t rule: string_diff.induct) (auto simp: word_uint_eq_iff)

lemma string_diff_less:
  "0 \<notin> set s \<Longrightarrow> 0 \<notin> set t \<Longrightarrow> string_diff s t < 0 \<longleftrightarrow> (s, t) \<in> lexord {(x, y). x < y}"
  by (induction s t rule: string_diff.induct) (auto simp: word_less_def word_uint_eq_iff less_le)

lemma find_from_spec:
  assumes "cstr mem p s"
  shows "find_from mem x True p = Some (if x \<in> set (s @ [0]) then p + length (takeWhile (\<lambda>y. y \<noteq> x) s) else 0)"
  using assms
proof (induction mem p s rule: cstr.induct)
  case (1 mem p)
  then show ?case using find_from.simps [of mem x True p] by auto
next
  case (2 mem p y s)
  then show ?case using find_from.simps [of mem x True p] by auto
qed

lemma find_last_spec:
  assumes "cstr mem p s"
  shows "find_last mem x d p = Some (if x = 0 then p + length s
    else if x \<in> set s then p + (length s - Suc (length (takeWhile (\<lambda>y. y \<noteq> x) (rev s)))) else d)"
  using assms
proof (induction mem p s arbitrary: d rule: cstr.induct)
  case (1 mem p)
  then show ?case using find_last.simps [of mem x d p] by auto
next
  case (2 mem p y s)
  have tw: "length (takeWhile (\<lambda>z. z \<noteq> x) (rev s @ [y])) =
      (if x \<in> set s then length (takeWhile (\<lambda>z. z \<noteq> x) (rev s)) else if y = x then length s else Suc (length s))"
    by (auto simp: takeWhile_append)
  have lt: "x \<in> set s \<Longrightarrow> length (takeWhile (\<lambda>z. z \<noteq> x) (rev s)) < length s"
    by (metis (mono_tags, lifting) length_rev length_takeWhile_le nat_less_le set_rev set_takeWhileD takeWhile_eq_all_conv takeWhile_eq_take take_all_iff)
  show ?case using 2 find_last.simps [of mem x d p] tw lt by (auto simp: Let_def)
qed

lemma memchr_from_spec:
  "p + n \<le> length mem \<Longrightarrow> memchr_from mem x p n = Some (let bs = take n (drop p mem) in
    if x \<in> set bs then p + length (takeWhile (\<lambda>y. y \<noteq> x) bs) else 0)"
proof (induction n arbitrary: p)
  case (Suc n)
  then have "take (Suc n) (drop p mem) = mem ! p # take n (drop (Suc p) mem)"
    by (simp add: Cons_nth_drop_Suc [symmetric])
  then show ?case using Suc by (simp add: load_def Let_def)
qed simp

lemma contains_byte_spec: "cstr mem q t \<Longrightarrow> contains_byte mem q x = Some (x \<in> set t)" if "x \<noteq> 0"
proof (induction mem q t rule: cstr.induct)
  case (1 mem p)
  then show ?case using contains_byte.simps [of mem p x] by auto
next
  case (2 mem p y t)
  then show ?case using contains_byte.simps [of mem p x] by auto
qed

lemma span_from_spec:
  assumes "cstr mem p s" "cstr mem q t"
  shows "span_from mem p q b n = Some (n + length (takeWhile (\<lambda>x. (x \<in> set t) = b) s))"
  using assms
proof (induction mem p s arbitrary: n rule: cstr.induct)
  case (1 mem p)
  then show ?case using span_from.simps [of mem p q b n] by auto
next
  case (2 mem p x s)
  then show ?case using span_from.simps [of mem p q b n] contains_byte_spec [of x mem q t] by auto
qed

text \<open>C36. The C string functions meet the C standard on zero-terminated strings in memory: \<open>strcmp\<close> is
  zero exactly on equal strings and negative exactly when the first precedes the second in the
  unsigned lexicographic order, \<open>strncmp\<close> is the same on prefixes, \<open>strchr\<close>, \<open>strrchr\<close> and \<open>memchr\<close>
  find the first or last occurrence and return null otherwise, \<open>strspn\<close> and \<open>strcspn\<close> measure the
  longest prefix inside or outside the set; all of them return.\<close>

theorem libc_strings_correct:
  assumes s: "cstr mem p s" "p \<noteq> 0" and t: "cstr mem q t" "q \<noteq> 0"
  shows "(\<exists>d. strcmp mem p q = Some d \<and> (d = 0 \<longleftrightarrow> s = t) \<and> (d < 0 \<longleftrightarrow> (s, t) \<in> lexord {(x, y). x < y})) \<and>
    (\<exists>d. strncmp mem p q n = Some d \<and> (d = 0 \<longleftrightarrow> take n s = take n t) \<and>
      (d < 0 \<longleftrightarrow> (take n s, take n t) \<in> lexord {(x, y). x < y})) \<and>
    strchr mem p c = Some (if low_byte c \<in> set (s @ [0]) then p + length (takeWhile (\<lambda>y. y \<noteq> low_byte c) s) else 0) \<and>
    strrchr mem p c = Some (if low_byte c = 0 then p + length s else if low_byte c \<in> set s
      then p + (length s - Suc (length (takeWhile (\<lambda>y. y \<noteq> low_byte c) (rev s)))) else 0) \<and>
    (p + n \<le> length mem \<longrightarrow> memchr mem p c n = Some (let bs = take n (drop p mem) in
      if low_byte c \<in> set bs then p + length (takeWhile (\<lambda>y. y \<noteq> low_byte c) bs) else 0)) \<and>
    strspn mem p q = Some (length (takeWhile (\<lambda>x. x \<in> set t) s)) \<and>
    strcspn mem p q = Some (length (takeWhile (\<lambda>x. x \<notin> set t) s))"
proof -
  have z: "0 \<notin> set s" "0 \<notin> set t" using cstr_nonzero [OF s(1)] cstr_nonzero [OF t(1)] by auto
  then have zn: "0 \<notin> set (take n s)" "0 \<notin> set (take n t)" by (auto dest: in_set_takeD)
  have c: "strcmp mem p q = Some (string_diff s t)" "strncmp mem p q n = Some (string_diff (take n s) (take n t))"
    using compare_from_spec(1) [of mem p 0 s q t] compare_from_spec(2) [of mem p 0 s q t n] s t
    by (simp_all add: strcmp_def strncmp_def compare_def)
  show ?thesis
    using c string_diff_0 [OF z] string_diff_less [OF z] string_diff_0 [OF zn] string_diff_less [OF zn]
      find_from_spec [OF s(1)] find_last_spec [OF s(1)] memchr_from_spec [of p n mem] span_from_spec [OF s(1) t(1), of _ 0] s(2) t(2)
    by (simp add: strchr_def find_forward_def strrchr_def memchr_def strspn_def strcspn_def span_def)
qed

theorem libc_strings_correct_witness:
  "strspn [9, 97, 98, 99, 0, 98, 97, 0] 1 5 = Some 2 \<and> strcspn [9, 97, 98, 99, 0, 98, 97, 0] 1 5 = Some 0"
proof -
  have "cstr [9, 97, 98, 99, 0, 98, 97, 0] 1 [97, 98, 99]" "cstr [9, 97, 98, 99, 0, 98, 97, 0] 5 [98, 97]"
    by (simp_all add: load_def)
  from libc_strings_correct [OF this(1) _ this(2), of 0] show ?thesis by simp
qed

end
