(* ===== verification/Spec2Isabelle.thy ===== *)
theory Spec2Isabelle
  imports Budgeted_Update Budget_Props Borrowed Migrate_Props Db_Props Libc
begin

text \<open>
  Verification of the crate \<open>ic-sqlite-vfs\<close>: a SQLite VFS that keeps a database in the stable
  memory of an Internet Computer canister.
\<close>

end
